(* ===== verification/Us_Prelude.thy ===== *)
theory Us_Prelude
  imports Main "HOL-Library.Word" "HOL-Library.Monad_Syntax"
begin

text \<open>
  What every component of the uSockets model shares: the names of the C types, the lemma
  collections, and the theory of pointer chains. A C pointer is an address (a natural
  number), the null pointer is address 0. A doubly linked list of the program (the sockets of
  a context, its listen sockets, the low-priority queue, the contexts of a loop) is a chain
  through a next field and a prev field; the predicate \<open>dll\<close> relates the two fields and the
  head pointer to the list of addresses they spell out, \<open>sll\<close> does it for the close list,
  which is linked by its next field only.
\<close>

type_synonym addr = nat
type_synonym u8 = "8 word"
type_synonym u16 = "16 word"
type_synonym u32 = "32 word"
type_synonym byte = "8 word"

abbreviation (input) NULL :: addr where "NULL \<equiv> 0"

named_theorems us_ops \<open>definitions of the operations, for unfolding\<close>
named_theorems us_frame \<open>what an operation leaves unchanged\<close>

section \<open>Options as results\<close>

text \<open>
  Every operation that dereferences a pointer returns an option: \<open>None\<close> is undefined
  behaviour of the C program (a null, dangling or ill-typed pointer), \<open>Some\<close> its result.
\<close>

lemma bind_eq_SomeE:
  assumes "Option.bind m f = Some y"
  obtains x where "m = Some x" and "f x = Some y"
  using assms by (cases m) auto

section \<open>Chains of pointers\<close>

fun dll :: "(addr \<Rightarrow> addr) \<Rightarrow> (addr \<Rightarrow> addr) \<Rightarrow> addr \<Rightarrow> addr \<Rightarrow> addr list \<Rightarrow> bool" where
  "dll nx pv p h [] \<longleftrightarrow> h = NULL"
| "dll nx pv p h (a # as) \<longleftrightarrow> h = a \<and> a \<noteq> NULL \<and> pv a = p \<and> dll nx pv a (nx a) as"

fun sll :: "(addr \<Rightarrow> addr) \<Rightarrow> addr \<Rightarrow> addr list \<Rightarrow> bool" where
  "sll nx h [] \<longleftrightarrow> h = NULL"
| "sll nx h (a # as) \<longleftrightarrow> h = a \<and> a \<noteq> NULL \<and> sll nx (nx a) as"

definition hd0 :: "addr list \<Rightarrow> addr" where
  "hd0 xs = (case xs of [] \<Rightarrow> NULL | x # _ \<Rightarrow> x)"

definition last0 :: "addr \<Rightarrow> addr list \<Rightarrow> addr" where
  "last0 p xs = (if xs = [] then p else last xs)"

lemma hd0_simps [simp]: "hd0 [] = NULL" "hd0 (x # xs) = x"
  by (simp_all add: hd0_def)

lemma last0_simps [simp]: "last0 p [] = p" "last0 p (xs @ [x]) = x"
  "last0 p (x # xs) = last0 x xs"
  by (simp_all add: last0_def)

lemma sll_of_dll: "dll nx pv p h xs \<Longrightarrow> sll nx h xs"
  by (induction xs arbitrary: p h) auto

lemma sll_head: "sll nx h xs \<Longrightarrow> h = hd0 xs"
  by (cases xs) auto

lemma dll_head: "dll nx pv p h xs \<Longrightarrow> h = hd0 xs"
  by (cases xs) auto

lemma sll_nonnull: "sll nx h xs \<Longrightarrow> NULL \<notin> set xs"
  by (induction xs arbitrary: h) auto

lemma sll_unique: "sll nx h xs \<Longrightarrow> sll nx h ys \<Longrightarrow> xs = ys"
proof (induction xs arbitrary: h ys)
  case Nil
  then show ?case by (cases ys) auto
next
  case (Cons x xs)
  then show ?case by (cases ys) auto
qed

lemma sll_append: "sll nx h (as @ s # bs) \<Longrightarrow> sll nx s (s # bs)"
  by (induction as arbitrary: h) auto

lemma sll_notin_tl: "sll nx s (s # bs) \<Longrightarrow> s \<notin> set bs"
proof
  assume s: "sll nx s (s # bs)" and "s \<in> set bs"
  then obtain us vs where bs: "bs = us @ s # vs"
    by (meson split_list)
  with s have "sll nx (nx s) (us @ s # vs)" by simp
  then have "sll nx s (s # vs)" by (rule sll_append)
  with s have "s # bs = s # vs" using sll_unique [of nx s "s # bs" "s # vs"] by blast
  with bs show False by simp
qed

lemma sll_distinct: "sll nx h xs \<Longrightarrow> distinct xs"
proof (induction xs arbitrary: h)
  case (Cons x xs)
  then show ?case using sll_notin_tl [of nx x xs] by auto
qed simp

lemma dll_distinct: "dll nx pv p h xs \<Longrightarrow> distinct xs"
  by (blast intro: sll_distinct sll_of_dll)

lemma dll_nonnull: "dll nx pv p h xs \<Longrightarrow> NULL \<notin> set xs"
  by (blast dest: sll_nonnull sll_of_dll)

lemma sll_cong: "(\<And>a. a \<in> set xs \<Longrightarrow> nx a = nx' a) \<Longrightarrow> sll nx h xs = sll nx' h xs"
  by (induction xs arbitrary: h) auto

lemma dll_cong:
  "(\<And>a. a \<in> set xs \<Longrightarrow> nx a = nx' a \<and> pv a = pv' a) \<Longrightarrow> dll nx pv p h xs = dll nx' pv' p h xs"
  by (induction xs arbitrary: p h) auto

lemma dll_upd_other [simp]:
  "a \<notin> set xs \<Longrightarrow> dll (nx(a := v)) pv p h xs = dll nx pv p h xs"
  "a \<notin> set xs \<Longrightarrow> dll nx (pv(a := v)) p h xs = dll nx pv p h xs"
  by (auto intro!: dll_cong)

lemma sll_upd_other [simp]: "a \<notin> set xs \<Longrightarrow> sll (nx(a := v)) h xs = sll nx h xs"
  by (auto intro!: sll_cong)

text \<open>The neighbours a node of a well-formed chain has.\<close>

lemma dll_neighbours:
  "dll nx pv p h (as @ s # bs) \<Longrightarrow> pv s = last0 p as \<and> nx s = hd0 bs \<and> s \<noteq> NULL"
proof (induction as arbitrary: p h)
  case Nil
  then show ?case by (auto dest: dll_head)
qed auto

lemma dll_next: "dll nx pv p h (x # xs) \<Longrightarrow> nx x = hd0 xs \<and> x \<noteq> NULL \<and> h = x"
  by (auto dest: dll_head)

lemma dll_set_prev:
  "dll nx pv p h (b # bs) \<Longrightarrow> dll nx (pv(b := q)) q h (b # bs)"
  by (frule dll_distinct) (auto intro!: dll_cong [THEN iffD1])

lemma dll_remove_prefix:
  "dll nx pv p h (as @ s # bs) \<Longrightarrow> p \<notin> set (as @ s # bs) \<Longrightarrow>
   dll (if as = [] then nx else nx(last as := hd0 bs))
       (if bs = [] then pv else pv(hd0 bs := last0 p as))
       p (if as = [] then hd0 bs else h) (as @ bs)"
proof (induction as arbitrary: p h)
  case Nil
  then have "dll nx pv s (nx s) bs" and h: "nx s = hd0 bs" by (auto dest: dll_head)
  show ?case
  proof (cases bs)
    case (Cons b bs')
    then have "dll nx (pv(b := p)) p (nx s) (b # bs')"
      using \<open>dll nx pv s (nx s) bs\<close> by (simp only: dll_set_prev)
    then show ?thesis using Cons h by (simp del: dll.simps fun_upd_apply)
  qed (use \<open>dll nx pv s (nx s) bs\<close> in simp)
next
  case (Cons a as)
  have d: "distinct (a # as @ s # bs)"
    using dll_distinct [OF Cons.prems(1)] by simp
  have IH: "dll (if as = [] then nx else nx(last as := hd0 bs))
       (if bs = [] then pv else pv(hd0 bs := last0 a as))
       a (if as = [] then hd0 bs else nx a) (as @ bs)"
    using Cons.prems d by (intro Cons.IH) auto
  have "hd0 bs \<noteq> a" using Cons.prems d by (cases bs) auto
  then have a: "\<And>v. (pv(hd0 bs := v)) a = pv a" by simp
  have l: "as \<noteq> [] \<Longrightarrow> last as \<noteq> a" using d by auto
  show ?case
    using Cons.prems d IH a l
    by (cases "as = []"; cases "bs = []")
      (simp_all del: fun_upd_apply add: fun_upd_same fun_upd_other)
qed

lemma dll_push:
  "dll nx pv NULL h xs \<Longrightarrow> a \<notin> set xs \<Longrightarrow> a \<noteq> NULL \<Longrightarrow>
   dll (nx(a := h)) (if h = NULL then pv(a := NULL) else (pv(a := NULL))(h := a)) NULL a (a # xs)"
proof (cases xs)
  case (Cons x ys)
  assume *: "dll nx pv NULL h xs" "a \<notin> set xs" "a \<noteq> NULL"
  then have "dll nx (pv(x := a)) a h (x # ys)" using Cons by (simp only: dll_set_prev)
  moreover have "pv(x := a, a := NULL) = pv(a := NULL, x := a)"
    using * Cons by (intro fun_upd_twist) auto
  ultimately have "dll nx ((pv(a := NULL))(x := a)) a h (x # ys)"
    using * Cons by (metis dll_upd_other(2))
  then show ?thesis using * Cons by simp
qed auto

text \<open>A fresh address of a heap, as the allocators of the concrete examples return it.\<close>

lemma Suc_Max_fresh: "finite (dom m) \<Longrightarrow> m (Suc (Max (insert 0 (dom m)))) = None"
proof (rule ccontr)
  assume f: "finite (dom m)" and "m (Suc (Max (insert 0 (dom m)))) \<noteq> None"
  then have "Suc (Max (insert 0 (dom m))) \<le> Max (insert 0 (dom m))" by (intro Max_ge) auto
  then show False by simp
qed

section \<open>Programs that may give up\<close>

text \<open>
  Some parts of the library end the process where they give up. There the result is a sum: on the
  left that the process exits or that its behaviour is undefined.
\<close>

datatype perr = Exits | Undefined

definition ebind :: "perr + 'a \<Rightarrow> ('a \<Rightarrow> perr + 'b) \<Rightarrow> perr + 'b" where
  "ebind x f = (case x of Inl e \<Rightarrow> Inl e | Inr y \<Rightarrow> f y)"

lemma ebind_simps [simp]: "ebind (Inl e) f = Inl e" "ebind (Inr y) f = f y"
  by (simp_all add: ebind_def)

definition esome :: "'a option \<Rightarrow> perr + 'a" where
  "esome x = (case x of None \<Rightarrow> Inl Undefined | Some y \<Rightarrow> Inr y)"

lemma esome_simps [simp]: "esome None = Inl Undefined" "esome (Some y) = Inr y"
  by (simp_all add: esome_def)

end
