(* ===== verification/Us_Sni.thy ===== *)
theory Us_Sni
  imports Us_Prelude "HOL-Library.AList" "HOL-Library.List_Lexorder" "HOL-Library.Char_ord"
    "HOL-Library.Multiset"
begin

text \<open>
  The tree of host names of \<open>src/crypto/sni_tree.cpp\<close>, which finds the TLS context for a server
  name. A node holds a user pointer (null when the node is no name itself) and its children by
  label, a \<open>std::map\<close>: here an association list ordered by label. The reference is a function
  from label lists to users: adding and removing update it at one point, and \<open>sni_find\<close> takes
  the first hit in a fixed order of wildcard patterns.
\<close>

section \<open>The tree\<close>

datatype sni_node = SniNode (node_user: addr) (node_children: "(string \<times> sni_node) list")

definition MAX_LABELS :: nat where "MAX_LABELS = 10"

text \<open>The labels of a host name, cut at the dots; a dot at the end adds no label.\<close>

fun labels :: "string \<Rightarrow> string list" where
  "labels [] = []"
| "labels (c # cs) = (let label = takeWhile (\<lambda>x. x \<noteq> CHR ''.'') (c # cs)
     in label # labels (drop (Suc (length label)) (c # cs)))"

declare labels.simps(2) [simp del]

text \<open>
  The three walks down the tree. \<open>add_path\<close> also says which labels it duplicated with
  \<open>malloc\<close>, \<open>removeUser\<close> which ones it freed.
\<close>

fun removeUser :: "string list \<Rightarrow> sni_node \<Rightarrow> addr \<times> sni_node \<times> string list" where
  "removeUser [] (SniNode u cs) = (u, SniNode NULL cs, [])"
| "removeUser (l # ls) (SniNode u cs) = (case map_of cs l of None \<Rightarrow> (NULL, SniNode u cs, [])
     | Some n \<Rightarrow> (let (r, n', freed) = removeUser ls n in
         if node_children n' = [] \<and> node_user n' = NULL
         then (r, SniNode u (AList.delete l cs), freed @ [l])
         else (r, SniNode u (AList.update l n' cs), freed)))"

fun getUser :: "string list \<Rightarrow> sni_node \<Rightarrow> addr" where
  "getUser [] (SniNode u cs) = u"
| "getUser (l # ls) (SniNode u cs) =
     (let m = (case map_of cs l of None \<Rightarrow> NULL | Some n \<Rightarrow> getUser ls n) in
      if m \<noteq> NULL then m
      else (case map_of cs ''*'' of None \<Rightarrow> NULL | Some n \<Rightarrow> getUser ls n))"

fun add_path :: "string list \<Rightarrow> addr \<Rightarrow> sni_node \<Rightarrow> int \<times> sni_node \<times> string list" where
  "add_path [] user (SniNode u cs) =
     (if u \<noteq> NULL then (1, SniNode u cs, []) else (0, SniNode user cs, []))"
| "add_path (l # ls) user (SniNode u cs) = (case map_of cs l of
       Some n \<Rightarrow> (let (r, n', new) = add_path ls user n in (r, SniNode u (AList.update l n' cs), new))
     | None \<Rightarrow> (let (r, n', new) = add_path ls user (SniNode NULL []) in
         (r, SniNode u (insort_key fst (l, n') cs), l # new)))"

definition sni_new :: sni_node where "sni_new = SniNode NULL []"

definition sni_add :: "sni_node \<Rightarrow> string \<Rightarrow> addr \<Rightarrow> int \<times> sni_node" where
  "sni_add t hostname user = (let (r, t', _) = add_path (labels hostname) user t in (r, t'))"

definition sni_remove :: "sni_node \<Rightarrow> string \<Rightarrow> addr \<times> sni_node" where
  "sni_remove t hostname = (let ls = labels hostname in
     if length ls > MAX_LABELS then (NULL, t)
     else (let (r, t', _) = removeUser ls t in (r, t')))"

definition sni_find :: "sni_node \<Rightarrow> string \<Rightarrow> addr" where
  "sni_find t hostname = (let ls = labels hostname in
     if length ls > MAX_LABELS then NULL else getUser ls t)"

text \<open>
  The destructor: it frees the labels of the children and hands their users to the callback,
  then the map destroys the children (in an order of its own; the facts below count).
\<close>

datatype sni_event = FreeLabel string | FreeCb addr

fun sni_delete :: "sni_node \<Rightarrow> sni_event list" where
  "sni_delete (SniNode u cs) =
     concat (map (\<lambda>(l, n). FreeLabel l # (if node_user n \<noteq> NULL then [FreeCb (node_user n)] else [])) cs) @
     concat (map (\<lambda>(l, n). sni_delete n) cs)"

definition sni_free :: "sni_node \<Rightarrow> sni_event list" where
  "sni_free t = sni_delete t"

section \<open>Reference: names and their users\<close>

fun user_at :: "sni_node \<Rightarrow> string list \<Rightarrow> addr" where
  "user_at (SniNode u cs) [] = u"
| "user_at (SniNode u cs) (l # ls) = (case map_of cs l of None \<Rightarrow> NULL | Some n \<Rightarrow> user_at n ls)"

text \<open>The patterns a name is tried against, in order: the label itself before the wildcard.\<close>

fun patterns :: "string list \<Rightarrow> string list list" where
  "patterns [] = [[]]"
| "patterns (l # ls) = map ((#) l) (patterns ls) @ map ((#) ''*'') (patterns ls)"

definition first_user :: "addr list \<Rightarrow> addr" where
  "first_user us = (case filter (\<lambda>u. u \<noteq> NULL) us of [] \<Rightarrow> NULL | u # _ \<Rightarrow> u)"

lemma first_user_simps [simp]:
  "first_user [] = NULL" "first_user (u # us) = (if u \<noteq> NULL then u else first_user us)"
  by (simp_all add: first_user_def)

lemma first_user_append [simp]:
  "first_user (us @ vs) = (if first_user us \<noteq> NULL then first_user us else first_user vs)"
  by (induction us) auto

lemma first_user_null: "(\<And>u. u \<in> set us \<Longrightarrow> u = NULL) \<Longrightarrow> first_user us = NULL"
  by (induction us) auto

lemma getUser_eq: "getUser ls t = first_user (map (user_at t) (patterns ls))"
proof (induction ls arbitrary: t)
  case Nil
  then show ?case by (cases t) simp
next
  case (Cons l ls)
  obtain u cs where t: "t = SniNode u cs" by (cases t)
  have *: "first_user (map (user_at t) (map ((#) k) (patterns ls))) =
      (case map_of cs k of None \<Rightarrow> NULL | Some n \<Rightarrow> getUser ls n)" for k
    using Cons.IH by (cases "map_of cs k") (auto simp: t comp_def intro: first_user_null)
  show ?case using * [of l] * [of "''*''"] by (simp add: t Let_def del: map_map)
qed

section \<open>Well-formed trees\<close>

text \<open>Children are ordered by label, and a node without a user has children.\<close>

definition live :: "sni_node \<Rightarrow> bool" where
  "live n \<longleftrightarrow> node_user n \<noteq> NULL \<or> node_children n \<noteq> []"

fun wf_node :: "sni_node \<Rightarrow> bool" where
  "wf_node (SniNode u cs) \<longleftrightarrow> sorted (map fst cs) \<and> distinct (map fst cs) \<and>
     list_all (\<lambda>(l, n). live n \<and> wf_node n) cs"

lemma wf_node_child: "wf_node (SniNode u cs) \<Longrightarrow> map_of cs l = Some n \<Longrightarrow> wf_node n \<and> live n"
  by (auto simp: list_all_iff dest!: map_of_SomeD)

lemma wf_new [simp]: "wf_node sni_new"
  by (simp add: sni_new_def)

lemma update_keys: "map_of cs l = Some n \<Longrightarrow> map fst (AList.update l n' cs) = map fst cs"
  by (induction cs) auto

lemma update_set: "distinct (map fst cs) \<Longrightarrow> map_of cs l = Some n \<Longrightarrow>
    set (AList.update l n' cs) = insert (l, n') (set cs - {(l, n)})"
  by (induction cs) (auto dest: map_of_SomeD weak_map_of_SomeI simp: image_iff)

lemma update_wf:
  assumes "wf_node (SniNode u cs)" and "map_of cs l = Some n" and "wf_node n'" and "live n'"
  shows "wf_node (SniNode u (AList.update l n' cs))"
  using assms update_keys [OF assms(2), of n'] update_set [OF _ assms(2), of n']
  by (auto simp: list_all_iff)

lemma delete_wf: "wf_node (SniNode u cs) \<Longrightarrow> wf_node (SniNode u (AList.delete l cs))"
  by (auto simp: list_all_iff AList.delete_eq sorted_filter distinct_map_filter)

lemma insort_map_of: "map_of cs l = None \<Longrightarrow> map_of (insort_key fst (l, n) cs) = (map_of cs)(l \<mapsto> n)"
  by (induction cs) (auto simp: fun_eq_iff split: if_splits)

lemma insort_wf:
  assumes "wf_node (SniNode u cs)" and "map_of cs l = None" and "wf_node n" and "live n"
  shows "wf_node (SniNode u (insort_key fst (l, n) cs))"
proof -
  have m: "map fst (insort_key fst (l, n) cs) = insort l (map fst cs)"
    by (induction cs) auto
  have "l \<notin> set (map fst cs)" using assms(2) by (simp add: map_of_eq_None_iff)
  then show ?thesis using assms m
    by (auto simp: list_all_iff set_insort_key sorted_insort distinct_insort)
qed

section \<open>The three operations against the reference\<close>

lemma user_at_new [simp]: "user_at (SniNode NULL []) ls = NULL"
  by (cases ls) simp_all

lemma user_at_SniNode: "user_at (SniNode u cs) ks = (case ks of [] \<Rightarrow> u
    | k # ks' \<Rightarrow> (case map_of cs k of None \<Rightarrow> NULL | Some n \<Rightarrow> user_at n ks'))"
  by (cases ks) simp_all

lemma update_map_of: "map_of (AList.update l n' cs) k = (if k = l then Some n' else map_of cs k)"
  by (simp add: update_conv')

lemma update_not_empty: "AList.update l n' cs \<noteq> []"
  by (cases cs) (auto split: prod.splits)

lemma insort_not_empty: "insort_key f x xs \<noteq> []"
  by (cases xs) simp_all

lemma add_path_ok:
  "add_path ls user t = (r, t', new) \<Longrightarrow>
   user_at t' ks = (if ks = ls \<and> user_at t ls = NULL then user else user_at t ks)"
  "add_path ls user t = (r, t', new) \<Longrightarrow> r = (if user_at t ls = NULL then 0 else 1)"
  "add_path ls user t = (r, t', new) \<Longrightarrow> wf_node t \<Longrightarrow> user \<noteq> NULL \<Longrightarrow> wf_node t' \<and> live t'"
proof (induction ls arbitrary: t r t' new ks)
  case Nil
  { case 1 then show ?case by (cases t; cases ks) (auto split: if_splits) }
  { case 2 then show ?case by (cases t) (auto split: if_splits) }
  { case 3 then show ?case by (cases t) (auto simp: live_def split: if_splits) }
next
  case (Cons l ls)
  have ex: "\<exists>n n' nw. add_path ls user n = (r, n', nw) \<and>
      (map_of cs l = Some n \<and> t' = SniNode u (AList.update l n' cs) \<or>
       map_of cs l = None \<and> n = SniNode NULL [] \<and> t' = SniNode u (insort_key fst (l, n') cs))"
    if "add_path (l # ls) user (SniNode u cs) = (r, t', new)" for r t' new u cs
    using that by (cases "map_of cs l") (auto split: prod.splits)
  {
    case 1
    obtain u cs where t: "t = SniNode u cs" by (cases t)
    from ex [OF 1 [unfolded t]] obtain n n' nw where a: "add_path ls user n = (r, n', nw)" and
      b: "map_of cs l = Some n \<and> t' = SniNode u (AList.update l n' cs) \<or>
       map_of cs l = None \<and> n = SniNode NULL [] \<and> t' = SniNode u (insort_key fst (l, n') cs)" by blast
    from b show ?case
    proof
      assume b: "map_of cs l = Some n \<and> t' = SniNode u (AList.update l n' cs)"
      show ?thesis
        using b Cons.IH(1) [OF a] by (cases ks) (simp_all add: t user_at_SniNode update_map_of)
    next
      assume b: "map_of cs l = None \<and> n = SniNode NULL [] \<and> t' = SniNode u (insort_key fst (l, n') cs)"
      have m: "map_of (insort_key fst (l, n') cs) k = (if k = l then Some n' else map_of cs k)" for k
        using insort_map_of [of cs l n'] b by simp
      have IH: "user_at n' xs = (if xs = ls then user else NULL)" for xs
        using Cons.IH(1) [OF a, of xs] b by simp
      show ?thesis
        using b m IH by (cases ks) (simp_all add: t user_at_SniNode)
    qed
  }
  {
    case 2
    obtain u cs where t: "t = SniNode u cs" by (cases t)
    from ex [OF 2 [unfolded t]] show ?case using Cons.IH(2) by (fastforce simp: t)
  }
  {
    case 3
    obtain u cs where t: "t = SniNode u cs" by (cases t)
    from ex [OF 3(1) [unfolded t]] obtain n n' nw where a: "add_path ls user n = (r, n', nw)" and
      b: "map_of cs l = Some n \<and> t' = SniNode u (AList.update l n' cs) \<or>
       map_of cs l = None \<and> n = SniNode NULL [] \<and> t' = SniNode u (insort_key fst (l, n') cs)" by blast
    have w: "wf_node (SniNode u cs)" using 3(2) t by simp
    from b show ?case
    proof
      assume b: "map_of cs l = Some n \<and> t' = SniNode u (AList.update l n' cs)"
      then have "wf_node n' \<and> live n'" using Cons.IH(3) [OF a _ 3(3)] wf_node_child [OF w] by blast
      then show ?thesis using update_wf [OF w, of l n n'] b by (simp add: live_def update_not_empty)
    next
      assume b: "map_of cs l = None \<and> n = SniNode NULL [] \<and> t' = SniNode u (insort_key fst (l, n') cs)"
      then have "wf_node n' \<and> live n'" using Cons.IH(3) [OF a _ 3(3)] by simp
      then show ?thesis using insort_wf [OF w, of l n'] b by (simp add: live_def insort_not_empty)
    qed
  }
qed

lemma dead_user_at: "node_children n = [] \<Longrightarrow> node_user n = NULL \<Longrightarrow> user_at n ls = NULL"
  by (cases n; cases ls) simp_all

lemma delete_map_of: "map_of (AList.delete l cs) k = (if k = l then None else map_of cs k)"
  by (simp add: delete_conv')

lemma removeUser_ok:
  "removeUser ls t = (r, t', freed) \<Longrightarrow> user_at t' ks = (if ks = ls then NULL else user_at t ks)"
  "removeUser ls t = (r, t', freed) \<Longrightarrow> r = user_at t ls"
  "removeUser ls t = (r, t', freed) \<Longrightarrow> wf_node t \<Longrightarrow> wf_node t'"
proof (induction ls arbitrary: t r t' freed ks)
  case Nil
  { case 1 then show ?case by (cases t; cases ks) auto }
  { case 2 then show ?case by (cases t) auto }
  { case 3 then show ?case by (cases t) auto }
next
  case (Cons l ls)
  have ex: "(map_of cs l = None \<and> r = NULL \<and> t' = SniNode u cs) \<or>
      (\<exists>n n' fr. map_of cs l = Some n \<and> removeUser ls n = (r, n', fr) \<and>
        (\<not> live n' \<and> t' = SniNode u (AList.delete l cs) \<or> live n' \<and> t' = SniNode u (AList.update l n' cs)))"
    if "removeUser (l # ls) (SniNode u cs) = (r, t', freed)" for r t' freed u cs
    using that by (cases "map_of cs l") (auto simp: live_def split: prod.splits if_splits)
  {
    case 1
    obtain u cs where t: "t = SniNode u cs" by (cases t)
    from ex [OF 1 [unfolded t]] show ?case
    proof (elim disjE exE conjE)
      assume "map_of cs l = None" "t' = SniNode u cs"
      then show ?thesis by (auto simp: t)
    next
      fix n n' fr assume b: "map_of cs l = Some n" "removeUser ls n = (r, n', fr)"
        "\<not> live n'" "t' = SniNode u (AList.delete l cs)"
      have "user_at n' xs = NULL" for xs using dead_user_at [of n'] b(3) by (simp add: live_def)
      then have "user_at n xs = NULL" if "xs \<noteq> ls" for xs using Cons.IH(1) [OF b(2), of xs] that by simp
      then show ?thesis using b(1,4) by (cases ks) (simp_all add: t user_at_SniNode delete_map_of)
    next
      fix n n' fr assume b: "map_of cs l = Some n" "removeUser ls n = (r, n', fr)"
        "t' = SniNode u (AList.update l n' cs)"
      show ?thesis using b(1,3) Cons.IH(1) [OF b(2)]
        by (cases ks) (simp_all add: t user_at_SniNode update_map_of)
    qed
  }
  {
    case 2
    obtain u cs where t: "t = SniNode u cs" by (cases t)
    from ex [OF 2 [unfolded t]] show ?case using Cons.IH(2) by (fastforce simp: t)
  }
  {
    case 3
    obtain u cs where t: "t = SniNode u cs" by (cases t)
    have w: "wf_node (SniNode u cs)" using 3(2) t by simp
    from ex [OF 3(1) [unfolded t]] show ?case
    proof (elim disjE exE conjE)
      assume "t' = SniNode u cs"
      then show ?thesis using w by simp
    next
      fix n n' fr assume "t' = SniNode u (AList.delete l cs)"
      then show ?thesis using delete_wf [OF w] by simp
    next
      fix n n' fr assume b: "map_of cs l = Some n" "removeUser ls n = (r, n', fr)"
        "live n'" "t' = SniNode u (AList.update l n' cs)"
      have "wf_node n'" using Cons.IH(3) [OF b(2)] wf_node_child [OF w b(1)] by blast
      then show ?thesis using update_wf [OF w b(1) _ b(3)] b(4) by simp
    qed
  }
qed

section \<open>Removing undoes adding\<close>

lemma delete_insort: "map_of cs l = None \<Longrightarrow> AList.delete l (insort_key fst (l, n) cs) = cs"
proof (induction cs)
  case (Cons c cs)
  then have "AList.delete l cs = cs" by (auto simp: delete_id map_of_eq_None_iff split: if_splits)
  then show ?case using Cons by (cases c) (auto split: if_splits)
qed simp

lemma update_update: "AList.update l n' (AList.update l n cs) = AList.update l n' cs"
  by (induction cs) auto

lemma update_same: "map_of cs l = Some n \<Longrightarrow> AList.update l n cs = cs"
  by (induction cs) (auto split: if_splits)

lemma remove_add:
  assumes "add_path ls user t = (0, t', new)" and "wf_node t" and "user \<noteq> NULL"
  shows "\<exists>freed. removeUser ls t' = (user, t, freed) \<and> mset freed = mset new"
  using assms
proof (induction ls arbitrary: t t' new)
  case Nil
  then show ?case by (cases t) (auto split: if_splits)
next
  case (Cons l ls)
  obtain u cs where t: "t = SniNode u cs" by (cases t)
  have w: "wf_node (SniNode u cs)" using Cons.prems(2) t by simp
  show ?case
  proof (cases "map_of cs l")
    case None
    obtain n' nw where 1: "add_path ls user (SniNode NULL []) = (0, n', nw)" and
      t': "t' = SniNode u (insort_key fst (l, n') cs)" "new = l # nw"
      using Cons.prems(1) None by (auto simp: t split: prod.splits)
    have "wf_node (SniNode NULL [])" by simp
    from Cons.IH [OF 1 this Cons.prems(3)] obtain fr where
      2: "removeUser ls n' = (user, SniNode NULL [], fr)" "mset fr = mset nw" by blast
    have "map_of (insort_key fst (l, n') cs) l = Some n'" using insort_map_of [OF None] by simp
    then have "removeUser (l # ls) t' = (user, SniNode u (AList.delete l (insort_key fst (l, n') cs)), fr @ [l])"
      using 2(1) by (simp add: t')
    then show ?thesis using delete_insort [OF None, of n'] 2(2) t'(2) by (simp add: t)
  next
    case (Some n)
    obtain n' where 1: "add_path ls user n = (0, n', new)" and
      t': "t' = SniNode u (AList.update l n' cs)"
      using Cons.prems(1) Some by (auto simp: t split: prod.splits)
    have n: "wf_node n" "live n" using wf_node_child [OF w Some] by simp_all
    from Cons.IH [OF 1 n(1) Cons.prems(3)] obtain fr where
      2: "removeUser ls n' = (user, n, fr)" "mset fr = mset new" by blast
    have "map_of (AList.update l n' cs) l = Some n'" by (simp add: update_conv')
    then have "removeUser (l # ls) t' = (user, SniNode u (AList.update l n (AList.update l n' cs)), fr)"
      using 2(1) n(2) by (auto simp: t' live_def)
    then show ?thesis using update_update [of l n n' cs] update_same [OF Some] 2(2) by (simp add: t)
  qed
qed

section \<open>Labels and users are freed once\<close>

text \<open>The labels a tree owns, and the users below its root.\<close>

fun labels_of :: "sni_node \<Rightarrow> string multiset" where
  "labels_of (SniNode u cs) = (\<Sum>x\<leftarrow>cs. add_mset (fst x) (labels_of (snd x)))"

fun users_of :: "sni_node \<Rightarrow> addr multiset" where
  "users_of (SniNode u cs) =
     (\<Sum>x\<leftarrow>cs. (if node_user (snd x) \<noteq> NULL then {#node_user (snd x)#} else {#}) + users_of (snd x))"

definition freed_labels :: "sni_event list \<Rightarrow> string multiset" where
  "freed_labels es = mset (concat (map (\<lambda>e. case e of FreeLabel l \<Rightarrow> [l] | FreeCb _ \<Rightarrow> []) es))"

definition freed_users :: "sni_event list \<Rightarrow> addr multiset" where
  "freed_users es = mset (concat (map (\<lambda>e. case e of FreeLabel _ \<Rightarrow> [] | FreeCb u \<Rightarrow> [u]) es))"

lemma freed_simps [simp]:
  "freed_labels [] = {#}" "freed_labels (FreeLabel l # es) = add_mset l (freed_labels es)"
  "freed_labels (FreeCb u # es) = freed_labels es" "freed_labels (es @ fs) = freed_labels es + freed_labels fs"
  "freed_users [] = {#}" "freed_users (FreeLabel l # es) = freed_users es"
  "freed_users (FreeCb u # es) = add_mset u (freed_users es)" "freed_users (es @ fs) = freed_users es + freed_users fs"
  by (simp_all add: freed_labels_def freed_users_def)

lemma sni_delete_frees:
  "freed_labels (sni_delete t) = labels_of t \<and> freed_users (sni_delete t) = users_of t"
proof (induction t rule: sni_delete.induct)
  case (1 u cs)
  let ?g = "\<lambda>(l, n). FreeLabel l # (if node_user n \<noteq> NULL then [FreeCb (node_user n)] else [])"
  let ?h = "\<lambda>(l, n). sni_delete n"
  have "freed_labels (concat (map ?g xs)) + freed_labels (concat (map ?h xs)) =
      (\<Sum>x\<leftarrow>xs. add_mset (fst x) (labels_of (snd x))) \<and>
    freed_users (concat (map ?g xs)) + freed_users (concat (map ?h xs)) =
      (\<Sum>x\<leftarrow>xs. (if node_user (snd x) \<noteq> NULL then {#node_user (snd x)#} else {#}) + users_of (snd x))"
    if "set xs \<subseteq> set cs" for xs
    using that
  proof (induction xs)
    case (Cons x xs)
    then show ?case using 1 [of x "fst x" "snd x"] by (cases x) auto
  qed simp
  from this [of cs] show ?case by simp
qed

lemma sum_update:
  fixes f :: "string \<times> sni_node \<Rightarrow> 'a multiset"
  shows "map_of cs l = Some n \<Longrightarrow> (\<Sum>x\<leftarrow>AList.update l n' cs. f x) + f (l, n) = (\<Sum>x\<leftarrow>cs. f x) + f (l, n')"
  by (induction cs) (auto simp: ac_simps split: if_splits)

lemma sum_insort:
  fixes f :: "string \<times> sni_node \<Rightarrow> 'a multiset"
  shows "(\<Sum>x\<leftarrow>insort_key fst (l, n) cs. f x) = f (l, n) + (\<Sum>x\<leftarrow>cs. f x)"
  by (induction cs) (auto simp: ac_simps)

lemma sum_delete:
  fixes f :: "string \<times> sni_node \<Rightarrow> 'a multiset"
  shows "distinct (map fst cs) \<Longrightarrow> map_of cs l = Some n \<Longrightarrow>
   (\<Sum>x\<leftarrow>cs. f x) = f (l, n) + (\<Sum>x\<leftarrow>AList.delete l cs. f x)"
proof (induction cs)
  case (Cons c cs)
  show ?case
  proof (cases "fst c = l")
    case True
    then have "AList.delete l cs = cs" using Cons.prems(1) by (auto simp: delete_id)
    then show ?thesis using True Cons.prems(2) by (cases c) auto
  next
    case False
    then show ?thesis using Cons by (cases c) (auto simp: ac_simps)
  qed
qed simp

lemma add_path_labels: "add_path ls user t = (r, t', new) \<Longrightarrow> labels_of t' = labels_of t + mset new"
proof (induction ls arbitrary: t r t' new)
  case Nil
  then show ?case by (cases t) (auto split: if_splits)
next
  case (Cons l ls)
  obtain u cs where t: "t = SniNode u cs" by (cases t)
  let ?f = "\<lambda>x. add_mset (fst x) (labels_of (snd x))"
  show ?case
  proof (cases "map_of cs l")
    case None
    obtain n' nw where 1: "add_path ls user (SniNode NULL []) = (r, n', nw)" and
      t': "t' = SniNode u (insort_key fst (l, n') cs)" "new = l # nw"
      using Cons.prems None by (auto simp: t split: prod.splits)
    have "labels_of n' = mset nw" using Cons.IH [OF 1] by simp
    then show ?thesis using sum_insort [of ?f l n' cs] by (simp add: t t' ac_simps)
  next
    case (Some n)
    obtain n' where 1: "add_path ls user n = (r, n', new)" and t': "t' = SniNode u (AList.update l n' cs)"
      using Cons.prems Some by (auto simp: t split: prod.splits)
    have "(\<Sum>x\<leftarrow>AList.update l n' cs. ?f x) + ?f (l, n) = ((\<Sum>x\<leftarrow>cs. ?f x) + mset new) + ?f (l, n)"
      using sum_update [OF Some, of ?f n'] Cons.IH [OF 1] by (simp add: ac_simps)
    then have "(\<Sum>x\<leftarrow>AList.update l n' cs. ?f x) = (\<Sum>x\<leftarrow>cs. ?f x) + mset new"
      by (rule add_right_imp_eq)
    then show ?thesis by (simp add: t t')
  qed
qed

lemma removeUser_labels:
  "removeUser ls t = (r, t', freed) \<Longrightarrow> wf_node t \<Longrightarrow> labels_of t = labels_of t' + mset freed"
proof (induction ls arbitrary: t r t' freed)
  case Nil
  then show ?case by (cases t) auto
next
  case (Cons l ls)
  obtain u cs where t: "t = SniNode u cs" by (cases t)
  have w: "wf_node (SniNode u cs)" using Cons.prems(2) t by simp
  let ?f = "\<lambda>x. add_mset (fst x) (labels_of (snd x))"
  show ?case
  proof (cases "map_of cs l")
    case None
    then show ?thesis using Cons.prems by (auto simp: t)
  next
    case (Some n)
    obtain n' fr where 1: "removeUser ls n = (r, n', fr)" and
      b: "\<not> live n' \<and> t' = SniNode u (AList.delete l cs) \<and> freed = fr @ [l] \<or>
        live n' \<and> t' = SniNode u (AList.update l n' cs) \<and> freed = fr"
      using Cons.prems Some by (auto simp: t live_def split: prod.splits if_splits)
    have IH: "labels_of n = labels_of n' + mset fr" using Cons.IH [OF 1] wf_node_child [OF w Some] by blast
    from b show ?thesis
    proof (elim disjE conjE)
      assume d: "\<not> live n'" "t' = SniNode u (AList.delete l cs)" "freed = fr @ [l]"
      have "labels_of n' = {#}" using d(1) by (cases n') (simp add: live_def)
      then show ?thesis using sum_delete [of cs l n ?f] w Some IH d(2,3) by (simp add: t ac_simps)
    next
      assume d: "t' = SniNode u (AList.update l n' cs)" "freed = fr"
      have "((\<Sum>x\<leftarrow>AList.update l n' cs. ?f x) + mset fr) + ?f (l, n') = (\<Sum>x\<leftarrow>cs. ?f x) + ?f (l, n')"
        using sum_update [OF Some, of ?f n'] IH by (simp add: ac_simps)
      then have "(\<Sum>x\<leftarrow>AList.update l n' cs. ?f x) + mset fr = (\<Sum>x\<leftarrow>cs. ?f x)"
        by (rule add_right_imp_eq)
      then show ?thesis using d by (simp add: t)
    qed
  qed
qed

section \<open>The repository's own test\<close>

text \<open>\<open>tests/sni_test.c\<close>: every assertion in order.\<close>

definition sni_test :: bool where
  "sni_test = (let t0 = sni_new;
     (r1, t1) = sni_add t0 ''*.google.com'' 13;
     (r2, t2) = sni_add t1 ''test.google.com'' 14;
     (r3, t3) = sni_add t2 ''*.google.com'' 15;
     (u4, t4) = sni_remove t3 ''test.google.com'';
     f5 = sni_find t4 ''test.google.com'';
     (u6, t6) = sni_remove t4 ''*.google.com'';
     f7 = sni_find t6 ''test.google.com'';
     (r8, t8) = sni_add t6 ''www.google.com'' 16;
     (r9, t9) = sni_add t8 ''www.google.com.au.ck.uk'' 17;
     (u10, t10) = sni_remove t9 ''www.google.com.yolo'';
     (u11, t11) = sni_remove t10 ''www.google.com.au.ck.uk''
   in r1 = 0 \<and> r2 = 0 \<and> r3 \<noteq> 0 \<and> sni_find t3 ''anything.google.com'' = 13 \<and>
     sni_find t3 ''docs.google.com'' = 13 \<and> sni_find t3 ''*.google.com'' = 13 \<and>
     sni_find t3 ''test.google.com'' = 14 \<and> sni_find t3 ''yolo.nothing.com'' = 0 \<and>
     sni_find t3 ''yolo.google.com'' = 13 \<and> u4 = 14 \<and> f5 = 13 \<and> u6 = 13 \<and> f7 = 0 \<and>
     r8 = 0 \<and> r9 = 0 \<and> sni_find t9 ''www.google.com'' = 16 \<and>
     sni_find t9 ''www.google.com.au.ck.uk'' = 17 \<and> u10 = 0 \<and> u11 = 17 \<and>
     sni_find t11 ''www.google.com'' = 16)"

lemma sni_test_ok: sni_test
  by code_simp


section \<open>Properties\<close>

text \<open>
  C13. Looking a name up is the reference search: of all the patterns that replace some of the
  labels of the name by the wildcard, in the order that prefers a label to the wildcard from
  the top-level domain of the path on, the user of the first pattern that has one; names of
  more than ten labels are never found.
\<close>

theorem sni_find_reference:
  "sni_find t hostname = (if length (labels hostname) > MAX_LABELS then NULL
     else first_user (map (user_at t) (patterns (labels hostname))))"
  by (simp add: sni_find_def Let_def getUser_eq)

text \<open>
  C14. Adding a name is a map update that refuses to overwrite: it answers zero exactly when
  the name had no user, then the name has the given one, and every other name keeps its own.
\<close>

theorem sni_add_refines:
  "case sni_add t hostname user of (r, t') \<Rightarrow>
     (r = 0 \<longleftrightarrow> user_at t (labels hostname) = NULL) \<and>
     (\<forall>ks. user_at t' ks =
       (if ks = labels hostname \<and> user_at t ks = NULL then user else user_at t ks))"
proof (cases "add_path (labels hostname) user t")
  case (fields r t' new)
  show ?thesis
    using add_path_ok(2) [OF fields] add_path_ok(1) [OF fields]
    by (auto simp: sni_add_def fields)
qed

text \<open>
  C15. Removing a name is a map deletion of exactly that name, wildcards taken verbatim: it
  returns the user the name had and leaves all others; a name of more than ten labels is left
  alone.
\<close>

theorem sni_remove_refines:
  "case sni_remove t hostname of (user, t') \<Rightarrow>
     if length (labels hostname) > MAX_LABELS then user = NULL \<and> t' = t
     else user = user_at t (labels hostname) \<and>
       (\<forall>ks. user_at t' ks = (if ks = labels hostname then NULL else user_at t ks))"
proof (cases "removeUser (labels hostname) t")
  case (fields r t' freed)
  show ?thesis
    using removeUser_ok(2) [OF fields] removeUser_ok(1) [OF fields]
    by (auto simp: sni_remove_def fields Let_def)
qed

text \<open>
  Removing a name right after adding it gives back the user and the tree as it was, node
  for node: the nodes that the addition made are culled, no other one is.
\<close>

theorem sni_remove_after_add:
  assumes "wf_node t" and "user \<noteq> NULL" and "user_at t (labels hostname) = NULL"
    and "length (labels hostname) \<le> MAX_LABELS"
  shows "sni_remove (snd (sni_add t hostname user)) hostname = (user, t)"
proof (cases "add_path (labels hostname) user t")
  case (fields r t' new)
  have "r = 0" using add_path_ok(2) [OF fields] assms(3) by simp
  from remove_add [OF _ assms(1,2), of "labels hostname" t' new] fields this show ?thesis
    using assms(4) by (auto simp: sni_remove_def sni_add_def fields Let_def)
qed

theorem sni_remove_after_add_witness:
  "sni_remove (snd (sni_add sni_new ''a.b.*'' 7)) ''a.b.*'' = (7, sni_new)"
  by (rule sni_remove_after_add) (simp_all add: MAX_LABELS_def sni_new_def, code_simp)


text \<open>
  The ten-label limit holds for lookup and removal only: a name of eleven labels is added
  with success, is not found, and cannot be removed again, although it occupies the tree.
\<close>

theorem sni_eleven_labels:
  "\<exists>t. sni_add sni_new ''a.b.c.d.e.f.g.h.i.j.k'' 5 = (0, t) \<and> user_at t (labels ''a.b.c.d.e.f.g.h.i.j.k'') = 5 \<and>
     sni_find t ''a.b.c.d.e.f.g.h.i.j.k'' = NULL \<and> sni_remove t ''a.b.c.d.e.f.g.h.i.j.k'' = (NULL, t)"
proof (intro exI conjI)
  let ?h = "''a.b.c.d.e.f.g.h.i.j.k''"
  let ?t = "snd (sni_add sni_new ?h 5)"
  have 1: "fst (sni_add sni_new ?h 5) = 0 \<and> user_at ?t (labels ?h) = 5 \<and> length (labels ?h) > MAX_LABELS"
    by code_simp
  show "sni_add sni_new ?h 5 = (0, ?t)" using 1 by (simp add: prod_eq_iff)
  show "user_at ?t (labels ?h) = 5" using 1 by blast
  show "sni_find ?t ?h = NULL" "sni_remove ?t ?h = (NULL, ?t)"
    using 1 by (simp_all only: sni_find_def sni_remove_def Let_def if_True)
qed

text \<open>
  The tree stays well-formed (children ordered and distinct, no node without a user and
  without children) under every sequence of additions of non-null users and removals.
\<close>

datatype sni_op = SniAdd string addr | SniRemove string

fun sni_step :: "sni_op \<Rightarrow> sni_node \<Rightarrow> sni_node" where
  "sni_step (SniAdd h u) t = snd (sni_add t h u)"
| "sni_step (SniRemove h) t = snd (sni_remove t h)"

theorem sni_wf_ops:
  "list_all (\<lambda>e. case e of SniAdd h u \<Rightarrow> u \<noteq> NULL | SniRemove h \<Rightarrow> True) ops \<Longrightarrow>
   wf_node (fold sni_step ops sni_new)"
proof (induction ops rule: rev_induct)
  case (snoc e ops)
  let ?t = "fold sni_step ops sni_new"
  have wf: "wf_node ?t" using snoc by simp
  show ?case
  proof (cases e)
    case (SniAdd h u)
    then have "u \<noteq> NULL" using snoc.prems by simp
    then show ?thesis using add_path_ok(3) [OF _ wf, of "labels h" u] SniAdd
      by (cases "add_path (labels h) u ?t") (auto simp: sni_add_def)
  next
    case (SniRemove h)
    then show ?thesis using removeUser_ok(3) [OF _ wf, of "labels h"] wf
      by (cases "removeUser (labels h) ?t") (auto simp: sni_remove_def Let_def)
  qed
qed simp

theorem sni_wf_ops_witness:
  "wf_node (fold sni_step [SniAdd ''a.b'' 3, SniAdd ''*.b'' 4, SniRemove ''a.b''] sni_new)"
  by (rule sni_wf_ops) simp


section \<open>The users a tree holds\<close>

definition owned :: "addr \<Rightarrow> addr multiset" where
  "owned u = (if u \<noteq> NULL then {#u#} else {#})"

definition all_users :: "sni_node \<Rightarrow> addr multiset" where
  "all_users t = owned (node_user t) + users_of t"

lemma all_users_SniNode: "all_users (SniNode u cs) = owned u + (\<Sum>x\<leftarrow>cs. all_users (snd x))"
  by (simp add: all_users_def owned_def)

lemma owned_null [simp]: "owned NULL = {#}"
  by (simp add: owned_def)

lemma add_path_users:
  "add_path ls user t = (r, t', new) \<Longrightarrow> all_users t' = all_users t + (if r = 0 then owned user else {#})"
proof (induction ls arbitrary: t r t' new)
  case Nil
  then show ?case by (cases t) (auto simp: all_users_SniNode split: if_splits)
next
  case (Cons l ls)
  obtain u cs where t: "t = SniNode u cs" by (cases t)
  let ?f = "\<lambda>x. all_users (snd x)"
  show ?case
  proof (cases "map_of cs l")
    case None
    obtain n' nw where 1: "add_path ls user (SniNode NULL []) = (r, n', nw)" and
      t': "t' = SniNode u (insort_key fst (l, n') cs)"
      using Cons.prems None by (auto simp: t split: prod.splits)
    have "all_users n' = (if r = 0 then owned user else {#})"
      using Cons.IH [OF 1] by (simp add: all_users_SniNode)
    then show ?thesis using sum_insort [of ?f l n' cs] by (simp add: t t' all_users_SniNode ac_simps)
  next
    case (Some n)
    obtain n' where 1: "add_path ls user n = (r, n', new)" and t': "t' = SniNode u (AList.update l n' cs)"
      using Cons.prems Some by (auto simp: t split: prod.splits)
    have "(\<Sum>x\<leftarrow>AList.update l n' cs. ?f x) + ?f (l, n) =
        ((\<Sum>x\<leftarrow>cs. ?f x) + (if r = 0 then owned user else {#})) + ?f (l, n)"
      using sum_update [OF Some, of ?f n'] Cons.IH [OF 1] by (simp add: ac_simps)
    then have "(\<Sum>x\<leftarrow>AList.update l n' cs. ?f x) = (\<Sum>x\<leftarrow>cs. ?f x) + (if r = 0 then owned user else {#})"
      by (rule add_right_imp_eq)
    then show ?thesis by (simp add: t t' all_users_SniNode)
  qed
qed

lemma dead_users: "\<not> live n \<Longrightarrow> all_users n = {#}"
  by (cases n) (simp add: live_def all_users_SniNode)

lemma removeUser_users:
  "removeUser ls t = (r, t', freed) \<Longrightarrow> wf_node t \<Longrightarrow> all_users t = all_users t' + owned r"
proof (induction ls arbitrary: t r t' freed)
  case Nil
  then show ?case by (cases t) (auto simp: all_users_SniNode)
next
  case (Cons l ls)
  obtain u cs where t: "t = SniNode u cs" by (cases t)
  have w: "wf_node (SniNode u cs)" using Cons.prems(2) t by simp
  let ?f = "\<lambda>x. all_users (snd x)"
  show ?case
  proof (cases "map_of cs l")
    case None
    then show ?thesis using Cons.prems by (auto simp: t)
  next
    case (Some n)
    obtain n' fr where 1: "removeUser ls n = (r, n', fr)" and
      b: "\<not> live n' \<and> t' = SniNode u (AList.delete l cs) \<or> live n' \<and> t' = SniNode u (AList.update l n' cs)"
      using Cons.prems Some by (auto simp: t live_def split: prod.splits if_splits)
    have IH: "all_users n = all_users n' + owned r" using Cons.IH [OF 1] wf_node_child [OF w Some] by blast
    from b show ?thesis
    proof (elim disjE conjE)
      assume d: "\<not> live n'" "t' = SniNode u (AList.delete l cs)"
      show ?thesis using sum_delete [of cs l n ?f] w Some IH d(2) dead_users [OF d(1)]
        by (simp add: t all_users_SniNode ac_simps)
    next
      assume d: "t' = SniNode u (AList.update l n' cs)"
      have "((\<Sum>x\<leftarrow>AList.update l n' cs. ?f x) + owned r) + ?f (l, n') = (\<Sum>x\<leftarrow>cs. ?f x) + ?f (l, n')"
        using sum_update [OF Some, of ?f n'] IH by (simp add: ac_simps)
      then have "(\<Sum>x\<leftarrow>AList.update l n' cs. ?f x) + owned r = (\<Sum>x\<leftarrow>cs. ?f x)"
        by (rule add_right_imp_eq)
      then show ?thesis using d by (simp add: t all_users_SniNode ac_simps)
    qed
  qed
qed

text \<open>The two operations on names, as the users of the tree see them.\<close>

lemma sni_add_users:
  "sni_add t h user = (r, t') \<Longrightarrow> all_users t' = all_users t + (if r = 0 then owned user else {#})"
  by (auto simp: sni_add_def dest!: add_path_users split: prod.splits)

lemma sni_add_wf: "sni_add t h user = (r, t') \<Longrightarrow> wf_node t \<Longrightarrow> user \<noteq> NULL \<Longrightarrow> wf_node t'"
  by (auto simp: sni_add_def dest: add_path_ok(3) split: prod.splits)

lemma sni_add_root:
  "sni_add t h user = (r, t') \<Longrightarrow> labels h \<noteq> [] \<Longrightarrow> node_user t' = node_user t"
  by (cases t; cases "labels h") (auto simp: sni_add_def split: prod.splits option.splits)

lemma sni_remove_users:
  "sni_remove t h = (user, t') \<Longrightarrow> wf_node t \<Longrightarrow> all_users t = all_users t' + owned user"
  by (auto simp: sni_remove_def Let_def dest!: removeUser_users split: prod.splits if_splits)

lemma sni_remove_wf: "sni_remove t h = (user, t') \<Longrightarrow> wf_node t \<Longrightarrow> wf_node t'"
  by (auto simp: sni_remove_def Let_def dest: removeUser_ok(3) split: prod.splits if_splits)

lemma removeUser_root: "removeUser ls t = (r, t', fr) \<Longrightarrow> node_user t' \<noteq> NULL \<Longrightarrow> node_user t' = node_user t"
  by (cases t; cases ls) (auto split: prod.splits option.splits if_splits)

lemma sni_remove_root: "sni_remove t h = (user, t') \<Longrightarrow> node_user t = NULL \<Longrightarrow> node_user t' = NULL"
  by (auto simp: sni_remove_def Let_def dest: removeUser_root split: prod.splits if_splits)

end
