(* ===== verification/Us_State.thy ===== *)
theory Us_State
  imports Us_Sni
begin

text \<open>
  The state of one event loop and of the objects that hang on it, as the C structs of
  \<open>src/internal/internal.h\<close>, \<open>src/internal/loop_data.h\<close> and
  \<open>src/internal/eventing/epoll_kqueue.h\<close> lay it out (the epoll build). The heap is split by
  struct: the poll every socket, listen socket, timer, async and UDP socket begins with is
  kept in \<open>polls\<close>, the rest of a socket in \<open>socks\<close>, and so on; \<open>objs\<close> says which addresses
  are allocated, and as what. Reading or writing through an address that is not an allocated
  object of the right kind is undefined behaviour, the value \<open>None\<close>.

  There is one loop per state (the library is one loop per thread and sockets never change
  thread), so \<open>context->loop\<close> is the state itself. System calls and calls of user handlers
  are appended to \<open>trace\<close>; their results come from the parameters \<open>kernel\<close> and \<open>handlers\<close>,
  which may depend on the whole state, hence on everything that was called before.
\<close>

section \<open>Constants of the headers\<close>

definition POLL_TYPE_SOCKET :: "4 word" where "POLL_TYPE_SOCKET = 0"
definition POLL_TYPE_SOCKET_SHUT_DOWN :: "4 word" where "POLL_TYPE_SOCKET_SHUT_DOWN = 1"
definition POLL_TYPE_SEMI_SOCKET :: "4 word" where "POLL_TYPE_SEMI_SOCKET = 2"
definition POLL_TYPE_CALLBACK :: "4 word" where "POLL_TYPE_CALLBACK = 3"
definition POLL_TYPE_POLLING_OUT :: "4 word" where "POLL_TYPE_POLLING_OUT = 4"
definition POLL_TYPE_POLLING_IN :: "4 word" where "POLL_TYPE_POLLING_IN = 8"

lemmas poll_type_defs = POLL_TYPE_SOCKET_def POLL_TYPE_SOCKET_SHUT_DOWN_def
  POLL_TYPE_SEMI_SOCKET_def POLL_TYPE_CALLBACK_def POLL_TYPE_POLLING_OUT_def
  POLL_TYPE_POLLING_IN_def

text \<open>The event bits of Linux: \<open>EPOLLIN\<close>, \<open>EPOLLOUT\<close>, \<open>EPOLLERR\<close>, \<open>EPOLLHUP\<close>.\<close>

definition LIBUS_SOCKET_READABLE :: u32 where "LIBUS_SOCKET_READABLE = 1"
definition LIBUS_SOCKET_WRITABLE :: u32 where "LIBUS_SOCKET_WRITABLE = 4"
definition EPOLLERR :: u32 where "EPOLLERR = 8"
definition EPOLLHUP :: u32 where "EPOLLHUP = 16"

lemmas event_defs = LIBUS_SOCKET_READABLE_def LIBUS_SOCKET_WRITABLE_def EPOLLERR_def EPOLLHUP_def

definition LIBUS_RECV_BUFFER_LENGTH :: int where "LIBUS_RECV_BUFFER_LENGTH = 524288"
definition LIBUS_TIMEOUT_GRANULARITY :: int where "LIBUS_TIMEOUT_GRANULARITY = 4"
definition LIBUS_SOCKET_ERROR :: int where "LIBUS_SOCKET_ERROR = -1"

section \<open>Function pointers\<close>

datatype fnptr = FnNull | FnUser nat | FnDefaultIsLowPrio | FnSweepTimer | FnUdpRead
  | FnSslIsLowPrio | FnSslOnOpen | FnSslOnClose | FnSslOnData | FnSslOnWritable | FnSslOnEnd
  | FnQuicTimer | FnQuicData | FnQuicDataClient | FnQuicWritable

section \<open>The structs\<close>

record us_poll_t =
  p_fd :: "28 word"
  p_type :: "4 word"

record us_socket_t =
  s_timeout :: u8
  s_long_timeout :: u8
  s_low_prio_state :: u16
  s_context :: addr
  s_prev :: addr
  s_next :: addr

record us_internal_callback_t =
  cb_expects_the_loop :: bool
  cb_leave_poll_ready :: bool
  cb_cb :: fnptr

record us_socket_context_t =
  c_global_tick :: u32
  c_timestamp :: u8
  c_long_timestamp :: u8
  c_head_sockets :: addr
  c_head_listen_sockets :: addr
  c_iterator :: addr
  c_prev :: addr
  c_next :: addr
  c_on_pre_open :: fnptr
  c_on_open :: fnptr
  c_on_data :: fnptr
  c_on_writable :: fnptr
  c_on_close :: fnptr
  c_on_socket_timeout :: fnptr
  c_on_socket_long_timeout :: fnptr
  c_on_end :: fnptr
  c_on_connect_error :: fnptr
  c_is_low_prio :: fnptr

text \<open>
  What an SSL socket, an SSL context and the loop have behind their plain parts
  (\<open>src/crypto/openssl.c\<close>). An \<open>SSL\<close> and an \<open>SSL_CTX\<close> of OpenSSL are known by their addresses.
  \<open>sc_sni\<close> is \<open>None\<close> in a context whose pointer to the tree was never set. The output buffer
  of the loop is written by OpenSSL and handed to the user at once, it is not kept.
\<close>

record us_internal_ssl_socket_t =
  ss_ssl :: addr
  ss_write_wants_read :: bool
  ss_read_wants_write :: bool

record us_internal_ssl_socket_context_t =
  sc_ssl_context :: addr
  sc_is_parent :: bool
  sc_on_open :: fnptr
  sc_on_data :: fnptr
  sc_on_writable :: fnptr
  sc_on_close :: fnptr
  sc_on_server_name :: fnptr
  sc_sni :: "sni_node option"

record loop_ssl_data =
  sl_read_input :: "byte list"
  sl_read_input_length :: nat
  sl_read_input_offset :: nat
  sl_ssl_socket :: addr
  sl_last_write_was_msg_more :: bool
  sl_msg_more :: bool
  sl_shared_rbio :: addr
  sl_shared_wbio :: addr
  sl_shared_biom :: addr

datatype kind = KSocket | KListen | KCallback | KContext

section \<open>The trace\<close>

text \<open>
  Calls of OpenSSL, with the address they returned as the last argument where they made an
  object; \<open>CtxOption\<close> is a call that only configures an \<open>SSL_CTX\<close>, by name. The bytes an \<open>SSL_read\<close>
  gave are on the trace too. The last four are the calls of the user's handlers behind the SSL layer.
\<close>

datatype ssl_call =
    OPENSSL_init | BIO_meth_new addr | BIO_new addr addr | BIO_free addr | BIO_meth_free addr
  | SSL_new addr addr | SSL_free addr | SSL_set_state addr bool | SSL_set_SSL_CTX addr addr
  | SSL_read addr int | SSL_read_ret int "byte list" | SSL_write addr "byte list" | SSL_shutdown addr | ERR_clear_error
  | SSL_CTX_new addr | SSL_CTX_free addr | CtxOption addr string | CtxFile addr string string
  | Strdup string addr | Set_passwd_userdata addr addr | Free addr
  | Load_client_CA string addr | Set_client_CA_list addr addr
  | Fopen string addr | Fclose addr | PEM_read_DHparams addr addr | Set_tmp_dh addr addr | DH_free addr
  | Set_ex_data addr addr | Set_servername_arg addr addr
  | UserOpen addr bool "byte list" | UserData addr "byte list" | UserWritable addr | UserClose addr int addr

datatype sys =
    EpollCtlAdd int u32 addr | EpollCtlMod int u32 addr | EpollCtlDel int
  | EpollWait
  | Close int | Shutdown int | ShutdownRead int
  | Nodelay int | Uncork int
  | Send int "byte list" bool | Writev int "byte list" "byte list" | Recv int
  | Accept int | ReadEvent int | WriteEvent int
  | TimerfdCreate | EventfdCreate | TimerfdSettime int "int \<times> int" "int \<times> int"
  | CreateListenSocket "byte list" int int | CreateListenSocketUnix "byte list" int
  | CreateConnectSocket "byte list" int "byte list" int | CreateConnectSocketUnix "byte list" int
  | OnPreOpen addr int "byte list" | OnOpen addr bool "byte list" | OnData addr "byte list"
  | OnWritable addr | OnClose addr int addr | OnEnd addr | OnConnectError addr int
  | OnTimeout addr | OnLongTimeout addr
  | PreCb | PostCb | WakeupCb fnptr | CallbackCb addr fnptr
  | OnServerName addr string | Ssl ssl_call

section \<open>The state\<close>

text \<open>
  The last two heaps before the trace belong to the user of the library: \<open>u_ext\<close> is the extension area behind
  every socket (the fields of the user's struct, by number), \<open>u_heap\<close> the blocks the user's
  code allocates itself. The library only moves the first along when it moves a socket.
\<close>

record us =
  objs :: "addr \<Rightarrow> kind option"
  polls :: "addr \<Rightarrow> us_poll_t"
  socks :: "addr \<Rightarrow> us_socket_t"
  ext_sizes :: "addr \<Rightarrow> u32"
  ctxs :: "addr \<Rightarrow> us_socket_context_t"
  cbs :: "addr \<Rightarrow> us_internal_callback_t"
  l_sweep_timer :: addr
  l_wakeup_async :: addr
  l_last_write_failed :: bool
  l_head :: addr
  l_iterator :: addr
  l_pre_cb :: fnptr
  l_post_cb :: fnptr
  l_closed_head :: addr
  l_low_prio_head :: addr
  l_low_prio_budget :: int
  l_iteration_nr :: "64 word"
  num_polls :: int
  num_ready_polls :: nat
  current_ready_poll :: nat
  ready_polls :: "(addr \<times> u32) list"
  ssl_socks :: "addr \<Rightarrow> us_internal_ssl_socket_t"
  ssl_ctxs :: "addr \<Rightarrow> us_internal_ssl_socket_context_t"
  l_ssl_data :: "loop_ssl_data option"
  u_ext :: "addr \<Rightarrow> nat \<Rightarrow> int"
  u_heap :: "addr \<Rightarrow> byte list option"
  trace :: "sys list"

definition emit :: "sys \<Rightarrow> us \<Rightarrow> us" where
  "emit e st = st\<lparr>trace := trace st @ [e]\<rparr>"

text \<open>
  What the library asks of the C library and the kernel: each function gives the result of
  the call that was emitted last. \<open>k_malloc\<close> and \<open>k_realloc\<close> return the address of the
  block; \<open>k_local_addr\<close> and \<open>k_remote_addr\<close> the port and the address bytes of a socket, or
  nothing when the call fails.
\<close>

record kernel =
  k_malloc :: "us \<Rightarrow> addr"
  k_realloc :: "us \<Rightarrow> addr \<Rightarrow> addr"
  k_user_malloc :: "us \<Rightarrow> int \<Rightarrow> addr"
  k_fd :: "us \<Rightarrow> int"
  k_io :: "us \<Rightarrow> int"
  k_recv :: "us \<Rightarrow> int \<times> byte list"
  k_would_block :: "us \<Rightarrow> bool"
  k_accept_ip :: "us \<Rightarrow> byte list"
  k_local_addr :: "us \<Rightarrow> int \<Rightarrow> (u16 \<times> byte list) option"
  k_remote_addr :: "us \<Rightarrow> int \<Rightarrow> (u16 \<times> byte list) option"
  k_epoll_wait :: "us \<Rightarrow> (addr \<times> u32) list"

text \<open>What the user's handlers do, one function per prototype.\<close>

record handlers =
  h_pre_open :: "fnptr \<Rightarrow> addr \<Rightarrow> int \<Rightarrow> byte list \<Rightarrow> us \<Rightarrow> (int \<times> us) option"
  h_open :: "fnptr \<Rightarrow> addr \<Rightarrow> bool \<Rightarrow> byte list \<Rightarrow> us \<Rightarrow> (addr \<times> us) option"
  h_data :: "fnptr \<Rightarrow> addr \<Rightarrow> byte list \<Rightarrow> us \<Rightarrow> (addr \<times> us) option"
  h_sock :: "fnptr \<Rightarrow> addr \<Rightarrow> us \<Rightarrow> (addr \<times> us) option"
  h_close :: "fnptr \<Rightarrow> addr \<Rightarrow> int \<Rightarrow> addr \<Rightarrow> us \<Rightarrow> (addr \<times> us) option"
  h_connect_error :: "fnptr \<Rightarrow> addr \<Rightarrow> int \<Rightarrow> us \<Rightarrow> (addr \<times> us) option"
  h_low_prio :: "fnptr \<Rightarrow> addr \<Rightarrow> us \<Rightarrow> bool"
  h_loop :: "fnptr \<Rightarrow> us \<Rightarrow> us option"
  h_server_name :: "fnptr \<Rightarrow> addr \<Rightarrow> string \<Rightarrow> us \<Rightarrow> us option"
  h_callback :: "fnptr \<Rightarrow> addr \<Rightarrow> us \<Rightarrow> us option"

section \<open>Access to the heap\<close>

definition is_sock :: "us \<Rightarrow> addr \<Rightarrow> bool" where
  "is_sock st a \<longleftrightarrow> a \<noteq> NULL \<and> (objs st a = Some KSocket \<or> objs st a = Some KListen)"

definition is_poll :: "us \<Rightarrow> addr \<Rightarrow> bool" where
  "is_poll st a \<longleftrightarrow> a \<noteq> NULL \<and> (\<exists>k. objs st a = Some k \<and> k \<noteq> KContext)"

definition is_ctx :: "us \<Rightarrow> addr \<Rightarrow> bool" where
  "is_ctx st a \<longleftrightarrow> a \<noteq> NULL \<and> objs st a = Some KContext"

definition is_cb :: "us \<Rightarrow> addr \<Rightarrow> bool" where
  "is_cb st a \<longleftrightarrow> a \<noteq> NULL \<and> objs st a = Some KCallback"

lemma is_sock_poll [simp, intro]: "is_sock st a \<Longrightarrow> is_poll st a"
  by (auto simp: is_sock_def is_poll_def)

lemma is_cb_poll [simp, intro]: "is_cb st a \<Longrightarrow> is_poll st a"
  by (auto simp: is_cb_def is_poll_def)

lemma is_poll_code [code]:
  "is_poll st a \<longleftrightarrow> a \<noteq> NULL \<and> (case objs st a of None \<Rightarrow> False | Some k \<Rightarrow> k \<noteq> KContext)"
  by (auto simp: is_poll_def split: option.splits)

definition rd_sock :: "addr \<Rightarrow> us \<Rightarrow> us_socket_t option" where
  "rd_sock a st = (if is_sock st a then Some (socks st a) else None)"

definition wr_sock :: "addr \<Rightarrow> (us_socket_t \<Rightarrow> us_socket_t) \<Rightarrow> us \<Rightarrow> us option" where
  "wr_sock a f st = (if is_sock st a
     then Some (st\<lparr>socks := (socks st)(a := f (socks st a))\<rparr>) else None)"

definition rd_ctx :: "addr \<Rightarrow> us \<Rightarrow> us_socket_context_t option" where
  "rd_ctx a st = (if is_ctx st a then Some (ctxs st a) else None)"

definition wr_ctx :: "addr \<Rightarrow> (us_socket_context_t \<Rightarrow> us_socket_context_t) \<Rightarrow> us \<Rightarrow> us option" where
  "wr_ctx a f st = (if is_ctx st a
     then Some (st\<lparr>ctxs := (ctxs st)(a := f (ctxs st a))\<rparr>) else None)"

definition rd_poll :: "addr \<Rightarrow> us \<Rightarrow> us_poll_t option" where
  "rd_poll a st = (if is_poll st a then Some (polls st a) else None)"

definition wr_poll :: "addr \<Rightarrow> (us_poll_t \<Rightarrow> us_poll_t) \<Rightarrow> us \<Rightarrow> us option" where
  "wr_poll a f st = (if is_poll st a
     then Some (st\<lparr>polls := (polls st)(a := f (polls st a))\<rparr>) else None)"

definition rd_cb :: "addr \<Rightarrow> us \<Rightarrow> us_internal_callback_t option" where
  "rd_cb a st = (if is_cb st a then Some (cbs st a) else None)"

definition wr_cb :: "addr \<Rightarrow> (us_internal_callback_t \<Rightarrow> us_internal_callback_t) \<Rightarrow> us \<Rightarrow> us option" where
  "wr_cb a f st = (if is_cb st a
     then Some (st\<lparr>cbs := (cbs st)(a := f (cbs st a))\<rparr>) else None)"

lemmas heap_defs = rd_sock_def wr_sock_def rd_ctx_def wr_ctx_def rd_poll_def wr_poll_def
  rd_cb_def wr_cb_def

text \<open>\<open>malloc\<close> of an object of kind \<open>k\<close>: the block keeps whatever contents it had.\<close>

definition alloc :: "kernel \<Rightarrow> kind \<Rightarrow> us \<Rightarrow> addr \<times> us" where
  "alloc K k st = (let a = k_malloc K st in (a, st\<lparr>objs := (objs st)(a \<mapsto> k)\<rparr>))"

text \<open>\<open>free\<close>: freeing anything but an allocated block is undefined.\<close>

definition free_obj :: "addr \<Rightarrow> us \<Rightarrow> us option" where
  "free_obj a st = (if a \<noteq> NULL \<and> objs st a \<noteq> None
     then Some (st\<lparr>objs := (objs st)(a := None)\<rparr>) else None)"

text \<open>\<open>realloc\<close>: the block may move; its contents move with it.\<close>

definition realloc_obj :: "kernel \<Rightarrow> addr \<Rightarrow> us \<Rightarrow> (addr \<times> us) option" where
  "realloc_obj K a st = (if a \<noteq> NULL \<and> objs st a \<noteq> None then
     let b = k_realloc K st a in
     Some (b, if b = a then st else
       st\<lparr>objs := (objs st)(a := None, b := objs st a),
          polls := (polls st)(b := polls st a),
          socks := (socks st)(b := socks st a),
          ext_sizes := (ext_sizes st)(b := ext_sizes st a),
          cbs := (cbs st)(b := cbs st a),
          ssl_socks := (ssl_socks st)(b := ssl_socks st a),
          u_ext := (u_ext st)(b := u_ext st a)\<rparr>)
   else None)"

text \<open>
  The contract of the allocator, as long as finitely many objects are allocated: a fresh block
  is not null and overlaps no allocated object;
  \<open>realloc\<close> returns the same block or a fresh one.
\<close>

definition allocator_ok :: "kernel \<Rightarrow> bool" where
  "allocator_ok K \<longleftrightarrow> (\<forall>st. finite (dom (objs st)) \<longrightarrow>
     (k_malloc K st \<noteq> NULL \<and> objs st (k_malloc K st) = None) \<and>
     (\<forall>a. k_realloc K st a = a \<or> (k_realloc K st a \<noteq> NULL \<and> objs st (k_realloc K st a) = None)))"

section \<open>Frame facts of the accessors\<close>

lemma emit_simps [simp]:
  "objs (emit e st) = objs st" "polls (emit e st) = polls st" "socks (emit e st) = socks st"
  "ext_sizes (emit e st) = ext_sizes st" "ctxs (emit e st) = ctxs st" "cbs (emit e st) = cbs st"
  "l_sweep_timer (emit e st) = l_sweep_timer st" "l_wakeup_async (emit e st) = l_wakeup_async st"
  "l_last_write_failed (emit e st) = l_last_write_failed st"
  "l_head (emit e st) = l_head st" "l_iterator (emit e st) = l_iterator st"
  "l_pre_cb (emit e st) = l_pre_cb st" "l_post_cb (emit e st) = l_post_cb st"
  "l_closed_head (emit e st) = l_closed_head st" "l_low_prio_head (emit e st) = l_low_prio_head st"
  "l_low_prio_budget (emit e st) = l_low_prio_budget st"
  "l_iteration_nr (emit e st) = l_iteration_nr st"
  "num_polls (emit e st) = num_polls st" "num_ready_polls (emit e st) = num_ready_polls st"
  "current_ready_poll (emit e st) = current_ready_poll st"
  "ready_polls (emit e st) = ready_polls st" "ssl_socks (emit e st) = ssl_socks st"
  "ssl_ctxs (emit e st) = ssl_ctxs st" "l_ssl_data (emit e st) = l_ssl_data st" "u_ext (emit e st) = u_ext st"
  "u_heap (emit e st) = u_heap st" "trace (emit e st) = trace st @ [e]"
  by (simp_all add: emit_def)

text \<open>The kind of an object decides the four access tests; they read nothing else.\<close>

lemma access_cong:
  "objs st a = objs st' a \<Longrightarrow> is_sock st a = is_sock st' a"
  "objs st a = objs st' a \<Longrightarrow> is_poll st a = is_poll st' a"
  "objs st a = objs st' a \<Longrightarrow> is_ctx st a = is_ctx st' a"
  "objs st a = objs st' a \<Longrightarrow> is_cb st a = is_cb st' a"
  by (simp_all add: is_sock_def is_poll_def is_ctx_def is_cb_def)

lemma is_ctx_not_sock [simp]: "is_ctx st a \<Longrightarrow> \<not> is_sock st a" "is_sock st a \<Longrightarrow> \<not> is_ctx st a"
  by (auto simp: is_ctx_def is_sock_def)

lemma is_nonnull [simp]: "\<not> is_sock st NULL" "\<not> is_ctx st NULL" "\<not> is_poll st NULL" "\<not> is_cb st NULL"
  by (auto simp: is_sock_def is_poll_def is_ctx_def is_cb_def)

lemma rd_sock_eq [simp]: "is_sock st a \<Longrightarrow> rd_sock a st = Some (socks st a)"
  by (simp add: rd_sock_def)

lemma rd_ctx_eq [simp]: "is_ctx st a \<Longrightarrow> rd_ctx a st = Some (ctxs st a)"
  by (simp add: rd_ctx_def)

lemma rd_poll_eq [simp]: "is_poll st a \<Longrightarrow> rd_poll a st = Some (polls st a)"
  by (simp add: rd_poll_def)

lemma rd_cb_eq [simp]: "is_cb st a \<Longrightarrow> rd_cb a st = Some (cbs st a)"
  by (simp add: rd_cb_def)

lemma wr_sock_eq [simp]:
  "is_sock st a \<Longrightarrow> wr_sock a f st = Some (st\<lparr>socks := (socks st)(a := f (socks st a))\<rparr>)"
  by (simp add: wr_sock_def)

lemma wr_ctx_eq [simp]:
  "is_ctx st a \<Longrightarrow> wr_ctx a f st = Some (st\<lparr>ctxs := (ctxs st)(a := f (ctxs st a))\<rparr>)"
  by (simp add: wr_ctx_def)

lemma wr_poll_eq [simp]:
  "is_poll st a \<Longrightarrow> wr_poll a f st = Some (st\<lparr>polls := (polls st)(a := f (polls st a))\<rparr>)"
  by (simp add: wr_poll_def)

lemma wr_cb_eq [simp]:
  "is_cb st a \<Longrightarrow> wr_cb a f st = Some (st\<lparr>cbs := (cbs st)(a := f (cbs st a))\<rparr>)"
  by (simp add: wr_cb_def)

lemma access_upd [simp]:
  "is_sock (st\<lparr>socks := x1\<rparr>) = is_sock st" "is_sock (st\<lparr>ctxs := x2\<rparr>) = is_sock st"
  "is_sock (st\<lparr>polls := x3\<rparr>) = is_sock st" "is_sock (st\<lparr>cbs := x4\<rparr>) = is_sock st"
  "is_sock (st\<lparr>ext_sizes := x5\<rparr>) = is_sock st"
  "is_ctx (st\<lparr>socks := x1\<rparr>) = is_ctx st" "is_ctx (st\<lparr>ctxs := x2\<rparr>) = is_ctx st"
  "is_ctx (st\<lparr>polls := x3\<rparr>) = is_ctx st" "is_ctx (st\<lparr>cbs := x4\<rparr>) = is_ctx st"
  "is_ctx (st\<lparr>ext_sizes := x5\<rparr>) = is_ctx st"
  "is_poll (st\<lparr>socks := x1\<rparr>) = is_poll st" "is_poll (st\<lparr>ctxs := x2\<rparr>) = is_poll st"
  "is_poll (st\<lparr>polls := x3\<rparr>) = is_poll st" "is_poll (st\<lparr>cbs := x4\<rparr>) = is_poll st"
  "is_poll (st\<lparr>ext_sizes := x5\<rparr>) = is_poll st"
  "is_cb (st\<lparr>socks := x1\<rparr>) = is_cb st" "is_cb (st\<lparr>ctxs := x2\<rparr>) = is_cb st"
  "is_cb (st\<lparr>polls := x3\<rparr>) = is_cb st" "is_cb (st\<lparr>cbs := x4\<rparr>) = is_cb st"
  "is_cb (st\<lparr>ext_sizes := x5\<rparr>) = is_cb st"
  by (auto simp: is_sock_def is_ctx_def is_poll_def is_cb_def)

text \<open>The same for the fields of the loop.\<close>

lemma access_upd_loop:
  fixes P :: "us \<Rightarrow> addr \<Rightarrow> bool"
  assumes "P \<in> {is_sock, is_ctx, is_poll, is_cb}"
  shows "P (st\<lparr>l_last_write_failed := y1\<rparr>) = P st" "P (st\<lparr>l_head := y2\<rparr>) = P st"
    "P (st\<lparr>l_iterator := y2\<rparr>) = P st" "P (st\<lparr>l_closed_head := y2\<rparr>) = P st"
    "P (st\<lparr>l_low_prio_head := y2\<rparr>) = P st" "P (st\<lparr>l_low_prio_budget := y3\<rparr>) = P st"
    "P (st\<lparr>l_iteration_nr := y4\<rparr>) = P st" "P (st\<lparr>num_polls := y3\<rparr>) = P st"
    "P (st\<lparr>num_ready_polls := y5\<rparr>) = P st" "P (st\<lparr>current_ready_poll := y5\<rparr>) = P st"
    "P (st\<lparr>ready_polls := y6\<rparr>) = P st" "P (st\<lparr>trace := y7\<rparr>) = P st" "P (emit e st) = P st"
    "P (st\<lparr>l_sweep_timer := y2\<rparr>) = P st" "P (st\<lparr>l_wakeup_async := y2\<rparr>) = P st"
    "P (st\<lparr>l_pre_cb := y8\<rparr>) = P st" "P (st\<lparr>l_post_cb := y8\<rparr>) = P st"
    "P (st\<lparr>u_ext := y9\<rparr>) = P st" "P (st\<lparr>u_heap := y10\<rparr>) = P st"
    "P (st\<lparr>ssl_socks := y11\<rparr>) = P st" "P (st\<lparr>ssl_ctxs := y12\<rparr>) = P st"
    "P (st\<lparr>l_ssl_data := y13\<rparr>) = P st"
  using assms by (auto simp: is_sock_def is_ctx_def is_poll_def is_cb_def fun_eq_iff)

lemmas access_loop [simp] = access_upd_loop [of is_sock, OF insertI1]
  access_upd_loop [of is_ctx, OF insertI2, OF insertI1]
  access_upd_loop [of is_poll, OF insertI2, OF insertI2, OF insertI1]
  access_upd_loop [of is_cb, OF insertI2, OF insertI2, OF insertI2, OF insertI1]

end
