(* ===== verification/Us_Poll.thy ===== *)
theory Us_Poll
  imports Us_State "HOL-Library.Signed_Division" "HOL-Library.Sublist"
begin

unbundle bit_operations_syntax

text \<open>
  The epoll back end, \<open>src/eventing/epoll_kqueue.c\<close>: polls, the list of ready polls of the
  iteration in progress, timers and asyncs. A poll packs the kind of object and the two
  polling bits in a four bit field; the lemmas say that starting, changing and stopping a
  poll keep the two halves apart, and that a stopped or moved poll leaves no stale entry
  among the ready polls still to be dispatched.
\<close>

section \<open>Polls\<close>

definition us_create_poll :: "kernel \<Rightarrow> kind \<Rightarrow> bool \<Rightarrow> us \<Rightarrow> addr \<times> us" where
  "us_create_poll K k fallthrough st =
     alloc K k (if \<not> fallthrough then st\<lparr>num_polls := num_polls st + 1\<rparr> else st)"

definition us_poll_free :: "addr \<Rightarrow> us \<Rightarrow> us option" where
  "us_poll_free p st = free_obj p (st\<lparr>num_polls := num_polls st - 1\<rparr>)"

definition us_poll_init :: "addr \<Rightarrow> int \<Rightarrow> 4 word \<Rightarrow> us \<Rightarrow> us option" where
  "us_poll_init p fd ty st = wr_poll p (\<lambda>q. q\<lparr>p_fd := word_of_int fd, p_type := ty\<rparr>) st"

text \<open>The polling bits of a poll as epoll events, and events as polling bits.\<close>

definition events_of_type :: "4 word \<Rightarrow> u32" where
  "events_of_type ty =
     (if ty AND POLL_TYPE_POLLING_IN \<noteq> 0 then LIBUS_SOCKET_READABLE else 0) OR
     (if ty AND POLL_TYPE_POLLING_OUT \<noteq> 0 then LIBUS_SOCKET_WRITABLE else 0)"

definition type_of_events :: "u32 \<Rightarrow> 4 word" where
  "type_of_events ev =
     (if ev AND LIBUS_SOCKET_READABLE \<noteq> 0 then POLL_TYPE_POLLING_IN else 0) OR
     (if ev AND LIBUS_SOCKET_WRITABLE \<noteq> 0 then POLL_TYPE_POLLING_OUT else 0)"

definition us_poll_events :: "addr \<Rightarrow> us \<Rightarrow> u32 option" where
  "us_poll_events p st = map_option (\<lambda>q. events_of_type (p_type q)) (rd_poll p st)"

definition us_poll_fd :: "addr \<Rightarrow> us \<Rightarrow> int option" where
  "us_poll_fd p st = map_option (\<lambda>q. sint (p_fd q)) (rd_poll p st)"

definition us_internal_poll_type :: "addr \<Rightarrow> us \<Rightarrow> 4 word option" where
  "us_internal_poll_type p st = map_option (\<lambda>q. p_type q AND 3) (rd_poll p st)"

definition us_internal_poll_set_type :: "addr \<Rightarrow> 4 word \<Rightarrow> us \<Rightarrow> us option" where
  "us_internal_poll_set_type p ty st =
     wr_poll p (\<lambda>q. q\<lparr>p_type := ty OR (p_type q AND 12)\<rparr>) st"

section \<open>The ready polls still to be dispatched\<close>

text \<open>
  The loop over the ready polls from the current one on, with the number of entries the poll
  may still have there; epoll has one entry per poll.
\<close>

function update_pending_loop ::
  "nat \<Rightarrow> nat \<Rightarrow> nat \<Rightarrow> addr \<Rightarrow> addr \<Rightarrow> (addr \<times> u32) list \<Rightarrow> (addr \<times> u32) list" where
  "update_pending_loop i n remaining old_poll new_poll rp =
     (if i < n \<and> remaining \<noteq> 0 then
        (if fst (rp ! i) = old_poll
         then update_pending_loop (i + 1) n (remaining - 1) old_poll new_poll
                (rp[i := (new_poll, snd (rp ! i))])
         else update_pending_loop (i + 1) n remaining old_poll new_poll rp)
      else rp)"
  by pat_completeness auto
termination
  by (relation "measure (\<lambda>(i, n, _). n - i)") auto

declare update_pending_loop.simps [simp del]

definition us_internal_loop_update_pending_ready_polls :: "addr \<Rightarrow> addr \<Rightarrow> us \<Rightarrow> us" where
  "us_internal_loop_update_pending_ready_polls old_poll new_poll st =
     st\<lparr>ready_polls := update_pending_loop (current_ready_poll st) (num_ready_polls st) 1
          old_poll new_poll (ready_polls st)\<rparr>"

section \<open>Starting, changing, stopping, moving a poll\<close>

definition us_poll_start :: "addr \<Rightarrow> u32 \<Rightarrow> us \<Rightarrow> us option" where
  "us_poll_start p events st = do {
     ty \<leftarrow> us_internal_poll_type p st;
     st \<leftarrow> wr_poll p (\<lambda>q. q\<lparr>p_type := ty OR type_of_events events\<rparr>) st;
     fd \<leftarrow> us_poll_fd p st;
     Some (emit (EpollCtlAdd fd events p) st)
   }"

definition us_poll_change :: "addr \<Rightarrow> u32 \<Rightarrow> us \<Rightarrow> us option" where
  "us_poll_change p events st = do {
     old_events \<leftarrow> us_poll_events p st;
     if old_events \<noteq> events then do {
       ty \<leftarrow> us_internal_poll_type p st;
       st \<leftarrow> wr_poll p (\<lambda>q. q\<lparr>p_type := ty OR type_of_events events\<rparr>) st;
       fd \<leftarrow> us_poll_fd p st;
       Some (emit (EpollCtlMod fd events p) st)
     } else Some st
   }"

definition us_poll_stop :: "addr \<Rightarrow> us \<Rightarrow> us option" where
  "us_poll_stop p st = do {
     fd \<leftarrow> us_poll_fd p st;
     Some (us_internal_loop_update_pending_ready_polls p NULL (emit (EpollCtlDel fd) st))
   }"

definition us_poll_resize :: "kernel \<Rightarrow> addr \<Rightarrow> us \<Rightarrow> (addr \<times> us) option" where
  "us_poll_resize K p st = do {
     events \<leftarrow> us_poll_events p st;
     (new_p, st) \<leftarrow> realloc_obj K p st;
     if p \<noteq> new_p \<and> events \<noteq> 0 then do {
       ty \<leftarrow> us_internal_poll_type new_p st;
       st \<leftarrow> wr_poll new_p (\<lambda>q. q\<lparr>p_type := ty\<rparr>) st;
       st \<leftarrow> us_poll_change new_p events st;
       Some (new_p, us_internal_loop_update_pending_ready_polls p new_p st)
     } else Some (new_p, st)
   }"

text \<open>Reading the eight bytes of a timer or event descriptor that is ready.\<close>

definition us_internal_accept_poll_event :: "addr \<Rightarrow> us \<Rightarrow> us option" where
  "us_internal_accept_poll_event p st = do {
     fd \<leftarrow> us_poll_fd p st;
     Some (emit (ReadEvent fd) st)
   }"

section \<open>Timers and asyncs\<close>

definition us_create_timer :: "kernel \<Rightarrow> bool \<Rightarrow> us \<Rightarrow> (addr \<times> us) option" where
  "us_create_timer K fallthrough st = (
     let (p, st) = us_create_poll K KCallback fallthrough st;
         st = emit TimerfdCreate st;
         timerfd = k_fd K st
     in if timerfd = -1 then Some (NULL, st) else do {
       st \<leftarrow> us_poll_init p timerfd POLL_TYPE_CALLBACK st;
       st \<leftarrow> wr_cb p (\<lambda>c. c\<lparr>cb_expects_the_loop := False, cb_leave_poll_ready := False\<rparr>) st;
       Some (p, st)
     })"

definition us_timer_close :: "addr \<Rightarrow> us \<Rightarrow> us option" where
  "us_timer_close t st = do {
     st \<leftarrow> us_poll_stop t st;
     fd \<leftarrow> us_poll_fd t st;
     us_poll_free t (emit (Close fd) st)
   }"

text \<open>C's division truncates; milliseconds become seconds and nanoseconds.\<close>

definition timespec_of_ms :: "int \<Rightarrow> int \<times> int" where
  "timespec_of_ms ms = (ms sdiv 1000, (ms smod 1000) * 1000000)"

definition us_timer_set :: "addr \<Rightarrow> fnptr \<Rightarrow> int \<Rightarrow> int \<Rightarrow> us \<Rightarrow> us option" where
  "us_timer_set t cb ms repeat_ms st = do {
     st \<leftarrow> wr_cb t (\<lambda>c. c\<lparr>cb_cb := cb\<rparr>) st;
     fd \<leftarrow> us_poll_fd t st;
     us_poll_start t LIBUS_SOCKET_READABLE
       (emit (TimerfdSettime fd (timespec_of_ms repeat_ms) (timespec_of_ms ms)) st)
   }"

definition us_internal_create_async :: "kernel \<Rightarrow> bool \<Rightarrow> us \<Rightarrow> (addr \<times> us) option" where
  "us_internal_create_async K fallthrough st = (
     let (p, st) = us_create_poll K KCallback fallthrough st;
         st = emit EventfdCreate st
     in do {
       st \<leftarrow> us_poll_init p (k_fd K st) POLL_TYPE_CALLBACK st;
       st \<leftarrow> wr_cb p (\<lambda>c. c\<lparr>cb_expects_the_loop := True, cb_leave_poll_ready := False\<rparr>) st;
       Some (p, st)
     })"

definition us_internal_async_close :: "addr \<Rightarrow> us \<Rightarrow> us option" where
  "us_internal_async_close a st = do {
     st \<leftarrow> us_poll_stop a st;
     fd \<leftarrow> us_poll_fd a st;
     us_poll_free a (emit (Close fd) st)
   }"

definition us_internal_async_set :: "addr \<Rightarrow> fnptr \<Rightarrow> us \<Rightarrow> us option" where
  "us_internal_async_set a cb st = do {
     st \<leftarrow> wr_cb a (\<lambda>c. c\<lparr>cb_cb := cb\<rparr>) st;
     us_poll_start a LIBUS_SOCKET_READABLE st
   }"

definition us_internal_async_wakeup :: "addr \<Rightarrow> us \<Rightarrow> us option" where
  "us_internal_async_wakeup a st = do {
     fd \<leftarrow> us_poll_fd a st;
     Some (emit (WriteEvent fd) st)
   }"


section \<open>The two halves of the poll type\<close>

lemma and_bit_iff:
  "w AND (1 :: 'a::len word) \<noteq> 0 \<longleftrightarrow> bit w 0"
  "w AND (4 :: 'a word) \<noteq> 0 \<longleftrightarrow> bit w 2"
  "w AND (8 :: 'a word) \<noteq> 0 \<longleftrightarrow> bit w 3"
  using and_exp_eq_0_iff_not_bit [of w 0] and_exp_eq_0_iff_not_bit [of w 2]
    and_exp_eq_0_iff_not_bit [of w 3] by simp_all

declare bit_numeral_word_iff [simp del]

lemma bit_small_numeral:
  "bit (1 :: 'a::len word) n \<longleftrightarrow> n = 0 \<and> n < LENGTH('a)"
  "bit (4 :: 'a word) n \<longleftrightarrow> n = 2 \<and> n < LENGTH('a)"
  "bit (8 :: 'a word) n \<longleftrightarrow> n = 3 \<and> n < LENGTH('a)"
  using bit_exp_iff [of 0 n, where ?'a = "'a word"] bit_exp_iff [of 2 n, where ?'a = "'a word"]
    bit_exp_iff [of 3 n, where ?'a = "'a word"] by (auto simp: possible_bit_def)

lemma bit_3_12:
  "bit (1 :: 4 word) n \<longleftrightarrow> n = 0" "bit (2 :: 4 word) n \<longleftrightarrow> n = 1"
  "bit (3 :: 4 word) n \<longleftrightarrow> n = 0 \<or> n = 1" "bit (12 :: 4 word) n \<longleftrightarrow> n = 2 \<or> n = 3"
proof -
  show b1: "bit (1 :: 4 word) n \<longleftrightarrow> n = 0" and b2: "bit (2 :: 4 word) n \<longleftrightarrow> n = 1"
    using bit_exp_iff [of 0 n, where ?'a = "4 word"] bit_exp_iff [of 1 n, where ?'a = "4 word"]
    by (auto simp: possible_bit_def)
  have e3: "(3 :: 4 word) = 1 OR 2" and e12: "(12 :: 4 word) = 4 OR 8" by simp_all
  show "bit (3 :: 4 word) n \<longleftrightarrow> n = 0 \<or> n = 1"
    unfolding e3 bit_or_iff b1 b2 by simp
  show "bit (12 :: 4 word) n \<longleftrightarrow> n = 2 \<or> n = 3"
    unfolding e12 bit_or_iff bit_small_numeral by auto
qed

lemma events_of_type_bits:
  "bit (events_of_type ty) n \<longleftrightarrow> (n = 0 \<and> bit ty 3) \<or> (n = 2 \<and> bit ty 2)"
  by (auto simp: events_of_type_def event_defs poll_type_defs and_bit_iff bit_or_iff
      bit_small_numeral)

lemma type_of_events_bits:
  "bit (type_of_events ev) n \<longleftrightarrow> (n = 3 \<and> bit ev 0) \<or> (n = 2 \<and> bit ev 2)"
  by (auto simp: type_of_events_def event_defs poll_type_defs and_bit_iff bit_or_iff
      bit_small_numeral)

text \<open>What can be polled for: the readable and the writable bit.\<close>

definition poll_mask :: u32 where "poll_mask = LIBUS_SOCKET_READABLE OR LIBUS_SOCKET_WRITABLE"

lemma bit_poll_mask: "bit poll_mask n \<longleftrightarrow> n = 0 \<or> n = 2"
  unfolding poll_mask_def event_defs bit_or_iff bit_small_numeral by auto

lemma events_type_events [simp]:
  "events_of_type ((ty AND 3) OR type_of_events ev) = ev AND poll_mask"
  by (rule bit_word_eqI)
    (auto simp: events_of_type_bits type_of_events_bits bit_or_iff bit_and_iff bit_3_12
      bit_poll_mask)

lemma type_of_type_events [simp]: "((ty AND 3) OR type_of_events ev) AND 3 = ty AND 3"
  by (rule bit_word_eqI) (auto simp: type_of_events_bits bit_or_iff bit_and_iff bit_3_12)

lemma events_set_type [simp]: "events_of_type (((t :: 4 word) AND 3) OR (ty AND 12)) = events_of_type ty"
  by (rule bit_word_eqI)
    (auto simp: events_of_type_bits bit_or_iff bit_and_iff bit_3_12)

lemma type_set_type [simp]: "(((t :: 4 word) AND 3) OR (ty AND 12)) AND 3 = t AND 3"
  by (rule bit_word_eqI) (auto simp: bit_or_iff bit_and_iff bit_3_12)

lemma events_of_type_mask [simp]: "events_of_type ty AND poll_mask = events_of_type ty"
  by (rule bit_word_eqI) (auto simp: events_of_type_bits bit_and_iff bit_poll_mask)

lemma events_of_type_and3 [simp]: "events_of_type (ty AND 3) = 0"
  by (rule bit_word_eqI) (auto simp: events_of_type_bits bit_and_iff bit_3_12)

lemma and3_idem [simp]: "(ty AND 3) AND (3 :: 4 word) = ty AND 3"
  by (rule bit_word_eqI) (auto simp: bit_and_iff)

lemma poll_types_and3 [simp]:
  "POLL_TYPE_SOCKET AND 3 = POLL_TYPE_SOCKET"
  "POLL_TYPE_SOCKET_SHUT_DOWN AND 3 = POLL_TYPE_SOCKET_SHUT_DOWN"
  "POLL_TYPE_SEMI_SOCKET AND 3 = POLL_TYPE_SEMI_SOCKET"
  "POLL_TYPE_CALLBACK AND 3 = POLL_TYPE_CALLBACK"
  by (simp_all add: poll_type_defs)

declare bit_numeral_word_iff [simp]

section \<open>The pending entries\<close>

text \<open>The reference: rewrite the first entry of the old poll.\<close>

fun replace_first :: "addr \<Rightarrow> addr \<Rightarrow> (addr \<times> u32) list \<Rightarrow> (addr \<times> u32) list" where
  "replace_first old new [] = []"
| "replace_first old new (e # es) =
     (if fst e = old then (new, snd e) # es else e # replace_first old new es)"

lemma update_pending_loop_0 [simp]: "update_pending_loop i n 0 old new rp = rp"
  by (simp add: update_pending_loop.simps [of i])

lemma update_pending_loop_eq:
  "n \<le> length rp \<Longrightarrow> i \<le> n \<Longrightarrow>
   update_pending_loop i n 1 old new rp =
     take i rp @ replace_first old new (take (n - i) (drop i rp)) @ drop n rp"
proof (induction "n - i" arbitrary: i)
  case 0
  then show ?case by (simp add: update_pending_loop.simps [of i])
next
  case (Suc k)
  then have i: "i < n" "i < length rp" by auto
  then have split: "take (n - i) (drop i rp) = rp ! i # take (n - Suc i) (drop (Suc i) rp)"
    by (metis Cons_nth_drop_Suc Suc_diff_Suc take_Suc_Cons)
  have upd: "rp[i := e] = take i rp @ e # take (n - Suc i) (drop (Suc i) rp) @ drop n rp" for e
    using i Suc.prems
    by (simp add: upd_conv_take_nth_drop)
      (metis Suc_leI append_take_drop_id drop_drop le_add_diff_inverse2)
  show ?case
  proof (cases "fst (rp ! i) = old")
    case True
    then show ?thesis using i split upd
      by (simp add: update_pending_loop.simps [of i])
  next
    case False
    have "update_pending_loop (Suc i) n 1 old new rp =
        take (Suc i) rp @ replace_first old new (take (n - Suc i) (drop (Suc i) rp)) @ drop n rp"
      using Suc.hyps(2) Suc.prems i by (intro Suc.hyps(1)) auto
    then show ?thesis using False i split
      by (simp add: update_pending_loop.simps [of i] take_Suc_conv_app_nth)
  qed
qed

text \<open>The entries still to be dispatched; each poll has at most one, as epoll promises.\<close>

definition pending :: "us \<Rightarrow> (addr \<times> u32) list" where
  "pending st = drop (current_ready_poll st) (ready_polls st)"

definition ready_ok :: "us \<Rightarrow> bool" where
  "ready_ok st \<longleftrightarrow> num_ready_polls st = length (ready_polls st) \<and>
     current_ready_poll st \<le> num_ready_polls st \<and>
     distinct (filter (\<lambda>p. p \<noteq> NULL) (map fst (pending st)))"

lemma replace_first_set:
  "distinct (filter (\<lambda>p. p \<noteq> NULL) (map fst es)) \<Longrightarrow> old \<noteq> NULL \<Longrightarrow>
   fst ` set (replace_first old new es) =
     (if old \<in> fst ` set es then insert new (fst ` set es - {old}) else fst ` set es)"
  by (induction es) (auto split: if_splits)

lemma replace_first_distinct:
  "distinct (filter (\<lambda>p. p \<noteq> NULL) (map fst es)) \<Longrightarrow> old \<noteq> NULL \<Longrightarrow>
   new = NULL \<or> new \<notin> fst ` set es \<Longrightarrow>
   distinct (filter (\<lambda>p. p \<noteq> NULL) (map fst (replace_first old new es)))"
proof (induction es)
  case (Cons e es)
  then show ?case by (auto simp: replace_first_set split: if_splits)
qed simp

lemma length_replace_first [simp]: "length (replace_first old new es) = length es"
  by (induction es) auto

lemma update_pending_pending:
  assumes "ready_ok st"
  shows "pending (us_internal_loop_update_pending_ready_polls old new st) =
    replace_first old new (pending st)"
  using assms update_pending_loop_eq [of "num_ready_polls st" "ready_polls st" "current_ready_poll st"]
  by (simp add: us_internal_loop_update_pending_ready_polls_def pending_def ready_ok_def)

lemma update_pending_ready_ok:
  assumes "ready_ok st" and "old \<noteq> NULL" and "new = NULL \<or> new \<notin> fst ` set (pending st)"
  shows "ready_ok (us_internal_loop_update_pending_ready_polls old new st)"
proof -
  have "length (update_pending_loop (current_ready_poll st) (num_ready_polls st) 1 old new
      (ready_polls st)) = length (ready_polls st)"
    using assms(1) by (subst update_pending_loop_eq) (auto simp: ready_ok_def)
  then show ?thesis
    using assms replace_first_distinct [of "pending st" old new]
    by (simp add: ready_ok_def update_pending_pending)
      (simp add: us_internal_loop_update_pending_ready_polls_def)
qed

lemma update_pending_simps [simp]:
  "objs (us_internal_loop_update_pending_ready_polls p q st) = objs st"
  "polls (us_internal_loop_update_pending_ready_polls p q st) = polls st"
  "socks (us_internal_loop_update_pending_ready_polls p q st) = socks st"
  "ctxs (us_internal_loop_update_pending_ready_polls p q st) = ctxs st"
  "cbs (us_internal_loop_update_pending_ready_polls p q st) = cbs st"
  "trace (us_internal_loop_update_pending_ready_polls p q st) = trace st"
  "num_polls (us_internal_loop_update_pending_ready_polls p q st) = num_polls st"
  "l_head (us_internal_loop_update_pending_ready_polls p q st) = l_head st"
  "l_iterator (us_internal_loop_update_pending_ready_polls p q st) = l_iterator st"
  "l_closed_head (us_internal_loop_update_pending_ready_polls p q st) = l_closed_head st"
  "l_low_prio_head (us_internal_loop_update_pending_ready_polls p q st) = l_low_prio_head st"
  "current_ready_poll (us_internal_loop_update_pending_ready_polls p q st) = current_ready_poll st"
  "num_ready_polls (us_internal_loop_update_pending_ready_polls p q st) = num_ready_polls st"
  by (simp_all add: us_internal_loop_update_pending_ready_polls_def)


section \<open>What the poll operations change\<close>

text \<open>
  A poll operation touches the polls, the ready list and the trace, and nothing else: the
  records before and after agree on every other field.
\<close>

definition poll_frame :: "us \<Rightarrow> us \<Rightarrow> bool" where
  "poll_frame st st' \<longleftrightarrow> (\<exists>ps rs tr. st' = st\<lparr>polls := ps, ready_polls := rs, trace := trace st @ tr\<rparr>)"

lemma poll_frameI: "st' = st\<lparr>polls := ps, ready_polls := rs, trace := trace st @ tr\<rparr> \<Longrightarrow> poll_frame st st'"
  by (auto simp: poll_frame_def)

lemma poll_frameD [us_frame]:
  assumes "poll_frame st st'"
  shows "objs st' = objs st" "socks st' = socks st" "ext_sizes st' = ext_sizes st"
    "ctxs st' = ctxs st" "cbs st' = cbs st" "l_head st' = l_head st"
    "l_iterator st' = l_iterator st" "l_closed_head st' = l_closed_head st"
    "l_low_prio_head st' = l_low_prio_head st" "l_low_prio_budget st' = l_low_prio_budget st"
    "num_polls st' = num_polls st" "num_ready_polls st' = num_ready_polls st"
    "current_ready_poll st' = current_ready_poll st"
    "l_last_write_failed st' = l_last_write_failed st"
    "l_pre_cb st' = l_pre_cb st" "l_post_cb st' = l_post_cb st"
    "prefix (trace st) (trace st')" "u_ext st' = u_ext st" "u_heap st' = u_heap st"
    "ssl_socks st' = ssl_socks st" "ssl_ctxs st' = ssl_ctxs st" "l_ssl_data st' = l_ssl_data st"
  using assms by (auto simp: poll_frame_def)

lemma poll_frame_trans [trans]: "poll_frame s t \<Longrightarrow> poll_frame t u \<Longrightarrow> poll_frame s u"
proof -
  assume "poll_frame s t" "poll_frame t u"
  then obtain ps rs tr ps' rs' tr' where
    "t = s\<lparr>polls := ps, ready_polls := rs, trace := trace s @ tr\<rparr>"
    "u = t\<lparr>polls := ps', ready_polls := rs', trace := trace t @ tr'\<rparr>"
    unfolding poll_frame_def by blast
  then have "u = s\<lparr>polls := ps', ready_polls := rs', trace := trace s @ (tr @ tr')\<rparr>" by simp
  then show ?thesis by (rule poll_frameI)
qed

lemma poll_frame_simps [simp]:
  "poll_frame st st"
  "poll_frame st (st\<lparr>polls := ps\<rparr>)" "poll_frame st (st\<lparr>ready_polls := rs\<rparr>)"
  "poll_frame st (emit e st)"
  by (rule poll_frameI [where ps = "polls st" and rs = "ready_polls st" and tr = "[]"], simp)
    (rule poll_frameI [where ps = ps and rs = "ready_polls st" and tr = "[]"], simp,
     rule poll_frameI [where ps = "polls st" and rs = rs and tr = "[]"], simp,
     rule poll_frameI [where ps = "polls st" and rs = "ready_polls st" and tr = "[e]"],
     simp add: emit_def)

lemma poll_frame_pending [simp]:
  "poll_frame st (us_internal_loop_update_pending_ready_polls p q st)"
  by (simp add: us_internal_loop_update_pending_ready_polls_def)

lemma poll_frame_into [simp]:
  "poll_frame s t \<Longrightarrow> poll_frame s (t\<lparr>polls := ps\<rparr>)"
  "poll_frame s t \<Longrightarrow> poll_frame s (emit e t)"
  "poll_frame s t \<Longrightarrow> poll_frame s (us_internal_loop_update_pending_ready_polls p q t)"
  using poll_frame_trans [of s t] by simp_all

lemma us_poll_start_eq:
  "is_poll st p \<Longrightarrow> us_poll_start p ev st = Some (emit (EpollCtlAdd (sint (p_fd (polls st p))) ev p)
     (st\<lparr>polls := (polls st)(p := (polls st p)\<lparr>p_type :=
        (p_type (polls st p) AND 3) OR type_of_events ev\<rparr>)\<rparr>))"
  by (simp add: us_poll_start_def us_internal_poll_type_def us_poll_fd_def)

lemma us_poll_change_eq:
  "is_poll st p \<Longrightarrow> us_poll_change p ev st = Some (if events_of_type (p_type (polls st p)) \<noteq> ev
     then emit (EpollCtlMod (sint (p_fd (polls st p))) ev p)
       (st\<lparr>polls := (polls st)(p := (polls st p)\<lparr>p_type :=
          (p_type (polls st p) AND 3) OR type_of_events ev\<rparr>)\<rparr>)
     else st)"
  by (simp add: us_poll_change_def us_poll_events_def us_internal_poll_type_def us_poll_fd_def)

lemma us_poll_stop_eq:
  "is_poll st p \<Longrightarrow> us_poll_stop p st = Some (us_internal_loop_update_pending_ready_polls p NULL
     (emit (EpollCtlDel (sint (p_fd (polls st p)))) st))"
  by (simp add: us_poll_stop_def us_poll_fd_def)

lemma us_internal_poll_set_type_eq:
  "is_poll st p \<Longrightarrow> us_internal_poll_set_type p ty st = Some (st\<lparr>polls := (polls st)(p :=
     (polls st p)\<lparr>p_type := ty OR (p_type (polls st p) AND 12)\<rparr>)\<rparr>)"
  by (simp add: us_internal_poll_set_type_def)

section \<open>The interface of an event back end\<close>

text \<open>What a change of one poll leaves alone: every other poll, and the ready list.\<close>

definition poll_local :: "addr \<Rightarrow> us \<Rightarrow> us \<Rightarrow> bool" where
  "poll_local p st st' \<longleftrightarrow> poll_frame st st' \<and> ready_polls st' = ready_polls st \<and>
     (\<forall>a. a \<noteq> p \<longrightarrow> polls st' a = polls st a)"

lemma poll_local_trans: "poll_local p s t \<Longrightarrow> poll_local p t u \<Longrightarrow> poll_local p s u"
  using poll_frame_trans by (auto simp: poll_local_def)

lemma poll_localD:
  assumes "poll_local p st st'"
  shows "poll_frame st st'" "ready_polls st' = ready_polls st" "a \<noteq> p \<Longrightarrow> polls st' a = polls st a"
    "pending st' = pending st"
  using assms poll_frameD(13) [of st st'] by (auto simp: poll_local_def pending_def)

text \<open>
  What the sockets rely on. Events are bit sets; a back end remembers the events a poll was
  started or changed with, keeps the type of the poll apart from them, and touches nothing
  but its polls. The epoll back end provides it.
\<close>

locale poll_backend =
  fixes start change :: "addr \<Rightarrow> u32 \<Rightarrow> us \<Rightarrow> us option"
    and stop :: "addr \<Rightarrow> us \<Rightarrow> us option"
    and set_type :: "addr \<Rightarrow> 4 word \<Rightarrow> us \<Rightarrow> us option"
    and events :: "addr \<Rightarrow> us \<Rightarrow> u32 option"
    and ptype :: "addr \<Rightarrow> us \<Rightarrow> 4 word option"
  assumes start_ok: "is_poll st p \<Longrightarrow> \<exists>st'. start p ev st = Some st' \<and> poll_frame st st' \<and>
      events p st' = Some (ev AND poll_mask) \<and> ptype p st' = ptype p st"
    and change_ok: "is_poll st p \<Longrightarrow> ev AND poll_mask = ev \<Longrightarrow>
      \<exists>st'. change p ev st = Some st' \<and> poll_local p st st' \<and>
      events p st' = Some ev \<and> ptype p st' = ptype p st"
    and set_type_ok: "is_poll st p \<Longrightarrow> ty AND 3 = ty \<Longrightarrow>
      \<exists>st'. set_type p ty st = Some st' \<and> poll_local p st st' \<and>
      events p st' = events p st \<and> ptype p st' = Some ty"
    and stop_ok: "is_poll st p \<Longrightarrow> ready_ok st \<Longrightarrow> \<exists>st'. stop p st = Some st' \<and> poll_frame st st' \<and>
      ready_ok st' \<and> pending st' = replace_first p NULL (pending st) \<and> p \<notin> fst ` set (pending st')"
    and events_ok: "is_poll st p \<Longrightarrow> \<exists>ev. events p st = Some ev \<and> ev AND poll_mask = ev"
begin

text \<open>Dropping events, as the code does to pause reading or writing.\<close>

lemma restrict_ok:
  assumes "is_poll st p" and "events p st = Some ev"
  shows "\<exists>st'. change p (ev AND m) st = Some st' \<and> poll_local p st st' \<and>
    events p st' = Some (ev AND m) \<and> ptype p st' = ptype p st"
proof -
  have "ev AND poll_mask = ev" using events_ok [OF assms(1)] assms(2) by auto
  then have "(ev AND m) AND poll_mask = ev AND m"
    by (metis and.assoc and.commute)
  then show ?thesis using change_ok [OF assms(1)] by blast
qed

text \<open>Half closing: the type becomes \<open>ty\<close>, and only reading is polled for.\<close>

lemma set_type_restrict_ok:
  assumes "is_poll st p" and "ty AND 3 = ty" and "events p st = Some ev"
  shows "\<exists>st1 st'. set_type p ty st = Some st1 \<and> change p (ev AND m) st1 = Some st' \<and>
    is_poll st1 p \<and> poll_local p st st1 \<and> poll_local p st st' \<and>
    events p st1 = Some ev \<and> events p st' = Some (ev AND m) \<and> ptype p st' = Some ty"
proof -
  from set_type_ok [OF assms(1,2)] obtain st1 where 1: "set_type p ty st = Some st1"
    "poll_local p st st1" "events p st1 = events p st" "ptype p st1 = Some ty" by blast
  then have "is_poll st1 p"
    using assms(1) access_cong(2) [of st p st1] poll_frameD(1) [OF poll_localD(1) [OF 1(2)]] by simp
  with restrict_ok [OF this, of ev m] 1 assms(3) show ?thesis
    by (auto intro: poll_local_trans)
qed

end

lemma replace_first_notin:
  "distinct (filter (\<lambda>p. p \<noteq> NULL) (map fst es)) \<Longrightarrow> old \<noteq> NULL \<Longrightarrow>
   old \<notin> fst ` set (replace_first old NULL es)"
  by (simp add: replace_first_set)

interpretation epoll: poll_backend us_poll_start us_poll_change us_poll_stop
  us_internal_poll_set_type us_poll_events us_internal_poll_type
proof unfold_locales
  fix st p ev
  assume p: "is_poll st p"
  show "\<exists>st'. us_poll_start p ev st = Some st' \<and> poll_frame st st' \<and>
      us_poll_events p st' = Some (ev AND poll_mask) \<and>
      us_internal_poll_type p st' = us_internal_poll_type p st"
    using p by (simp add: us_poll_start_eq us_poll_events_def us_internal_poll_type_def)
next
  fix st p and ev :: u32
  assume p: "is_poll st p" and ev: "ev AND poll_mask = ev"
  then show "\<exists>st'. us_poll_change p ev st = Some st' \<and> poll_local p st st' \<and>
      us_poll_events p st' = Some ev \<and> us_internal_poll_type p st' = us_internal_poll_type p st"
    by (simp add: us_poll_change_eq us_poll_events_def us_internal_poll_type_def poll_local_def)
next
  fix st p and ty :: "4 word"
  assume p: "is_poll st p" and ty: "ty AND 3 = ty"
  then show "\<exists>st'. us_internal_poll_set_type p ty st = Some st' \<and> poll_local p st st' \<and>
      us_poll_events p st' = us_poll_events p st \<and> us_internal_poll_type p st' = Some ty"
    using events_set_type [of ty "p_type (polls st p)"] type_set_type [of ty "p_type (polls st p)"]
    by (simp add: us_internal_poll_set_type_eq us_poll_events_def us_internal_poll_type_def
        poll_local_def)
next
  fix st p
  assume p: "is_poll st p" and r: "ready_ok st"
  let ?e = "EpollCtlDel (sint (p_fd (polls st p)))"
  have r': "ready_ok (emit ?e st)" and pe: "pending (emit ?e st) = pending st"
    using r by (simp_all add: ready_ok_def pending_def)
  have p0: "p \<noteq> NULL" using p by (auto simp: is_poll_def)
  show "\<exists>st'. us_poll_stop p st = Some st' \<and> poll_frame st st' \<and> ready_ok st' \<and>
      pending st' = replace_first p NULL (pending st) \<and> p \<notin> fst ` set (pending st')"
    using p p0 r r' pe update_pending_ready_ok [OF r' p0, of NULL]
      replace_first_notin [of "pending st" p]
    by (simp add: us_poll_stop_eq update_pending_pending ready_ok_def)
next
  fix st p
  assume "is_poll st p"
  then show "\<exists>ev. us_poll_events p st = Some ev \<and> ev AND poll_mask = ev"
    by (simp add: us_poll_events_def)
qed

end
