(* ===== verification/Us_Lists.thy ===== *)
theory Us_Lists
  imports Us_Poll
begin

unbundle bit_operations_syntax

text \<open>
  The lists of the program: linking and unlinking of sockets and listen sockets
  (\<open>src/context.c\<close>), of contexts in the loop (\<open>src/loop.c\<close>), and the invariant that says
  which list spells which sequence of objects. The abstract state \<open>alists\<close> holds these
  sequences; \<open>us_inv A st\<close> says that the pointers of \<open>st\<close> implement \<open>A\<close>, and every
  operation is shown to be defined (no bad pointer is followed) and to implement its list
  operation.
\<close>

section \<open>Linking and unlinking\<close>

definition us_internal_socket_context_link_socket :: "addr \<Rightarrow> addr \<Rightarrow> us \<Rightarrow> us option" where
  "us_internal_socket_context_link_socket context s st = do {
     st \<leftarrow> wr_sock s (\<lambda>k. k\<lparr>s_context := context\<rparr>) st;
     c \<leftarrow> rd_ctx context st;
     st \<leftarrow> wr_sock s (\<lambda>k. k\<lparr>s_next := c_head_sockets c\<rparr>) st;
     st \<leftarrow> wr_sock s (\<lambda>k. k\<lparr>s_prev := NULL\<rparr>) st;
     st \<leftarrow> (if c_head_sockets c \<noteq> NULL
           then wr_sock (c_head_sockets c) (\<lambda>k. k\<lparr>s_prev := s\<rparr>) st else Some st);
     wr_ctx context (\<lambda>c. c\<lparr>c_head_sockets := s\<rparr>) st
   }"

definition us_internal_socket_context_unlink_socket :: "addr \<Rightarrow> addr \<Rightarrow> us \<Rightarrow> us option" where
  "us_internal_socket_context_unlink_socket context s st = do {
     c \<leftarrow> rd_ctx context st;
     k \<leftarrow> rd_sock s st;
     st \<leftarrow> (if s = c_iterator c
           then wr_ctx context (\<lambda>c. c\<lparr>c_iterator := s_next k\<rparr>) st else Some st);
     if s_prev k = s_next k
     then wr_ctx context (\<lambda>c. c\<lparr>c_head_sockets := NULL\<rparr>) st
     else do {
       st \<leftarrow> (if s_prev k \<noteq> NULL
             then wr_sock (s_prev k) (\<lambda>p. p\<lparr>s_next := s_next k\<rparr>) st
             else wr_ctx context (\<lambda>c. c\<lparr>c_head_sockets := s_next k\<rparr>) st);
       k \<leftarrow> rd_sock s st;
       if s_next k \<noteq> NULL
       then wr_sock (s_next k) (\<lambda>n. n\<lparr>s_prev := s_prev k\<rparr>) st
       else Some st
     }
   }"

definition us_internal_socket_context_link_listen_socket :: "addr \<Rightarrow> addr \<Rightarrow> us \<Rightarrow> us option" where
  "us_internal_socket_context_link_listen_socket context ls st = do {
     st \<leftarrow> wr_sock ls (\<lambda>k. k\<lparr>s_context := context\<rparr>) st;
     c \<leftarrow> rd_ctx context st;
     st \<leftarrow> wr_sock ls (\<lambda>k. k\<lparr>s_next := c_head_listen_sockets c\<rparr>) st;
     st \<leftarrow> wr_sock ls (\<lambda>k. k\<lparr>s_prev := NULL\<rparr>) st;
     st \<leftarrow> (if c_head_listen_sockets c \<noteq> NULL
           then wr_sock (c_head_listen_sockets c) (\<lambda>k. k\<lparr>s_prev := ls\<rparr>) st else Some st);
     wr_ctx context (\<lambda>c. c\<lparr>c_head_listen_sockets := ls\<rparr>) st
   }"

definition us_internal_socket_context_unlink_listen_socket :: "addr \<Rightarrow> addr \<Rightarrow> us \<Rightarrow> us option" where
  "us_internal_socket_context_unlink_listen_socket context ls st = do {
     c \<leftarrow> rd_ctx context st;
     k \<leftarrow> rd_sock ls st;
     st \<leftarrow> (if ls = c_iterator c
           then wr_ctx context (\<lambda>c. c\<lparr>c_iterator := s_next k\<rparr>) st else Some st);
     if s_prev k = s_next k
     then wr_ctx context (\<lambda>c. c\<lparr>c_head_listen_sockets := NULL\<rparr>) st
     else do {
       st \<leftarrow> (if s_prev k \<noteq> NULL
             then wr_sock (s_prev k) (\<lambda>p. p\<lparr>s_next := s_next k\<rparr>) st
             else wr_ctx context (\<lambda>c. c\<lparr>c_head_listen_sockets := s_next k\<rparr>) st);
       k \<leftarrow> rd_sock ls st;
       if s_next k \<noteq> NULL
       then wr_sock (s_next k) (\<lambda>n. n\<lparr>s_prev := s_prev k\<rparr>) st
       else Some st
     }
   }"

definition us_internal_loop_link :: "addr \<Rightarrow> us \<Rightarrow> us option" where
  "us_internal_loop_link context st = do {
     st \<leftarrow> wr_ctx context (\<lambda>c. c\<lparr>c_next := l_head st\<rparr>) st;
     st \<leftarrow> wr_ctx context (\<lambda>c. c\<lparr>c_prev := NULL\<rparr>) st;
     st \<leftarrow> (if l_head st \<noteq> NULL
           then wr_ctx (l_head st) (\<lambda>c. c\<lparr>c_prev := context\<rparr>) st else Some st);
     Some (st\<lparr>l_head := context\<rparr>)
   }"

definition us_internal_loop_unlink :: "addr \<Rightarrow> us \<Rightarrow> us option" where
  "us_internal_loop_unlink context st = do {
     c \<leftarrow> rd_ctx context st;
     if l_head st = context then do {
       let st = st\<lparr>l_head := c_next c\<rparr>;
       if l_head st \<noteq> NULL
       then wr_ctx (l_head st) (\<lambda>h. h\<lparr>c_prev := NULL\<rparr>) st else Some st
     } else do {
       st \<leftarrow> wr_ctx (c_prev c) (\<lambda>p. p\<lparr>c_next := c_next c\<rparr>) st;
       c \<leftarrow> rd_ctx context st;
       if c_next c \<noteq> NULL
       then wr_ctx (c_next c) (\<lambda>n. n\<lparr>c_prev := c_prev c\<rparr>) st else Some st
     }
   }"

section \<open>Chains as an interface\<close>

text \<open>
  A pair of pointer fields with their assignments. Both the socket fields and the context
  fields provide it; the two facts about pushing and removing serve all five lists.
\<close>

locale chain =
  fixes nx pv :: "us \<Rightarrow> addr \<Rightarrow> addr"
    and set_nx set_pv :: "addr \<Rightarrow> addr \<Rightarrow> us \<Rightarrow> us"
  assumes nx_set_nx: "nx (set_nx a v s) = (nx s)(a := v)"
    and pv_set_nx: "pv (set_nx a v s) = pv s"
    and pv_set_pv: "pv (set_pv a v s) = (pv s)(a := v)"
    and nx_set_pv: "nx (set_pv a v s) = nx s"
begin

lemmas set_simps = nx_set_nx pv_set_nx pv_set_pv nx_set_pv

lemma neighbours:
  assumes "dll (nx s) (pv s) NULL h xs" and "x \<in> set xs"
  obtains as bs where "xs = as @ x # bs" and "remove1 x xs = as @ bs"
    and "x \<notin> set as" and "x \<notin> set bs"
    and "pv s x = last0 NULL as" and "nx s x = hd0 bs" and "h = hd0 xs"
proof -
  from split_list [OF assms(2)] obtain as bs where xs: "xs = as @ x # bs" by blast
  moreover have "distinct xs" using assms(1) by (rule dll_distinct)
  ultimately show ?thesis
    using dll_neighbours [of "nx s" "pv s" NULL h as x bs] assms(1) that [of as bs]
    by (auto simp: remove1_append dest: dll_head)
qed

lemma push:
  assumes "dll (nx s) (pv s) NULL h xs" and "a \<notin> set xs" and "a \<noteq> NULL"
  defines "s1 \<equiv> set_pv a NULL (set_nx a h s)"
  defines "s2 \<equiv> (if h = NULL then s1 else set_pv h a s1)"
  shows "dll (nx s2) (pv s2) NULL a (a # xs)"
  using dll_push [OF assms(1-3)]
  by (cases "h = NULL") (simp_all del: dll.simps add: s1_def s2_def set_simps)

lemma remove:
  assumes d: "dll (nx s) (pv s) NULL h xs" and x: "x \<in> set xs"
  defines "s1 \<equiv> (if pv s x = NULL then s else set_nx (pv s x) (nx s x) s)"
  defines "s2 \<equiv> (if nx s x = NULL then s1 else set_pv (nx s x) (pv s x) s1)"
  shows "dll (nx s2) (pv s2) NULL (if pv s x = NULL then nx s x else h) (remove1 x xs)"
proof -
  from d x obtain as bs where xs: "xs = as @ x # bs" "remove1 x xs = as @ bs"
    and p: "pv s x = last0 NULL as" and n: "nx s x = hd0 bs" by (rule neighbours)
  have 0: "NULL \<notin> set as" "NULL \<notin> set bs" using dll_nonnull [OF d] xs by auto
  then have "as \<noteq> [] \<Longrightarrow> last as \<noteq> NULL" by (metis last_in_set)
  then have p0: "pv s x = NULL \<longleftrightarrow> as = []" using p by (auto simp: last0_def)
  have n0: "nx s x = NULL \<longleftrightarrow> bs = []" using n 0 by (cases bs) auto
  have "NULL \<notin> set xs" using d by (rule dll_nonnull)
  then show ?thesis
    using dll_remove_prefix [of "nx s" "pv s" NULL h as x bs] d xs p0 n0 p n
    by (cases "as = []"; cases "bs = []")
      (simp_all add: s1_def s2_def set_simps last0_def)
qed

lemma ends:
  assumes d: "dll (nx s) (pv s) NULL h xs" and x: "x \<in> set xs"
  shows "pv s x = nx s x \<longleftrightarrow> xs = [x]" and "pv s x = NULL \<longleftrightarrow> h = x"
    and "pv s x \<noteq> NULL \<Longrightarrow> pv s x \<in> set xs" and "nx s x \<noteq> NULL \<Longrightarrow> nx s x \<in> set xs"
    and "pv s x \<noteq> x" and "nx s x \<noteq> x"
proof -
  from d x obtain as bs where xs: "xs = as @ x # bs" and nin: "x \<notin> set as" "x \<notin> set bs"
    and p: "pv s x = last0 NULL as" and n: "nx s x = hd0 bs" and h: "h = hd0 xs"
    by (rule neighbours)
  have dis: "distinct xs" and 0: "NULL \<notin> set xs"
    using d by (auto intro: dll_distinct dest: dll_nonnull)
  have l: "as \<noteq> [] \<Longrightarrow> last as \<in> set as" by simp
  have l0: "as \<noteq> [] \<Longrightarrow> last as \<noteq> NULL" using l 0 xs by (metis UnCI set_append)
  have lb: "as \<noteq> [] \<Longrightarrow> last as \<notin> set bs"
    using l dis xs by (metis IntI distinct_append empty_iff list.set_intros(2))
  show "pv s x = nx s x \<longleftrightarrow> xs = [x]"
    using xs p n dis 0 lb l0 by (cases "as = []"; cases bs) (auto simp: last0_def)
  show "pv s x = NULL \<longleftrightarrow> h = x"
    using xs p h nin l0 by (cases as) (auto simp: last0_def split: if_splits)
  show "pv s x \<noteq> NULL \<Longrightarrow> pv s x \<in> set xs" and "pv s x \<noteq> x"
    using xs p l nin 0 by (auto simp: last0_def split: if_splits)
  show "nx s x \<noteq> NULL \<Longrightarrow> nx s x \<in> set xs" and "nx s x \<noteq> x"
    using xs n nin 0 by (cases bs; auto)+
qed

end

abbreviation snx :: "us \<Rightarrow> addr \<Rightarrow> addr" where "snx st \<equiv> (\<lambda>a. s_next (socks st a))"
abbreviation spv :: "us \<Rightarrow> addr \<Rightarrow> addr" where "spv st \<equiv> (\<lambda>a. s_prev (socks st a))"
abbreviation cnx :: "us \<Rightarrow> addr \<Rightarrow> addr" where "cnx st \<equiv> (\<lambda>a. c_next (ctxs st a))"
abbreviation cpv :: "us \<Rightarrow> addr \<Rightarrow> addr" where "cpv st \<equiv> (\<lambda>a. c_prev (ctxs st a))"

interpretation schain: chain snx spv
  "\<lambda>a v st. st\<lparr>socks := (socks st)(a := (socks st a)\<lparr>s_next := v\<rparr>)\<rparr>"
  "\<lambda>a v st. st\<lparr>socks := (socks st)(a := (socks st a)\<lparr>s_prev := v\<rparr>)\<rparr>"
  by unfold_locales (auto simp: fun_eq_iff)

interpretation cchain: chain cnx cpv
  "\<lambda>a v st. st\<lparr>ctxs := (ctxs st)(a := (ctxs st a)\<lparr>c_next := v\<rparr>)\<rparr>"
  "\<lambda>a v st. st\<lparr>ctxs := (ctxs st)(a := (ctxs st a)\<lparr>c_prev := v\<rparr>)\<rparr>"
  by unfold_locales (auto simp: fun_eq_iff)


section \<open>The abstract state and the invariant\<close>

record alists =
  al_ctxs :: "addr list"
  al_socks :: "addr \<Rightarrow> addr list"
  al_listen :: "addr \<Rightarrow> addr list"
  al_low :: "addr list"
  al_closed :: "addr list"

text \<open>
  One context: its sockets, its listen sockets, and the sweep iterator, which is null or one
  of the sockets.
\<close>

definition ctx_inv :: "alists \<Rightarrow> us \<Rightarrow> addr \<Rightarrow> bool" where
  "ctx_inv A st c \<longleftrightarrow>
     dll (snx st) (spv st) NULL (c_head_sockets (ctxs st c)) (al_socks A c) \<and>
     (\<forall>s\<in>set (al_socks A c). objs st s = Some KSocket \<and> s_context (socks st s) = c \<and>
        s_low_prio_state (socks st s) \<noteq> 1) \<and>
     dll (snx st) (spv st) NULL (c_head_listen_sockets (ctxs st c)) (al_listen A c) \<and>
     (\<forall>s\<in>set (al_listen A c). objs st s = Some KListen \<and> s_context (socks st s) = c) \<and>
     (c_iterator (ctxs st c) = NULL \<or> c_iterator (ctxs st c) \<in> set (al_socks A c))"

definition low_inv :: "alists \<Rightarrow> us \<Rightarrow> bool" where
  "low_inv A st \<longleftrightarrow>
     dll (snx st) (spv st) NULL (l_low_prio_head st) (al_low A) \<and>
     (\<forall>s\<in>set (al_low A). objs st s = Some KSocket \<and> s_low_prio_state (socks st s) = 1 \<and>
        s_context (socks st s) \<in> set (al_ctxs A))"

text \<open>A closed socket is marked by a prev pointer that points to its context.\<close>

definition closed_inv :: "alists \<Rightarrow> us \<Rightarrow> bool" where
  "closed_inv A st \<longleftrightarrow>
     sll (snx st) (l_closed_head st) (al_closed A) \<and>
     (\<forall>s\<in>set (al_closed A). is_sock st s \<and> s_prev (socks st s) = s_context (socks st s))"

definition lists_inv :: "alists \<Rightarrow> us \<Rightarrow> bool" where
  "lists_inv A st \<longleftrightarrow>
     dll (cnx st) (cpv st) NULL (l_head st) (al_ctxs A) \<and>
     (\<forall>c\<in>set (al_ctxs A). is_ctx st c \<and> ctx_inv A st c) \<and>
     low_inv A st \<and> closed_inv A st \<and> finite (dom (objs st))"

text \<open>
  The polls. The type of a poll and what it polls for tell the dispatcher what the object is:
  a listen socket is a semi-socket that polls for reading, a connecting socket one that polls
  for writing, and a queued socket does not poll for reading. An entry that is still to be
  dispatched is null, a callback, or a socket of one of the lists of open sockets.
\<close>

definition type3 :: "us \<Rightarrow> addr \<Rightarrow> 4 word" where
  "type3 st p = p_type (polls st p) AND 3"

definition events3 :: "us \<Rightarrow> addr \<Rightarrow> u32" where
  "events3 st p = events_of_type (p_type (polls st p))"

definition established :: "us \<Rightarrow> addr \<Rightarrow> bool" where
  "established st s \<longleftrightarrow> type3 st s = POLL_TYPE_SOCKET \<or> type3 st s = POLL_TYPE_SOCKET_SHUT_DOWN"

definition sock_typed :: "us \<Rightarrow> addr \<Rightarrow> bool" where
  "sock_typed st s \<longleftrightarrow> established st s \<or>
     (type3 st s = POLL_TYPE_SEMI_SOCKET \<and> events3 st s = LIBUS_SOCKET_WRITABLE)"

definition listen_typed :: "us \<Rightarrow> addr \<Rightarrow> bool" where
  "listen_typed st s \<longleftrightarrow> type3 st s = POLL_TYPE_SEMI_SOCKET \<and> events3 st s = LIBUS_SOCKET_READABLE"

definition low_typed :: "us \<Rightarrow> addr \<Rightarrow> bool" where
  "low_typed st s \<longleftrightarrow> established st s \<and> events3 st s AND LIBUS_SOCKET_READABLE = 0"

definition cb_typed :: "us \<Rightarrow> addr \<Rightarrow> bool" where
  "cb_typed st p \<longleftrightarrow> is_cb st p \<and> type3 st p = POLL_TYPE_CALLBACK \<and> cb_cb (cbs st p) \<noteq> FnNull"

definition open_poll :: "alists \<Rightarrow> us \<Rightarrow> addr \<Rightarrow> bool" where
  "open_poll A st p \<longleftrightarrow> cb_typed st p \<or> p \<in> set (al_low A) \<or>
     (\<exists>c\<in>set (al_ctxs A). p \<in> set (al_socks A c) \<or> p \<in> set (al_listen A c))"

definition polls_inv :: "alists \<Rightarrow> us \<Rightarrow> bool" where
  "polls_inv A st \<longleftrightarrow>
     (\<forall>c\<in>set (al_ctxs A). (\<forall>s\<in>set (al_socks A c). sock_typed st s) \<and>
        (\<forall>s\<in>set (al_listen A c). listen_typed st s)) \<and>
     (\<forall>s\<in>set (al_low A). low_typed st s) \<and>
     ready_ok st \<and>
     (\<forall>p\<in>fst ` set (pending st). p \<noteq> NULL \<longrightarrow> open_poll A st p)"

definition us_inv :: "alists \<Rightarrow> us \<Rightarrow> bool" where
  "us_inv A st \<longleftrightarrow> lists_inv A st \<and> polls_inv A st"

text \<open>A socket in none of the lists.\<close>

definition detached :: "alists \<Rightarrow> addr \<Rightarrow> bool" where
  "detached A s \<longleftrightarrow> (\<forall>c\<in>set (al_ctxs A). s \<notin> set (al_socks A c) \<and> s \<notin> set (al_listen A c)) \<and>
     s \<notin> set (al_low A) \<and> s \<notin> set (al_closed A)"

section \<open>The lists are disjoint\<close>

lemma lists_inv_finite: "lists_inv A st \<Longrightarrow> finite (dom (objs st))"
  by (simp add: lists_inv_def)

lemma lists_inv_ctx: "lists_inv A st \<Longrightarrow> c \<in> set (al_ctxs A) \<Longrightarrow> is_ctx st c"
  by (simp add: lists_inv_def)

lemma lists_inv_socks:
  assumes "lists_inv A st" and "c \<in> set (al_ctxs A)" and "s \<in> set (al_socks A c)"
  shows "is_sock st s" "objs st s = Some KSocket" "s_context (socks st s) = c"
    "s_low_prio_state (socks st s) \<noteq> 1"
  using assms dll_nonnull [of "snx st" "spv st" NULL "c_head_sockets (ctxs st c)" "al_socks A c"]
  by (auto simp: lists_inv_def ctx_inv_def is_sock_def intro: Nat.gr0I)

lemma lists_inv_listen:
  assumes "lists_inv A st" and "c \<in> set (al_ctxs A)" and "s \<in> set (al_listen A c)"
  shows "is_sock st s" "objs st s = Some KListen" "s_context (socks st s) = c"
  using assms dll_nonnull [of "snx st" "spv st" NULL "c_head_listen_sockets (ctxs st c)" "al_listen A c"]
  by (auto simp: lists_inv_def ctx_inv_def is_sock_def intro: Nat.gr0I)

lemma lists_inv_low:
  assumes "lists_inv A st" and "s \<in> set (al_low A)"
  shows "is_sock st s" "objs st s = Some KSocket" "s_context (socks st s) \<in> set (al_ctxs A)"
    "s_low_prio_state (socks st s) = 1" "is_ctx st (s_context (socks st s))"
  using assms dll_nonnull [of "snx st" "spv st" NULL "l_low_prio_head st" "al_low A"]
  by (auto simp: lists_inv_def low_inv_def is_sock_def intro: Nat.gr0I)

lemma lists_inv_closed:
  assumes "lists_inv A st" and "s \<in> set (al_closed A)"
  shows "is_sock st s" "s_prev (socks st s) = s_context (socks st s)"
  using assms by (auto simp: lists_inv_def closed_inv_def)

text \<open>The test of \<open>us_socket_is_closed\<close> is right: an open socket never passes it.\<close>

lemma open_prev_neq_context:
  assumes "lists_inv A st"
  shows "c \<in> set (al_ctxs A) \<Longrightarrow> s \<in> set (al_socks A c) \<Longrightarrow> s_prev (socks st s) \<noteq> s_context (socks st s)"
    and "c \<in> set (al_ctxs A) \<Longrightarrow> s \<in> set (al_listen A c) \<Longrightarrow> s_prev (socks st s) \<noteq> s_context (socks st s)"
    and "s \<in> set (al_low A) \<Longrightarrow> s_prev (socks st s) \<noteq> s_context (socks st s)"
proof -
  have ctx: "is_ctx st c" if "c \<in> set (al_ctxs A)" for c
    using assms that by (simp add: lists_inv_def)
  {
    assume c: "c \<in> set (al_ctxs A)" and s: "s \<in> set (al_socks A c)"
    have d: "dll (snx st) (spv st) NULL (c_head_sockets (ctxs st c)) (al_socks A c)"
      using assms c by (simp add: lists_inv_def ctx_inv_def)
    have "s_prev (socks st s) = NULL \<or> is_sock st (s_prev (socks st s))"
      using schain.ends(3) [OF d s] lists_inv_socks(1) [OF assms c] by blast
    then show "s_prev (socks st s) \<noteq> s_context (socks st s)"
      using ctx [OF c] lists_inv_socks(3) [OF assms c s]
      by (metis is_ctx_not_sock(2) is_nonnull(2))
  }
  {
    assume c: "c \<in> set (al_ctxs A)" and s: "s \<in> set (al_listen A c)"
    have d: "dll (snx st) (spv st) NULL (c_head_listen_sockets (ctxs st c)) (al_listen A c)"
      using assms c by (simp add: lists_inv_def ctx_inv_def)
    have "s_prev (socks st s) = NULL \<or> is_sock st (s_prev (socks st s))"
      using schain.ends(3) [OF d s] lists_inv_listen(1) [OF assms c] by blast
    then show "s_prev (socks st s) \<noteq> s_context (socks st s)"
      using ctx [OF c] lists_inv_listen(3) [OF assms c s]
      by (metis is_ctx_not_sock(2) is_nonnull(2))
  }
  {
    assume s: "s \<in> set (al_low A)"
    have d: "dll (snx st) (spv st) NULL (l_low_prio_head st) (al_low A)"
      using assms by (simp add: lists_inv_def low_inv_def)
    have "s_prev (socks st s) = NULL \<or> is_sock st (s_prev (socks st s))"
      using schain.ends(3) [OF d s] lists_inv_low(1) [OF assms] by blast
    then show "s_prev (socks st s) \<noteq> s_context (socks st s)"
      using lists_inv_low(5) [OF assms s] by (metis is_ctx_not_sock(2) is_nonnull(2))
  }
qed

lemma lists_disjoint:
  assumes "lists_inv A st"
  shows "c \<in> set (al_ctxs A) \<Longrightarrow> s \<in> set (al_socks A c) \<Longrightarrow> s \<notin> set (al_closed A)"
    "c \<in> set (al_ctxs A) \<Longrightarrow> s \<in> set (al_listen A c) \<Longrightarrow> s \<notin> set (al_closed A)"
    "s \<in> set (al_low A) \<Longrightarrow> s \<notin> set (al_closed A)"
    "c \<in> set (al_ctxs A) \<Longrightarrow> s \<in> set (al_socks A c) \<Longrightarrow> s \<notin> set (al_low A)"
    "c \<in> set (al_ctxs A) \<Longrightarrow> s \<in> set (al_listen A c) \<Longrightarrow> s \<notin> set (al_low A)"
    "c \<in> set (al_ctxs A) \<Longrightarrow> d \<in> set (al_ctxs A) \<Longrightarrow> s \<in> set (al_socks A c) \<Longrightarrow> s \<notin> set (al_listen A d)"
    "c \<in> set (al_ctxs A) \<Longrightarrow> d \<in> set (al_ctxs A) \<Longrightarrow> s \<in> set (al_socks A c) \<Longrightarrow> c \<noteq> d \<Longrightarrow> s \<notin> set (al_socks A d)"
    "c \<in> set (al_ctxs A) \<Longrightarrow> d \<in> set (al_ctxs A) \<Longrightarrow> s \<in> set (al_listen A c) \<Longrightarrow> c \<noteq> d \<Longrightarrow> s \<notin> set (al_listen A d)"
proof -
  note o = open_prev_neq_context [OF assms] and c = lists_inv_closed(2) [OF assms]
  note s = lists_inv_socks [OF assms] and l = lists_inv_listen [OF assms]
    and q = lists_inv_low [OF assms]
  show "c \<in> set (al_ctxs A) \<Longrightarrow> s \<in> set (al_socks A c) \<Longrightarrow> s \<notin> set (al_closed A)"
    using o(1) c by blast
  show "c \<in> set (al_ctxs A) \<Longrightarrow> s \<in> set (al_listen A c) \<Longrightarrow> s \<notin> set (al_closed A)"
    using o(2) c by blast
  show "s \<in> set (al_low A) \<Longrightarrow> s \<notin> set (al_closed A)"
    using o(3) c by blast
  show "c \<in> set (al_ctxs A) \<Longrightarrow> s \<in> set (al_socks A c) \<Longrightarrow> s \<notin> set (al_low A)"
    using s(4) q(4) by blast
  show "c \<in> set (al_ctxs A) \<Longrightarrow> s \<in> set (al_listen A c) \<Longrightarrow> s \<notin> set (al_low A)"
    using l(2) [of c s] q(2) [of s] by auto
  show "c \<in> set (al_ctxs A) \<Longrightarrow> d \<in> set (al_ctxs A) \<Longrightarrow> s \<in> set (al_socks A c) \<Longrightarrow>
      s \<notin> set (al_listen A d)"
    using s(2) [of c s] l(2) [of d s] by auto
  show "c \<in> set (al_ctxs A) \<Longrightarrow> d \<in> set (al_ctxs A) \<Longrightarrow> s \<in> set (al_socks A c) \<Longrightarrow> c \<noteq> d \<Longrightarrow>
      s \<notin> set (al_socks A d)"
    using s(3) by blast
  show "c \<in> set (al_ctxs A) \<Longrightarrow> d \<in> set (al_ctxs A) \<Longrightarrow> s \<in> set (al_listen A c) \<Longrightarrow> c \<noteq> d \<Longrightarrow>
      s \<notin> set (al_listen A d)"
    using l(3) by blast
qed

lemma lists_inv_poll_frame: "poll_frame st st' \<Longrightarrow> lists_inv A st' = lists_inv A st"
  using access_cong(1) [of st _ st'] access_cong(3) [of st _ st']
  by (simp add: lists_inv_def ctx_inv_def low_inv_def closed_inv_def poll_frameD)

end
