(* ===== verification/Us_Links.thy ===== *)
theory Us_Links
  imports Us_Lists
begin

text \<open>
  The link and unlink operations refine pushing to and removing from the abstract lists: from
  a state that satisfies the invariant each is defined, and its result satisfies the
  invariant for the abstract state with the one list changed.
\<close>

section \<open>The abstract operations\<close>

definition add_sock :: "addr \<Rightarrow> addr \<Rightarrow> alists \<Rightarrow> alists" where
  "add_sock c s A = A\<lparr>al_socks := (al_socks A)(c := s # al_socks A c)\<rparr>"

definition del_sock :: "addr \<Rightarrow> addr \<Rightarrow> alists \<Rightarrow> alists" where
  "del_sock c s A = A\<lparr>al_socks := (al_socks A)(c := remove1 s (al_socks A c))\<rparr>"

definition add_listen :: "addr \<Rightarrow> addr \<Rightarrow> alists \<Rightarrow> alists" where
  "add_listen c s A = A\<lparr>al_listen := (al_listen A)(c := s # al_listen A c)\<rparr>"

definition del_listen :: "addr \<Rightarrow> addr \<Rightarrow> alists \<Rightarrow> alists" where
  "del_listen c s A = A\<lparr>al_listen := (al_listen A)(c := remove1 s (al_listen A c))\<rparr>"

definition add_low :: "addr \<Rightarrow> alists \<Rightarrow> alists" where
  "add_low s A = A\<lparr>al_low := s # al_low A\<rparr>"

definition del_low :: "addr \<Rightarrow> alists \<Rightarrow> alists" where
  "del_low s A = A\<lparr>al_low := remove1 s (al_low A)\<rparr>"

definition add_closed :: "addr \<Rightarrow> alists \<Rightarrow> alists" where
  "add_closed s A = A\<lparr>al_closed := s # al_closed A\<rparr>"

definition add_ctx :: "addr \<Rightarrow> alists \<Rightarrow> alists" where
  "add_ctx c A = A\<lparr>al_ctxs := c # al_ctxs A, al_socks := (al_socks A)(c := []),
     al_listen := (al_listen A)(c := [])\<rparr>"

definition del_ctx :: "addr \<Rightarrow> alists \<Rightarrow> alists" where
  "del_ctx c A = A\<lparr>al_ctxs := remove1 c (al_ctxs A)\<rparr>"

lemmas abs_defs = add_sock_def del_sock_def add_listen_def del_listen_def add_low_def del_low_def
  add_closed_def add_ctx_def del_ctx_def

lemma abs_simps [simp]:
  "al_ctxs (add_sock c s A) = al_ctxs A" "al_low (add_sock c s A) = al_low A"
  "al_closed (add_sock c s A) = al_closed A" "al_listen (add_sock c s A) = al_listen A"
  "al_socks (add_sock c s A) d = (if d = c then s # al_socks A c else al_socks A d)"
  "al_ctxs (del_sock c s A) = al_ctxs A" "al_low (del_sock c s A) = al_low A"
  "al_closed (del_sock c s A) = al_closed A" "al_listen (del_sock c s A) = al_listen A"
  "al_socks (del_sock c s A) d = (if d = c then remove1 s (al_socks A c) else al_socks A d)"
  "al_ctxs (add_listen c s A) = al_ctxs A" "al_low (add_listen c s A) = al_low A"
  "al_closed (add_listen c s A) = al_closed A" "al_socks (add_listen c s A) = al_socks A"
  "al_listen (add_listen c s A) d = (if d = c then s # al_listen A c else al_listen A d)"
  "al_ctxs (del_listen c s A) = al_ctxs A" "al_low (del_listen c s A) = al_low A"
  "al_closed (del_listen c s A) = al_closed A" "al_socks (del_listen c s A) = al_socks A"
  "al_listen (del_listen c s A) d = (if d = c then remove1 s (al_listen A c) else al_listen A d)"
  "al_ctxs (add_low s A) = al_ctxs A" "al_low (add_low s A) = s # al_low A"
  "al_closed (add_low s A) = al_closed A" "al_socks (add_low s A) = al_socks A"
  "al_listen (add_low s A) = al_listen A"
  "al_ctxs (del_low s A) = al_ctxs A" "al_low (del_low s A) = remove1 s (al_low A)"
  "al_closed (del_low s A) = al_closed A" "al_socks (del_low s A) = al_socks A"
  "al_listen (del_low s A) = al_listen A"
  "al_ctxs (add_closed s A) = al_ctxs A" "al_low (add_closed s A) = al_low A"
  "al_closed (add_closed s A) = s # al_closed A" "al_socks (add_closed s A) = al_socks A"
  "al_listen (add_closed s A) = al_listen A"
  by (simp_all add: abs_defs)

section \<open>What depends on what\<close>

lemma ctx_inv_cong:
  assumes "\<And>s. s \<in> set (al_socks A c) \<union> set (al_listen A c) \<Longrightarrow>
      socks st' s = socks st s \<and> objs st' s = objs st s"
    and "c_head_sockets (ctxs st' c) = c_head_sockets (ctxs st c)"
    and "c_head_listen_sockets (ctxs st' c) = c_head_listen_sockets (ctxs st c)"
    and "c_iterator (ctxs st' c) = c_iterator (ctxs st c)"
    and "al_socks A' c = al_socks A c" and "al_listen A' c = al_listen A c"
  shows "ctx_inv A' st' c = ctx_inv A st c"
  using assms dll_cong [of "al_socks A c" "snx st'" "snx st" "spv st'" "spv st" NULL]
    dll_cong [of "al_listen A c" "snx st'" "snx st" "spv st'" "spv st" NULL]
  by (auto simp: ctx_inv_def)

lemma low_inv_cong:
  assumes "\<And>s. s \<in> set (al_low A) \<Longrightarrow> socks st' s = socks st s \<and> objs st' s = objs st s"
    and "l_low_prio_head st' = l_low_prio_head st"
    and "al_low A' = al_low A" and "set (al_ctxs A') = set (al_ctxs A)"
  shows "low_inv A' st' = low_inv A st"
  using assms dll_cong [of "al_low A" "snx st'" "snx st" "spv st'" "spv st" NULL]
  by (auto simp: low_inv_def)

lemma closed_inv_cong:
  assumes "\<And>s. s \<in> set (al_closed A) \<Longrightarrow> socks st' s = socks st s \<and> objs st' s = objs st s"
    and "l_closed_head st' = l_closed_head st" and "al_closed A' = al_closed A"
  shows "closed_inv A' st' = closed_inv A st"
  using assms sll_cong [of "al_closed A" "snx st'" "snx st"]
    access_cong(1) [of st' _ st]
  by (auto simp: closed_inv_def)

lemma lists_invD:
  assumes "lists_inv A st"
  shows "dll (cnx st) (cpv st) NULL (l_head st) (al_ctxs A)"
    "c \<in> set (al_ctxs A) \<Longrightarrow> ctx_inv A st c" "low_inv A st" "closed_inv A st"
    "c \<in> set (al_ctxs A) \<Longrightarrow> dll (snx st) (spv st) NULL (c_head_sockets (ctxs st c)) (al_socks A c)"
    "c \<in> set (al_ctxs A) \<Longrightarrow> dll (snx st) (spv st) NULL (c_head_listen_sockets (ctxs st c)) (al_listen A c)"
    "dll (snx st) (spv st) NULL (l_low_prio_head st) (al_low A)"
    "sll (snx st) (l_closed_head st) (al_closed A)"
    "c \<in> set (al_ctxs A) \<Longrightarrow> c_iterator (ctxs st c) = NULL \<or> c_iterator (ctxs st c) \<in> set (al_socks A c)"
  using assms by (simp_all add: lists_inv_def ctx_inv_def low_inv_def closed_inv_def)

text \<open>A change of one context's socket list, with everything else far away.\<close>

lemma lists_inv_ctx_change:
  assumes I: "lists_inv A st" and c: "c \<in> set (al_ctxs A)"
    and objs: "objs st' = objs st"
    and loop: "l_head st' = l_head st" "l_low_prio_head st' = l_low_prio_head st"
      "l_closed_head st' = l_closed_head st"
    and chain: "cnx st' = cnx st" "cpv st' = cpv st"
    and other_ctx: "\<And>d. d \<noteq> c \<Longrightarrow> ctxs st' d = ctxs st d"
    and X: "\<And>s. s \<notin> X \<Longrightarrow> socks st' s = socks st s"
    and far: "\<And>d. d \<in> set (al_ctxs A) \<Longrightarrow> d \<noteq> c \<Longrightarrow>
        X \<inter> (set (al_socks A d) \<union> set (al_listen A d)) = {}"
      "X \<inter> set (al_low A) = {}" "X \<inter> set (al_closed A) = {}"
    and A': "al_ctxs A' = al_ctxs A" "al_low A' = al_low A" "al_closed A' = al_closed A"
      "\<And>d. d \<noteq> c \<Longrightarrow> al_socks A' d = al_socks A d \<and> al_listen A' d = al_listen A d"
    and new: "ctx_inv A' st' c"
  shows "lists_inv A' st'"
proof -
  have "ctx_inv A' st' d" if d: "d \<in> set (al_ctxs A)" for d
  proof (cases "d = c")
    case False
    have "ctx_inv A' st' d = ctx_inv A st d"
      using False far(1) [OF d False] X objs other_ctx [OF False] A'(4) [OF False]
      by (intro ctx_inv_cong) auto
    then show ?thesis using lists_invD(2) [OF I d] by simp
  qed (use new in simp)
  moreover have "is_ctx st' d" if "d \<in> set (al_ctxs A)" for d
    using lists_inv_ctx [OF I that] access_cong(3) [of st' d st] objs by simp
  moreover have "low_inv A' st'"
    using lists_invD(3) [OF I] low_inv_cong [of A st' st A'] far(2) X objs loop A' by auto
  moreover have "closed_inv A' st'"
    using lists_invD(4) [OF I] closed_inv_cong [of A st' st A'] far(3) X objs loop A' by auto
  ultimately show ?thesis
    using lists_invD(1) [OF I] A' loop chain lists_inv_finite [OF I] objs by (simp add: lists_inv_def)
qed

section \<open>Pushing and removing a socket, whatever the list\<close>

text \<open>
  The socket part of the heap after \<open>s\<close> was put in front of the list with head \<open>h\<close>, and
  after \<open>s\<close> was taken out of its list.
\<close>

definition pushS :: "addr \<Rightarrow> addr \<Rightarrow> (addr \<Rightarrow> us_socket_t) \<Rightarrow> addr \<Rightarrow> us_socket_t" where
  "pushS s h S = (let S1 = S(s := (S s)\<lparr>s_next := h, s_prev := NULL\<rparr>)
     in if h = NULL then S1 else S1(h := (S1 h)\<lparr>s_prev := s\<rparr>))"

definition popS :: "addr \<Rightarrow> (addr \<Rightarrow> us_socket_t) \<Rightarrow> addr \<Rightarrow> us_socket_t" where
  "popS s S = (let p = s_prev (S s); n = s_next (S s);
       S1 = (if p = NULL then S else S(p := (S p)\<lparr>s_next := n\<rparr>))
     in if n = NULL then S1 else S1(n := (S1 n)\<lparr>s_prev := p\<rparr>))"

text \<open>The fields the chains do not use.\<close>

definition same_core :: "(addr \<Rightarrow> us_socket_t) \<Rightarrow> (addr \<Rightarrow> us_socket_t) \<Rightarrow> bool" where
  "same_core S S' \<longleftrightarrow> (\<forall>a. s_timeout (S' a) = s_timeout (S a) \<and>
     s_long_timeout (S' a) = s_long_timeout (S a) \<and>
     s_low_prio_state (S' a) = s_low_prio_state (S a) \<and> s_context (S' a) = s_context (S a))"

lemma same_coreD:
  "same_core S S' \<Longrightarrow> s_timeout (S' a) = s_timeout (S a)"
  "same_core S S' \<Longrightarrow> s_long_timeout (S' a) = s_long_timeout (S a)"
  "same_core S S' \<Longrightarrow> s_low_prio_state (S' a) = s_low_prio_state (S a)"
  "same_core S S' \<Longrightarrow> s_context (S' a) = s_context (S a)"
  by (simp_all add: same_core_def)

lemma same_core_refl [simp]: "same_core S S"
  by (simp add: same_core_def)

lemma same_core_upd [simp]:
  "same_core S S' \<Longrightarrow> same_core S (S'(a := (S' a)\<lparr>s_prev := p\<rparr>))"
  "same_core S S' \<Longrightarrow> same_core S (S'(a := (S' a)\<lparr>s_next := n\<rparr>))"
  "same_core S S' \<Longrightarrow> same_core S (S'(a := (S' a)\<lparr>s_next := n, s_prev := p\<rparr>))"
  by (simp_all add: same_core_def)

lemma pushS_core [simp]: "same_core S (pushS s h S)"
  by (simp add: pushS_def Let_def del: fun_upd_apply)

lemma popS_core [simp]: "same_core S (popS s S)"
  by (simp add: popS_def Let_def del: fun_upd_apply)

lemma pushS_other: "a \<noteq> s \<Longrightarrow> a \<noteq> h \<Longrightarrow> pushS s h S a = S a"
  by (simp add: pushS_def Let_def)

lemma popS_other: "a \<noteq> s_prev (S s) \<Longrightarrow> a \<noteq> s_next (S s) \<Longrightarrow> popS s S a = S a"
  by (simp add: popS_def Let_def)

lemma pushS_dll:
  assumes "dll (\<lambda>a. s_next (S a)) (\<lambda>a. s_prev (S a)) NULL h xs" and "s \<notin> set xs" and "s \<noteq> NULL"
  shows "dll (\<lambda>a. s_next (pushS s h S a)) (\<lambda>a. s_prev (pushS s h S a)) NULL s (s # xs)"
proof -
  have "h \<noteq> s" using assms dll_head [OF assms(1)] by (cases xs) auto
  then have "(\<lambda>a. s_next (pushS s h S a)) = (\<lambda>a. s_next (S a))(s := h)"
    "(\<lambda>a. s_prev (pushS s h S a)) = (if h = NULL then (\<lambda>a. s_prev (S a))(s := NULL)
       else ((\<lambda>a. s_prev (S a))(s := NULL))(h := s))"
    by (auto simp: pushS_def Let_def fun_eq_iff)
  then show ?thesis using dll_push [OF assms] by simp
qed

lemma popS_dll:
  fixes S :: "addr \<Rightarrow> us_socket_t"
  assumes d: "dll (\<lambda>a. s_next (S a)) (\<lambda>a. s_prev (S a)) NULL h xs" and s: "s \<in> set xs"
  shows "dll (\<lambda>a. s_next (popS s S a)) (\<lambda>a. s_prev (popS s S a)) NULL
     (if s_prev (S s) = NULL then s_next (S s) else h) (remove1 s xs)"
proof -
  define st :: us where "st = undefined\<lparr>socks := S\<rparr>"
  have S: "socks st = S" by (simp add: st_def)
  show ?thesis
    using schain.remove [of st h xs s] d s
    by (cases "s_prev (S s) = NULL"; cases "s_next (S s) = NULL")
      (simp_all add: S popS_def Let_def)
qed

lemma popS_ends:
  fixes S :: "addr \<Rightarrow> us_socket_t"
  assumes d: "dll (\<lambda>a. s_next (S a)) (\<lambda>a. s_prev (S a)) NULL h xs" and s: "s \<in> set xs"
  shows "s_prev (S s) = s_next (S s) \<longleftrightarrow> xs = [s]" and "s_prev (S s) = NULL \<longleftrightarrow> h = s"
    and "s_prev (S s) \<noteq> NULL \<Longrightarrow> s_prev (S s) \<in> set xs"
    and "s_next (S s) \<noteq> NULL \<Longrightarrow> s_next (S s) \<in> set xs"
    and "s_prev (S s) \<noteq> s" and "s_next (S s) \<noteq> s" and "NULL \<notin> set xs"
proof -
  define st :: us where "st = undefined\<lparr>socks := S\<rparr>"
  then have "socks st = S" by simp
  with schain.ends [of st h xs s] d s dll_nonnull [OF d]
  show "s_prev (S s) = s_next (S s) \<longleftrightarrow> xs = [s]" and "s_prev (S s) = NULL \<longleftrightarrow> h = s"
    and "s_prev (S s) \<noteq> NULL \<Longrightarrow> s_prev (S s) \<in> set xs"
    and "s_next (S s) \<noteq> NULL \<Longrightarrow> s_next (S s) \<in> set xs"
    and "s_prev (S s) \<noteq> s" and "s_next (S s) \<noteq> s" and "NULL \<notin> set xs" by auto
qed

lemma popS_alone: "s_prev (S s) = NULL \<Longrightarrow> s_next (S s) = NULL \<Longrightarrow> popS s S = S"
  by (simp add: popS_def)

text \<open>The code as one update of the heap.\<close>

lemma link_socket_eq:
  assumes "is_sock st s" and "is_ctx st c" and "h = c_head_sockets (ctxs st c)"
    and "h = NULL \<or> is_sock st h" and "h \<noteq> s"
  shows "us_internal_socket_context_link_socket c s st = Some (st\<lparr>
     socks := pushS s h ((socks st)(s := (socks st s)\<lparr>s_context := c\<rparr>)),
     ctxs := (ctxs st)(c := (ctxs st c)\<lparr>c_head_sockets := s\<rparr>)\<rparr>)"
  using assms
  by (cases "h = NULL")
    (simp_all add: us_internal_socket_context_link_socket_def pushS_def)

lemma link_listen_socket_eq:
  assumes "is_sock st s" and "is_ctx st c" and "h = c_head_listen_sockets (ctxs st c)"
    and "h = NULL \<or> is_sock st h" and "h \<noteq> s"
  shows "us_internal_socket_context_link_listen_socket c s st = Some (st\<lparr>
     socks := pushS s h ((socks st)(s := (socks st s)\<lparr>s_context := c\<rparr>)),
     ctxs := (ctxs st)(c := (ctxs st c)\<lparr>c_head_listen_sockets := s\<rparr>)\<rparr>)"
  using assms
  by (cases "h = NULL")
    (simp_all add: us_internal_socket_context_link_listen_socket_def pushS_def)

definition fix_iter :: "addr \<Rightarrow> addr \<Rightarrow> us_socket_context_t \<Rightarrow> us_socket_context_t" where
  "fix_iter s n c = (if s = c_iterator c then c\<lparr>c_iterator := n\<rparr> else c)"

lemma unlink_socket_eq:
  assumes "is_sock st s" and "is_ctx st c"
    and "s_prev (socks st s) = NULL \<or> is_sock st (s_prev (socks st s))"
    and "s_next (socks st s) = NULL \<or> is_sock st (s_next (socks st s))"
    and "s_prev (socks st s) \<noteq> s" and "s_next (socks st s) \<noteq> s"
    and "s_prev (socks st s) = NULL \<or> s_prev (socks st s) \<noteq> s_next (socks st s)"
  shows "us_internal_socket_context_unlink_socket c s st = Some (st\<lparr>
     socks := popS s (socks st),
     ctxs := (ctxs st)(c := (fix_iter s (s_next (socks st s)) (ctxs st c))\<lparr>c_head_sockets :=
       (if s_prev (socks st s) = NULL then s_next (socks st s)
        else c_head_sockets (ctxs st c))\<rparr>)\<rparr>)"
  using assms
  by (cases "s = c_iterator (ctxs st c)"; cases "s_prev (socks st s) = NULL";
      cases "s_next (socks st s) = NULL")
    (simp_all add: us_internal_socket_context_unlink_socket_def popS_def fix_iter_def Let_def
      us.equality)

lemma unlink_listen_socket_eq:
  assumes "is_sock st s" and "is_ctx st c"
    and "s_prev (socks st s) = NULL \<or> is_sock st (s_prev (socks st s))"
    and "s_next (socks st s) = NULL \<or> is_sock st (s_next (socks st s))"
    and "s_prev (socks st s) \<noteq> s" and "s_next (socks st s) \<noteq> s"
    and "s_prev (socks st s) = NULL \<or> s_prev (socks st s) \<noteq> s_next (socks st s)"
  shows "us_internal_socket_context_unlink_listen_socket c s st = Some (st\<lparr>
     socks := popS s (socks st),
     ctxs := (ctxs st)(c := (fix_iter s (s_next (socks st s)) (ctxs st c))\<lparr>c_head_listen_sockets :=
       (if s_prev (socks st s) = NULL then s_next (socks st s)
        else c_head_listen_sockets (ctxs st c))\<rparr>)\<rparr>)"
  using assms
  by (cases "s = c_iterator (ctxs st c)"; cases "s_prev (socks st s) = NULL";
      cases "s_next (socks st s) = NULL")
    (simp_all add: us_internal_socket_context_unlink_listen_socket_def popS_def fix_iter_def Let_def
      us.equality)


section \<open>The four operations on the lists of a context\<close>

text \<open>What a link or unlink may change: the chain fields and one context record.\<close>

lemma ctx_inv_other_list:
  assumes "dll (snx st) (spv st) NULL h xs" and "\<And>a. a \<in> set xs \<Longrightarrow> socks st' a = socks st a"
  shows "dll (snx st') (spv st') NULL h xs"
  using assms dll_cong [of xs "snx st'" "snx st" "spv st'" "spv st" NULL h] by simp

lemma far_from_socks:
  assumes I: "lists_inv A st" and c: "c \<in> set (al_ctxs A)" and x: "x = NULL \<or> x \<in> set (al_socks A c)"
  shows "x \<notin> set (al_listen A c)" "x \<notin> set (al_low A)" "x \<notin> set (al_closed A)"
    "\<And>d. d \<in> set (al_ctxs A) \<Longrightarrow> d \<noteq> c \<Longrightarrow> x \<notin> set (al_socks A d) \<and> x \<notin> set (al_listen A d)"
proof -
  have n: "NULL \<notin> set (al_low A)" "NULL \<notin> set (al_closed A)"
    "\<And>d. d \<in> set (al_ctxs A) \<Longrightarrow> NULL \<notin> set (al_socks A d) \<and> NULL \<notin> set (al_listen A d)"
    using dll_nonnull [OF lists_invD(7) [OF I]] sll_nonnull [OF lists_invD(8) [OF I]]
      dll_nonnull [OF lists_invD(5) [OF I]] dll_nonnull [OF lists_invD(6) [OF I]] by auto
  show "x \<notin> set (al_listen A c)" using x n c lists_disjoint(6) [OF I c c] by blast
  show "x \<notin> set (al_low A)" using x n lists_disjoint(4) [OF I c] by blast
  show "x \<notin> set (al_closed A)" using x n lists_disjoint(1) [OF I c] by blast
  show "\<And>d. d \<in> set (al_ctxs A) \<Longrightarrow> d \<noteq> c \<Longrightarrow> x \<notin> set (al_socks A d) \<and> x \<notin> set (al_listen A d)"
  proof -
    fix d assume d: "d \<in> set (al_ctxs A)" "d \<noteq> c"
    show "x \<notin> set (al_socks A d) \<and> x \<notin> set (al_listen A d)"
      using x n(3) [OF d(1)] lists_disjoint(6) [OF I c d(1), of x]
        lists_disjoint(7) [OF I c d(1), of x] d(2) by blast
  qed
qed

lemma far_from_listen:
  assumes I: "lists_inv A st" and c: "c \<in> set (al_ctxs A)" and x: "x = NULL \<or> x \<in> set (al_listen A c)"
  shows "x \<notin> set (al_socks A c)" "x \<notin> set (al_low A)" "x \<notin> set (al_closed A)"
    "\<And>d. d \<in> set (al_ctxs A) \<Longrightarrow> d \<noteq> c \<Longrightarrow> x \<notin> set (al_socks A d) \<and> x \<notin> set (al_listen A d)"
proof -
  have n: "NULL \<notin> set (al_low A)" "NULL \<notin> set (al_closed A)"
    "\<And>d. d \<in> set (al_ctxs A) \<Longrightarrow> NULL \<notin> set (al_socks A d) \<and> NULL \<notin> set (al_listen A d)"
    using dll_nonnull [OF lists_invD(7) [OF I]] sll_nonnull [OF lists_invD(8) [OF I]]
      dll_nonnull [OF lists_invD(5) [OF I]] dll_nonnull [OF lists_invD(6) [OF I]] by auto
  show "x \<notin> set (al_socks A c)" using x n c lists_disjoint(6) [OF I c c] by blast
  show "x \<notin> set (al_low A)" using x n lists_disjoint(5) [OF I c] by blast
  show "x \<notin> set (al_closed A)" using x n lists_disjoint(2) [OF I c] by blast
  show "\<And>d. d \<in> set (al_ctxs A) \<Longrightarrow> d \<noteq> c \<Longrightarrow> x \<notin> set (al_socks A d) \<and> x \<notin> set (al_listen A d)"
  proof -
    fix d assume d: "d \<in> set (al_ctxs A)" "d \<noteq> c"
    show "x \<notin> set (al_socks A d) \<and> x \<notin> set (al_listen A d)"
      using x n(3) [OF d(1)] lists_disjoint(6) [OF I d(1) c, of x]
        lists_disjoint(8) [OF I c d(1), of x] d(2) by blast
  qed
qed

lemma link_socket_ok:
  assumes I: "lists_inv A st" and c: "c \<in> set (al_ctxs A)"
    and s: "objs st s = Some KSocket" "s \<noteq> NULL" and det: "detached A s"
    and low: "s_low_prio_state (socks st s) \<noteq> 1"
  shows "\<exists>st'. us_internal_socket_context_link_socket c s st = Some st' \<and>
    lists_inv (add_sock c s A) st' \<and>
    (\<exists>S. st' = st\<lparr>socks := S, ctxs := (ctxs st)(c := (ctxs st c)\<lparr>c_head_sockets := s\<rparr>)\<rparr> \<and>
      same_core ((socks st)(s := (socks st s)\<lparr>s_context := c\<rparr>)) S)"
proof -
  let ?h = "c_head_sockets (ctxs st c)" and ?xs = "al_socks A c"
  let ?S0 = "(socks st)(s := (socks st s)\<lparr>s_context := c\<rparr>)"
  let ?st = "st\<lparr>socks := pushS s ?h ?S0, ctxs := (ctxs st)(c := (ctxs st c)\<lparr>c_head_sockets := s\<rparr>)\<rparr>"
  have d: "dll (snx st) (spv st) NULL ?h ?xs" using lists_invD(5) [OF I c] .
  have hx: "?h = NULL \<or> ?h \<in> set ?xs" using dll_head [OF d] by (cases ?xs) auto
  have sx: "s \<notin> set ?xs" "s \<notin> set (al_listen A c)" using det c by (simp_all add: detached_def)
  then have hs: "?h \<noteq> s" using hx s by auto
  have hsock: "?h = NULL \<or> is_sock st ?h" using hx lists_inv_socks(1) [OF I c] by blast
  have sock: "is_sock st s" using s by (simp add: is_sock_def)
  have eq: "us_internal_socket_context_link_socket c s st = Some ?st"
    by (rule link_socket_eq [OF sock lists_inv_ctx [OF I c] refl hsock hs])
  have core: "same_core ?S0 (pushS s ?h ?S0)" by simp
  note [simp] = same_coreD [OF core]
  have other: "a \<noteq> s \<Longrightarrow> a \<noteq> ?h \<Longrightarrow> pushS s ?h ?S0 a = socks st a" for a
    by (simp add: pushS_other)
  have "(\<lambda>a. s_next (?S0 a)) = snx st" "(\<lambda>a. s_prev (?S0 a)) = spv st" by (auto simp: fun_eq_iff)
  then have new: "dll (snx ?st) (spv ?st) NULL s (s # ?xs)"
    using pushS_dll [of ?S0 ?h ?xs s] d sx(1) s(2) by simp
  note far = far_from_socks [OF I c hx]
  have lis: "dll (snx ?st) (spv ?st) NULL (c_head_listen_sockets (ctxs st c)) (al_listen A c)"
  proof (rule ctx_inv_other_list [OF lists_invD(6) [OF I c]])
    fix a assume "a \<in> set (al_listen A c)"
    then have "a \<noteq> s" "a \<noteq> ?h" using sx far(1) by blast+
    then show "socks ?st a = socks st a" using other by simp
  qed
  have "ctx_inv (add_sock c s A) ?st c"
    using new lis lists_invD(2) [OF I c] s low
    by (auto simp: ctx_inv_def simp del: dll.simps)
  then have "lists_inv (add_sock c s A) ?st"
    using far det c
    by (intro lists_inv_ctx_change [OF I c, where X = "{s, ?h}"])
      (auto simp: detached_def other)
  with eq core show ?thesis by blast
qed

lemma link_listen_ok:
  assumes I: "lists_inv A st" and c: "c \<in> set (al_ctxs A)"
    and s: "objs st s = Some KListen" "s \<noteq> NULL" and det: "detached A s"
  shows "\<exists>st'. us_internal_socket_context_link_listen_socket c s st = Some st' \<and>
    lists_inv (add_listen c s A) st' \<and>
    (\<exists>S. st' = st\<lparr>socks := S, ctxs := (ctxs st)(c := (ctxs st c)\<lparr>c_head_listen_sockets := s\<rparr>)\<rparr> \<and>
      same_core ((socks st)(s := (socks st s)\<lparr>s_context := c\<rparr>)) S)"
proof -
  let ?h = "c_head_listen_sockets (ctxs st c)" and ?xs = "al_listen A c"
  let ?S0 = "(socks st)(s := (socks st s)\<lparr>s_context := c\<rparr>)"
  let ?st = "st\<lparr>socks := pushS s ?h ?S0,
    ctxs := (ctxs st)(c := (ctxs st c)\<lparr>c_head_listen_sockets := s\<rparr>)\<rparr>"
  have d: "dll (snx st) (spv st) NULL ?h ?xs" using lists_invD(6) [OF I c] .
  have hx: "?h = NULL \<or> ?h \<in> set ?xs" using dll_head [OF d] by (cases ?xs) auto
  have sx: "s \<notin> set ?xs" "s \<notin> set (al_socks A c)" using det c by (simp_all add: detached_def)
  then have hs: "?h \<noteq> s" using hx s by auto
  have hsock: "?h = NULL \<or> is_sock st ?h" using hx lists_inv_listen(1) [OF I c] by blast
  have sock: "is_sock st s" using s by (simp add: is_sock_def)
  have eq: "us_internal_socket_context_link_listen_socket c s st = Some ?st"
    by (rule link_listen_socket_eq [OF sock lists_inv_ctx [OF I c] refl hsock hs])
  have core: "same_core ?S0 (pushS s ?h ?S0)" by simp
  note [simp] = same_coreD [OF core]
  have other: "a \<noteq> s \<Longrightarrow> a \<noteq> ?h \<Longrightarrow> pushS s ?h ?S0 a = socks st a" for a
    by (simp add: pushS_other)
  have "(\<lambda>a. s_next (?S0 a)) = snx st" "(\<lambda>a. s_prev (?S0 a)) = spv st" by (auto simp: fun_eq_iff)
  then have new: "dll (snx ?st) (spv ?st) NULL s (s # ?xs)"
    using pushS_dll [of ?S0 ?h ?xs s] d sx(1) s(2) by simp
  note far = far_from_listen [OF I c hx]
  have lis: "dll (snx ?st) (spv ?st) NULL (c_head_sockets (ctxs st c)) (al_socks A c)"
  proof (rule ctx_inv_other_list [OF lists_invD(5) [OF I c]])
    fix a assume "a \<in> set (al_socks A c)"
    then have "a \<noteq> s" "a \<noteq> ?h" using sx far(1) by blast+
    then show "socks ?st a = socks st a" using other by simp
  qed
  have "ctx_inv (add_listen c s A) ?st c"
    using new lis lists_invD(2) [OF I c] s sx
    by (auto simp: ctx_inv_def simp del: dll.simps)
  then have "lists_inv (add_listen c s A) ?st"
    using far det c
    by (intro lists_inv_ctx_change [OF I c, where X = "{s, ?h}"])
      (auto simp: detached_def other)
  with eq core show ?thesis by blast
qed

text \<open>Unlinking gives back a socket that is in no list, with its own fields as they were.\<close>

lemma unlink_socket_ok:
  assumes I: "lists_inv A st" and c: "c \<in> set (al_ctxs A)" and s: "s \<in> set (al_socks A c)"
  shows "\<exists>st'. us_internal_socket_context_unlink_socket c s st = Some st' \<and>
    lists_inv (del_sock c s A) st' \<and> detached (del_sock c s A) s \<and>
    (\<exists>S C. st' = st\<lparr>socks := S, ctxs := (ctxs st)(c := C)\<rparr> \<and>
      same_core (socks st) S \<and> S s = socks st s \<and>
      (\<exists>h. C = (fix_iter s (s_next (socks st s)) (ctxs st c))\<lparr>c_head_sockets := h\<rparr>))"
proof -
  let ?h = "c_head_sockets (ctxs st c)" and ?xs = "al_socks A c"
  let ?p = "s_prev (socks st s)" and ?n = "s_next (socks st s)"
  let ?h' = "if ?p = NULL then ?n else ?h"
  let ?C = "(fix_iter s ?n (ctxs st c))\<lparr>c_head_sockets := ?h'\<rparr>"
  let ?st = "st\<lparr>socks := popS s (socks st), ctxs := (ctxs st)(c := ?C)\<rparr>"
  have d: "dll (snx st) (spv st) NULL ?h ?xs" using lists_invD(5) [OF I c] .
  note e = popS_ends [OF d s]
  have px: "?p = NULL \<or> ?p \<in> set ?xs" and nx: "?n = NULL \<or> ?n \<in> set ?xs" using e(3,4) by blast+
  have sock: "is_sock st s" using lists_inv_socks(1) [OF I c s] .
  have psock: "?p = NULL \<or> is_sock st ?p" and nsock: "?n = NULL \<or> is_sock st ?n"
    using px nx lists_inv_socks(1) [OF I c] by blast+
  have pn: "?p = NULL \<or> ?p \<noteq> ?n" using e(1) e(3,5) by force
  have eq: "us_internal_socket_context_unlink_socket c s st = Some ?st"
    by (rule unlink_socket_eq [OF sock lists_inv_ctx [OF I c] psock nsock e(5,6) pn])
  have core: "same_core (socks st) (popS s (socks st))" by simp
  note [simp] = same_coreD [OF core]
  have other: "a \<noteq> ?p \<Longrightarrow> a \<noteq> ?n \<Longrightarrow> popS s (socks st) a = socks st a" for a
    by (simp add: popS_other)
  have dis: "distinct ?xs" using dll_distinct [OF d] .
  have new: "dll (snx ?st) (spv ?st) NULL ?h' (remove1 s ?xs)"
    using popS_dll [OF d s] by simp
  note farp = far_from_socks [OF I c px] and farn = far_from_socks [OF I c nx]
  note fars = far_from_socks [OF I c disjI2 [OF s]]
  have lis: "dll (snx ?st) (spv ?st) NULL (c_head_listen_sockets (ctxs st c)) (al_listen A c)"
  proof (rule ctx_inv_other_list [OF lists_invD(6) [OF I c]])
    fix a assume "a \<in> set (al_listen A c)"
    then have "a \<noteq> ?p" "a \<noteq> ?n" using farp(1) farn(1) by blast+
    then show "socks ?st a = socks st a" using other by simp
  qed
  have it: "c_iterator ?C = NULL \<or> c_iterator ?C \<in> set (remove1 s ?xs)"
    using lists_invD(9) [OF I c] nx e(6) dis by (auto simp: fix_iter_def)
  have "ctx_inv (del_sock c s A) ?st c"
    using new lis it lists_invD(2) [OF I c] dis
    by (auto simp: ctx_inv_def fix_iter_def simp del: dll.simps split: if_splits)
  then have inv: "lists_inv (del_sock c s A) ?st"
    using farp farn
    by (intro lists_inv_ctx_change [OF I c, where X = "{?p, ?n}"])
      (auto simp: other fix_iter_def)
  have det: "detached (del_sock c s A) s"
    using fars c dis by (auto simp: detached_def)
  have "popS s (socks st) s = socks st s" using e(5,6) by (intro other) auto
  with eq inv det core show ?thesis by blast
qed

lemma unlink_listen_ok:
  assumes I: "lists_inv A st" and c: "c \<in> set (al_ctxs A)" and s: "s \<in> set (al_listen A c)"
  shows "\<exists>st'. us_internal_socket_context_unlink_listen_socket c s st = Some st' \<and>
    lists_inv (del_listen c s A) st' \<and> detached (del_listen c s A) s \<and>
    (\<exists>S C. st' = st\<lparr>socks := S, ctxs := (ctxs st)(c := C)\<rparr> \<and>
      same_core (socks st) S \<and> S s = socks st s \<and>
      (\<exists>h. C = (ctxs st c)\<lparr>c_head_listen_sockets := h\<rparr>))"
proof -
  let ?h = "c_head_listen_sockets (ctxs st c)" and ?xs = "al_listen A c"
  let ?p = "s_prev (socks st s)" and ?n = "s_next (socks st s)"
  let ?h' = "if ?p = NULL then ?n else ?h"
  let ?C = "(ctxs st c)\<lparr>c_head_listen_sockets := ?h'\<rparr>"
  let ?st = "st\<lparr>socks := popS s (socks st), ctxs := (ctxs st)(c := ?C)\<rparr>"
  have d: "dll (snx st) (spv st) NULL ?h ?xs" using lists_invD(6) [OF I c] .
  note e = popS_ends [OF d s]
  have px: "?p = NULL \<or> ?p \<in> set ?xs" and nx: "?n = NULL \<or> ?n \<in> set ?xs" using e(3,4) by blast+
  have sock: "is_sock st s" using lists_inv_listen(1) [OF I c s] .
  have psock: "?p = NULL \<or> is_sock st ?p" and nsock: "?n = NULL \<or> is_sock st ?n"
    using px nx lists_inv_listen(1) [OF I c] by blast+
  have pn: "?p = NULL \<or> ?p \<noteq> ?n" using e(1) e(3,5) by force
  note farp = far_from_listen [OF I c px] and farn = far_from_listen [OF I c nx]
  note fars = far_from_listen [OF I c disjI2 [OF s]]
  have s0: "s \<noteq> NULL" using s e(7) by metis
  have "s \<noteq> c_iterator (ctxs st c)" using lists_invD(9) [OF I c] fars(1) s0 by auto
  then have fi: "fix_iter s ?n (ctxs st c) = ctxs st c" by (simp add: fix_iter_def)
  have eq: "us_internal_socket_context_unlink_listen_socket c s st = Some ?st"
    using unlink_listen_socket_eq [OF sock lists_inv_ctx [OF I c] psock nsock e(5,6) pn]
    unfolding fi .
  have core: "same_core (socks st) (popS s (socks st))" by simp
  note [simp] = same_coreD [OF core]
  have other: "a \<noteq> ?p \<Longrightarrow> a \<noteq> ?n \<Longrightarrow> popS s (socks st) a = socks st a" for a
    by (simp add: popS_other)
  have dis: "distinct ?xs" using dll_distinct [OF d] .
  have new: "dll (snx ?st) (spv ?st) NULL ?h' (remove1 s ?xs)"
    using popS_dll [OF d s] by simp
  have lis: "dll (snx ?st) (spv ?st) NULL (c_head_sockets (ctxs st c)) (al_socks A c)"
  proof (rule ctx_inv_other_list [OF lists_invD(5) [OF I c]])
    fix a assume "a \<in> set (al_socks A c)"
    then have "a \<noteq> ?p" "a \<noteq> ?n" using farp(1) farn(1) by blast+
    then show "socks ?st a = socks st a" using other by simp
  qed
  have "ctx_inv (del_listen c s A) ?st c"
    using new lis lists_invD(2) [OF I c] dis
    by (auto simp: ctx_inv_def simp del: dll.simps split: if_splits)
  then have inv: "lists_inv (del_listen c s A) ?st"
    using farp farn
    by (intro lists_inv_ctx_change [OF I c, where X = "{?p, ?n}"])
      (auto simp: other)
  have det: "detached (del_listen c s A) s"
    using fars c dis by (auto simp: detached_def)
  have "popS s (socks st) s = socks st s" using e(5,6) by (intro other) auto
  with eq inv det core show ?thesis by blast
qed

section \<open>The low-priority queue and the close list\<close>

lemma lists_inv_loop_change:
  assumes I: "lists_inv A st"
    and same: "objs st' = objs st" "ctxs st' = ctxs st" "l_head st' = l_head st"
    and X: "\<And>s. s \<notin> X \<Longrightarrow> socks st' s = socks st s"
    and far: "\<And>d. d \<in> set (al_ctxs A) \<Longrightarrow> X \<inter> (set (al_socks A d) \<union> set (al_listen A d)) = {}"
    and A': "al_ctxs A' = al_ctxs A" "al_socks A' = al_socks A" "al_listen A' = al_listen A"
    and new: "low_inv A' st'" "closed_inv A' st'"
  shows "lists_inv A' st'"
proof -
  have "ctx_inv A' st' d" if d: "d \<in> set (al_ctxs A)" for d
    using lists_invD(2) [OF I d] ctx_inv_cong [of A d st' st A'] far [OF d] X same A' by auto
  moreover have "is_ctx st' d" if "d \<in> set (al_ctxs A)" for d
    using lists_inv_ctx [OF I that] access_cong(3) [of st' d st] same by simp
  ultimately show ?thesis
    using lists_invD(1) [OF I] A' same new lists_inv_finite [OF I] by (simp add: lists_inv_def)
qed

lemma far_from_low:
  assumes I: "lists_inv A st" and x: "x = NULL \<or> x \<in> set (al_low A)"
  shows "x \<notin> set (al_closed A)"
    "d \<in> set (al_ctxs A) \<Longrightarrow> x \<notin> set (al_socks A d) \<and> x \<notin> set (al_listen A d)"
proof -
  show "x \<notin> set (al_closed A)"
    using x sll_nonnull [OF lists_invD(8) [OF I]] lists_disjoint(3) [OF I, of x] by blast
  assume d: "d \<in> set (al_ctxs A)"
  show "x \<notin> set (al_socks A d) \<and> x \<notin> set (al_listen A d)"
    using x dll_nonnull [OF lists_invD(5) [OF I d]] dll_nonnull [OF lists_invD(6) [OF I d]]
      lists_disjoint(4) [OF I d, of x] lists_disjoint(5) [OF I d, of x] by blast
qed

text \<open>Taking a socket out of the queue; its own record may be rewritten at will.\<close>

lemma low_pop_ok:
  assumes I: "lists_inv A st" and s: "s \<in> set (al_low A)"
  shows "lists_inv (del_low s A) (st\<lparr>socks := (popS s (socks st))(s := k),
      l_low_prio_head := (if s_prev (socks st s) = NULL then s_next (socks st s)
        else l_low_prio_head st)\<rparr>)" (is "lists_inv _ ?st")
    and "detached (del_low s A) s"
proof -
  let ?h = "l_low_prio_head st" and ?xs = "al_low A"
  let ?p = "s_prev (socks st s)" and ?n = "s_next (socks st s)"
  have d: "dll (snx st) (spv st) NULL ?h ?xs" using lists_invD(7) [OF I] .
  note e = popS_ends [OF d s]
  have px: "?p = NULL \<or> ?p \<in> set ?xs" and nx: "?n = NULL \<or> ?n \<in> set ?xs" using e(3,4) by blast+
  have dis: "distinct ?xs" using dll_distinct [OF d] .
  note farp = far_from_low [OF I px] and farn = far_from_low [OF I nx]
  note fars = far_from_low [OF I disjI2 [OF s]]
  note [simp] = same_coreD [OF popS_core]
  have other: "a \<noteq> s \<Longrightarrow> a \<noteq> ?p \<Longrightarrow> a \<noteq> ?n \<Longrightarrow> ((popS s (socks st))(s := k)) a = socks st a" for a
    by (simp add: popS_other)
  have sn: "s \<notin> set (remove1 s ?xs)" using dis by simp
  have "dll (\<lambda>a. s_next (popS s (socks st) a)) (\<lambda>a. s_prev (popS s (socks st) a)) NULL
      (l_low_prio_head ?st) (remove1 s ?xs)"
    using popS_dll [OF d s] by simp
  moreover have "dll (snx ?st) (spv ?st) NULL (l_low_prio_head ?st) (remove1 s ?xs) =
     dll (\<lambda>a. s_next (popS s (socks st) a)) (\<lambda>a. s_prev (popS s (socks st) a)) NULL
      (l_low_prio_head ?st) (remove1 s ?xs)"
    using sn by (intro dll_cong) auto
  ultimately have new: "dll (snx ?st) (spv ?st) NULL (l_low_prio_head ?st) (remove1 s ?xs)"
    by simp
  have low: "low_inv (del_low s A) ?st"
    using new lists_invD(3) [OF I] dis by (auto simp: low_inv_def simp del: dll.simps)
  have "closed_inv (del_low s A) ?st = closed_inv A st"
  proof (rule closed_inv_cong)
    fix a assume "a \<in> set (al_closed A)"
    then have "a \<noteq> s" "a \<noteq> ?p" "a \<noteq> ?n" using fars(1) farp(1) farn(1) by blast+
    then show "socks ?st a = socks st a \<and> objs ?st a = objs st a" using other by simp
  qed simp_all
  then have closed: "closed_inv (del_low s A) ?st" using lists_invD(4) [OF I] by simp
  show "lists_inv (del_low s A) ?st"
    using fars(2) farp(2) farn(2) low closed
    by (intro lists_inv_loop_change [OF I, where X = "{s, ?p, ?n}"])
      (auto simp: other simp del: fun_upd_apply)
  show "detached (del_low s A) s"
    using fars dis by (auto simp: detached_def)
qed

lemma low_push_ok:
  assumes I: "lists_inv A st" and det: "detached A s" and s: "objs st s = Some KSocket" "s \<noteq> NULL"
    and c: "s_context (socks st s) \<in> set (al_ctxs A)"
  shows "lists_inv (add_low s A) (st\<lparr>
      socks := (pushS s (l_low_prio_head st) (socks st))(s :=
        (pushS s (l_low_prio_head st) (socks st) s)\<lparr>s_low_prio_state := 1\<rparr>),
      l_low_prio_head := s\<rparr>)" (is "lists_inv _ ?st")
proof -
  let ?h = "l_low_prio_head st" and ?xs = "al_low A"
  have d: "dll (snx st) (spv st) NULL ?h ?xs" using lists_invD(7) [OF I] .
  have hx: "?h = NULL \<or> ?h \<in> set ?xs" using dll_head [OF d] by (cases ?xs) auto
  have sx: "s \<notin> set ?xs" using det by (simp add: detached_def)
  note [simp] = same_coreD [OF pushS_core]
  note far = far_from_low [OF I hx]
  have other: "a \<noteq> s \<Longrightarrow> a \<noteq> ?h \<Longrightarrow> ((pushS s ?h (socks st))(s :=
      (pushS s ?h (socks st) s)\<lparr>s_low_prio_state := 1\<rparr>)) a = socks st a" for a
    by (simp add: pushS_other)
  have "(\<lambda>a. s_next (socks ?st a)) = (\<lambda>a. s_next (pushS s ?h (socks st) a))"
    "(\<lambda>a. s_prev (socks ?st a)) = (\<lambda>a. s_prev (pushS s ?h (socks st) a))" by auto
  then have new: "dll (snx ?st) (spv ?st) NULL s (s # ?xs)"
    using pushS_dll [OF d sx s(2)] by simp
  have low: "low_inv (add_low s A) ?st"
    using new lists_invD(3) [OF I] s c sx by (auto simp: low_inv_def simp del: dll.simps)
  have "closed_inv (add_low s A) ?st = closed_inv A st"
  proof (rule closed_inv_cong)
    fix a assume "a \<in> set (al_closed A)"
    then have "a \<noteq> s" "a \<noteq> ?h" using det far(1) unfolding detached_def by blast+
    then show "socks ?st a = socks st a \<and> objs ?st a = objs st a" using other by simp
  qed simp_all
  then have closed: "closed_inv (add_low s A) ?st" using lists_invD(4) [OF I] by simp
  show ?thesis
    using det far(2) low closed
    by (intro lists_inv_loop_change [OF I, where X = "{s, ?h}"])
      (auto simp: other detached_def simp del: fun_upd_apply)
qed

text \<open>A socket that is in no list becomes a closed one.\<close>

lemma closed_push_ok:
  assumes I: "lists_inv A st" and det: "detached A s" and s: "is_sock st s"
    and k: "s_next k = l_closed_head st" "s_prev k = s_context k"
  shows "lists_inv (add_closed s A) (st\<lparr>socks := (socks st)(s := k), l_closed_head := s\<rparr>)"
    (is "lists_inv _ ?st")
proof -
  have sx: "s \<notin> set (al_closed A)" "s \<notin> set (al_low A)" using det by (simp_all add: detached_def)
  have s0: "s \<noteq> NULL" using s by (auto simp: is_sock_def)
  have "sll (snx ?st) (s_next k) (al_closed A) = sll (snx st) (s_next k) (al_closed A)"
    by (rule sll_cong) (use sx(1) in auto)
  then have "sll (snx ?st) (s_next k) (al_closed A)"
    using lists_invD(8) [OF I] k by simp
  then have closed: "closed_inv (add_closed s A) ?st"
    using lists_invD(4) [OF I] s s0 k sx(1) by (auto simp: closed_inv_def)
  have "low_inv (add_closed s A) ?st = low_inv A st"
    using sx(2) by (intro low_inv_cong) auto
  then show ?thesis
    using closed lists_invD(3) [OF I] det
    by (intro lists_inv_loop_change [OF I, where X = "{s}"]) (auto simp: detached_def)
qed

text \<open>The fields of a socket that no list reads.\<close>

lemma lists_inv_sock_fields:
  assumes I: "lists_inv A st" and "s_next k = s_next (socks st s)" "s_prev k = s_prev (socks st s)"
    "s_context k = s_context (socks st s)"
    "s_low_prio_state k = 1 \<longleftrightarrow> s_low_prio_state (socks st s) = 1"
  shows "lists_inv A (st\<lparr>socks := (socks st)(s := k)\<rparr>)" (is "lists_inv A ?st")
proof -
  have [simp]: "s_next (((socks st)(s := k)) a) = s_next (socks st a)"
    "s_prev (((socks st)(s := k)) a) = s_prev (socks st a)"
    "s_context (((socks st)(s := k)) a) = s_context (socks st a)"
    "s_low_prio_state (((socks st)(s := k)) a) = 1 \<longleftrightarrow> s_low_prio_state (socks st a) = 1" for a
    using assms by auto
  have "ctx_inv A ?st c = ctx_inv A st c" for c
    unfolding ctx_inv_def by (simp del: fun_upd_apply)
  moreover have "low_inv A ?st = low_inv A st"
    unfolding low_inv_def by (simp del: fun_upd_apply)
  moreover have "closed_inv A ?st = closed_inv A st"
    unfolding closed_inv_def by (simp del: fun_upd_apply)
  ultimately show ?thesis using I
    unfolding lists_inv_def by (simp del: fun_upd_apply)
qed

section \<open>Blocks outside the lists\<close>

lemma lists_inv_far:
  assumes I: "lists_inv A st"
    and same: "l_head st' = l_head st" "l_low_prio_head st' = l_low_prio_head st"
      "l_closed_head st' = l_closed_head st"
    and X: "\<And>s. s \<notin> X \<Longrightarrow> socks st' s = socks st s \<and> objs st' s = objs st s \<and> ctxs st' s = ctxs st s"
    and far: "\<And>s. s \<in> X \<Longrightarrow> detached A s \<and> s \<notin> set (al_ctxs A)" and fin: "finite X"
  shows "lists_inv A st'"
proof -
  have k: "ctxs st' d = ctxs st d" "objs st' d = objs st d" if d: "d \<in> set (al_ctxs A)" for d
    using X [of d] far [of d] d by blast+
  have "ctx_inv A st' d" if d: "d \<in> set (al_ctxs A)" for d
  proof -
    have "ctx_inv A st' d = ctx_inv A st d"
    proof (rule ctx_inv_cong)
      fix a assume "a \<in> set (al_socks A d) \<union> set (al_listen A d)"
      then have "a \<notin> X" using far [of a] d unfolding detached_def by blast
      then show "socks st' a = socks st a \<and> objs st' a = objs st a" using X by blast
    qed (simp_all add: k(1) [OF d])
    then show ?thesis using lists_invD(2) [OF I d] by simp
  qed
  moreover have "is_ctx st' d" if "d \<in> set (al_ctxs A)" for d
    using lists_inv_ctx [OF I that] access_cong(3) [OF k(2) [OF that]] by simp
  moreover have "low_inv A st'"
  proof -
    have "low_inv A st' = low_inv A st"
    proof (rule low_inv_cong)
      fix a assume "a \<in> set (al_low A)"
      then have "a \<notin> X" using far [of a] unfolding detached_def by blast
      then show "socks st' a = socks st a \<and> objs st' a = objs st a" using X by blast
    qed (simp_all add: same)
    then show ?thesis using lists_invD(3) [OF I] by simp
  qed
  moreover have "closed_inv A st'"
  proof -
    have "closed_inv A st' = closed_inv A st"
    proof (rule closed_inv_cong)
      fix a assume "a \<in> set (al_closed A)"
      then have "a \<notin> X" using far [of a] unfolding detached_def by blast
      then show "socks st' a = socks st a \<and> objs st' a = objs st a" using X by blast
    qed (simp_all add: same)
    then show ?thesis using lists_invD(4) [OF I] by simp
  qed
  moreover have "dll (cnx st') (cpv st') NULL (l_head st') (al_ctxs A)"
    using lists_invD(1) [OF I] dll_cong [of "al_ctxs A" "cnx st'" "cnx st" "cpv st'" "cpv st" NULL]
      k(1) same by simp
  moreover have "finite (dom (objs st'))"
  proof (rule finite_subset)
    show "dom (objs st') \<subseteq> dom (objs st) \<union> X" using X by (fastforce simp: dom_def)
  qed (use lists_inv_finite [OF I] fin in simp)
  ultimately show ?thesis by (simp add: lists_inv_def)
qed

lemma fresh_detached:
  assumes I: "lists_inv A st" and b: "objs st b = None"
  shows "detached A b" and "b \<notin> set (al_ctxs A)"
proof -
  have n: "\<not> is_sock st b" "\<not> is_ctx st b" using b by (simp_all add: is_sock_def is_ctx_def)
  show "detached A b"
    unfolding detached_def
    using n lists_inv_socks(1) [OF I] lists_inv_listen(1) [OF I] lists_inv_low(1) [OF I]
      lists_inv_closed(1) [OF I] by blast
  show "b \<notin> set (al_ctxs A)" using n lists_inv_ctx [OF I] by blast
qed

lemma sock_not_ctx: "lists_inv A st \<Longrightarrow> is_sock st s \<Longrightarrow> s \<notin> set (al_ctxs A)"
  using lists_inv_ctx is_ctx_not_sock(2) by blast

lemma lists_inv_alloc:
  assumes "lists_inv A st" and "objs st b = None"
  shows "lists_inv A (st\<lparr>objs := (objs st)(b \<mapsto> k)\<rparr>)"
  using assms(1) by (rule lists_inv_far [where X = "{b}"]) (use fresh_detached [OF assms] in auto)

lemma lists_inv_free:
  assumes "lists_inv A st" and "detached A b" and "b \<notin> set (al_ctxs A)"
  shows "lists_inv A (st\<lparr>objs := (objs st)(b := None)\<rparr>)"
  using assms(1) by (rule lists_inv_far [where X = "{b}"]) (use assms in auto)

text \<open>Moving a socket that is in no list, as the resize of an adopted socket does.\<close>

lemma realloc_detached_ok:
  assumes I: "lists_inv A st" and K: "allocator_ok K" and det: "detached A s"
    and s: "objs st s = Some KSocket" "s \<noteq> NULL"
  obtains b st' where "realloc_obj K s st = Some (b, st')" and "lists_inv A st'"
    and "detached A b" and "objs st' b = Some KSocket" and "b \<noteq> NULL"
    and "socks st' b = socks st s" and "polls st' b = polls st s"
    and "b = s \<or> (objs st b = None \<and> objs st' s = None)"
    and "\<exists>ob ps ss es cs ls ue. st' = st\<lparr>objs := ob, polls := ps, socks := ss, ext_sizes := es, cbs := cs, ssl_socks := ls, u_ext := ue\<rparr> \<and>
      (\<forall>a. a \<noteq> s \<and> a \<noteq> b \<longrightarrow> ob a = objs st a \<and> ps a = polls st a \<and> ss a = socks st a)"
proof -
  let ?b = "k_realloc K st s"
  let ?st = "if ?b = s then st else
       st\<lparr>objs := (objs st)(s := None, ?b := objs st s),
          polls := (polls st)(?b := polls st s),
          socks := (socks st)(?b := socks st s),
          ext_sizes := (ext_sizes st)(?b := ext_sizes st s),
          cbs := (cbs st)(?b := cbs st s), ssl_socks := (ssl_socks st)(?b := ssl_socks st s), u_ext := (u_ext st)(?b := u_ext st s)\<rparr>"
  have eq: "realloc_obj K s st = Some (?b, ?st)" using s by (simp add: realloc_obj_def Let_def)
  have b: "?b = s \<or> (?b \<noteq> NULL \<and> objs st ?b = None)"
    using K lists_inv_finite [OF I] by (simp add: allocator_ok_def)
  have sc: "s \<notin> set (al_ctxs A)" using sock_not_ctx [OF I] s by (simp add: is_sock_def)
  have bd: "detached A ?b" "?b \<notin> set (al_ctxs A)"
    using b det sc fresh_detached [OF I] by metis+
  have "lists_inv A ?st"
    using I by (rule lists_inv_far [where X = "{s, ?b}"]) (use det sc bd in auto)
  moreover have "objs ?st ?b = Some KSocket" "?b \<noteq> NULL" using b s by auto
  moreover have "\<exists>ob ps ss es cs ls ue. ?st =
      st\<lparr>objs := ob, polls := ps, socks := ss, ext_sizes := es, cbs := cs, ssl_socks := ls, u_ext := ue\<rparr> \<and>
      (\<forall>a. a \<noteq> s \<and> a \<noteq> ?b \<longrightarrow> ob a = objs st a \<and> ps a = polls st a \<and> ss a = socks st a)"
  proof (cases "?b = s")
    case True
    then have "?st = st\<lparr>objs := objs st, polls := polls st, socks := socks st,
      ext_sizes := ext_sizes st, cbs := cbs st, ssl_socks := ssl_socks st, u_ext := u_ext st\<rparr>" by simp
    then show ?thesis by blast
  next
    case False
    then show ?thesis by (auto intro!: exI)
  qed
  moreover have "socks ?st ?b = socks st s" "polls ?st ?b = polls st s" by simp_all
  moreover have "?b = s \<or> (objs st ?b = None \<and> objs ?st s = None)" using b by auto
  ultimately show thesis using eq bd(1) that by blast
qed

section \<open>The contexts of the loop\<close>

definition links_only :: "(addr \<Rightarrow> us_socket_context_t) \<Rightarrow> (addr \<Rightarrow> us_socket_context_t) \<Rightarrow> bool" where
  "links_only C C' \<longleftrightarrow>
     (\<forall>a. (C' a)\<lparr>c_next := NULL, c_prev := NULL\<rparr> = (C a)\<lparr>c_next := NULL, c_prev := NULL\<rparr>)"

lemma links_only_refl [simp]: "links_only C C"
  by (simp add: links_only_def)

lemma links_onlyD:
  assumes "links_only C C'"
  shows "c_head_sockets (C' a) = c_head_sockets (C a)"
    "c_head_listen_sockets (C' a) = c_head_listen_sockets (C a)"
    "c_iterator (C' a) = c_iterator (C a)"
proof -
  have e: "(C' a)\<lparr>c_next := NULL, c_prev := NULL\<rparr> = (C a)\<lparr>c_next := NULL, c_prev := NULL\<rparr>"
    using assms unfolding links_only_def by blast
  show "c_head_sockets (C' a) = c_head_sockets (C a)" using arg_cong [OF e, of c_head_sockets] by simp
  show "c_head_listen_sockets (C' a) = c_head_listen_sockets (C a)"
    using arg_cong [OF e, of c_head_listen_sockets] by simp
  show "c_iterator (C' a) = c_iterator (C a)" using arg_cong [OF e, of c_iterator] by simp
qed

lemma links_only_upd [simp]:
  "links_only C C' \<Longrightarrow> links_only C (C'(a := (C' a)\<lparr>c_next := n\<rparr>))"
  "links_only C C' \<Longrightarrow> links_only C (C'(a := (C' a)\<lparr>c_prev := p\<rparr>))"
  "links_only C C' \<Longrightarrow> links_only C (C'(a := (C' a)\<lparr>c_next := n, c_prev := p\<rparr>))"
  by (simp_all add: links_only_def)

lemma lists_inv_ctx_chain:
  assumes I: "lists_inv A st"
    and same: "objs st' = objs st" "socks st' = socks st" "l_low_prio_head st' = l_low_prio_head st"
      "l_closed_head st' = l_closed_head st"
    and C: "links_only (ctxs st) (ctxs st')"
    and chain: "dll (cnx st') (cpv st') NULL (l_head st') (al_ctxs A')"
    and A': "al_low A' = al_low A" "al_closed A' = al_closed A"
      "\<And>d. d \<in> set (al_ctxs A) \<Longrightarrow> al_socks A' d = al_socks A d \<and> al_listen A' d = al_listen A d"
    and new: "\<And>d. d \<in> set (al_ctxs A') \<Longrightarrow> d \<notin> set (al_ctxs A) \<Longrightarrow> is_ctx st d \<and> ctx_inv A' st d"
    and low: "\<And>s. s \<in> set (al_low A) \<Longrightarrow> s_context (socks st s) \<in> set (al_ctxs A')"
  shows "lists_inv A' st'"
proof -
  note [simp] = links_onlyD [OF C] same
  have up: "ctx_inv A' st' d" if "ctx_inv A' st d" for d
    using that by (simp add: ctx_inv_def)
  have "ctx_inv A' st' d \<and> is_ctx st' d" if d: "d \<in> set (al_ctxs A')" for d
  proof (cases "d \<in> set (al_ctxs A)")
    case True
    have "ctx_inv A' st d" using lists_invD(2) [OF I True] A'(3) [OF True] by (simp add: ctx_inv_def)
    then show ?thesis using up lists_inv_ctx [OF I True] access_cong(3) [of st' d st] by simp
  next
    case False
    then show ?thesis using up new [OF d] access_cong(3) [of st' d st] by simp
  qed
  moreover have "low_inv A' st'"
    using lists_invD(3) [OF I] A' low by (simp add: low_inv_def)
  moreover have "closed_inv A' st'"
    using lists_invD(4) [OF I] A' access_cong(1) [of st' _ st] by (simp add: closed_inv_def)
  ultimately show ?thesis using chain lists_inv_finite [OF I] by (simp add: lists_inv_def)
qed

lemma loop_link_ok:
  assumes I: "lists_inv A st" and c: "is_ctx st c" "c \<notin> set (al_ctxs A)"
    and new: "c_head_sockets (ctxs st c) = NULL" "c_head_listen_sockets (ctxs st c) = NULL"
      "c_iterator (ctxs st c) = NULL"
  shows "\<exists>st' C. us_internal_loop_link c st = Some st' \<and> lists_inv (add_ctx c A) st' \<and>
    st' = st\<lparr>ctxs := C, l_head := c\<rparr> \<and> links_only (ctxs st) C"
proof -
  let ?h = "l_head st"
  define C where "C = (let C1 = (ctxs st)(c := (ctxs st c)\<lparr>c_next := ?h, c_prev := NULL\<rparr>)
    in if ?h = NULL then C1 else C1(?h := (C1 ?h)\<lparr>c_prev := c\<rparr>))"
  let ?st = "st\<lparr>ctxs := C, l_head := c\<rparr>"
  have d: "dll (cnx st) (cpv st) NULL ?h (al_ctxs A)" using lists_invD(1) [OF I] .
  have h: "?h = NULL \<or> is_ctx st ?h \<and> ?h \<noteq> c"
    using dll_head [OF d] lists_inv_ctx [OF I] c by (cases "al_ctxs A") auto
  have c0: "c \<noteq> NULL" using c by (auto simp: is_ctx_def)
  have eq: "us_internal_loop_link c st = Some ?st"
    using c h by (cases "?h = NULL") (simp_all add: us_internal_loop_link_def C_def)
  have lo: "links_only (ctxs st) C" by (simp add: C_def Let_def del: fun_upd_apply)
  have "dll (cnx ?st) (cpv ?st) NULL c (c # al_ctxs A)"
    using cchain.push [OF d c(2) c0]
    by (cases "?h = NULL") (simp_all del: dll.simps add: C_def)
  moreover have "ctx_inv (add_ctx c A) st c"
    using new by (simp add: ctx_inv_def add_ctx_def)
  ultimately have "lists_inv (add_ctx c A) ?st"
    using I by (rule_tac lists_inv_ctx_chain [OF I])
      (use c lo lists_inv_low(3) [OF I] in \<open>auto simp: add_ctx_def simp del: dll.simps\<close>)
  with eq lo show ?thesis by blast
qed

text \<open>
  A context may be unlinked when nothing hangs on it: no socket and no listen socket, and no
  socket of it waits in the low-priority queue.
\<close>

definition ctx_empty :: "alists \<Rightarrow> us \<Rightarrow> addr \<Rightarrow> bool" where
  "ctx_empty A st c \<longleftrightarrow> al_socks A c = [] \<and> al_listen A c = [] \<and>
     (\<forall>s\<in>set (al_low A). s_context (socks st s) \<noteq> c)"

lemma loop_unlink_ok:
  assumes I: "lists_inv A st" and c: "c \<in> set (al_ctxs A)"
    and low: "\<And>s. s \<in> set (al_low A) \<Longrightarrow> s_context (socks st s) \<noteq> c"
  shows "\<exists>st' C h. us_internal_loop_unlink c st = Some st' \<and> lists_inv (del_ctx c A) st' \<and>
    st' = st\<lparr>ctxs := C, l_head := h\<rparr> \<and> links_only (ctxs st) C \<and> c \<notin> set (al_ctxs (del_ctx c A))"
proof -
  let ?h = "l_head st" and ?p = "c_prev (ctxs st c)" and ?n = "c_next (ctxs st c)"
  let ?h' = "if ?p = NULL then ?n else ?h"
  define C where "C = (let C1 = (if ?p = NULL then ctxs st else (ctxs st)(?p := (ctxs st ?p)\<lparr>c_next := ?n\<rparr>))
    in if ?n = NULL then C1 else C1(?n := (C1 ?n)\<lparr>c_prev := ?p\<rparr>))"
  let ?st = "st\<lparr>ctxs := C, l_head := ?h'\<rparr>"
  have d: "dll (cnx st) (cpv st) NULL ?h (al_ctxs A)" using lists_invD(1) [OF I] .
  note e = cchain.ends [OF d c]
  have p: "?p = NULL \<or> is_ctx st ?p" and n: "?n = NULL \<or> is_ctx st ?n"
    using e(3,4) lists_inv_ctx [OF I] by blast+
  have hp: "?h = c \<longleftrightarrow> ?p = NULL" by (rule e(2) [symmetric])
  have pn: "?p \<noteq> NULL \<Longrightarrow> ?p \<noteq> ?n" using e(1) e(3,5) by force
  have eq: "us_internal_loop_unlink c st = Some ?st"
    using lists_inv_ctx [OF I c] p n hp e(5,6) pn
    by (cases "?p = NULL"; cases "?n = NULL")
      (simp_all add: us_internal_loop_unlink_def C_def Let_def us.equality)
  have lo: "links_only (ctxs st) C" by (simp add: C_def Let_def del: fun_upd_apply)
  have dis: "distinct (al_ctxs A)" using dll_distinct [OF d] .
  have "dll (cnx ?st) (cpv ?st) NULL ?h' (remove1 c (al_ctxs A))"
    using cchain.remove [OF d c]
    by (cases "?p = NULL"; cases "?n = NULL") (simp_all del: dll.simps add: C_def Let_def)
  then have "lists_inv (del_ctx c A) ?st"
    using I by (rule_tac lists_inv_ctx_chain [OF I])
      (use c lo dis low lists_inv_low(3) [OF I] in \<open>auto simp: del_ctx_def simp del: dll.simps\<close>)
  moreover have "c \<notin> set (al_ctxs (del_ctx c A))" using dis by (simp add: del_ctx_def)
  ultimately show ?thesis using eq lo by blast
qed

end
