(* ===== verification/Us_Frame.thy ===== *)
theory Us_Frame
  imports Us_Links
begin

unbundle bit_operations_syntax

text \<open>
  How the state may grow while user code runs: \<open>grows\<close> is what every operation of the library
  keeps, and what a handler that calls only such operations keeps. The loops of the library
  (the timeout sweep, the accept loop, the dispatch of the ready polls) are proved against it.
\<close>

section \<open>The relation\<close>

text \<open>What the sweep of a context still has to visit, from its iterator on.\<close>

definition sweep_rest :: "alists \<Rightarrow> us \<Rightarrow> addr \<Rightarrow> addr list" where
  "sweep_rest A st c = (if c_iterator (ctxs st c) = NULL then []
     else dropWhile (\<lambda>a. a \<noteq> c_iterator (ctxs st c)) (al_socks A c))"

definition sweep_ok :: "alists \<Rightarrow> us \<Rightarrow> alists \<Rightarrow> us \<Rightarrow> addr \<Rightarrow> bool" where
  "sweep_ok A st A' st' c \<longleftrightarrow>
     length (sweep_rest A' st' c) \<le> length (sweep_rest A st c) \<and>
     (c_iterator (ctxs st' c) = c_iterator (ctxs st c) \<or>
      length (sweep_rest A' st' c) < length (sweep_rest A st c))"

text \<open>
  No context is freed and none is inserted behind another; a closed socket stays allocated
  and closed; a listen socket stays one until it is closed; the position in the list of
  contexts and in the list of ready polls stays; a sweep in progress goes forward; the trace
  only gets longer.
\<close>

definition grows :: "alists \<Rightarrow> us \<Rightarrow> alists \<Rightarrow> us \<Rightarrow> bool" where
  "grows A st A' st' \<longleftrightarrow>
     (\<exists>new. al_ctxs A' = new @ al_ctxs A) \<and>
     set (al_closed A) \<subseteq> set (al_closed A') \<and>
     (\<forall>c\<in>set (al_ctxs A). (\<forall>s\<in>set (al_listen A c). s \<in> set (al_listen A' c) \<union> set (al_closed A')) \<and>
        sweep_ok A st A' st' c) \<and>
     l_iterator st' = l_iterator st \<and> current_ready_poll st' = current_ready_poll st \<and>
     num_ready_polls st' = num_ready_polls st \<and> l_pre_cb st' = l_pre_cb st \<and>
     l_post_cb st' = l_post_cb st \<and> prefix (trace st) (trace st')"

text \<open>The same without the sweep, which the sweep itself keeps.\<close>

definition grows0 :: "alists \<Rightarrow> us \<Rightarrow> alists \<Rightarrow> us \<Rightarrow> bool" where
  "grows0 A st A' st' \<longleftrightarrow>
     (\<exists>new. al_ctxs A' = new @ al_ctxs A) \<and>
     set (al_closed A) \<subseteq> set (al_closed A') \<and>
     (\<forall>c\<in>set (al_ctxs A). \<forall>s\<in>set (al_listen A c). s \<in> set (al_listen A' c) \<union> set (al_closed A')) \<and>
     current_ready_poll st' = current_ready_poll st \<and>
     num_ready_polls st' = num_ready_polls st \<and> l_pre_cb st' = l_pre_cb st \<and>
     l_post_cb st' = l_post_cb st \<and> prefix (trace st) (trace st')"

text \<open>The invariant after, and growth on the way there.\<close>

definition evolves :: "alists \<Rightarrow> us \<Rightarrow> alists \<Rightarrow> us \<Rightarrow> bool" where
  "evolves A st A' st' \<longleftrightarrow> us_inv A' st' \<and> grows A st A' st'"

lemma sweep_ok_refl [simp]: "sweep_ok A st A st c"
  by (simp add: sweep_ok_def)

lemma sweep_ok_trans: "sweep_ok A st A1 st1 c \<Longrightarrow> sweep_ok A1 st1 A2 st2 c \<Longrightarrow> sweep_ok A st A2 st2 c"
  unfolding sweep_ok_def by linarith

lemma sweep_ok_same:
  "c_iterator (ctxs st' c) = c_iterator (ctxs st c) \<Longrightarrow> al_socks A' c = al_socks A c \<Longrightarrow>
   sweep_ok A st A' st' c"
  by (simp add: sweep_ok_def sweep_rest_def)

lemma grows_refl [simp]: "grows A st A st"
  by (simp add: grows_def)

lemma growsD:
  assumes "grows A st A' st'"
  shows "c \<in> set (al_ctxs A) \<Longrightarrow> c \<in> set (al_ctxs A')"
    "s \<in> set (al_closed A) \<Longrightarrow> s \<in> set (al_closed A')"
    "c \<in> set (al_ctxs A) \<Longrightarrow> s \<in> set (al_listen A c) \<Longrightarrow>
       s \<in> set (al_listen A' c) \<or> s \<in> set (al_closed A')"
    "c \<in> set (al_ctxs A) \<Longrightarrow> sweep_ok A st A' st' c"
    "l_iterator st' = l_iterator st" "current_ready_poll st' = current_ready_poll st"
    "num_ready_polls st' = num_ready_polls st"
    "\<exists>new. al_ctxs A' = new @ al_ctxs A" "prefix (trace st) (trace st')"
    "l_pre_cb st' = l_pre_cb st" "l_post_cb st' = l_post_cb st"
  using assms by (auto simp: grows_def)

lemma grows_trans [trans]:
  assumes 1: "grows A st A1 st1" and 2: "grows A1 st1 A2 st2"
  shows "grows A st A2 st2"
proof -
  obtain n1 n2 where n: "al_ctxs A1 = n1 @ al_ctxs A" "al_ctxs A2 = n2 @ al_ctxs A1"
    using growsD(8) [OF 1] growsD(8) [OF 2] by blast
  then have "\<exists>new. al_ctxs A2 = new @ al_ctxs A" by (intro exI [of _ "n2 @ n1"]) simp
  moreover have "set (al_closed A) \<subseteq> set (al_closed A2)"
    using growsD(2) [OF 1] growsD(2) [OF 2] by blast
  moreover have "s \<in> set (al_listen A2 c) \<union> set (al_closed A2)"
    if "c \<in> set (al_ctxs A)" "s \<in> set (al_listen A c)" for c s
    using growsD(1,3) [OF 1 that(1)] growsD(3) [OF 2, of c s] growsD(2) [OF 2, of s] that by blast
  moreover have "sweep_ok A st A2 st2 c" if "c \<in> set (al_ctxs A)" for c
    using growsD(4) [OF 1 that] growsD(4) [OF 2 growsD(1) [OF 1 that]] by (rule sweep_ok_trans)
  ultimately show ?thesis
    using growsD(5-7,9-11) [OF 1] growsD(5-7,9-11) [OF 2] prefix_order.trans unfolding grows_def by force
qed

lemma grows_grows0: "grows A st A' st' \<Longrightarrow> grows0 A st A' st'"
  by (simp add: grows_def grows0_def)

lemma grows0_refl [simp]: "grows0 A st A st"
  by (simp add: grows0_def)

lemma grows0D:
  assumes "grows0 A st A' st'"
  shows "c \<in> set (al_ctxs A) \<Longrightarrow> c \<in> set (al_ctxs A')"
    "s \<in> set (al_closed A) \<Longrightarrow> s \<in> set (al_closed A')"
    "c \<in> set (al_ctxs A) \<Longrightarrow> s \<in> set (al_listen A c) \<Longrightarrow>
       s \<in> set (al_listen A' c) \<or> s \<in> set (al_closed A')"
    "\<exists>new. al_ctxs A' = new @ al_ctxs A"
    "current_ready_poll st' = current_ready_poll st" "num_ready_polls st' = num_ready_polls st"
    "prefix (trace st) (trace st')" "l_pre_cb st' = l_pre_cb st" "l_post_cb st' = l_post_cb st"
  using assms by (auto simp: grows0_def)

lemma grows0_trans [trans]:
  assumes 1: "grows0 A st A1 st1" and 2: "grows0 A1 st1 A2 st2"
  shows "grows0 A st A2 st2"
proof -
  obtain n1 n2 where n: "al_ctxs A1 = n1 @ al_ctxs A" "al_ctxs A2 = n2 @ al_ctxs A1"
    using grows0D(4) [OF 1] grows0D(4) [OF 2] by blast
  then have "\<exists>new. al_ctxs A2 = new @ al_ctxs A" by (intro exI [of _ "n2 @ n1"]) simp
  moreover have "set (al_closed A) \<subseteq> set (al_closed A2)"
    using grows0D(2) [OF 1] grows0D(2) [OF 2] by blast
  moreover have "s \<in> set (al_listen A2 c) \<union> set (al_closed A2)"
    if "c \<in> set (al_ctxs A)" "s \<in> set (al_listen A c)" for c s
    using grows0D(1,3) [OF 1 that(1)] grows0D(3) [OF 2, of c s] grows0D(2) [OF 2, of s] that by blast
  ultimately show ?thesis
    using grows0D(5-9) [OF 1] grows0D(5-9) [OF 2] prefix_order.trans unfolding grows0_def by force
qed

lemma grows0_emit [simp]: "grows0 A st A' st' \<Longrightarrow> grows0 A st A' (emit e st')"
  by (simp add: grows0_def)

lemma grows0_from_emit: "grows0 A (emit e st) A' st' \<Longrightarrow> grows0 A st A' st'"
  unfolding grows0_def by (simp, blast dest: append_prefixD)

lemma grows_same:
  assumes "al_ctxs A' = al_ctxs A" "set (al_closed A) \<subseteq> set (al_closed A')"
    "\<And>c. al_listen A' c = al_listen A c"
    "\<And>c. c \<in> set (al_ctxs A) \<Longrightarrow> al_socks A' c = al_socks A c \<and>
       c_iterator (ctxs st' c) = c_iterator (ctxs st c) \<or> sweep_ok A st A' st' c"
    "l_iterator st' = l_iterator st" "current_ready_poll st' = current_ready_poll st"
    "num_ready_polls st' = num_ready_polls st" "prefix (trace st) (trace st')"
    "l_pre_cb st' = l_pre_cb st" "l_post_cb st' = l_post_cb st"
  shows "grows A st A' st'"
proof -
  have "sweep_ok A st A' st' c" if "c \<in> set (al_ctxs A)" for c
    using assms(4) [OF that] sweep_ok_same [of st' c st A' A] by blast
  then show ?thesis using assms by (simp add: grows_def)
qed

lemma poll_frame_grows: "poll_frame st st' \<Longrightarrow> grows A st A st'"
  by (rule grows_same) (simp_all add: poll_frameD)

lemma evolves_trans [trans]: "evolves A st A1 st1 \<Longrightarrow> evolves A1 st1 A2 st2 \<Longrightarrow> evolves A st A2 st2"
  using grows_trans by (auto simp: evolves_def)

lemma evolves_refl: "us_inv A st \<Longrightarrow> evolves A st A st"
  by (simp add: evolves_def)

text \<open>Pushing keeps what a sweep has left; removing shortens it or leaves it.\<close>

lemma sweep_rest_push:
  assumes "c_iterator (ctxs st' c) = c_iterator (ctxs st c)" and "al_socks A' c = s # al_socks A c"
    and "s \<noteq> c_iterator (ctxs st c)"
  shows "sweep_ok A st A' st' c"
  using assms by (simp add: sweep_ok_def sweep_rest_def)

lemma sweep_rest_remove:
  assumes d: "dll nx pv NULL h (al_socks A c)" and s: "s \<in> set (al_socks A c)"
    and it: "c_iterator (ctxs st' c) =
      (if c_iterator (ctxs st c) = s then nx s else c_iterator (ctxs st c))"
    and A': "al_socks A' c = remove1 s (al_socks A c)"
    and i: "c_iterator (ctxs st c) = NULL \<or> c_iterator (ctxs st c) \<in> set (al_socks A c)"
  shows "sweep_ok A st A' st' c"
proof -
  from s obtain as bs where xs: "al_socks A c = as @ s # bs" by (meson split_list)
  have dis: "distinct (as @ s # bs)" using dll_distinct [OF d] xs by simp
  have n: "nx s = hd0 bs" "s \<noteq> NULL" using dll_neighbours [of nx pv NULL h as s bs] d xs by auto
  have n0: "NULL \<notin> set bs" using dll_nonnull [OF d] xs by simp
  have r: "al_socks A' c = as @ bs" using dis xs A' by (simp add: remove1_append)
  let ?i = "c_iterator (ctxs st c)"
  have skip: "dropWhile (\<lambda>a. a \<noteq> x) (as @ ys) = dropWhile (\<lambda>a. a \<noteq> x) ys" if "x \<notin> set as" for x ys
    using that by (intro dropWhile_append2) auto
  show ?thesis
  proof (cases "?i = s")
    case True
    have "sweep_rest A st c = s # bs"
      using True n dis xs skip [of s] by (simp add: sweep_rest_def)
    moreover have "sweep_rest A' st' c = bs"
    proof (cases bs)
      case (Cons b bs')
      then show ?thesis using it True n n0 r skip [of b] dis by (auto simp: sweep_rest_def)
    qed (use it True n in \<open>simp add: sweep_rest_def\<close>)
    ultimately show ?thesis by (simp add: sweep_ok_def)
  next
    case False
    have "length (sweep_rest A' st' c) \<le> length (sweep_rest A st c)"
    proof (cases "?i \<in> set as")
      case True
      then have "dropWhile (\<lambda>a. a \<noteq> ?i) (as @ ys) = dropWhile (\<lambda>a. a \<noteq> ?i) as @ ys" for ys
        by (rule dropWhile_append1) simp
      then show ?thesis using False it xs r by (simp add: sweep_rest_def)
    next
      case nas: False
      then show ?thesis using False it xs r skip [OF nas] by (simp add: sweep_rest_def)
    qed
    then show ?thesis using it False by (simp add: sweep_ok_def)
  qed
qed

section \<open>The polls\<close>

lemma typed_cong:
  assumes "polls st' s = polls st s"
  shows "sock_typed st' s = sock_typed st s" "listen_typed st' s = listen_typed st s"
    "low_typed st' s = low_typed st s" "established st' s = established st s"
    "type3 st' s = type3 st s" "events3 st' s = events3 st s"
  using assms
  by (simp_all add: sock_typed_def listen_typed_def low_typed_def established_def type3_def
      events3_def)

lemma cb_typed_cong:
  "polls st' s = polls st s \<Longrightarrow> cbs st' s = cbs st s \<Longrightarrow> objs st' s = objs st s \<Longrightarrow>
   cb_typed st' s = cb_typed st s"
  using access_cong(4) [of st' s st] typed_cong(5) [of st' s st] by (simp add: cb_typed_def)

lemma polls_invD:
  assumes "polls_inv A st"
  shows "c \<in> set (al_ctxs A) \<Longrightarrow> s \<in> set (al_socks A c) \<Longrightarrow> sock_typed st s"
    "c \<in> set (al_ctxs A) \<Longrightarrow> s \<in> set (al_listen A c) \<Longrightarrow> listen_typed st s"
    "s \<in> set (al_low A) \<Longrightarrow> low_typed st s" "ready_ok st"
    "p \<in> fst ` set (pending st) \<Longrightarrow> p \<noteq> NULL \<Longrightarrow> open_poll A st p"
  using assms unfolding polls_inv_def by blast+

lemma us_invD:
  assumes "us_inv A st"
  shows "lists_inv A st" "polls_inv A st" "ready_ok st"
  using assms by (auto simp: us_inv_def polls_inv_def)

lemma us_invI: "lists_inv A st \<Longrightarrow> polls_inv A st \<Longrightarrow> us_inv A st"
  by (simp add: us_inv_def)

text \<open>
  The general step: outside \<open>X\<close> nothing changed, inside \<open>X\<close> each member of a list is typed
  right, and no entry to be dispatched became wrong.
\<close>

lemma polls_inv_step:
  assumes P: "polls_inv A st"
    and X: "\<And>a. a \<notin> X \<Longrightarrow> polls st' a = polls st a \<and> cbs st' a = cbs st a \<and> objs st' a = objs st a"
    and socks: "\<And>c s. c \<in> set (al_ctxs A') \<Longrightarrow> s \<in> set (al_socks A' c) \<Longrightarrow>
        s \<notin> X \<and> (c \<in> set (al_ctxs A) \<and> s \<in> set (al_socks A c) \<or> sock_typed st s) \<or> sock_typed st' s"
    and listen: "\<And>c s. c \<in> set (al_ctxs A') \<Longrightarrow> s \<in> set (al_listen A' c) \<Longrightarrow>
        s \<notin> X \<and> c \<in> set (al_ctxs A) \<and> s \<in> set (al_listen A c) \<or> listen_typed st' s"
    and low: "\<And>s. s \<in> set (al_low A') \<Longrightarrow> s \<notin> X \<and> s \<in> set (al_low A) \<or> low_typed st' s"
    and ready: "ready_ok st'"
    and pend: "\<And>p. p \<in> fst ` set (pending st') \<Longrightarrow> p \<noteq> NULL \<Longrightarrow>
        (p \<notin> X \<and> cb_typed st p) \<or> open_poll A' st' p"
  shows "polls_inv A' st'"
proof -
  have "sock_typed st' s" if "c \<in> set (al_ctxs A')" "s \<in> set (al_socks A' c)" for c s
    using socks [OF that] polls_invD(1) [OF P] typed_cong(1) X by blast
  moreover have "listen_typed st' s" if "c \<in> set (al_ctxs A')" "s \<in> set (al_listen A' c)" for c s
    using listen [OF that] polls_invD(2) [OF P] typed_cong(2) X by blast
  moreover have "low_typed st' s" if "s \<in> set (al_low A')" for s
    using low [OF that] polls_invD(3) [OF P] typed_cong(3) X by blast
  moreover have "open_poll A' st' p" if "p \<in> fst ` set (pending st')" "p \<noteq> NULL" for p
    using pend [OF that] X [of p] cb_typed_cong [of st' p st] unfolding open_poll_def by blast
  ultimately show ?thesis using ready unfolding polls_inv_def by blast
qed

text \<open>One poll of a socket changed its type or its events, and the lists stay.\<close>

lemma us_inv_poll_upd:
  assumes I: "us_inv A st" and loc: "poll_local p st st'" and p: "is_sock st p"
    and socks: "\<And>c. c \<in> set (al_ctxs A) \<Longrightarrow> p \<in> set (al_socks A c) \<Longrightarrow> sock_typed st' p"
    and listen: "\<And>c. c \<in> set (al_ctxs A) \<Longrightarrow> p \<notin> set (al_listen A c)"
    and low: "p \<in> set (al_low A) \<Longrightarrow> low_typed st' p"
  shows "us_inv A st'"
proof (rule us_invI)
  note f = poll_localD(1) [OF loc] and r = poll_localD(2) [OF loc] and other = poll_localD(3) [OF loc]
    and pe = poll_localD(4) [OF loc]
  note fd = poll_frameD [OF f]
  show "lists_inv A st'" using us_invD(1) [OF I] lists_inv_poll_frame [OF f] by simp
  have P: "polls_inv A st" using us_invD(2) [OF I] .
  show "polls_inv A st'"
    using P
  proof (rule polls_inv_step [where X = "{p}"])
    show "ready_ok st'" using us_invD(3) [OF I] r fd pe by (simp add: ready_ok_def)
    fix q assume q: "q \<in> fst ` set (pending st')" "q \<noteq> NULL"
    then have "open_poll A st q" using polls_invD(5) [OF P] pe by simp
    moreover have "\<not> cb_typed st p" using p by (auto simp: cb_typed_def is_cb_def is_sock_def)
    ultimately show "q \<notin> {p} \<and> cb_typed st q \<or> open_poll A st' q"
      unfolding open_poll_def by blast
  qed (use fd other socks listen low in auto)
qed

text \<open>Loop fields and the trace do not matter.\<close>

lemma inv_loop_fields [simp]:
  "us_inv A (st\<lparr>l_last_write_failed := b\<rparr>) = us_inv A st"
  "us_inv A (st\<lparr>l_low_prio_budget := i\<rparr>) = us_inv A st"
  "us_inv A (st\<lparr>trace := t\<rparr>) = us_inv A st"
  "us_inv A (st\<lparr>ext_sizes := x\<rparr>) = us_inv A st"
  "us_inv A (st\<lparr>u_ext := e\<rparr>) = us_inv A st"
  "us_inv A (st\<lparr>u_heap := hp\<rparr>) = us_inv A st"
  "us_inv A (st\<lparr>ssl_socks := x1\<rparr>) = us_inv A st"
  "us_inv A (st\<lparr>ssl_ctxs := x2\<rparr>) = us_inv A st"
  "us_inv A (st\<lparr>l_ssl_data := x3\<rparr>) = us_inv A st"
  "us_inv A (st\<lparr>num_polls := i\<rparr>) = us_inv A st"
  "us_inv A (st\<lparr>l_iteration_nr := n\<rparr>) = us_inv A st"
  "us_inv A (emit ev st) = us_inv A st"
  "lists_inv A (emit ev st) = lists_inv A st"
  by (simp_all add: us_inv_def lists_inv_def ctx_inv_def low_inv_def closed_inv_def polls_inv_def
      sock_typed_def listen_typed_def low_typed_def established_def type3_def events3_def
      open_poll_def cb_typed_def ready_ok_def pending_def emit_def)

lemma sweep_rest_emit [simp]: "sweep_rest A (emit e st) c = sweep_rest A st c"
  by (auto simp: sweep_rest_def)

lemma grows_emit [simp]: "grows A st A' st' \<Longrightarrow> grows A st A' (emit e st')"
  by (simp add: grows_def sweep_ok_def)

lemma grows_from_emit: "grows A (emit e st) A' st' \<Longrightarrow> grows A st A' st'"
  unfolding grows_def sweep_ok_def by (simp, blast dest: append_prefixD)

lemma grows_loop_fields [simp]:
  "grows A st A' (st'\<lparr>l_last_write_failed := b\<rparr>) = grows A st A' st'"
  "grows A st A' (st'\<lparr>l_low_prio_budget := i\<rparr>) = grows A st A' st'"
  "grows A st A' (st'\<lparr>ext_sizes := x\<rparr>) = grows A st A' st'"
  "grows A st A' (st'\<lparr>u_ext := e\<rparr>) = grows A st A' st'"
  "grows A st A' (st'\<lparr>u_heap := hp\<rparr>) = grows A st A' st'"
  "grows A st A' (st'\<lparr>ssl_socks := x1\<rparr>) = grows A st A' st'"
  "grows A st A' (st'\<lparr>ssl_ctxs := x2\<rparr>) = grows A st A' st'"
  "grows A st A' (st'\<lparr>l_ssl_data := x3\<rparr>) = grows A st A' st'"
  "grows A (st\<lparr>ssl_socks := x1\<rparr>) A' st' = grows A st A' st'"
  "grows A (st\<lparr>ssl_ctxs := x2\<rparr>) A' st' = grows A st A' st'"
  "grows A (st\<lparr>l_ssl_data := x3\<rparr>) A' st' = grows A st A' st'"
  "grows A st A' (st'\<lparr>num_polls := i\<rparr>) = grows A st A' st'"
  "grows A st A' (st'\<lparr>l_iteration_nr := n\<rparr>) = grows A st A' st'"
  by (simp_all add: grows_def sweep_ok_def sweep_rest_def)

section \<open>The handlers of a context\<close>

definition c_handlers :: "us_socket_context_t \<Rightarrow> fnptr list" where
  "c_handlers C = [c_on_pre_open C, c_on_open C, c_on_data C, c_on_writable C, c_on_close C,
     c_on_socket_timeout C, c_on_socket_long_timeout C, c_on_end C, c_on_connect_error C,
     c_is_low_prio C]"

lemma c_handlersD:
  assumes "c_handlers C' = c_handlers C"
  shows "c_on_pre_open C' = c_on_pre_open C" "c_on_open C' = c_on_open C" "c_on_data C' = c_on_data C"
    "c_on_writable C' = c_on_writable C" "c_on_close C' = c_on_close C"
    "c_on_socket_timeout C' = c_on_socket_timeout C"
    "c_on_socket_long_timeout C' = c_on_socket_long_timeout C" "c_on_end C' = c_on_end C"
    "c_on_connect_error C' = c_on_connect_error C" "c_is_low_prio C' = c_is_low_prio C"
  using assms by (simp_all add: c_handlers_def)

section \<open>Where an open socket is\<close>

definition open_sock :: "alists \<Rightarrow> addr \<Rightarrow> bool" where
  "open_sock A s \<longleftrightarrow> (\<exists>c\<in>set (al_ctxs A). s \<in> set (al_socks A c))"

lemma open_sockD:
  assumes "lists_inv A st" and "open_sock A s"
  shows "is_sock st s" "s_context (socks st s) \<in> set (al_ctxs A)"
    "s \<in> set (al_socks A (s_context (socks st s)))" "is_ctx st (s_context (socks st s))"
    "s_low_prio_state (socks st s) \<noteq> 1" "s_prev (socks st s) \<noteq> s_context (socks st s)"
    "s \<notin> set (al_low A)" "s \<notin> set (al_closed A)" "c \<in> set (al_ctxs A) \<Longrightarrow> s \<notin> set (al_listen A c)"
    "objs st s = Some KSocket"
proof -
  from assms(2) obtain c where c: "c \<in> set (al_ctxs A)" "s \<in> set (al_socks A c)"
    by (auto simp: open_sock_def)
  note l = lists_inv_socks [OF assms(1) c] lists_disjoint(1,4) [OF assms(1) c]
    lists_inv_ctx [OF assms(1) c(1)] open_prev_neq_context(1) [OF assms(1) c]
  show "is_sock st s" "s_context (socks st s) \<in> set (al_ctxs A)"
    "s \<in> set (al_socks A (s_context (socks st s)))" "is_ctx st (s_context (socks st s))"
    "s_low_prio_state (socks st s) \<noteq> 1" "s_prev (socks st s) \<noteq> s_context (socks st s)"
    "s \<notin> set (al_low A)" "s \<notin> set (al_closed A)" "objs st s = Some KSocket"
    using l c by auto
  show "c \<in> set (al_ctxs A) \<Longrightarrow> s \<notin> set (al_listen A c)" for c
    using lists_disjoint(6) [OF assms(1) c(1) _ c(2)] .
qed

lemma lowD:
  assumes "lists_inv A st" and "s \<in> set (al_low A)"
  shows "is_sock st s" "s_context (socks st s) \<in> set (al_ctxs A)" "is_ctx st (s_context (socks st s))"
    "s_low_prio_state (socks st s) = 1" "s_prev (socks st s) \<noteq> s_context (socks st s)"
    "\<not> open_sock A s" "s \<notin> set (al_closed A)" "c \<in> set (al_ctxs A) \<Longrightarrow> s \<notin> set (al_listen A c)"
    "objs st s = Some KSocket"
proof -
  note l = lists_inv_low [OF assms] open_prev_neq_context(3) [OF assms] lists_disjoint(3) [OF assms]
  show "is_sock st s" "s_context (socks st s) \<in> set (al_ctxs A)" "is_ctx st (s_context (socks st s))"
    "s_low_prio_state (socks st s) = 1" "s_prev (socks st s) \<noteq> s_context (socks st s)"
    "s \<notin> set (al_closed A)" "objs st s = Some KSocket" using l by auto
  show "\<not> open_sock A s" using lists_disjoint(4) [OF assms(1)] assms(2) by (auto simp: open_sock_def)
  show "c \<in> set (al_ctxs A) \<Longrightarrow> s \<notin> set (al_listen A c)" for c
    using lists_disjoint(5) [OF assms(1), of c s] assms(2) by blast
qed

text \<open>A socket the user may hold a pointer to and use: open, queued or not.\<close>

definition live_sock :: "alists \<Rightarrow> addr \<Rightarrow> bool" where
  "live_sock A s \<longleftrightarrow> open_sock A s \<or> s \<in> set (al_low A)"

lemma live_sockD:
  assumes "lists_inv A st" and "live_sock A s"
  shows "is_sock st s" "s_context (socks st s) \<in> set (al_ctxs A)" "is_ctx st (s_context (socks st s))"
    "s_prev (socks st s) \<noteq> s_context (socks st s)" "s \<notin> set (al_closed A)"
    "c \<in> set (al_ctxs A) \<Longrightarrow> s \<notin> set (al_listen A c)" "s \<noteq> NULL"
proof -
  show "is_sock st s" "s_context (socks st s) \<in> set (al_ctxs A)" "is_ctx st (s_context (socks st s))"
    "s_prev (socks st s) \<noteq> s_context (socks st s)" "s \<notin> set (al_closed A)"
    "c \<in> set (al_ctxs A) \<Longrightarrow> s \<notin> set (al_listen A c)"
    using assms open_sockD [OF assms(1), of s] lowD [OF assms(1), of s]
    unfolding live_sock_def by blast+
  then show "s \<noteq> NULL" by (auto simp: is_sock_def)
qed

lemma poll_events_eq [simp]:
  "is_poll st p \<Longrightarrow> us_poll_events p st = Some (events3 st p)"
  "is_poll st p \<Longrightarrow> us_internal_poll_type p st = Some (type3 st p)"
  by (simp_all add: us_poll_events_def us_internal_poll_type_def events3_def type3_def)

lemma events3_mask [simp]: "events3 st p AND poll_mask = events3 st p"
  by (simp add: events3_def)

text \<open>Changing what an established socket polls for; a queued one must not poll for reading.\<close>

lemma local_change_ok:
  assumes I: "us_inv A st" and s: "live_sock A s" and loc: "poll_local s st st'"
    and e: "established st' s" and low: "s \<in> set (al_low A) \<Longrightarrow> events3 st' s AND LIBUS_SOCKET_READABLE = 0"
  shows "evolves A st A st'"
proof -
  have "us_inv A st'"
    using I loc live_sockD(1) [OF us_invD(1) [OF I] s]
    by (rule us_inv_poll_upd)
      (use e low live_sockD(6) [OF us_invD(1) [OF I] s] in \<open>auto simp: sock_typed_def low_typed_def\<close>)
  then show ?thesis
    using poll_frame_grows [OF poll_localD(1) [OF loc]] by (simp add: evolves_def)
qed

lemma poll_local_access:
  assumes "poll_local p st st'"
  shows "is_poll st' a = is_poll st a" "is_sock st' a = is_sock st a" "is_ctx st' a = is_ctx st a"
  using poll_frameD(1) [OF poll_localD(1) [OF assms]] access_cong [of st' a st] by simp_all

lemma sock_change_ok:
  assumes I: "us_inv A st" and s: "live_sock A s" and e: "established st s"
    and ev: "ev AND poll_mask = ev" and low: "s \<in> set (al_low A) \<Longrightarrow> ev AND LIBUS_SOCKET_READABLE = 0"
  shows "\<exists>st'. us_poll_change s ev st = Some st' \<and> poll_local s st st' \<and> evolves A st A st' \<and>
    events3 st' s = ev \<and> type3 st' s = type3 st s"
proof -
  have p: "is_poll st s" using live_sockD(1) [OF us_invD(1) [OF I] s] by simp
  from epoll.change_ok [OF p ev] obtain st' where
    1: "us_poll_change s ev st = Some st'" "poll_local s st st'"
    "us_poll_events s st' = Some ev" "us_internal_poll_type s st' = us_internal_poll_type s st" by blast
  have t: "events3 st' s = ev" "type3 st' s = type3 st s"
    using 1(3,4) p poll_local_access(1) [OF 1(2)] by simp_all
  have "evolves A st A st'"
    using I s 1(2) by (rule local_change_ok) (use t e low in \<open>simp_all add: established_def\<close>)
  with 1 t show ?thesis by blast
qed

text \<open>Half closing.\<close>

lemma sock_shut_ok:
  assumes I: "us_inv A st" and s: "live_sock A s"
  shows "\<exists>st1 st'. us_internal_poll_set_type s POLL_TYPE_SOCKET_SHUT_DOWN st = Some st1 \<and>
    events3 st1 s = events3 st s \<and> poll_local s st st1 \<and>
    us_poll_change s (events3 st s AND LIBUS_SOCKET_READABLE) st1 = Some st' \<and>
    poll_local s st st' \<and> evolves A st A st' \<and>
    events3 st' s = events3 st s AND LIBUS_SOCKET_READABLE \<and> type3 st' s = POLL_TYPE_SOCKET_SHUT_DOWN"
proof -
  have p: "is_poll st s" using live_sockD(1) [OF us_invD(1) [OF I] s] by simp
  from epoll.set_type_restrict_ok [OF p poll_types_and3(2), of "events3 st s" LIBUS_SOCKET_READABLE] p
  obtain st1 st' where 1: "us_internal_poll_set_type s POLL_TYPE_SOCKET_SHUT_DOWN st = Some st1"
    "us_poll_change s (events3 st s AND LIBUS_SOCKET_READABLE) st1 = Some st'"
    "poll_local s st st1" "poll_local s st st'"
    "us_poll_events s st1 = Some (events3 st s)"
    "us_poll_events s st' = Some (events3 st s AND LIBUS_SOCKET_READABLE)"
    "us_internal_poll_type s st' = Some POLL_TYPE_SOCKET_SHUT_DOWN" by auto
  have t: "events3 st1 s = events3 st s" "events3 st' s = events3 st s AND LIBUS_SOCKET_READABLE"
    "type3 st' s = POLL_TYPE_SOCKET_SHUT_DOWN"
    using 1(5-7) p poll_local_access(1) [OF 1(3)] poll_local_access(1) [OF 1(4)] by simp_all
  have "evolves A st A st'"
    using I s 1(4)
  proof (rule local_change_ok)
    show "established st' s" using t by (simp add: established_def)
    assume "s \<in> set (al_low A)"
    then have "events3 st s AND LIBUS_SOCKET_READABLE = 0"
      using polls_invD(3) [OF us_invD(2) [OF I]] by (simp add: low_typed_def)
    then show "events3 st' s AND LIBUS_SOCKET_READABLE = 0" using t by simp
  qed
  with 1 t show ?thesis by blast
qed

lemma closed_not_open_poll:
  assumes L: "lists_inv A st" and s: "s \<in> set (al_closed A)"
  shows "\<not> open_poll A st s"
proof -
  have "\<not> cb_typed st s"
    using lists_inv_closed(1) [OF L s] by (auto simp: cb_typed_def is_cb_def is_sock_def)
  then show ?thesis
    using lists_disjoint(1-3) [OF L] s unfolding open_poll_def by blast
qed

section \<open>New blocks, and linking a socket that is in no list\<close>

definition new_block :: "addr \<Rightarrow> us \<Rightarrow> us \<Rightarrow> bool" where
  "new_block b st st' \<longleftrightarrow>
     (\<forall>a. a \<noteq> b \<longrightarrow> objs st' a = objs st a \<and> socks st' a = socks st a \<and> ctxs st' a = ctxs st a \<and>
        polls st' a = polls st a \<and> cbs st' a = cbs st a) \<and>
     l_head st' = l_head st \<and> l_low_prio_head st' = l_low_prio_head st \<and>
     l_closed_head st' = l_closed_head st \<and> l_iterator st' = l_iterator st \<and>
     ready_polls st' = ready_polls st \<and> current_ready_poll st' = current_ready_poll st \<and>
     num_ready_polls st' = num_ready_polls st \<and> l_pre_cb st' = l_pre_cb st \<and>
     l_post_cb st' = l_post_cb st \<and> prefix (trace st) (trace st')"

lemma fresh_block_ok:
  assumes I: "us_inv A st" and b: "objs st b = None" and n: "new_block b st st'"
  shows "evolves A st A st'" and "detached A b" and "b \<notin> set (al_ctxs A)"
proof -
  note L = us_invD(1) [OF I] and P = us_invD(2) [OF I]
  show det: "detached A b" and bc: "b \<notin> set (al_ctxs A)" using fresh_detached [OF L b] .
  have same: "a \<noteq> b \<Longrightarrow> objs st' a = objs st a \<and> socks st' a = socks st a \<and> ctxs st' a = ctxs st a \<and>
        polls st' a = polls st a \<and> cbs st' a = cbs st a" for a
    using n by (simp add: new_block_def)
  have fields: "l_head st' = l_head st" "l_low_prio_head st' = l_low_prio_head st"
     "l_closed_head st' = l_closed_head st" "l_iterator st' = l_iterator st"
     "ready_polls st' = ready_polls st" "current_ready_poll st' = current_ready_poll st"
     "num_ready_polls st' = num_ready_polls st" "prefix (trace st) (trace st')"
     "l_pre_cb st' = l_pre_cb st" "l_post_cb st' = l_post_cb st"
    using n by (simp_all add: new_block_def)
  have "lists_inv A st'"
    using L by (rule lists_inv_far [where X = "{b}"]) (use fields same det bc in auto)
  moreover have "polls_inv A st'"
    using P
  proof (rule polls_inv_step [where X = "{b}"])
    show "ready_ok st'" using us_invD(3) [OF I] fields by (simp add: ready_ok_def pending_def)
    fix p assume p: "p \<in> fst ` set (pending st')" "p \<noteq> NULL"
    then have o: "open_poll A st p" using polls_invD(5) [OF P] fields by (simp add: pending_def)
    have "\<not> cb_typed st b" using b by (simp add: cb_typed_def is_cb_def)
    with o show "p \<notin> {b} \<and> cb_typed st p \<or> open_poll A st' p" unfolding open_poll_def by blast
  next
    fix c s assume "c \<in> set (al_ctxs A)" "s \<in> set (al_socks A c)"
    then show "s \<notin> {b} \<and> (c \<in> set (al_ctxs A) \<and> s \<in> set (al_socks A c) \<or> sock_typed st s) \<or> sock_typed st' s"
      using det unfolding detached_def by blast
  next
    fix c s assume "c \<in> set (al_ctxs A)" "s \<in> set (al_listen A c)"
    then show "s \<notin> {b} \<and> c \<in> set (al_ctxs A) \<and> s \<in> set (al_listen A c) \<or> listen_typed st' s"
      using det unfolding detached_def by blast
  next
    fix s assume "s \<in> set (al_low A)"
    then show "s \<notin> {b} \<and> s \<in> set (al_low A) \<or> low_typed st' s"
      using det unfolding detached_def by blast
  qed (use same in blast)
  moreover have "grows A st A st'"
  proof (rule grows_same)
    fix c assume "c \<in> set (al_ctxs A)"
    then have "c \<noteq> b" using bc by blast
    then show "al_socks A c = al_socks A c \<and> c_iterator (ctxs st' c) = c_iterator (ctxs st c) \<or>
        sweep_ok A st A st' c" using same by simp
  qed (use fields in simp_all)
  ultimately show "evolves A st A st'" by (simp add: evolves_def us_invI)
qed

lemma link_new_ok:
  assumes I: "us_inv A st" and c: "c \<in> set (al_ctxs A)" and det: "detached A s"
    and s: "objs st s = Some KSocket" "s \<noteq> NULL" "s_low_prio_state (socks st s) \<noteq> 1" "sock_typed st s"
  shows "\<exists>st' S. us_internal_socket_context_link_socket c s st = Some st' \<and>
    evolves A st (add_sock c s A) st' \<and>
    st' = st\<lparr>socks := S, ctxs := (ctxs st)(c := (ctxs st c)\<lparr>c_head_sockets := s\<rparr>)\<rparr> \<and>
    same_core ((socks st)(s := (socks st s)\<lparr>s_context := c\<rparr>)) S"
proof -
  note L = us_invD(1) [OF I] and P = us_invD(2) [OF I]
  from link_socket_ok [OF L c s(1,2) det s(3)] obtain st' S where
    1: "us_internal_socket_context_link_socket c s st = Some st'" "lists_inv (add_sock c s A) st'"
    "same_core ((socks st)(s := (socks st s)\<lparr>s_context := c\<rparr>)) S" and
    st': "st' = st\<lparr>socks := S, ctxs := (ctxs st)(c := (ctxs st c)\<lparr>c_head_sockets := s\<rparr>)\<rparr>"
    by blast
  have "polls_inv (add_sock c s A) st'"
    using P
  proof (rule polls_inv_step [where X = "{}"])
    show "ready_ok st'" using us_invD(3) [OF I] st' by (simp add: ready_ok_def pending_def)
    fix p assume p: "p \<in> fst ` set (pending st')" "p \<noteq> NULL"
    then have "open_poll A st p" using polls_invD(5) [OF P] st' by (simp add: pending_def)
    then show "p \<notin> {} \<and> cb_typed st p \<or> open_poll (add_sock c s A) st' p"
      unfolding open_poll_def by auto
  qed (use st' s(4) in \<open>auto split: if_splits\<close>)
  moreover have "grows A st (add_sock c s A) st'"
  proof (rule grows_same)
    fix d assume d: "d \<in> set (al_ctxs A)"
    show "al_socks (add_sock c s A) d = al_socks A d \<and> c_iterator (ctxs st' d) = c_iterator (ctxs st d) \<or>
        sweep_ok A st (add_sock c s A) st' d"
    proof (cases "d = c")
      case True
      have "s \<noteq> c_iterator (ctxs st c)"
        using lists_invD(9) [OF L c] det c s(2) unfolding detached_def by auto
      then have "sweep_ok A st (add_sock c s A) st' c"
        using st' by (intro sweep_rest_push) auto
      then show ?thesis using True by simp
    qed (use st' in simp)
  qed (use st' in auto)
  ultimately show ?thesis using 1 st' us_invI unfolding evolves_def by blast
qed

lemma link_new_listen_ok:
  assumes I: "us_inv A st" and c: "c \<in> set (al_ctxs A)" and det: "detached A s"
    and s: "objs st s = Some KListen" "s \<noteq> NULL" "listen_typed st s"
  shows "\<exists>st' S. us_internal_socket_context_link_listen_socket c s st = Some st' \<and>
    evolves A st (add_listen c s A) st' \<and>
    st' = st\<lparr>socks := S, ctxs := (ctxs st)(c := (ctxs st c)\<lparr>c_head_listen_sockets := s\<rparr>)\<rparr> \<and>
    same_core ((socks st)(s := (socks st s)\<lparr>s_context := c\<rparr>)) S"
proof -
  note L = us_invD(1) [OF I] and P = us_invD(2) [OF I]
  from link_listen_ok [OF L c s(1,2) det] obtain st' S where
    1: "us_internal_socket_context_link_listen_socket c s st = Some st'" "lists_inv (add_listen c s A) st'"
    "same_core ((socks st)(s := (socks st s)\<lparr>s_context := c\<rparr>)) S" and
    st': "st' = st\<lparr>socks := S, ctxs := (ctxs st)(c := (ctxs st c)\<lparr>c_head_listen_sockets := s\<rparr>)\<rparr>"
    by blast
  have "polls_inv (add_listen c s A) st'"
    using P
  proof (rule polls_inv_step [where X = "{}"])
    show "ready_ok st'" using us_invD(3) [OF I] st' by (simp add: ready_ok_def pending_def)
    fix p assume p: "p \<in> fst ` set (pending st')" "p \<noteq> NULL"
    then have "open_poll A st p" using polls_invD(5) [OF P] st' by (simp add: pending_def)
    then show "p \<notin> {} \<and> cb_typed st p \<or> open_poll (add_listen c s A) st' p"
      unfolding open_poll_def by auto
  next
    fix d l assume dl: "d \<in> set (al_ctxs (add_listen c s A))" "l \<in> set (al_listen (add_listen c s A) d)"
    have "listen_typed st' s" using s(3) typed_cong(2) [of st' s st] st' by simp
    then show "l \<notin> {} \<and> d \<in> set (al_ctxs A) \<and> l \<in> set (al_listen A d) \<or> listen_typed st' l"
      using dl by (auto split: if_splits)
  qed (use st' in auto)
  moreover have "grows A st (add_listen c s A) st'"
  proof -
    have "sweep_ok A st (add_listen c s A) st' d" for d
      by (rule sweep_ok_same) (use st' in auto)
    then show ?thesis using st' unfolding grows_def by auto
  qed
  ultimately show ?thesis using 1 st' us_invI unfolding evolves_def by blast
qed

end
