(* ===== verification/Us_Socket.thy ===== *)
theory Us_Socket
  imports Us_Frame
begin

unbundle bit_operations_syntax

text \<open>
  The sockets, \<open>src/socket.c\<close> (the path of a plain TCP socket, \<open>ssl = 0\<close>): timeouts, closing,
  writing and half closing. A close takes the socket out of the list it is in, its context's
  or the low-priority queue, stops its poll, closes its descriptor and puts it on the close
  list, where it stays allocated until the end of the loop iteration; only then is
  \<open>on_close\<close> called.
\<close>

section \<open>Reading a socket\<close>

text \<open>The expression \<open>s->context->loop\<close>: both pointers are followed.\<close>

definition socket_loop :: "addr \<Rightarrow> us \<Rightarrow> unit option" where
  "socket_loop s st = do {
     k \<leftarrow> rd_sock s st;
     _ \<leftarrow> rd_ctx (s_context k) st;
     Some ()
   }"

definition us_socket_context :: "addr \<Rightarrow> us \<Rightarrow> addr option" where
  "us_socket_context s st = map_option s_context (rd_sock s st)"

definition us_socket_is_closed :: "addr \<Rightarrow> us \<Rightarrow> bool option" where
  "us_socket_is_closed s st = map_option (\<lambda>k. s_prev k = s_context k) (rd_sock s st)"

definition us_socket_is_established :: "addr \<Rightarrow> us \<Rightarrow> bool option" where
  "us_socket_is_established s st =
     map_option (\<lambda>ty. ty \<noteq> POLL_TYPE_SEMI_SOCKET) (us_internal_poll_type s st)"

definition us_socket_is_shut_down :: "addr \<Rightarrow> us \<Rightarrow> bool option" where
  "us_socket_is_shut_down s st =
     map_option (\<lambda>ty. ty = POLL_TYPE_SOCKET_SHUT_DOWN) (us_internal_poll_type s st)"

definition us_socket_local_port :: "kernel \<Rightarrow> addr \<Rightarrow> us \<Rightarrow> int option" where
  "us_socket_local_port K s st = do {
     fd \<leftarrow> us_poll_fd s st;
     Some (case k_local_addr K st fd of None \<Rightarrow> -1 | Some (port, _) \<Rightarrow> uint port)
   }"

definition us_socket_remote_port :: "kernel \<Rightarrow> addr \<Rightarrow> us \<Rightarrow> int option" where
  "us_socket_remote_port K s st = do {
     fd \<leftarrow> us_poll_fd s st;
     Some (case k_remote_addr K st fd of None \<Rightarrow> -1 | Some (port, _) \<Rightarrow> uint port)
   }"

text \<open>The caller's buffer and length before and after.\<close>

definition us_socket_remote_address ::
  "kernel \<Rightarrow> addr \<Rightarrow> byte list \<Rightarrow> int \<Rightarrow> us \<Rightarrow> (byte list \<times> int) option" where
  "us_socket_remote_address K s buf len st = do {
     fd \<leftarrow> us_poll_fd s st;
     Some (case k_remote_addr K st fd of
         None \<Rightarrow> (buf, 0)
       | Some (_, ip) \<Rightarrow> if len < int (length ip) then (buf, 0)
           else (ip @ drop (length ip) buf, int (length ip)))
   }"

definition us_socket_get_native_handle :: "addr \<Rightarrow> us \<Rightarrow> int option" where
  "us_socket_get_native_handle s st = us_poll_fd s st"

section \<open>Timeouts\<close>

definition us_socket_timeout :: "addr \<Rightarrow> u32 \<Rightarrow> us \<Rightarrow> us option" where
  "us_socket_timeout s seconds st =
     (if seconds \<noteq> 0 then do {
        k \<leftarrow> rd_sock s st;
        c \<leftarrow> rd_ctx (s_context k) st;
        wr_sock s (\<lambda>k. k\<lparr>s_timeout :=
          ucast ((ucast (c_timestamp c) + drop_bit 2 (seconds + 3)) mod 240 :: u32)\<rparr>) st
      } else wr_sock s (\<lambda>k. k\<lparr>s_timeout := 255\<rparr>) st)"

definition us_socket_long_timeout :: "addr \<Rightarrow> u32 \<Rightarrow> us \<Rightarrow> us option" where
  "us_socket_long_timeout s minutes st =
     (if minutes \<noteq> 0 then do {
        k \<leftarrow> rd_sock s st;
        c \<leftarrow> rd_ctx (s_context k) st;
        wr_sock s (\<lambda>k. k\<lparr>s_long_timeout :=
          ucast ((ucast (c_long_timestamp c) + minutes) mod 240 :: u32)\<rparr>) st
      } else wr_sock s (\<lambda>k. k\<lparr>s_long_timeout := 255\<rparr>) st)"

section \<open>Closing\<close>

text \<open>
  What every close does after the socket has left its list: stop the poll, close the
  descriptor, link the socket to the close list, mark it as closed.
\<close>

definition stop_and_link_closed :: "addr \<Rightarrow> us \<Rightarrow> us option" where
  "stop_and_link_closed s st = do {
     _ \<leftarrow> socket_loop s st;
     st \<leftarrow> us_poll_stop s st;
     fd \<leftarrow> us_poll_fd s st;
     let st = emit (Close fd) st;
     st \<leftarrow> wr_sock s (\<lambda>k. k\<lparr>s_next := l_closed_head st\<rparr>) st;
     let st = st\<lparr>l_closed_head := s\<rparr>;
     wr_sock s (\<lambda>k. k\<lparr>s_prev := s_context k\<rparr>) st
   }"

definition us_socket_close_connecting :: "addr \<Rightarrow> us \<Rightarrow> (addr \<times> us) option" where
  "us_socket_close_connecting s st = do {
     closed \<leftarrow> us_socket_is_closed s st;
     if \<not> closed then do {
       k \<leftarrow> rd_sock s st;
       st \<leftarrow> us_internal_socket_context_unlink_socket (s_context k) s st;
       st \<leftarrow> stop_and_link_closed s st;
       Some (s, st)
     } else Some (s, st)
   }"

text \<open>Calling a handler that was never set jumps to a null or garbage pointer.\<close>

definition call_close :: "handlers \<Rightarrow> fnptr \<Rightarrow> addr \<Rightarrow> int \<Rightarrow> addr \<Rightarrow> us \<Rightarrow> (addr \<times> us) option" where
  "call_close H f s code reason st =
     (if f = FnNull then None else h_close H f s code reason (emit (OnClose s code reason) st))"

definition us_socket_close :: "handlers \<Rightarrow> addr \<Rightarrow> int \<Rightarrow> addr \<Rightarrow> us \<Rightarrow> (addr \<times> us) option" where
  "us_socket_close H s code reason st = do {
     closed \<leftarrow> us_socket_is_closed s st;
     if \<not> closed then do {
       k \<leftarrow> rd_sock s st;
       st \<leftarrow> (if s_low_prio_state k = 1 then do {
           st \<leftarrow> (if s_prev k = NULL then do {
                 _ \<leftarrow> socket_loop s st;
                 Some (st\<lparr>l_low_prio_head := s_next k\<rparr>) }
               else wr_sock (s_prev k) (\<lambda>p. p\<lparr>s_next := s_next k\<rparr>) st);
           st \<leftarrow> (if s_next k \<noteq> NULL
               then wr_sock (s_next k) (\<lambda>n. n\<lparr>s_prev := s_prev k\<rparr>) st else Some st);
           wr_sock s (\<lambda>k. k\<lparr>s_prev := NULL, s_next := NULL, s_low_prio_state := 0\<rparr>) st }
         else us_internal_socket_context_unlink_socket (s_context k) s st);
       st \<leftarrow> stop_and_link_closed s st;
       k \<leftarrow> rd_sock s st;
       c \<leftarrow> rd_ctx (s_context k) st;
       call_close H (c_on_close c) s code reason st
     } else Some (s, st)
   }"

section \<open>Writing and half closing\<close>

definition us_socket_write2 :: "kernel \<Rightarrow> addr \<Rightarrow> byte list \<Rightarrow> byte list \<Rightarrow> us \<Rightarrow> (int \<times> us) option" where
  "us_socket_write2 K s header payload st = do {
     closed \<leftarrow> us_socket_is_closed s st;
     shut \<leftarrow> us_socket_is_shut_down s st;
     if closed \<or> shut then Some (0, st) else do {
       fd \<leftarrow> us_poll_fd s st;
       let st = emit (Writev fd header payload) st;
       let written = k_io K st;
       st \<leftarrow> (if written \<noteq> int (length header + length payload) then do {
             _ \<leftarrow> socket_loop s st;
             us_poll_change s (LIBUS_SOCKET_READABLE OR LIBUS_SOCKET_WRITABLE) st }
           else Some st);
       Some (if written < 0 then 0 else written, st)
     }
   }"

definition us_socket_write :: "kernel \<Rightarrow> addr \<Rightarrow> byte list \<Rightarrow> bool \<Rightarrow> us \<Rightarrow> (int \<times> us) option" where
  "us_socket_write K s data msg_more st = do {
     closed \<leftarrow> us_socket_is_closed s st;
     shut \<leftarrow> us_socket_is_shut_down s st;
     if closed \<or> shut then Some (0, st) else do {
       fd \<leftarrow> us_poll_fd s st;
       let st = emit (Send fd data msg_more) st;
       let written = k_io K st;
       st \<leftarrow> (if written \<noteq> int (length data) then do {
             _ \<leftarrow> socket_loop s st;
             us_poll_change s (LIBUS_SOCKET_READABLE OR LIBUS_SOCKET_WRITABLE)
               (st\<lparr>l_last_write_failed := True\<rparr>) }
           else Some st);
       Some (if written < 0 then 0 else written, st)
     }
   }"

definition us_socket_flush :: "addr \<Rightarrow> us \<Rightarrow> us option" where
  "us_socket_flush s st = do {
     shut \<leftarrow> us_socket_is_shut_down s st;
     if \<not> shut then do {
       fd \<leftarrow> us_poll_fd s st;
       Some (emit (Uncork fd) st)
     } else Some st
   }"

definition us_socket_shutdown :: "addr \<Rightarrow> us \<Rightarrow> us option" where
  "us_socket_shutdown s st = do {
     closed \<leftarrow> us_socket_is_closed s st;
     shut \<leftarrow> us_socket_is_shut_down s st;
     if \<not> closed \<and> \<not> shut then do {
       st \<leftarrow> us_internal_poll_set_type s POLL_TYPE_SOCKET_SHUT_DOWN st;
       _ \<leftarrow> socket_loop s st;
       ev \<leftarrow> us_poll_events s st;
       st \<leftarrow> us_poll_change s (ev AND LIBUS_SOCKET_READABLE) st;
       fd \<leftarrow> us_poll_fd s st;
       Some (emit (Shutdown fd) st)
     } else Some st
   }"

definition us_socket_shutdown_read :: "addr \<Rightarrow> us \<Rightarrow> us option" where
  "us_socket_shutdown_read s st = do {
     fd \<leftarrow> us_poll_fd s st;
     Some (emit (ShutdownRead fd) st)
   }"

section \<open>Closing is defined and moves the socket to the close list\<close>

lemma socket_loop_eq [simp]:
  "is_sock st s \<Longrightarrow> is_ctx st (s_context (socks st s)) \<Longrightarrow> socket_loop s st = Some ()"
  by (simp add: socket_loop_def)

lemma is_closed_eq [simp]:
  "is_sock st s \<Longrightarrow> us_socket_is_closed s st = Some (s_prev (socks st s) = s_context (socks st s))"
  by (simp add: us_socket_is_closed_def)

lemma is_shut_down_eq:
  "is_sock st s \<Longrightarrow> us_socket_is_shut_down s st = Some (type3 st s = POLL_TYPE_SOCKET_SHUT_DOWN)"
  by (simp add: us_socket_is_shut_down_def us_internal_poll_type_def type3_def)

definition fd_of :: "us \<Rightarrow> addr \<Rightarrow> int" where
  "fd_of st p = sint (p_fd (polls st p))"

lemma stop_and_link_closed_eq:
  assumes "is_sock st s" and "is_ctx st (s_context (socks st s))"
  shows "stop_and_link_closed s st = Some (st\<lparr>
       ready_polls := ready_polls (us_internal_loop_update_pending_ready_polls s NULL st),
       trace := trace st @ [EpollCtlDel (fd_of st s), Close (fd_of st s)],
       socks := (socks st)(s := (socks st s)\<lparr>s_next := l_closed_head st,
         s_prev := s_context (socks st s)\<rparr>),
       l_closed_head := s\<rparr>)"
  using assms
  by (simp add: stop_and_link_closed_def us_poll_stop_eq us_poll_fd_def fd_of_def
      us_internal_loop_update_pending_ready_polls_def emit_def us.equality)

lemma stop_and_link_closed_ok:
  assumes I: "lists_inv A st" and det: "detached A s" and s: "is_sock st s"
    and c: "is_ctx st (s_context (socks st s))" and r: "ready_ok st"
  shows "\<exists>st'. stop_and_link_closed s st = Some st' \<and> lists_inv (add_closed s A) st' \<and>
    ready_ok st' \<and> pending st' = replace_first s NULL (pending st) \<and>
    (\<exists>rs. st' = st\<lparr>ready_polls := rs, trace := trace st @ [EpollCtlDel (fd_of st s), Close (fd_of st s)],
       socks := (socks st)(s := (socks st s)\<lparr>s_next := l_closed_head st,
         s_prev := s_context (socks st s)\<rparr>), l_closed_head := s\<rparr>)"
proof -
  let ?t = "trace st @ [EpollCtlDel (fd_of st s), Close (fd_of st s)]"
  let ?u = "us_internal_loop_update_pending_ready_polls s NULL st"
  let ?k = "(socks st s)\<lparr>s_next := l_closed_head st, s_prev := s_context (socks st s)\<rparr>"
  let ?f = "st\<lparr>ready_polls := ready_polls ?u, trace := ?t\<rparr>"
  let ?st = "st\<lparr>ready_polls := ready_polls ?u, trace := ?t, socks := (socks st)(s := ?k),
      l_closed_head := s\<rparr>"
  have s0: "s \<noteq> NULL" using s by (auto simp: is_sock_def)
  have ru: "ready_ok ?u" "pending ?u = replace_first s NULL (pending st)"
    using update_pending_ready_ok [OF r s0] update_pending_pending [OF r] by simp_all
  have "poll_frame st ?f"
    by (rule poll_frameI [where ps = "polls st" and rs = "ready_polls ?u"
          and tr = "[EpollCtlDel (fd_of st s), Close (fd_of st s)]"]) simp
  then have "lists_inv A ?f" using I lists_inv_poll_frame by blast
  then have "lists_inv (add_closed s A) ?st"
    using closed_push_ok [of A ?f s ?k] det s by simp
  moreover have "ready_ok ?st" "pending ?st = replace_first s NULL (pending st)"
    using ru by (simp_all add: ready_ok_def pending_def)
  ultimately show ?thesis
    using stop_and_link_closed_eq [OF s c] by blast
qed

text \<open>The lists after a close: the socket is in none but the close list.\<close>

definition abs_close :: "addr \<Rightarrow> addr \<Rightarrow> alists \<Rightarrow> alists" where
  "abs_close c s A = add_closed s (del_low s (del_sock c s A))"

lemma abs_close_simps [simp]:
  "al_ctxs (abs_close c s A) = al_ctxs A" "al_listen (abs_close c s A) = al_listen A"
  "al_low (abs_close c s A) = remove1 s (al_low A)"
  "al_closed (abs_close c s A) = s # al_closed A"
  "al_socks (abs_close c s A) d = (if d = c then remove1 s (al_socks A c) else al_socks A d)"
  by (simp_all add: abs_close_def)

lemma alists_remove_id:
  "s \<notin> set (al_low A) \<Longrightarrow> del_low s A = A"
  "s \<notin> set (al_socks A c) \<Longrightarrow> del_sock c s A = A"
  by (simp_all add: del_low_def del_sock_def remove1_idem)

lemma polls_inv_closed:
  assumes P: "polls_inv A st" and L: "lists_inv A st"
    and same: "polls st' = polls st" "cbs st' = cbs st" "objs st' = objs st"
    and r: "ready_ok st'" and pe: "pending st' = replace_first s NULL (pending st)" and s: "is_sock st s"
  shows "polls_inv (abs_close c s A) st'"
  using P
proof (rule polls_inv_step [where X = "{}"])
  fix p assume p: "p \<in> fst ` set (pending st')" "p \<noteq> NULL"
  have s0: "s \<noteq> NULL" using s by (auto simp: is_sock_def)
  have dis: "distinct (filter (\<lambda>p. p \<noteq> NULL) (map fst (pending st)))"
    using polls_invD(4) [OF P] by (simp add: ready_ok_def)
  have p': "p \<in> fst ` set (pending st)" "p \<noteq> s"
    using p pe replace_first_set [OF dis s0, of NULL] replace_first_notin [OF dis s0]
    by (auto split: if_splits)
  have "open_poll A st p" using polls_invD(5) [OF P p'(1) p(2)] .
  then show "p \<notin> {} \<and> cb_typed st p \<or> open_poll (abs_close c s A) st' p"
    using p'(2) unfolding open_poll_def by auto
qed (use r same in \<open>auto split: if_splits dest: notin_set_remove1 set_remove1_subset [THEN subsetD]\<close>)

text \<open>
  What a close leaves behind, apart from the lists: the socket is marked closed and keeps its
  context and its timeouts, the two system calls were made, the handlers are the same.
\<close>

definition close_effect :: "addr \<Rightarrow> us \<Rightarrow> us \<Rightarrow> bool" where
  "close_effect s st st' \<longleftrightarrow>
     s_context (socks st' s) = s_context (socks st s) \<and>
     s_prev (socks st' s) = s_context (socks st s) \<and>
     l_closed_head st' = s \<and> objs st' = objs st \<and> polls st' = polls st \<and>
     ssl_socks st' = ssl_socks st \<and> ssl_ctxs st' = ssl_ctxs st \<and> u_ext st' = u_ext st \<and> u_heap st' = u_heap st \<and>
     trace st' = trace st @ [EpollCtlDel (fd_of st s), Close (fd_of st s)] \<and>
     (\<forall>c. c_handlers (ctxs st' c) = c_handlers (ctxs st c))"

lemma close_effect_handlers:
  "close_effect s st st' \<Longrightarrow> c_on_close (ctxs st' c) = c_on_close (ctxs st c)"
  by (rule c_handlersD(5)) (simp add: close_effect_def)

lemma unlink_close_ok:
  assumes I: "us_inv A st" and c: "c \<in> set (al_ctxs A)" and s: "s \<in> set (al_socks A c)"
  shows "\<exists>st1 st2. us_internal_socket_context_unlink_socket c s st = Some st1 \<and>
    stop_and_link_closed s st1 = Some st2 \<and> evolves A st (abs_close c s A) st2 \<and>
    close_effect s st st2"
proof -
  note L = us_invD(1) [OF I] and P = us_invD(2) [OF I]
  have sk: "is_sock st s" "s_context (socks st s) = c" using lists_inv_socks [OF L c s] by auto
  have low: "s \<notin> set (al_low A)" using lists_disjoint(4) [OF L c s] .
  from unlink_socket_ok [OF L c s] obtain st1 S C h where
    1: "us_internal_socket_context_unlink_socket c s st = Some st1" "lists_inv (del_sock c s A) st1"
      "detached (del_sock c s A) s" and
    st1: "st1 = st\<lparr>socks := S, ctxs := (ctxs st)(c := C)\<rparr>" and S: "S s = socks st s" and
    C: "C = (fix_iter s (s_next (socks st s)) (ctxs st c))\<lparr>c_head_sockets := h\<rparr>"
    by blast
  have k1: "is_sock st1 s" "is_ctx st1 (s_context (socks st1 s))" "ready_ok st1" "pending st1 = pending st"
    "fd_of st1 s = fd_of st s"
    using sk S lists_inv_ctx [OF L c] us_invD(3) [OF I] st1 by (simp_all add: ready_ok_def pending_def fd_of_def)
  from stop_and_link_closed_ok [OF 1(2,3) k1(1,2,3)] obtain st2 rs where
    2: "stop_and_link_closed s st1 = Some st2" "lists_inv (add_closed s (del_sock c s A)) st2"
      "ready_ok st2" "pending st2 = replace_first s NULL (pending st)" and
    st2: "st2 = st1\<lparr>ready_polls := rs, trace := trace st1 @ [EpollCtlDel (fd_of st1 s), Close (fd_of st1 s)],
       socks := (socks st1)(s := (socks st1 s)\<lparr>s_next := l_closed_head st1,
         s_prev := s_context (socks st1 s)\<rparr>), l_closed_head := s\<rparr>"
    using k1(4) by auto
  have A': "abs_close c s A = add_closed s (del_sock c s A)"
    using alists_remove_id(1) [of s "del_sock c s A"] low by (simp add: abs_close_def)
  have "polls_inv (abs_close c s A) st2"
    using polls_inv_closed [OF P L _ _ _ 2(3,4) sk(1)] st1 st2 by simp
  then have inv: "us_inv (abs_close c s A) st2" using 2(2) A' us_invI by metis
  have eff: "close_effect s st st2"
    using st1 st2 S k1(5) by (simp add: close_effect_def C fix_iter_def c_handlers_def)
  have sw: "sweep_ok A st (abs_close c s A) st2 c"
  proof (rule sweep_rest_remove [OF lists_invD(5) [OF L c] s _ _ lists_invD(9) [OF L c]])
    show "c_iterator (ctxs st2 c) =
      (if c_iterator (ctxs st c) = s then s_next (socks st s) else c_iterator (ctxs st c))"
      using st1 st2 by (auto simp: C fix_iter_def)
  qed simp
  have "grows A st (abs_close c s A) st2"
  proof (rule grows_same)
    fix d assume "d \<in> set (al_ctxs A)"
    show "al_socks (abs_close c s A) d = al_socks A d \<and> c_iterator (ctxs st2 d) = c_iterator (ctxs st d) \<or>
       sweep_ok A st (abs_close c s A) st2 d"
      using sw st1 st2 by (cases "d = c") simp_all
  qed (use st1 st2 in auto)
  with 1 2 inv eff show ?thesis unfolding evolves_def by blast
qed

lemma low_unlink_eq:
  assumes sk: "is_sock st s" "s_low_prio_state (socks st s) = 1" "is_ctx st (s_context (socks st s))"
    and p: "s_prev (socks st s) = NULL \<or> is_sock st (s_prev (socks st s))"
    and n: "s_next (socks st s) = NULL \<or> is_sock st (s_next (socks st s))"
    and d: "s_prev (socks st s) \<noteq> s" "s_next (socks st s) \<noteq> s"
  defines "k \<equiv> socks st s"
  shows "(do {
       st \<leftarrow> (if s_prev k = NULL then do {
             _ \<leftarrow> socket_loop s st;
             Some (st\<lparr>l_low_prio_head := s_next k\<rparr>) }
           else wr_sock (s_prev k) (\<lambda>p. p\<lparr>s_next := s_next k\<rparr>) st);
       st \<leftarrow> (if s_next k \<noteq> NULL
           then wr_sock (s_next k) (\<lambda>n. n\<lparr>s_prev := s_prev k\<rparr>) st else Some st);
       wr_sock s (\<lambda>k. k\<lparr>s_prev := NULL, s_next := NULL, s_low_prio_state := 0\<rparr>) st }) =
     Some (st\<lparr>socks := (popS s (socks st))(s := k\<lparr>s_prev := NULL, s_next := NULL, s_low_prio_state := 0\<rparr>),
      l_low_prio_head := (if s_prev k = NULL then s_next k else l_low_prio_head st)\<rparr>)"
  using assms
  by (cases "s_prev k = NULL"; cases "s_next k = NULL") (simp_all add: popS_def Let_def us.equality)

lemma low_close_ok:
  assumes I: "us_inv A st" and s: "s \<in> set (al_low A)"
  defines "k \<equiv> socks st s"
  defines "c \<equiv> s_context k"
  defines "st1 \<equiv> st\<lparr>socks := (popS s (socks st))(s := k\<lparr>s_prev := NULL, s_next := NULL, s_low_prio_state := 0\<rparr>),
      l_low_prio_head := (if s_prev k = NULL then s_next k else l_low_prio_head st)\<rparr>"
  shows "\<exists>st2. stop_and_link_closed s st1 = Some st2 \<and> evolves A st (abs_close c s A) st2 \<and>
    close_effect s st st2"
proof -
  note L = us_invD(1) [OF I] and P = us_invD(2) [OF I]
  note lw = lowD [OF L s]
  have "lists_inv (del_low s A) st1" and det: "detached (del_low s A) s"
    unfolding st1_def k_def by (rule low_pop_ok [OF L s])+
  note 1 = this
  have k1: "is_sock st1 s" "is_ctx st1 (s_context (socks st1 s))" "ready_ok st1" "pending st1 = pending st"
    "fd_of st1 s = fd_of st s"
    using lw us_invD(3) [OF I] by (simp_all add: ready_ok_def pending_def fd_of_def st1_def k_def)
  from stop_and_link_closed_ok [OF 1 k1(1,2,3)] obtain st2 rs where
    2: "stop_and_link_closed s st1 = Some st2" "lists_inv (add_closed s (del_low s A)) st2"
      "ready_ok st2" "pending st2 = replace_first s NULL (pending st)" and
    st2: "st2 = st1\<lparr>ready_polls := rs, trace := trace st1 @ [EpollCtlDel (fd_of st1 s), Close (fd_of st1 s)],
       socks := (socks st1)(s := (socks st1 s)\<lparr>s_next := l_closed_head st1,
         s_prev := s_context (socks st1 s)\<rparr>), l_closed_head := s\<rparr>"
    using k1(4) by auto
  have "s \<notin> set (al_socks A c)" using lw(2,6) unfolding open_sock_def c_def k_def by blast
  then have A': "abs_close c s A = add_closed s (del_low s A)"
    using alists_remove_id(2) by (simp add: abs_close_def)
  have "polls_inv (abs_close c s A) st2"
    using polls_inv_closed [OF P L _ _ _ 2(3,4) lw(1)] st2 by (simp add: st1_def)
  then have inv: "us_inv (abs_close c s A) st2" using 2(2) A' us_invI by metis
  have eff: "close_effect s st st2"
    using st2 k1(5) by (simp add: close_effect_def st1_def k_def c_def)
  have "grows A st (abs_close c s A) st2"
    by (rule grows_same) (use st2 in \<open>auto simp: A' st1_def\<close>)
  with 2 inv eff show ?thesis unfolding evolves_def by blast
qed

lemma close_steps:
  assumes I: "us_inv A st" and s: "live_sock A s"
  defines "c \<equiv> s_context (socks st s)"
  shows "\<exists>st2. us_socket_close H s code reason st =
      call_close H (c_on_close (ctxs st c)) s code reason st2 \<and>
    evolves A st (abs_close c s A) st2 \<and> close_effect s st st2"
proof (cases "s \<in> set (al_low A)")
  case False
  then have o: "open_sock A s" using s by (simp add: live_sock_def)
  note od = open_sockD [OF us_invD(1) [OF I] o]
  from unlink_close_ok [OF I od(2,3)] obtain st1 st2 where
    1: "us_internal_socket_context_unlink_socket c s st = Some st1"
    "stop_and_link_closed s st1 = Some st2" "evolves A st (abs_close c s A) st2"
    "close_effect s st st2" unfolding c_def by blast
  have "is_sock st2 s" "is_ctx st2 (s_context (socks st2 s))"
    using 1(4) od(1,4) access_cong(1,3) [of st2 _ st] by (simp_all add: close_effect_def)
  then have "us_socket_close H s code reason st = call_close H (c_on_close (ctxs st c)) s code reason st2"
    using od 1(1,2,4) close_effect_handlers [OF 1(4)] by (simp add: us_socket_close_def c_def close_effect_def)
  with 1 show ?thesis by blast
next
  case True
  note lw = lowD [OF us_invD(1) [OF I] True]
  note d = lists_invD(7) [OF us_invD(1) [OF I]]
  note e = popS_ends [OF d True]
  have pn: "s_prev (socks st s) = NULL \<or> is_sock st (s_prev (socks st s))"
    "s_next (socks st s) = NULL \<or> is_sock st (s_next (socks st s))"
    using e(3,4) lowD(1) [OF us_invD(1) [OF I]] by blast+
  note eq = low_unlink_eq [OF lw(1,4,3) pn e(5,6)]
  from low_close_ok [OF I True] obtain st2 where
    1: "stop_and_link_closed s (st\<lparr>socks := (popS s (socks st))(s := (socks st s)\<lparr>s_prev := NULL,
        s_next := NULL, s_low_prio_state := 0\<rparr>),
      l_low_prio_head := (if s_prev (socks st s) = NULL then s_next (socks st s) else l_low_prio_head st)\<rparr>)
      = Some st2" "evolves A st (abs_close c s A) st2" "close_effect s st st2"
    unfolding c_def by blast
  have "is_sock st2 s" "is_ctx st2 (s_context (socks st2 s))"
    using 1(3) lw(1,3) access_cong(1,3) [of st2 _ st] by (simp_all add: close_effect_def)
  then have "us_socket_close H s code reason st = call_close H (c_on_close (ctxs st c)) s code reason st2"
    using lw eq 1(1,3) close_effect_handlers [OF 1(3)] by (simp add: us_socket_close_def c_def close_effect_def)
  with 1 show ?thesis by blast
qed

section \<open>The other operations keep the invariant\<close>

lemma sock_fields_ok:
  assumes I: "us_inv A st" and "s_next k = s_next (socks st s)" "s_prev k = s_prev (socks st s)"
    "s_context k = s_context (socks st s)"
    "s_low_prio_state k = 1 \<longleftrightarrow> s_low_prio_state (socks st s) = 1"
  shows "evolves A st A (st\<lparr>socks := (socks st)(s := k)\<rparr>)" (is "evolves A st A ?st")
proof -
  have "lists_inv A ?st" using lists_inv_sock_fields [OF us_invD(1) [OF I] assms(2-5)] .
  moreover have "polls_inv A ?st"
    using us_invD(2) [OF I]
  proof (rule polls_inv_step [where X = "{}"])
    fix p assume "p \<in> fst ` set (pending ?st)" "p \<noteq> NULL"
    then have "open_poll A st p"
      using polls_invD(5) [OF us_invD(2) [OF I]] by (simp add: pending_def)
    then show "p \<notin> {} \<and> cb_typed st p \<or> open_poll A ?st p" unfolding open_poll_def by blast
  qed (use us_invD(3) [OF I] in \<open>auto simp: ready_ok_def pending_def\<close>)
  moreover have "grows A st A ?st" by (rule grows_same) simp_all
  ultimately show ?thesis by (simp add: evolves_def us_invI)
qed

lemma us_socket_timeout_ok:
  assumes I: "us_inv A st" and s: "live_sock A s"
  shows "\<exists>t. us_socket_timeout s n st = Some (st\<lparr>socks := (socks st)(s := (socks st s)\<lparr>s_timeout := t\<rparr>)\<rparr>) \<and>
      evolves A st A (st\<lparr>socks := (socks st)(s := (socks st s)\<lparr>s_timeout := t\<rparr>)\<rparr>)"
    and "\<exists>t. us_socket_long_timeout s n st = Some (st\<lparr>socks := (socks st)(s := (socks st s)\<lparr>s_long_timeout := t\<rparr>)\<rparr>) \<and>
      evolves A st A (st\<lparr>socks := (socks st)(s := (socks st s)\<lparr>s_long_timeout := t\<rparr>)\<rparr>)"
  using live_sockD(1,3) [OF us_invD(1) [OF I] s]
  by (auto simp: us_socket_timeout_def us_socket_long_timeout_def intro!: exI sock_fields_ok [OF I])

lemma writable_mask [simp]: "(LIBUS_SOCKET_READABLE OR LIBUS_SOCKET_WRITABLE) AND poll_mask = poll_mask"
  by (simp add: poll_mask_def)

lemma poll_mask_idem [simp]: "poll_mask AND poll_mask = poll_mask"
  by simp

lemma readable_poll_mask [simp]: "poll_mask AND LIBUS_SOCKET_READABLE = LIBUS_SOCKET_READABLE"
  by (simp add: poll_mask_def event_defs)

lemma live_not_closed:
  "us_inv A st \<Longrightarrow> live_sock A s \<Longrightarrow> us_socket_is_closed s st = Some False"
  using live_sockD(1,4) [OF us_invD(1)] by simp

text \<open>A short write: the socket polls for both events, everything else is as it was.\<close>

definition short_write :: "addr \<Rightarrow> us \<Rightarrow> us \<Rightarrow> bool" where
  "short_write s st st' \<longleftrightarrow> events3 st' s = poll_mask \<and> type3 st' s = type3 st s \<and>
     l_last_write_failed st' = l_last_write_failed st \<and> socks st' = socks st \<and> ctxs st' = ctxs st"

lemma short_write_ok:
  assumes I: "us_inv A st" and s: "live_sock A s" and e: "established st s" and low: "s \<notin> set (al_low A)"
  shows "\<exists>st'. us_poll_change s (LIBUS_SOCKET_READABLE OR LIBUS_SOCKET_WRITABLE) st = Some st' \<and>
    evolves A st A st' \<and> short_write s st st'"
proof -
  have m: "(LIBUS_SOCKET_READABLE OR LIBUS_SOCKET_WRITABLE) AND poll_mask =
      LIBUS_SOCKET_READABLE OR LIBUS_SOCKET_WRITABLE" by (simp add: poll_mask_def)
  from sock_change_ok [OF I s e m] low obtain st' where
    1: "us_poll_change s (LIBUS_SOCKET_READABLE OR LIBUS_SOCKET_WRITABLE) st = Some st'"
    "poll_local s st st'" "evolves A st A st'"
    "events3 st' s = LIBUS_SOCKET_READABLE OR LIBUS_SOCKET_WRITABLE" "type3 st' s = type3 st s"
    by blast
  note f = poll_frameD [OF poll_localD(1) [OF 1(2)]]
  have "short_write s st st'" using 1(4,5) f by (simp add: short_write_def poll_mask_def)
  with 1 show ?thesis by blast
qed

lemma evolves_emit: "evolves A (emit e st) A' st' \<Longrightarrow> evolves A st A' st'"
  using grows_from_emit by (auto simp: evolves_def)

lemma us_socket_write_ok:
  fixes data :: "byte list" and mm :: bool
  assumes I: "us_inv A st" and s: "live_sock A s" and e: "established st s"
  defines "st1 \<equiv> emit (Send (fd_of st s) data mm) st"
  assumes low: "s \<in> set (al_low A) \<Longrightarrow> k_io K st1 = int (length data)"
  shows "\<exists>r st'. us_socket_write K s data mm st = Some (r, st') \<and> evolves A st A st' \<and>
    (if type3 st s = POLL_TYPE_SOCKET_SHUT_DOWN then r = 0 \<and> st' = st
     else r = max 0 (k_io K st1) \<and>
       (if k_io K st1 = int (length data) then st' = st1
        else short_write s (st1\<lparr>l_last_write_failed := True\<rparr>) st'))"
proof (cases "type3 st s = POLL_TYPE_SOCKET_SHUT_DOWN")
  case True
  then show ?thesis using I live_sockD(1) [OF us_invD(1) [OF I] s] live_not_closed [OF I s]
    by (simp add: us_socket_write_def is_shut_down_eq evolves_refl)
next
  case False
  note ls = live_sockD(1,3) [OF us_invD(1) [OF I] s]
  have fd: "us_poll_fd s st = Some (fd_of st s)" using ls by (simp add: us_poll_fd_def fd_of_def)
  have lp: "socket_loop s st1 = Some ()" using ls by (simp add: st1_def)
  note unf = us_socket_write_def is_shut_down_eq Let_def
  show ?thesis
  proof (cases "k_io K st1 = int (length data)")
    case True
    then have "us_socket_write K s data mm st = Some (max 0 (k_io K st1), st1)"
      using False fd ls live_not_closed [OF I s] by (simp add: unf max_def flip: st1_def)
    moreover have "evolves A st A st1" using I by (simp add: st1_def evolves_def)
    ultimately show ?thesis using False True by simp
  next
    case nf: False
    let ?s = "st1\<lparr>l_last_write_failed := True\<rparr>"
    have I1: "us_inv A ?s" and e1: "established ?s s" and g: "grows A st A ?s" using I e
      by (simp_all add: st1_def established_def type3_def)
    from short_write_ok [OF I1 s e1] low nf obtain st' where
      1: "us_poll_change s (LIBUS_SOCKET_READABLE OR LIBUS_SOCKET_WRITABLE) ?s = Some st'"
      "evolves A ?s A st'" "short_write s ?s st'" by blast
    have "us_socket_write K s data mm st = Some (max 0 (k_io K st1), st')"
      using False nf fd lp ls live_not_closed [OF I s] 1(1) by (simp add: unf max_def flip: st1_def)
    moreover have "evolves A st A st'" using grows_trans [OF g] 1(2) unfolding evolves_def by blast
    ultimately show ?thesis using False nf 1(3) by simp
  qed
qed

lemma us_socket_write2_ok:
  fixes hdr body :: "byte list"
  assumes I: "us_inv A st" and s: "live_sock A s" and e: "established st s"
  defines "st1 \<equiv> emit (Writev (fd_of st s) hdr body) st"
  assumes low: "s \<in> set (al_low A) \<Longrightarrow> k_io K st1 = int (length hdr + length body)"
  shows "\<exists>r st'. us_socket_write2 K s hdr body st = Some (r, st') \<and> evolves A st A st' \<and>
    (if type3 st s = POLL_TYPE_SOCKET_SHUT_DOWN then r = 0 \<and> st' = st
     else r = max 0 (k_io K st1) \<and>
       (if k_io K st1 = int (length hdr + length body) then st' = st1
        else short_write s (st1) st'))"
proof (cases "type3 st s = POLL_TYPE_SOCKET_SHUT_DOWN")
  case True
  then show ?thesis using I live_sockD(1) [OF us_invD(1) [OF I] s] live_not_closed [OF I s]
    by (simp add: us_socket_write2_def is_shut_down_eq evolves_refl)
next
  case False
  note ls = live_sockD(1,3) [OF us_invD(1) [OF I] s]
  have fd: "us_poll_fd s st = Some (fd_of st s)" using ls by (simp add: us_poll_fd_def fd_of_def)
  have lp: "socket_loop s st1 = Some ()" using ls by (simp add: st1_def)
  note unf = us_socket_write2_def is_shut_down_eq Let_def
  show ?thesis
  proof (cases "k_io K st1 = int (length hdr + length body)")
    case True
    then have "us_socket_write2 K s hdr body st = Some (max 0 (k_io K st1), st1)"
      using False fd ls live_not_closed [OF I s] by (simp add: unf max_def flip: st1_def)
    moreover have "evolves A st A st1" using I by (simp add: st1_def evolves_def)
    ultimately show ?thesis using False True by simp
  next
    case nf: False
    let ?s = "st1"
    have I1: "us_inv A ?s" and e1: "established ?s s" and g: "grows A st A ?s" using I e
      by (simp_all add: st1_def established_def type3_def)
    from short_write_ok [OF I1 s e1] low nf obtain st' where
      1: "us_poll_change s (LIBUS_SOCKET_READABLE OR LIBUS_SOCKET_WRITABLE) ?s = Some st'"
      "evolves A ?s A st'" "short_write s ?s st'" by blast
    have "us_socket_write2 K s hdr body st = Some (max 0 (k_io K st1), st')"
      using False nf fd lp ls live_not_closed [OF I s] 1(1) by (simp add: unf max_def flip: st1_def)
    moreover have "evolves A st A st'" using grows_trans [OF g] 1(2) unfolding evolves_def by blast
    ultimately show ?thesis using False nf 1(3) by simp
  qed
qed

lemma us_socket_shutdown_ok:
  assumes I: "us_inv A st" and s: "live_sock A s"
  shows "\<exists>st'. us_socket_shutdown s st = Some st' \<and> evolves A st A st' \<and> poll_frame st st' \<and>
    type3 st' s = POLL_TYPE_SOCKET_SHUT_DOWN \<and>
    (if type3 st s = POLL_TYPE_SOCKET_SHUT_DOWN then st' = st
     else events3 st' s = events3 st s AND LIBUS_SOCKET_READABLE \<and>
       last (trace st') = Shutdown (fd_of st' s))"
proof (cases "type3 st s = POLL_TYPE_SOCKET_SHUT_DOWN")
  case True
  then show ?thesis using I live_sockD(1) [OF us_invD(1) [OF I] s]
    by (simp add: us_socket_shutdown_def is_shut_down_eq evolves_refl)
next
  case False
  note ls = live_sockD(1,3,4) [OF us_invD(1) [OF I] s]
  from sock_shut_ok [OF I s] obtain st1 st' where
    1: "us_internal_poll_set_type s POLL_TYPE_SOCKET_SHUT_DOWN st = Some st1"
    "events3 st1 s = events3 st s" "poll_local s st st1"
    "us_poll_change s (events3 st s AND LIBUS_SOCKET_READABLE) st1 = Some st'" "poll_local s st st'"
    "evolves A st A st'" "events3 st' s = events3 st s AND LIBUS_SOCKET_READABLE"
    "type3 st' s = POLL_TYPE_SOCKET_SHUT_DOWN" by blast
  have 2: "socket_loop s st1 = Some ()" "is_sock st1 s" "is_sock st' s"
    using ls poll_local_access [OF 1(3)] poll_local_access [OF 1(5)]
      poll_frameD(2) [OF poll_localD(1) [OF 1(3)]] by simp_all
  have "us_socket_shutdown s st = Some (emit (Shutdown (fd_of st' s)) st')"
    using False ls 1 2 by (simp add: us_socket_shutdown_def is_shut_down_eq us_poll_fd_def fd_of_def)
  moreover have "evolves A st A (emit (Shutdown (fd_of st' s)) st')"
    using 1(6) by (simp add: evolves_def)
  moreover have "poll_frame st (emit (Shutdown (fd_of st' s)) st')"
    using poll_localD(1) [OF 1(5)] by simp
  ultimately show ?thesis using False 1(7,8)
    by (simp add: events3_def type3_def fd_of_def)
qed

end
