(* ===== verification/Us_Context.thy ===== *)
theory Us_Context
  imports Us_Socket
begin

unbundle bit_operations_syntax

text \<open>
  The socket contexts, \<open>src/context.c\<close> (the path of plain TCP, \<open>ssl = 0\<close>): creating and
  freeing a context, listening, connecting, adopting a socket from another context, closing
  everything a context has, and setting its handlers.
\<close>

section \<open>Creating and freeing a context\<close>

definition us_socket_context_timestamp :: "addr \<Rightarrow> us \<Rightarrow> u16 option" where
  "us_socket_context_timestamp context st = map_option (\<lambda>c. ucast (c_timestamp c)) (rd_ctx context st)"

definition us_create_socket_context :: "kernel \<Rightarrow> us \<Rightarrow> (addr \<times> us) option" where
  "us_create_socket_context K st = do {
     let (context, st) = alloc K KContext st;
     st \<leftarrow> wr_ctx context (\<lambda>c. c\<lparr>c_head_sockets := NULL, c_head_listen_sockets := NULL,
         c_iterator := NULL, c_next := NULL, c_is_low_prio := FnDefaultIsLowPrio\<rparr>) st;
     st \<leftarrow> wr_ctx context (\<lambda>c. c\<lparr>c_timestamp := 0, c_long_timestamp := 0, c_global_tick := 0\<rparr>) st;
     st \<leftarrow> wr_ctx context (\<lambda>c. c\<lparr>c_on_pre_open := FnNull\<rparr>) st;
     st \<leftarrow> us_internal_loop_link context st;
     Some (context, st)
   }"

definition us_create_child_socket_context :: "kernel \<Rightarrow> addr \<Rightarrow> us \<Rightarrow> (addr \<times> us) option" where
  "us_create_child_socket_context K context st = do {
     _ \<leftarrow> rd_ctx context st;
     us_create_socket_context K st
   }"

definition us_socket_context_free :: "addr \<Rightarrow> us \<Rightarrow> us option" where
  "us_socket_context_free context st = do {
     _ \<leftarrow> rd_ctx context st;
     st \<leftarrow> us_internal_loop_unlink context st;
     free_obj context st
   }"

section \<open>The handlers of a context\<close>

definition us_socket_context_on_pre_open :: "addr \<Rightarrow> fnptr \<Rightarrow> us \<Rightarrow> us option" where
  "us_socket_context_on_pre_open context f = wr_ctx context (\<lambda>c. c\<lparr>c_on_pre_open := f\<rparr>)"

definition us_socket_context_on_open :: "addr \<Rightarrow> fnptr \<Rightarrow> us \<Rightarrow> us option" where
  "us_socket_context_on_open context f = wr_ctx context (\<lambda>c. c\<lparr>c_on_open := f\<rparr>)"

definition us_socket_context_on_close :: "addr \<Rightarrow> fnptr \<Rightarrow> us \<Rightarrow> us option" where
  "us_socket_context_on_close context f = wr_ctx context (\<lambda>c. c\<lparr>c_on_close := f\<rparr>)"

definition us_socket_context_on_data :: "addr \<Rightarrow> fnptr \<Rightarrow> us \<Rightarrow> us option" where
  "us_socket_context_on_data context f = wr_ctx context (\<lambda>c. c\<lparr>c_on_data := f\<rparr>)"

definition us_socket_context_on_writable :: "addr \<Rightarrow> fnptr \<Rightarrow> us \<Rightarrow> us option" where
  "us_socket_context_on_writable context f = wr_ctx context (\<lambda>c. c\<lparr>c_on_writable := f\<rparr>)"

definition us_socket_context_on_timeout :: "addr \<Rightarrow> fnptr \<Rightarrow> us \<Rightarrow> us option" where
  "us_socket_context_on_timeout context f = wr_ctx context (\<lambda>c. c\<lparr>c_on_socket_timeout := f\<rparr>)"

definition us_socket_context_on_long_timeout :: "addr \<Rightarrow> fnptr \<Rightarrow> us \<Rightarrow> us option" where
  "us_socket_context_on_long_timeout context f = wr_ctx context (\<lambda>c. c\<lparr>c_on_socket_long_timeout := f\<rparr>)"

definition us_socket_context_on_end :: "addr \<Rightarrow> fnptr \<Rightarrow> us \<Rightarrow> us option" where
  "us_socket_context_on_end context f = wr_ctx context (\<lambda>c. c\<lparr>c_on_end := f\<rparr>)"

definition us_socket_context_on_connect_error :: "addr \<Rightarrow> fnptr \<Rightarrow> us \<Rightarrow> us option" where
  "us_socket_context_on_connect_error context f = wr_ctx context (\<lambda>c. c\<lparr>c_on_connect_error := f\<rparr>)"

section \<open>Listening and connecting\<close>

text \<open>
  The fields of a new listen socket are assigned before it is linked; linking then assigns
  the context and the chain fields.
\<close>

definition listen_on :: "kernel \<Rightarrow> addr \<Rightarrow> int \<Rightarrow> u32 \<Rightarrow> us \<Rightarrow> (addr \<times> us) option" where
  "listen_on K context listen_socket_fd socket_ext_size st = do {
     _ \<leftarrow> rd_ctx context st;
     let (p, st) = us_create_poll K KListen False st;
     st \<leftarrow> us_poll_init p listen_socket_fd POLL_TYPE_SEMI_SOCKET st;
     st \<leftarrow> us_poll_start p LIBUS_SOCKET_READABLE st;
     st \<leftarrow> wr_sock p (\<lambda>k. k\<lparr>s_context := context, s_timeout := 255, s_long_timeout := 255,
         s_low_prio_state := 0, s_next := NULL\<rparr>) st;
     st \<leftarrow> us_internal_socket_context_link_listen_socket context p st;
     Some (p, st\<lparr>ext_sizes := (ext_sizes st)(p := socket_ext_size)\<rparr>)
   }"

definition us_socket_context_listen ::
  "kernel \<Rightarrow> addr \<Rightarrow> byte list \<Rightarrow> int \<Rightarrow> int \<Rightarrow> u32 \<Rightarrow> us \<Rightarrow> (addr \<times> us) option" where
  "us_socket_context_listen K context host port options socket_ext_size st = (
     let st = emit (CreateListenSocket host port options) st;
         fd = k_fd K st
     in if fd = LIBUS_SOCKET_ERROR then Some (NULL, st)
        else listen_on K context fd socket_ext_size st)"

definition us_socket_context_listen_unix ::
  "kernel \<Rightarrow> addr \<Rightarrow> byte list \<Rightarrow> int \<Rightarrow> u32 \<Rightarrow> us \<Rightarrow> (addr \<times> us) option" where
  "us_socket_context_listen_unix K context path options socket_ext_size st = (
     let st = emit (CreateListenSocketUnix path options) st;
         fd = k_fd K st
     in if fd = LIBUS_SOCKET_ERROR then Some (NULL, st)
        else listen_on K context fd socket_ext_size st)"

definition connect_on :: "kernel \<Rightarrow> addr \<Rightarrow> int \<Rightarrow> us \<Rightarrow> (addr \<times> us) option" where
  "connect_on K context connect_socket_fd st = do {
     _ \<leftarrow> rd_ctx context st;
     let (p, st) = us_create_poll K KSocket False st;
     st \<leftarrow> us_poll_init p connect_socket_fd POLL_TYPE_SEMI_SOCKET st;
     st \<leftarrow> us_poll_start p LIBUS_SOCKET_WRITABLE st;
     st \<leftarrow> wr_sock p (\<lambda>k. k\<lparr>s_context := context, s_timeout := 255, s_long_timeout := 255,
         s_low_prio_state := 0\<rparr>) st;
     st \<leftarrow> us_internal_socket_context_link_socket context p st;
     Some (p, st)
   }"

definition us_socket_context_connect ::
  "kernel \<Rightarrow> addr \<Rightarrow> byte list \<Rightarrow> int \<Rightarrow> byte list \<Rightarrow> int \<Rightarrow> us \<Rightarrow> (addr \<times> us) option" where
  "us_socket_context_connect K context host port source_host options st = (
     let st = emit (CreateConnectSocket host port source_host options) st;
         fd = k_fd K st
     in if fd = LIBUS_SOCKET_ERROR then Some (NULL, st) else connect_on K context fd st)"

definition us_socket_context_connect_unix ::
  "kernel \<Rightarrow> addr \<Rightarrow> byte list \<Rightarrow> int \<Rightarrow> us \<Rightarrow> (addr \<times> us) option" where
  "us_socket_context_connect_unix K context server_path options st = (
     let st = emit (CreateConnectSocketUnix server_path options) st;
         fd = k_fd K st
     in if fd = LIBUS_SOCKET_ERROR then Some (NULL, st) else connect_on K context fd st)"

section \<open>Adopting a socket\<close>

definition us_socket_context_adopt_socket :: "kernel \<Rightarrow> addr \<Rightarrow> addr \<Rightarrow> us \<Rightarrow> (addr \<times> us) option" where
  "us_socket_context_adopt_socket K context s st = do {
     closed \<leftarrow> us_socket_is_closed s st;
     if closed then Some (s, st) else do {
       k \<leftarrow> rd_sock s st;
       st \<leftarrow> (if s_low_prio_state k \<noteq> 1
             then us_internal_socket_context_unlink_socket (s_context k) s st else Some st);
       _ \<leftarrow> socket_loop s st;
       (new_s, st) \<leftarrow> us_poll_resize K s st;
       st \<leftarrow> wr_sock new_s (\<lambda>k. k\<lparr>s_timeout := 255, s_long_timeout := 255\<rparr>) st;
       k \<leftarrow> rd_sock new_s st;
       if s_low_prio_state k = 1 then do {
         st \<leftarrow> (if s_prev k = NULL then do {
               _ \<leftarrow> socket_loop new_s st;
               Some (st\<lparr>l_low_prio_head := new_s\<rparr>) }
             else wr_sock (s_prev k) (\<lambda>p. p\<lparr>s_next := new_s\<rparr>) st);
         st \<leftarrow> (if s_next k \<noteq> NULL
             then wr_sock (s_next k) (\<lambda>n. n\<lparr>s_prev := new_s\<rparr>) st else Some st);
         Some (new_s, st)
       } else do {
         st \<leftarrow> us_internal_socket_context_link_socket context new_s st;
         Some (new_s, st)
       }
     }
   }"

section \<open>Closing a listen socket, closing a context\<close>

definition us_listen_socket_close :: "addr \<Rightarrow> us \<Rightarrow> us option" where
  "us_listen_socket_close ls st = do {
     closed \<leftarrow> us_socket_is_closed ls st;
     if \<not> closed then do {
       k \<leftarrow> rd_sock ls st;
       st \<leftarrow> us_internal_socket_context_unlink_listen_socket (s_context k) ls st;
       stop_and_link_closed ls st
     } else Some st
   }"

text \<open>
  The two loops of \<open>us_socket_context_close\<close> follow the next pointers that were read before
  each close; a handler may link new sockets or close others, so the loops are partial.
\<close>

partial_function (option) close_listen_loop :: "addr \<Rightarrow> us \<Rightarrow> us option" where
  "close_listen_loop ls st = (if ls \<noteq> NULL then do {
     k \<leftarrow> rd_sock ls st;
     st \<leftarrow> us_listen_socket_close ls st;
     close_listen_loop (s_next k) st
   } else Some st)"

partial_function (option) close_sockets_loop :: "handlers \<Rightarrow> addr \<Rightarrow> us \<Rightarrow> us option" where
  "close_sockets_loop H s st = (if s \<noteq> NULL then do {
     k \<leftarrow> rd_sock s st;
     (_, st) \<leftarrow> us_socket_close H s 0 NULL st;
     close_sockets_loop H (s_next k) st
   } else Some st)"

definition us_socket_context_close :: "handlers \<Rightarrow> addr \<Rightarrow> us \<Rightarrow> us option" where
  "us_socket_context_close H context st = do {
     c \<leftarrow> rd_ctx context st;
     st \<leftarrow> close_listen_loop (c_head_listen_sockets c) st;
     c \<leftarrow> rd_ctx context st;
     close_sockets_loop H (c_head_sockets c) st
   }"

section \<open>Creating and freeing keep the invariant\<close>

lemma allocD:
  assumes "allocator_ok K" and "finite (dom (objs st))"
  obtains b where "alloc K k st = (b, st\<lparr>objs := (objs st)(b \<mapsto> k)\<rparr>)" and "b \<noteq> NULL" and "objs st b = None"
  using assms that by (auto simp: alloc_def Let_def allocator_ok_def)

lemma fresh_inv:
  assumes "us_inv A st" and "objs st b = None" and "new_block b st st'"
  shows "us_inv A st'" "grows A st A st'"
  using fresh_block_ok(1) [OF assms] by (simp_all add: evolves_def)

lemma us_create_socket_context_ok:
  assumes I: "us_inv A st" and K: "allocator_ok K"
  shows "\<exists>b st'. us_create_socket_context K st = Some (b, st') \<and> b \<noteq> NULL \<and> objs st b = None \<and>
    evolves A st (add_ctx b A) st' \<and> c_is_low_prio (ctxs st' b) = FnDefaultIsLowPrio \<and>
    c_on_pre_open (ctxs st' b) = FnNull \<and> c_timestamp (ctxs st' b) = 0 \<and>
    c_long_timestamp (ctxs st' b) = 0 \<and> c_global_tick (ctxs st' b) = 0"
proof -
  from allocD [OF K lists_inv_finite [OF us_invD(1) [OF I]]] obtain b where
    b: "alloc K KContext st = (b, st\<lparr>objs := (objs st)(b \<mapsto> KContext)\<rparr>)" "b \<noteq> NULL" "objs st b = None" .
  let ?c = "(ctxs st b)\<lparr>c_head_sockets := NULL, c_head_listen_sockets := NULL, c_iterator := NULL,
    c_next := NULL, c_is_low_prio := FnDefaultIsLowPrio, c_timestamp := 0, c_long_timestamp := 0,
    c_global_tick := 0, c_on_pre_open := FnNull\<rparr>"
  let ?st = "st\<lparr>objs := (objs st)(b \<mapsto> KContext), ctxs := (ctxs st)(b := ?c)\<rparr>"
  have n: "new_block b st ?st" by (simp add: new_block_def)
  note f = fresh_inv [OF I b(3) n] and fb = fresh_block_ok(2,3) [OF I b(3) n]
  have ctx: "is_ctx ?st b" using b by (simp add: is_ctx_def)
  from loop_link_ok [OF us_invD(1) [OF f(1)] ctx fb(2)] obtain st' C where
    1: "us_internal_loop_link b ?st = Some st'" "lists_inv (add_ctx b A) st'"
    "st' = ?st\<lparr>ctxs := C, l_head := b\<rparr>" "links_only (ctxs ?st) C" by auto
  have eq: "us_create_socket_context K st = Some (b, st')"
    using b ctx 1(1) by (simp add: us_create_socket_context_def is_ctx_def)
  have it: "c_iterator (ctxs st' d) = c_iterator (ctxs ?st d)" for d
    using 1(3) links_onlyD(3) [OF 1(4)] by simp
  have "polls_inv (add_ctx b A) st'"
    using us_invD(2) [OF f(1)]
  proof (rule polls_inv_step [where X = "{}"])
    show "ready_ok st'" using us_invD(3) [OF I] 1(3) by (simp add: ready_ok_def pending_def)
    fix p assume p: "p \<in> fst ` set (pending st')" "p \<noteq> NULL"
    then have "open_poll A ?st p"
      using polls_invD(5) [OF us_invD(2) [OF f(1)]] 1(3) by (simp add: pending_def)
    then show "p \<notin> {} \<and> cb_typed ?st p \<or> open_poll (add_ctx b A) st' p"
      using fb(2) unfolding open_poll_def by (auto simp: add_ctx_def)
  qed (use 1(3) in \<open>auto simp: add_ctx_def split: if_splits\<close>)
  then have inv: "us_inv (add_ctx b A) st'" using 1(2) us_invI by blast
  have "sweep_ok A st (add_ctx b A) st' d" if "d \<in> set (al_ctxs A)" for d
    by (rule sweep_ok_same) (use that it fb(2) in \<open>auto simp: add_ctx_def\<close>)
  moreover have "d \<noteq> b" if "d \<in> set (al_ctxs A)" for d using that fb(2) by blast
  ultimately have "grows A st (add_ctx b A) st'"
    using 1(3) unfolding grows_def by (auto simp: add_ctx_def)
  moreover have "C b\<lparr>c_next := NULL, c_prev := NULL\<rparr> = ?c\<lparr>c_next := NULL, c_prev := NULL\<rparr>"
    using 1(4) by (simp add: links_only_def)
  note Cb = arg_cong [OF this, of c_is_low_prio] arg_cong [OF this, of c_on_pre_open]
    arg_cong [OF this, of c_timestamp] arg_cong [OF this, of c_long_timestamp]
    arg_cong [OF this, of c_global_tick]
  have "c_is_low_prio (ctxs st' b) = FnDefaultIsLowPrio" "c_on_pre_open (ctxs st' b) = FnNull"
    "c_timestamp (ctxs st' b) = 0" "c_long_timestamp (ctxs st' b) = 0" "c_global_tick (ctxs st' b) = 0"
    using Cb 1(3) by simp_all
  ultimately show ?thesis using eq b inv unfolding evolves_def by blast
qed

lemma us_socket_context_free_ok:
  assumes I: "us_inv A st" and c: "c \<in> set (al_ctxs A)" and e: "ctx_empty A st c"
  shows "\<exists>st'. us_socket_context_free c st = Some st' \<and> us_inv (del_ctx c A) st' \<and> objs st' c = None"
proof -
  note L = us_invD(1) [OF I] and P = us_invD(2) [OF I]
  have low: "s_context (socks st s) \<noteq> c" if "s \<in> set (al_low A)" for s
    using e that by (simp add: ctx_empty_def)
  from loop_unlink_ok [OF L c low] obtain st1 C h where
    1: "us_internal_loop_unlink c st = Some st1" "lists_inv (del_ctx c A) st1"
    "st1 = st\<lparr>ctxs := C, l_head := h\<rparr>" "c \<notin> set (al_ctxs (del_ctx c A))" by blast
  have ctx: "is_ctx st c" "is_ctx st1 c" using lists_inv_ctx [OF L c] 1(3) by simp_all
  let ?st = "st1\<lparr>objs := (objs st1)(c := None)\<rparr>"
  have eq: "us_socket_context_free c st = Some ?st"
    using 1(1) ctx by (simp add: us_socket_context_free_def free_obj_def is_ctx_def)
  have ns: "\<not> is_sock st1 c" using ctx by simp
  have det: "detached (del_ctx c A) c"
    using ns lists_inv_socks(1) [OF 1(2)] lists_inv_listen(1) [OF 1(2)] lists_inv_low(1) [OF 1(2)]
      lists_inv_closed(1) [OF 1(2)] unfolding detached_def by blast
  have "lists_inv (del_ctx c A) ?st" using 1(2) det 1(4) by (rule lists_inv_free)
  moreover have "polls_inv (del_ctx c A) ?st"
    using P
  proof (rule polls_inv_step [where X = "{c}"])
    show "ready_ok ?st" using us_invD(3) [OF I] 1(3) by (simp add: ready_ok_def pending_def)
    fix p assume p: "p \<in> fst ` set (pending ?st)" "p \<noteq> NULL"
    then have "open_poll A st p" using polls_invD(5) [OF P] 1(3) by (simp add: pending_def)
    then consider "cb_typed st p" | "p \<in> set (al_low A)"
      | d where "d \<in> set (al_ctxs A)" "p \<in> set (al_socks A d) \<or> p \<in> set (al_listen A d)"
      unfolding open_poll_def by blast
    then show "p \<notin> {c} \<and> cb_typed st p \<or> open_poll (del_ctx c A) ?st p"
    proof cases
      case 1
      moreover have "p \<noteq> c" using 1 ctx(1) by (auto simp: cb_typed_def is_cb_def is_ctx_def)
      ultimately show ?thesis by simp
    next
      case 2
      then show ?thesis by (simp add: open_poll_def del_ctx_def)
    next
      case 3
      then have "d \<noteq> c" using e by (auto simp: ctx_empty_def)
      then have "d \<in> set (al_ctxs (del_ctx c A))" using 3(1) by (simp add: del_ctx_def)
      then show ?thesis using 3(2) unfolding open_poll_def by (auto simp: del_ctx_def)
    qed
  next
    fix d s assume d: "d \<in> set (al_ctxs (del_ctx c A))" "s \<in> set (al_socks (del_ctx c A) d)"
    then have "s \<noteq> c" using det unfolding detached_def by blast
    then show "s \<notin> {c} \<and> (d \<in> set (al_ctxs A) \<and> s \<in> set (al_socks A d) \<or> sock_typed st s) \<or> sock_typed ?st s"
      using d notin_set_remove1 by (force simp: del_ctx_def)
  next
    fix d s assume d: "d \<in> set (al_ctxs (del_ctx c A))" "s \<in> set (al_listen (del_ctx c A) d)"
    then have "s \<noteq> c" using det unfolding detached_def by blast
    then show "s \<notin> {c} \<and> d \<in> set (al_ctxs A) \<and> s \<in> set (al_listen A d) \<or> listen_typed ?st s"
      using d notin_set_remove1 by (force simp: del_ctx_def)
  next
    fix s assume s: "s \<in> set (al_low (del_ctx c A))"
    then have "s \<noteq> c" using det unfolding detached_def by blast
    then show "s \<notin> {c} \<and> s \<in> set (al_low A) \<or> low_typed ?st s" using s by (simp add: del_ctx_def)
  qed (use 1(3) in auto)
  ultimately show ?thesis using eq us_invI by auto
qed

text \<open>Setting a handler.\<close>

lemma ctx_fields_ok:
  assumes I: "us_inv A st" and c: "is_ctx st c"
    and C: "c_head_sockets C = c_head_sockets (ctxs st c)"
      "c_head_listen_sockets C = c_head_listen_sockets (ctxs st c)"
      "c_iterator C = c_iterator (ctxs st c)" "c_next C = c_next (ctxs st c)" "c_prev C = c_prev (ctxs st c)"
  shows "evolves A st A (st\<lparr>ctxs := (ctxs st)(c := C)\<rparr>)" (is "evolves A st A ?st")
proof -
  have f: "c_head_sockets (((ctxs st)(c := C)) a) = c_head_sockets (ctxs st a)"
    "c_head_listen_sockets (((ctxs st)(c := C)) a) = c_head_listen_sockets (ctxs st a)"
    "c_iterator (((ctxs st)(c := C)) a) = c_iterator (ctxs st a)"
    "c_next (((ctxs st)(c := C)) a) = c_next (ctxs st a)"
    "c_prev (((ctxs st)(c := C)) a) = c_prev (ctxs st a)" for a
    using C by auto
  have "ctx_inv A ?st d = ctx_inv A st d" for d
    unfolding ctx_inv_def by (simp add: f del: fun_upd_apply)
  then have "lists_inv A ?st"
    using us_invD(1) [OF I]
    unfolding lists_inv_def low_inv_def closed_inv_def by (simp add: f del: fun_upd_apply)
  moreover have "polls_inv A ?st"
    using us_invD(2) [OF I]
    by (simp add: polls_inv_def sock_typed_def listen_typed_def low_typed_def established_def
        type3_def events3_def open_poll_def cb_typed_def ready_ok_def pending_def)
  moreover have "grows A st A ?st"
    by (rule grows_same) (use f in simp_all)
  ultimately show ?thesis by (simp add: evolves_def us_invI)
qed

lemma setters_ok:
  assumes I: "us_inv A st" and c: "c \<in> set (al_ctxs A)"
  shows "\<exists>st'. us_socket_context_on_pre_open c f st = Some st' \<and> evolves A st A st' \<and> c_on_pre_open (ctxs st' c) = f"
    "\<exists>st'. us_socket_context_on_open c f st = Some st' \<and> evolves A st A st' \<and> c_on_open (ctxs st' c) = f"
    "\<exists>st'. us_socket_context_on_close c f st = Some st' \<and> evolves A st A st' \<and> c_on_close (ctxs st' c) = f"
    "\<exists>st'. us_socket_context_on_data c f st = Some st' \<and> evolves A st A st' \<and> c_on_data (ctxs st' c) = f"
    "\<exists>st'. us_socket_context_on_writable c f st = Some st' \<and> evolves A st A st' \<and> c_on_writable (ctxs st' c) = f"
    "\<exists>st'. us_socket_context_on_timeout c f st = Some st' \<and> evolves A st A st' \<and> c_on_socket_timeout (ctxs st' c) = f"
    "\<exists>st'. us_socket_context_on_long_timeout c f st = Some st' \<and> evolves A st A st' \<and> c_on_socket_long_timeout (ctxs st' c) = f"
    "\<exists>st'. us_socket_context_on_end c f st = Some st' \<and> evolves A st A st' \<and> c_on_end (ctxs st' c) = f"
    "\<exists>st'. us_socket_context_on_connect_error c f st = Some st' \<and> evolves A st A st' \<and> c_on_connect_error (ctxs st' c) = f"
  using lists_inv_ctx [OF us_invD(1) [OF I] c] ctx_fields_ok [OF I]
  by (simp_all add: us_socket_context_on_pre_open_def us_socket_context_on_open_def
      us_socket_context_on_close_def us_socket_context_on_data_def us_socket_context_on_writable_def
      us_socket_context_on_timeout_def us_socket_context_on_long_timeout_def
      us_socket_context_on_end_def us_socket_context_on_connect_error_def)

section \<open>New sockets\<close>

lemma new_poll_ok:
  assumes K: "allocator_ok K" and fin: "finite (dom (objs st))" and k: "k = KSocket \<or> k = KListen" and ty: "ty AND 3 = ty"
  obtains b sa sb sc where "us_create_poll K k False st = (b, sa)" "us_poll_init b fd ty sa = Some sb"
    "us_poll_start b ev sb = Some sc" "b \<noteq> NULL" "objs st b = None" "new_block b st sc"
    "objs sc b = Some k" "is_sock sc b" "type3 sc b = ty" "events3 sc b = ev AND poll_mask"
    "socks sc = socks st" "ctxs sc = ctxs st" "num_polls sc = num_polls st + 1"
    "trace sc = trace st @ [EpollCtlAdd (sint (word_of_int fd :: 28 word)) ev b]"
proof -
  let ?s0 = "st\<lparr>num_polls := num_polls st + 1\<rparr>"
  have "finite (dom (objs ?s0))" using fin by simp
  from allocD [OF K this, of k] obtain b where
    b: "alloc K k ?s0 = (b, ?s0\<lparr>objs := (objs ?s0)(b \<mapsto> k)\<rparr>)" "b \<noteq> NULL" "objs ?s0 b = None" .
  let ?sa = "?s0\<lparr>objs := (objs ?s0)(b \<mapsto> k)\<rparr>"
  let ?sb = "?sa\<lparr>polls := (polls ?sa)(b := (polls ?sa b)\<lparr>p_fd := word_of_int fd, p_type := ty\<rparr>)\<rparr>"
  let ?sc = "emit (EpollCtlAdd (sint (p_fd (polls ?sb b))) ev b)
     (?sb\<lparr>polls := (polls ?sb)(b := (polls ?sb b)\<lparr>p_type :=
        (p_type (polls ?sb b) AND 3) OR type_of_events ev\<rparr>)\<rparr>)"
  have sa: "is_sock ?sa b" using b(2) k by (auto simp: is_sock_def)
  then have "is_poll ?sa b" "is_poll ?sb b" by simp_all
  then have eq: "us_create_poll K k False st = (b, ?sa)" "us_poll_init b fd ty ?sa = Some ?sb"
    "us_poll_start b ev ?sb = Some ?sc"
    using b(1) by (simp_all add: us_create_poll_def us_poll_init_def us_poll_start_eq)
  have sc: "is_sock ?sc b" using sa by simp
  have t: "type3 ?sc b = ty" using ty type_of_type_events [of ty ev]
    by (simp add: type3_def)
  have e: "events3 ?sc b = ev AND poll_mask"
    by (simp add: events3_def)
  show thesis
    by (rule that [OF eq]) (use b sc t e in \<open>simp_all add: new_block_def\<close>)
qed

lemma listen_on_ok:
  assumes I: "us_inv A st" and K: "allocator_ok K" and c: "c \<in> set (al_ctxs A)"
  shows "\<exists>b st'. listen_on K c fd n st = Some (b, st') \<and> b \<noteq> NULL \<and> objs st b = None \<and>
    evolves A st (add_listen c b A) st' \<and> ext_sizes st' b = n \<and>
    num_polls st' = num_polls st + 1"
proof -
  from new_poll_ok [OF K lists_inv_finite [OF us_invD(1) [OF I]] disjI2 [OF refl] poll_types_and3(3), of fd LIBUS_SOCKET_READABLE]
  obtain b sa sb sc where 1: "us_create_poll K KListen False st = (b, sa)"
    "us_poll_init b fd POLL_TYPE_SEMI_SOCKET sa = Some sb"
    "us_poll_start b LIBUS_SOCKET_READABLE sb = Some sc" "b \<noteq> NULL" "objs st b = None" "new_block b st sc"
    "objs sc b = Some KListen" "is_sock sc b" "type3 sc b = POLL_TYPE_SEMI_SOCKET"
    "events3 sc b = LIBUS_SOCKET_READABLE AND poll_mask"
    "socks sc = socks st" "ctxs sc = ctxs st" "num_polls sc = num_polls st + 1" .
  let ?k = "(socks sc b)\<lparr>s_context := c, s_timeout := 255, s_long_timeout := 255, s_low_prio_state := 0,
    s_next := NULL\<rparr>"
  let ?sd = "sc\<lparr>socks := (socks sc)(b := ?k)\<rparr>"
  have n: "new_block b st ?sd" using 1(6) by (simp add: new_block_def)
  note f = fresh_inv [OF I 1(5) n] and fb = fresh_block_ok(2,3) [OF I 1(5) n]
  have typed: "listen_typed ?sd b"
    using 1(9,10) by (simp add: listen_typed_def type3_def events3_def poll_mask_def event_defs)
  have o: "objs ?sd b = Some KListen" using 1(7) by simp
  from link_new_listen_ok [OF f(1) c fb(1) o 1(4) typed] obtain st' S where
    2: "us_internal_socket_context_link_listen_socket c b ?sd = Some st'"
    "evolves A ?sd (add_listen c b A) st'"
    "st' = ?sd\<lparr>socks := S, ctxs := (ctxs ?sd)(c := (ctxs ?sd c)\<lparr>c_head_listen_sockets := b\<rparr>)\<rparr>" by blast
  let ?se = "st'\<lparr>ext_sizes := (ext_sizes st')(b := n)\<rparr>"
  have ctx: "is_ctx st c" using lists_inv_ctx [OF us_invD(1) [OF I] c] .
  have eq: "listen_on K c fd n st = Some (b, ?se)"
    using 1(1-3,8) 2(1) ctx by (simp add: listen_on_def)
  have "us_inv (add_listen c b A) ?se" using 2(2) by (simp add: evolves_def)
  moreover have "grows A st (add_listen c b A) ?se"
    using grows_trans [OF f(2)] 2(2) by (simp add: evolves_def)
  ultimately have "evolves A st (add_listen c b A) ?se" by (simp add: evolves_def)
  then show ?thesis using eq 1(4,5,13) 2(3) by simp
qed

lemma connect_on_ok:
  assumes I: "us_inv A st" and K: "allocator_ok K" and c: "c \<in> set (al_ctxs A)"
  shows "\<exists>b st'. connect_on K c fd st = Some (b, st') \<and> b \<noteq> NULL \<and> objs st b = None \<and>
    evolves A st (add_sock c b A) st' \<and> num_polls st' = num_polls st + 1 \<and>
    type3 st' b = POLL_TYPE_SEMI_SOCKET \<and> events3 st' b = LIBUS_SOCKET_WRITABLE \<and>
    s_timeout (socks st' b) = 255 \<and> s_long_timeout (socks st' b) = 255 \<and> s_context (socks st' b) = c"
proof -
  from new_poll_ok [OF K lists_inv_finite [OF us_invD(1) [OF I]] disjI1 [OF refl] poll_types_and3(3), of fd LIBUS_SOCKET_WRITABLE]
  obtain b sa sb sc where 1: "us_create_poll K KSocket False st = (b, sa)"
    "us_poll_init b fd POLL_TYPE_SEMI_SOCKET sa = Some sb"
    "us_poll_start b LIBUS_SOCKET_WRITABLE sb = Some sc" "b \<noteq> NULL" "objs st b = None" "new_block b st sc"
    "objs sc b = Some KSocket" "is_sock sc b" "type3 sc b = POLL_TYPE_SEMI_SOCKET"
    "events3 sc b = LIBUS_SOCKET_WRITABLE AND poll_mask"
    "socks sc = socks st" "ctxs sc = ctxs st" "num_polls sc = num_polls st + 1" .
  let ?k = "(socks sc b)\<lparr>s_context := c, s_timeout := 255, s_long_timeout := 255, s_low_prio_state := 0\<rparr>"
  let ?sd = "sc\<lparr>socks := (socks sc)(b := ?k)\<rparr>"
  have n: "new_block b st ?sd" using 1(6) by (simp add: new_block_def)
  note f = fresh_inv [OF I 1(5) n] and fb = fresh_block_ok(2,3) [OF I 1(5) n]
  have ev: "events3 ?sd b = LIBUS_SOCKET_WRITABLE" "type3 ?sd b = POLL_TYPE_SEMI_SOCKET"
    using 1(9,10) by (simp_all add: type3_def events3_def poll_mask_def event_defs)
  then have typed: "sock_typed ?sd b" by (simp add: sock_typed_def)
  have o: "objs ?sd b = Some KSocket" "s_low_prio_state (socks ?sd b) \<noteq> 1" using 1(7) by simp_all
  from link_new_ok [OF f(1) c fb(1) o(1) 1(4) o(2) typed] obtain st' S where
    2: "us_internal_socket_context_link_socket c b ?sd = Some st'"
    "evolves A ?sd (add_sock c b A) st'"
    "st' = ?sd\<lparr>socks := S, ctxs := (ctxs ?sd)(c := (ctxs ?sd c)\<lparr>c_head_sockets := b\<rparr>)\<rparr>"
    "same_core ((socks ?sd)(b := (socks ?sd b)\<lparr>s_context := c\<rparr>)) S" by blast
  have ctx: "is_ctx st c" using lists_inv_ctx [OF us_invD(1) [OF I] c] .
  have eq: "connect_on K c fd st = Some (b, st')"
    using 1(1-3,8) 2(1) ctx by (simp add: connect_on_def)
  have "evolves A st (add_sock c b A) st'"
    using grows_trans [OF f(2)] 2(2) by (simp add: evolves_def)
  then show ?thesis using eq 1(4,5,13) 2(3) ev same_coreD [OF 2(4), of b]
    by (simp add: type3_def events3_def)
qed

section \<open>Closing a listen socket\<close>

definition abs_close_listen :: "addr \<Rightarrow> addr \<Rightarrow> alists \<Rightarrow> alists" where
  "abs_close_listen c s A = add_closed s (del_listen c s A)"

lemma us_listen_socket_close_ok:
  assumes I: "us_inv A st" and c: "c \<in> set (al_ctxs A)" and s: "s \<in> set (al_listen A c)"
  shows "\<exists>st'. us_listen_socket_close s st = Some st' \<and> evolves A st (abs_close_listen c s A) st' \<and>
    close_effect s st st'"
proof -
  note L = us_invD(1) [OF I] and P = us_invD(2) [OF I]
  have sk: "is_sock st s" "s_context (socks st s) = c" using lists_inv_listen [OF L c s] by auto
  from unlink_listen_ok [OF L c s] obtain st1 S C h where
    1: "us_internal_socket_context_unlink_listen_socket c s st = Some st1" "lists_inv (del_listen c s A) st1"
      "detached (del_listen c s A) s" and
    st1: "st1 = st\<lparr>socks := S, ctxs := (ctxs st)(c := C)\<rparr>" and S: "S s = socks st s" and
    C: "C = (ctxs st c)\<lparr>c_head_listen_sockets := h\<rparr>"
    by blast
  have k1: "is_sock st1 s" "is_ctx st1 (s_context (socks st1 s))" "ready_ok st1" "pending st1 = pending st"
    "fd_of st1 s = fd_of st s"
    using sk S lists_inv_ctx [OF L c] us_invD(3) [OF I] st1 by (simp_all add: ready_ok_def pending_def fd_of_def)
  from stop_and_link_closed_ok [OF 1(2,3) k1(1,2,3)] obtain st2 rs where
    2: "stop_and_link_closed s st1 = Some st2" "lists_inv (abs_close_listen c s A) st2"
      "ready_ok st2" "pending st2 = replace_first s NULL (pending st)" and
    st2: "st2 = st1\<lparr>ready_polls := rs, trace := trace st1 @ [EpollCtlDel (fd_of st1 s), Close (fd_of st1 s)],
       socks := (socks st1)(s := (socks st1 s)\<lparr>s_next := l_closed_head st1,
         s_prev := s_context (socks st1 s)\<rparr>), l_closed_head := s\<rparr>"
    using k1(4) unfolding abs_close_listen_def by auto
  have "s_prev (socks st s) \<noteq> s_context (socks st s)" using open_prev_neq_context(2) [OF L c s] .
  then have eq: "us_listen_socket_close s st = Some st2"
    using sk 1(1) 2(1) by (simp add: us_listen_socket_close_def)
  have "polls_inv (abs_close_listen c s A) st2"
    using P
  proof (rule polls_inv_step [where X = "{}"])
    fix p assume p: "p \<in> fst ` set (pending st2)" "p \<noteq> NULL"
    have s0: "s \<noteq> NULL" using sk by (auto simp: is_sock_def)
    have dis: "distinct (filter (\<lambda>p. p \<noteq> NULL) (map fst (pending st)))"
      using polls_invD(4) [OF P] by (simp add: ready_ok_def)
    have p': "p \<in> fst ` set (pending st)" "p \<noteq> s"
      using p 2(4) replace_first_set [OF dis s0, of NULL] replace_first_notin [OF dis s0]
      by (auto split: if_splits)
    have "open_poll A st p" using polls_invD(5) [OF P p'(1) p(2)] .
    then show "p \<notin> {} \<and> cb_typed st p \<or> open_poll (abs_close_listen c s A) st2 p"
      using p'(2) unfolding open_poll_def abs_close_listen_def by auto
  next
    fix d x assume "d \<in> set (al_ctxs (abs_close_listen c s A))" "x \<in> set (al_listen (abs_close_listen c s A) d)"
    then show "x \<notin> {} \<and> d \<in> set (al_ctxs A) \<and> x \<in> set (al_listen A d) \<or> listen_typed st2 x"
      using set_remove1_subset [of s "al_listen A c"] by (auto simp: abs_close_listen_def split: if_splits)
  qed (use 2(3) st1 st2 in \<open>auto simp: abs_close_listen_def\<close>)
  then have inv: "us_inv (abs_close_listen c s A) st2" using 2(2) us_invI by metis
  have eff: "close_effect s st st2"
    using st1 st2 S k1(5) by (simp add: close_effect_def C c_handlers_def)
  have "sweep_ok A st (abs_close_listen c s A) st2 d" for d
    by (rule sweep_ok_same) (use st1 st2 C in \<open>simp_all add: abs_close_listen_def\<close>)
  then have "grows A st (abs_close_listen c s A) st2"
    using st1 st2 unfolding grows_def by (auto simp: abs_close_listen_def)
  with eq inv eff show ?thesis unfolding evolves_def by blast
qed

section \<open>Closing a context\<close>

declare close_listen_loop.simps [code] close_sockets_loop.simps [code]

lemma close_listen_loop_ok:
  "us_inv A st \<Longrightarrow> c \<in> set (al_ctxs A) \<Longrightarrow> al_listen A c = xs \<Longrightarrow>
   \<exists>st'. close_listen_loop (hd0 xs) st = Some st' \<and>
     evolves A st (A\<lparr>al_listen := (al_listen A)(c := []), al_closed := rev xs @ al_closed A\<rparr>) st' \<and>
     (\<forall>d. c_handlers (ctxs st' d) = c_handlers (ctxs st d))"
proof (induction xs arbitrary: A st)
  case Nil
  then have eqA: "A\<lparr>al_listen := (al_listen A)(c := []), al_closed := rev [] @ al_closed A\<rparr> = A"
    by (simp add: fun_upd_idem)
  have cl: "close_listen_loop (hd0 []) st = Some st"
    by (simp add: close_listen_loop.simps [of NULL])
  show ?case unfolding eqA
    by (intro exI conjI allI) (rule cl evolves_refl [OF Nil(1)] refl)+
next
  case (Cons x xs)
  have x: "x \<in> set (al_listen A c)" using Cons.prems by simp
  note L = us_invD(1) [OF Cons.prems(1)]
  from us_listen_socket_close_ok [OF Cons.prems(1,2) x] obtain st1 where
    1: "us_listen_socket_close x st = Some st1" "evolves A st (abs_close_listen c x A) st1"
    "close_effect x st st1" by blast
  have sk: "is_sock st x" using lists_inv_listen(1) [OF L Cons.prems(2) x] .
  have "dll (snx st) (spv st) NULL (c_head_listen_sockets (ctxs st c)) (x # xs)"
    using lists_invD(6) [OF L Cons.prems(2)] Cons.prems(3) by simp
  then have nx: "s_next (socks st x) = hd0 xs" "x \<noteq> NULL"
    by (blast dest: dll_next)+
  have A1: "us_inv (abs_close_listen c x A) st1" using 1(2) by (simp add: evolves_def)
  have c1: "c \<in> set (al_ctxs (abs_close_listen c x A))" "al_listen (abs_close_listen c x A) c = xs"
    using Cons.prems by (simp_all add: abs_close_listen_def)
  from Cons.IH [OF A1 c1] obtain st2 where
    2: "close_listen_loop (hd0 xs) st1 = Some st2"
    "evolves (abs_close_listen c x A) st1 ((abs_close_listen c x A)\<lparr>al_listen :=
       (al_listen (abs_close_listen c x A))(c := []), al_closed := rev xs @ al_closed (abs_close_listen c x A)\<rparr>) st2"
    "\<forall>d. c_handlers (ctxs st2 d) = c_handlers (ctxs st1 d)" by blast
  have "(abs_close_listen c x A)\<lparr>al_listen := (al_listen (abs_close_listen c x A))(c := []),
      al_closed := rev xs @ al_closed (abs_close_listen c x A)\<rparr> =
    A\<lparr>al_listen := (al_listen A)(c := []), al_closed := rev (x # xs) @ al_closed A\<rparr>"
    by (simp add: abs_close_listen_def abs_defs)
  with 2(2) have "evolves (abs_close_listen c x A) st1
      (A\<lparr>al_listen := (al_listen A)(c := []), al_closed := rev (x # xs) @ al_closed A\<rparr>) st2" by simp
  with 1(2) have "evolves A st (A\<lparr>al_listen := (al_listen A)(c := []), al_closed := rev (x # xs) @ al_closed A\<rparr>) st2"
    by (rule evolves_trans)
  moreover have "close_listen_loop (hd0 (x # xs)) st = Some st2"
    using nx sk 1(1) 2(1) by (simp add: close_listen_loop.simps [of x])
  moreover have "c_handlers (ctxs st2 d) = c_handlers (ctxs st d)" for d
    using 1(3) 2(3) by (simp add: close_effect_def)
  ultimately show ?case by blast
qed

text \<open>A close handler that leaves the sockets alone.\<close>

definition quiet_close :: "handlers \<Rightarrow> fnptr \<Rightarrow> bool" where
  "quiet_close H f \<longleftrightarrow> f \<noteq> FnNull \<and> (\<forall>A st s code reason. us_inv A st \<longrightarrow>
     (\<exists>x st'. h_close H f s code reason st = Some (x, st') \<and> evolves A st A st' \<and>
        (\<forall>d. c_handlers (ctxs st' d) = c_handlers (ctxs st d))))"

lemma close_sockets_loop_ok:
  assumes q: "quiet_close H f"
  shows "us_inv A st \<Longrightarrow> c \<in> set (al_ctxs A) \<Longrightarrow> al_socks A c = xs \<Longrightarrow> c_on_close (ctxs st c) = f \<Longrightarrow>
   \<exists>st'. close_sockets_loop H (hd0 xs) st = Some st' \<and>
     evolves A st (A\<lparr>al_socks := (al_socks A)(c := []), al_closed := rev xs @ al_closed A\<rparr>) st'"
proof (induction xs arbitrary: A st)
  case Nil
  then have eqA: "A\<lparr>al_socks := (al_socks A)(c := []), al_closed := rev [] @ al_closed A\<rparr> = A"
    by (simp add: fun_upd_idem)
  have cl: "close_sockets_loop H (hd0 []) st = Some st"
    by (simp add: close_sockets_loop.simps [of H NULL])
  show ?case unfolding eqA
    by (intro exI conjI) (rule cl evolves_refl [OF Nil(1)])+
next
  case (Cons x xs)
  have x: "x \<in> set (al_socks A c)" using Cons.prems by simp
  note L = us_invD(1) [OF Cons.prems(1)]
  have live: "live_sock A x" using x Cons.prems(2) by (auto simp: live_sock_def open_sock_def)
  have sk: "is_sock st x" "s_context (socks st x) = c" using lists_inv_socks(1,3) [OF L Cons.prems(2) x] .
  from close_steps [OF Cons.prems(1) live, of H 0 NULL] sk(2) Cons.prems(4) obtain st1 where
    1: "us_socket_close H x 0 NULL st = call_close H f x 0 NULL st1"
    "evolves A st (abs_close c x A) st1" "close_effect x st st1" by auto
  have "us_inv (abs_close c x A) (emit (OnClose x 0 NULL) st1)" using 1(2) by (simp add: evolves_def)
  with q obtain y st2 where
    2: "h_close H f x 0 NULL (emit (OnClose x 0 NULL) st1) = Some (y, st2)"
    "evolves (abs_close c x A) (emit (OnClose x 0 NULL) st1) (abs_close c x A) st2"
    "\<forall>d. c_handlers (ctxs st2 d) = c_handlers (ctxs (emit (OnClose x 0 NULL) st1) d)"
    unfolding quiet_close_def by blast
  have cl: "us_socket_close H x 0 NULL st = Some (y, st2)"
    using 1(1) 2(1) q by (simp add: call_close_def quiet_close_def)
  have "dll (snx st) (spv st) NULL (c_head_sockets (ctxs st c)) (x # xs)"
    using lists_invD(5) [OF L Cons.prems(2)] Cons.prems(3) by simp
  then have nx: "s_next (socks st x) = hd0 xs" "x \<noteq> NULL"
    by (blast dest: dll_next)+
  have A2: "us_inv (abs_close c x A) st2" using 2(2) by (simp add: evolves_def)
  have c1: "c \<in> set (al_ctxs (abs_close c x A))" "al_socks (abs_close c x A) c = xs"
    "c_on_close (ctxs st2 c) = f"
    using Cons.prems close_effect_handlers [OF 1(3)]
      c_handlersD(5) [OF 2(3) [THEN spec, of c]] by simp_all
  from Cons.IH [OF A2 c1] obtain st3 where
    3: "close_sockets_loop H (hd0 xs) st2 = Some st3"
    "evolves (abs_close c x A) st2 ((abs_close c x A)\<lparr>al_socks :=
       (al_socks (abs_close c x A))(c := []), al_closed := rev xs @ al_closed (abs_close c x A)\<rparr>) st3" by blast
  have "x \<notin> set (al_low A)" using lists_disjoint(4) [OF L Cons.prems(2) x] .
  then have "remove1 x (al_low A) = al_low A" by (rule remove1_idem)
  then have "(abs_close c x A)\<lparr>al_socks := (al_socks (abs_close c x A))(c := []),
      al_closed := rev xs @ al_closed (abs_close c x A)\<rparr> =
    A\<lparr>al_socks := (al_socks A)(c := []), al_closed := rev (x # xs) @ al_closed A\<rparr>"
    by (simp add: abs_close_def abs_defs)
  with 3(2) have "evolves (abs_close c x A) st2
      (A\<lparr>al_socks := (al_socks A)(c := []), al_closed := rev (x # xs) @ al_closed A\<rparr>) st3" by simp
  moreover have "evolves A st (abs_close c x A) st2"
    using 1(2) 2(2) evolves_trans evolves_emit by blast
  ultimately have "evolves A st (A\<lparr>al_socks := (al_socks A)(c := []), al_closed := rev (x # xs) @ al_closed A\<rparr>) st3"
    using evolves_trans by blast
  moreover have "close_sockets_loop H (hd0 (x # xs)) st = Some st3"
    using nx sk cl 3(1) by (simp add: close_sockets_loop.simps [of H x])
  ultimately show ?case by blast
qed

section \<open>Adoption keeps the invariant\<close>

text \<open>
  Moving a socket that is in no list to a block of another size. When the block moves, the
  poll must poll for something: with no events the code neither updates the pointer the
  kernel holds nor the pending entry.
\<close>

definition moved :: "addr \<Rightarrow> addr \<Rightarrow> us \<Rightarrow> us \<Rightarrow> bool" where
  "moved s b st st' \<longleftrightarrow>
    (\<exists>ob ps ss es cs rs ls ue tr. st' = st\<lparr>objs := ob, polls := ps, socks := ss, ext_sizes := es, cbs := cs,
        ssl_socks := ls, u_ext := ue, ready_polls := rs, trace := trace st @ tr\<rparr> \<and>
      (\<forall>a. a \<noteq> s \<and> a \<noteq> b \<longrightarrow> ob a = objs st a \<and> ps a = polls st a \<and> ss a = socks st a \<and> cs a = cbs st a))"

lemma moved_refl: "moved s s st st"
  unfolding moved_def
  by (intro exI [of _ "objs st"] exI [of _ "polls st"] exI [of _ "socks st"] exI [of _ "ext_sizes st"]
      exI [of _ "cbs st"] exI [of _ "ready_polls st"] exI [of _ "ssl_socks st"] exI [of _ "u_ext st"] exI [of _ "[]"]) simp

lemma movedD:
  assumes "moved s b st st'"
  shows "ctxs st' = ctxs st" "l_iterator st' = l_iterator st" "l_head st' = l_head st"
    "current_ready_poll st' = current_ready_poll st" "num_ready_polls st' = num_ready_polls st"
    "a \<noteq> s \<Longrightarrow> a \<noteq> b \<Longrightarrow> objs st' a = objs st a \<and> polls st' a = polls st a \<and>
       socks st' a = socks st a \<and> cbs st' a = cbs st a"
    "num_polls st' = num_polls st" "prefix (trace st) (trace st')"
    "l_pre_cb st' = l_pre_cb st" "l_post_cb st' = l_post_cb st"
  using assms by (auto simp: moved_def)

lemma us_poll_resize_ok:
  assumes I: "lists_inv A st" and K: "allocator_ok K" and det: "detached A s"
    and s: "objs st s = Some KSocket" "s \<noteq> NULL" and r: "ready_ok st"
    and pe: "\<And>p. p \<in> fst ` set (pending st) \<Longrightarrow> p \<noteq> NULL \<Longrightarrow> objs st p \<noteq> None"
    and ev: "events3 st s \<noteq> 0 \<or> k_realloc K st s = s"
  shows "\<exists>b st'. us_poll_resize K s st = Some (b, st') \<and> lists_inv A st' \<and> detached A b \<and>
    objs st' b = Some KSocket \<and> b \<noteq> NULL \<and> socks st' b = socks st s \<and>
    type3 st' b = type3 st s \<and> events3 st' b = events3 st s \<and> ready_ok st' \<and>
    pending st' = (if b = s then pending st else replace_first s b (pending st)) \<and>
    (b = s \<or> objs st b = None) \<and> moved s b st st'"
proof (cases "k_realloc K st s = s")
  case True
  have sk: "is_poll st s" using s by (simp add: is_poll_def)
  then have "us_poll_resize K s st = Some (s, st)"
    using s True by (simp add: us_poll_resize_def realloc_obj_def)
  with I det s r moved_refl show ?thesis by simp
next
  case False
  let ?b = "k_realloc K st s"
  have b: "?b \<noteq> NULL" "objs st ?b = None" using K False lists_inv_finite [OF I] by (auto simp: allocator_ok_def)
  let ?st1 = "st\<lparr>objs := (objs st)(s := None, ?b := objs st s),
          polls := (polls st)(?b := polls st s),
          socks := (socks st)(?b := socks st s),
          ext_sizes := (ext_sizes st)(?b := ext_sizes st s),
          cbs := (cbs st)(?b := cbs st s), ssl_socks := (ssl_socks st)(?b := ssl_socks st s), u_ext := (u_ext st)(?b := u_ext st s)\<rparr>"
  have eq1: "realloc_obj K s st = Some (?b, ?st1)" using s False by (simp add: realloc_obj_def Let_def)
  have sk: "is_poll st s" "is_sock st s" using s by (simp_all add: is_poll_def is_sock_def)
  have p1: "is_poll ?st1 ?b" using s b by (simp add: is_poll_def)
  let ?st2 = "?st1\<lparr>polls := (polls ?st1)(?b := (polls ?st1 ?b)\<lparr>p_type := type3 st s\<rparr>)\<rparr>"
  have e2: "events3 ?st2 ?b = 0" by (simp add: events3_def type3_def)
  let ?q = "(polls st s)\<lparr>p_type := (type3 st s AND 3) OR type_of_events (events3 st s)\<rparr>"
  let ?st3 = "emit (EpollCtlMod (sint (p_fd (polls st s))) (events3 st s) ?b)
      (?st2\<lparr>polls := (polls ?st2)(?b := ?q)\<rparr>)"
  let ?st4 = "us_internal_loop_update_pending_ready_polls s ?b ?st3"
  have ty: "us_internal_poll_type ?b ?st1 = Some (type3 st s)" using p1 by (simp add: type3_def)
  have "us_poll_change ?b (events3 st s) ?st2 = Some ?st3"
    using p1 e2 ev False by (simp add: us_poll_change_eq events3_def)
  then have eq: "us_poll_resize K s st = Some (?b, ?st4)"
    using sk eq1 ty p1 ev False by (simp add: us_poll_resize_def)
  have sc: "s \<notin> set (al_ctxs A)" using sock_not_ctx [OF I sk(2)] .
  note bd = fresh_detached [OF I b(2)]
  have f: "poll_frame (?st1\<lparr>polls := polls ?st3\<rparr>) ?st4"
    by (rule poll_frameI [where ps = "polls ?st3" and rs = "ready_polls ?st4"
          and tr = "[EpollCtlMod (sint (p_fd (polls st s))) (events3 st s) ?b]"])
      (simp add: us_internal_loop_update_pending_ready_polls_def emit_def)
  have "lists_inv A (?st1\<lparr>polls := polls ?st3\<rparr>)"
    using I by (rule lists_inv_far [where X = "{s, ?b}"]) (use det sc bd in auto)
  then have L4: "lists_inv A ?st4" using lists_inv_poll_frame [OF f] by simp
  have r3: "ready_ok ?st3" "pending ?st3 = pending st" using r by (simp_all add: ready_ok_def pending_def)
  have nb: "?b \<notin> fst ` set (pending ?st3)" using pe [of ?b] b r3 by auto
  have t: "type3 ?st4 ?b = type3 st s" "events3 ?st4 ?b = events3 st s"
    using type_of_type_events [of "type3 st s" "events3 st s"]
      events_type_events [of "type3 st s" "events3 st s"]
    by (simp_all add: type3_def events3_def)
  have r4: "ready_ok ?st4" "pending ?st4 = replace_first s ?b (pending st)"
    using update_pending_ready_ok [OF r3(1) s(2) disjI2 [OF nb]] update_pending_pending [OF r3(1)] r3(2)
    by simp_all
  have m: "moved s ?b st ?st4"
    unfolding moved_def
    by (intro exI [of _ "objs ?st4"] exI [of _ "polls ?st4"] exI [of _ "socks ?st4"]
        exI [of _ "ext_sizes ?st1"] exI [of _ "cbs ?st4"] exI [of _ "ready_polls ?st4"]
        exI [of _ "ssl_socks ?st1"] exI [of _ "u_ext ?st1"]
        exI [of _ "[EpollCtlMod (sint (p_fd (polls st s))) (events3 st s) ?b]"])
      (simp add: us_internal_loop_update_pending_ready_polls_def emit_def)
  have o: "objs ?st4 ?b = Some KSocket" "socks ?st4 ?b = socks st s" using s by simp_all
  have pb: "pending ?st4 = (if ?b = s then pending st else replace_first s ?b (pending st))"
    using r4(2) False by (simp only: if_False)
  show ?thesis
    by (intro exI conjI) (rule eq L4 bd(1) o b(1) t r4(1) pb disjI2 [OF b(2)] m)+
qed

text \<open>The lists after the adoption of \<open>s\<close>, now at \<open>b\<close>, from context \<open>d\<close> by context \<open>c\<close>.\<close>

definition abs_adopt :: "addr \<Rightarrow> addr \<Rightarrow> addr \<Rightarrow> addr \<Rightarrow> alists \<Rightarrow> alists" where
  "abs_adopt d c s b A = add_sock c b (del_sock d s A)"

lemma adopt_open_ok:
  assumes I: "us_inv A st" and K: "allocator_ok K" and c: "c \<in> set (al_ctxs A)" and o: "open_sock A s"
    and ev: "events3 st s \<noteq> 0 \<or> (\<forall>st. k_realloc K st s = s)"
  defines "d \<equiv> s_context (socks st s)"
  shows "\<exists>b st'. us_socket_context_adopt_socket K c s st = Some (b, st') \<and>
    evolves A st (abs_adopt d c s b A) st' \<and> (b = s \<or> objs st b = None) \<and> b \<noteq> NULL \<and>
    s_context (socks st' b) = c \<and> s_timeout (socks st' b) = 255 \<and> s_long_timeout (socks st' b) = 255 \<and>
    type3 st' b = type3 st s \<and> events3 st' b = events3 st s \<and>
    pending st' = (if b = s then pending st else replace_first s b (pending st)) \<and>
    num_polls st' = num_polls st"
proof -
  note L = us_invD(1) [OF I] and P = us_invD(2) [OF I] and od = open_sockD [OF us_invD(1) [OF I] o]
  have d: "d \<in> set (al_ctxs A)" "s \<in> set (al_socks A d)" using od(2,3) by (simp_all add: d_def)
  have s0: "s \<noteq> NULL" using od(1) by (auto simp: is_sock_def)
  from unlink_socket_ok [OF L d] obtain st1 S C h where
    1: "us_internal_socket_context_unlink_socket d s st = Some st1" "lists_inv (del_sock d s A) st1"
      "detached (del_sock d s A) s" and
    st1: "st1 = st\<lparr>socks := S, ctxs := (ctxs st)(d := C)\<rparr>" and S: "S s = socks st s" and
    C: "C = (fix_iter s (s_next (socks st s)) (ctxs st d))\<lparr>c_head_sockets := h\<rparr>"
    by blast
  have r1: "ready_ok st1" and p1: "pending st1 = pending st" and e1: "events3 st1 s = events3 st s"
    and t1: "type3 st1 s = type3 st s" and o1: "objs st1 s = Some KSocket" and k1: "is_sock st1 s"
    and x1: "is_ctx st1 (s_context (socks st1 s))"
    using us_invD(3) [OF I] st1 S od(1,4,10)
    by (simp_all add: ready_ok_def pending_def events3_def type3_def)
  have pe: "objs st1 p \<noteq> None" if "p \<in> fst ` set (pending st1)" "p \<noteq> NULL" for p
  proof -
    have "open_poll A st p" using polls_invD(5) [OF P] that p1 by simp
    then have "objs st p \<noteq> None"
      unfolding open_poll_def cb_typed_def is_cb_def
      using lists_inv_low(2) [OF L] lists_inv_socks(2) [OF L] lists_inv_listen(2) [OF L] by fastforce
    then show ?thesis using st1 by simp
  qed
  have ev1: "events3 st1 s \<noteq> 0 \<or> k_realloc K st1 s = s" using ev e1 by auto
  from us_poll_resize_ok [OF 1(2) K 1(3) o1 s0 r1 pe ev1] obtain b st2 where
    2: "us_poll_resize K s st1 = Some (b, st2)" "lists_inv (del_sock d s A) st2" "detached (del_sock d s A) b"
    "objs st2 b = Some KSocket" "b \<noteq> NULL" "socks st2 b = socks st1 s" "type3 st2 b = type3 st s"
    "events3 st2 b = events3 st s" "ready_ok st2"
    "pending st2 = (if b = s then pending st else replace_first s b (pending st))"
    "b = s \<or> objs st1 b = None" "moved s b st1 st2"
    using e1 t1 p1 by auto
  note mv = movedD [OF 2(12)]
  have k2: "is_sock st2 b" using 2(4,5) by (simp add: is_sock_def)
  let ?k = "(socks st2 b)\<lparr>s_timeout := 255, s_long_timeout := 255\<rparr>"
  let ?st3 = "st2\<lparr>socks := (socks st2)(b := ?k)\<rparr>"
  have L3: "lists_inv (del_sock d s A) ?st3" using 2(2) by (rule lists_inv_sock_fields) simp_all
  have low3: "s_low_prio_state (socks ?st3 b) \<noteq> 1" "objs ?st3 b = Some KSocket"
    using 2(4,6) S st1 od(5) by simp_all
  have c1: "c \<in> set (al_ctxs (del_sock d s A))" using c by simp
  from link_socket_ok [OF L3 c1 low3(2) 2(5,3) low3(1)] obtain st4 S4 where
    4: "us_internal_socket_context_link_socket c b ?st3 = Some st4" "lists_inv (abs_adopt d c s b A) st4"
    "same_core ((socks ?st3)(b := (socks ?st3 b)\<lparr>s_context := c\<rparr>)) S4" and
    st4: "st4 = ?st3\<lparr>socks := S4, ctxs := (ctxs ?st3)(c := (ctxs ?st3 c)\<lparr>c_head_sockets := b\<rparr>)\<rparr>"
    unfolding abs_adopt_def by blast
  have eq: "us_socket_context_adopt_socket K c s st = Some (b, st4)"
    using od(1,5,6) 1(1) k1 x1 2(1) k2 low3(1) 4(1)
    by (simp add: us_socket_context_adopt_socket_def flip: d_def)
  have ty4: "sock_typed st4 b"
  proof -
    have "sock_typed st s" using polls_invD(1) [OF P d] .
    then show ?thesis using 2(7,8) st4
      by (simp add: sock_typed_def established_def type3_def events3_def)
  qed
  have polls4: "polls st4 = polls st2" "cbs st4 = cbs st2" "objs st4 = objs st2" "pending st4 = pending st2"
    using st4 by (simp_all add: pending_def)
  have dis: "distinct (al_socks A d)" using dll_distinct [OF lists_invD(5) [OF L d(1)]] .
  have bfresh: "b = s \<or> objs st b = None" using 2(11) st1 by simp
  have nocb: "\<not> cb_typed st s" using od(10) by (simp add: cb_typed_def is_cb_def)
  have P4: "polls_inv (abs_adopt d c s b A) st4"
    using P
  proof (rule polls_inv_step [where X = "{s, b}"])
    show "ready_ok st4" using 2(9) st4 by (simp add: ready_ok_def pending_def)
  next
    fix a assume "a \<notin> {s, b}"
    then show "polls st4 a = polls st a \<and> cbs st4 a = cbs st a \<and> objs st4 a = objs st a"
      using mv(6) [of a] st1 polls4 by simp
  next
    fix e x assume x: "e \<in> set (al_ctxs (abs_adopt d c s b A))" "x \<in> set (al_socks (abs_adopt d c s b A) e)"
    show "x \<notin> {s, b} \<and> (e \<in> set (al_ctxs A) \<and> x \<in> set (al_socks A e) \<or> sock_typed st x) \<or> sock_typed st4 x"
    proof (cases "x = b")
      case False
      then have xe: "x \<in> set (al_socks (del_sock d s A) e)" "e \<in> set (al_ctxs A)"
        using x by (auto simp: abs_adopt_def split: if_splits)
      then have "x \<in> set (al_socks A e)"
        using set_remove1_subset [of s "al_socks A d"] by (auto split: if_splits)
      moreover have "x \<noteq> s" using 1(3) xe unfolding detached_def by auto
      ultimately show ?thesis using False xe(2) by blast
    qed (use ty4 in blast)
  next
    fix e x assume x: "e \<in> set (al_ctxs (abs_adopt d c s b A))" "x \<in> set (al_listen (abs_adopt d c s b A) e)"
    then have "x \<in> set (al_listen A e)" "e \<in> set (al_ctxs A)" by (simp_all add: abs_adopt_def)
    moreover have "x \<noteq> s" "x \<noteq> b" using 1(3) 2(3) calculation unfolding detached_def by auto
    ultimately show "x \<notin> {s, b} \<and> e \<in> set (al_ctxs A) \<and> x \<in> set (al_listen A e) \<or> listen_typed st4 x"
      by blast
  next
    fix x assume x: "x \<in> set (al_low (abs_adopt d c s b A))"
    then have "x \<in> set (al_low A)" by (simp add: abs_adopt_def)
    moreover have "x \<noteq> s" "x \<noteq> b" using 1(3) 2(3) calculation unfolding detached_def by auto
    ultimately show "x \<notin> {s, b} \<and> x \<in> set (al_low A) \<or> low_typed st4 x" by blast
  next
    fix p assume p: "p \<in> fst ` set (pending st4)" "p \<noteq> NULL"
    have dr: "distinct (filter (\<lambda>p. p \<noteq> NULL) (map fst (pending st)))"
      using polls_invD(4) [OF P] by (simp add: ready_ok_def)
    show "p \<notin> {s, b} \<and> cb_typed st p \<or> open_poll (abs_adopt d c s b A) st4 p"
    proof (cases "p = b")
      case True
      have "b \<in> set (al_socks (abs_adopt d c s b A) c)" by (simp add: abs_adopt_def)
      moreover have "c \<in> set (al_ctxs (abs_adopt d c s b A))" using c by (simp add: abs_adopt_def)
      ultimately show ?thesis unfolding True open_poll_def by blast
    next
      case False
      then have ps: "p \<in> fst ` set (pending st)" "p \<noteq> s"
        using p polls4(4) 2(10) replace_first_set [OF dr s0, of b]
        by (auto split: if_splits)
      have "open_poll A st p" using polls_invD(5) [OF P ps(1) p(2)] .
      then consider "cb_typed st p" | "p \<in> set (al_low A)"
        | e where "e \<in> set (al_ctxs A)" "p \<in> set (al_socks A e) \<or> p \<in> set (al_listen A e)"
        unfolding open_poll_def by blast
      then show ?thesis
      proof cases
        case 3
        then have "p \<in> set (al_socks (abs_adopt d c s b A) e) \<or> p \<in> set (al_listen (abs_adopt d c s b A) e)"
          using ps(2) by (auto simp: abs_adopt_def)
        moreover have "e \<in> set (al_ctxs (abs_adopt d c s b A))" using 3 by (simp add: abs_adopt_def)
        ultimately show ?thesis unfolding open_poll_def by blast
      qed (use False ps in \<open>auto simp: open_poll_def abs_adopt_def\<close>)
    qed
  qed
  have it: "c_iterator (ctxs st4 e) = (if e = d then c_iterator C else c_iterator (ctxs st e))" for e
    using st4 mv(1) st1 by auto
  have G1: "grows A st (del_sock d s A) st1"
  proof (rule grows_same)
    fix e assume "e \<in> set (al_ctxs A)"
    have "sweep_ok A st (del_sock d s A) st1 d"
      by (rule sweep_rest_remove [OF lists_invD(5) [OF L d(1)] d(2) _ _ lists_invD(9) [OF L d(1)]])
        (use st1 C in \<open>auto simp: fix_iter_def\<close>)
    then show "al_socks (del_sock d s A) e = al_socks A e \<and> c_iterator (ctxs st1 e) = c_iterator (ctxs st e) \<or>
       sweep_ok A st (del_sock d s A) st1 e"
      using st1 by (cases "e = d") simp_all
  qed (use st1 in auto)
  have G2: "grows (del_sock d s A) st1 (abs_adopt d c s b A) st4"
  proof (rule grows_same)
    fix e assume e: "e \<in> set (al_ctxs (del_sock d s A))"
    have itc: "c_iterator (ctxs st4 e) = c_iterator (ctxs st1 e)" for e using st4 mv(1) by auto
    show "al_socks (abs_adopt d c s b A) e = al_socks (del_sock d s A) e \<and>
       c_iterator (ctxs st4 e) = c_iterator (ctxs st1 e) \<or>
       sweep_ok (del_sock d s A) st1 (abs_adopt d c s b A) st4 e"
    proof (cases "e = c")
      case True
      have "b \<noteq> c_iterator (ctxs st1 c)"
        using lists_invD(9) [OF 1(2) c1] 2(3,5) c1 unfolding detached_def by auto
      then have "sweep_ok (del_sock d s A) st1 (abs_adopt d c s b A) st4 c"
        using itc by (intro sweep_rest_push) (auto simp: abs_adopt_def)
      then show ?thesis using True by simp
    qed (use itc in \<open>simp add: abs_adopt_def\<close>)
  qed (use st4 mv in \<open>auto simp: abs_adopt_def\<close>)
  have "evolves A st (abs_adopt d c s b A) st4"
    using 4(2) P4 grows_trans [OF G1 G2] us_invI unfolding evolves_def by blast
  moreover have "s_context (socks st4 b) = c" "s_timeout (socks st4 b) = 255" "s_long_timeout (socks st4 b) = 255"
    using st4 same_coreD [OF 4(3), of b] by simp_all
  moreover have "type3 st4 b = type3 st s" "events3 st4 b = events3 st s" "num_polls st4 = num_polls st"
    using 2(7,8) st4 mv(7) st1 by (simp_all add: type3_def events3_def)
  ultimately show ?thesis using eq bfresh 2(5,10) polls4(4) by auto
qed

end
