(* ===== verification/Us_Loop.thy ===== *)
theory Us_Loop
  imports Us_Context
begin

unbundle bit_operations_syntax

text \<open>
  The event loop, \<open>src/loop.c\<close> and the running of the loop in
  \<open>src/eventing/epoll_kqueue.c\<close>: the timeout sweep, the low-priority queue, the freeing of
  closed sockets, accepting and dispatching. User handlers may call back into the library, so
  the loops around them are partial functions; the theories that follow prove when they end.
\<close>

section \<open>Calling handlers\<close>

definition call_sock :: "handlers \<Rightarrow> (addr \<Rightarrow> sys) \<Rightarrow> fnptr \<Rightarrow> addr \<Rightarrow> us \<Rightarrow> (addr \<times> us) option" where
  "call_sock H e f s st = (if f = FnNull then None else h_sock H f s (emit (e s) st))"

definition call_open :: "handlers \<Rightarrow> fnptr \<Rightarrow> addr \<Rightarrow> bool \<Rightarrow> byte list \<Rightarrow> us \<Rightarrow> (addr \<times> us) option" where
  "call_open H f s is_client ip st =
     (if f = FnNull then None else h_open H f s is_client ip (emit (OnOpen s is_client ip) st))"

definition call_data :: "handlers \<Rightarrow> fnptr \<Rightarrow> addr \<Rightarrow> byte list \<Rightarrow> us \<Rightarrow> (addr \<times> us) option" where
  "call_data H f s d st = (if f = FnNull then None else h_data H f s d (emit (OnData s d) st))"

definition call_connect_error :: "handlers \<Rightarrow> fnptr \<Rightarrow> addr \<Rightarrow> int \<Rightarrow> us \<Rightarrow> (addr \<times> us) option" where
  "call_connect_error H f s code st =
     (if f = FnNull then None else h_connect_error H f s code (emit (OnConnectError s code) st))"

definition call_loop :: "handlers \<Rightarrow> sys \<Rightarrow> fnptr \<Rightarrow> us \<Rightarrow> us option" where
  "call_loop H e f st = (if f = FnNull then None else h_loop H f (emit e st))"

text \<open>\<open>default_is_low_prio_handler\<close> answers no.\<close>

definition call_low_prio :: "handlers \<Rightarrow> fnptr \<Rightarrow> addr \<Rightarrow> us \<Rightarrow> bool option" where
  "call_low_prio H f s st = (case f of FnNull \<Rightarrow> None | FnDefaultIsLowPrio \<Rightarrow> Some False
     | _ \<Rightarrow> Some (h_low_prio H f s st))"

section \<open>The timeout sweep\<close>

definition short_ticks :: "u32 \<Rightarrow> u8" where
  "short_ticks tick = ucast (tick mod 240)"

definition long_ticks :: "u32 \<Rightarrow> u8" where
  "long_ticks tick = ucast ((tick div 15) mod 240)"

text \<open>The tight loop: the next socket with a timeout to emit, null at the end.\<close>

partial_function (option) sweep_seek :: "u8 \<Rightarrow> u8 \<Rightarrow> addr \<Rightarrow> us \<Rightarrow> addr option" where
  "sweep_seek short long s st = do {
     k \<leftarrow> rd_sock s st;
     if short = s_timeout k \<or> long = s_long_timeout k then Some s
     else if s_next k = NULL then Some NULL
     else sweep_seek short long (s_next k) st
   }"

text \<open>What the sweep does at a socket that was found.\<close>

definition sweep_emit :: "handlers \<Rightarrow> addr \<Rightarrow> u8 \<Rightarrow> u8 \<Rightarrow> addr \<Rightarrow> us \<Rightarrow> us option" where
  "sweep_emit H context short long s st = do {
     st \<leftarrow> wr_ctx context (\<lambda>c. c\<lparr>c_iterator := s\<rparr>) st;
     k \<leftarrow> rd_sock s st;
     st \<leftarrow> (if short = s_timeout k then do {
           st \<leftarrow> wr_sock s (\<lambda>k. k\<lparr>s_timeout := 255\<rparr>) st;
           c \<leftarrow> rd_ctx context st;
           (_, st) \<leftarrow> call_sock H OnTimeout (c_on_socket_timeout c) s st;
           Some st }
         else Some st);
     c \<leftarrow> rd_ctx context st;
     if c_iterator c = s then do {
       k \<leftarrow> rd_sock s st;
       if long = s_long_timeout k then do {
         st \<leftarrow> wr_sock s (\<lambda>k. k\<lparr>s_long_timeout := 255\<rparr>) st;
         c \<leftarrow> rd_ctx context st;
         (_, st) \<leftarrow> call_sock H OnLongTimeout (c_on_socket_long_timeout c) s st;
         Some st
       } else Some st
     } else Some st
   }"

partial_function (option) sweep_sockets ::
  "handlers \<Rightarrow> addr \<Rightarrow> u8 \<Rightarrow> u8 \<Rightarrow> addr \<Rightarrow> us \<Rightarrow> us option" where
  "sweep_sockets H context short long s st = (if s = NULL then Some st else do {
     s \<leftarrow> sweep_seek short long s st;
     if s = NULL then Some st else do {
       st \<leftarrow> sweep_emit H context short long s st;
       c \<leftarrow> rd_ctx context st;
       if s = c_iterator c then do {
         k \<leftarrow> rd_sock s st;
         sweep_sockets H context short long (s_next k) st
       } else sweep_sockets H context short long (c_iterator c) st
     }
   })"

definition sweep_context :: "handlers \<Rightarrow> addr \<Rightarrow> us \<Rightarrow> us option" where
  "sweep_context H context st = do {
     st \<leftarrow> wr_ctx context (\<lambda>c. c\<lparr>c_global_tick := c_global_tick c + 1\<rparr>) st;
     st \<leftarrow> wr_ctx context (\<lambda>c. c\<lparr>c_timestamp := short_ticks (c_global_tick c)\<rparr>) st;
     st \<leftarrow> wr_ctx context (\<lambda>c. c\<lparr>c_long_timestamp := long_ticks (c_global_tick c)\<rparr>) st;
     c \<leftarrow> rd_ctx context st;
     st \<leftarrow> sweep_sockets H context (c_timestamp c) (c_long_timestamp c) (c_head_sockets c) st;
     wr_ctx context (\<lambda>c. c\<lparr>c_iterator := NULL\<rparr>) st
   }"

partial_function (option) sweep_contexts :: "handlers \<Rightarrow> us \<Rightarrow> us option" where
  "sweep_contexts H st = (if l_iterator st = NULL then Some st else do {
     st \<leftarrow> sweep_context H (l_iterator st) st;
     c \<leftarrow> rd_ctx (l_iterator st) st;
     sweep_contexts H (st\<lparr>l_iterator := c_next c\<rparr>)
   })"

definition us_internal_timer_sweep :: "handlers \<Rightarrow> us \<Rightarrow> us option" where
  "us_internal_timer_sweep H st = sweep_contexts H (st\<lparr>l_iterator := l_head st\<rparr>)"

section \<open>The low-priority queue and the close list\<close>

definition MAX_LOW_PRIO_SOCKETS_PER_LOOP_ITERATION :: int where
  "MAX_LOW_PRIO_SOCKETS_PER_LOOP_ITERATION = 5"

definition low_prio_pop :: "addr \<Rightarrow> us \<Rightarrow> us option" where
  "low_prio_pop s st = do {
     k \<leftarrow> rd_sock s st;
     let st = st\<lparr>l_low_prio_head := s_next k\<rparr>;
     st \<leftarrow> (if s_next k \<noteq> NULL then wr_sock (s_next k) (\<lambda>n. n\<lparr>s_prev := NULL\<rparr>) st else Some st);
     st \<leftarrow> wr_sock s (\<lambda>k. k\<lparr>s_next := NULL\<rparr>) st;
     st \<leftarrow> us_internal_socket_context_link_socket (s_context k) s st;
     _ \<leftarrow> socket_loop s st;
     ev \<leftarrow> us_poll_events s st;
     st \<leftarrow> us_poll_change s (ev OR LIBUS_SOCKET_READABLE) st;
     wr_sock s (\<lambda>k. k\<lparr>s_low_prio_state := 2\<rparr>) st
   }"

partial_function (option) low_prio_loop :: "addr \<Rightarrow> us \<Rightarrow> us option" where
  "low_prio_loop s st = (if s \<noteq> NULL \<and> l_low_prio_budget st > 0 then do {
     st \<leftarrow> low_prio_pop s st;
     low_prio_loop (l_low_prio_head st) (st\<lparr>l_low_prio_budget := l_low_prio_budget st - 1\<rparr>)
   } else Some st)"

definition us_internal_handle_low_priority_sockets :: "us \<Rightarrow> us option" where
  "us_internal_handle_low_priority_sockets st =
     low_prio_loop (l_low_prio_head st)
       (st\<lparr>l_low_prio_budget := MAX_LOW_PRIO_SOCKETS_PER_LOOP_ITERATION\<rparr>)"

partial_function (option) free_closed_loop :: "addr \<Rightarrow> us \<Rightarrow> us option" where
  "free_closed_loop s st = (if s \<noteq> NULL then do {
     k \<leftarrow> rd_sock s st;
     st \<leftarrow> us_poll_free s st;
     free_closed_loop (s_next k) st
   } else Some st)"

definition us_internal_free_closed_sockets :: "us \<Rightarrow> us option" where
  "us_internal_free_closed_sockets st =
     (if l_closed_head st \<noteq> NULL then do {
        st \<leftarrow> free_closed_loop (l_closed_head st) st;
        Some (st\<lparr>l_closed_head := NULL\<rparr>)
      } else Some st)"

section \<open>Before and after the dispatch\<close>

definition us_internal_loop_pre :: "handlers \<Rightarrow> us \<Rightarrow> us option" where
  "us_internal_loop_pre H st = do {
     st \<leftarrow> us_internal_handle_low_priority_sockets (st\<lparr>l_iteration_nr := l_iteration_nr st + 1\<rparr>);
     call_loop H PreCb (l_pre_cb st) st
   }"

definition us_internal_loop_post :: "handlers \<Rightarrow> us \<Rightarrow> us option" where
  "us_internal_loop_post H st = do {
     st \<leftarrow> us_internal_free_closed_sockets st;
     call_loop H PostCb (l_post_cb st) st
   }"

section \<open>Accepting\<close>

definition us_adopt_accepted_socket ::
  "kernel \<Rightarrow> handlers \<Rightarrow> addr \<Rightarrow> int \<Rightarrow> byte list \<Rightarrow> us \<Rightarrow> (addr \<times> us) option" where
  "us_adopt_accepted_socket K H context accepted_fd addr_ip st = do {
     _ \<leftarrow> rd_ctx context st;
     let (accepted_p, st) = us_create_poll K KSocket False st;
     st \<leftarrow> us_poll_init accepted_p accepted_fd POLL_TYPE_SOCKET st;
     st \<leftarrow> us_poll_start accepted_p LIBUS_SOCKET_READABLE st;
     st \<leftarrow> wr_sock accepted_p (\<lambda>k. k\<lparr>s_context := context, s_timeout := 255, s_long_timeout := 255,
         s_low_prio_state := 0\<rparr>) st;
     let st = emit (Nodelay accepted_fd) st;
     st \<leftarrow> us_internal_socket_context_link_socket context accepted_p st;
     c \<leftarrow> rd_ctx context st;
     (_, st) \<leftarrow> call_open H (c_on_open c) accepted_p False addr_ip st;
     Some (accepted_p, st)
   }"

definition bsd_accept :: "kernel \<Rightarrow> addr \<Rightarrow> us \<Rightarrow> (int \<times> byte list \<times> us) option" where
  "bsd_accept K p st = do {
     fd \<leftarrow> us_poll_fd p st;
     let st = emit (Accept fd) st;
     Some (k_fd K st, k_accept_ip K st, st)
   }"

definition call_pre_open :: "handlers \<Rightarrow> addr \<Rightarrow> int \<Rightarrow> byte list \<Rightarrow> us \<Rightarrow> (bool \<times> us) option" where
  "call_pre_open H context fd ip st = do {
     c \<leftarrow> rd_ctx context st;
     if c_on_pre_open c = FnNull then Some (True, st)
     else do {
       (r, st) \<leftarrow> h_pre_open H (c_on_pre_open c) context fd ip (emit (OnPreOpen context fd ip) st);
       Some (r = fd, st)
     }
   }"

partial_function (option) accept_loop ::
  "kernel \<Rightarrow> handlers \<Rightarrow> addr \<Rightarrow> int \<Rightarrow> byte list \<Rightarrow> us \<Rightarrow> us option" where
  "accept_loop K H p client_fd ip st = do {
     k \<leftarrow> rd_sock p st;
     (keep, st) \<leftarrow> call_pre_open H (s_context k) client_fd ip st;
     (stop, st) \<leftarrow> (if keep then do {
           (_, st) \<leftarrow> us_adopt_accepted_socket K H (s_context k) client_fd ip st;
           closed \<leftarrow> us_socket_is_closed p st;
           Some (closed, st) }
         else Some (False, st));
     if stop then Some st else do {
       (client_fd, ip, st) \<leftarrow> bsd_accept K p st;
       if client_fd \<noteq> LIBUS_SOCKET_ERROR then accept_loop K H p client_fd ip st else Some st
     }
   }"

section \<open>Dispatching one ready poll\<close>

partial_function (option) recv_loop :: "kernel \<Rightarrow> handlers \<Rightarrow> addr \<Rightarrow> us \<Rightarrow> us option" where
  "recv_loop K H s st = do {
     fd \<leftarrow> us_poll_fd s st;
     k \<leftarrow> rd_sock s st;
     c \<leftarrow> rd_ctx (s_context k) st;
     let st = emit (Recv fd) st;
     let (length, data) = k_recv K st;
     if length > 0 then do {
       (s, st) \<leftarrow> call_data H (c_on_data c) s data st;
       if length = LIBUS_RECV_BUFFER_LENGTH \<and> s \<noteq> NULL then do {
         closed \<leftarrow> us_socket_is_closed s st;
         if \<not> closed then recv_loop K H s st else Some st
       } else Some st
     } else if length = 0 then do {
       shut \<leftarrow> us_socket_is_shut_down s st;
       if shut then map_option snd (us_socket_close H s 0 NULL st)
       else do {
         ev \<leftarrow> us_poll_events s st;
         st \<leftarrow> us_poll_change s (ev AND LIBUS_SOCKET_WRITABLE) st;
         map_option snd (call_sock H OnEnd (c_on_end c) s st)
       }
     } else if length = LIBUS_SOCKET_ERROR \<and> \<not> k_would_block K st
       then map_option snd (us_socket_close H s 0 NULL st)
     else Some st
   }"

text \<open>Moving a readable socket to the low-priority queue.\<close>

definition low_prio_push :: "addr \<Rightarrow> us \<Rightarrow> us option" where
  "low_prio_push s st = do {
     _ \<leftarrow> socket_loop s st;
     ev \<leftarrow> us_poll_events s st;
     st \<leftarrow> us_poll_change s (ev AND LIBUS_SOCKET_WRITABLE) st;
     k \<leftarrow> rd_sock s st;
     st \<leftarrow> us_internal_socket_context_unlink_socket (s_context k) s st;
     st \<leftarrow> wr_sock s (\<lambda>k. k\<lparr>s_prev := NULL\<rparr>) st;
     _ \<leftarrow> socket_loop s st;
     st \<leftarrow> wr_sock s (\<lambda>k. k\<lparr>s_next := l_low_prio_head st\<rparr>) st;
     k \<leftarrow> rd_sock s st;
     st \<leftarrow> (if s_next k \<noteq> NULL then wr_sock (s_next k) (\<lambda>n. n\<lparr>s_prev := s\<rparr>) st else Some st);
     let st = st\<lparr>l_low_prio_head := s\<rparr>;
     wr_sock s (\<lambda>k. k\<lparr>s_low_prio_state := 1\<rparr>) st
   }"

definition dispatch_readable :: "kernel \<Rightarrow> handlers \<Rightarrow> addr \<Rightarrow> us \<Rightarrow> us option" where
  "dispatch_readable K H s st = do {
     k \<leftarrow> rd_sock s st;
     c \<leftarrow> rd_ctx (s_context k) st;
     low \<leftarrow> call_low_prio H (c_is_low_prio c) s st;
     if \<not> low then recv_loop K H s st
     else if s_low_prio_state k = 2 then do {
       st \<leftarrow> wr_sock s (\<lambda>k. k\<lparr>s_low_prio_state := 0\<rparr>) st;
       recv_loop K H s st
     } else if l_low_prio_budget st > 0
       then recv_loop K H s (st\<lparr>l_low_prio_budget := l_low_prio_budget st - 1\<rparr>)
     else low_prio_push s st
   }"

definition dispatch_socket :: "kernel \<Rightarrow> handlers \<Rightarrow> addr \<Rightarrow> bool \<Rightarrow> u32 \<Rightarrow> us \<Rightarrow> us option" where
  "dispatch_socket K H s error events st =
     (if error then map_option snd (us_socket_close H s 0 NULL st)
      else do {
        (open, s, st) \<leftarrow> (if events AND LIBUS_SOCKET_WRITABLE \<noteq> 0 then do {
            k \<leftarrow> rd_sock s st;
            c \<leftarrow> rd_ctx (s_context k) st;
            (s, st) \<leftarrow> call_sock H OnWritable (c_on_writable c) s (st\<lparr>l_last_write_failed := False\<rparr>);
            closed \<leftarrow> us_socket_is_closed s st;
            if closed then Some (False, s, st) else do {
              _ \<leftarrow> socket_loop s st;
              shut \<leftarrow> us_socket_is_shut_down s st;
              st \<leftarrow> (if \<not> l_last_write_failed st \<or> shut then do {
                    ev \<leftarrow> us_poll_events s st;
                    us_poll_change s (ev AND LIBUS_SOCKET_READABLE) st }
                  else Some st);
              Some (True, s, st)
            } }
          else Some (True, s, st));
        if open \<and> events AND LIBUS_SOCKET_READABLE \<noteq> 0 then dispatch_readable K H s st else Some st
      })"

definition dispatch_connect :: "handlers \<Rightarrow> addr \<Rightarrow> bool \<Rightarrow> us \<Rightarrow> us option" where
  "dispatch_connect H s error st = do {
     k \<leftarrow> rd_sock s st;
     c \<leftarrow> rd_ctx (s_context k) st;
     if error then do {
       (_, st) \<leftarrow> call_connect_error H (c_on_connect_error c) s 0 st;
       map_option snd (us_socket_close_connecting s st)
     } else do {
       st \<leftarrow> us_poll_change s LIBUS_SOCKET_READABLE st;
       fd \<leftarrow> us_poll_fd s st;
       st \<leftarrow> us_internal_poll_set_type s POLL_TYPE_SOCKET (emit (Nodelay fd) st);
       st \<leftarrow> us_socket_timeout s 0 st;
       c \<leftarrow> rd_ctx (s_context k) st;
       map_option snd (call_open H (c_on_open c) s True [] st)
     }
   }"

definition dispatch_listen :: "kernel \<Rightarrow> handlers \<Rightarrow> addr \<Rightarrow> us \<Rightarrow> us option" where
  "dispatch_listen K H p st = do {
     (client_fd, ip, st) \<leftarrow> bsd_accept K p st;
     if client_fd = LIBUS_SOCKET_ERROR then Some st else accept_loop K H p client_fd ip st
   }"

definition dispatch_callback :: "handlers \<Rightarrow> addr \<Rightarrow> us \<Rightarrow> us option" where
  "dispatch_callback H p st = do {
     cb \<leftarrow> rd_cb p st;
     st \<leftarrow> (if \<not> cb_leave_poll_ready cb then us_internal_accept_poll_event p st else Some st);
     cb \<leftarrow> rd_cb p st;
     if cb_expects_the_loop cb then call_loop H (WakeupCb (cb_cb cb)) (cb_cb cb) st
     else (case cb_cb cb of FnNull \<Rightarrow> None
         | FnSweepTimer \<Rightarrow> us_internal_timer_sweep H (emit (CallbackCb p FnSweepTimer) st)
         | f \<Rightarrow> h_callback H f p (emit (CallbackCb p f) st))
   }"

definition us_internal_dispatch_ready_poll ::
  "kernel \<Rightarrow> handlers \<Rightarrow> addr \<Rightarrow> bool \<Rightarrow> u32 \<Rightarrow> us \<Rightarrow> us option" where
  "us_internal_dispatch_ready_poll K H p error events st = do {
     ty \<leftarrow> us_internal_poll_type p st;
     if ty = POLL_TYPE_CALLBACK then dispatch_callback H p st
     else if ty = POLL_TYPE_SEMI_SOCKET then do {
       ev \<leftarrow> us_poll_events p st;
       if ev = LIBUS_SOCKET_WRITABLE then dispatch_connect H p error st
       else dispatch_listen K H p st
     } else dispatch_socket K H p error events st
   }"

section \<open>Running the loop\<close>

definition us_wakeup_loop :: "us \<Rightarrow> us option" where
  "us_wakeup_loop st = us_internal_async_wakeup (l_wakeup_async st) st"

definition us_loop_integrate :: "us \<Rightarrow> us option" where
  "us_loop_integrate st = us_timer_set (l_sweep_timer st) FnSweepTimer
     (LIBUS_TIMEOUT_GRANULARITY * 1000) (LIBUS_TIMEOUT_GRANULARITY * 1000) st"

definition us_internal_loop_data_init :: "kernel \<Rightarrow> fnptr \<Rightarrow> fnptr \<Rightarrow> fnptr \<Rightarrow> us \<Rightarrow> us option" where
  "us_internal_loop_data_init K wakeup_cb pre_cb post_cb st = do {
     (t, st) \<leftarrow> us_create_timer K True st;
     let st = st\<lparr>l_sweep_timer := t, l_ssl_data := None, l_head := NULL, l_iterator := NULL, l_closed_head := NULL,
       l_low_prio_head := NULL, l_low_prio_budget := 0, l_pre_cb := pre_cb, l_post_cb := post_cb,
       l_iteration_nr := 0\<rparr>;
     (a, st) \<leftarrow> us_internal_create_async K True st;
     us_internal_async_set a wakeup_cb (st\<lparr>l_wakeup_async := a\<rparr>)
   }"

definition us_create_loop :: "kernel \<Rightarrow> fnptr \<Rightarrow> fnptr \<Rightarrow> fnptr \<Rightarrow> us \<Rightarrow> us option" where
  "us_create_loop K wakeup_cb pre_cb post_cb st =
     us_internal_loop_data_init K wakeup_cb pre_cb post_cb
       (st\<lparr>num_polls := 0, num_ready_polls := 0, current_ready_poll := 0, ready_polls := []\<rparr>)"

text \<open>What the loop keeps for SSL goes with it.\<close>

definition us_internal_free_loop_ssl_data :: "us \<Rightarrow> us" where
  "us_internal_free_loop_ssl_data st = (case l_ssl_data st of None \<Rightarrow> st
     | Some d \<Rightarrow> emit (Ssl (BIO_meth_free (sl_shared_biom d)))
         (emit (Ssl (BIO_free (sl_shared_wbio d))) (emit (Ssl (BIO_free (sl_shared_rbio d))) st)))"

definition us_internal_loop_data_free :: "us \<Rightarrow> us option" where
  "us_internal_loop_data_free st = do {
     let st = us_internal_free_loop_ssl_data st;
     st \<leftarrow> us_timer_close (l_sweep_timer st) st;
     us_internal_async_close (l_wakeup_async st) st
   }"

partial_function (option) ready_loop :: "kernel \<Rightarrow> handlers \<Rightarrow> us \<Rightarrow> us option" where
  "ready_loop K H st = (if current_ready_poll st < num_ready_polls st then do {
     let (poll, flags) = ready_polls st ! current_ready_poll st;
     st \<leftarrow> (if poll \<noteq> NULL then do {
           polled \<leftarrow> us_poll_events poll st;
           let events = flags AND polled;
           let error = (flags AND (EPOLLERR OR EPOLLHUP) \<noteq> 0);
           if events \<noteq> 0 \<or> error then us_internal_dispatch_ready_poll K H poll error events st
           else Some st }
         else Some st);
     ready_loop K H (st\<lparr>current_ready_poll := current_ready_poll st + 1\<rparr>)
   } else Some st)"

text \<open>\<open>epoll_wait\<close> fills the ready list; a failed call (minus one) is the empty list.\<close>

definition epoll_fetch :: "kernel \<Rightarrow> us \<Rightarrow> us" where
  "epoll_fetch K st = (let st = emit EpollWait st; rp = k_epoll_wait K st
     in st\<lparr>ready_polls := rp, num_ready_polls := length rp, current_ready_poll := 0\<rparr>)"

definition loop_iteration :: "kernel \<Rightarrow> handlers \<Rightarrow> us \<Rightarrow> us option" where
  "loop_iteration K H st = do {
     st \<leftarrow> us_internal_loop_pre H st;
     st \<leftarrow> ready_loop K H (epoll_fetch K st);
     us_internal_loop_post H st
   }"

partial_function (option) run_loop :: "kernel \<Rightarrow> handlers \<Rightarrow> us \<Rightarrow> us option" where
  "run_loop K H st = (if num_polls st \<noteq> 0 then do {
     st \<leftarrow> loop_iteration K H st;
     run_loop K H st
   } else Some st)"

definition us_loop_run :: "kernel \<Rightarrow> handlers \<Rightarrow> us \<Rightarrow> us option" where
  "us_loop_run K H st = do {
     st \<leftarrow> us_loop_integrate st;
     run_loop K H st
   }"

definition us_loop_free :: "us \<Rightarrow> us option" where
  "us_loop_free st = us_internal_loop_data_free st"

end
