(* ===== verification/Us_Demo.thy ===== *)
theory Us_Demo
  imports Us_Loop
begin

text \<open>
  A concrete state at which the theorems are applied: one context at 100 with two sockets
  (21, established, and 22, connecting), a listen socket at 23, a socket at 24 in the
  low-priority queue, a closed socket at 25 and a timer at 26; two entries of the ready list are still to be
  dispatched. The kernel answers every call in a fixed way, the handlers do nothing.
\<close>

definition poll0 :: us_poll_t where "poll0 = \<lparr>p_fd = 0, p_type = 0\<rparr>"

definition sock0 :: us_socket_t where
  "sock0 = \<lparr>s_timeout = 255, s_long_timeout = 255, s_low_prio_state = 0, s_context = 100,
     s_prev = 0, s_next = 0\<rparr>"

definition ctx0 :: us_socket_context_t where
  "ctx0 = \<lparr>c_global_tick = 0, c_timestamp = 0, c_long_timestamp = 0, c_head_sockets = 0,
     c_head_listen_sockets = 0, c_iterator = 0, c_prev = 0, c_next = 0, c_on_pre_open = FnNull,
     c_on_open = FnUser 1, c_on_data = FnUser 2, c_on_writable = FnUser 3, c_on_close = FnUser 4,
     c_on_socket_timeout = FnUser 5, c_on_socket_long_timeout = FnUser 6, c_on_end = FnUser 7,
     c_on_connect_error = FnUser 8, c_is_low_prio = FnDefaultIsLowPrio\<rparr>"

definition demo :: us where
  "demo = \<lparr>
     objs = (\<lambda>_. None)(21 := Some KSocket, 22 := Some KSocket, 23 := Some KListen, 24 := Some KSocket,
       25 := Some KSocket, 26 := Some KCallback, 100 := Some KContext),
     polls = (\<lambda>_. poll0)(21 := \<lparr>p_fd = 11, p_type = 8\<rparr>, 22 := \<lparr>p_fd = 12, p_type = 6\<rparr>,
       23 := \<lparr>p_fd = 13, p_type = 10\<rparr>, 24 := \<lparr>p_fd = 14, p_type = 0\<rparr>, 26 := \<lparr>p_fd = 16, p_type = 11\<rparr>),
     socks = (\<lambda>_. sock0)(21 := sock0\<lparr>s_next := 22\<rparr>, 22 := sock0\<lparr>s_prev := 21\<rparr>,
       24 := sock0\<lparr>s_low_prio_state := 1\<rparr>, 25 := sock0\<lparr>s_prev := 100\<rparr>),
     ext_sizes = (\<lambda>_. 0),
     ctxs = (\<lambda>_. ctx0)(100 := ctx0\<lparr>c_head_sockets := 21, c_head_listen_sockets := 23\<rparr>),
     cbs = (\<lambda>_. \<lparr>cb_expects_the_loop = False, cb_leave_poll_ready = False, cb_cb = FnSweepTimer\<rparr>),
     l_sweep_timer = 26, l_wakeup_async = 0, l_last_write_failed = False, l_head = 100,
     l_iterator = 0, l_pre_cb = FnUser 9, l_post_cb = FnUser 10, l_closed_head = 25,
     l_low_prio_head = 24, l_low_prio_budget = 5, l_iteration_nr = 0, num_polls = 6,
     num_ready_polls = 2, current_ready_poll = 0, ready_polls = [(21, 1), (26, 1)],
     ssl_socks = (\<lambda>_. \<lparr>ss_ssl = 0, ss_write_wants_read = False, ss_read_wants_write = False\<rparr>),
     ssl_ctxs = (\<lambda>_. \<lparr>sc_ssl_context = 0, sc_is_parent = False, sc_on_open = FnNull, sc_on_data = FnNull,
       sc_on_writable = FnNull, sc_on_close = FnNull, sc_on_server_name = FnNull, sc_sni = None\<rparr>),
     l_ssl_data = None, u_ext = (\<lambda>_ _. 0), u_heap = Map.empty, trace = []\<rparr>"

definition demo_lists :: alists where
  "demo_lists = \<lparr>al_ctxs = [100], al_socks = (\<lambda>_. [])(100 := [21, 22]), al_listen = (\<lambda>_. [])(100 := [23]),
     al_low = [24], al_closed = [25]\<rparr>"

definition kernel0 :: kernel where
  "kernel0 = \<lparr>k_malloc = (\<lambda>st. LEAST a. a \<noteq> 0 \<and> objs st a = None), k_realloc = (\<lambda>st a. a), k_user_malloc = (\<lambda>st n. LEAST a. a \<noteq> 0 \<and> u_heap st a = None), k_fd = (\<lambda>_. 30),
     k_io = (\<lambda>_. 1), k_recv = (\<lambda>_. (1, [0])), k_would_block = (\<lambda>_. True), k_accept_ip = (\<lambda>_. [127, 0, 0, 1]),
     k_local_addr = (\<lambda>_ _. None), k_remote_addr = (\<lambda>_ _. None), k_epoll_wait = (\<lambda>_. [])\<rparr>"

definition handlers0 :: handlers where
  "handlers0 = \<lparr>h_pre_open = (\<lambda>f c fd ip st. Some (fd, st)), h_open = (\<lambda>f s cl ip st. Some (s, st)),
     h_data = (\<lambda>f s d st. Some (s, st)), h_sock = (\<lambda>f s st. Some (s, st)),
     h_close = (\<lambda>f s code reason st. Some (s, st)), h_connect_error = (\<lambda>f s code st. Some (s, st)),
     h_low_prio = (\<lambda>f s st. False), h_loop = (\<lambda>f st. Some st), h_server_name = (\<lambda>f c h st. Some st),
     h_callback = (\<lambda>f a st. Some st)\<rparr>"

lemmas demo_defs = demo_def demo_lists_def poll0_def sock0_def ctx0_def

lemma demo_types [simp]:
  "type3 demo 21 = 0" "type3 demo 22 = 2" "type3 demo 23 = 2" "type3 demo 24 = 0"
  "type3 demo 26 = 3" "events3 demo 21 = 1" "events3 demo 22 = 4" "events3 demo 23 = 1"
  "events3 demo 24 = 0"
  by (simp_all add: type3_def events3_def demo_def events_of_type_def poll_type_defs event_defs)

lemma demo_typed:
  "sock_typed demo 21" "sock_typed demo 22" "listen_typed demo 23" "low_typed demo 24" "cb_typed demo 26"
  by (simp_all add: sock_typed_def listen_typed_def low_typed_def established_def cb_typed_def
      is_cb_def poll_type_defs event_defs) (simp_all add: demo_def)

lemma demo_ready: "ready_ok demo" "fst ` set (pending demo) = {21, 26}"
  by (simp_all add: ready_ok_def pending_def demo_def)

lemma demo_inv: "us_inv demo_lists demo"
proof (rule us_invI)
  show "lists_inv demo_lists demo"
    by (simp add: lists_inv_def ctx_inv_def low_inv_def closed_inv_def demo_defs is_ctx_def is_sock_def)
  show "polls_inv demo_lists demo"
    using demo_typed demo_ready
    by (simp add: polls_inv_def open_poll_def demo_lists_def)
qed

lemma kernel0_ok: "allocator_ok kernel0"
proof -
  have "(LEAST a. a \<noteq> 0 \<and> objs st a = None) \<noteq> 0 \<and> objs st (LEAST a. a \<noteq> 0 \<and> objs st a = None) = None"
    if "finite (dom (objs st))" for st :: us
  proof -
    have "\<exists>a. a \<notin> insert 0 (dom (objs st))"
      using that ex_new_if_finite [of "insert 0 (dom (objs st))"] infinite_UNIV_nat by blast
    then have "\<exists>a. a \<noteq> 0 \<and> objs st a = None" by auto
    then show ?thesis by (rule LeastI_ex)
  qed
  then show ?thesis by (simp add: allocator_ok_def kernel0_def)
qed

lemma demo_ctx [simp]: "100 \<in> set (al_ctxs demo_lists)"
  by (simp add: demo_lists_def)

end
