(* ===== verification/Us_Props.thy ===== *)
theory Us_Props
  imports Us_Demo
begin

unbundle bit_operations_syntax

text \<open>
  What polls, sockets and contexts promise to their users, stated over the operations of the
  model and applied at the concrete state \<open>demo\<close>.
\<close>

section \<open>Polls\<close>

text \<open>
  The two halves of a poll's type field do not disturb each other: changing the events of
  a poll keeps its type and sets exactly the requested events, setting its type keeps the
  events, and nothing else in the state but the poll and the trace changes.
\<close>

theorem poll_halves_independent:
  assumes "is_poll st p" and "ev AND poll_mask = ev" and "ty AND 3 = ty"
  shows "\<exists>st1 st2. us_poll_change p ev st = Some st1 \<and> us_internal_poll_set_type p ty st1 = Some st2 \<and>
    us_poll_events p st1 = Some ev \<and> us_internal_poll_type p st1 = us_internal_poll_type p st \<and>
    us_poll_events p st2 = Some ev \<and> us_internal_poll_type p st2 = Some ty \<and> poll_local p st st2"
proof -
  from epoll.change_ok [OF assms(1,2)] obtain st1 where
    1: "us_poll_change p ev st = Some st1" "poll_local p st st1" "us_poll_events p st1 = Some ev"
    "us_internal_poll_type p st1 = us_internal_poll_type p st" by blast
  have "is_poll st1 p" using assms(1) poll_local_access(1) [OF 1(2)] by simp
  from epoll.set_type_ok [OF this assms(3)] obtain st2 where
    2: "us_internal_poll_set_type p ty st1 = Some st2" "poll_local p st1 st2"
    "us_poll_events p st2 = us_poll_events p st1" "us_internal_poll_type p st2 = Some ty" by blast
  show ?thesis using 1 2 poll_local_trans by auto
qed

theorem poll_halves_independent_witness:
  "\<exists>st1 st2. us_poll_change 21 4 demo = Some st1 \<and> us_internal_poll_set_type 21 1 st1 = Some st2 \<and>
    us_poll_events 21 st1 = Some 4 \<and> us_internal_poll_type 21 st1 = us_internal_poll_type 21 demo \<and>
    us_poll_events 21 st2 = Some 4 \<and> us_internal_poll_type 21 st2 = Some 1 \<and> poll_local 21 demo st2"
  by (rule poll_halves_independent)
    (simp_all add: is_poll_def demo_def poll_mask_def event_defs)

text \<open>
  C3. Stopping a poll takes it out of the ready polls still to be dispatched: after
  \<open>us_poll_stop\<close> no pending entry refers to it, every other pending entry is as it was, and
  the list keeps its length, so the dispatcher never follows a pointer to a stopped poll.
\<close>

theorem us_poll_stop_purges:
  assumes p: "is_poll st p" and r: "ready_ok st"
  shows "\<exists>st'. us_poll_stop p st = Some st' \<and> p \<notin> fst ` set (pending st') \<and>
    length (ready_polls st') = length (ready_polls st) \<and>
    fst ` set (pending st') - {NULL} = fst ` set (pending st) - {NULL, p} \<and>
    current_ready_poll st' = current_ready_poll st \<and> polls st' = polls st"
proof -
  have p0: "p \<noteq> NULL" using p by (auto simp: is_poll_def)
  have dis: "distinct (filter (\<lambda>p. p \<noteq> NULL) (map fst (pending st)))" using r by (simp add: ready_ok_def)
  from epoll.stop_ok [OF p r] obtain st' where
    1: "us_poll_stop p st = Some st'" "poll_frame st st'" "ready_ok st'"
    "pending st' = replace_first p NULL (pending st)" "p \<notin> fst ` set (pending st')" by blast
  have "num_ready_polls st' = num_ready_polls st" using 1(2) by (simp add: poll_frameD)
  then have "length (ready_polls st') = length (ready_polls st)"
    using r 1(3) by (simp add: ready_ok_def)
  moreover have "fst ` set (pending st') - {NULL} = fst ` set (pending st) - {NULL, p}"
    using 1(4) replace_first_set [OF dis p0, of NULL] by auto
  moreover have "polls st' = polls st" using us_poll_stop_eq [OF p] 1(1) by auto
  ultimately show ?thesis using 1 poll_frameD(13) [OF 1(2)] by blast
qed

theorem us_poll_stop_purges_witness:
  "\<exists>st'. us_poll_stop 21 demo = Some st' \<and> 21 \<notin> fst ` set (pending st') \<and>
    length (ready_polls st') = length (ready_polls demo) \<and>
    fst ` set (pending st') - {NULL} = fst ` set (pending demo) - {NULL, 21} \<and>
    current_ready_poll st' = current_ready_poll demo \<and> polls st' = polls demo"
  by (rule us_poll_stop_purges) (simp add: is_poll_def demo_def, rule demo_ready(1))

section \<open>Closing\<close>

text \<open>
  C2. Closing an open socket, queued or not, is always defined; when \<open>on_close\<close> is called the
  socket has left its list and heads the close list, its descriptor was closed once, no pending
  ready poll refers to it, it reads as closed, and closing it again does nothing.
\<close>

theorem us_socket_close_correct:
  assumes I: "us_inv A st" and s: "live_sock A s"
    and f: "f = c_on_close (ctxs st (s_context (socks st s)))" "f \<noteq> FnNull"
  shows "\<exists>st2. us_socket_close H s code reason st =
      h_close H f s code reason (emit (OnClose s code reason) st2) \<and>
    us_inv (abs_close (s_context (socks st s)) s A) st2 \<and>
    trace st2 = trace st @ [EpollCtlDel (fd_of st s), Close (fd_of st s)] \<and>
    s \<notin> fst ` set (pending st2) \<and> us_socket_is_closed s st2 = Some True \<and>
    us_socket_close H s code' reason' st2 = Some (s, st2)"
proof -
  let ?A = "abs_close (s_context (socks st s)) s A"
  from close_steps [OF I s, of H code reason] obtain st2 where
    1: "us_socket_close H s code reason st =
      call_close H (c_on_close (ctxs st (s_context (socks st s)))) s code reason st2"
    "evolves A st ?A st2" "close_effect s st st2" by blast
  have I2: "us_inv ?A st2" using 1(2) by (simp add: evolves_def)
  have cl: "s \<in> set (al_closed ?A)" by simp
  have sk: "is_sock st2 s" "s_prev (socks st2 s) = s_context (socks st2 s)"
    using lists_inv_closed [OF us_invD(1) [OF I2] cl] .
  have np: "s \<notin> fst ` set (pending st2)"
  proof
    assume "s \<in> fst ` set (pending st2)"
    moreover have "s \<noteq> NULL" using sk(1) by (auto simp: is_sock_def)
    ultimately have "open_poll ?A st2 s" using polls_invD(5) [OF us_invD(2) [OF I2]] by blast
    then show False using closed_not_open_poll [OF us_invD(1) [OF I2] cl] by blast
  qed
  have "us_socket_is_closed s st2 = Some True" using sk by simp
  moreover from this have "us_socket_close H s code' reason' st2 = Some (s, st2)"
    by (simp add: us_socket_close_def)
  moreover have "us_socket_close H s code reason st =
      h_close H f s code reason (emit (OnClose s code reason) st2)"
    using 1(1) f by (simp add: call_close_def)
  ultimately show ?thesis using I2 np 1(3) unfolding close_effect_def by blast
qed

lemma demo_live: "live_sock demo_lists 21" "live_sock demo_lists 24"
  by (simp_all add: live_sock_def open_sock_def demo_lists_def)

theorem us_socket_close_correct_witness:
  "\<exists>st2. us_socket_close handlers0 24 0 0 demo =
      h_close handlers0 (FnUser 4) 24 0 0 (emit (OnClose 24 0 0) st2) \<and>
    us_inv (abs_close (s_context (socks demo 24)) 24 demo_lists) st2 \<and>
    trace st2 = trace demo @ [EpollCtlDel (fd_of demo 24), Close (fd_of demo 24)] \<and>
    24 \<notin> fst ` set (pending st2) \<and> us_socket_is_closed 24 st2 = Some True \<and>
    us_socket_close handlers0 24 0 0 st2 = Some (24, st2)"
  by (rule us_socket_close_correct [OF demo_inv demo_live(2)]) (simp_all add: demo_defs)


lemma quiet_handlers0: "f \<noteq> FnNull \<Longrightarrow> quiet_close handlers0 f"
  using evolves_refl by (auto simp: quiet_close_def handlers0_def)


end
