(* ===== verification/Us_Timeouts.thy ===== *)
theory Us_Timeouts
  imports Us_Demo
begin

text \<open>
  The arithmetic of the two timers. A context counts sweeps (one every four seconds) in a 32
  bit counter; the short timer is that count modulo 240, the long timer the count divided by
  15 modulo 240, both kept in a byte, and 255 means no timeout. The lemmas translate the word
  arithmetic of the setters and of the sweep to natural numbers.
\<close>

lemma unat_mod240: "unat (w mod 240 :: u32) = unat w mod 240"
  by (simp add: unat_mod)

lemma ucast8_small:
  fixes w :: u32
  assumes "unat w < 256"
  shows "unat (ucast w :: u8) = unat w"
  using assms by (simp add: unsigned_ucast_eq take_bit_nat_eq_self)

lemma unat_short_ticks: "unat (short_ticks t) = unat t mod 240"
proof -
  have "unat (t mod 240) < 256" by (simp add: unat_mod240)
  then show ?thesis by (simp add: short_ticks_def ucast8_small unat_mod240)
qed

lemma unat_long_ticks: "unat (long_ticks t) = unat t div 15 mod 240"
proof -
  have "unat (t div 15 mod 240) < 256" by (simp add: unat_mod240)
  then show ?thesis by (simp add: long_ticks_def ucast8_small unat_mod240 unat_div)
qed

lemma short_ticks_eq_iff:
  "short_ticks t = v \<longleftrightarrow> unat t mod 240 = unat v"
  using unat_short_ticks by (metis word_unat_eq_iff)

lemma long_ticks_eq_iff:
  "long_ticks t = v \<longleftrightarrow> unat t div 15 mod 240 = unat v"
  using unat_long_ticks by (metis word_unat_eq_iff)

lemma unat_add_of_nat: "unat (t :: u32) + k < 2 ^ 32 \<Longrightarrow> unat (t + of_nat k) = unat t + k"
  by (simp add: unat_word_ariths unat_of_nat)

text \<open>What the setters store, as a natural number.\<close>

lemma timeout_value:
  fixes seconds :: u32
  assumes "unat seconds + 3 < 2 ^ 32"
  shows "unat (ucast ((ucast (short_ticks gt) + drop_bit 2 (seconds + 3)) mod 240 :: u32) :: u8) =
    (unat gt mod 240 + (unat seconds + 3) div 4) mod 240"
proof -
  have d: "unat (drop_bit 2 (seconds + 3)) = (unat seconds + 3) div 4"
    using assms unat_add_of_nat [of seconds 3]
    by (simp add: drop_bit_eq_div unat_div)
  have u: "unat (ucast (short_ticks gt) :: u32) = unat gt mod 240"
    by (simp add: unsigned_ucast_eq unat_short_ticks take_bit_nat_eq_self)
  have "(unat seconds + 3) div 4 < 2 ^ 30" using assms by (simp add: less_mult_imp_div_less)
  then have "unat (ucast (short_ticks gt) + drop_bit 2 (seconds + 3) :: u32) =
      unat gt mod 240 + (unat seconds + 3) div 4"
    using d u mod_less_divisor [of 240 "unat gt"] by (simp add: unat_word_ariths)
  then have m: "unat ((ucast (short_ticks gt) + drop_bit 2 (seconds + 3)) mod 240 :: u32) =
      (unat gt mod 240 + (unat seconds + 3) div 4) mod 240"
    by (simp add: unat_mod240)
  then show ?thesis by (simp add: ucast8_small)
qed

lemma long_timeout_value:
  fixes minutes :: u32
  assumes "unat minutes + 240 < 2 ^ 32"
  shows "unat (ucast ((ucast (long_ticks gt) + minutes) mod 240 :: u32) :: u8) =
    (unat gt div 15 mod 240 + unat minutes) mod 240"
proof -
  have u: "unat (ucast (long_ticks gt) :: u32) = unat gt div 15 mod 240"
    by (simp add: unsigned_ucast_eq unat_long_ticks take_bit_nat_eq_self)
  then have "unat (ucast (long_ticks gt) + minutes :: u32) = unat gt div 15 mod 240 + unat minutes"
    using assms mod_less_divisor [of 240 "unat gt div 15"] by (simp add: unat_word_ariths)
  then have "unat ((ucast (long_ticks gt) + minutes) mod 240 :: u32) =
      (unat gt div 15 mod 240 + unat minutes) mod 240"
    by (simp add: unat_mod240)
  then show ?thesis by (simp add: ucast8_small)
qed

text \<open>The clock arithmetic: within one turn a time is reached exactly once.\<close>

lemma first_match:
  fixes g n k :: nat
  assumes "0 < k" "k \<le> n" "n \<le> 240"
  shows "(g + k) mod 240 = (g mod 240 + n) mod 240 \<longleftrightarrow> k = n"
proof
  assume "(g + k) mod 240 = (g mod 240 + n) mod 240"
  then have "(g + k) mod 240 = (g + n) mod 240" by (simp add: mod_simps)
  then have "240 dvd (g + n) - (g + k)" using assms(2) by (metis mod_eq_dvd_iff_nat nat_add_left_cancel_le)
  then have "240 dvd n - k" by simp
  moreover have "n - k < 240" using assms by simp
  ultimately show "k = n" using assms(2) by (metis dvd_imp_le le_antisym diff_is_0_eq' not_le zero_less_iff_neq_zero diff_diff_cancel minus_nat.diff_0)
qed (simp add: mod_simps)

lemma first_long_match:
  fixes g m k :: nat
  assumes "0 < m" "m < 240" "0 < k" "k \<le> 15 * m - g mod 15"
  shows "(g + k) div 15 mod 240 = (g div 15 mod 240 + m) mod 240 \<longleftrightarrow> k = 15 * m - g mod 15"
proof -
  let ?d = "(g + k) div 15 - g div 15"
  have dq: "x div 15 = q \<longleftrightarrow> x = 15 * q" if "x \<le> 15 * q" for x q :: nat
    using that times_div_less_eq_dividend [of 15 x] by auto
  have lin: "g = 15 * q + r \<Longrightarrow> k + r \<le> 15 * m \<Longrightarrow> (g + k = 15 * q + 15 * m) = (k = 15 * m - r)"
    for q r by auto
  have le: "g div 15 \<le> (g + k) div 15" by (simp add: div_le_mono)
  have g: "g = 15 * (g div 15) + g mod 15" by simp
  have gm: "g mod 15 < 15" by simp
  have "g mod 15 \<le> 15 * m" using gm assms(1) by linarith
  then have kr: "k + g mod 15 \<le> 15 * m" using assms(4) by linarith
  have up: "g + k \<le> 15 * (g div 15 + m)" using kr g unfolding distrib_left by linarith
  then have "(g + k) div 15 \<le> g div 15 + m" by (metis div_le_mono nonzero_mult_div_cancel_left zero_neq_numeral)
  then have dm: "?d \<le> m" "(g + k) div 15 = g div 15 + ?d" using le by simp_all
  have "(g + k) div 15 mod 240 = (g div 15 mod 240 + m) mod 240 \<longleftrightarrow> ?d = m"
  proof (cases "?d = 0")
    case True
    then have "(g + k) div 15 = g div 15" using dm by simp
    moreover have "g div 15 mod 240 \<noteq> (g div 15 mod 240 + m) mod 240"
      using first_match [of m 240 "g div 15"] assms by (auto simp: mod_simps)
    ultimately show ?thesis using True assms by simp
  next
    case False
    then show ?thesis using first_match [of ?d m "g div 15"] dm assms by simp
  qed
  also have "?d = m \<longleftrightarrow> (g + k) div 15 = g div 15 + m" using dm by linarith
  also have "\<dots> \<longleftrightarrow> g + k = 15 * (g div 15 + m)"
    using up dq [of "g + k" "g div 15 + m"] by simp
  also have "\<dots> \<longleftrightarrow> k = 15 * m - g mod 15"
    using lin [OF g kr] unfolding distrib_left .
  finally show ?thesis .
qed

section \<open>When an armed timeout fires\<close>





text \<open>
  A long timeout of 240 minutes does not wait: set at any tick but the last of its minute,
  it is due at the very next sweep, because the byte it is kept in counts minutes modulo 240.
\<close>

theorem us_socket_long_timeout_240_fires_at_once:
  assumes s: "is_sock st s" and c: "s_context (socks st s) = c" "is_ctx st c"
    and ts: "c_long_timestamp (ctxs st c) = long_ticks (c_global_tick (ctxs st c))"
    and g: "unat (c_global_tick (ctxs st c)) mod 15 \<noteq> 14" "unat (c_global_tick (ctxs st c)) + 1 < 2 ^ 32"
  shows "\<exists>st'. us_socket_long_timeout s 240 st = Some st' \<and>
    long_ticks (c_global_tick (ctxs st c) + 1) = s_long_timeout (socks st' s)"
proof -
  let ?g = "c_global_tick (ctxs st c)"
  define v :: u8 where "v = ucast ((ucast (long_ticks ?g) + 240) mod 240 :: u32)"
  let ?st = "st\<lparr>socks := (socks st)(s := (socks st s)\<lparr>s_long_timeout := v\<rparr>)\<rparr>"
  have eq: "us_socket_long_timeout s 240 st = Some ?st"
    using s c ts by (simp add: us_socket_long_timeout_def v_def)
  have v: "unat v = unat ?g div 15 mod 240"
    using long_timeout_value [of 240 ?g] by (simp add: v_def)
  have "unat (?g + 1) = unat ?g + 1" using unat_add_of_nat [of ?g 1] g(2) by simp
  moreover have "x mod 15 \<noteq> 14 \<Longrightarrow> (x + 1) div 15 = x div 15" for x :: nat
    by (simp add: div_Suc mod_Suc)
  then have "(unat ?g + 1) div 15 = unat ?g div 15" using g(1) by blast
  ultimately have "long_ticks (?g + 1) = v" using v by (simp add: long_ticks_eq_iff)
  then show ?thesis using eq by simp
qed

theorem us_socket_long_timeout_240_fires_at_once_witness:
  "\<exists>st'. us_socket_long_timeout 21 240 demo = Some st' \<and>
    long_ticks (c_global_tick (ctxs demo 100) + 1) = s_long_timeout (socks st' 21)"
  by (rule us_socket_long_timeout_240_fires_at_once [of demo 21 100])
    (simp_all add: demo_defs is_sock_def is_ctx_def long_ticks_def)

end
