(* ===== verification/Us_Handlers.thy ===== *)
theory Us_Handlers
  imports Us_Loop
begin

text \<open>
  The contract between the library and the handlers of its user, as a locale. A handler is
  called in a state that satisfies the invariant, may call back into the library, and returns
  in a state that satisfies it again and has only grown. What the dispatcher does around the
  handlers is proved once inside the locale. The parameter \<open>q\<close> says whether contexts may
  push sockets to the low-priority queue; without it every context answers with the default
  handler and the queue stays empty, as in a build without SSL.
\<close>

section \<open>States between callbacks\<close>

definition ctx_good :: "bool \<Rightarrow> us_socket_context_t \<Rightarrow> bool" where
  "ctx_good q C \<longleftrightarrow> c_on_open C \<noteq> FnNull \<and> c_on_data C \<noteq> FnNull \<and> c_on_writable C \<noteq> FnNull \<and>
     c_on_close C \<noteq> FnNull \<and> c_on_socket_timeout C \<noteq> FnNull \<and> c_on_socket_long_timeout C \<noteq> FnNull \<and>
     c_on_end C \<noteq> FnNull \<and> c_on_connect_error C \<noteq> FnNull \<and> c_is_low_prio C \<noteq> FnNull \<and>
     (q \<or> c_is_low_prio C = FnDefaultIsLowPrio)"

definition loop_inv :: "bool \<Rightarrow> alists \<Rightarrow> us \<Rightarrow> bool" where
  "loop_inv q A st \<longleftrightarrow> us_inv A st \<and> (\<forall>c\<in>set (al_ctxs A). ctx_good q (ctxs st c)) \<and>
     (q \<or> al_low A = [])"

definition steps :: "bool \<Rightarrow> alists \<Rightarrow> us \<Rightarrow> alists \<Rightarrow> us \<Rightarrow> bool" where
  "steps q A st A' st' \<longleftrightarrow> loop_inv q A' st' \<and> grows A st A' st'"

definition steps0 :: "bool \<Rightarrow> alists \<Rightarrow> us \<Rightarrow> alists \<Rightarrow> us \<Rightarrow> bool" where
  "steps0 q A st A' st' \<longleftrightarrow> loop_inv q A' st' \<and> grows0 A st A' st'"

lemma steps_steps0: "steps q A st A' st' \<Longrightarrow> steps0 q A st A' st'"
  by (simp add: steps_def steps0_def grows_grows0)

lemma steps_trans: "steps q A st A1 st1 \<Longrightarrow> steps q A1 st1 A2 st2 \<Longrightarrow> steps q A st A2 st2"
  using grows_trans by (auto simp: steps_def)

lemma steps0_trans: "steps0 q A st A1 st1 \<Longrightarrow> steps0 q A1 st1 A2 st2 \<Longrightarrow> steps0 q A st A2 st2"
  using grows0_trans by (auto simp: steps0_def)

lemma steps_refl: "loop_inv q A st \<Longrightarrow> steps q A st A st"
  by (simp add: steps_def)

lemma loop_invD:
  assumes "loop_inv q A st"
  shows "us_inv A st" "lists_inv A st" "polls_inv A st" "c \<in> set (al_ctxs A) \<Longrightarrow> ctx_good q (ctxs st c)"
    "\<not> q \<Longrightarrow> al_low A = []"
  using assms us_invD by (auto simp: loop_inv_def)

lemma loop_inv_emit [simp]: "loop_inv q A (emit e st) = loop_inv q A st"
  by (simp add: loop_inv_def)

lemma ctx_good_handlers: "c_handlers C' = c_handlers C \<Longrightarrow> ctx_good q C' = ctx_good q C"
  by (simp add: ctx_good_def c_handlers_def)

text \<open>An operation of the library that keeps the handlers is a step.\<close>

lemma lib_step:
  assumes I: "loop_inv q A st" and e: "evolves A st A' st'" and c: "al_ctxs A' = al_ctxs A"
    and h: "\<And>c. c \<in> set (al_ctxs A) \<Longrightarrow> c_handlers (ctxs st' c) = c_handlers (ctxs st c)"
    and low: "set (al_low A') \<subseteq> set (al_low A)"
  shows "steps q A st A' st'"
proof -
  have "ctx_good q (ctxs st' d)" if "d \<in> set (al_ctxs A')" for d
    using that loop_invD(4) [OF I] h ctx_good_handlers [of "ctxs st' d" "ctxs st d"] c by simp
  moreover have "q \<or> al_low A' = []" using loop_invD(5) [OF I] low by (cases q) simp_all
  ultimately show ?thesis using e by (simp add: steps_def loop_inv_def evolves_def)
qed

lemma poll_step:
  assumes "loop_inv q A st" and "evolves A st A st'" and "poll_frame st st'"
  shows "steps q A st A st'"
  by (rule lib_step [OF assms(1,2)]) (use poll_frameD(4) [OF assms(3)] in simp_all)

section \<open>The contract\<close>

definition alive :: "alists \<Rightarrow> addr \<Rightarrow> bool" where
  "alive A s \<longleftrightarrow> live_sock A s \<or> s \<in> set (al_closed A)"

text \<open>
  A handler that is asked before a connection is accepted must leave the listen sockets of its
  context alone: the accept loop calls \<open>accept\<close> on the listen socket again without asking
  whether it is still open. What a handler may return for the socket \<open>s\<close>: a socket that is alive, established if it is
  open, and not queued unless \<open>s\<close> was.
\<close>

definition returns_ok :: "alists \<Rightarrow> addr \<Rightarrow> alists \<Rightarrow> us \<Rightarrow> addr \<Rightarrow> bool" where
  "returns_ok A s A' st' r \<longleftrightarrow> alive A' r \<and> (live_sock A' r \<longrightarrow> established st' r) \<and>
     (r \<in> set (al_low A') \<longrightarrow> s \<in> set (al_low A))"

locale event_handlers =
  fixes H :: handlers and q :: bool
  assumes pre_open_ok: "loop_inv q A st \<Longrightarrow> c \<in> set (al_ctxs A) \<Longrightarrow> f \<noteq> FnNull \<Longrightarrow>
      \<exists>r A' st'. h_pre_open H f c fd ip st = Some (r, st') \<and> steps q A st A' st' \<and>
        set (al_listen A c) \<subseteq> set (al_listen A' c)"
    and open_ok: "loop_inv q A st \<Longrightarrow> open_sock A s \<Longrightarrow> established st s \<Longrightarrow> f \<noteq> FnNull \<Longrightarrow>
      \<exists>r A' st'. h_open H f s client ip st = Some (r, st') \<and> steps q A st A' st'"
    and data_ok: "loop_inv q A st \<Longrightarrow> open_sock A s \<Longrightarrow> established st s \<Longrightarrow> f \<noteq> FnNull \<Longrightarrow>
      \<exists>r A' st'. h_data H f s d st = Some (r, st') \<and> steps q A st A' st' \<and>
        (r \<noteq> NULL \<longrightarrow> returns_ok A s A' st' r)"
    and sock_ok: "loop_inv q A st \<Longrightarrow> live_sock A s \<Longrightarrow> f \<noteq> FnNull \<Longrightarrow>
      \<exists>r A' st'. h_sock H f s st = Some (r, st') \<and> steps q A st A' st' \<and>
        (established st s \<longrightarrow> returns_ok A s A' st' r)"
    and close_ok: "loop_inv q A st \<Longrightarrow> s \<in> set (al_closed A) \<Longrightarrow> f \<noteq> FnNull \<Longrightarrow>
      \<exists>r A' st'. h_close H f s code reason st = Some (r, st') \<and> steps q A st A' st'"
    and connect_error_ok: "loop_inv q A st \<Longrightarrow> open_sock A s \<Longrightarrow> f \<noteq> FnNull \<Longrightarrow>
      \<exists>r A' st'. h_connect_error H f s code st = Some (r, st') \<and> steps q A st A' st' \<and>
        (open_sock A' s \<or> s \<in> set (al_closed A'))"
    and loop_ok: "loop_inv q A st \<Longrightarrow> f \<noteq> FnNull \<Longrightarrow> \<exists>A' st'. h_loop H f st = Some st' \<and> steps q A st A' st'"
    and callback_ok: "loop_inv q A st \<Longrightarrow> f \<noteq> FnNull \<Longrightarrow>
      \<exists>A' st'. h_callback H f p st = Some st' \<and> steps q A st A' st'"
begin

lemma steps_from_emit: "steps q A (emit e st) A' st' \<Longrightarrow> steps q A st A' st'"
  using grows_from_emit by (auto simp: steps_def)

lemma call_sock_ok:
  assumes "loop_inv q A st" "live_sock A s" "f \<noteq> FnNull"
  shows "\<exists>r A' st'. call_sock H e f s st = Some (r, st') \<and> steps q A st A' st' \<and>
        (established st s \<longrightarrow> returns_ok A s A' st' r)"
proof -
  have 1: "loop_inv q A (emit (e s) st)" using assms(1) by simp
  from sock_ok [OF 1 assms(2,3)] show ?thesis
    using assms(3) steps_from_emit by (fastforce simp: call_sock_def established_def type3_def)
qed

lemma call_data_ok:
  assumes "loop_inv q A st" "open_sock A s" "established st s" "f \<noteq> FnNull"
  shows "\<exists>r A' st'. call_data H f s d st = Some (r, st') \<and> steps q A st A' st' \<and>
        (r \<noteq> NULL \<longrightarrow> returns_ok A s A' st' r)"
proof -
  have 1: "loop_inv q A (emit (OnData s d) st)" "established (emit (OnData s d) st) s"
    using assms by (simp_all add: established_def type3_def)
  from data_ok [OF 1(1) assms(2) 1(2) assms(4)] show ?thesis
    using assms(4) steps_from_emit by (fastforce simp: call_data_def)
qed

lemma call_open_ok:
  assumes "loop_inv q A st" "open_sock A s" "established st s" "f \<noteq> FnNull"
  shows "\<exists>r A' st'. call_open H f s client ip st = Some (r, st') \<and> steps q A st A' st'"
proof -
  have 1: "loop_inv q A (emit (OnOpen s client ip) st)" "established (emit (OnOpen s client ip) st) s"
    using assms by (simp_all add: established_def type3_def)
  from open_ok [OF 1(1) assms(2) 1(2) assms(4)] show ?thesis
    using assms(4) steps_from_emit by (fastforce simp: call_open_def)
qed

lemma call_connect_error_ok:
  assumes "loop_inv q A st" "open_sock A s" "f \<noteq> FnNull"
  shows "\<exists>r A' st'. call_connect_error H f s code st = Some (r, st') \<and> steps q A st A' st' \<and>
    (open_sock A' s \<or> s \<in> set (al_closed A'))"
proof -
  have 1: "loop_inv q A (emit (OnConnectError s code) st)" using assms by simp
  from connect_error_ok [OF 1 assms(2,3)] show ?thesis
    using assms(3) steps_from_emit by (fastforce simp: call_connect_error_def)
qed

lemma call_loop_ok:
  assumes "loop_inv q A st" "f \<noteq> FnNull"
  shows "\<exists>A' st'. call_loop H e f st = Some st' \<and> steps q A st A' st'"
proof -
  have 1: "loop_inv q A (emit e st)" using assms by simp
  from loop_ok [OF 1 assms(2)] show ?thesis
    using assms(2) steps_from_emit by (fastforce simp: call_loop_def)
qed

lemma call_pre_open_ok:
  assumes I: "loop_inv q A st" and c: "c \<in> set (al_ctxs A)"
  shows "\<exists>b A' st'. call_pre_open H c fd ip st = Some (b, st') \<and> steps q A st A' st' \<and>
    set (al_listen A c) \<subseteq> set (al_listen A' c)"
proof (cases "c_on_pre_open (ctxs st c) = FnNull")
  case True
  then show ?thesis using lists_inv_ctx [OF loop_invD(2) [OF I] c] steps_refl [OF I]
    by (auto simp: call_pre_open_def)
next
  case False
  have 1: "loop_inv q A (emit (OnPreOpen c fd ip) st)" using I by simp
  from pre_open_ok [OF 1 c False] obtain r A' st' where
    2: "h_pre_open H (c_on_pre_open (ctxs st c)) c fd ip (emit (OnPreOpen c fd ip) st) = Some (r, st')"
    "steps q A (emit (OnPreOpen c fd ip) st) A' st'" "set (al_listen A c) \<subseteq> set (al_listen A' c)" by blast
  have "call_pre_open H c fd ip st = Some (r = fd, st')"
    using 2(1) False lists_inv_ctx [OF loop_invD(2) [OF I] c] by (simp add: call_pre_open_def)
  moreover have "steps q A st A' st'" using 2(2) by (rule steps_from_emit)
  ultimately show ?thesis using 2(3) by blast
qed

text \<open>Closing a live socket, its handler included.\<close>

lemma socket_close_step:
  assumes I: "loop_inv q A st" and s: "live_sock A s"
  shows "\<exists>r A' st'. us_socket_close H s code reason st = Some (r, st') \<and> steps q A st A' st' \<and>
    s \<in> set (al_closed A')"
proof -
  let ?c = "s_context (socks st s)"
  let ?A = "abs_close ?c s A"
  from close_steps [OF loop_invD(1) [OF I] s, of H code reason] obtain st2 where
    1: "us_socket_close H s code reason st = call_close H (c_on_close (ctxs st ?c)) s code reason st2"
    "evolves A st ?A st2" "close_effect s st st2" by blast
  have c: "?c \<in> set (al_ctxs A)" using live_sockD(2) [OF loop_invD(2) [OF I] s] .
  have f: "c_on_close (ctxs st ?c) \<noteq> FnNull" using loop_invD(4) [OF I c] by (simp add: ctx_good_def)
  have 2: "steps q A st ?A st2"
  proof (rule lib_step [OF I 1(2)])
    show "c_handlers (ctxs st2 c) = c_handlers (ctxs st c)" for c
      using 1(3) by (simp add: close_effect_def)
    show "set (al_low ?A) \<subseteq> set (al_low A)" by (simp add: set_remove1_subset)
  qed simp
  then have I2: "loop_inv q ?A (emit (OnClose s code reason) st2)" by (simp add: steps_def)
  from close_ok [OF I2 _ f] obtain r A' st' where
    3: "h_close H (c_on_close (ctxs st ?c)) s code reason (emit (OnClose s code reason) st2) = Some (r, st')"
    "steps q ?A (emit (OnClose s code reason) st2) A' st'" by fastforce
  have "us_socket_close H s code reason st = Some (r, st')"
    using 1(1) 3(1) f by (simp add: call_close_def)
  moreover have "steps q A st A' st'" using 2 steps_from_emit [OF 3(2)] steps_trans by blast
  moreover have "s \<in> set (al_closed A')"
    using 3(2) growsD(2) [of ?A "emit (OnClose s code reason) st2" A' st' s] by (simp add: steps_def)
  ultimately show ?thesis by blast
qed

end

end
