(* ===== verification/Us_Sweep.thy ===== *)
theory Us_Sweep
  imports Us_Handlers
begin

text \<open>
  The timeout sweep terminates and never follows a bad pointer, whatever the handlers do
  within their contract: they may close the socket they are called for, close the next one,
  open new ones. The iterator of the context is what makes this work; unlinking a socket
  moves it on, and the part of the list that is still to be visited only shrinks.
\<close>

section \<open>Seeking\<close>

definition due :: "u8 \<Rightarrow> u8 \<Rightarrow> us \<Rightarrow> addr \<Rightarrow> bool" where
  "due short long st s \<longleftrightarrow> short = s_timeout (socks st s) \<or> long = s_long_timeout (socks st s)"

lemma sweep_seek_ok:
  assumes L: "lists_inv A st" and c: "c \<in> set (al_ctxs A)"
  shows "al_socks A c = as @ s # bs \<Longrightarrow>
    sweep_seek short long s st = Some (hd0 (dropWhile (\<lambda>a. \<not> due short long st a) (s # bs)))"
proof (induction bs arbitrary: as s)
  case Nil
  then have "is_sock st s" "snx st s = NULL"
    using lists_inv_socks(1) [OF L c, of s] lists_invD(5) [OF L c] dll_neighbours by fastforce+
  then show ?case by (subst sweep_seek.simps) (auto simp: due_def)
next
  case (Cons b bs)
  have s: "is_sock st s" using lists_inv_socks(1) [OF L c, of s] Cons.prems by simp
  have n: "snx st s = b" "b \<noteq> NULL"
    using lists_invD(5) [OF L c] dll_neighbours [of "snx st" "spv st" NULL _ as s "b # bs"]
      Cons.prems dll_nonnull [OF lists_invD(5) [OF L c]] by auto
  have "al_socks A c = (as @ [s]) @ b # bs" using Cons.prems by simp
  from Cons.IH [OF this] s n show ?case by (subst sweep_seek.simps) (auto simp: due_def)
qed

section \<open>The iterator\<close>

definition set_iter :: "addr \<Rightarrow> addr \<Rightarrow> us \<Rightarrow> us" where
  "set_iter c s st = st\<lparr>ctxs := (ctxs st)(c := (ctxs st c)\<lparr>c_iterator := s\<rparr>)\<rparr>"

lemma set_iter_ok:
  assumes I: "loop_inv q A st" and c: "c \<in> set (al_ctxs A)" and s: "s = NULL \<or> s \<in> set (al_socks A c)"
  shows "steps0 q A st A (set_iter c s st)"
proof -
  let ?st = "set_iter c s st"
  have f: "c_head_sockets (ctxs ?st a) = c_head_sockets (ctxs st a)"
    "c_head_listen_sockets (ctxs ?st a) = c_head_listen_sockets (ctxs st a)"
    "c_next (ctxs ?st a) = c_next (ctxs st a)" "c_prev (ctxs ?st a) = c_prev (ctxs st a)"
    "c_handlers (ctxs ?st a) = c_handlers (ctxs st a)" for a
    by (auto simp: set_iter_def c_handlers_def)
  have g: "objs ?st = objs st" "socks ?st = socks st" "polls ?st = polls st" "cbs ?st = cbs st"
    "l_head ?st = l_head st" "l_low_prio_head ?st = l_low_prio_head st"
    "l_closed_head ?st = l_closed_head st" "ready_polls ?st = ready_polls st"
    "current_ready_poll ?st = current_ready_poll st" "num_ready_polls ?st = num_ready_polls st"
    "trace ?st = trace st" "l_pre_cb ?st = l_pre_cb st" "l_post_cb ?st = l_post_cb st"
    "is_sock ?st = is_sock st" "is_ctx ?st = is_ctx st"
    by (simp_all add: set_iter_def)
  have "ctx_inv A ?st d" if "d \<in> set (al_ctxs A)" for d
    using lists_invD(2) [OF loop_invD(2) [OF I] that] s f g unfolding ctx_inv_def
    by (auto simp: set_iter_def)
  then have "lists_inv A ?st"
    using loop_invD(2) [OF I] unfolding lists_inv_def low_inv_def closed_inv_def
    by (simp add: f g)
  moreover have "polls_inv A ?st"
    using loop_invD(3) [OF I]
    by (simp add: set_iter_def polls_inv_def sock_typed_def listen_typed_def low_typed_def established_def
        type3_def events3_def open_poll_def cb_typed_def ready_ok_def pending_def)
  moreover have "ctx_good q (ctxs ?st d)" if "d \<in> set (al_ctxs A)" for d
    using loop_invD(4) [OF I that] ctx_good_handlers [OF f(5)] by blast
  ultimately have "loop_inv q A ?st" using I unfolding loop_inv_def us_inv_def by blast
  moreover have "grows0 A st A ?st" by (simp add: grows0_def g)
  ultimately show ?thesis by (simp add: steps0_def)
qed

lemma drop_to: "s \<notin> set as \<Longrightarrow> dropWhile (\<lambda>a. a \<noteq> s) (as @ s # bs) = s # bs"
  by (induction as) auto

lemma set_iter_sweep_rest:
  "al_socks A c = as @ s # bs \<Longrightarrow> s \<notin> set as \<Longrightarrow> s \<noteq> NULL \<Longrightarrow>
   sweep_rest A (set_iter c s st) c = s # bs"
  by (simp add: sweep_rest_def set_iter_def drop_to)

text \<open>Ticks and timeouts are fields no list reads.\<close>

lemma ctx_fields_step:
  assumes I: "loop_inv q A st" and c: "c \<in> set (al_ctxs A)"
    and C: "c_head_sockets C = c_head_sockets (ctxs st c)"
      "c_head_listen_sockets C = c_head_listen_sockets (ctxs st c)"
      "c_iterator C = c_iterator (ctxs st c)" "c_next C = c_next (ctxs st c)" "c_prev C = c_prev (ctxs st c)"
      "c_handlers C = c_handlers (ctxs st c)"
  shows "steps q A st A (st\<lparr>ctxs := (ctxs st)(c := C)\<rparr>)"
  using ctx_fields_ok [OF loop_invD(1) [OF I] lists_inv_ctx [OF loop_invD(2) [OF I] c] C(1-5)]
  by (rule lib_step [OF I]) (use C(6) in simp_all)

lemma sock_fields_step:
  assumes I: "loop_inv q A st" and k: "s_next k = s_next (socks st s)" "s_prev k = s_prev (socks st s)"
    "s_context k = s_context (socks st s)"
    "s_low_prio_state k = 1 \<longleftrightarrow> s_low_prio_state (socks st s) = 1"
  shows "steps q A st A (st\<lparr>socks := (socks st)(s := k)\<rparr>)"
  using sock_fields_ok [OF loop_invD(1) [OF I] k] by (rule lib_step [OF I]) simp_all

section \<open>One socket\<close>

lemma stepsD:
  assumes "steps q A st A' st'"
  shows "loop_inv q A' st'" "us_inv A' st'" "lists_inv A' st'" "grows A st A' st'"
    "c \<in> set (al_ctxs A) \<Longrightarrow> c \<in> set (al_ctxs A')" "c \<in> set (al_ctxs A) \<Longrightarrow> is_ctx st' c"
  using assms growsD(1) [of A st A' st' c] loop_invD(1,2) [of q A' st'] lists_inv_ctx [of A' st' c]
  by (auto simp: steps_def)

context event_handlers
begin

lemma timeout_call_ok:
  assumes I: "loop_inv q A st" and c: "c \<in> set (al_ctxs A)" and s: "s \<in> set (al_socks A c)"
    and k: "s_next k = s_next (socks st s)" "s_prev k = s_prev (socks st s)"
      "s_context k = s_context (socks st s)" "s_low_prio_state k = s_low_prio_state (socks st s)"
    and f: "f \<noteq> FnNull"
  shows "\<exists>r A' st'. call_sock H e f s (st\<lparr>socks := (socks st)(s := k)\<rparr>) = Some (r, st') \<and> steps q A st A' st'"
proof -
  have 1: "steps q A st A (st\<lparr>socks := (socks st)(s := k)\<rparr>)"
    by (rule sock_fields_step [OF I]) (use k in simp_all)
  have "live_sock A s" using c s by (auto simp: live_sock_def open_sock_def)
  from call_sock_ok [OF stepsD(1) [OF 1] this f, of e] show ?thesis
    using steps_trans [OF 1] by blast
qed

lemma sweep_emit_ok:
  assumes I: "loop_inv q A st" and c: "c \<in> set (al_ctxs A)" and s: "s \<in> set (al_socks A c)"
  shows "\<exists>A' st'. sweep_emit H c short long s st = Some st' \<and> steps q A (set_iter c s st) A' st'"
proof -
  let ?st = "set_iter c s st"
  have I1: "loop_inv q A ?st" using set_iter_ok [OF I c] s by (simp add: steps0_def)
  have cx: "is_ctx ?st c" using lists_inv_ctx [OF loop_invD(2) [OF I1] c] .
  have sx: "is_sock ?st s" using lists_inv_socks(1) [OF loop_invD(2) [OF I1] c s] .
  have g: "c_on_socket_timeout (ctxs ?st c) \<noteq> FnNull"
    using loop_invD(4) [OF I1 c] by (simp add: ctx_good_def)
  have w: "wr_ctx c (\<lambda>c. c\<lparr>c_iterator := s\<rparr>) st = Some ?st"
    using lists_inv_ctx [OF loop_invD(2) [OF I] c] by (simp add: set_iter_def)
  have first: "\<exists>A1 st1. (if short = s_timeout (socks ?st s) then do {
           st \<leftarrow> wr_sock s (\<lambda>k. k\<lparr>s_timeout := 255\<rparr>) ?st;
           c \<leftarrow> rd_ctx c st;
           (_, st) \<leftarrow> call_sock H OnTimeout (c_on_socket_timeout c) s st;
           Some st }
         else Some ?st) = Some st1 \<and> steps q A ?st A1 st1"
  proof (cases "short = s_timeout (socks ?st s)")
    case True
    from timeout_call_ok [OF I1 c s, of "(socks ?st s)\<lparr>s_timeout := 255\<rparr>", OF _ _ _ _ g, of OnTimeout]
    obtain r A1 st1 where "call_sock H OnTimeout (c_on_socket_timeout (ctxs ?st c)) s
        (?st\<lparr>socks := (socks ?st)(s := (socks ?st s)\<lparr>s_timeout := 255\<rparr>)\<rparr>) = Some (r, st1)"
      "steps q A ?st A1 st1" by auto
    then show ?thesis using True cx sx by auto
  qed (use steps_refl [OF I1] in auto)
  then obtain A1 st1 where 1: "(if short = s_timeout (socks ?st s) then do {
           st \<leftarrow> wr_sock s (\<lambda>k. k\<lparr>s_timeout := 255\<rparr>) ?st;
           c \<leftarrow> rd_ctx c st;
           (_, st) \<leftarrow> call_sock H OnTimeout (c_on_socket_timeout c) s st;
           Some st }
         else Some ?st) = Some st1" and 2: "steps q A ?st A1 st1" by blast
  have c1: "c \<in> set (al_ctxs A1)" and cx1: "is_ctx st1 c" using stepsD(5,6) [OF 2 c] .
  have second: "\<exists>A2 st2. (if c_iterator (ctxs st1 c) = s then do {
       k \<leftarrow> rd_sock s st1;
       if long = s_long_timeout k then do {
         st \<leftarrow> wr_sock s (\<lambda>k. k\<lparr>s_long_timeout := 255\<rparr>) st1;
         c \<leftarrow> rd_ctx c st;
         (_, st) \<leftarrow> call_sock H OnLongTimeout (c_on_socket_long_timeout c) s st;
         Some st
       } else Some st1
     } else Some st1) = Some st2 \<and> steps q A1 st1 A2 st2"
  proof (cases "c_iterator (ctxs st1 c) = s")
    case True
    have s1: "s \<in> set (al_socks A1 c)"
      using lists_invD(9) [OF stepsD(3) [OF 2] c1] True sx by auto
    have sx1: "is_sock st1 s" using lists_inv_socks(1) [OF stepsD(3) [OF 2] c1 s1] .
    show ?thesis
    proof (cases "long = s_long_timeout (socks st1 s)")
      case l: True
      have g: "c_on_socket_long_timeout (ctxs st1 c) \<noteq> FnNull"
        using loop_invD(4) [OF stepsD(1) [OF 2] c1] by (simp add: ctx_good_def)
      from timeout_call_ok [OF stepsD(1) [OF 2] c1 s1, of "(socks st1 s)\<lparr>s_long_timeout := 255\<rparr>",
          OF _ _ _ _ g, of OnLongTimeout]
      obtain r A2 st2 where "call_sock H OnLongTimeout (c_on_socket_long_timeout (ctxs st1 c)) s
          (st1\<lparr>socks := (socks st1)(s := (socks st1 s)\<lparr>s_long_timeout := 255\<rparr>)\<rparr>) = Some (r, st2)"
        "steps q A1 st1 A2 st2" by auto
      then show ?thesis using True l sx1 cx1 by auto
    qed (use True sx1 steps_refl [OF stepsD(1) [OF 2]] in auto)
  qed (use steps_refl [OF stepsD(1) [OF 2]] in auto)
  then obtain A2 st2 where 3: "(if c_iterator (ctxs st1 c) = s then do {
       k \<leftarrow> rd_sock s st1;
       if long = s_long_timeout k then do {
         st \<leftarrow> wr_sock s (\<lambda>k. k\<lparr>s_long_timeout := 255\<rparr>) st1;
         c \<leftarrow> rd_ctx c st;
         (_, st) \<leftarrow> call_sock H OnLongTimeout (c_on_socket_long_timeout c) s st;
         Some st
       } else Some st1
     } else Some st1) = Some st2" and 4: "steps q A1 st1 A2 st2" by blast
  have "sweep_emit H c short long s st = Some st2"
    unfolding sweep_emit_def w using sx cx1 1 3 by simp
  then show ?thesis using steps_trans [OF 2 4] by blast
qed

section \<open>The sockets of a context, the contexts of the loop\<close>

text \<open>The sweep from \<open>s\<close> on ends: what is left of the list gets shorter with every round.\<close>

lemma sweep_sockets_ok:
  assumes "loop_inv q A st" and "c \<in> set (al_ctxs A)" and "s = NULL \<or> al_socks A c = as @ s # bs"
    and "n = (if s = NULL then 0 else length (s # bs))"
  shows "\<exists>A' st'. sweep_sockets H c short long s st = Some st' \<and> steps0 q A st A' st' \<and>
    l_iterator st' = l_iterator st"
  using assms
proof (induction n arbitrary: A st s as bs rule: less_induct)
  case (less n)
  note I = less.prems(1) and c = less.prems(2)
  show ?case
  proof (cases "s = NULL")
    case True
    then show ?thesis using steps_refl [OF I] by (subst sweep_sockets.simps) (auto dest: steps_steps0)
  next
    case nz: False
    then have xs: "al_socks A c = as @ s # bs" and n: "n = length (s # bs)" using less.prems by auto
    let ?D = "dropWhile (\<lambda>a. \<not> due short long st a) (s # bs)"
    let ?t = "hd0 ?D"
    have seek: "sweep_seek short long s st = Some ?t"
      using sweep_seek_ok [OF loop_invD(2) [OF I] c xs] .
    show ?thesis
    proof (cases "?D = []")
      case True
      then have "?t = NULL" by (metis hd0_simps(1))
      then show ?thesis using seek nz steps_refl [OF I]
        by (subst sweep_sockets.simps) (auto dest: steps_steps0)
    next
      case False
      then obtain t ts where D: "?D = t # ts" by (cases ?D) auto
      obtain us where us: "s # bs = us @ t # ts"
        using takeWhile_dropWhile_id [of "\<lambda>a. \<not> due short long st a" "s # bs"] D by metis
      then have xs': "al_socks A c = (as @ us) @ t # ts" using xs by simp
      have dis: "distinct ((as @ us) @ t # ts)" and tn: "t \<noteq> NULL"
        using dll_distinct [OF lists_invD(5) [OF loop_invD(2) [OF I] c]]
          dll_nonnull [OF lists_invD(5) [OF loop_invD(2) [OF I] c]] xs' by auto
      have le: "length (t # ts) \<le> n" using n us by (metis le_add2 length_append)
      from sweep_emit_ok [OF I c, of t short long] xs' obtain A1 st1 where
        1: "sweep_emit H c short long t st = Some st1" "steps q A (set_iter c t st) A1 st1" by auto
      note c1 = stepsD(5) [OF 1(2) c] and L1 = stepsD(3) [OF 1(2)] and cx1 = stepsD(6) [OF 1(2) c]
      let ?i = "c_iterator (ctxs st1 c)"
      have r: "sweep_rest A (set_iter c t st) c = t # ts"
        using set_iter_sweep_rest [OF xs' _ tn] dis by simp
      have i0: "c_iterator (ctxs (set_iter c t st) c) = t" by (simp add: set_iter_def)
      have sw: "length (sweep_rest A1 st1 c) \<le> length (t # ts)"
        "?i = t \<or> length (sweep_rest A1 st1 c) < length (t # ts)"
        using growsD(4) [OF stepsD(4) [OF 1(2)] c] r i0 by (simp_all add: sweep_ok_def)
      have s01: "steps0 q A st A1 st1" "l_iterator st1 = l_iterator st"
        using steps0_trans [OF set_iter_ok [OF I c, of t] steps_steps0 [OF 1(2)]] xs'
          growsD(5) [OF stepsD(4) [OF 1(2)]] by (simp_all add: set_iter_def)
      have go: "\<exists>A' st'. sweep_sockets H c short long v st1 = Some st' \<and> steps0 q A st A' st' \<and>
          l_iterator st' = l_iterator st"
        if v: "v = NULL \<or> al_socks A1 c = as' @ v # bs'" "v \<noteq> NULL \<longrightarrow> length (v # bs') < n" for v as' bs'
      proof -
        have "(if v = NULL then 0 else length (v # bs')) < n" using v(2) le by (cases "v = NULL") auto
        from less.IH [OF this stepsD(1) [OF 1(2)] c1 v(1) refl] obtain A' st' where
          "sweep_sockets H c short long v st1 = Some st'" "steps0 q A1 st1 A' st'"
          "l_iterator st' = l_iterator st1" by auto
        then show ?thesis using steps0_trans [OF s01(1)] s01(2) by auto
      qed
      have it: "?i = NULL \<or> ?i \<in> set (al_socks A1 c)" using lists_invD(9) [OF L1 c1] .
      show ?thesis
      proof (cases "?i = t")
        case True
        then have "t \<in> set (al_socks A1 c)" using it tn by auto
        then obtain ps vs where ps: "al_socks A1 c = ps @ t # vs" "t \<notin> set ps"
          by (meson split_list_first)
        have "length vs \<le> length ts"
          using sw(1) True tn ps drop_to [OF ps(2), of vs] by (simp add: sweep_rest_def)
        moreover have nx: "s_next (socks st1 t) = hd0 vs" "is_sock st1 t"
          using dll_neighbours [of "snx st1" "spv st1" NULL _ ps t vs] lists_invD(5) [OF L1 c1] ps
            lists_inv_socks(1) [OF L1 c1, of t] by auto
        moreover have "hd0 vs = NULL \<or> al_socks A1 c = (ps @ [t]) @ hd0 vs # tl vs"
          using ps by (cases vs) auto
        ultimately have "\<exists>A' st'. sweep_sockets H c short long (s_next (socks st1 t)) st1 = Some st' \<and>
            steps0 q A st A' st' \<and> l_iterator st' = l_iterator st"
          using le by (intro go [of _ "ps @ [t]" "tl vs"]) (cases vs; auto)+
        then show ?thesis using seek D nz tn 1(1) cx1 True nx(2)
          by (subst sweep_sockets.simps) auto
      next
        case False
        have "\<exists>A' st'. sweep_sockets H c short long ?i st1 = Some st' \<and>
            steps0 q A st A' st' \<and> l_iterator st' = l_iterator st"
        proof (cases "?i = NULL")
          case True
          then show ?thesis using go [of NULL] by auto
        next
          case inz: False
          then obtain ps vs where ps: "al_socks A1 c = ps @ ?i # vs" "?i \<notin> set ps"
            using it by (metis split_list_first)
          have "length (?i # vs) < length (t # ts)"
            using sw(2) False inz ps drop_to [OF ps(2), of vs] by (simp add: sweep_rest_def)
          then show ?thesis using go [OF disjI2, OF ps(1)] le by auto
        qed
        then show ?thesis using seek D nz tn 1(1) cx1 False
          by (subst sweep_sockets.simps) auto
      qed
    qed
  qed
qed

lemma sweep_context_ok:
  assumes I: "loop_inv q A st" and c: "c \<in> set (al_ctxs A)"
  shows "\<exists>A' st'. sweep_context H c st = Some st' \<and> steps0 q A st A' st' \<and> l_iterator st' = l_iterator st"
proof -
  let ?C = "(ctxs st c)\<lparr>c_global_tick := c_global_tick (ctxs st c) + 1,
    c_timestamp := short_ticks (c_global_tick (ctxs st c) + 1),
    c_long_timestamp := long_ticks (c_global_tick (ctxs st c) + 1)\<rparr>"
  let ?st = "st\<lparr>ctxs := (ctxs st)(c := ?C)\<rparr>"
  have 1: "steps q A st A ?st" by (rule ctx_fields_step [OF I c]) (simp_all add: c_handlers_def)
  note I1 = stepsD(1) [OF 1] and cx = lists_inv_ctx [OF loop_invD(2) [OF I] c]
  let ?h = "c_head_sockets ?C" and ?xs = "al_socks A c"
  have d: "dll (snx ?st) (spv ?st) NULL ?h ?xs" using lists_invD(5) [OF stepsD(3) [OF 1] c] by simp
  have h: "?h = NULL \<or> ?xs = [] @ ?h # tl ?xs"
    using dll_head [OF d] by (cases ?xs) auto
  from sweep_sockets_ok [OF I1 c h refl] obtain A' st1 where 2: "sweep_sockets H c (c_timestamp ?C) (c_long_timestamp ?C) ?h ?st = Some st1"
    "steps0 q A ?st A' st1" "l_iterator st1 = l_iterator ?st"
    by blast
  note I2 = 2(2) [unfolded steps0_def, THEN conjunct1]
  have c2: "c \<in> set (al_ctxs A')" using 2(2) c grows0D(1) by (auto simp: steps0_def)
  have cx2: "is_ctx st1 c" using lists_inv_ctx [OF loop_invD(2) [OF I2] c2] .
  have "sweep_context H c st = Some (set_iter c NULL st1)"
    using cx 2(1) cx2 by (simp add: sweep_context_def set_iter_def)
  moreover have "steps0 q A st A' (set_iter c NULL st1)"
    using steps0_trans [OF steps0_trans [OF steps_steps0 [OF 1] 2(2)] set_iter_ok [OF I2 c2]] by simp
  moreover have "l_iterator (set_iter c NULL st1) = l_iterator st"
    using 2(3) by (simp add: set_iter_def)
  ultimately show ?thesis by blast
qed

end

lemma loop_inv_iterator [simp]: "loop_inv q A (st\<lparr>l_iterator := a\<rparr>) = loop_inv q A st"
  by (simp add: loop_inv_def us_inv_def lists_inv_def ctx_inv_def low_inv_def closed_inv_def
      polls_inv_def sock_typed_def listen_typed_def low_typed_def established_def type3_def
      events3_def open_poll_def cb_typed_def ready_ok_def pending_def)

lemma steps0_iterator [simp]:
  "steps0 q A st A' (st'\<lparr>l_iterator := a\<rparr>) = steps0 q A st A' st'"
  "steps0 q A (st\<lparr>l_iterator := a\<rparr>) A' st' = steps0 q A st A' st'"
  by (simp_all add: steps0_def grows0_def)

context event_handlers
begin

lemma sweep_contexts_ok:
  assumes "loop_inv q A st" and "al_ctxs A = pre @ cs" and "l_iterator st = hd0 cs"
  shows "\<exists>A' st'. sweep_contexts H st = Some st' \<and> steps0 q A st A' st'"
  using assms
proof (induction cs arbitrary: A st pre)
  case Nil
  then show ?case using steps_refl [of q A st]
    by (subst sweep_contexts.simps) (auto dest: steps_steps0)
next
  case (Cons c cs)
  have c: "c \<in> set (al_ctxs A)" using Cons.prems(2) by simp
  have "c \<noteq> NULL" using lists_inv_ctx [OF loop_invD(2) [OF Cons.prems(1)] c] by (auto simp: is_ctx_def)
  then have i: "l_iterator st = c" "l_iterator st \<noteq> NULL" using Cons.prems(3) by auto
  from sweep_context_ok [OF Cons.prems(1) c] obtain A1 st1 where
    1: "sweep_context H c st = Some st1" "steps0 q A st A1 st1" "l_iterator st1 = l_iterator st" by blast
  then have I1: "loop_inv q A1 st1" by (simp add: steps0_def)
  obtain new where new: "al_ctxs A1 = (new @ pre @ [c]) @ cs"
    using grows0D(4) [of A st A1 st1] 1(2) Cons.prems(2) by (auto simp: steps0_def)
  then have cx: "is_ctx st1 c" using lists_inv_ctx [OF loop_invD(2) [OF I1], of c] by simp
  have nx: "c_next (ctxs st1 c) = hd0 cs"
    using dll_neighbours [of "cnx st1" "cpv st1" NULL _ "new @ pre" c cs]
      lists_invD(1) [OF loop_invD(2) [OF I1]] new by simp
  have "loop_inv q A1 (st1\<lparr>l_iterator := hd0 cs\<rparr>)" using I1 by simp
  from Cons.IH [OF this new] obtain A' st' where
    2: "sweep_contexts H (st1\<lparr>l_iterator := hd0 cs\<rparr>) = Some st'" "steps0 q A1 st1 A' st'" by auto
  have "sweep_contexts H st = Some st'"
    using i 1(1,3) cx nx 2(1) by (subst sweep_contexts.simps) simp
  then show ?case using steps0_trans [OF 1(2) 2(2)] by blast
qed

lemma us_internal_timer_sweep_ok:
  assumes I: "loop_inv q A st"
  shows "\<exists>A' st'. us_internal_timer_sweep H st = Some st' \<and> steps0 q A st A' st'"
proof -
  have "l_head st = hd0 (al_ctxs A)"
    using dll_head [OF lists_invD(1) [OF loop_invD(2) [OF I]]] .
  then show ?thesis
    using sweep_contexts_ok [of A "st\<lparr>l_iterator := l_head st\<rparr>" "[]" "al_ctxs A"] I
    by (simp add: us_internal_timer_sweep_def)
qed

end

end
