(* ===== verification/Us_Queue.thy ===== *)
theory Us_Queue
  imports Us_Sweep
begin

unbundle bit_operations_syntax

text \<open>
  The low-priority queue and the close list at work: what happens before and after the ready
  polls of an iteration are dispatched. At most five queued sockets go back to their contexts,
  in the order of the queue, and poll for reading again; after the dispatch exactly the closed
  sockets are freed.
\<close>

section \<open>Back from the queue\<close>

text \<open>A poll operation reads no socket, so a socket may be rewritten before or after it.\<close>

lemma us_poll_change_socks:
  "us_poll_change s ev (st\<lparr>socks := X\<rparr>) = map_option (\<lambda>t. t\<lparr>socks := X\<rparr>) (us_poll_change s ev st)"
proof (cases "is_poll st s")
  case True
  then show ?thesis by (simp add: us_poll_change_eq emit_def)
next
  case False
  then show ?thesis by (simp add: us_poll_change_def us_poll_events_def rd_poll_def)
qed

lemma low_prio_pop_eq:
  assumes s: "is_sock st s" "is_ctx st c" "s_context (socks st s) = c" "s_prev (socks st s) = NULL"
    and n: "s_next (socks st s) = NULL \<or> is_sock st (s_next (socks st s))" "s_next (socks st s) \<noteq> s"
    and h: "h = c_head_sockets (ctxs st c)" "h = NULL \<or> is_sock st h" "h \<noteq> s"
  defines "st1 \<equiv> st\<lparr>socks := (popS s (socks st))(s := (socks st s)\<lparr>s_next := NULL, s_low_prio_state := 2\<rparr>),
      l_low_prio_head := s_next (socks st s)\<rparr>"
  assumes l: "us_internal_socket_context_link_socket c s st1 = Some st2"
  shows "low_prio_pop s st = us_poll_change s (events3 st s OR LIBUS_SOCKET_READABLE) st2"
proof -
  let ?n = "s_next (socks st s)"
  let ?S1 = "(popS s (socks st))(s := (socks st s)\<lparr>s_next := NULL\<rparr>)"
  let ?st1 = "st\<lparr>l_low_prio_head := ?n, socks := ?S1\<rparr>"
  let ?S2 = "pushS s h (?S1(s := (?S1 s)\<lparr>s_context := c\<rparr>))"
  let ?st2 = "?st1\<lparr>socks := ?S2, ctxs := (ctxs st)(c := (ctxs st c)\<lparr>c_head_sockets := s\<rparr>)\<rparr>"
  have eq1: "us_internal_socket_context_link_socket c s ?st1 = Some ?st2"
    using s h by (subst link_socket_eq [of _ _ _ h]) (simp_all add: Let_def)
  let ?S1' = "(popS s (socks st))(s := (socks st s)\<lparr>s_next := NULL, s_low_prio_state := 2\<rparr>)"
  let ?S2' = "pushS s h (?S1'(s := (?S1' s)\<lparr>s_context := c\<rparr>))"
  have "us_internal_socket_context_link_socket c s st1 = Some (?st2\<lparr>socks := ?S2'\<rparr>)"
    using s h unfolding st1_def by (subst link_socket_eq [of _ _ _ h]) (simp_all add: us.equality)
  with l have st2: "st2 = ?st2\<lparr>socks := ?S2'\<rparr>" by simp
  have S: "?S2(s := (?S2 s)\<lparr>s_low_prio_state := 2\<rparr>) = ?S2'"
    using h(3) by (cases "h = NULL") (auto simp: pushS_def Let_def fun_eq_iff)
  have pre: "(if ?n \<noteq> NULL then wr_sock ?n (\<lambda>n. n\<lparr>s_prev := NULL\<rparr>) (st\<lparr>l_low_prio_head := ?n\<rparr>)
      else Some (st\<lparr>l_low_prio_head := ?n\<rparr>)) = Some (st\<lparr>l_low_prio_head := ?n, socks := popS s (socks st)\<rparr>)"
    using s(4) n(1) by (auto simp: popS_def Let_def)
  have ps: "popS s (socks st) s = socks st s"
    using n(2) s by (intro popS_other) (auto simp: is_sock_def)
  have wn: "wr_sock s (\<lambda>k. k\<lparr>s_next := NULL\<rparr>) (st\<lparr>l_low_prio_head := ?n, socks := popS s (socks st)\<rparr>) =
      Some ?st1" using s(1) ps by simp
  have ev: "us_poll_events s ?st2 = Some (events3 st s)" using s(1) by (simp add: events3_def)
  have ctx: "s_context (?S2 s) = c" "is_sock ?st2 s" "is_ctx ?st2 c"
    using s h(3) by (simp_all add: pushS_def Let_def)
  from ctx have lp: "socket_loop s ?st2 = Some ()" by (intro socket_loop_eq) simp_all
  have chg: "us_poll_change s (events3 st s OR LIBUS_SOCKET_READABLE) ?st2 =
      map_option (\<lambda>t. t\<lparr>socks := ?S2\<rparr>) (us_poll_change s (events3 st s OR LIBUS_SOCKET_READABLE) st2)"
  proof -
    have "?st2 = st2\<lparr>socks := ?S2\<rparr>" by (simp add: st2 us.equality)
    then show ?thesis by (simp only: us_poll_change_socks)
  qed
  obtain st3 where st3: "us_poll_change s (events3 st s OR LIBUS_SOCKET_READABLE) st2 = Some st3"
    and f: "objs st3 = objs st2" "socks st3 = socks st2"
    using s(1) st2 by (simp add: us_poll_change_eq)
  have w: "wr_sock s (\<lambda>k. k\<lparr>s_low_prio_state := 2\<rparr>) (st3\<lparr>socks := ?S2\<rparr>) = Some (st3\<lparr>socks := ?S2'\<rparr>)"
    using S access_cong(1) [of st3 s st] f s(1) st2 by simp
  have "low_prio_pop s st = Some (st3\<lparr>socks := ?S2'\<rparr>)"
    unfolding low_prio_pop_def Let_def rd_sock_eq [OF s(1)] bind.simps
    unfolding pre bind.simps wn s(3) eq1 lp ev chg st3 option.map w by (rule refl)
  also have "st3\<lparr>socks := ?S2'\<rparr> = st3" using f(2) st2 by simp
  finally show ?thesis using st3 by simp
qed

lemma low_typedD: "low_typed st s \<Longrightarrow> established st s \<and> events3 st s AND LIBUS_SOCKET_READABLE = 0"
  by (simp add: low_typed_def)

lemma low_prio_pop_ok:
  assumes I: "us_inv A st" and xs: "al_low A = s # rest"
  defines "c \<equiv> s_context (socks st s)"
  shows "\<exists>st'. low_prio_pop s st = Some st' \<and> evolves A st (add_sock c s (del_low s A)) st' \<and>
    l_low_prio_head st' = hd0 rest \<and> (\<forall>d. c_handlers (ctxs st' d) = c_handlers (ctxs st d)) \<and>
    l_low_prio_budget st' = l_low_prio_budget st \<and>
    events3 st' s = events3 st s OR LIBUS_SOCKET_READABLE \<and> s_low_prio_state (socks st' s) = 2 \<and>
    (\<forall>x. s_context (socks st' x) = s_context (socks st x))"
proof -
  note L = us_invD(1) [OF I] and P = us_invD(2) [OF I]
  let ?A = "add_sock c s (del_low s A)" and ?n = "s_next (socks st s)"
  have s: "s \<in> set (al_low A)" using xs by simp
  note lw = lowD [OF L s]
  have d: "dll (snx st) (spv st) NULL (l_low_prio_head st) (s # rest)" using lists_invD(7) [OF L] xs by simp
  have nb: "s_prev (socks st s) = NULL" "?n = hd0 rest" "s \<noteq> NULL"
    using dll_neighbours [of "snx st" "spv st" NULL _ "[]" s rest] d by auto
  have dis: "s \<notin> set rest" using dll_distinct [OF d] by simp
  have n: "?n = NULL \<or> is_sock st ?n" "?n \<noteq> s"
    using nb dis lowD(1) [OF L] xs by (cases rest; auto)+
  have c: "c \<in> set (al_ctxs A)" "is_ctx st c" using lw(2,3) by (simp_all add: c_def)
  have cd: "s_context (socks st s) = c" by (simp add: c_def)
  let ?h = "c_head_sockets (ctxs st c)"
  have hx: "?h = NULL \<or> ?h \<in> set (al_socks A c)"
    using dll_head [OF lists_invD(5) [OF L c(1)]] by (cases "al_socks A c") auto
  have h: "?h = NULL \<or> is_sock st ?h" "?h \<noteq> s"
    using hx lists_inv_socks(1) [OF L c(1)] lw(6) c(1) nb(3) unfolding open_sock_def by auto
  let ?st1 = "st\<lparr>socks := (popS s (socks st))(s := (socks st s)\<lparr>s_next := NULL, s_low_prio_state := 2\<rparr>),
      l_low_prio_head := ?n\<rparr>"
  have L1: "lists_inv (del_low s A) ?st1" and det: "detached (del_low s A) s"
    using low_pop_ok(1) [OF L s, of "(socks st s)\<lparr>s_next := NULL, s_low_prio_state := 2\<rparr>"]
      low_pop_ok(2) [OF L s] nb(1) by simp_all
  have s1: "objs ?st1 s = Some KSocket" "s_low_prio_state (socks ?st1 s) \<noteq> 1" using lw(9) by simp_all
  from link_socket_ok [OF L1 _ s1(1) nb(3) det s1(2), of c] c(1) obtain st2 S where
    2: "us_internal_socket_context_link_socket c s ?st1 = Some st2" "lists_inv ?A st2" and
    st2: "st2 = ?st1\<lparr>socks := S, ctxs := (ctxs ?st1)(c := (ctxs ?st1 c)\<lparr>c_head_sockets := s\<rparr>)\<rparr>" and
    S: "same_core ((socks ?st1)(s := (socks ?st1 s)\<lparr>s_context := c\<rparr>)) S" by auto
  let ?ev = "events3 st s OR LIBUS_SOCKET_READABLE"
  have eq: "low_prio_pop s st = us_poll_change s ?ev st2"
    using low_prio_pop_eq [OF lw(1) c(2) cd nb(1) n refl h 2(1)] .
  have p2: "is_poll st2 s" using lw(1) st2 by simp
  have "?ev AND poll_mask = ?ev" by (simp add: bit.conj_disj_distrib2) (simp add: poll_mask_def event_defs)
  from epoll.change_ok [OF p2 this] obtain st3 where
    3: "us_poll_change s ?ev st2 = Some st3" "poll_local s st2 st3"
    "us_poll_events s st3 = Some ?ev" "us_internal_poll_type s st3 = us_internal_poll_type s st2" by blast
  note f = poll_frameD [OF poll_localD(1) [OF 3(2)]] and pl = poll_localD [OF 3(2)]
  have t: "events3 st3 s = ?ev" "type3 st3 s = type3 st s"
    using 3(3,4) p2 poll_local_access(1) [OF 3(2)] st2 by (simp_all add: type3_def)
  have est: "established st s" using polls_invD(3) [OF P s] low_typedD by blast
  then have typed: "sock_typed st3 s" using t(2) by (simp add: sock_typed_def established_def)
  have inv: "lists_inv ?A st3" using 2(2) lists_inv_poll_frame [OF pl(1)] by simp
  have "polls_inv ?A st3"
    using P
  proof (rule polls_inv_step [where X = "{s}"])
    show "ready_ok st3" using us_invD(3) [OF I] f pl(2) st2 by (simp add: ready_ok_def pending_def)
    fix p assume p: "p \<in> fst ` set (pending st3)" "p \<noteq> NULL"
    then have "open_poll A st p" using polls_invD(5) [OF P] pl(4) st2 by (simp add: pending_def)
    moreover have "\<not> cb_typed st s" using lw(1) by (auto simp: cb_typed_def is_cb_def is_sock_def)
    ultimately show "p \<notin> {s} \<and> cb_typed st p \<or> open_poll ?A st3 p"
      using c(1) xs unfolding open_poll_def by (cases "p = s") auto
  next
    fix a assume "a \<notin> {s}"
    then show "polls st3 a = polls st a \<and> cbs st3 a = cbs st a \<and> objs st3 a = objs st a"
      using f pl(3) st2 by simp
  next
    fix d x assume "d \<in> set (al_ctxs ?A)" "x \<in> set (al_socks ?A d)"
    then show "x \<notin> {s} \<and> (d \<in> set (al_ctxs A) \<and> x \<in> set (al_socks A d) \<or> sock_typed st x) \<or> sock_typed st3 x"
      using typed by (cases "x = s") (auto split: if_splits)
  qed (use lw(8) dis xs in auto)
  moreover have "grows A st ?A st3"
  proof (rule grows_same)
    fix d assume "d \<in> set (al_ctxs A)"
    have "s \<noteq> c_iterator (ctxs st c)"
      using lists_invD(9) [OF L c(1)] lw(6) c(1) nb(3) unfolding open_sock_def by auto
    then have "sweep_ok A st ?A st3 c" using f st2 by (intro sweep_rest_push) auto
    then show "al_socks ?A d = al_socks A d \<and> c_iterator (ctxs st3 d) = c_iterator (ctxs st d) \<or>
        sweep_ok A st ?A st3 d" using f st2 by (cases "d = c") auto
  qed (use f st2 in auto)
  ultimately have "evolves A st ?A st3" using inv us_invI by (simp add: evolves_def)
  moreover have "c_handlers (ctxs st3 d) = c_handlers (ctxs st d)" for d
    using f st2 by (simp add: c_handlers_def)
  moreover have "s_low_prio_state (socks st3 s) = 2" using same_coreD(3) [OF S, of s] f st2 by simp
  moreover have "s_context (socks st3 x) = s_context (socks st x)" for x
    using same_coreD(4) [OF S, of x] same_coreD(4) [OF popS_core, of s "socks st" x] f st2
    by (simp add: c_def split: if_splits)
  ultimately show ?thesis using eq 3(1) t(1) f st2 nb(2) by simp
qed

text \<open>The loop takes as many sockets off the queue as the budget says, from its front.\<close>

lemma low_prio_loop_ok:
  assumes "us_inv A st" and "l_low_prio_head st = hd0 (al_low A)"
  shows "\<exists>A' st'. low_prio_loop (l_low_prio_head st) st = Some st' \<and> evolves A st A' st' \<and>
    al_ctxs A' = al_ctxs A \<and> al_low A' = drop (nat (l_low_prio_budget st)) (al_low A) \<and>
    (\<forall>d. c_handlers (ctxs st' d) = c_handlers (ctxs st d)) \<and>
    (\<forall>s\<in>set (take (nat (l_low_prio_budget st)) (al_low A)).
      s \<in> set (al_socks A' (s_context (socks st s)))) \<and>
    (\<forall>d. set (al_socks A d) \<subseteq> set (al_socks A' d))"
  using assms
proof (induction "nat (l_low_prio_budget st)" arbitrary: A st)
  case 0
  then show ?case using evolves_refl by (subst low_prio_loop.simps) (auto intro!: exI [of _ A])
next
  case (Suc n)
  note L = us_invD(1) [OF Suc.prems(1)]
  show ?case
  proof (cases "al_low A")
    case Nil
    then show ?thesis using Suc.prems evolves_refl
      by (subst low_prio_loop.simps) (auto intro!: exI [of _ A])
  next
    case (Cons s rest)
    have s0: "s \<noteq> NULL" using lowD(1) [OF L, of s] Cons by (auto simp: is_sock_def)
    have b: "l_low_prio_budget st > 0" "nat (l_low_prio_budget st) = Suc n" using Suc.hyps(2) by auto
    let ?A = "add_sock (s_context (socks st s)) s (del_low s A)"
    from low_prio_pop_ok [OF Suc.prems(1) Cons] obtain st1 where
      1: "low_prio_pop s st = Some st1" "evolves A st ?A st1" "l_low_prio_head st1 = hd0 rest"
      "\<forall>d. c_handlers (ctxs st1 d) = c_handlers (ctxs st d)" "l_low_prio_budget st1 = l_low_prio_budget st"
      "\<forall>x. s_context (socks st1 x) = s_context (socks st x)" by blast
    let ?st = "st1\<lparr>l_low_prio_budget := l_low_prio_budget st1 - 1\<rparr>"
    have low: "al_low ?A = rest" using Cons by simp
    have I1: "us_inv ?A ?st" and g1: "grows A st ?A ?st" using 1(2) by (simp_all add: evolves_def)
    have n: "n = nat (l_low_prio_budget ?st)" using b 1(5) by simp
    have hd: "l_low_prio_head ?st = hd0 (al_low ?A)" using 1(3) low by simp
    from Suc.hyps(1) [OF n I1 hd] obtain A' st' where
      2: "low_prio_loop (l_low_prio_head ?st) ?st = Some st'" "evolves ?A ?st A' st'"
      "al_ctxs A' = al_ctxs ?A" "al_low A' = drop n (al_low ?A)"
      "\<forall>d. c_handlers (ctxs st' d) = c_handlers (ctxs ?st d)"
      "\<forall>x\<in>set (take n (al_low ?A)). x \<in> set (al_socks A' (s_context (socks ?st x)))"
      "\<forall>d. set (al_socks ?A d) \<subseteq> set (al_socks A' d)" unfolding n [symmetric] by blast
    have "low_prio_loop (l_low_prio_head st) st = Some st'"
      using Suc.prems(2) Cons s0 b(1) 1(1) 2(1) by (subst low_prio_loop.simps) simp
    moreover have "evolves A st A' st'" using g1 2(2) grows_trans unfolding evolves_def by blast
    moreover have "\<forall>x\<in>set (take (Suc n) (al_low A)). x \<in> set (al_socks A' (s_context (socks st x)))"
      using 2(6,7) low 1(6) Cons by (auto simp: subset_iff)
    moreover have "set (al_socks A d) \<subseteq> set (al_socks A' d)" for d using 2(7) by fastforce
    ultimately show ?thesis using 2(3,4,5) 1(4) low Cons b(2) by auto
  qed
qed

lemma us_internal_handle_low_priority_sockets_ok:
  assumes I: "us_inv A st"
  shows "\<exists>A' st'. us_internal_handle_low_priority_sockets st = Some st' \<and> evolves A st A' st' \<and>
    al_ctxs A' = al_ctxs A \<and> al_low A' = drop 5 (al_low A) \<and>
    (\<forall>d. c_handlers (ctxs st' d) = c_handlers (ctxs st d)) \<and>
    (\<forall>s\<in>set (take 5 (al_low A)). s \<in> set (al_socks A' (s_context (socks st s)))) \<and>
    (\<forall>d. set (al_socks A d) \<subseteq> set (al_socks A' d))"
proof -
  let ?st = "st\<lparr>l_low_prio_budget := MAX_LOW_PRIO_SOCKETS_PER_LOOP_ITERATION\<rparr>"
  have I1: "us_inv A ?st" using I by simp
  have hd: "l_low_prio_head ?st = hd0 (al_low A)"
    using dll_head [OF lists_invD(7) [OF us_invD(1) [OF I]]] by simp
  have n: "nat (l_low_prio_budget ?st) = 5" by (simp add: MAX_LOW_PRIO_SOCKETS_PER_LOOP_ITERATION_def)
  have g: "grows A st A ?st" by simp
  from low_prio_loop_ok [OF I1 hd] obtain A' st' where
    "low_prio_loop (l_low_prio_head ?st) ?st = Some st'" "evolves A ?st A' st'"
    "al_ctxs A' = al_ctxs A" "al_low A' = drop 5 (al_low A)"
    "\<forall>d. c_handlers (ctxs st' d) = c_handlers (ctxs ?st d)"
    "\<forall>s\<in>set (take 5 (al_low A)). s \<in> set (al_socks A' (s_context (socks ?st s)))"
    "\<forall>d. set (al_socks A d) \<subseteq> set (al_socks A' d)" unfolding n by blast
  moreover from this(2) have "evolves A st A' st'" using grows_trans [OF g] unfolding evolves_def by blast
  ultimately show ?thesis by (simp add: us_internal_handle_low_priority_sockets_def) blast
qed

section \<open>Freeing the closed sockets\<close>

definition free_all :: "addr list \<Rightarrow> us \<Rightarrow> us" where
  "free_all xs st = st\<lparr>objs := (\<lambda>a. if a \<in> set xs then None else objs st a),
     num_polls := num_polls st - int (length xs)\<rparr>"

lemma free_closed_loop_ok:
  "sll (snx st) s xs \<Longrightarrow> (\<And>x. x \<in> set xs \<Longrightarrow> is_sock st x) \<Longrightarrow>
   free_closed_loop s st = Some (free_all xs st)"
proof (induction xs arbitrary: s st)
  case Nil
  then show ?case by (subst free_closed_loop.simps) (simp add: free_all_def)
next
  case (Cons x xs)
  then have s: "s = x" "x \<noteq> NULL" "is_sock st x" and c: "sll (snx st) (s_next (socks st x)) xs" by auto
  have dis: "x \<notin> set xs" using sll_distinct [OF Cons.prems(1)] by simp
  let ?st = "st\<lparr>num_polls := num_polls st - 1, objs := (objs st)(x := None)\<rparr>"
  have 1: "us_poll_free x st = Some ?st"
    using s by (auto simp: us_poll_free_def free_obj_def is_sock_def)
  have "is_sock ?st y" if "y \<in> set xs" for y
    using Cons.prems(2) [of y] that dis by (auto simp: is_sock_def)
  then have 2: "free_closed_loop (s_next (socks st x)) ?st = Some (free_all xs ?st)"
    using c by (intro Cons.IH) simp_all
  have "free_all xs ?st = free_all (x # xs) st" by (auto simp: free_all_def us.equality fun_eq_iff)
  then show ?case using s 1 2 by (subst free_closed_loop.simps) simp
qed

lemma us_internal_free_closed_sockets_ok:
  assumes I: "us_inv A st"
  shows "\<exists>st'. us_internal_free_closed_sockets st = Some st' \<and> us_inv (A\<lparr>al_closed := []\<rparr>) st' \<and>
    st' = (free_all (al_closed A) st)\<lparr>l_closed_head := NULL\<rparr>"
proof -
  note L = us_invD(1) [OF I] and P = us_invD(2) [OF I]
  let ?A = "A\<lparr>al_closed := []\<rparr>" and ?xs = "al_closed A"
  let ?st = "(free_all ?xs st)\<lparr>l_closed_head := NULL\<rparr>"
  have c: "sll (snx st) (l_closed_head st) ?xs" using lists_invD(8) [OF L] .
  have 1: "free_closed_loop (l_closed_head st) st = Some (free_all ?xs st)"
    using c lists_inv_closed(1) [OF L] by (rule free_closed_loop_ok)
  have eq: "us_internal_free_closed_sockets st = Some ?st"
  proof (cases "l_closed_head st = NULL")
    case True
    then have "?xs = []" using c by (cases ?xs) auto
    then show ?thesis using True
      by (simp add: us_internal_free_closed_sockets_def free_all_def us.equality)
  qed (use 1 in \<open>simp add: us_internal_free_closed_sockets_def\<close>)
  have f: "socks ?st = socks st" "ctxs ?st = ctxs st" "polls ?st = polls st" "cbs ?st = cbs st"
    "a \<notin> set ?xs \<Longrightarrow> objs ?st a = objs st a" "pending ?st = pending st" for a
    by (simp_all add: free_all_def pending_def)
  have "lists_inv ?A (st\<lparr>l_closed_head := NULL\<rparr>)"
    using L by (simp add: lists_inv_def ctx_inv_def low_inv_def closed_inv_def)
  then have inv: "lists_inv ?A ?st"
  proof (rule lists_inv_far [where X = "set ?xs"])
    fix s assume s: "s \<in> set ?xs"
    show "detached ?A s \<and> s \<notin> set (al_ctxs ?A)"
      using lists_disjoint(1-3) [OF L] sock_not_ctx [OF L lists_inv_closed(1) [OF L s]] s
      unfolding detached_def by auto
  qed (simp_all add: free_all_def)
  have nin: "d \<in> set (al_ctxs A) \<Longrightarrow> x \<in> set (al_socks A d) \<Longrightarrow> x \<notin> set ?xs"
    "d \<in> set (al_ctxs A) \<Longrightarrow> x \<in> set (al_listen A d) \<Longrightarrow> x \<notin> set ?xs"
    "x \<in> set (al_low A) \<Longrightarrow> x \<notin> set ?xs" for d x
    using lists_disjoint(1-3) [OF L] by blast+
  have "polls_inv ?A ?st"
    using P
  proof (rule polls_inv_step [where X = "set ?xs"])
    show "ready_ok ?st" using us_invD(3) [OF I] f(6) by (simp add: ready_ok_def free_all_def)
    fix p assume "p \<in> fst ` set (pending ?st)" "p \<noteq> NULL"
    then have "open_poll A st p" using polls_invD(5) [OF P] f(6) by simp
    then show "p \<notin> set ?xs \<and> cb_typed st p \<or> open_poll ?A ?st p"
      using closed_not_open_poll [OF L, of p] unfolding open_poll_def by auto
  qed (use f nin in auto)
  then show ?thesis using eq inv us_invI by blast
qed

section \<open>Into the queue\<close>

lemma low_prio_push_ok:
  assumes I: "us_inv A st" and s: "open_sock A s" and e: "established st s"
  defines "c \<equiv> s_context (socks st s)"
  shows "\<exists>st'. low_prio_push s st = Some st' \<and> evolves A st (add_low s (del_sock c s A)) st' \<and>
    (\<forall>d. c_handlers (ctxs st' d) = c_handlers (ctxs st d)) \<and>
    events3 st' s = events3 st s AND LIBUS_SOCKET_WRITABLE"
proof -
  note L = us_invD(1) [OF I]
  note od = open_sockD [OF L s]
  have c: "c \<in> set (al_ctxs A)" "s \<in> set (al_socks A c)" "is_ctx st c" using od by (simp_all add: c_def)
  let ?A = "add_low s (del_sock c s A)"
  have m: "(events3 st s AND LIBUS_SOCKET_WRITABLE) AND poll_mask = events3 st s AND LIBUS_SOCKET_WRITABLE"
    by (metis and.assoc and.commute events3_mask)
  from sock_change_ok [OF I _ e m] s obtain st1 where
    1: "us_poll_change s (events3 st s AND LIBUS_SOCKET_WRITABLE) st = Some st1" "poll_local s st st1"
    "evolves A st A st1" "events3 st1 s = events3 st s AND LIBUS_SOCKET_WRITABLE" "type3 st1 s = type3 st s"
    using od(7) unfolding live_sock_def by blast
  note f1 = poll_frameD [OF poll_localD(1) [OF 1(2)]]
  have I1: "us_inv A st1" and g1: "grows A st A st1" using 1(3) by (simp_all add: evolves_def)
  note L1 = us_invD(1) [OF I1] and P1 = us_invD(2) [OF I1]
  have s1: "is_sock st1 s" "s_context (socks st1 s) = c" "is_ctx st1 c"
    using od(1) c f1 access_cong(1,3) [of st1 _ st] by (simp_all add: c_def)
  from unlink_socket_ok [OF L1 c(1,2)] obtain st2 S C h where
    2: "us_internal_socket_context_unlink_socket c s st1 = Some st2" "lists_inv (del_sock c s A) st2"
      "detached (del_sock c s A) s" and
    st2: "st2 = st1\<lparr>socks := S, ctxs := (ctxs st1)(c := C)\<rparr>" and S: "S s = socks st1 s" and
    C: "C = (fix_iter s (s_next (socks st1 s)) (ctxs st1 c))\<lparr>c_head_sockets := h\<rparr>"
    by blast
  let ?h = "l_low_prio_head st2"
  let ?S3 = "pushS s ?h (socks st2)"
  let ?st3 = "st2\<lparr>socks := ?S3(s := (?S3 s)\<lparr>s_low_prio_state := 1\<rparr>), l_low_prio_head := s\<rparr>"
  have s2: "is_sock st2 s" "s_context (socks st2 s) = c" "is_ctx st2 c" "objs st2 s = Some KSocket" "s \<noteq> NULL"
    using s1 S st2 od(10) f1 by (auto simp: is_sock_def)
  have inv: "lists_inv ?A ?st3"
    by (rule low_push_ok [OF 2(2,3) s2(4,5)]) (use s2(2) c(1) in simp)
  have hx: "?h = NULL \<or> ?h \<in> set (al_low A)"
    using dll_head [OF lists_invD(7) [OF 2(2)]] by (cases "al_low A") auto
  then have hk: "?h = NULL \<or> is_sock st2 ?h" "?h \<noteq> s"
    using lists_inv_low(1) [OF 2(2)] od(7) s2(5) by auto
  have eq: "low_prio_push s st = Some ?st3"
    using od(1) c(3) s1 s2(1,2,3) 1(1) 2(1) hk
    by (cases "?h = NULL")
      (auto simp: low_prio_push_def c_def [symmetric] pushS_def Let_def fun_eq_iff
        intro!: us.equality us_socket_t.equality)
  have t: "events3 ?st3 s = events3 st1 s" "type3 ?st3 s = type3 st1 s"
    using st2 by (simp_all add: events3_def type3_def)
  have "LIBUS_SOCKET_WRITABLE AND LIBUS_SOCKET_READABLE = 0" by (simp add: event_defs)
  then have "events3 st1 s AND LIBUS_SOCKET_READABLE = 0" using 1(4) by (simp add: and.assoc)
  then have typed: "low_typed ?st3 s"
    using t 1(5) e by (simp add: low_typed_def established_def)
  have dis: "distinct (al_socks A c)" using dll_distinct [OF lists_invD(5) [OF L1 c(1)]] .
  have "polls_inv ?A ?st3"
    using P1
  proof (rule polls_inv_step [where X = "{}"])
    show "ready_ok ?st3" using us_invD(3) [OF I1] st2 by (simp add: ready_ok_def pending_def)
    fix p assume p: "p \<in> fst ` set (pending ?st3)" "p \<noteq> NULL"
    then have "open_poll A st1 p" using polls_invD(5) [OF P1] st2 by (simp add: pending_def)
    then show "p \<notin> {} \<and> cb_typed st1 p \<or> open_poll ?A ?st3 p"
      unfolding open_poll_def by (cases "p = s") (auto simp: in_set_remove1)
  next
    fix x assume "x \<in> set (al_low ?A)"
    then show "x \<notin> {} \<and> x \<in> set (al_low A) \<or> low_typed ?st3 x" using typed by auto
  next
    fix d x assume "d \<in> set (al_ctxs ?A)" "x \<in> set (al_socks ?A d)"
    then show "x \<notin> {} \<and> (d \<in> set (al_ctxs A) \<and> x \<in> set (al_socks A d) \<or> sock_typed st1 x) \<or> sock_typed ?st3 x"
      by (auto split: if_splits dest: notin_set_remove1 [rotated])
  qed (use st2 in auto)
  moreover have "grows A st1 ?A ?st3"
  proof (rule grows_same)
    have "sweep_ok A st1 ?A ?st3 c"
    proof (rule sweep_rest_remove [OF lists_invD(5) [OF L1 c(1)] c(2) _ _ lists_invD(9) [OF L1 c(1)]])
      show "c_iterator (ctxs ?st3 c) =
        (if c_iterator (ctxs st1 c) = s then s_next (socks st1 s) else c_iterator (ctxs st1 c))"
        using st2 by (auto simp: C fix_iter_def)
    qed simp
    then show "al_socks ?A d = al_socks A d \<and> c_iterator (ctxs ?st3 d) = c_iterator (ctxs st1 d) \<or>
        sweep_ok A st1 ?A ?st3 d" for d using st2 by (cases "d = c") auto
  qed (use st2 in auto)
  ultimately have "evolves A st ?A ?st3"
    using inv grows_trans [OF g1] us_invI by (simp add: evolves_def)
  moreover have "c_handlers (ctxs ?st3 d) = c_handlers (ctxs st d)" for d
    using f1 st2 by (simp add: c_handlers_def C fix_iter_def)
  ultimately show ?thesis using eq t(1) 1(4) by auto
qed

end
