(* ===== verification/Us_Dispatch.thy ===== *)
theory Us_Dispatch
  imports Us_Queue
begin

unbundle bit_operations_syntax

text \<open>
  One iteration of the loop is defined and ends, for every kernel that keeps its promises and
  all handlers that keep theirs: no ready poll that is dispatched is a closed or freed socket,
  no loop around a handler follows a stale pointer, and what the iteration leaves behind
  satisfies the invariant again, with the close list empty.
\<close>

section \<open>What the kernel promises\<close>

definition is_recv :: "sys \<Rightarrow> bool" where
  "is_recv e = (case e of Recv fd \<Rightarrow> True | _ \<Rightarrow> False)"

definition is_accept :: "sys \<Rightarrow> bool" where
  "is_accept e = (case e of Accept fd \<Rightarrow> True | _ \<Rightarrow> False)"

lemma is_recv_simps [simp]: "is_recv (Recv fd)" and is_accept_simps [simp]: "is_accept (Accept fd)"
  by (simp_all add: is_recv_def is_accept_def)

abbreviation recv_count :: "us \<Rightarrow> nat" where
  "recv_count st \<equiv> length (filter is_recv (trace st))"

abbreviation accept_count :: "us \<Rightarrow> nat" where
  "accept_count st \<equiv> length (filter is_accept (trace st))"

text \<open>
  The receive loop and the accept loop go on until the kernel has nothing more: from every
  state on, after finitely many calls a read no longer fills the buffer, and an accept fails.
\<close>

definition recv_ends :: "kernel \<Rightarrow> bool" where
  "recv_ends K \<longleftrightarrow> (\<forall>st :: us. \<exists>n. \<forall>st'. prefix (trace st) (trace st') \<and> n \<le> recv_count st' \<longrightarrow>
     fst (k_recv K st') \<noteq> LIBUS_RECV_BUFFER_LENGTH)"

definition accept_ends :: "kernel \<Rightarrow> bool" where
  "accept_ends K \<longleftrightarrow> (\<forall>st :: us. \<exists>n. \<forall>st'. prefix (trace st) (trace st') \<and> n \<le> accept_count st' \<and>
     is_accept (last (trace st')) \<longrightarrow> k_fd K st' = LIBUS_SOCKET_ERROR)"

text \<open>
  \<open>epoll_wait\<close> reports polls that are started and not stopped, each at most once: the
  callbacks and the open sockets.
\<close>

definition epoll_wait_ok :: "bool \<Rightarrow> kernel \<Rightarrow> bool" where
  "epoll_wait_ok q K \<longleftrightarrow> (\<forall>A st. loop_inv q A st \<longrightarrow> distinct (map fst (k_epoll_wait K st)) \<and>
     (\<forall>p\<in>fst ` set (k_epoll_wait K st). open_poll A st p))"

definition kernel_ok :: "bool \<Rightarrow> kernel \<Rightarrow> bool" where
  "kernel_ok q K \<longleftrightarrow> allocator_ok K \<and> recv_ends K \<and> accept_ends K \<and> epoll_wait_ok q K"

lemma prefix_count: "prefix xs ys \<Longrightarrow> length (filter P xs) \<le> length (filter P ys)"
  by (auto simp: prefix_def)

section \<open>Steps of the library\<close>

lemma steps_emit: "loop_inv q A st \<Longrightarrow> steps q A st A (emit e st)"
  by (simp add: steps_def)

lemma steps_prefix: "steps q A st A' st' \<Longrightarrow> prefix (trace st) (trace st')"
  using growsD(9) [of A st A' st'] by (simp add: steps_def)

lemma events_mask_and [simp]: "(events3 st s AND m) AND poll_mask = events3 st s AND m"
  by (metis and.assoc and.commute events3_mask)

lemma sock_change_step:
  assumes I: "loop_inv q A st" and s: "live_sock A s" and e: "established st s"
    and ev: "ev AND poll_mask = ev" and low: "s \<in> set (al_low A) \<Longrightarrow> ev AND LIBUS_SOCKET_READABLE = 0"
  shows "\<exists>st'. us_poll_change s ev st = Some st' \<and> steps q A st A st' \<and>
    events3 st' s = ev \<and> type3 st' s = type3 st s"
proof -
  from sock_change_ok [OF loop_invD(1) [OF I] s e ev low] obtain st' where
    "us_poll_change s ev st = Some st'" "poll_local s st st'" "evolves A st A st'"
    "events3 st' s = ev" "type3 st' s = type3 st s" by blast
  with poll_step [OF I this(3) poll_localD(1)] show ?thesis by blast
qed

lemma alive_is_closed:
  assumes I: "loop_inv q A st" and s: "alive A s"
  shows "us_socket_is_closed s st = Some (s \<in> set (al_closed A))" "is_sock st s"
proof -
  note L = loop_invD(2) [OF I]
  have "is_sock st s \<and> us_socket_is_closed s st = Some (s \<in> set (al_closed A))"
  proof (cases "s \<in> set (al_closed A)")
    case True
    then show ?thesis using lists_inv_closed [OF L True] by simp
  next
    case False
    then have "live_sock A s" using s by (simp add: alive_def)
    then show ?thesis using live_sockD(1,4,5) [OF L] by simp
  qed
  then show "us_socket_is_closed s st = Some (s \<in> set (al_closed A))" "is_sock st s" by simp_all
qed

lemma alive_open: "alive A s \<Longrightarrow> s \<notin> set (al_closed A) \<Longrightarrow> live_sock A s"
  by (simp add: alive_def)

lemma open_live: "open_sock A s \<Longrightarrow> live_sock A s"
  by (simp add: live_sock_def)

lemma live_ctx:
  assumes I: "loop_inv q A st" and s: "live_sock A s"
  shows "rd_sock s st = Some (socks st s)" "rd_ctx (s_context (socks st s)) st = Some (ctxs st (s_context (socks st s)))"
    "ctx_good q (ctxs st (s_context (socks st s)))" "socket_loop s st = Some ()"
    "is_sock st s" "us_poll_fd s st = Some (fd_of st s)" "us_poll_events s st = Some (events3 st s)"
    "us_socket_is_shut_down s st = Some (type3 st s = POLL_TYPE_SOCKET_SHUT_DOWN)"
  using live_sockD(1-3) [OF loop_invD(2) [OF I] s] loop_invD(4) [OF I]
  by (simp_all add: is_shut_down_eq us_poll_fd_def fd_of_def)

lemma poll_local_emit: "poll_local p st (emit e st)"
  by (simp add: poll_local_def)

lemma close_connecting_step:
  assumes I: "loop_inv q A st" and s: "open_sock A s \<or> s \<in> set (al_closed A)"
  shows "\<exists>A' st'. us_socket_close_connecting s st = Some (s, st') \<and> steps q A st A' st' \<and> s \<in> set (al_closed A')"
proof -
  have al: "alive A s" using s by (auto simp: alive_def live_sock_def)
  note cl = alive_is_closed [OF I al]
  show ?thesis
  proof (cases "s \<in> set (al_closed A)")
    case True
    then show ?thesis using cl steps_refl [OF I] by (auto simp: us_socket_close_connecting_def)
  next
    case False
    then have o: "open_sock A s" using s by blast
    note od = open_sockD [OF loop_invD(2) [OF I] o]
    let ?c = "s_context (socks st s)" and ?A = "abs_close (s_context (socks st s)) s A"
    from unlink_close_ok [OF loop_invD(1) [OF I] od(2,3)] obtain st1 st2 where
      1: "us_internal_socket_context_unlink_socket ?c s st = Some st1"
      "stop_and_link_closed s st1 = Some st2" "evolves A st ?A st2" "close_effect s st st2" by blast
    have "steps q A st ?A st2"
    proof (rule lib_step [OF I 1(3)])
      show "c_handlers (ctxs st2 c) = c_handlers (ctxs st c)" for c
        using 1(4) by (simp add: close_effect_def)
      show "set (al_low ?A) \<subseteq> set (al_low A)" by (simp add: set_remove1_subset)
    qed simp
    then show ?thesis using 1(1,2) od(1,6) by (auto simp: us_socket_close_connecting_def)
  qed
qed

lemma listen_is_closed:
  assumes "loop_inv q A st" and "c \<in> set (al_ctxs A)" and "p \<in> set (al_listen A c)"
  shows "us_socket_is_closed p st = Some False" "is_sock st p" "s_context (socks st p) = c"
    "us_poll_fd p st = Some (fd_of st p)"
  using lists_inv_listen [OF loop_invD(2) [OF assms(1)] assms(2,3)]
    open_prev_neq_context(2) [OF loop_invD(2) [OF assms(1)] assms(2,3)]
  by (simp_all add: us_poll_fd_def fd_of_def)

locale event_loop = event_handlers +
  fixes K :: kernel
  assumes kernel: "kernel_ok q K"
begin

section \<open>Reading\<close>

lemma alloc_ok: "allocator_ok K" using kernel by (simp add: kernel_ok_def)

lemma recv_loop_bounded:
  assumes bound: "\<And>st'. prefix (trace st0) (trace st') \<Longrightarrow> n \<le> recv_count st' \<Longrightarrow>
      fst (k_recv K st') \<noteq> LIBUS_RECV_BUFFER_LENGTH"
  shows "loop_inv q A st \<Longrightarrow> open_sock A s \<Longrightarrow> established st s \<Longrightarrow> prefix (trace st0) (trace st) \<Longrightarrow>
    \<exists>A' st'. recv_loop K H s st = Some st' \<and> steps q A st A' st'"
proof (induction "n - recv_count st" arbitrary: A st s rule: less_induct)
  case less
  note I = less.prems(1) and s = less.prems(2) and e = less.prems(3)
  note lv = open_live [OF s]
  note g = live_ctx [OF I lv]
  let ?c = "ctxs st (s_context (socks st s))"
  let ?st = "emit (Recv (fd_of st s)) st"
  obtain len data where r: "k_recv K ?st = (len, data)" by fastforce
  have I1: "loop_inv q A ?st" and e1: "established ?st s" and s1: "steps q A st A ?st"
    using I e steps_emit by (simp_all add: established_def type3_def)
  note g1 = live_ctx [OF I1 lv]
  have f: "c_on_data ?c \<noteq> FnNull" "c_on_end ?c \<noteq> FnNull" using g(3) by (simp_all add: ctx_good_def)
  have low: "s \<notin> set (al_low A)" using open_sockD(7) [OF loop_invD(2) [OF I] s] .
  note unf = recv_loop.simps [of K H s st] g(1,2,6) r
  consider (data) "len > 0" | (eof) "len = 0" | (err) "len = LIBUS_SOCKET_ERROR \<and> \<not> k_would_block K ?st"
    | (none) "len < 0" "\<not> (len = LIBUS_SOCKET_ERROR \<and> \<not> k_would_block K ?st)" by linarith
  then show ?case
  proof cases
    case data
    from call_data_ok [OF I1 s e1 f(1), of data] obtain t A1 st1 where
      1: "call_data H (c_on_data ?c) s data ?st = Some (t, st1)" "steps q A ?st A1 st1"
      "t \<noteq> NULL \<longrightarrow> returns_ok A s A1 st1 t" by blast
    have s01: "steps q A st A1 st1" using steps_trans [OF s1 1(2)] .
    show ?thesis
    proof (cases "len = LIBUS_RECV_BUFFER_LENGTH \<and> t \<noteq> NULL")
      case False
      then show ?thesis using data 1(1) s01 by (auto simp: unf)
    next
      case True
      then have t: "alive A1 t" "live_sock A1 t \<longrightarrow> established st1 t" "t \<notin> set (al_low A1)"
        using 1(3) low by (simp_all add: returns_ok_def)
      note I2 = stepsD(1) [OF 1(2)]
      show ?thesis
      proof (cases "t \<in> set (al_closed A1)")
        case c: True
        then show ?thesis using data True 1(1) s01 alive_is_closed(1) [OF I2 t(1)] by (auto simp: unf)
      next
        case o: False
        then have t2: "open_sock A1 t" "established st1 t"
          using t alive_open [OF t(1) o] by (auto simp: live_sock_def)
        have "recv_count ?st < n"
        proof (rule ccontr)
          assume "\<not> recv_count ?st < n"
          then have "fst (k_recv K ?st) \<noteq> LIBUS_RECV_BUFFER_LENGTH"
            using bound [of ?st] less.prems(4) by simp
          then show False using r True by simp
        qed
        moreover have "recv_count ?st \<le> recv_count st1" using prefix_count [OF steps_prefix [OF 1(2)]] .
        ultimately have m: "n - recv_count st1 < n - recv_count st" by simp
        have p: "prefix (trace st0) (trace st1)"
          using less.prems(4) steps_prefix [OF s01] prefix_order.trans by blast
        from less.hyps [OF m I2 t2 p] obtain A' st' where
          "recv_loop K H t st1 = Some st'" "steps q A1 st1 A' st'" by blast
        then show ?thesis using data True o 1(1) alive_is_closed(1) [OF I2 t(1)] steps_trans [OF s01]
          by (auto simp: unf)
      qed
    qed
  next
    case eof
    show ?thesis
    proof (cases "type3 st s = POLL_TYPE_SOCKET_SHUT_DOWN")
      case True
      then have "us_socket_is_shut_down s ?st = Some True" using g1(8) by (simp add: type3_def)
      moreover from socket_close_step [OF I1 lv, of 0 NULL] obtain t A' st' where
        "us_socket_close H s 0 NULL ?st = Some (t, st')" "steps q A ?st A' st'" by blast
      ultimately show ?thesis using eof steps_trans [OF s1] by (auto simp: unf)
    next
      case False
      then have sh: "us_socket_is_shut_down s ?st = Some False" using g1(8) by (simp add: type3_def)
      from sock_change_step [OF I1 lv e1 events_mask_and] low obtain st1 where
        1: "us_poll_change s (events3 ?st s AND LIBUS_SOCKET_WRITABLE) ?st = Some st1"
        "steps q A ?st A st1" by blast
      from call_sock_ok [OF stepsD(1) [OF 1(2)] lv f(2), of OnEnd] obtain t A' st' where
        "call_sock H OnEnd (c_on_end ?c) s st1 = Some (t, st')" "steps q A st1 A' st'" by blast
      then show ?thesis using eof sh 1 g1(7) steps_trans [OF s1 steps_trans [OF 1(2)]] by (auto simp: unf)
    qed
  next
    case err
    moreover from socket_close_step [OF I1 lv, of 0 NULL] obtain t A' st' where
      "us_socket_close H s 0 NULL ?st = Some (t, st')" "steps q A ?st A' st'" by blast
    ultimately show ?thesis using steps_trans [OF s1] by (auto simp: unf LIBUS_SOCKET_ERROR_def)
  next
    case none
    then show ?thesis using s1 by (auto simp: unf)
  qed
qed

lemma recv_loop_ok:
  assumes "loop_inv q A st" "open_sock A s" "established st s"
  shows "\<exists>A' st'. recv_loop K H s st = Some st' \<and> steps q A st A' st'"
proof -
  from kernel obtain n where "\<forall>st'. prefix (trace st) (trace st') \<and> n \<le> recv_count st' \<longrightarrow>
      fst (k_recv K st') \<noteq> LIBUS_RECV_BUFFER_LENGTH" unfolding kernel_ok_def recv_ends_def by blast
  then show ?thesis using recv_loop_bounded [of st n A st s] assms by blast
qed

text \<open>Before reading, the queue may get the socket instead.\<close>

lemma low_prio_call:
  assumes "ctx_good q C"
  shows "\<exists>b. call_low_prio H (c_is_low_prio C) s st = Some b \<and> (b \<longrightarrow> q)"
  using assms by (cases "c_is_low_prio C") (auto simp: ctx_good_def call_low_prio_def)

lemma dispatch_readable_ok:
  assumes I: "loop_inv q A st" and s: "open_sock A s" and e: "established st s"
  shows "\<exists>A' st'. dispatch_readable K H s st = Some st' \<and> steps q A st A' st'"
proof -
  note lv = open_live [OF s]
  note g = live_ctx [OF I lv] and od = open_sockD [OF loop_invD(2) [OF I] s]
  from low_prio_call [OF g(3), of s st] obtain b where
    b: "call_low_prio H (c_is_low_prio (ctxs st (s_context (socks st s)))) s st = Some b" "b \<Longrightarrow> q" by blast
  note unf = dispatch_readable_def g(1,2) b(1)
  show ?thesis
  proof (cases b)
    case False
    then show ?thesis using recv_loop_ok [OF I s e] by (simp add: unf)
  next
    case low: True
    show ?thesis
    proof (cases "s_low_prio_state (socks st s) = 2")
      case True
      let ?st = "st\<lparr>socks := (socks st)(s := (socks st s)\<lparr>s_low_prio_state := 0\<rparr>)\<rparr>"
      have 1: "steps q A st A ?st" by (rule sock_fields_step [OF I]) (use True in simp_all)
      have "established ?st s" using e by (simp add: established_def type3_def)
      from recv_loop_ok [OF stepsD(1) [OF 1] s this] obtain A' st' where
        "recv_loop K H s ?st = Some st'" "steps q A ?st A' st'" by blast
      then show ?thesis using low True g(5) steps_trans [OF 1] by (auto simp: unf)
    next
      case ns: False
      show ?thesis
      proof (cases "l_low_prio_budget st > 0")
        case True
        let ?st = "st\<lparr>l_low_prio_budget := l_low_prio_budget st - 1\<rparr>"
        have 1: "steps q A st A ?st" using I by (simp add: steps_def loop_inv_def)
        have "established ?st s" using e by (simp add: established_def type3_def)
        from recv_loop_ok [OF stepsD(1) [OF 1] s this] obtain A' st' where
          "recv_loop K H s ?st = Some st'" "steps q A ?st A' st'" by blast
        then show ?thesis using low ns True steps_trans [OF 1] by (auto simp: unf)
      next
        case False
        from low_prio_push_ok [OF loop_invD(1) [OF I] s e] obtain A' st' where
          1: "low_prio_push s st = Some st'" "evolves A st A' st'" "al_ctxs A' = al_ctxs A"
          "\<forall>d. c_handlers (ctxs st' d) = c_handlers (ctxs st d)" by auto
        have "ctx_good q (ctxs st' d)" if "d \<in> set (al_ctxs A')" for d
          using loop_invD(4) [OF I, of d] that 1(3,4) ctx_good_handlers [of "ctxs st' d" "ctxs st d"] by simp
        then have "steps q A st A' st'"
          using 1(2) b(2) low by (simp add: steps_def loop_inv_def evolves_def)
        then show ?thesis using low ns False 1(1) by (auto simp: unf)
      qed
    qed
  qed
qed

section \<open>An established socket\<close>

lemma dispatch_socket_ok:
  assumes I: "loop_inv q A st" and s: "live_sock A s" and e: "established st s"
    and low: "s \<in> set (al_low A) \<Longrightarrow> events AND LIBUS_SOCKET_READABLE = 0"
  shows "\<exists>A' st'. dispatch_socket K H s error events st = Some st' \<and> steps q A st A' st'"
proof (cases error)
  case True
  then show ?thesis using socket_close_step [OF I s, of 0 NULL] by (auto simp: dispatch_socket_def)
next
  case ne: False
  note g = live_ctx [OF I s]
  let ?c = "ctxs st (s_context (socks st s))" and ?w = "st\<lparr>l_last_write_failed := False\<rparr>"
  have f: "c_on_writable ?c \<noteq> FnNull" using g(3) by (simp add: ctx_good_def)
  let ?W = "\<lambda>st. do {
            k \<leftarrow> rd_sock s st;
            c \<leftarrow> rd_ctx (s_context k) st;
            (s, st) \<leftarrow> call_sock H OnWritable (c_on_writable c) s (st\<lparr>l_last_write_failed := False\<rparr>);
            closed \<leftarrow> us_socket_is_closed s st;
            if closed then Some (False, s, st) else do {
              _ \<leftarrow> socket_loop s st;
              shut \<leftarrow> us_socket_is_shut_down s st;
              st \<leftarrow> (if \<not> l_last_write_failed st \<or> shut then do {
                    ev \<leftarrow> us_poll_events s st;
                    us_poll_change s (ev AND LIBUS_SOCKET_READABLE) st }
                  else Some st);
              Some (True, s, st)
            } }"
  have writable: "\<exists>open t A1 st1. ?W st = Some (open, t, st1) \<and> steps q A st A1 st1 \<and>
      (open \<longrightarrow> live_sock A1 t \<and> established st1 t \<and> (t \<in> set (al_low A1) \<longrightarrow> s \<in> set (al_low A)))"
  proof -
    have w: "steps q A st A ?w" using I by (simp add: steps_def loop_inv_def)
    have ew: "established ?w s" using e by (simp add: established_def type3_def)
    from call_sock_ok [OF stepsD(1) [OF w] s f, of OnWritable] ew obtain t A1 st1 where
      1: "call_sock H OnWritable (c_on_writable ?c) s ?w = Some (t, st1)" "steps q A ?w A1 st1"
      "returns_ok A s A1 st1 t" by blast
    note I1 = stepsD(1) [OF 1(2)] and s01 = steps_trans [OF w 1(2)]
    have t: "alive A1 t" "live_sock A1 t \<longrightarrow> established st1 t" "t \<in> set (al_low A1) \<longrightarrow> s \<in> set (al_low A)"
      using 1(3) by (simp_all add: returns_ok_def)
    note cl = alive_is_closed(1) [OF I1 t(1)]
    show ?thesis
    proof (cases "t \<in> set (al_closed A1)")
      case True
      then have "?W st = Some (False, t, st1)" using g(1,2) 1(1) cl by simp
      then show ?thesis using s01 by blast
    next
      case False
      then have lt: "live_sock A1 t" using alive_open [OF t(1)] by blast
      then have et: "established st1 t" using t(2) by blast
      note g1 = live_ctx [OF I1 lt]
      show ?thesis
      proof (cases "\<not> l_last_write_failed st1 \<or> type3 st1 t = POLL_TYPE_SOCKET_SHUT_DOWN")
        case True
        have "(events3 st1 t AND LIBUS_SOCKET_READABLE) AND LIBUS_SOCKET_READABLE =
            events3 st1 t AND LIBUS_SOCKET_READABLE" by (simp add: and.assoc)
        then have "t \<in> set (al_low A1) \<Longrightarrow> (events3 st1 t AND LIBUS_SOCKET_READABLE) AND LIBUS_SOCKET_READABLE = 0"
          using polls_invD(3) [OF loop_invD(3) [OF I1], of t] low_typedD by metis
        from sock_change_step [OF I1 lt et events_mask_and this] obtain st2 where
          2: "us_poll_change t (events3 st1 t AND LIBUS_SOCKET_READABLE) st1 = Some st2"
          "steps q A1 st1 A1 st2" "type3 st2 t = type3 st1 t" by blast
        have "?W st = Some (True, t, st2)"
          using g(1,2) 1(1) cl False g1(4,7,8) True 2(1) by simp
        moreover have "established st2 t" using et 2(3) by (simp add: established_def)
        ultimately show ?thesis using steps_trans [OF s01 2(2)] lt t(3) by blast
      next
        case nw: False
        then have "?W st = Some (True, t, st1)" using g(1,2) 1(1) cl False g1(4,8) by simp
        then show ?thesis using s01 lt et t(3) by blast
      qed
    qed
  qed
  have first: "\<exists>open t A1 st1. (if events AND LIBUS_SOCKET_WRITABLE \<noteq> 0 then ?W st else Some (True, s, st)) =
      Some (open, t, st1) \<and> steps q A st A1 st1 \<and>
      (open \<longrightarrow> live_sock A1 t \<and> established st1 t \<and> (t \<in> set (al_low A1) \<longrightarrow> s \<in> set (al_low A)))"
    using writable s e steps_refl [OF I] by (cases "events AND LIBUS_SOCKET_WRITABLE \<noteq> 0") auto
  then obtain opn t A1 st1 where
    1: "(if events AND LIBUS_SOCKET_WRITABLE \<noteq> 0 then ?W st else Some (True, s, st)) = Some (opn, t, st1)"
    "steps q A st A1 st1" "opn \<Longrightarrow> live_sock A1 t \<and> established st1 t \<and>
       (t \<in> set (al_low A1) \<longrightarrow> s \<in> set (al_low A))" by blast
  have unf: "dispatch_socket K H s error events st =
      (if opn \<and> events AND LIBUS_SOCKET_READABLE \<noteq> 0 then dispatch_readable K H t st1 else Some st1)"
    using ne 1(1) by (simp add: dispatch_socket_def)
  show ?thesis
  proof (cases "opn \<and> events AND LIBUS_SOCKET_READABLE \<noteq> 0")
    case True
    then have "open_sock A1 t" "established st1 t" using 1(3) low by (auto simp: live_sock_def)
    from dispatch_readable_ok [OF stepsD(1) [OF 1(2)] this] show ?thesis
      using unf True steps_trans [OF 1(2)] by auto
  qed (use unf 1(2) in auto)
qed

section \<open>A connecting socket\<close>

lemma dispatch_connect_ok:
  assumes I: "loop_inv q A st" and s: "open_sock A s"
  shows "\<exists>A' st'. dispatch_connect H s error st = Some st' \<and> steps q A st A' st'"
proof -
  note lv = open_live [OF s]
  note g = live_ctx [OF I lv]
  let ?C = "ctxs st (s_context (socks st s))"
  have f: "c_on_connect_error ?C \<noteq> FnNull" using g(3) by (simp add: ctx_good_def)
  show ?thesis
  proof (cases error)
    case True
    from call_connect_error_ok [OF I s f, of 0] obtain r A1 st1 where
      1: "call_connect_error H (c_on_connect_error ?C) s 0 st = Some (r, st1)" "steps q A st A1 st1"
      "open_sock A1 s \<or> s \<in> set (al_closed A1)" by blast
    from close_connecting_step [OF stepsD(1) [OF 1(2)] 1(3)] obtain A' st' where
      "us_socket_close_connecting s st1 = Some (s, st')" "steps q A1 st1 A' st'" by blast
    then show ?thesis using True g(1,2) 1(1) steps_trans [OF 1(2)] by (auto simp: dispatch_connect_def)
  next
    case False
    have p: "is_poll st s" using g(5) by simp
    have m: "LIBUS_SOCKET_READABLE AND poll_mask = LIBUS_SOCKET_READABLE"
      by (simp add: poll_mask_def event_defs)
    from epoll.change_ok [OF p m] obtain st1 where
      1: "us_poll_change s LIBUS_SOCKET_READABLE st = Some st1" "poll_local s st st1" by blast
    have k1: "is_sock st1 s" using poll_local_access(2) [OF 1(2)] g(5) by simp
    then have fd: "us_poll_fd s st1 = Some (fd_of st1 s)" by (simp add: us_poll_fd_def fd_of_def)
    let ?s1 = "emit (Nodelay (fd_of st1 s)) st1"
    have p1: "is_poll ?s1 s" using k1 by simp
    from epoll.set_type_ok [OF p1 poll_types_and3(1)] obtain st2 where
      2: "us_internal_poll_set_type s POLL_TYPE_SOCKET ?s1 = Some st2" "poll_local s ?s1 st2"
      "us_internal_poll_type s st2 = Some POLL_TYPE_SOCKET" by blast
    have loc: "poll_local s st st2"
      using poll_local_trans [OF poll_local_trans [OF 1(2) poll_local_emit] 2(2)] .
    have k2: "is_sock st2 s" using poll_local_access(2) [OF loc] g(5) by simp
    then have e2: "established st2 s" using 2(3) by (simp add: established_def)
    have "s \<notin> set (al_low A)" using open_sockD(7) [OF loop_invD(2) [OF I] s] .
    then have ev: "evolves A st A st2" using local_change_ok [OF loop_invD(1) [OF I] lv loc e2] by blast
    have s2: "steps q A st A st2" using poll_step [OF I ev poll_localD(1) [OF loc]] .
    from us_socket_timeout_ok(1) [OF stepsD(2) [OF s2] lv, of 0] obtain t where
      3: "us_socket_timeout s 0 st2 = Some (st2\<lparr>socks := (socks st2)(s := (socks st2 s)\<lparr>s_timeout := t\<rparr>)\<rparr>)" by blast
    let ?st3 = "st2\<lparr>socks := (socks st2)(s := (socks st2 s)\<lparr>s_timeout := t\<rparr>)\<rparr>"
    have s3: "steps q A st2 A ?st3" by (rule sock_fields_step [OF stepsD(1) [OF s2]]) simp_all
    note s03 = steps_trans [OF s2 s3] and I3 = stepsD(1) [OF s3]
    note g3 = live_ctx [OF I3 lv]
    have e3: "established ?st3 s" using e2 by (simp add: established_def type3_def)
    have f3: "c_on_open (ctxs ?st3 (s_context (socks ?st3 s))) \<noteq> FnNull" using g3(3) by (simp add: ctx_good_def)
    from call_open_ok [OF I3 s e3 f3, of True "[]"] obtain r A' st' where
      4: "call_open H (c_on_open (ctxs ?st3 (s_context (socks ?st3 s)))) s True [] ?st3 = Some (r, st')"
      "steps q A ?st3 A' st'" by blast
    have cx: "s_context (socks ?st3 s) = s_context (socks st s)"
      using poll_frameD(2) [OF poll_localD(1) [OF loc]] by simp
    have "dispatch_connect H s error st = Some st'"
      using False g(1,2) 1(1) fd 2(1) 3 g3(2) 4(1) cx by (simp add: dispatch_connect_def)
    then show ?thesis using steps_trans [OF s03 4(2)] by blast
  qed
qed

section \<open>Accepting\<close>

lemma us_adopt_accepted_socket_ok:
  assumes I: "loop_inv q A st" and c: "c \<in> set (al_ctxs A)"
  shows "\<exists>b A' st'. us_adopt_accepted_socket K H c fd ip st = Some (b, st') \<and> steps q A st A' st'"
proof -
  note I0 = loop_invD(1) [OF I]
  from new_poll_ok [OF alloc_ok lists_inv_finite [OF us_invD(1) [OF I0]] disjI1 [OF refl]
      poll_types_and3(1), of fd LIBUS_SOCKET_READABLE]
  obtain b sa sb sc where 1: "us_create_poll K KSocket False st = (b, sa)"
    "us_poll_init b fd POLL_TYPE_SOCKET sa = Some sb"
    "us_poll_start b LIBUS_SOCKET_READABLE sb = Some sc" "b \<noteq> NULL" "objs st b = None" "new_block b st sc"
    "objs sc b = Some KSocket" "is_sock sc b" "type3 sc b = POLL_TYPE_SOCKET"
    "socks sc = socks st" "ctxs sc = ctxs st" .
  let ?k = "(socks sc b)\<lparr>s_context := c, s_timeout := 255, s_long_timeout := 255, s_low_prio_state := 0\<rparr>"
  let ?sd = "emit (Nodelay fd) (sc\<lparr>socks := (socks sc)(b := ?k)\<rparr>)"
  have n: "new_block b st ?sd" using 1(6) by (simp add: new_block_def)
  note f = fresh_inv [OF I0 1(5) n] and fb = fresh_block_ok(2,3) [OF I0 1(5) n]
  have est: "established ?sd b" using 1(9) by (simp add: established_def type3_def)
  then have typed: "sock_typed ?sd b" by (simp add: sock_typed_def)
  have o: "objs ?sd b = Some KSocket" "s_low_prio_state (socks ?sd b) \<noteq> 1" using 1(7) by simp_all
  let ?A = "add_sock c b A"
  from link_new_ok [OF f(1) c fb(1) o(1) 1(4) o(2) typed] obtain st1 S where
    2: "us_internal_socket_context_link_socket c b ?sd = Some st1" "evolves A ?sd ?A st1"
    "st1 = ?sd\<lparr>socks := S, ctxs := (ctxs ?sd)(c := (ctxs ?sd c)\<lparr>c_head_sockets := b\<rparr>)\<rparr>" by blast
  have ev: "evolves A st ?A st1" using grows_trans [OF f(2)] 2(2) unfolding evolves_def by blast
  have s1: "steps q A st ?A st1"
    by (rule lib_step [OF I ev]) (use 2(3) 1(11) in \<open>simp_all add: c_handlers_def\<close>)
  have cx: "is_ctx st c" "is_ctx st1 c" using lists_inv_ctx [OF us_invD(1) [OF I0] c] stepsD(6) [OF s1 c] .
  have e1: "established st1 b" using est 2(3) by (simp add: established_def type3_def)
  have ob: "open_sock ?A b" using c by (auto simp: open_sock_def)
  have fo: "c_on_open (ctxs st1 c) \<noteq> FnNull"
    using loop_invD(4) [OF stepsD(1) [OF s1] stepsD(5) [OF s1 c]] by (simp add: ctx_good_def)
  from call_open_ok [OF stepsD(1) [OF s1] ob e1 fo, of False ip] obtain r A' st' where
    3: "call_open H (c_on_open (ctxs st1 c)) b False ip st1 = Some (r, st')" "steps q ?A st1 A' st'" by blast
  have "us_adopt_accepted_socket K H c fd ip st = Some (b, st')"
    using cx 1(1-3,8) 2(1) 3(1) by (simp add: us_adopt_accepted_socket_def)
  then show ?thesis using steps_trans [OF s1 3(2)] by blast
qed

lemma accept_loop_bounded:
  assumes bound: "\<And>st'. prefix (trace st0) (trace st') \<Longrightarrow> n \<le> accept_count st' \<Longrightarrow>
      is_accept (last (trace st')) \<Longrightarrow> k_fd K st' = LIBUS_SOCKET_ERROR"
    and c: "c \<in> set (al_ctxs A)"
  shows "loop_inv q A st \<Longrightarrow> c \<in> set (al_ctxs A) \<Longrightarrow> p \<in> set (al_listen A c) \<Longrightarrow>
    prefix (trace st0) (trace st) \<Longrightarrow>
    \<exists>A' st'. accept_loop K H p fd ip st = Some st' \<and> steps q A st A' st'"
proof (induction "n - accept_count st" arbitrary: A st fd ip rule: less_induct)
  case less
  note I = less.prems(1) and c = less.prems(2) and p = less.prems(3)
  note k = listen_is_closed [OF I c p]
  from call_pre_open_ok [OF I c, of fd ip] obtain keep A1 st1 where
    1: "call_pre_open H c fd ip st = Some (keep, st1)" "steps q A st A1 st1"
    "set (al_listen A c) \<subseteq> set (al_listen A1 c)" by blast
  note I1 = stepsD(1) [OF 1(2)] and c1 = stepsD(5) [OF 1(2) c]
  have p1: "p \<in> set (al_listen A1 c)" using 1(3) p by blast
  have body: "\<exists>stop A2 st2. (if keep then do {
           (_, st) \<leftarrow> us_adopt_accepted_socket K H c fd ip st1;
           closed \<leftarrow> us_socket_is_closed p st;
           Some (closed, st) }
         else Some (False, st1)) = Some (stop, st2) \<and> steps q A1 st1 A2 st2 \<and>
      (\<not> stop \<longrightarrow> p \<in> set (al_listen A2 c))"
  proof (cases keep)
    case True
    from us_adopt_accepted_socket_ok [OF I1 c1, of fd ip] obtain b A2 st2 where
      2: "us_adopt_accepted_socket K H c fd ip st1 = Some (b, st2)" "steps q A1 st1 A2 st2" by blast
    note I2 = stepsD(1) [OF 2(2)] and c2 = stepsD(5) [OF 2(2) c1]
    consider (l) "p \<in> set (al_listen A2 c)" | (cl) "p \<in> set (al_closed A2)"
      using growsD(3) [OF stepsD(4) [OF 2(2)] c1 p1] by blast
    then show ?thesis
    proof cases
      case l
      then show ?thesis using True 2 listen_is_closed(1) [OF I2 c2] by auto
    next
      case cl
      then have "us_socket_is_closed p st2 = Some True"
        using lists_inv_closed [OF stepsD(3) [OF 2(2)]] by simp
      then show ?thesis using True 2 by auto
    qed
  qed (use steps_refl [OF I1] p1 in auto)
  then obtain stop A2 st2 where 2: "(if keep then do {
           (_, st) \<leftarrow> us_adopt_accepted_socket K H c fd ip st1;
           closed \<leftarrow> us_socket_is_closed p st;
           Some (closed, st) }
         else Some (False, st1)) = Some (stop, st2)" "steps q A1 st1 A2 st2"
    "\<not> stop \<Longrightarrow> p \<in> set (al_listen A2 c)" by blast
  note s02 = steps_trans [OF 1(2) 2(2)] and I2 = stepsD(1) [OF 2(2)] and c2 = stepsD(5) [OF 2(2) c1]
  have unf: "accept_loop K H p fd ip st = (if stop then Some st2 else do {
       (client_fd, ip, st) \<leftarrow> bsd_accept K p st2;
       if client_fd \<noteq> LIBUS_SOCKET_ERROR then accept_loop K H p client_fd ip st else Some st
     })"
    by (subst accept_loop.simps) (simp only: rd_sock_eq [OF k(2)] bind.simps k(3) 1(1) 2(1) prod.case)
  show ?case
  proof (cases stop)
    case True
    then show ?thesis using unf s02 by auto
  next
    case False
    note p2 = 2(3) [OF False]
    let ?st = "emit (Accept (fd_of st2 p)) st2"
    have acc: "bsd_accept K p st2 = Some (k_fd K ?st, k_accept_ip K ?st, ?st)"
      using listen_is_closed(4) [OF I2 c2 p2] by (simp add: bsd_accept_def Let_def)
    have s3: "steps q A2 st2 A2 ?st" using steps_emit [OF I2] .
    note s03 = steps_trans [OF s02 s3]
    show ?thesis
    proof (cases "k_fd K ?st = LIBUS_SOCKET_ERROR")
      case True
      then show ?thesis using unf False acc s03 by auto
    next
      case go: False
      have pr: "prefix (trace st0) (trace ?st)"
        using less.prems(4) steps_prefix [OF s03] prefix_order.trans by blast
      then have "accept_count ?st < n" using bound [of ?st] go by force
      moreover have "accept_count st < accept_count ?st"
        using prefix_count [OF steps_prefix [OF s02], of is_accept] by simp
      ultimately have "n - accept_count ?st < n - accept_count st" by linarith
      from less.hyps [OF this stepsD(1) [OF s3] c2 p2 pr] obtain A' st' where
        "accept_loop K H p (k_fd K ?st) (k_accept_ip K ?st) ?st = Some st'" "steps q A2 ?st A' st'" by blast
      then show ?thesis using unf False acc go steps_trans [OF s03] by auto
    qed
  qed
qed

lemma dispatch_listen_ok:
  assumes I: "loop_inv q A st" and c: "c \<in> set (al_ctxs A)" and p: "p \<in> set (al_listen A c)"
  shows "\<exists>A' st'. dispatch_listen K H p st = Some st' \<and> steps q A st A' st'"
proof -
  from kernel obtain n where n: "\<forall>st'. prefix (trace st) (trace st') \<and> n \<le> accept_count st' \<and>
      is_accept (last (trace st')) \<longrightarrow> k_fd K st' = LIBUS_SOCKET_ERROR"
    unfolding kernel_ok_def accept_ends_def by blast
  let ?st = "emit (Accept (fd_of st p)) st"
  have acc: "bsd_accept K p st = Some (k_fd K ?st, k_accept_ip K ?st, ?st)"
    using listen_is_closed(4) [OF I c p] by (simp add: bsd_accept_def Let_def)
  have s1: "steps q A st A ?st" using steps_emit [OF I] .
  show ?thesis
  proof (cases "k_fd K ?st = LIBUS_SOCKET_ERROR")
    case True
    then show ?thesis using acc s1 by (auto simp: dispatch_listen_def)
  next
    case False
    from accept_loop_bounded [of st n c A ?st p "k_fd K ?st" "k_accept_ip K ?st"] n
      stepsD(1) [OF s1] c p steps_prefix [OF s1] obtain A' st' where
      "accept_loop K H p (k_fd K ?st) (k_accept_ip K ?st) ?st = Some st'" "steps q A ?st A' st'" by blast
    then show ?thesis using acc False steps_trans [OF s1] by (auto simp: dispatch_listen_def)
  qed
qed

section \<open>Any ready poll\<close>

lemma dispatch_callback_ok:
  assumes I: "loop_inv q A st" and p: "cb_typed st p"
  shows "\<exists>A' st'. dispatch_callback H p st = Some st' \<and> steps0 q A st A' st'"
proof -
  let ?cb = "cbs st p"
  have k: "is_cb st p" "cb_cb ?cb \<noteq> FnNull" using p by (simp_all add: cb_typed_def)
  define st1 where "st1 = (if cb_leave_poll_ready ?cb then st else emit (ReadEvent (fd_of st p)) st)"
  have 1: "(if \<not> cb_leave_poll_ready ?cb then us_internal_accept_poll_event p st else Some st) = Some st1"
    using k(1) by (simp add: st1_def us_internal_accept_poll_event_def us_poll_fd_def fd_of_def)
  have s1: "steps q A st A st1" using steps_emit [OF I] steps_refl [OF I] by (simp add: st1_def)
  note I1 = stepsD(1) [OF s1]
  have k1: "rd_cb p st = Some ?cb" "rd_cb p st1 = Some ?cb" using k(1) by (simp_all add: st1_def)
  let ?e = "CallbackCb p (cb_cb ?cb)"
  have unf: "dispatch_callback H p st =
      (if cb_expects_the_loop ?cb then call_loop H (WakeupCb (cb_cb ?cb)) (cb_cb ?cb) st1
       else (case cb_cb ?cb of FnNull \<Rightarrow> None
         | FnSweepTimer \<Rightarrow> us_internal_timer_sweep H (emit (CallbackCb p FnSweepTimer) st1)
         | f \<Rightarrow> h_callback H f p (emit (CallbackCb p f) st1)))"
    using k1 1 by (simp add: dispatch_callback_def)
  show ?thesis
  proof (cases "cb_expects_the_loop ?cb")
    case True
    from call_loop_ok [OF I1 k(2), of "WakeupCb (cb_cb ?cb)"] obtain A' st' where
      "call_loop H (WakeupCb (cb_cb ?cb)) (cb_cb ?cb) st1 = Some st'" "steps q A st1 A' st'" by blast
    then show ?thesis using unf True steps_steps0 [OF steps_trans [OF s1]] by auto
  next
    case ne: False
    have s2: "steps q A st A (emit ?e st1)" using steps_trans [OF s1 steps_emit [OF I1]] .
    note I2 = stepsD(1) [OF s2]
    show ?thesis
    proof (cases "cb_cb ?cb = FnSweepTimer")
      case True
      from us_internal_timer_sweep_ok [OF I2] show ?thesis
        using unf ne True steps0_trans [OF steps_steps0 [OF s2]] by auto
    next
      case False
      from callback_ok [OF I2 k(2), of p] obtain A' st' where
        "h_callback H (cb_cb ?cb) p (emit ?e st1) = Some st'" "steps q A (emit ?e st1) A' st'" by blast
      then show ?thesis using unf ne False k(2) steps_steps0 [OF steps_trans [OF s2]]
        by (cases "cb_cb ?cb") auto
    qed
  qed
qed

lemma open_poll_is_poll:
  assumes "loop_inv q A st" and "open_poll A st p"
  shows "is_poll st p" "p \<noteq> NULL"
proof -
  note L = loop_invD(2) [OF assms(1)]
  show "is_poll st p"
    using assms(2) lists_inv_socks(1) [OF L] lists_inv_listen(1) [OF L] lists_inv_low(1) [OF L]
    unfolding open_poll_def by (auto simp: cb_typed_def)
  then show "p \<noteq> NULL" by (auto simp: is_poll_def)
qed

lemma us_internal_dispatch_ready_poll_ok:
  assumes I: "loop_inv q A st" and p: "open_poll A st p"
  shows "\<exists>A' st'. us_internal_dispatch_ready_poll K H p error (flags AND events3 st p) st = Some st' \<and>
    steps0 q A st A' st'"
proof -
  note L = loop_invD(2) [OF I] and P = loop_invD(3) [OF I]
  note pk = open_poll_is_poll [OF I p]
  have ty: "POLL_TYPE_SOCKET \<noteq> POLL_TYPE_CALLBACK" "POLL_TYPE_SOCKET_SHUT_DOWN \<noteq> POLL_TYPE_CALLBACK"
    "POLL_TYPE_SEMI_SOCKET \<noteq> POLL_TYPE_CALLBACK" "POLL_TYPE_SOCKET \<noteq> POLL_TYPE_SEMI_SOCKET"
    "POLL_TYPE_SOCKET_SHUT_DOWN \<noteq> POLL_TYPE_SEMI_SOCKET" by (simp_all add: poll_type_defs)
  note unf = us_internal_dispatch_ready_poll_def poll_events_eq [OF pk(1)]
  have sock: "\<exists>A' st'. us_internal_dispatch_ready_poll K H p error (flags AND events3 st p) st = Some st' \<and>
      steps0 q A st A' st'" if e: "established st p" and lv: "live_sock A p"
  proof -
    have "(flags AND events3 st p) AND LIBUS_SOCKET_READABLE = 0" if "p \<in> set (al_low A)"
      using low_typedD [OF polls_invD(3) [OF P that]] by (simp add: and.assoc)
    from dispatch_socket_ok [OF I lv e this] obtain A' st' where
      "dispatch_socket K H p error (flags AND events3 st p) st = Some st'" "steps q A st A' st'" by blast
    moreover have "us_internal_dispatch_ready_poll K H p error (flags AND events3 st p) st =
        dispatch_socket K H p error (flags AND events3 st p) st"
      using e ty by (auto simp: unf established_def)
    ultimately show ?thesis using steps_steps0 [of q A st A' st'] by auto
  qed
  from p consider (cb) "cb_typed st p" | (low) "p \<in> set (al_low A)"
    | (sk) c where "c \<in> set (al_ctxs A)" "p \<in> set (al_socks A c)"
    | (ls) c where "c \<in> set (al_ctxs A)" "p \<in> set (al_listen A c)" unfolding open_poll_def by blast
  then show ?thesis
  proof cases
    case cb
    then have "type3 st p = POLL_TYPE_CALLBACK" by (simp add: cb_typed_def)
    then show ?thesis using dispatch_callback_ok [OF I cb] by (simp add: unf)
  next
    case low
    then show ?thesis using sock low_typedD [OF polls_invD(3) [OF P low]] by (simp add: live_sock_def)
  next
    case sk
    then have o: "open_sock A p" by (auto simp: open_sock_def)
    show ?thesis
    proof (cases "established st p")
      case True
      then show ?thesis using sock open_live [OF o] by blast
    next
      case False
      then have "type3 st p = POLL_TYPE_SEMI_SOCKET" "events3 st p = LIBUS_SOCKET_WRITABLE"
        using polls_invD(1) [OF P sk] by (simp_all add: sock_typed_def)
      moreover from dispatch_connect_ok [OF I o, of error] obtain A' st' where
        "dispatch_connect H p error st = Some st'" "steps q A st A' st'" by blast
      ultimately show ?thesis using ty steps_steps0 [of q A st A' st'] by (auto simp: unf)
    qed
  next
    case ls
    then have "type3 st p = POLL_TYPE_SEMI_SOCKET" "events3 st p = LIBUS_SOCKET_READABLE"
      using polls_invD(2) [OF P ls] by (simp_all add: listen_typed_def)
    moreover have "LIBUS_SOCKET_READABLE \<noteq> LIBUS_SOCKET_WRITABLE" by (simp add: event_defs)
    moreover from dispatch_listen_ok [OF I ls] obtain A' st' where
      "dispatch_listen K H p st = Some st'" "steps q A st A' st'" by blast
    ultimately show ?thesis using ty steps_steps0 [of q A st A' st'] by (auto simp: unf)
  qed
qed

section \<open>The ready polls of one iteration\<close>

end

text \<open>One entry further; growth does not look at the position.\<close>

definition at_poll :: "nat \<Rightarrow> us \<Rightarrow> us" where
  "at_poll i st = st\<lparr>current_ready_poll := i\<rparr>"

lemma grows0_at_poll: "grows0 A st A' st' \<Longrightarrow> grows0 A (at_poll i st) A' (at_poll i st')"
  by (simp add: grows0_def at_poll_def)

lemma next_poll_inv:
  assumes I: "loop_inv q A st" and n: "current_ready_poll st < num_ready_polls st"
  shows "loop_inv q A (at_poll (Suc (current_ready_poll st)) st)" (is "loop_inv q A ?st")
    and "ready_polls st ! current_ready_poll st \<in> set (pending st)"
proof -
  let ?i = "current_ready_poll st"
  have r: "ready_ok st" using us_invD(3) [OF loop_invD(1) [OF I]] .
  then have pe: "pending st = ready_polls st ! ?i # pending ?st"
    using n by (simp add: pending_def ready_ok_def at_poll_def Cons_nth_drop_Suc)
  then show "ready_polls st ! ?i \<in> set (pending st)" by simp
  have "ready_ok ?st" using r n pe by (auto simp: ready_ok_def at_poll_def split: if_splits)
  moreover have "set (pending ?st) \<subseteq> set (pending st)" using pe by auto
  ultimately have "polls_inv A ?st"
    using loop_invD(3) [OF I]
    by (auto simp: polls_inv_def sock_typed_def listen_typed_def low_typed_def established_def
        type3_def events3_def open_poll_def cb_typed_def at_poll_def)
  moreover have "lists_inv A ?st"
    using loop_invD(2) [OF I]
    by (simp add: at_poll_def lists_inv_def ctx_inv_def low_inv_def closed_inv_def)
  ultimately show "loop_inv q A ?st"
    using I by (simp add: loop_inv_def us_inv_def at_poll_def)
qed

lemma loop_inv_loop_fields [simp]:
  "loop_inv q A (st\<lparr>l_iteration_nr := n\<rparr>) = loop_inv q A st"
  "loop_inv q A (st\<lparr>l_low_prio_budget := b\<rparr>) = loop_inv q A st"
  "loop_inv q A (st\<lparr>l_last_write_failed := f\<rparr>) = loop_inv q A st"
  by (simp_all add: loop_inv_def)

text \<open>What an iteration keeps for the next: growth, but the closed sockets are gone.\<close>

definition iterates :: "alists \<Rightarrow> us \<Rightarrow> alists \<Rightarrow> us \<Rightarrow> bool" where
  "iterates A st A' st' \<longleftrightarrow> (\<exists>new. al_ctxs A' = new @ al_ctxs A) \<and>
     l_pre_cb st' = l_pre_cb st \<and> l_post_cb st' = l_post_cb st \<and> prefix (trace st) (trace st')"

lemma grows0_iterates: "grows0 A st A' st' \<Longrightarrow> iterates A st A' st'"
  by (simp add: grows0_def iterates_def)

lemma iterates_trans: "iterates A st A1 st1 \<Longrightarrow> iterates A1 st1 A2 st2 \<Longrightarrow> iterates A st A2 st2"
  unfolding iterates_def by (elim conjE exE) (auto intro: prefix_order.trans)

context event_loop
begin

lemma ready_loop_ok:
  "loop_inv q A st \<Longrightarrow>
   \<exists>A' st'. ready_loop K H st = Some st' \<and> loop_inv q A' st' \<and> grows0 A (at_poll 0 st) A' (at_poll 0 st')"
proof (induction "num_ready_polls st - current_ready_poll st" arbitrary: A st rule: less_induct)
  case less
  note I = less.prems
  show ?case
  proof (cases "current_ready_poll st < num_ready_polls st")
    case False
    then show ?thesis using I grows0_refl by (subst ready_loop.simps) auto
  next
    case True
    note nx = next_poll_inv [OF I True]
    obtain p flags where pf: "ready_polls st ! current_ready_poll st = (p, flags)" by fastforce
    let ?events = "flags AND events3 st p" and ?error = "flags AND (EPOLLERR OR EPOLLHUP) \<noteq> 0"
    let ?body = "if p \<noteq> NULL then do {
           polled \<leftarrow> us_poll_events p st;
           let events = flags AND polled;
           let error = (flags AND (EPOLLERR OR EPOLLHUP) \<noteq> 0);
           if events \<noteq> 0 \<or> error then us_internal_dispatch_ready_poll K H p error events st
           else Some st }
         else Some st"
    have body: "\<exists>A1 st1. ?body = Some st1 \<and> steps0 q A st A1 st1"
    proof (cases "p = NULL")
      case p: False
      have "p \<in> fst ` set (pending st)" using nx(2) pf by force
      then have o: "open_poll A st p" using polls_invD(5) [OF loop_invD(3) [OF I]] p by blast
      have ev: "us_poll_events p st = Some (events3 st p)" using open_poll_is_poll(1) [OF I o] by simp
      show ?thesis
        using us_internal_dispatch_ready_poll_ok [OF I o, of ?error flags]
          steps_steps0 [OF steps_refl [OF I]] p by (cases "?events \<noteq> 0 \<or> ?error") (auto simp: ev)
    qed (use steps_steps0 [OF steps_refl [OF I]] in auto)
    then obtain A1 st1 where 1: "?body = Some st1" "steps0 q A st A1 st1" by blast
    let ?st = "at_poll (Suc (current_ready_poll st1)) st1"
    have g: "grows0 A st A1 st1" and I1: "loop_inv q A1 st1" using 1(2) by (simp_all add: steps0_def)
    note cur = grows0D(5,6) [OF g]
    have I2: "loop_inv q A1 ?st" using next_poll_inv(1) [OF I1] True cur by simp
    have "num_ready_polls ?st - current_ready_poll ?st < num_ready_polls st - current_ready_poll st"
      using True cur by (simp add: at_poll_def)
    from less.hyps [OF this I2] obtain A' st' where
      2: "ready_loop K H ?st = Some st'" "loop_inv q A' st'" "grows0 A1 (at_poll 0 ?st) A' (at_poll 0 st')" by blast
    have "ready_loop K H st = Some st'"
      using True 2(1) by (subst ready_loop.simps) (simp only: if_True pf Let_def prod.case 1(1) [unfolded Let_def] bind.simps at_poll_def Suc_eq_plus1)
    moreover have "grows0 A (at_poll 0 st) A1 (at_poll 0 ?st)"
      using grows0_at_poll [OF g, of 0] by (simp add: at_poll_def)
    ultimately show ?thesis using 2(2,3) grows0_trans by blast
  qed
qed

lemma epoll_fetch_ok:
  assumes I: "loop_inv q A st"
  shows "loop_inv q A (epoll_fetch K st)"
proof -
  let ?st = "epoll_fetch K st" and ?es = "k_epoll_wait K (emit EpollWait st)"
  have I1: "loop_inv q A (emit EpollWait st)" using I by simp
  have w: "distinct (map fst ?es)" "\<forall>p\<in>fst ` set ?es. open_poll A (emit EpollWait st) p"
    using kernel I1 unfolding kernel_ok_def epoll_wait_ok_def by blast+
  have pe: "pending ?st = ?es" by (simp add: pending_def epoll_fetch_def Let_def)
  have "ready_ok ?st" using w(1) by (simp add: ready_ok_def pe) (simp add: epoll_fetch_def Let_def)
  moreover have "open_poll A ?st p" if "p \<in> fst ` set ?es" for p
  proof -
    have "open_poll A (emit EpollWait st) p" using w(2) that by blast
    then show ?thesis by (simp add: open_poll_def cb_typed_def epoll_fetch_def Let_def type3_def is_cb_def)
  qed
  ultimately have "polls_inv A ?st"
    using loop_invD(3) [OF I] unfolding polls_inv_def pe
    by (simp add: sock_typed_def listen_typed_def low_typed_def established_def
        type3_def events3_def epoll_fetch_def Let_def)
  moreover have "lists_inv A ?st"
    using loop_invD(2) [OF I]
    by (simp add: epoll_fetch_def Let_def lists_inv_def ctx_inv_def low_inv_def closed_inv_def)
  ultimately show ?thesis
    using I by (simp add: loop_inv_def us_inv_def epoll_fetch_def Let_def)
qed

lemma us_internal_loop_pre_ok:
  assumes I: "loop_inv q A st" and f: "l_pre_cb st \<noteq> FnNull"
  shows "\<exists>A' st'. us_internal_loop_pre H st = Some st' \<and> loop_inv q A' st' \<and> iterates A st A' st'"
proof -
  let ?st = "st\<lparr>l_iteration_nr := l_iteration_nr st + 1\<rparr>"
  have I0: "loop_inv q A ?st" using I by simp
  from us_internal_handle_low_priority_sockets_ok [OF loop_invD(1) [OF I0]] obtain A1 st1 where
    1: "us_internal_handle_low_priority_sockets ?st = Some st1" "evolves A ?st A1 st1"
    "al_ctxs A1 = al_ctxs A" "al_low A1 = drop 5 (al_low A)"
    "\<forall>d. c_handlers (ctxs st1 d) = c_handlers (ctxs ?st d)" by blast
  have s1: "steps q A ?st A1 st1"
    by (rule lib_step [OF I0 1(2,3)]) (use 1(4,5) set_drop_subset [of 5 "al_low A"] in \<open>simp_all add: subset_iff\<close>)
  note I1 = stepsD(1) [OF s1]
  have it1: "iterates A st A1 st1"
    using grows0_iterates [OF grows_grows0 [OF stepsD(4) [OF s1]]] by (simp add: iterates_def)
  have f1: "l_pre_cb st1 \<noteq> FnNull" using it1 f by (simp add: iterates_def)
  from call_loop_ok [OF I1 f1, of PreCb] obtain A' st' where
    2: "call_loop H PreCb (l_pre_cb st1) st1 = Some st'" "steps q A1 st1 A' st'" by blast
  have "iterates A st A' st'"
    using iterates_trans [OF it1 grows0_iterates [OF grows_grows0 [OF stepsD(4) [OF 2(2)]]]] .
  then show ?thesis using 1(1) 2 stepsD(1) [OF 2(2)] by (auto simp: us_internal_loop_pre_def)
qed

lemma us_internal_loop_post_ok:
  assumes I: "loop_inv q A st" and f: "l_post_cb st \<noteq> FnNull"
  shows "\<exists>A' st'. us_internal_loop_post H st = Some st' \<and> loop_inv q A' st' \<and> iterates A st A' st'"
proof -
  from us_internal_free_closed_sockets_ok [OF loop_invD(1) [OF I]] obtain st1 where
    1: "us_internal_free_closed_sockets st = Some st1" "us_inv (A\<lparr>al_closed := []\<rparr>) st1"
    "st1 = (free_all (al_closed A) st)\<lparr>l_closed_head := NULL\<rparr>" by blast
  let ?A = "A\<lparr>al_closed := []\<rparr>"
  have I1: "loop_inv q ?A st1"
    using I 1(2,3) by (auto simp: loop_inv_def free_all_def)
  have it1: "iterates A st ?A st1" using 1(3) by (simp add: iterates_def free_all_def)
  have f1: "l_post_cb st1 \<noteq> FnNull" using it1 f by (simp add: iterates_def)
  from call_loop_ok [OF I1 f1, of PostCb] obtain A' st' where
    2: "call_loop H PostCb (l_post_cb st1) st1 = Some st'" "steps q ?A st1 A' st'" by blast
  have "iterates A st A' st'"
    using iterates_trans [OF it1 grows0_iterates [OF grows_grows0 [OF stepsD(4) [OF 2(2)]]]] .
  then show ?thesis using 1(1) 2 stepsD(1) [OF 2(2)] by (auto simp: us_internal_loop_post_def)
qed

lemma loop_iteration_ok:
  assumes I: "loop_inv q A st" and f: "l_pre_cb st \<noteq> FnNull" "l_post_cb st \<noteq> FnNull"
  shows "\<exists>A' st'. loop_iteration K H st = Some st' \<and> loop_inv q A' st' \<and> iterates A st A' st'"
proof -
  from us_internal_loop_pre_ok [OF I f(1)] obtain A1 st1 where
    1: "us_internal_loop_pre H st = Some st1" "loop_inv q A1 st1" "iterates A st A1 st1" by blast
  let ?st = "epoll_fetch K st1"
  from ready_loop_ok [OF epoll_fetch_ok [OF 1(2)]] obtain A2 st2 where
    2: "ready_loop K H ?st = Some st2" "loop_inv q A2 st2" "grows0 A1 (at_poll 0 ?st) A2 (at_poll 0 st2)" by blast
  have it2: "iterates A1 st1 A2 st2"
    using grows0_iterates [OF 2(3)]
    by (auto simp: iterates_def at_poll_def epoll_fetch_def Let_def dest: append_prefixD)
  have it: "iterates A st A2 st2" using iterates_trans [OF 1(3) it2] .
  then have "l_post_cb st2 \<noteq> FnNull" using f(2) by (simp add: iterates_def)
  from us_internal_loop_post_ok [OF 2(2) this] obtain A' st' where
    "us_internal_loop_post H st2 = Some st'" "loop_inv q A' st'" "iterates A2 st2 A' st'" by blast
  then show ?thesis using 1(1) 2(1) iterates_trans [OF it] by (auto simp: loop_iteration_def)
qed

end

section \<open>Running\<close>

text \<open>The loop with fuel: at most \<open>n\<close> iterations. \<open>run_loop\<close> returns exactly when some number
  of iterations brings the count of polls to zero.\<close>

primrec run_fuel :: "nat \<Rightarrow> kernel \<Rightarrow> handlers \<Rightarrow> us \<Rightarrow> us option" where
  "run_fuel 0 K H st = Some st"
| "run_fuel (Suc n) K H st = (if num_polls st \<noteq> 0 then do {
     st \<leftarrow> loop_iteration K H st;
     run_fuel n K H st
   } else Some st)"

lemma run_fuel_run_loop: "run_fuel n K H st = Some st' \<Longrightarrow> num_polls st' = 0 \<Longrightarrow> run_loop K H st = Some st'"
proof (induction n arbitrary: st)
  case 0
  then show ?case by (subst run_loop.simps) simp
next
  case (Suc n)
  then show ?case by (subst run_loop.simps) (auto split: if_splits elim!: bind_eq_SomeE)
qed

context event_loop
begin

text \<open>However long it runs, the loop never does anything undefined.\<close>

lemma run_fuel_ok:
  "loop_inv q A st \<Longrightarrow> l_pre_cb st \<noteq> FnNull \<Longrightarrow> l_post_cb st \<noteq> FnNull \<Longrightarrow>
   \<exists>A' st'. run_fuel n K H st = Some st' \<and> loop_inv q A' st' \<and> iterates A st A' st'"
proof (induction n arbitrary: A st)
  case 0
  then show ?case by (auto simp: iterates_def)
next
  case (Suc n)
  show ?case
  proof (cases "num_polls st = 0")
    case True
    then show ?thesis using Suc.prems by (auto simp: iterates_def)
  next
    case False
    from loop_iteration_ok [OF Suc.prems] obtain A1 st1 where
      1: "loop_iteration K H st = Some st1" "loop_inv q A1 st1" "iterates A st A1 st1" by blast
    then have "l_pre_cb st1 \<noteq> FnNull" "l_post_cb st1 \<noteq> FnNull" using Suc.prems by (simp_all add: iterates_def)
    from Suc.IH [OF 1(2) this] obtain A' st' where
      "run_fuel n K H st1 = Some st'" "loop_inv q A' st'" "iterates A1 st1 A' st'" by blast
    then show ?thesis using False 1(1) iterates_trans [OF 1(3)] by auto
  qed
qed

end

end
