(* ===== verification/Us_Tcp_Server.thy ===== *)
theory Us_Tcp_Server
  imports Us_Dispatch Us_Demo
begin

text \<open>
  The handlers of \<open>examples/tcp_server.c\<close>, a client of the library, keep the contract: the
  interpretations of the two locales on them, for every kernel and then for a concrete one.
\<close>

section \<open>The example\<close>

definition hello :: "byte list" where
  "hello = map of_char ''Hello short message!''"

text \<open>The functions of the example by number, in the order the source declares them.\<close>

definition on_wakeup :: "us \<Rightarrow> us option" where "on_wakeup st = Some st"
definition on_pre :: "us \<Rightarrow> us option" where "on_pre st = Some st"
definition on_post :: "us \<Rightarrow> us option" where "on_post st = Some st"

definition on_http_socket_writable :: "addr \<Rightarrow> us \<Rightarrow> (addr \<times> us) option" where
  "on_http_socket_writable s st = Some (s, st)"

definition on_http_socket_close :: "addr \<Rightarrow> int \<Rightarrow> addr \<Rightarrow> us \<Rightarrow> (addr \<times> us) option" where
  "on_http_socket_close s code reason st = Some (s, st)"

definition on_http_socket_end :: "handlers \<Rightarrow> addr \<Rightarrow> us \<Rightarrow> (addr \<times> us) option" where
  "on_http_socket_end H s st = do {
     st \<leftarrow> us_socket_shutdown s st;
     us_socket_close H s 0 NULL st
   }"

definition on_http_socket_data :: "kernel \<Rightarrow> addr \<Rightarrow> byte list \<Rightarrow> us \<Rightarrow> (addr \<times> us) option" where
  "on_http_socket_data K s data st = do {
     (_, st) \<leftarrow> us_socket_write K s hello False st;
     Some (s, st)
   }"

definition on_http_socket_open :: "addr \<Rightarrow> bool \<Rightarrow> byte list \<Rightarrow> us \<Rightarrow> (addr \<times> us) option" where
  "on_http_socket_open s is_client ip st = Some (s, st)"

definition on_http_socket_timeout :: "addr \<Rightarrow> us \<Rightarrow> (addr \<times> us) option" where
  "on_http_socket_timeout s st = Some (s, st)"

text \<open>
  The handlers as the dispatcher calls them. \<open>us_socket_close\<close> calls the close handler only, so
  the end handler gets a record with just that one.
\<close>

definition tcp_close_handlers :: handlers where
  "tcp_close_handlers = handlers0\<lparr>h_close := (\<lambda>f s code reason st. on_http_socket_close s code reason st)\<rparr>"

definition tcp_handlers :: "kernel \<Rightarrow> handlers" where
  "tcp_handlers K = tcp_close_handlers\<lparr>
     h_open := (\<lambda>f s cl ip st. on_http_socket_open s cl ip st),
     h_data := (\<lambda>f s d st. on_http_socket_data K s d st),
     h_sock := (\<lambda>f s st. if f = FnUser 7 then on_http_socket_end tcp_close_handlers s st
        else if f = FnUser 5 then on_http_socket_timeout s st else on_http_socket_writable s st),
     h_loop := (\<lambda>f st. if f = FnUser 9 then on_pre st else if f = FnUser 10 then on_post st else on_wakeup st)\<rparr>"

section \<open>The contract holds\<close>

lemma returns_same: "loop_inv q A st \<Longrightarrow> live_sock A s \<Longrightarrow> established st s \<Longrightarrow> returns_ok A s A st s"
  by (simp add: returns_ok_def alive_def)

lemma end_handler_ok:
  assumes I: "loop_inv q A st" and s: "live_sock A s"
  shows "\<exists>r A' st'. on_http_socket_end tcp_close_handlers s st = Some (r, st') \<and> steps q A st A' st' \<and>
    returns_ok A s A' st' r"
proof -
  from us_socket_shutdown_ok [OF loop_invD(1) [OF I] s] obtain st1 where
    1: "us_socket_shutdown s st = Some st1" "evolves A st A st1" "poll_frame st st1" by blast
  have s1: "steps q A st A st1" using poll_step [OF I 1(2,3)] .
  note I1 = stepsD(1) [OF s1]
  let ?c = "s_context (socks st1 s)"
  let ?A = "abs_close ?c s A"
  from close_steps [OF loop_invD(1) [OF I1] s, of tcp_close_handlers 0 NULL] obtain st2 where
    2: "us_socket_close tcp_close_handlers s 0 NULL st1 =
      call_close tcp_close_handlers (c_on_close (ctxs st1 ?c)) s 0 NULL st2"
    "evolves A st1 ?A st2" "close_effect s st1 st2" by blast
  have "c_on_close (ctxs st1 ?c) \<noteq> FnNull"
    using loop_invD(4) [OF I1 live_sockD(2) [OF loop_invD(2) [OF I1] s]] by (simp add: ctx_good_def)
  then have 3: "us_socket_close tcp_close_handlers s 0 NULL st1 = Some (s, emit (OnClose s 0 NULL) st2)"
    using 2(1) by (simp add: call_close_def tcp_close_handlers_def on_http_socket_close_def)
  have s2: "steps q A st1 ?A st2"
  proof (rule lib_step [OF I1 2(2)])
    show "c_handlers (ctxs st2 c) = c_handlers (ctxs st1 c)" for c
      using 2(3) by (simp add: close_effect_def)
    show "set (al_low ?A) \<subseteq> set (al_low A)" by (simp add: set_remove1_subset)
  qed simp
  have s3: "steps q A st ?A (emit (OnClose s 0 NULL) st2)"
    using steps_trans [OF steps_trans [OF s1 s2] steps_emit [OF stepsD(1) [OF s2]]] .
  have cl: "s \<in> set (al_closed ?A)" by simp
  have "\<not> live_sock ?A s"
    using live_sockD(5) [OF stepsD(3) [OF s2]] cl by blast
  then have "returns_ok A s ?A (emit (OnClose s 0 NULL) st2) s"
    using cl by (auto simp: returns_ok_def alive_def live_sock_def)
  moreover have "on_http_socket_end tcp_close_handlers s st = Some (s, emit (OnClose s 0 NULL) st2)"
    using 1(1) 3 by (simp add: on_http_socket_end_def)
  ultimately show ?thesis using s3 by blast
qed

lemma data_handler_ok:
  assumes I: "loop_inv q A st" and s: "open_sock A s" and e: "established st s"
  shows "\<exists>st'. on_http_socket_data K s d st = Some (s, st') \<and> steps q A st A st' \<and> returns_ok A s A st' s"
proof -
  note lv = open_live [OF s]
  have low: "s \<notin> set (al_low A)" using open_sockD(7) [OF loop_invD(2) [OF I] s] .
  from us_socket_write_ok [OF loop_invD(1) [OF I] lv e, of K hello False] low obtain r st' where
    1: "us_socket_write K s hello False st = Some (r, st')" "evolves A st A st'"
    and w: "if type3 st s = POLL_TYPE_SOCKET_SHUT_DOWN then r = 0 \<and> st' = st
     else r = max 0 (k_io K (emit (Send (fd_of st s) hello False) st)) \<and>
       (if k_io K (emit (Send (fd_of st s) hello False) st) = int (length hello)
        then st' = emit (Send (fd_of st s) hello False) st
        else short_write s ((emit (Send (fd_of st s) hello False) st)\<lparr>l_last_write_failed := True\<rparr>) st')"
    by blast
  have cx: "ctxs st' = ctxs st" "type3 st' s = type3 st s"
    using w by (auto simp: short_write_def type3_def split: if_splits)
  have "steps q A st A st'" by (rule lib_step [OF I 1(2)]) (simp_all add: cx)
  moreover have "established st' s" using e cx(2) by (simp add: established_def)
  ultimately show ?thesis using 1(1) lv low
    by (auto simp: on_http_socket_data_def returns_ok_def alive_def)
qed

interpretation tcp: event_handlers "tcp_handlers K" q for K q
proof unfold_locales
  fix A st c f fd ip
  assume "loop_inv q A st"
  then show "\<exists>r A' st'. h_pre_open (tcp_handlers K) f c fd ip st = Some (r, st') \<and> steps q A st A' st' \<and>
      set (al_listen A c) \<subseteq> set (al_listen A' c)"
    using steps_refl by (force simp: tcp_handlers_def tcp_close_handlers_def handlers0_def)
next
  fix A st s f client ip
  assume "loop_inv q A st"
  then show "\<exists>r A' st'. h_open (tcp_handlers K) f s client ip st = Some (r, st') \<and> steps q A st A' st'"
    using steps_refl by (auto simp: tcp_handlers_def on_http_socket_open_def)
next
  fix A st s f d
  assume "loop_inv q A st" "open_sock A s" "established st s"
  from data_handler_ok [OF this, of K d]
  show "\<exists>r A' st'. h_data (tcp_handlers K) f s d st = Some (r, st') \<and> steps q A st A' st' \<and>
      (r \<noteq> NULL \<longrightarrow> returns_ok A s A' st' r)"
    by (auto simp: tcp_handlers_def)
next
  fix A st s f
  assume I: "loop_inv q A st" and s: "live_sock A s"
  show "\<exists>r A' st'. h_sock (tcp_handlers K) f s st = Some (r, st') \<and> steps q A st A' st' \<and>
      (established st s \<longrightarrow> returns_ok A s A' st' r)"
    using end_handler_ok [OF I s] steps_refl [OF I] returns_same [OF I s]
    by (auto simp: tcp_handlers_def on_http_socket_timeout_def on_http_socket_writable_def)
next
  fix A st s f code reason
  assume "loop_inv q A st"
  then show "\<exists>r A' st'. h_close (tcp_handlers K) f s code reason st = Some (r, st') \<and> steps q A st A' st'"
    using steps_refl by (auto simp: tcp_handlers_def tcp_close_handlers_def on_http_socket_close_def)
next
  fix A st s f code
  assume "loop_inv q A st" "open_sock A s"
  then show "\<exists>r A' st'. h_connect_error (tcp_handlers K) f s code st = Some (r, st') \<and> steps q A st A' st' \<and>
      (open_sock A' s \<or> s \<in> set (al_closed A'))"
    using steps_refl by (force simp: tcp_handlers_def tcp_close_handlers_def handlers0_def)
next
  fix A st f
  assume "loop_inv q A st"
  then show "\<exists>A' st'. h_loop (tcp_handlers K) f st = Some st' \<and> steps q A st A' st'"
    using steps_refl by (auto simp: tcp_handlers_def on_pre_def on_post_def on_wakeup_def)
next
  fix A st f p
  assume "loop_inv q A st"
  then show "\<exists>A' st'. h_callback (tcp_handlers K) f p st = Some st' \<and> steps q A st A' st'"
    using steps_refl by (force simp: tcp_handlers_def tcp_close_handlers_def handlers0_def)
qed

section \<open>A kernel\<close>

text \<open>
  A kernel that reports the first socket of the first context as readable, writable and hung
  up, and the callback at address 26; that gives one byte per read, and refuses every accept.
\<close>

definition epoll1 :: "us \<Rightarrow> (addr \<times> u32) list" where
  "epoll1 st = (let h = c_head_sockets (ctxs st (l_head st)) in
     (if l_head st \<noteq> NULL \<and> h \<noteq> NULL \<and> h \<noteq> 26 then [(h, 5)] else []) @
     (if cb_typed st 26 then [(26, 1)] else []))"

definition kernel1 :: kernel where
  "kernel1 = kernel0\<lparr>k_fd := (\<lambda>_. LIBUS_SOCKET_ERROR), k_epoll_wait := epoll1\<rparr>"

lemma epoll1_ok: "epoll_wait_ok q kernel1"
  unfolding epoll_wait_ok_def
proof (intro allI impI conjI)
  fix A st
  assume I: "loop_inv q A st"
  show "distinct (map fst (k_epoll_wait kernel1 st))"
    by (simp add: kernel1_def epoll1_def Let_def)
  show "\<forall>p\<in>fst ` set (k_epoll_wait kernel1 st). open_poll A st p"
  proof
    fix p assume "p \<in> fst ` set (k_epoll_wait kernel1 st)"
    then consider (s) "l_head st \<noteq> NULL" "p = c_head_sockets (ctxs st (l_head st))" "p \<noteq> NULL"
      | (cb) "cb_typed st p"
      by (auto simp: kernel1_def epoll1_def Let_def split: if_splits)
    then show "open_poll A st p"
    proof cases
      case s
      note L = loop_invD(2) [OF I]
      have c: "l_head st \<in> set (al_ctxs A)"
        using dll_head [OF lists_invD(1) [OF L]] s(1) by (cases "al_ctxs A") auto
      then have "p \<in> set (al_socks A (l_head st))"
        using dll_head [OF lists_invD(5) [OF L c]] s(2,3) by (cases "al_socks A (l_head st)") auto
      then show ?thesis using c by (auto simp: open_poll_def)
    qed (simp add: open_poll_def)
  qed
qed

lemma kernel1_ok: "kernel_ok q kernel1"
proof -
  have "allocator_ok kernel1" using kernel0_ok by (simp add: kernel1_def allocator_ok_def)
  moreover have "recv_ends kernel1"
    by (simp add: recv_ends_def kernel1_def kernel0_def LIBUS_RECV_BUFFER_LENGTH_def)
  moreover have "accept_ends kernel1" by (simp add: accept_ends_def kernel1_def)
  ultimately show ?thesis using epoll1_ok by (simp add: kernel_ok_def)
qed

interpretation tcp_loop: event_loop "tcp_handlers kernel1" q kernel1 for q
  by unfold_locales (rule kernel1_ok)

lemma tcp_event_loop: "kernel_ok q K \<Longrightarrow> event_loop (tcp_handlers K) q K"
  using tcp.event_handlers_axioms by (simp add: event_loop_def event_loop_axioms_def)

end
