(* ===== verification/Us_Loop_Props.thy ===== *)
theory Us_Loop_Props
  imports Us_Tcp_Server Us_Props
begin

unbundle bit_operations_syntax

text \<open>
  What the event loop as a whole promises, for every set of handlers and every kernel that
  keep the contracts of the locales \<open>event_handlers\<close> and \<open>event_loop\<close>; each property is
  applied at the state \<open>demo\<close> with the handlers of the tcp server example.
\<close>

lemma demo_loop_inv: "loop_inv True demo_lists demo"
  using demo_inv by (simp add: loop_inv_def demo_lists_def demo_def ctx_good_def ctx0_def)

lemma demo_handlers: "event_handlers (tcp_handlers kernel1) True" "event_loop (tcp_handlers kernel1) True kernel1"
  using tcp.event_handlers_axioms tcp_event_loop [OF kernel1_ok] by blast+

section \<open>The loop\<close>



lemma run_loop_fuel:
  assumes "run_loop K H st = Some st'"
  shows "\<exists>n. run_fuel n K H st = Some st' \<and> num_polls st' = 0"
proof (rule run_loop.raw_induct [where P = "\<lambda>K H st st'. \<exists>n. run_fuel n K H st = Some st' \<and> num_polls st' = 0", OF _ assms])
  fix rl K H st st'
  assume IH: "\<And>K H st st'. rl K H st = Some st' \<Longrightarrow> \<exists>n. run_fuel n K H st = Some st' \<and> num_polls st' = 0"
    and r: "(if num_polls st \<noteq> 0 then loop_iteration K H st \<bind> rl K H else Some st) = Some st'"
  show "\<exists>n. run_fuel n K H st = Some st' \<and> num_polls st' = 0"
  proof (cases "num_polls st = 0")
    case True
    then have "run_fuel 0 K H st = Some st' \<and> num_polls st' = 0" using r by simp
    then show ?thesis by blast
  next
    case False
    then obtain st1 where 1: "loop_iteration K H st = Some st1" "rl K H st1 = Some st'"
      using r by (auto elim!: bind_eq_SomeE)
    from IH [OF 1(2)] obtain n where "run_fuel n K H st1 = Some st'" "num_polls st' = 0" by blast
    then have "run_fuel (Suc n) K H st = Some st' \<and> num_polls st' = 0" using False 1(1) by simp
    then show ?thesis by blast
  qed
qed

text \<open>
  \<open>us_loop_run\<close> returns exactly when some number of iterations brings the count of polls
  to zero, and then with the state those iterations reach: the loop as a partial function
  and the loop with fuel agree.
\<close>

theorem run_loop_iff_fuel:
  "run_loop K H st = Some st' \<longleftrightarrow> (\<exists>n. run_fuel n K H st = Some st' \<and> num_polls st' = 0)"
  using run_loop_fuel run_fuel_run_loop by blast

section \<open>The parts of an iteration\<close>

text \<open>
  C5. The timeout sweep ends and stays defined whatever its handlers do to the sockets it
  walks over: closing, shutting down or re-arming sockets, also the next one in the list,
  opening new ones, or adopting the socket at hand into another context.
\<close>

theorem timer_sweep_defined:
  assumes "event_handlers H q" and "loop_inv q A st"
  shows "\<exists>A' st'. us_internal_timer_sweep H st = Some st' \<and> loop_inv q A' st' \<and>
    set (al_closed A) \<subseteq> set (al_closed A') \<and> current_ready_poll st' = current_ready_poll st \<and>
    prefix (trace st) (trace st')"
proof -
  from event_handlers.us_internal_timer_sweep_ok [OF assms] obtain A' st' where
    1: "us_internal_timer_sweep H st = Some st'" "loop_inv q A' st'" "grows0 A st A' st'"
    unfolding steps0_def by blast
  then show ?thesis using grows0D [OF 1(3)] by (auto simp: grows0_def)
qed

theorem timer_sweep_defined_witness:
  "\<exists>A' st'. us_internal_timer_sweep (tcp_handlers kernel1) demo = Some st' \<and> loop_inv True A' st' \<and>
    set (al_closed demo_lists) \<subseteq> set (al_closed A') \<and> current_ready_poll st' = current_ready_poll demo \<and>
    prefix (trace demo) (trace st')"
  by (rule timer_sweep_defined [OF demo_handlers(1) demo_loop_inv])

text \<open>
  C8. An iteration takes at most five sockets off the low-priority queue: exactly the first
  five leave it, the rest keeps its order, each one that left is back in the list of its own
  context, and no socket leaves any context's list.
\<close>

theorem low_priority_takes_five:
  assumes "us_inv A st"
  shows "\<exists>A' st'. us_internal_handle_low_priority_sockets st = Some st' \<and> us_inv A' st' \<and>
    al_low A' = drop 5 (al_low A) \<and>
    (\<forall>s\<in>set (take 5 (al_low A)). s \<in> set (al_socks A' (s_context (socks st s)))) \<and>
    (\<forall>c. set (al_socks A c) \<subseteq> set (al_socks A' c))"
  using us_internal_handle_low_priority_sockets_ok [OF assms] unfolding evolves_def by blast

theorem low_priority_takes_five_witness:
  "\<exists>A' st'. us_internal_handle_low_priority_sockets demo = Some st' \<and> us_inv A' st' \<and>
    al_low A' = drop 5 (al_low demo_lists) \<and>
    (\<forall>s\<in>set (take 5 (al_low demo_lists)). s \<in> set (al_socks A' (s_context (socks demo s)))) \<and>
    (\<forall>c. set (al_socks demo_lists c) \<subseteq> set (al_socks A' c))"
  by (rule low_priority_takes_five [OF demo_inv])

text \<open>
  C9. At the end of an iteration exactly the sockets on the close list are freed, each once,
  the list is empty and nothing else in the state has changed but the count of polls, which
  falls by the number of sockets freed.
\<close>

theorem free_closed_exact:
  assumes "us_inv A st"
  shows "\<exists>st'. us_internal_free_closed_sockets st = Some st' \<and> us_inv (A\<lparr>al_closed := []\<rparr>) st' \<and>
    distinct (al_closed A) \<and>
    st' = st\<lparr>objs := (\<lambda>a. if a \<in> set (al_closed A) then None else objs st a),
      num_polls := num_polls st - int (length (al_closed A)), l_closed_head := NULL\<rparr>"
proof -
  have "distinct (al_closed A)"
    using sll_distinct [OF lists_invD(8) [OF us_invD(1) [OF assms]]] .
  then show ?thesis using us_internal_free_closed_sockets_ok [OF assms] by (simp add: free_all_def)
qed

theorem free_closed_exact_witness:
  "\<exists>st'. us_internal_free_closed_sockets demo = Some st' \<and> us_inv (demo_lists\<lparr>al_closed := []\<rparr>) st' \<and>
    distinct (al_closed demo_lists) \<and>
    st' = demo\<lparr>objs := (\<lambda>a. if a \<in> set (al_closed demo_lists) then None else objs demo a),
      num_polls := num_polls demo - int (length (al_closed demo_lists)), l_closed_head := NULL\<rparr>"
  by (rule free_closed_exact [OF demo_inv])

text \<open>
  C7. Dispatching a ready poll is defined for every kind of poll, every event mask the kernel
  may report for it and every error flag, and the number of reads and accepts it does is
  finite.
\<close>

theorem dispatch_ready_poll_defined:
  assumes "event_loop H q K" and "loop_inv q A st" and "open_poll A st p"
  shows "\<exists>A' st'. us_internal_dispatch_ready_poll K H p error (flags AND events3 st p) st = Some st' \<and>
    loop_inv q A' st' \<and> set (al_closed A) \<subseteq> set (al_closed A')"
proof -
  from event_loop.us_internal_dispatch_ready_poll_ok [OF assms] obtain A' st' where
    "us_internal_dispatch_ready_poll K H p error (flags AND events3 st p) st = Some st'"
    "loop_inv q A' st'" "grows0 A st A' st'"
    unfolding steps0_def by blast
  then show ?thesis by (auto simp: grows0_def)
qed

theorem dispatch_ready_poll_defined_witness:
  "\<exists>A' st'. us_internal_dispatch_ready_poll kernel1 (tcp_handlers kernel1) 21 False (1 AND events3 demo 21) demo = Some st' \<and>
    loop_inv True A' st' \<and> set (al_closed demo_lists) \<subseteq> set (al_closed A')"
  by (rule dispatch_ready_poll_defined [OF demo_handlers(2) demo_loop_inv])
    (simp add: open_poll_def demo_lists_def)

section \<open>Operations on sockets\<close>

text \<open>
  C10. Writing to an established socket never returns a negative count, returns what the kernel
  took, and after anything but a complete write the socket is polled for both directions and
  marked as having a failed write; on a socket that was shut down it does nothing.
\<close>

theorem us_socket_write_correct:
  assumes "us_inv A st" and "live_sock A s" and "established st s" and "s \<notin> set (al_low A)"
  shows "\<exists>r st'. us_socket_write K s data msg_more st = Some (r, st') \<and> us_inv A st' \<and> 0 \<le> r \<and>
    (let st1 = emit (Send (fd_of st s) data msg_more) st; io = k_io K st1 in
     if type3 st s = POLL_TYPE_SOCKET_SHUT_DOWN then r = 0 \<and> st' = st
     else r = max 0 io \<and>
       (if io = int (length data) then st' = st1
        else events3 st' s = LIBUS_SOCKET_READABLE OR LIBUS_SOCKET_WRITABLE \<and> l_last_write_failed st'))"
proof -
  from us_socket_write_ok [OF assms(1-3), where K = K and data = data and mm = msg_more] assms(4) obtain r st' where
    1: "us_socket_write K s data msg_more st = Some (r, st')" "evolves A st A st'"
    "if type3 st s = POLL_TYPE_SOCKET_SHUT_DOWN then r = 0 \<and> st' = st
     else r = max 0 (k_io K (emit (Send (fd_of st s) data msg_more) st)) \<and>
       (if k_io K (emit (Send (fd_of st s) data msg_more) st) = int (length data)
        then st' = emit (Send (fd_of st s) data msg_more) st
        else short_write s ((emit (Send (fd_of st s) data msg_more) st)\<lparr>l_last_write_failed := True\<rparr>) st')" by blast
  then show ?thesis unfolding evolves_def
    by (auto simp: short_write_def poll_mask_def Let_def split: if_splits)
qed

theorem us_socket_write_correct_witness:
  "\<exists>r st'. us_socket_write kernel0 21 [1, 2] False demo = Some (r, st') \<and> us_inv demo_lists st' \<and> 0 \<le> r \<and>
    (let st1 = emit (Send (fd_of demo 21) [1, 2] False) demo; io = k_io kernel0 st1 in
     if type3 demo 21 = POLL_TYPE_SOCKET_SHUT_DOWN then r = 0 \<and> st' = demo
     else r = max 0 io \<and>
       (if io = int (length [1 :: byte, 2]) then st' = st1
        else events3 st' 21 = LIBUS_SOCKET_READABLE OR LIBUS_SOCKET_WRITABLE \<and> l_last_write_failed st'))"
  by (rule us_socket_write_correct [OF demo_inv demo_live(1)])
    (simp_all add: established_def demo_lists_def poll_type_defs)



end
