(* ===== verification/Us_Bsd.thy ===== *)
theory Us_Bsd
  imports Us_Prelude "HOL-Library.Multiset"
begin

unbundle bit_operations_syntax

text \<open>
  The wrappers of the socket interface, \<open>src/bsd.c\<close> and \<open>internal/networking/bsd.h\<close>, as they are
  compiled on Linux (\<open>SOCK_CLOEXEC\<close>, \<open>SOCK_NONBLOCK\<close>, \<open>TCP_CORK\<close>, \<open>MSG_MORE\<close>, \<open>IP_PKTINFO\<close> and
  \<open>SO_REUSEPORT\<close> defined): creating listen, connect and UDP sockets with every failure path,
  the reading of socket addresses, and the packet buffers of UDP.

  The operating system is a parameter: every call is appended to the history, and the record
  \<open>os\<close> answers the last call of a history. Addresses of structs in memory are numbers, the
  memory a map from addresses to bytes; sizes and offsets are those of x86-64 Linux.
\<close>

section \<open>The operating system\<close>

definition AF_UNIX :: int where "AF_UNIX = 1"
definition AF_INET :: int where "AF_INET = 2"
definition AF_INET6 :: int where "AF_INET6 = 10"
definition AF_UNSPEC :: int where "AF_UNSPEC = 0"
definition SOCK_STREAM :: int where "SOCK_STREAM = 1"
definition SOCK_DGRAM :: int where "SOCK_DGRAM = 2"
definition SOCK_NONBLOCK :: int where "SOCK_NONBLOCK = 2048"
definition SOCK_CLOEXEC :: int where "SOCK_CLOEXEC = 524288"
definition O_NONBLOCK :: int where "O_NONBLOCK = 2048"
definition MSG_MORE :: int where "MSG_MORE = 32768"
definition MSG_NOSIGNAL :: int where "MSG_NOSIGNAL = 16384"
definition EWOULDBLOCK :: int where "EWOULDBLOCK = 11"
definition SOCKET_ERROR :: int where "SOCKET_ERROR = -1"
definition LIBUS_LISTEN_EXCLUSIVE_PORT :: int where "LIBUS_LISTEN_EXCLUSIVE_PORT = 1"

text \<open>Level and name of the socket options the code sets.\<close>

datatype sockopt = TCP_NODELAY | TCP_CORK | SO_REUSEPORT | SO_REUSEADDR | IPV6_V6ONLY
  | IPV6_RECVPKTINFO | IP_PKTINFO | IPV6_RECVTCLASS | IP_RECVTOS

record addrinfo =
  ai_family :: int
  ai_socktype :: int
  ai_protocol :: int
  ai_addr :: "byte list"

text \<open>What a call of \<open>getaddrinfo\<close> asks for: passive or not, the type of socket.\<close>

datatype call =
    Socket int int int | Setsockopt int sockopt int | FcntlGetfl int | FcntlSetfl int int
  | CloseFd int | ShutdownWr int | ShutdownRd int
  | Bind int "byte list" | Listen int int | Connect int "byte list" | Accept4 int int
  | Getaddrinfo "string option" "string option" bool int | Freeaddrinfo "addrinfo list"
  | Getsockname int | Getpeername int | Fchmod int int | Unlink string
  | RecvCall int int int | SendCall int "byte list" int | WritevCall int "byte list list"
  | Sendmmsg int addr nat int | Recvmmsg int addr nat int

text \<open>
  \<open>os_ret\<close> is the integer the last call of a history returned, \<open>os_errno\<close> the error number
  after it; \<open>os_addrinfo\<close> the list a successful \<open>getaddrinfo\<close> gave, \<open>os_sockaddr\<close> the
  \<open>sockaddr_storage\<close> a call filled and the length it set, \<open>os_data\<close> the bytes received.
\<close>

record os =
  os_ret :: "call list \<Rightarrow> int"
  os_errno :: "call list \<Rightarrow> int"
  os_addrinfo :: "call list \<Rightarrow> addrinfo list"
  os_sockaddr :: "call list \<Rightarrow> byte list \<times> int"
  os_data :: "call list \<Rightarrow> byte list"

type_synonym hist = "call list"

definition sys_call :: "os \<Rightarrow> call \<Rightarrow> hist \<Rightarrow> int \<times> hist" where
  "sys_call OS c h = (os_ret OS (h @ [c]), h @ [c])"

section \<open>Small wrappers\<close>

definition apple_no_sigpipe :: "int \<Rightarrow> int" where
  "apple_no_sigpipe fd = fd"

definition bsd_set_nonblocking :: "os \<Rightarrow> int \<Rightarrow> hist \<Rightarrow> int \<times> hist" where
  "bsd_set_nonblocking OS fd h = (
     let (flags, h) = sys_call OS (FcntlGetfl fd) h;
         (_, h) = sys_call OS (FcntlSetfl fd (flags OR O_NONBLOCK)) h
     in (fd, h))"

definition bsd_socket_nodelay :: "os \<Rightarrow> int \<Rightarrow> int \<Rightarrow> hist \<Rightarrow> hist" where
  "bsd_socket_nodelay OS fd enabled h = snd (sys_call OS (Setsockopt fd TCP_NODELAY enabled) h)"

definition bsd_socket_flush :: "os \<Rightarrow> int \<Rightarrow> hist \<Rightarrow> hist" where
  "bsd_socket_flush OS fd h = snd (sys_call OS (Setsockopt fd TCP_CORK 0) h)"

definition bsd_create_socket :: "os \<Rightarrow> int \<Rightarrow> int \<Rightarrow> int \<Rightarrow> hist \<Rightarrow> int \<times> hist" where
  "bsd_create_socket OS domain type protocol h = (
     let flags = SOCK_CLOEXEC OR SOCK_NONBLOCK;
         (created_fd, h) = sys_call OS (Socket domain (type OR flags) protocol) h
     in bsd_set_nonblocking OS (apple_no_sigpipe created_fd) h)"

definition bsd_close_socket :: "os \<Rightarrow> int \<Rightarrow> hist \<Rightarrow> hist" where
  "bsd_close_socket OS fd h = snd (sys_call OS (CloseFd fd) h)"

definition bsd_shutdown_socket :: "os \<Rightarrow> int \<Rightarrow> hist \<Rightarrow> hist" where
  "bsd_shutdown_socket OS fd h = snd (sys_call OS (ShutdownWr fd) h)"

definition bsd_shutdown_socket_read :: "os \<Rightarrow> int \<Rightarrow> hist \<Rightarrow> hist" where
  "bsd_shutdown_socket_read OS fd h = snd (sys_call OS (ShutdownRd fd) h)"

definition bsd_recv :: "os \<Rightarrow> int \<Rightarrow> int \<Rightarrow> int \<Rightarrow> hist \<Rightarrow> int \<times> byte list \<times> hist" where
  "bsd_recv OS fd len flags h = (
     let (r, h) = sys_call OS (RecvCall fd len flags) h in (r, os_data OS h, h))"

definition bsd_write2 :: "os \<Rightarrow> int \<Rightarrow> byte list \<Rightarrow> byte list \<Rightarrow> hist \<Rightarrow> int \<times> hist" where
  "bsd_write2 OS fd header payload h = sys_call OS (WritevCall fd [header, payload]) h"

definition bsd_send :: "os \<Rightarrow> int \<Rightarrow> byte list \<Rightarrow> int \<Rightarrow> hist \<Rightarrow> int \<times> hist" where
  "bsd_send OS fd buf msg_more h =
     sys_call OS (SendCall fd buf ((of_bool (msg_more \<noteq> 0) * MSG_MORE) OR MSG_NOSIGNAL)) h"

definition bsd_would_block :: "os \<Rightarrow> hist \<Rightarrow> bool" where
  "bsd_would_block OS h \<longleftrightarrow> os_errno OS h = EWOULDBLOCK"

section \<open>Socket addresses\<close>

text \<open>
  \<open>mem\<close> is the \<open>sockaddr_storage\<close>, 128 bytes: the family in host order (little endian) in
  bytes 0 and 1, the port in network order in bytes 2 and 3, the IPv4 address in bytes 4 to 7,
  the IPv6 address in bytes 8 to 23. The pointer \<open>ip\<close> points into the struct, it is kept as
  its offset.
\<close>

record bsd_addr_t =
  ba_mem :: "byte list"
  ba_len :: int
  ba_ip :: nat
  ba_ip_length :: int
  ba_port :: int

definition sizeof_sockaddr_storage :: nat where "sizeof_sockaddr_storage = 128"

definition ss_family :: "byte list \<Rightarrow> int" where
  "ss_family m = uint (m ! 0) + 256 * uint (m ! 1)"

definition ntohs_port :: "byte list \<Rightarrow> int" where
  "ntohs_port m = 256 * uint (m ! 2) + uint (m ! 3)"

definition internal_finalize_bsd_addr :: "bsd_addr_t \<Rightarrow> bsd_addr_t" where
  "internal_finalize_bsd_addr a =
     (if ss_family (ba_mem a) = AF_INET6
        then a\<lparr>ba_ip := 8, ba_ip_length := 16, ba_port := ntohs_port (ba_mem a)\<rparr>
      else if ss_family (ba_mem a) = AF_INET
        then a\<lparr>ba_ip := 4, ba_ip_length := 4, ba_port := ntohs_port (ba_mem a)\<rparr>
      else a\<lparr>ba_ip_length := 0, ba_port := -1\<rparr>)"

definition fill_addr :: "os \<Rightarrow> hist \<Rightarrow> bsd_addr_t \<Rightarrow> bsd_addr_t" where
  "fill_addr OS h a = a\<lparr>ba_mem := fst (os_sockaddr OS h), ba_len := snd (os_sockaddr OS h)\<rparr>"

definition bsd_local_addr :: "os \<Rightarrow> int \<Rightarrow> bsd_addr_t \<Rightarrow> hist \<Rightarrow> int \<times> bsd_addr_t \<times> hist" where
  "bsd_local_addr OS fd a h = (
     let a = a\<lparr>ba_len := int sizeof_sockaddr_storage\<rparr>;
         (r, h) = sys_call OS (Getsockname fd) h
     in if r \<noteq> 0 then (-1, a, h) else (0, internal_finalize_bsd_addr (fill_addr OS h a), h))"

definition bsd_remote_addr :: "os \<Rightarrow> int \<Rightarrow> bsd_addr_t \<Rightarrow> hist \<Rightarrow> int \<times> bsd_addr_t \<times> hist" where
  "bsd_remote_addr OS fd a h = (
     let a = a\<lparr>ba_len := int sizeof_sockaddr_storage\<rparr>;
         (r, h) = sys_call OS (Getpeername fd) h
     in if r \<noteq> 0 then (-1, a, h) else (0, internal_finalize_bsd_addr (fill_addr OS h a), h))"

definition bsd_addr_get_ip :: "bsd_addr_t \<Rightarrow> nat" where "bsd_addr_get_ip a = ba_ip a"
definition bsd_addr_get_ip_length :: "bsd_addr_t \<Rightarrow> int" where "bsd_addr_get_ip_length a = ba_ip_length a"
definition bsd_addr_get_port :: "bsd_addr_t \<Rightarrow> int" where "bsd_addr_get_port a = ba_port a"

text \<open>The bytes of the address, as a caller copies them out.\<close>

definition addr_bytes :: "bsd_addr_t \<Rightarrow> byte list" where
  "addr_bytes a = take (nat (bsd_addr_get_ip_length a)) (drop (bsd_addr_get_ip a) (ba_mem a))"

definition bsd_accept_socket :: "os \<Rightarrow> int \<Rightarrow> bsd_addr_t \<Rightarrow> hist \<Rightarrow> int \<times> bsd_addr_t \<times> hist" where
  "bsd_accept_socket OS fd a h = (
     let a = a\<lparr>ba_len := int sizeof_sockaddr_storage\<rparr>;
         (accepted_fd, h) = sys_call OS (Accept4 fd (SOCK_CLOEXEC OR SOCK_NONBLOCK)) h
     in if accepted_fd = SOCKET_ERROR then (SOCKET_ERROR, a, h)
        else let a = internal_finalize_bsd_addr (fill_addr OS h a);
                 (r, h) = bsd_set_nonblocking OS (apple_no_sigpipe accepted_fd) h
             in (r, a, h))"

section \<open>Creating sockets\<close>

text \<open>The decimal string of an integer, and \<open>snprintf(port_string, 16, "%d", port)\<close>.\<close>

fun digits_of :: "nat \<Rightarrow> string" where
  "digits_of n = (if n < 10 then [char_of (48 + n)]
     else digits_of (n div 10) @ [char_of (48 + n mod 10)])"

definition decimal :: "int \<Rightarrow> string" where
  "decimal n = (if n < 0 then CHR ''-'' # digits_of (nat (- n)) else digits_of (nat n))"

definition port_string :: "int \<Rightarrow> string" where
  "port_string port = take 15 (decimal port)"

text \<open>One of the two loops over the addresses: it stops at the first socket that is created.\<close>

fun try_family :: "os \<Rightarrow> int \<Rightarrow> addrinfo list \<Rightarrow> int \<Rightarrow> addrinfo option \<Rightarrow> hist \<Rightarrow> int \<times> addrinfo option \<times> hist" where
  "try_family OS fam [] listenFd listenAddr h = (listenFd, listenAddr, h)"
| "try_family OS fam (a # as) listenFd listenAddr h =
     (if listenFd \<noteq> SOCKET_ERROR then (listenFd, listenAddr, h)
      else if ai_family a = fam then
        let (listenFd, h) = bsd_create_socket OS (ai_family a) (ai_socktype a) (ai_protocol a) h
        in try_family OS fam as listenFd (Some a) h
      else try_family OS fam as listenFd listenAddr h)"

definition first_socket :: "os \<Rightarrow> addrinfo list \<Rightarrow> hist \<Rightarrow> int \<times> addrinfo option \<times> hist" where
  "first_socket OS result h = (
     let (listenFd, listenAddr, h) = try_family OS AF_INET6 result SOCKET_ERROR None h
     in try_family OS AF_INET result listenFd listenAddr h)"

definition addr_of :: "addrinfo option \<Rightarrow> byte list" where
  "addr_of a = (case a of Some a \<Rightarrow> ai_addr a | None \<Rightarrow> [])"

definition bsd_create_listen_socket :: "os \<Rightarrow> string option \<Rightarrow> int \<Rightarrow> int \<Rightarrow> hist \<Rightarrow> int \<times> hist" where
  "bsd_create_listen_socket OS host port options h = (
     let (r, h) = sys_call OS (Getaddrinfo host (Some (port_string port)) True SOCK_STREAM) h;
         result = os_addrinfo OS h
     in if r \<noteq> 0 then (SOCKET_ERROR, h) else
     let (listenFd, listenAddr, h) = first_socket OS result h
     in if listenFd = SOCKET_ERROR then (SOCKET_ERROR, snd (sys_call OS (Freeaddrinfo result) h)) else
     let h = (if port \<noteq> 0 then
           let h = (if options AND LIBUS_LISTEN_EXCLUSIVE_PORT = 0
                 then snd (sys_call OS (Setsockopt listenFd SO_REUSEPORT 1) h) else h)
           in snd (sys_call OS (Setsockopt listenFd SO_REUSEADDR 1) h)
         else h);
         (_, h) = sys_call OS (Setsockopt listenFd IPV6_V6ONLY 0) h;
         (b, h) = sys_call OS (Bind listenFd (addr_of listenAddr)) h;
         (l, h) = (if b \<noteq> 0 then (1, h) else sys_call OS (Listen listenFd 512) h)
     in if b \<noteq> 0 \<or> l \<noteq> 0 then
       let h = bsd_close_socket OS listenFd h
       in (SOCKET_ERROR, snd (sys_call OS (Freeaddrinfo result) h))
     else (listenFd, snd (sys_call OS (Freeaddrinfo result) h)))"

definition set_udp_option :: "os \<Rightarrow> int \<Rightarrow> sockopt \<Rightarrow> sockopt \<Rightarrow> hist \<Rightarrow> hist" where
  "set_udp_option OS fd v6 v4 h = (
     let (r, h) = sys_call OS (Setsockopt fd v6 1) h
     in if r = -1 \<and> os_errno OS h = 92 then snd (sys_call OS (Setsockopt fd v4 1) h) else h)"

definition bsd_create_udp_socket :: "os \<Rightarrow> string option \<Rightarrow> int \<Rightarrow> hist \<Rightarrow> int \<times> hist" where
  "bsd_create_udp_socket OS host port h = (
     let (r, h) = sys_call OS (Getaddrinfo host (Some (port_string port)) True SOCK_DGRAM) h;
         result = os_addrinfo OS h
     in if r \<noteq> 0 then (SOCKET_ERROR, h) else
     let (listenFd, listenAddr, h) = first_socket OS result h
     in if listenFd = SOCKET_ERROR then (SOCKET_ERROR, snd (sys_call OS (Freeaddrinfo result) h)) else
     let h = (if port \<noteq> 0 then snd (sys_call OS (Setsockopt listenFd SO_REUSEADDR 1) h) else h);
         (_, h) = sys_call OS (Setsockopt listenFd IPV6_V6ONLY 0) h;
         h = set_udp_option OS listenFd IPV6_RECVPKTINFO IP_PKTINFO h;
         h = set_udp_option OS listenFd IPV6_RECVTCLASS IP_RECVTOS h;
         (b, h) = sys_call OS (Bind listenFd (addr_of listenAddr)) h
     in if b \<noteq> 0 then
       let h = bsd_close_socket OS listenFd h
       in (SOCKET_ERROR, snd (sys_call OS (Freeaddrinfo result) h))
     else (listenFd, snd (sys_call OS (Freeaddrinfo result) h)))"

text \<open>A successful \<open>getaddrinfo\<close> gives at least one address; \<open>result\<close> is dereferenced unchecked.\<close>

definition bsd_create_connect_socket ::
  "os \<Rightarrow> string \<Rightarrow> int \<Rightarrow> string option \<Rightarrow> int \<Rightarrow> hist \<Rightarrow> (int \<times> hist) option" where
  "bsd_create_connect_socket OS host port source_host options h = (
     let (r, h) = sys_call OS (Getaddrinfo (Some host) (Some (port_string port)) False SOCK_STREAM) h;
         result = os_addrinfo OS h
     in if r \<noteq> 0 then Some (SOCKET_ERROR, h) else if result = [] then None else
     let a = hd result;
         (fd, h) = bsd_create_socket OS (ai_family a) (ai_socktype a) (ai_protocol a) h
     in if fd = SOCKET_ERROR then Some (SOCKET_ERROR, snd (sys_call OS (Freeaddrinfo result) h)) else
     let (bad, h) = (case source_host of None \<Rightarrow> (False, h)
         | Some src \<Rightarrow>
           let (r, h) = sys_call OS (Getaddrinfo (Some src) None False 0) h;
               interface_result = os_addrinfo OS h
           in if r \<noteq> 0 then (False, h) else
           let (ret, h) = sys_call OS (Bind fd (addr_of (if interface_result = [] then None else Some (hd interface_result)))) h;
               h = snd (sys_call OS (Freeaddrinfo interface_result) h)
           in (ret = SOCKET_ERROR, h))
     in if bad then
       let h = bsd_close_socket OS fd h
       in Some (SOCKET_ERROR, snd (sys_call OS (Freeaddrinfo result) h))
     else
       let (_, h) = sys_call OS (Connect fd (ai_addr a)) h;
           h = snd (sys_call OS (Freeaddrinfo result) h)
       in Some (fd, h))"

text \<open>
  The address of a unix socket: \<open>strcpy\<close> into the 108 bytes of \<open>sun_path\<close>, undefined when path and
  terminator do not fit. The length passed on is the path's without the terminator.
\<close>

definition sun_path_size :: nat where "sun_path_size = 108"

definition sockaddr_un :: "string \<Rightarrow> byte list option" where
  "sockaddr_un path = (if length path < sun_path_size
     then Some ([1, 0] @ map of_char path) else None)"

definition bsd_create_listen_socket_unix :: "os \<Rightarrow> string \<Rightarrow> int \<Rightarrow> hist \<Rightarrow> (int \<times> hist) option" where
  "bsd_create_listen_socket_unix OS path options h = (
     let (listenFd, h) = bsd_create_socket OS AF_UNIX SOCK_STREAM 0 h
     in if listenFd = SOCKET_ERROR then Some (SOCKET_ERROR, h) else
     let (_, h) = sys_call OS (Fchmod listenFd 448) h
     in do {
       server_address \<leftarrow> sockaddr_un path;
       let (_, h) = sys_call OS (Unlink path) h;
       let (b, h) = sys_call OS (Bind listenFd server_address) h;
       let (l, h) = (if b \<noteq> 0 then (1, h) else sys_call OS (Listen listenFd 512) h);
       if b \<noteq> 0 \<or> l \<noteq> 0 then Some (SOCKET_ERROR, bsd_close_socket OS listenFd h)
       else Some (listenFd, h)
     })"

definition bsd_create_connect_socket_unix :: "os \<Rightarrow> string \<Rightarrow> int \<Rightarrow> hist \<Rightarrow> (int \<times> hist) option" where
  "bsd_create_connect_socket_unix OS server_path options h = do {
     server_address \<leftarrow> sockaddr_un server_path;
     let (fd, h) = bsd_create_socket OS AF_UNIX SOCK_STREAM 0 h;
     if fd = SOCKET_ERROR then Some (SOCKET_ERROR, h)
     else let (_, h) = sys_call OS (Connect fd server_address) h in Some (fd, h)
   }"


section \<open>Packet buffers of UDP\<close>

text \<open>
  One block: the array of \<open>mmsghdr\<close>, the array of \<open>iovec\<close>, the peer addresses, the control
  areas, and behind the struct the payloads of 64 kB each. The headers are kept as records
  (one per index, the fields the code uses), the rest is memory. A control message, as the
  \<open>CMSG\<close> macros walk them, has a level, a type and its data.
\<close>

definition LIBUS_UDP_MAX_SIZE :: nat where "LIBUS_UDP_MAX_SIZE = 64 * 1024"
definition LIBUS_UDP_MAX_NUM :: nat where "LIBUS_UDP_MAX_NUM = 1024"
definition sizeof_mmsghdr :: nat where "sizeof_mmsghdr = 64"
definition sizeof_iovec :: nat where "sizeof_iovec = 16"
definition sizeof_sockaddr_in :: nat where "sizeof_sockaddr_in = 16"
definition control_size :: nat where "control_size = 256"
definition sizeof_packet_buffer :: nat where
  "sizeof_packet_buffer = LIBUS_UDP_MAX_NUM *
     (sizeof_mmsghdr + sizeof_iovec + sizeof_sockaddr_storage + control_size)"

lemmas udp_size_defs = LIBUS_UDP_MAX_SIZE_def LIBUS_UDP_MAX_NUM_def sizeof_mmsghdr_def sizeof_iovec_def
  sizeof_sockaddr_in_def control_size_def sizeof_packet_buffer_def sizeof_sockaddr_storage_def

datatype cmsg = Cmsg (cmsg_level: int) (cmsg_type: int) (cmsg_data: "byte list")

record mmsghdr =
  msg_name :: addr
  msg_namelen :: nat
  iov_base :: addr
  iov_len :: nat
  msg_control :: addr
  msg_controllen :: nat
  msg_cmsgs :: "cmsg list"
  msg_len :: int

type_synonym memory = "addr \<Rightarrow> byte"

definition store :: "addr \<Rightarrow> byte list \<Rightarrow> memory \<Rightarrow> memory" where
  "store a bs m = (\<lambda>x. if a \<le> x \<and> x < a + length bs then bs ! (x - a) else m x)"

definition load :: "addr \<Rightarrow> nat \<Rightarrow> memory \<Rightarrow> byte list" where
  "load a n m = map m [a..<a + n]"

definition addr_at :: "addr \<Rightarrow> nat \<Rightarrow> addr" where
  "addr_at b n = b + LIBUS_UDP_MAX_NUM * (sizeof_mmsghdr + sizeof_iovec) + n * sizeof_sockaddr_storage"

definition control_at :: "addr \<Rightarrow> nat \<Rightarrow> addr" where
  "control_at b n = b + LIBUS_UDP_MAX_NUM * (sizeof_mmsghdr + sizeof_iovec + sizeof_sockaddr_storage) +
     n * control_size"

definition payload_at :: "addr \<Rightarrow> nat \<Rightarrow> addr" where
  "payload_at b n = b + sizeof_packet_buffer + n * LIBUS_UDP_MAX_SIZE"

definition init_header :: "addr \<Rightarrow> nat \<Rightarrow> mmsghdr \<Rightarrow> mmsghdr" where
  "init_header b n m = m\<lparr>msg_name := addr_at b n, msg_namelen := sizeof_sockaddr_storage,
     iov_base := payload_at b n, iov_len := LIBUS_UDP_MAX_SIZE,
     msg_control := control_at b n, msg_controllen := control_size\<rparr>"

text \<open>\<open>b\<close> is the block \<open>malloc\<close> gave, \<open>ms\<close> its uninitialised headers.\<close>

definition bsd_create_udp_packet_buffer :: "addr \<Rightarrow> mmsghdr list \<Rightarrow> mmsghdr list" where
  "bsd_create_udp_packet_buffer b ms = map (\<lambda>n. init_header b n (ms ! n)) [0..<LIBUS_UDP_MAX_NUM]"

definition bsd_udp_packet_buffer_peer :: "mmsghdr list \<Rightarrow> nat \<Rightarrow> addr" where
  "bsd_udp_packet_buffer_peer buf index = msg_name (buf ! index)"

definition bsd_udp_packet_buffer_payload :: "mmsghdr list \<Rightarrow> nat \<Rightarrow> addr" where
  "bsd_udp_packet_buffer_payload buf index = iov_base (buf ! index)"

definition bsd_udp_packet_buffer_payload_length :: "mmsghdr list \<Rightarrow> nat \<Rightarrow> int" where
  "bsd_udp_packet_buffer_payload_length buf index = msg_len (buf ! index)"

text \<open>An index outside the array is undefined. The peer's address is copied as a \<open>sockaddr_in\<close>.\<close>

definition bsd_udp_buffer_set_packet_payload ::
  "mmsghdr list \<Rightarrow> nat \<Rightarrow> nat \<Rightarrow> byte list \<Rightarrow> addr \<Rightarrow> memory \<Rightarrow> (mmsghdr list \<times> memory) option" where
  "bsd_udp_buffer_set_packet_payload send_buf index offset payload peer_addr m =
     (if index < length send_buf then
        let ss = send_buf ! index;
            m = store (msg_name ss) (load peer_addr sizeof_sockaddr_in m) m;
            ss = ss\<lparr>msg_controllen := 0, msg_cmsgs := []\<rparr>;
            ss = ss\<lparr>iov_len := length payload + offset\<rparr>;
            m = store (iov_base ss + offset) payload m
        in Some (send_buf[index := ss], m)
      else None)"

definition IPPROTO_IP :: int where "IPPROTO_IP = 0"
definition IPPROTO_IPV6 :: int where "IPPROTO_IPV6 = 41"
definition IP_TOS :: int where "IP_TOS = 1"
definition IP_PKTINFO_TYPE :: int where "IP_PKTINFO_TYPE = 8"
definition IPV6_PKTINFO :: int where "IPV6_PKTINFO = 50"
definition IPV6_TCLASS :: int where "IPV6_TCLASS = 67"

text \<open>\<open>ipi_addr\<close> is at offset 8 of \<open>in_pktinfo\<close>, \<open>ipi6_addr\<close> at offset 0 of \<open>in6_pktinfo\<close>.\<close>

fun local_ip_loop :: "cmsg list \<Rightarrow> int \<times> byte list" where
  "local_ip_loop [] = (0, [])"
| "local_ip_loop (c # cs) =
     (if cmsg_level c = IPPROTO_IP \<and> cmsg_type c = IP_PKTINFO_TYPE then (4, take 4 (drop 8 (cmsg_data c)))
      else if cmsg_level c = IPPROTO_IPV6 \<and> cmsg_type c = IPV6_PKTINFO then (16, take 16 (cmsg_data c))
      else local_ip_loop cs)"

definition bsd_udp_packet_buffer_local_ip :: "mmsghdr list \<Rightarrow> nat \<Rightarrow> int \<times> byte list" where
  "bsd_udp_packet_buffer_local_ip buf index = local_ip_loop (msg_cmsgs (buf ! index))"

fun ecn_loop :: "cmsg list \<Rightarrow> int" where
  "ecn_loop [] = 0"
| "ecn_loop (c # cs) =
     (if cmsg_level c = IPPROTO_IP \<and> cmsg_type c = IP_TOS then uint (cmsg_data c ! 0 AND 3)
      else if cmsg_level c = IPPROTO_IPV6 \<and> cmsg_type c = IPV6_TCLASS then uint (cmsg_data c ! 0 AND 3)
      else ecn_loop cs)"

definition bsd_udp_packet_buffer_ecn :: "mmsghdr list \<Rightarrow> nat \<Rightarrow> int" where
  "bsd_udp_packet_buffer_ecn buf index = ecn_loop (msg_cmsgs (buf ! index))"

text \<open>The array is handed to the kernel at its address \<open>a\<close>; \<open>recv\<close> is what the kernel makes of it.\<close>

definition bsd_sendmmsg :: "os \<Rightarrow> int \<Rightarrow> addr \<Rightarrow> nat \<Rightarrow> int \<Rightarrow> hist \<Rightarrow> int \<times> hist" where
  "bsd_sendmmsg OS fd a vlen flags h = sys_call OS (Sendmmsg fd a vlen (flags OR MSG_NOSIGNAL)) h"

fun set_controllen :: "nat \<Rightarrow> mmsghdr list \<Rightarrow> mmsghdr list" where
  "set_controllen 0 ms = ms"
| "set_controllen (Suc n) [] = []"
| "set_controllen (Suc n) (m # ms) = m\<lparr>msg_controllen := 256\<rparr> # set_controllen n ms"

definition bsd_recvmmsg ::
  "os \<Rightarrow> (hist \<Rightarrow> mmsghdr list \<times> memory \<Rightarrow> mmsghdr list \<times> memory) \<Rightarrow> int \<Rightarrow> addr \<Rightarrow> nat \<Rightarrow> int \<Rightarrow>
   mmsghdr list \<times> memory \<Rightarrow> hist \<Rightarrow> int \<times> (mmsghdr list \<times> memory) \<times> hist" where
  "bsd_recvmmsg OS recv fd a vlen flags buf h = (
     let buf = (set_controllen vlen (fst buf), snd buf);
         (r, h) = sys_call OS (Recvmmsg fd a vlen flags) h
     in (r, recv h buf, h))"


section \<open>What is open, what is allocated\<close>

text \<open>
  The descriptors a history obtained from \<open>socket\<close> and those it closed; the address lists it
  obtained from \<open>getaddrinfo\<close> and those it freed. \<open>keeps\<close> says that between two histories
  everything obtained was given back exactly once, but for the descriptors \<open>fds\<close>.
\<close>

definition results :: "(call list \<Rightarrow> 'a option) \<Rightarrow> hist \<Rightarrow> 'a multiset" where
  "results f h = mset (concat (map (\<lambda>i. case f (take (Suc i) h) of None \<Rightarrow> [] | Some x \<Rightarrow> [x]) [0..<length h]))"

lemma results_Nil [simp]: "results f [] = {#}"
  by (simp add: results_def)

lemma results_snoc: "results f (h @ [c]) =
    results f h + (case f (h @ [c]) of None \<Rightarrow> {#} | Some x \<Rightarrow> {#x#})"
proof -
  let ?g = "\<lambda>h i. case f (take (Suc i) h) of None \<Rightarrow> [] | Some x \<Rightarrow> [x]"
  have *: "map (?g (h @ [c])) [0..<length h] = map (?g h) [0..<length h]"
    by (intro map_cong) auto
  have "results f (h @ [c]) = mset (concat (map (?g (h @ [c])) [0..<length h])) +
      (case f (h @ [c]) of None \<Rightarrow> {#} | Some x \<Rightarrow> {#x#})"
    by (simp add: results_def del: take_append split: option.split)
  then show ?thesis by (simp only: * results_def)
qed

definition opened :: "os \<Rightarrow> hist \<Rightarrow> int multiset" where
  "opened OS = results (\<lambda>h. case last h of Socket _ _ _ \<Rightarrow>
     if os_ret OS h = SOCKET_ERROR then None else Some (os_ret OS h) | _ \<Rightarrow> None)"

definition closed :: "hist \<Rightarrow> int multiset" where
  "closed = results (\<lambda>h. case last h of CloseFd fd \<Rightarrow> Some fd | _ \<Rightarrow> None)"

definition got_infos :: "os \<Rightarrow> hist \<Rightarrow> addrinfo list multiset" where
  "got_infos OS = results (\<lambda>h. case last h of Getaddrinfo _ _ _ _ \<Rightarrow>
     if os_ret OS h = 0 then Some (os_addrinfo OS h) else None | _ \<Rightarrow> None)"

definition freed_infos :: "hist \<Rightarrow> addrinfo list multiset" where
  "freed_infos = results (\<lambda>h. case last h of Freeaddrinfo r \<Rightarrow> Some r | _ \<Rightarrow> None)"

definition keeps :: "os \<Rightarrow> hist \<Rightarrow> hist \<Rightarrow> int multiset \<Rightarrow> bool" where
  "keeps OS h h' fds \<longleftrightarrow> opened OS h' + closed h = opened OS h + closed h' + fds \<and>
     got_infos OS h' + freed_infos h = got_infos OS h + freed_infos h'"

lemma ledger_simps [simp]:
  "opened OS (h @ [Socket d t p]) = opened OS h + (if os_ret OS (h @ [Socket d t p]) = SOCKET_ERROR
     then {#} else {#os_ret OS (h @ [Socket d t p])#})"
  "closed (h @ [CloseFd fd]) = add_mset fd (closed h)"
  "got_infos OS (h @ [Getaddrinfo n s b t]) = got_infos OS h + (if os_ret OS (h @ [Getaddrinfo n s b t]) = 0
     then {#os_addrinfo OS (h @ [Getaddrinfo n s b t])#} else {#})"
  "freed_infos (h @ [Freeaddrinfo r]) = add_mset r (freed_infos h)"
  by (simp_all add: opened_def closed_def got_infos_def freed_infos_def results_snoc)

lemma ledger_other [simp]:
  "(\<And>d t p. c \<noteq> Socket d t p) \<Longrightarrow> opened OS (h @ [c]) = opened OS h"
  "(\<And>fd. c \<noteq> CloseFd fd) \<Longrightarrow> closed (h @ [c]) = closed h"
  "(\<And>n s b t. c \<noteq> Getaddrinfo n s b t) \<Longrightarrow> got_infos OS (h @ [c]) = got_infos OS h"
  "(\<And>r. c \<noteq> Freeaddrinfo r) \<Longrightarrow> freed_infos (h @ [c]) = freed_infos h"
  by (auto simp: opened_def closed_def got_infos_def freed_infos_def results_snoc split: call.split)

lemmas bsd_call_defs = sys_call_def bsd_set_nonblocking_def apple_no_sigpipe_def bsd_close_socket_def

lemma create_socket_keeps:
  "bsd_create_socket OS d t p h = (fd, h') \<Longrightarrow>
   opened OS h' = opened OS h + (if fd = SOCKET_ERROR then {#} else {#fd#}) \<and> closed h' = closed h \<and>
   got_infos OS h' = got_infos OS h \<and> freed_infos h' = freed_infos h"
  by (auto simp: bsd_create_socket_def bsd_call_defs Let_def simp del: append_assoc)

lemma try_family_keeps:
  "try_family OS fam as l a h = (fd, b, h') \<Longrightarrow>
   opened OS h' + (if l = SOCKET_ERROR then {#} else {#l#}) = opened OS h + (if fd = SOCKET_ERROR then {#} else {#fd#}) \<and>
   closed h' = closed h \<and> got_infos OS h' = got_infos OS h \<and> freed_infos h' = freed_infos h"
proof (induction as arbitrary: l a h)
  case (Cons x as)
  show ?case
  proof (cases "l = SOCKET_ERROR \<and> ai_family x = fam")
    case True
    obtain fd1 h1 where 1: "bsd_create_socket OS (ai_family x) (ai_socktype x) (ai_protocol x) h = (fd1, h1)"
      by fastforce
    then have "try_family OS fam as fd1 (Some x) h1 = (fd, b, h')" using Cons.prems True by simp
    from Cons.IH [OF this] create_socket_keeps [OF 1] True show ?thesis by (auto split: if_splits)
  qed (use Cons.prems Cons.IH [of l a h] in \<open>auto split: if_splits\<close>)
qed auto

lemma first_socket_keeps:
  "first_socket OS as h = (fd, b, h') \<Longrightarrow>
   opened OS h' = opened OS h + (if fd = SOCKET_ERROR then {#} else {#fd#}) \<and>
   closed h' = closed h \<and> got_infos OS h' = got_infos OS h \<and> freed_infos h' = freed_infos h"
  by (auto simp: first_socket_def Let_def split: prod.splits dest!: try_family_keeps)

text \<open>
  C18. Creating a listen socket leaks nothing, whatever the operating system answers: when it
  fails every descriptor it obtained is closed again, when it succeeds exactly the returned
  one is still open, and the list of addresses is freed exactly once.
\<close>

theorem create_listen_socket_keeps:
  "case bsd_create_listen_socket OS host port options h of (fd, h') \<Rightarrow>
     keeps OS h h' (if fd = SOCKET_ERROR then {#} else {#fd#})"
proof -
  let ?g = "Getaddrinfo host (Some (port_string port)) True SOCK_STREAM"
  obtain fd a h1 where 1: "first_socket OS (os_addrinfo OS (h @ [?g])) (h @ [?g]) = (fd, a, h1)"
    by (metis prod_cases3)
  show ?thesis using first_socket_keeps [OF 1] 
    by (auto simp: bsd_create_listen_socket_def sys_call_def bsd_close_socket_def 1 Let_def keeps_def simp del: append_assoc)
qed


text \<open>
  The same for UDP sockets, which set their options and bind in one go.
\<close>

lemma set_udp_option_ledger [simp]:
  "opened OS (set_udp_option OS fd a b h) = opened OS h" "closed (set_udp_option OS fd a b h) = closed h"
  "got_infos OS (set_udp_option OS fd a b h) = got_infos OS h"
  "freed_infos (set_udp_option OS fd a b h) = freed_infos h"
  by (auto simp: set_udp_option_def sys_call_def simp del: append_assoc)

theorem create_udp_socket_keeps:
  "case bsd_create_udp_socket OS host port h of (fd, h') \<Rightarrow>
     keeps OS h h' (if fd = SOCKET_ERROR then {#} else {#fd#})"
proof -
  let ?g = "Getaddrinfo host (Some (port_string port)) True SOCK_DGRAM"
  obtain fd a h1 where 1: "first_socket OS (os_addrinfo OS (h @ [?g])) (h @ [?g]) = (fd, a, h1)"
    by (metis prod_cases3)
  show ?thesis using first_socket_keeps [OF 1]
    by (auto simp: bsd_create_udp_socket_def sys_call_def bsd_close_socket_def 1 Let_def keeps_def simp del: append_assoc)
qed

text \<open>
  Connecting leaks nothing either, also when binding to the source host fails, and is
  defined as soon as a successful \<open>getaddrinfo\<close> gives an address.
\<close>

theorem create_connect_socket_keeps:
  assumes "\<And>h. os_ret OS h = 0 \<Longrightarrow> os_addrinfo OS h \<noteq> []"
  shows "\<exists>fd h'. bsd_create_connect_socket OS host port source_host options h = Some (fd, h') \<and>
     keeps OS h h' (if fd = SOCKET_ERROR then {#} else {#fd#})"
proof -
  let ?g = "Getaddrinfo (Some host) (Some (port_string port)) False SOCK_STREAM"
  let ?a = "hd (os_addrinfo OS (h @ [?g]))"
  obtain fd h1 where 1: "bsd_create_socket OS (ai_family ?a) (ai_socktype ?a) (ai_protocol ?a) (h @ [?g]) = (fd, h1)"
    by fastforce
  show ?thesis using create_socket_keeps [OF 1] assms [of "h @ [?g]"]
    by (cases source_host)
      (auto simp: bsd_create_connect_socket_def sys_call_def bsd_close_socket_def 1 Let_def keeps_def simp del: append_assoc)
qed

text \<open>An operating system that answers every call with 3 and knows one address.\<close>

definition os3 :: os where
  "os3 = \<lparr>os_ret = (\<lambda>h. case last h of Socket _ _ _ \<Rightarrow> 3 | _ \<Rightarrow> 0), os_errno = (\<lambda>_. 0),
     os_addrinfo = (\<lambda>_. [\<lparr>ai_family = 2, ai_socktype = 1, ai_protocol = 6, ai_addr = [2, 0, 0, 80, 127, 0, 0, 1]\<rparr>]),
     os_sockaddr = (\<lambda>_. ([], 0)), os_data = (\<lambda>_. [])\<rparr>"

theorem create_connect_socket_keeps_witness:
  "\<exists>fd h'. bsd_create_connect_socket os3 ''localhost'' 80 (Some ''eth0'') 0 [] = Some (fd, h') \<and>
     keeps os3 [] h' (if fd = SOCKET_ERROR then {#} else {#fd#})"
  by (rule create_connect_socket_keeps) (simp add: os3_def)

text \<open>
  Unix sockets: with a path that fits into \<open>sun_path\<close> both are defined and leak nothing; a
  longer one overruns the address on the stack.
\<close>

theorem create_unix_sockets_keep:
  assumes "length path < 108"
  shows "(\<exists>fd h'. bsd_create_listen_socket_unix OS path options h = Some (fd, h') \<and>
      keeps OS h h' (if fd = SOCKET_ERROR then {#} else {#fd#})) \<and>
    (\<exists>fd h'. bsd_create_connect_socket_unix OS path options h = Some (fd, h') \<and>
      keeps OS h h' (if fd = SOCKET_ERROR then {#} else {#fd#}))"
proof -
  obtain fd h1 where 1: "bsd_create_socket OS AF_UNIX SOCK_STREAM 0 h = (fd, h1)" by fastforce
  have 2: "sockaddr_un path = Some ([1, 0] @ map of_char path)"
    using assms by (simp add: sockaddr_un_def sun_path_size_def)
  show ?thesis using create_socket_keeps [OF 1]
    by (auto simp: bsd_create_listen_socket_unix_def bsd_create_connect_socket_unix_def 1 2
        sys_call_def bsd_close_socket_def Let_def keeps_def simp del: append_assoc)
qed

theorem create_unix_sockets_keep_witness:
  "(\<exists>fd h'. bsd_create_listen_socket_unix os3 ''/tmp/s'' 0 [] = Some (fd, h') \<and>
      keeps os3 [] h' (if fd = SOCKET_ERROR then {#} else {#fd#})) \<and>
    (\<exists>fd h'. bsd_create_connect_socket_unix os3 ''/tmp/s'' 0 [] = Some (fd, h') \<and>
      keeps os3 [] h' (if fd = SOCKET_ERROR then {#} else {#fd#}))"
  by (rule create_unix_sockets_keep) simp

text \<open>
  A path of 108 characters or more, which the caller may pass, is written past the end of
  the address.
\<close>

theorem unix_path_overflow:
  assumes "108 \<le> length path"
  shows "bsd_create_connect_socket_unix OS path options h = None"
  using assms by (simp add: bsd_create_connect_socket_unix_def sockaddr_un_def sun_path_size_def)

theorem unix_path_overflow_witness:
  "bsd_create_connect_socket_unix os3 (replicate 108 CHR ''a'') 0 [] = None"
  by (rule unix_path_overflow) simp

section \<open>The order of the addresses\<close>

fun first_created :: "os \<Rightarrow> addrinfo list \<Rightarrow> hist \<Rightarrow> int \<times> addrinfo option \<times> hist" where
  "first_created OS [] h = (SOCKET_ERROR, None, h)"
| "first_created OS (a # as) h = (
     let (fd, h) = bsd_create_socket OS (ai_family a) (ai_socktype a) (ai_protocol a) h
     in if fd = SOCKET_ERROR then first_created OS as h else (fd, Some a, h))"

text \<open>The address of a failed search does not matter: nobody reads it.\<close>

definition if_created :: "int \<times> addrinfo option \<times> hist \<Rightarrow> int \<times> addrinfo option \<times> hist" where
  "if_created r = (case r of (fd, a, h) \<Rightarrow> (fd, if fd = SOCKET_ERROR then None else a, h))"

lemma try_family_done: "l \<noteq> SOCKET_ERROR \<Longrightarrow> try_family OS fam as l a h = (l, a, h)"
  by (cases as) simp_all

lemma try_family_first:
  "if_created (try_family OS fam as SOCKET_ERROR a h) = first_created OS (filter (\<lambda>a. ai_family a = fam) as) h"
proof (induction as arbitrary: a h)
  case (Cons x as)
  then show ?case
    by (cases "fst (bsd_create_socket OS (ai_family x) (ai_socktype x) (ai_protocol x) h) = SOCKET_ERROR")
      (auto simp: try_family_done if_created_def split: prod.splits)
qed (simp add: if_created_def)

lemma first_created_append:
  "first_created OS (as @ bs) h = (let (fd, a, h') = first_created OS as h
     in if fd = SOCKET_ERROR then first_created OS bs h' else (fd, a, h'))"
  by (induction as arbitrary: h) (auto split: prod.splits simp: Let_def)

text \<open>
  The two loops over the addresses find the first socket that can be created, trying all
  IPv6 addresses in their order before any IPv4 address, and never create a second one.
\<close>

theorem first_socket_prefers_ipv6:
  "if_created (first_socket OS result h) =
     first_created OS (filter (\<lambda>a. ai_family a = AF_INET6) result @ filter (\<lambda>a. ai_family a = AF_INET) result) h"
proof -
  obtain l a h1 where 1: "try_family OS AF_INET6 result SOCKET_ERROR None h = (l, a, h1)"
    using prod_cases3 by blast
  have 2: "first_created OS (filter (\<lambda>a. ai_family a = AF_INET6) result) h = if_created (l, a, h1)"
    using try_family_first [of OS AF_INET6 result None h] by (simp add: 1)
  show ?thesis
  proof (cases "l = SOCKET_ERROR")
    case True
    then show ?thesis using 1 2 try_family_first [of OS AF_INET result a h1]
      by (simp add: first_created_append first_socket_def if_created_def split: prod.splits)
  next
    case False
    then show ?thesis using 1 2
      by (simp add: first_created_append first_socket_def try_family_done if_created_def)
  qed
qed

section \<open>Reading addresses\<close>

text \<open>A \<open>sockaddr_in\<close> and a \<open>sockaddr_in6\<close> as the kernel stores them.\<close>

definition sockaddr_in :: "16 word \<Rightarrow> byte list \<Rightarrow> byte list" where
  "sockaddr_in port ip = [2, 0, ucast (drop_bit 8 port), ucast port] @ ip @ replicate 8 0"

definition sockaddr_in6 :: "16 word \<Rightarrow> byte list \<Rightarrow> byte list \<Rightarrow> byte list \<Rightarrow> byte list" where
  "sockaddr_in6 port flow ip scope = [10, 0, ucast (drop_bit 8 port), ucast port] @ flow @ ip @ scope"

lemma port_bytes: "256 * uint (ucast (drop_bit 8 port) :: byte) + uint (ucast port :: byte) = uint (port :: 16 word)"
proof -
  have "0 \<le> uint port div 256" "uint port div 256 < 256"
    using uint_lt2p [of port] uint_nonnegative [of port] by (simp_all add: pos_imp_zdiv_nonneg_iff)
  then have "uint (ucast (drop_bit 8 port) :: byte) = uint port div 256"
    by (simp add: unsigned_ucast_eq take_bit_eq_mod drop_bit_eq_div uint_div mod_pos_pos_trivial)
  moreover have "uint (ucast port :: byte) = uint port mod 256"
    by (simp add: unsigned_ucast_eq take_bit_eq_mod)
  ultimately show ?thesis by simp
qed

text \<open>
  Reading back an address the kernel wrote gives the port in host order and exactly the
  bytes of the IP address, for both families, in whatever bytes follow in the storage.
\<close>

theorem finalize_addr_roundtrip:
  assumes "length ip = 4" and "length flow = 4" and "length ip6 = 16"
  shows "(let a4 = internal_finalize_bsd_addr (a\<lparr>ba_mem := sockaddr_in port ip @ rest\<rparr>);
       a6 = internal_finalize_bsd_addr (a\<lparr>ba_mem := sockaddr_in6 port flow ip6 scope @ rest\<rparr>) in
     bsd_addr_get_port a4 = uint port \<and> addr_bytes a4 = ip \<and> bsd_addr_get_ip_length a4 = 4 \<and>
     bsd_addr_get_port a6 = uint port \<and> addr_bytes a6 = ip6 \<and> bsd_addr_get_ip_length a6 = 16)"
proof -
  have 4: "ntohs_port (sockaddr_in port ip @ rest) = uint port" "ss_family (sockaddr_in port ip @ rest) = 2"
    "ntohs_port (sockaddr_in6 port flow ip6 scope @ rest) = uint port"
    "ss_family (sockaddr_in6 port flow ip6 scope @ rest) = 10"
    by (simp_all add: sockaddr_in_def sockaddr_in6_def ntohs_port_def ss_family_def port_bytes)
  have "take 4 (drop 4 (sockaddr_in port ip @ rest)) = ip"
    "take 16 (drop 8 (sockaddr_in6 port flow ip6 scope @ rest)) = ip6"
    using assms by (simp_all add: sockaddr_in_def sockaddr_in6_def)
  then show ?thesis
    using assms by (simp add: internal_finalize_bsd_addr_def 4 AF_INET_def AF_INET6_def addr_bytes_def
        bsd_addr_get_port_def bsd_addr_get_ip_def bsd_addr_get_ip_length_def)
qed

definition addr0 :: bsd_addr_t where
  "addr0 = \<lparr>ba_mem = [], ba_len = 0, ba_ip = 0, ba_ip_length = 0, ba_port = 0\<rparr>"

theorem finalize_addr_roundtrip_witness:
  "(let a4 = internal_finalize_bsd_addr (addr0\<lparr>ba_mem := sockaddr_in 8080 [127, 0, 0, 1] @ [7]\<rparr>);
       a6 = internal_finalize_bsd_addr (addr0\<lparr>ba_mem := sockaddr_in6 8080 [0, 0, 0, 0] (replicate 15 0 @ [1]) [] @ [7]\<rparr>) in
     bsd_addr_get_port a4 = uint (8080 :: 16 word) \<and> addr_bytes a4 = [127, 0, 0, 1] \<and> bsd_addr_get_ip_length a4 = 4 \<and>
     bsd_addr_get_port a6 = uint (8080 :: 16 word) \<and> addr_bytes a6 = replicate 15 0 @ [1] \<and> bsd_addr_get_ip_length a6 = 16)"
  by (rule finalize_addr_roundtrip) simp_all

section \<open>Packet buffers\<close>

lemma load_length [simp]: "length (load a n m) = n"
  by (simp add: load_def)

lemma load_store_same: "load a (length bs) (store a bs m) = bs"
  by (auto simp: load_def store_def intro!: nth_equalityI)

lemma load_store_other: "a + n \<le> b \<or> b + length bs \<le> a \<Longrightarrow> load a n (store b bs m) = load a n m"
  by (auto simp: load_def store_def)

lemma udp_areas_apart:
  "n < k \<Longrightarrow> payload_at b n + LIBUS_UDP_MAX_SIZE \<le> payload_at b k"
  "n < k \<Longrightarrow> addr_at b n + sizeof_sockaddr_storage \<le> addr_at b k"
  "n < LIBUS_UDP_MAX_NUM \<Longrightarrow> addr_at b n + sizeof_sockaddr_storage \<le> payload_at b k"
  "n < LIBUS_UDP_MAX_NUM \<Longrightarrow> payload_at b n + LIBUS_UDP_MAX_SIZE \<le>
     b + sizeof_packet_buffer + LIBUS_UDP_MAX_SIZE * LIBUS_UDP_MAX_NUM"
  by (simp_all add: payload_at_def addr_at_def udp_size_defs)

text \<open>
  Writing a packet into a buffer: with the index and the length in bounds, the payload is
  found at its offset, the length of the packet covers it, the first 16 bytes of the peer's
  address are copied, and neither the payload nor the address of any other packet changes.
\<close>

theorem set_packet_payload_correct:
  assumes "i < 1024" and "offset + length payload \<le> 65536"
    and "peer + 16 \<le> b" and "buf = bsd_create_udp_packet_buffer b ms"
  shows "\<exists>buf' m'. bsd_udp_buffer_set_packet_payload buf i offset payload peer m = Some (buf', m') \<and>
    load (bsd_udp_packet_buffer_payload buf' i + offset) (length payload) m' = payload \<and>
    load (bsd_udp_packet_buffer_peer buf' i) 16 m' = load peer 16 m \<and>
    iov_len (buf' ! i) = offset + length payload \<and>
    load (bsd_udp_packet_buffer_payload buf' i) offset m' = load (bsd_udp_packet_buffer_payload buf i) offset m \<and>
    (\<forall>k<1024. k = i \<or> load (bsd_udp_packet_buffer_payload buf' k) 65536 m' =
         load (bsd_udp_packet_buffer_payload buf k) 65536 m \<and>
       load (bsd_udp_packet_buffer_peer buf' k) 128 m' = load (bsd_udp_packet_buffer_peer buf k) 128 m)"
proof -
  have n: "length buf = 1024" "\<And>k. k < 1024 \<Longrightarrow> msg_name (buf ! k) = addr_at b k"
    "\<And>k. k < 1024 \<Longrightarrow> iov_base (buf ! k) = payload_at b k"
    using assms(4) by (simp_all add: bsd_create_udp_packet_buffer_def init_header_def LIBUS_UDP_MAX_NUM_def)
  let ?m = "store (payload_at b i + offset) payload (store (addr_at b i) (load peer 16 m) m)"
  let ?buf = "buf[i := (buf ! i)\<lparr>msg_controllen := 0, msg_cmsgs := [], iov_len := length payload + offset\<rparr>]"
  have e: "bsd_udp_buffer_set_packet_payload buf i offset payload peer m = Some (?buf, ?m)"
    using assms(1) n by (simp add: bsd_udp_buffer_set_packet_payload_def Let_def sizeof_sockaddr_in_def)
  have f: "msg_name (?buf ! k) = addr_at b k" "iov_base (?buf ! k) = payload_at b k" if "k < 1024" for k
    using that n assms(1) by (simp_all add: nth_list_update)
  have a: "addr_at b k + 128 \<le> payload_at b j" if "k < 1024" for k j
    using udp_areas_apart(3) [of k b j] that by (simp add: udp_size_defs)
  have o: "load (payload_at b k) 65536 ?m = load (payload_at b k) 65536 m \<and>
      load (addr_at b k) 128 ?m = load (addr_at b k) 128 m" if "k < 1024" "k \<noteq> i" for k
  proof -
    have "payload_at b k + 65536 \<le> payload_at b i \<or> payload_at b i + 65536 \<le> payload_at b k"
      "addr_at b k + 128 \<le> addr_at b i \<or> addr_at b i + 128 \<le> addr_at b k"
      using udp_areas_apart(1,2) [of k i b] udp_areas_apart(1,2) [of i k b] that(2)
      by (auto simp: udp_size_defs neq_iff)
    then show ?thesis using a [OF that(1), of i] a [OF assms(1), of k] assms(2)
      load_store_other [of "payload_at b k" 65536 "payload_at b i + offset" payload]
      load_store_other [of "payload_at b k" 65536 "addr_at b i" "load peer 16 m"]
      load_store_other [of "addr_at b k" 128 "payload_at b i + offset" payload]
      load_store_other [of "addr_at b k" 128 "addr_at b i" "load peer 16 m"] by auto
  qed
  have p: "load (payload_at b i) offset ?m = load (payload_at b i) offset m"
    using a [OF assms(1), of i] by (subst load_store_other, simp)+ simp
  have q: "load (addr_at b i) 16 ?m = load peer 16 m"
    using a [OF assms(1), of i] load_store_same [of "addr_at b i" "load peer 16 m" m]
    by (subst load_store_other) auto
  show ?thesis
    unfolding bsd_udp_packet_buffer_payload_def bsd_udp_packet_buffer_peer_def
    by (intro exI [of _ ?buf] exI [of _ ?m]) (use e f n o p q assms(1) load_store_same in auto)
qed

theorem set_packet_payload_correct_witness:
  "\<exists>buf' m'. bsd_udp_buffer_set_packet_payload (bsd_create_udp_packet_buffer 4096 []) 3 2 [7, 8] 100 (\<lambda>_. 1) = Some (buf', m') \<and>
    load (bsd_udp_packet_buffer_payload buf' 3 + 2) (length [7 :: byte, 8]) m' = [7, 8] \<and>
    load (bsd_udp_packet_buffer_peer buf' 3) 16 m' = load 100 16 (\<lambda>_. 1) \<and>
    iov_len (buf' ! 3) = 2 + length [7 :: byte, 8] \<and>
    load (bsd_udp_packet_buffer_payload buf' 3) 2 m' =
      load (bsd_udp_packet_buffer_payload (bsd_create_udp_packet_buffer 4096 []) 3) 2 (\<lambda>_. 1) \<and>
    (\<forall>k<1024. k = 3 \<or> load (bsd_udp_packet_buffer_payload buf' k) 65536 m' =
         load (bsd_udp_packet_buffer_payload (bsd_create_udp_packet_buffer 4096 []) k) 65536 (\<lambda>_. 1) \<and>
       load (bsd_udp_packet_buffer_peer buf' k) 128 m' =
         load (bsd_udp_packet_buffer_peer (bsd_create_udp_packet_buffer 4096 []) k) 128 (\<lambda>_. 1))"
  by (rule set_packet_payload_correct [OF _ _ _ refl]) simp_all

end
