(* ===== verification/Us_Udp.thy ===== *)
theory Us_Udp
  imports Us_Bsd Us_Props
begin

text \<open>
  UDP sockets, \<open>src/udp.c\<close>: a UDP socket is a callback poll of the loop with five more fields,
  kept in \<open>udps\<close>; its packet buffers (\<open>Us_Bsd\<close>) are kept in \<open>bufs\<close> by their address, the bytes
  they point at in \<open>u_mem\<close>, and the socket calls in \<open>u_hist\<close>.
\<close>

record us_internal_udp_t =
  udp_receive_buf :: addr
  udp_data_cb :: fnptr
  udp_drain_cb :: fnptr
  udp_user :: addr
  udp_port :: int

record udp_part =
  udps :: "addr \<Rightarrow> us_internal_udp_t"
  bufs :: "addr \<Rightarrow> mmsghdr list"
  u_mem :: memory
  u_hist :: hist

text \<open>
  What the environment gives: the system calls, what a \<open>recvmmsg\<close> writes into a buffer, the
  block and the uninitialised headers of a new buffer, the uninitialised address on the stack
  of \<open>us_create_udp_socket\<close>, and the user's handlers.
\<close>

record udp_env =
  e_os :: os
  e_recv :: "hist \<Rightarrow> mmsghdr list \<times> memory \<Rightarrow> mmsghdr list \<times> memory"
  e_new_buf :: "us \<times> udp_part \<Rightarrow> addr \<times> mmsghdr list"
  e_tmp :: bsd_addr_t
  e_data_cb :: "fnptr \<Rightarrow> addr \<Rightarrow> addr \<Rightarrow> int \<Rightarrow> us \<times> udp_part \<Rightarrow> (us \<times> udp_part) option"

section \<open>Packet buffers\<close>

definition us_udp_packet_buffer_ecn :: "addr \<Rightarrow> nat \<Rightarrow> udp_part \<Rightarrow> int" where
  "us_udp_packet_buffer_ecn buf index u = bsd_udp_packet_buffer_ecn (bufs u buf) index"

definition us_udp_packet_buffer_local_ip :: "addr \<Rightarrow> nat \<Rightarrow> udp_part \<Rightarrow> int \<times> byte list" where
  "us_udp_packet_buffer_local_ip buf index u = bsd_udp_packet_buffer_local_ip (bufs u buf) index"

definition us_udp_packet_buffer_peer :: "addr \<Rightarrow> nat \<Rightarrow> udp_part \<Rightarrow> addr" where
  "us_udp_packet_buffer_peer buf index u = bsd_udp_packet_buffer_peer (bufs u buf) index"

definition us_udp_packet_buffer_payload :: "addr \<Rightarrow> nat \<Rightarrow> udp_part \<Rightarrow> addr" where
  "us_udp_packet_buffer_payload buf index u = bsd_udp_packet_buffer_payload (bufs u buf) index"

definition us_udp_packet_buffer_payload_length :: "addr \<Rightarrow> nat \<Rightarrow> udp_part \<Rightarrow> int" where
  "us_udp_packet_buffer_payload_length buf index u = bsd_udp_packet_buffer_payload_length (bufs u buf) index"

definition us_udp_buffer_set_packet_payload ::
  "addr \<Rightarrow> nat \<Rightarrow> nat \<Rightarrow> byte list \<Rightarrow> addr \<Rightarrow> udp_part \<Rightarrow> udp_part option" where
  "us_udp_buffer_set_packet_payload send_buf index offset payload peer_addr u = do {
     (ms, m) \<leftarrow> bsd_udp_buffer_set_packet_payload (bufs u send_buf) index offset payload peer_addr (u_mem u);
     Some (u\<lparr>bufs := (bufs u)(send_buf := ms), u_mem := m\<rparr>)
   }"

definition us_create_udp_packet_buffer :: "udp_env \<Rightarrow> us \<times> udp_part \<Rightarrow> addr \<times> udp_part" where
  "us_create_udp_packet_buffer E s = (
     let (b, ms) = e_new_buf E s; u = snd s
     in (b, u\<lparr>bufs := (bufs u)(b := bsd_create_udp_packet_buffer b ms)\<rparr>))"

section \<open>Sending and receiving\<close>

definition us_udp_socket_send :: "udp_env \<Rightarrow> addr \<Rightarrow> addr \<Rightarrow> nat \<Rightarrow> us \<times> udp_part \<Rightarrow> (int \<times> udp_part) option" where
  "us_udp_socket_send E s buf num x = do {
     fd \<leftarrow> us_poll_fd s (fst x);
     let (r, h) = bsd_sendmmsg (e_os E) fd buf num 0 (u_hist (snd x));
     Some (r, (snd x)\<lparr>u_hist := h\<rparr>)
   }"

definition us_udp_socket_receive :: "udp_env \<Rightarrow> addr \<Rightarrow> addr \<Rightarrow> us \<times> udp_part \<Rightarrow> (int \<times> udp_part) option" where
  "us_udp_socket_receive E s buf x = do {
     fd \<leftarrow> us_poll_fd s (fst x);
     let u = snd x;
     let (r, (ms, m), h) = bsd_recvmmsg (e_os E) (e_recv E) fd buf LIBUS_UDP_MAX_NUM 0
           (bufs u buf, u_mem u) (u_hist u);
     Some (r, u\<lparr>bufs := (bufs u)(buf := ms), u_mem := m, u_hist := h\<rparr>)
   }"

definition us_udp_socket_bound_port :: "addr \<Rightarrow> us \<times> udp_part \<Rightarrow> int option" where
  "us_udp_socket_bound_port s x = (if is_cb (fst x) s then Some (udp_port (udps (snd x) s)) else None)"

definition us_udp_socket_user :: "addr \<Rightarrow> us \<times> udp_part \<Rightarrow> addr option" where
  "us_udp_socket_user s x = (if is_cb (fst x) s then Some (udp_user (udps (snd x) s)) else None)"

definition internal_on_udp_read :: "udp_env \<Rightarrow> addr \<Rightarrow> us \<times> udp_part \<Rightarrow> (us \<times> udp_part) option" where
  "internal_on_udp_read E s x =
     (if is_cb (fst x) s then do {
        let udp = udps (snd x) s;
        (packets, u) \<leftarrow> us_udp_socket_receive E s (udp_receive_buf udp) x;
        if udp_data_cb udp = FnNull then None
        else e_data_cb E (udp_data_cb udp) s (udp_receive_buf udp) packets (fst x, u)
      } else None)"

section \<open>Creating a socket\<close>

definition us_create_udp_socket ::
  "kernel \<Rightarrow> udp_env \<Rightarrow> addr \<Rightarrow> fnptr \<Rightarrow> fnptr \<Rightarrow> string option \<Rightarrow> 16 word \<Rightarrow> addr \<Rightarrow> us \<times> udp_part \<Rightarrow>
   (addr \<times> us \<times> udp_part) option" where
  "us_create_udp_socket K E buf data_cb drain_cb host port user x = (
     let (st, u) = x;
         (fd, h) = bsd_create_udp_socket (e_os E) host (uint port) (u_hist u);
         u = u\<lparr>u_hist := h\<rparr>
     in if fd = SOCKET_ERROR then Some (NULL, st, u) else
     let (buf, u) = (if buf = NULL then us_create_udp_packet_buffer E (st, u) else (buf, u));
         (p, st) = us_create_poll K KCallback False st
     in do {
       st \<leftarrow> us_poll_init p fd POLL_TYPE_CALLBACK st;
       st \<leftarrow> wr_cb p (\<lambda>c. c\<lparr>cb_expects_the_loop := False, cb_leave_poll_ready := True\<rparr>) st;
       let (_, tmp, h) = bsd_local_addr (e_os E) fd (e_tmp E) (u_hist u);
       let u = u\<lparr>u_hist := h, udps := (udps u)(p := \<lparr>udp_receive_buf = buf, udp_data_cb = data_cb,
             udp_drain_cb = drain_cb, udp_user = user, udp_port = bsd_addr_get_port tmp\<rparr>)\<rparr>;
       st \<leftarrow> wr_cb p (\<lambda>c. c\<lparr>cb_cb := FnUdpRead\<rparr>) st;
       st \<leftarrow> us_poll_start p LIBUS_SOCKET_READABLE st;
       Some (p, st, u)
     })"

section \<open>Properties\<close>

lemma local_addr_keeps:
  "bsd_local_addr OS fd a h = (r, b, h') \<Longrightarrow> keeps OS h0 h fds \<Longrightarrow> keeps OS h0 h' fds"
  by (auto simp: bsd_local_addr_def sys_call_def Let_def keeps_def split: if_splits)

lemma new_callback_ok:
  assumes K: "allocator_ok K" and I: "us_inv A st"
  obtains p sa sb sc where "us_create_poll K KCallback False st = (p, sa)"
    "us_poll_init p fd POLL_TYPE_CALLBACK sa = Some sb" "wr_cb p f sb = Some sc" "is_cb sc p"
    "p \<noteq> NULL" "objs st p = None" "new_block p st sc" "type3 sc p = POLL_TYPE_CALLBACK"
    "cbs sc p = f (cbs st p)" "num_polls sc = num_polls st + 1" "p_fd (polls sc p) = word_of_int fd"
proof -
  let ?s0 = "st\<lparr>num_polls := num_polls st + 1\<rparr>"
  have "finite (dom (objs ?s0))" using lists_inv_finite [OF us_invD(1) [OF I]] by simp
  from allocD [OF K this, of KCallback] obtain b where
    b: "alloc K KCallback ?s0 = (b, ?s0\<lparr>objs := (objs ?s0)(b \<mapsto> KCallback)\<rparr>)" "b \<noteq> NULL" "objs ?s0 b = None" .
  let ?sa = "?s0\<lparr>objs := (objs ?s0)(b \<mapsto> KCallback)\<rparr>"
  let ?sb = "?sa\<lparr>polls := (polls ?sa)(b := (polls ?sa b)\<lparr>p_fd := word_of_int fd, p_type := POLL_TYPE_CALLBACK\<rparr>)\<rparr>"
  let ?sc = "?sb\<lparr>cbs := (cbs ?sb)(b := f (cbs ?sb b))\<rparr>"
  have sa: "is_cb ?sa b" using b(2) by (simp add: is_cb_def)
  then have sb: "is_cb ?sb b" by simp
  have eq: "us_create_poll K KCallback False st = (b, ?sa)" "us_poll_init b fd POLL_TYPE_CALLBACK ?sa = Some ?sb"
    using b(1) sa by (simp_all add: us_create_poll_def us_poll_init_def)
  show thesis
    by (rule that [OF eq wr_cb_eq [OF sb]])
      (use b sb poll_types_and3 in \<open>simp_all add: new_block_def type3_def\<close>)
qed

text \<open>
  Creating a UDP socket either fails, then the loop is untouched and no descriptor is left
  open, or gives a fresh callback poll on the one descriptor left open, polled for reading,
  whose callback is the UDP read function, with the invariant of the loop kept and one more
  poll counted; the buffer the socket reads into is the given one, or a new one.
\<close>

theorem us_create_udp_socket_correct:
  assumes K: "allocator_ok K" and I: "us_inv A st"
  shows "\<exists>p st' u'. us_create_udp_socket K E buf data_cb drain_cb host port user (st, u) = Some (p, st', u') \<and>
    us_inv A st' \<and>
    (if p = NULL then st' = st \<and> keeps (e_os E) (u_hist u) (u_hist u') {#}
     else (\<exists>fd. keeps (e_os E) (u_hist u) (u_hist u') {#fd#} \<and>
         us_poll_fd p st' = Some (sint (word_of_int fd :: 28 word))) \<and>
       objs st p = None \<and> cb_typed st' p \<and> cb_cb (cbs st' p) = FnUdpRead \<and>
       us_poll_events p st' = Some LIBUS_SOCKET_READABLE \<and> num_polls st' = num_polls st + 1 \<and>
       udp_data_cb (udps u' p) = data_cb \<and> udp_user (udps u' p) = user \<and>
       (buf = NULL \<or> udp_receive_buf (udps u' p) = buf))"
proof -
  obtain fd h where 1: "bsd_create_udp_socket (e_os E) host (uint port) (u_hist u) = (fd, h)" by fastforce
  have k: "keeps (e_os E) (u_hist u) h (if fd = SOCKET_ERROR then {#} else {#fd#})"
    using create_udp_socket_keeps [where OS = "e_os E" and host = host and port = "uint port" and h = "u_hist u"] by (simp add: 1)
  let ?u = "u\<lparr>u_hist := h\<rparr>"
  obtain b v where 2: "(if buf = NULL then us_create_udp_packet_buffer E (st, ?u) else (buf, ?u)) = (b, v)" by fastforce
  have v: "u_hist v = h" "buf \<noteq> NULL \<Longrightarrow> b = buf"
    using 2 by (auto simp: us_create_udp_packet_buffer_def Let_def split: if_splits prod.splits)
  obtain r tmp h2 where 3: "bsd_local_addr (e_os E) fd (e_tmp E) h = (r, tmp, h2)" by (metis prod_cases3)
  let ?f = "\<lambda>c. c\<lparr>cb_expects_the_loop := False, cb_leave_poll_ready := True\<rparr>"
  from new_callback_ok [OF K I, of fd ?f] obtain p sa sb sc where
    4: "us_create_poll K KCallback False st = (p, sa)"
    "us_poll_init p fd POLL_TYPE_CALLBACK sa = Some sb" "wr_cb p ?f sb = Some sc" "is_cb sc p"
    "p \<noteq> NULL" "objs st p = None" "new_block p st sc" "type3 sc p = POLL_TYPE_CALLBACK"
    "cbs sc p = ?f (cbs st p)" "num_polls sc = num_polls st + 1" "p_fd (polls sc p) = word_of_int fd" .
  let ?sd = "sc\<lparr>cbs := (cbs sc)(p := (cbs sc p)\<lparr>cb_cb := FnUdpRead\<rparr>)\<rparr>"
  let ?se = "emit (EpollCtlAdd (sint (p_fd (polls ?sd p))) LIBUS_SOCKET_READABLE p)
     (?sd\<lparr>polls := (polls ?sd)(p := (polls ?sd p)\<lparr>p_type :=
        (p_type (polls ?sd p) AND 3) OR type_of_events LIBUS_SOCKET_READABLE\<rparr>)\<rparr>)"
  have cb: "is_cb ?sd p" "is_cb ?se p" using 4(4) by simp_all
  have 5: "wr_cb p (\<lambda>c. c\<lparr>cb_cb := FnUdpRead\<rparr>) sc = Some ?sd" "us_poll_start p LIBUS_SOCKET_READABLE ?sd = Some ?se"
    using 4(4) cb by (simp_all add: us_poll_start_eq)
  have nb: "new_block p st ?se"
    using 4(7) unfolding new_block_def by (auto simp: prefix_def)
  have inv: "us_inv A ?se" using fresh_inv(1) [OF I 4(6) nb] .
  have "events3 ?se p = LIBUS_SOCKET_READABLE AND poll_mask" by (simp add: events3_def)
  moreover have "us_poll_events p ?se = Some (events3 ?se p)"
    using cb(2) by (simp add: us_poll_events_def events3_def)
  ultimately have ty: "us_poll_events p ?se = Some LIBUS_SOCKET_READABLE" "type3 ?se p = POLL_TYPE_CALLBACK"
    using type_of_type_events [of POLL_TYPE_CALLBACK LIBUS_SOCKET_READABLE] 4(8) poll_types_and3
    by (simp_all add: type3_def poll_mask_def event_defs)
  show ?thesis
  proof (cases "fd = SOCKET_ERROR")
    case True
    then show ?thesis using k I 1 by (simp add: us_create_udp_socket_def)
  next
    case False
    have "us_create_udp_socket K E buf data_cb drain_cb host port user (st, u) = Some (p, ?se,
        v\<lparr>u_hist := h2, udps := (udps v)(p := \<lparr>udp_receive_buf = b, udp_data_cb = data_cb,
             udp_drain_cb = drain_cb, udp_user = user, udp_port = bsd_addr_get_port tmp\<rparr>)\<rparr>)"
      using False 1 2 3 4(1-3) 5 v(1) by (simp add: us_create_udp_socket_def)
    moreover have "keeps (e_os E) (u_hist u) h2 {#fd#}" using local_addr_keeps [OF 3 k] False by simp
    ultimately show ?thesis
      using inv ty cb 4 v(2) by (auto simp: cb_typed_def us_poll_fd_def)
  qed
qed

definition env3 :: udp_env where
  "env3 = \<lparr>e_os = os3, e_recv = (\<lambda>h b. b), e_new_buf = (\<lambda>s. (4096, [])), e_tmp = addr0,
     e_data_cb = (\<lambda>f s b n x. Some x)\<rparr>"

definition part3 :: udp_part where
  "part3 = \<lparr>udps = (\<lambda>_. \<lparr>udp_receive_buf = 0, udp_data_cb = FnNull, udp_drain_cb = FnNull, udp_user = 0, udp_port = 0\<rparr>),
     bufs = (\<lambda>_. []), u_mem = (\<lambda>_. 0), u_hist = []\<rparr>"

theorem us_create_udp_socket_correct_witness:
  "\<exists>p st' u'. us_create_udp_socket kernel0 env3 0 (FnUser 1) (FnUser 2) None 53 7 (demo, part3) = Some (p, st', u') \<and>
    us_inv demo_lists st' \<and>
    (if p = NULL then st' = demo \<and> keeps (e_os env3) (u_hist part3) (u_hist u') {#}
     else (\<exists>fd. keeps (e_os env3) (u_hist part3) (u_hist u') {#fd#} \<and>
         us_poll_fd p st' = Some (sint (word_of_int fd :: 28 word))) \<and>
       objs demo p = None \<and> cb_typed st' p \<and> cb_cb (cbs st' p) = FnUdpRead \<and>
       us_poll_events p st' = Some LIBUS_SOCKET_READABLE \<and> num_polls st' = num_polls demo + 1 \<and>
       udp_data_cb (udps u' p) = FnUser 1 \<and> udp_user (udps u' p) = 7 \<and>
       ((0 :: addr) = NULL \<or> udp_receive_buf (udps u' p) = 0))"
  by (rule us_create_udp_socket_correct [OF kernel0_ok demo_inv])

text \<open>
  Reading a UDP socket calls its data handler exactly once, with the socket, the buffer it
  was created with and the count \<open>recvmmsg\<close> returned, in the state after that one call; the
  state of the loop is not changed before the handler runs.
\<close>

theorem udp_read_calls_handler:
  assumes "is_cb st s" and "udp_data_cb (udps u s) \<noteq> FnNull"
  shows "\<exists>u'. internal_on_udp_read E s (st, u) =
      e_data_cb E (udp_data_cb (udps u s)) s (udp_receive_buf (udps u s))
        (os_ret (e_os E) (u_hist u')) (st, u') \<and>
    u_hist u' = u_hist u @ [Recvmmsg (fd_of st s) (udp_receive_buf (udps u s)) 1024 0] \<and> udps u' = udps u"
proof -
  have fd: "us_poll_fd s st = Some (fd_of st s)"
    using assms(1) by (simp add: us_poll_fd_def fd_of_def)
  let ?h = "u_hist u @ [Recvmmsg (fd_of st s) (udp_receive_buf (udps u s)) 1024 0]"
  obtain ms m where 1: "e_recv E ?h (set_controllen 1024 (bufs u (udp_receive_buf (udps u s))), u_mem u) = (ms, m)"
    by fastforce
  show ?thesis
    by (rule exI [of _ "u\<lparr>bufs := (bufs u)(udp_receive_buf (udps u s) := ms), u_mem := m, u_hist := ?h\<rparr>"])
      (use assms 1 in \<open>simp add: internal_on_udp_read_def us_udp_socket_receive_def fd bsd_recvmmsg_def
        sys_call_def Let_def LIBUS_UDP_MAX_NUM_def\<close>)
qed

theorem udp_read_calls_handler_witness:
  "\<exists>u'. internal_on_udp_read env3 26 (demo, part3\<lparr>udps := (udps part3)(26 := \<lparr>udp_receive_buf = 9,
        udp_data_cb = FnUser 4, udp_drain_cb = FnNull, udp_user = 0, udp_port = 53\<rparr>)\<rparr>) = Some (demo, u') \<and>
    u_hist u' = [Recvmmsg (fd_of demo 26) 9 1024 0]"
  using udp_read_calls_handler [of demo 26 "part3\<lparr>udps := (udps part3)(26 := \<lparr>udp_receive_buf = 9,
        udp_data_cb = FnUser 4, udp_drain_cb = FnNull, udp_user = 0, udp_port = 53\<rparr>)\<rparr>" env3]
  by (auto simp: env3_def part3_def is_cb_def demo_def)

end
