(* ===== verification/Us_Ssl.thy ===== *)
theory Us_Ssl
  imports Us_Dispatch Us_Demo
begin

unbundle bit_operations_syntax

text \<open>
  The SSL layer, \<open>src/crypto/openssl.c\<close>: it decorates the plain sockets and contexts. OpenSSL is a
  parameter. What \<open>SSL_read\<close>, \<open>SSL_write\<close> and \<open>SSL_shutdown\<close> do is an interaction tree: they
  may read and write through the two functions of the custom BIO as often as they like, may call
  the server name callback, and return. The trees are run by \<open>run_bio\<close>, which supplies the code's
  own BIO functions. Every call of OpenSSL is appended to the trace.
\<close>

section \<open>OpenSSL\<close>

datatype 'r bio =
    BioRet 'r
  | BioRead nat "int \<times> byte list \<Rightarrow> 'r bio"
  | BioWrite "byte list" "int \<Rightarrow> 'r bio"
  | BioServername addr "int \<Rightarrow> 'r bio"

record openssl =
  o_ssl_new :: "us \<Rightarrow> addr \<Rightarrow> addr"
  o_read :: "us \<Rightarrow> addr \<Rightarrow> int \<Rightarrow> (int \<times> byte list) bio"
  o_write :: "us \<Rightarrow> addr \<Rightarrow> byte list \<Rightarrow> int bio"
  o_shutdown :: "us \<Rightarrow> addr \<Rightarrow> int bio"
  o_get_error :: "us \<Rightarrow> addr \<Rightarrow> int \<Rightarrow> int"
  o_get_shutdown :: "us \<Rightarrow> addr \<Rightarrow> int"
  o_in_init :: "us \<Rightarrow> addr \<Rightarrow> bool"
  o_servername :: "us \<Rightarrow> addr \<Rightarrow> string option"
  o_ssl_ctx :: "us \<Rightarrow> addr \<Rightarrow> addr"
  o_ex_data :: "us \<Rightarrow> addr \<Rightarrow> addr"
  o_passwd_userdata :: "us \<Rightarrow> addr \<Rightarrow> addr"
  o_addr :: "string \<Rightarrow> us \<Rightarrow> addr"
  o_int :: "string \<Rightarrow> us \<Rightarrow> int"

definition SSL_ERROR_SSL :: int where "SSL_ERROR_SSL = 1"
definition SSL_ERROR_WANT_READ :: int where "SSL_ERROR_WANT_READ = 2"
definition SSL_ERROR_WANT_WRITE :: int where "SSL_ERROR_WANT_WRITE = 3"
definition SSL_ERROR_SYSCALL :: int where "SSL_ERROR_SYSCALL = 5"
definition SSL_SENT_SHUTDOWN :: int where "SSL_SENT_SHUTDOWN = 1"
definition SSL_RECEIVED_SHUTDOWN :: int where "SSL_RECEIVED_SHUTDOWN = 2"
definition SSL_TLSEXT_ERR_OK :: int where "SSL_TLSEXT_ERR_OK = 0"
definition SSL_TLSEXT_ERR_NOACK :: int where "SSL_TLSEXT_ERR_NOACK = 3"
definition BIO_CTRL_FLUSH :: int where "BIO_CTRL_FLUSH = 11"

section \<open>The SSL parts of the objects\<close>

definition rd_ssl :: "addr \<Rightarrow> us \<Rightarrow> us_internal_ssl_socket_t option" where
  "rd_ssl s st = (if is_sock st s then Some (ssl_socks st s) else None)"

definition wr_ssl :: "addr \<Rightarrow> (us_internal_ssl_socket_t \<Rightarrow> us_internal_ssl_socket_t) \<Rightarrow> us \<Rightarrow> us option" where
  "wr_ssl s f st = (if is_sock st s
     then Some (st\<lparr>ssl_socks := (ssl_socks st)(s := f (ssl_socks st s))\<rparr>) else None)"

definition rd_sslctx :: "addr \<Rightarrow> us \<Rightarrow> us_internal_ssl_socket_context_t option" where
  "rd_sslctx c st = (if is_ctx st c then Some (ssl_ctxs st c) else None)"

definition wr_sslctx ::
  "addr \<Rightarrow> (us_internal_ssl_socket_context_t \<Rightarrow> us_internal_ssl_socket_context_t) \<Rightarrow> us \<Rightarrow> us option" where
  "wr_sslctx c f st = (if is_ctx st c
     then Some (st\<lparr>ssl_ctxs := (ssl_ctxs st)(c := f (ssl_ctxs st c))\<rparr>) else None)"

definition upd_data :: "(loop_ssl_data \<Rightarrow> loop_ssl_data) \<Rightarrow> us \<Rightarrow> us option" where
  "upd_data f st = map_option (\<lambda>d. st\<lparr>l_ssl_data := Some (f d)\<rparr>) (l_ssl_data st)"

section \<open>The BIO\<close>

text \<open>
  \<open>passphrase_cb\<close> copies the whole passphrase and ignores the size of the buffer; copying past
  its end is undefined.
\<close>

definition passphrase_cb :: "nat \<Rightarrow> string \<Rightarrow> (int \<times> byte list) option" where
  "passphrase_cb sz passphrase =
     (if length passphrase \<le> sz then Some (int (length passphrase), map of_char passphrase) else None)"

definition BIO_s_custom_ctrl :: "int \<Rightarrow> int" where
  "BIO_s_custom_ctrl cmd = (if cmd = BIO_CTRL_FLUSH then 1 else 0)"

definition BIO_s_custom_write :: "kernel \<Rightarrow> byte list \<Rightarrow> us \<Rightarrow> (int \<times> us) option" where
  "BIO_s_custom_write K data st = do {
     d \<leftarrow> l_ssl_data st;
     let more = sl_msg_more d \<or> length data = 16413;
     st \<leftarrow> upd_data (\<lambda>d. d\<lparr>sl_last_write_was_msg_more := more\<rparr>) st;
     (written, st) \<leftarrow> us_socket_write K (sl_ssl_socket d) data more st;
     if written = 0 then Some (-1, st) else Some (written, st)
   }"

definition BIO_s_custom_read :: "nat \<Rightarrow> us \<Rightarrow> (int \<times> byte list \<times> us) option" where
  "BIO_s_custom_read len st = do {
     d \<leftarrow> l_ssl_data st;
     if sl_read_input_length d = 0 then Some (-1, [], st) else do {
       let len = (if len > sl_read_input_length d then sl_read_input_length d else len);
       let dst = take len (drop (sl_read_input_offset d) (sl_read_input d));
       st \<leftarrow> upd_data (\<lambda>d. d\<lparr>sl_read_input_offset := sl_read_input_offset d + len,
           sl_read_input_length := sl_read_input_length d - len\<rparr>) st;
       Some (int len, dst, st)
     }
   }"

section \<open>Server names\<close>

text \<open>\<open>resolve_context\<close>: one lookup, the callback of a missing name, a last lookup.\<close>

definition resolve_context :: "handlers \<Rightarrow> addr \<Rightarrow> string \<Rightarrow> us \<Rightarrow> (addr \<times> us) option" where
  "resolve_context U context hostname st = do {
     c \<leftarrow> rd_sslctx context st;
     t \<leftarrow> sc_sni c;
     let user = sni_find t hostname;
     if user = NULL then
       if sc_on_server_name c = FnNull then Some (NULL, st)
       else do {
         st \<leftarrow> h_server_name U (sc_on_server_name c) context hostname (emit (OnServerName context hostname) st);
         c \<leftarrow> rd_sslctx context st;
         t \<leftarrow> sc_sni c;
         Some (sni_find t hostname, st)
       }
     else Some (user, st)
   }"

definition sni_cb :: "openssl \<Rightarrow> handlers \<Rightarrow> addr \<Rightarrow> addr \<Rightarrow> us \<Rightarrow> (int \<times> us) option" where
  "sni_cb OS U ssl arg st =
     (if ssl \<noteq> NULL then
        (case o_servername OS st ssl of
           None \<Rightarrow> Some (SSL_TLSEXT_ERR_OK, st)
         | Some hostname \<Rightarrow>
             if hostname \<noteq> [] then do {
               (resolved, st) \<leftarrow> resolve_context U arg hostname st;
               Some (SSL_TLSEXT_ERR_OK, if resolved \<noteq> NULL then emit (Ssl (SSL_set_SSL_CTX ssl resolved)) st else st)
             } else Some (SSL_TLSEXT_ERR_OK, st))
      else Some (SSL_TLSEXT_ERR_NOACK, st))"

primrec run_bio :: "openssl \<Rightarrow> kernel \<Rightarrow> handlers \<Rightarrow> addr \<Rightarrow> 'r bio \<Rightarrow> us \<Rightarrow> ('r \<times> us) option" where
  "run_bio OS K U ssl (BioRet r) st = Some (r, st)"
| "run_bio OS K U ssl (BioRead n k) st = do {
     (r, dst, st) \<leftarrow> BIO_s_custom_read n st;
     run_bio OS K U ssl (k (r, dst)) st
   }"
| "run_bio OS K U ssl (BioWrite data k) st = do {
     (r, st) \<leftarrow> BIO_s_custom_write K data st;
     run_bio OS K U ssl (k r) st
   }"
| "run_bio OS K U ssl (BioServername arg k) st = do {
     (r, st) \<leftarrow> sni_cb OS U ssl arg st;
     run_bio OS K U ssl (k r) st
   }"

definition ssl_read :: "openssl \<Rightarrow> kernel \<Rightarrow> handlers \<Rightarrow> addr \<Rightarrow> int \<Rightarrow> us \<Rightarrow> ((int \<times> byte list) \<times> us) option" where
  "ssl_read OS K U ssl n st = do {
     let st = emit (Ssl (SSL_read ssl n)) st;
     ((r, bytes), st) \<leftarrow> run_bio OS K U ssl (o_read OS st ssl n) st;
     Some ((r, bytes), emit (Ssl (SSL_read_ret r bytes)) st)
   }"

definition ssl_write :: "openssl \<Rightarrow> kernel \<Rightarrow> handlers \<Rightarrow> addr \<Rightarrow> byte list \<Rightarrow> us \<Rightarrow> (int \<times> us) option" where
  "ssl_write OS K U ssl data st =
     (let st = emit (Ssl (SSL_write ssl data)) st in run_bio OS K U ssl (o_write OS st ssl data) st)"

definition ssl_shutdown :: "openssl \<Rightarrow> kernel \<Rightarrow> handlers \<Rightarrow> addr \<Rightarrow> us \<Rightarrow> (int \<times> us) option" where
  "ssl_shutdown OS K U ssl st =
     (let st = emit (Ssl (SSL_shutdown ssl)) st in run_bio OS K U ssl (o_shutdown OS st ssl) st)"

text \<open>Errors of these two kinds may leave entries in the error queue of the thread.\<close>

definition clear_error_queue :: "int \<Rightarrow> us \<Rightarrow> us" where
  "clear_error_queue err st =
     (if err = SSL_ERROR_SSL \<or> err = SSL_ERROR_SYSCALL then emit (Ssl ERR_clear_error) st else st)"

section \<open>The user's handlers\<close>

definition user_open :: "handlers \<Rightarrow> fnptr \<Rightarrow> addr \<Rightarrow> bool \<Rightarrow> byte list \<Rightarrow> us \<Rightarrow> (addr \<times> us) option" where
  "user_open U f s is_client ip st =
     (if f = FnNull then None else h_open U f s is_client ip (emit (Ssl (UserOpen s is_client ip)) st))"

definition user_data :: "handlers \<Rightarrow> fnptr \<Rightarrow> addr \<Rightarrow> byte list \<Rightarrow> us \<Rightarrow> (addr \<times> us) option" where
  "user_data U f s data st =
     (if f = FnNull then None else h_data U f s data (emit (Ssl (UserData s data)) st))"

definition user_writable :: "handlers \<Rightarrow> fnptr \<Rightarrow> addr \<Rightarrow> us \<Rightarrow> (addr \<times> us) option" where
  "user_writable U f s st = (if f = FnNull then None else h_sock U f s (emit (Ssl (UserWritable s)) st))"

definition user_close :: "handlers \<Rightarrow> fnptr \<Rightarrow> addr \<Rightarrow> int \<Rightarrow> addr \<Rightarrow> us \<Rightarrow> (addr \<times> us) option" where
  "user_close U f s code reason st =
     (if f = FnNull then None else h_close U f s code reason (emit (Ssl (UserClose s code reason)) st))"

section \<open>Opening and closing\<close>

definition ssl_on_open :: "openssl \<Rightarrow> handlers \<Rightarrow> addr \<Rightarrow> bool \<Rightarrow> byte list \<Rightarrow> us \<Rightarrow> (addr \<times> us) option" where
  "ssl_on_open OS U s is_client ip st = do {
     context \<leftarrow> us_socket_context s st;
     c \<leftarrow> rd_sslctx context st;
     _ \<leftarrow> l_ssl_data st;
     let ssl = o_ssl_new OS st (sc_ssl_context c);
     st \<leftarrow> wr_ssl s (\<lambda>_. \<lparr>ss_ssl = ssl, ss_write_wants_read = False, ss_read_wants_write = False\<rparr>)
         (emit (Ssl (SSL_new (sc_ssl_context c) ssl)) st);
     user_open U (sc_on_open c) s is_client ip (emit (Ssl (SSL_set_state ssl is_client)) st)
   }"

definition ssl_on_close :: "openssl \<Rightarrow> handlers \<Rightarrow> addr \<Rightarrow> int \<Rightarrow> addr \<Rightarrow> us \<Rightarrow> (addr \<times> us) option" where
  "ssl_on_close OS U s code reason st = do {
     context \<leftarrow> us_socket_context s st;
     c \<leftarrow> rd_sslctx context st;
     ss \<leftarrow> rd_ssl s st;
     user_close U (sc_on_close c) s code reason (emit (Ssl (SSL_free (ss_ssl ss))) st)
   }"

definition ssl_close_handlers :: "openssl \<Rightarrow> handlers \<Rightarrow> handlers" where
  "ssl_close_handlers OS U = U\<lparr>h_close := (\<lambda>f s code reason st.
     if f = FnSslOnClose then ssl_on_close OS U s code reason st else h_close U f s code reason st)\<rparr>"

definition us_internal_ssl_socket_close ::
  "openssl \<Rightarrow> handlers \<Rightarrow> addr \<Rightarrow> int \<Rightarrow> addr \<Rightarrow> us \<Rightarrow> (addr \<times> us) option" where
  "us_internal_ssl_socket_close OS U s code reason st = us_socket_close (ssl_close_handlers OS U) s code reason st"

definition ssl_on_end :: "openssl \<Rightarrow> handlers \<Rightarrow> addr \<Rightarrow> us \<Rightarrow> (addr \<times> us) option" where
  "ssl_on_end OS U s st = us_internal_ssl_socket_close OS U s 0 NULL st"

definition us_internal_ssl_socket_is_shut_down :: "openssl \<Rightarrow> addr \<Rightarrow> us \<Rightarrow> bool option" where
  "us_internal_ssl_socket_is_shut_down OS s st = do {
     shut \<leftarrow> us_socket_is_shut_down s st;
     ss \<leftarrow> rd_ssl s st;
     Some (shut \<or> o_get_shutdown OS st (ss_ssl ss) AND SSL_SENT_SHUTDOWN \<noteq> 0)
   }"

section \<open>Reading\<close>

text \<open>Data that arrives after we sent our shutdown can only complete it.\<close>

definition ssl_on_data_shut_down :: "openssl \<Rightarrow> kernel \<Rightarrow> handlers \<Rightarrow> addr \<Rightarrow> us \<Rightarrow> (addr \<times> us) option" where
  "ssl_on_data_shut_down OS K U s st = do {
     ss \<leftarrow> rd_ssl s st;
     (ret, st) \<leftarrow> ssl_shutdown OS K U (ss_ssl ss) st;
     if ret = 1 then us_internal_ssl_socket_close OS U s 0 NULL st
     else if ret < 0 then do {
       ss \<leftarrow> rd_ssl s st;
       Some (s, clear_error_queue (o_get_error OS st (ss_ssl ss) ret) st)
     } else Some (s, st)
   }"

text \<open>Calling the user's data handler of the socket's context of the moment.\<close>

definition emit_data :: "handlers \<Rightarrow> addr \<Rightarrow> byte list \<Rightarrow> us \<Rightarrow> (addr \<times> us) option" where
  "emit_data U s out st = do {
     context \<leftarrow> us_socket_context s st;
     c \<leftarrow> rd_sslctx context st;
     user_data U (sc_on_data c) s out st
   }"

text \<open>
  The loop around \<open>SSL_read\<close>: \<open>read\<close> bytes are in the output buffer, \<open>out\<close> is what they are. The
  flag of the result is false when \<open>ssl_on_data\<close> returns from inside the loop.
\<close>

partial_function (option) ssl_read_loop ::
  "openssl \<Rightarrow> kernel \<Rightarrow> handlers \<Rightarrow> addr \<Rightarrow> int \<Rightarrow> byte list \<Rightarrow> us \<Rightarrow> (bool \<times> addr \<times> us) option" where
  "ssl_read_loop OS K U s read out st = do {
     ss \<leftarrow> rd_ssl s st;
     ((just_read, bytes), st) \<leftarrow> ssl_read OS K U (ss_ssl ss) (LIBUS_RECV_BUFFER_LENGTH - read) st;
     if just_read \<le> 0 then do {
       ss \<leftarrow> rd_ssl s st;
       let err = o_get_error OS st (ss_ssl ss) just_read;
       if err \<noteq> SSL_ERROR_WANT_READ \<and> err \<noteq> SSL_ERROR_WANT_WRITE then do {
         (s, st) \<leftarrow> us_internal_ssl_socket_close OS U s 0 NULL (clear_error_queue err st);
         Some (False, s, st)
       } else do {
         st \<leftarrow> (if err = SSL_ERROR_WANT_WRITE then wr_ssl s (\<lambda>x. x\<lparr>ss_read_wants_write := True\<rparr>) st else Some st);
         d \<leftarrow> l_ssl_data st;
         if sl_read_input_length d \<noteq> 0 then do {
           (s, st) \<leftarrow> us_internal_ssl_socket_close OS U s 0 NULL st;
           Some (False, s, st)
         } else if read = 0 then Some (True, s, st)
         else do {
           (s, st) \<leftarrow> emit_data U s out st;
           closed \<leftarrow> us_socket_is_closed s st;
           Some (\<not> closed, s, st)
         }
       }
     } else if read + just_read = LIBUS_RECV_BUFFER_LENGTH then do {
       (s, st) \<leftarrow> emit_data U s (out @ bytes) st;
       closed \<leftarrow> us_socket_is_closed s st;
       if closed then Some (False, s, st) else ssl_read_loop OS K U s 0 [] st
     } else ssl_read_loop OS K U s (read + just_read) (out @ bytes) st
   }"

text \<open>
  \<open>ssl_on_data\<close> (an event with data) and \<open>ssl_on_writable\<close> (without) call each other through the
  handlers of the plain context, so they are one recursive function.
\<close>

definition start_read :: "byte list \<Rightarrow> addr \<Rightarrow> us \<Rightarrow> us option" where
  "start_read data s st = upd_data (\<lambda>d. d\<lparr>sl_read_input := data, sl_read_input_length := length data,
     sl_read_input_offset := 0, sl_ssl_socket := s, sl_msg_more := False\<rparr>) st"

definition plain_sock :: "handlers \<Rightarrow> fnptr \<Rightarrow> addr \<Rightarrow> us \<Rightarrow> (addr \<times> us) option" where
  "plain_sock U f s st = (if f = FnNull then None else h_sock U f s (emit (OnWritable s) st))"

definition plain_data :: "handlers \<Rightarrow> fnptr \<Rightarrow> addr \<Rightarrow> us \<Rightarrow> (addr \<times> us) option" where
  "plain_data U f s st = (if f = FnNull then None else h_data U f s [] (emit (OnData s []) st))"

partial_function (option) ssl_event ::
  "openssl \<Rightarrow> kernel \<Rightarrow> handlers \<Rightarrow> byte list option \<Rightarrow> addr \<Rightarrow> us \<Rightarrow> (addr \<times> us) option" where
  "ssl_event OS K U event s st = (if event \<noteq> None then do {
       context \<leftarrow> us_socket_context s st;
       _ \<leftarrow> rd_ctx context st;
       st \<leftarrow> start_read (the event) s st;
       shut \<leftarrow> us_internal_ssl_socket_is_shut_down OS s st;
       if shut then ssl_on_data_shut_down OS K U s st
       else do {
         (go, s, st) \<leftarrow> ssl_read_loop OS K U s 0 [] st;
         if \<not> go then Some (s, st) else do {
           ss \<leftarrow> rd_ssl s st;
           (go, s, st) \<leftarrow> (if ss_write_wants_read ss then do {
                 st \<leftarrow> wr_ssl s (\<lambda>x. x\<lparr>ss_write_wants_read := False\<rparr>) st;
                 context \<leftarrow> us_socket_context s st;
                 c \<leftarrow> rd_ctx context st;
                 (s, st) \<leftarrow> (if c_on_writable c = FnSslOnWritable then ssl_event OS K U None s (emit (OnWritable s) st)
                   else plain_sock U (c_on_writable c) s st);
                 closed \<leftarrow> us_socket_is_closed s st;
                 Some (\<not> closed, s, st) }
               else Some (True, s, st));
           if \<not> go then Some (s, st) else do {
             ss \<leftarrow> rd_ssl s st;
             if o_get_shutdown OS st (ss_ssl ss) AND SSL_RECEIVED_SHUTDOWN \<noteq> 0
             then us_internal_ssl_socket_close OS U s 0 NULL st
             else Some (s, st)
           }
         }
       }
     } else do {
       context \<leftarrow> us_socket_context s st;
       ss \<leftarrow> rd_ssl s st;
       (s, st) \<leftarrow> (if ss_read_wants_write ss then do {
             st \<leftarrow> wr_ssl s (\<lambda>x. x\<lparr>ss_read_wants_write := False\<rparr>) st;
             c \<leftarrow> rd_ctx context st;
             if c_on_data c = FnSslOnData then ssl_event OS K U (Some []) s (emit (OnData s []) st)
             else plain_data U (c_on_data c) s st }
           else Some (s, st));
       c \<leftarrow> rd_sslctx context st;
       user_writable U (sc_on_writable c) s st
     })"

definition ssl_on_data :: "openssl \<Rightarrow> kernel \<Rightarrow> handlers \<Rightarrow> addr \<Rightarrow> byte list \<Rightarrow> us \<Rightarrow> (addr \<times> us) option" where
  "ssl_on_data OS K U s data st = ssl_event OS K U (Some data) s st"

definition ssl_on_writable :: "openssl \<Rightarrow> kernel \<Rightarrow> handlers \<Rightarrow> addr \<Rightarrow> us \<Rightarrow> (addr \<times> us) option" where
  "ssl_on_writable OS K U s st = ssl_event OS K U None s st"

definition ssl_is_low_prio :: "openssl \<Rightarrow> addr \<Rightarrow> us \<Rightarrow> bool" where
  "ssl_is_low_prio OS s st = o_in_init OS st (ss_ssl (ssl_socks st s))"

text \<open>The handlers the event loop sees: those of the SSL layer in front of the user's.\<close>

definition ssl_handlers :: "openssl \<Rightarrow> kernel \<Rightarrow> handlers \<Rightarrow> handlers" where
  "ssl_handlers OS K U = (ssl_close_handlers OS U)\<lparr>
     h_open := (\<lambda>f s is_client ip st. if f = FnSslOnOpen then ssl_on_open OS U s is_client ip st
       else h_open U f s is_client ip st),
     h_data := (\<lambda>f s data st. if f = FnSslOnData then ssl_on_data OS K U s data st else h_data U f s data st),
     h_sock := (\<lambda>f s st. if f = FnSslOnWritable then ssl_on_writable OS K U s st
       else if f = FnSslOnEnd then ssl_on_end OS U s st else h_sock U f s st),
     h_low_prio := (\<lambda>f s st. if f = FnSslIsLowPrio then ssl_is_low_prio OS s st else h_low_prio U f s st)\<rparr>"

section \<open>Writing and shutting down\<close>

definition us_internal_ssl_socket_write ::
  "openssl \<Rightarrow> kernel \<Rightarrow> handlers \<Rightarrow> addr \<Rightarrow> byte list \<Rightarrow> bool \<Rightarrow> us \<Rightarrow> (int \<times> us) option" where
  "us_internal_ssl_socket_write OS K U s data msg_more st = do {
     closed \<leftarrow> us_socket_is_closed s st;
     shut \<leftarrow> (if closed then Some True else us_internal_ssl_socket_is_shut_down OS s st);
     if closed \<or> shut then Some (0, st) else do {
       context \<leftarrow> us_socket_context s st;
       _ \<leftarrow> rd_ctx context st;
       st \<leftarrow> upd_data (\<lambda>d. d\<lparr>sl_read_input_length := 0, sl_ssl_socket := s, sl_msg_more := msg_more,
           sl_last_write_was_msg_more := False\<rparr>) st;
       ss \<leftarrow> rd_ssl s st;
       (written, st) \<leftarrow> ssl_write OS K U (ss_ssl ss) data st;
       st \<leftarrow> upd_data (\<lambda>d. d\<lparr>sl_msg_more := False\<rparr>) st;
       d \<leftarrow> l_ssl_data st;
       st \<leftarrow> (if sl_last_write_was_msg_more d \<and> \<not> msg_more then us_socket_flush s st else Some st);
       if written > 0 then Some (written, st) else do {
         ss \<leftarrow> rd_ssl s st;
         let err = o_get_error OS st (ss_ssl ss) written;
         if err = SSL_ERROR_WANT_READ then do {
           st \<leftarrow> wr_ssl s (\<lambda>x. x\<lparr>ss_write_wants_read := True\<rparr>) st;
           Some (0, st)
         } else Some (0, clear_error_queue err st)
       }
     }
   }"

definition us_internal_ssl_socket_shutdown :: "openssl \<Rightarrow> kernel \<Rightarrow> handlers \<Rightarrow> addr \<Rightarrow> us \<Rightarrow> us option" where
  "us_internal_ssl_socket_shutdown OS K U s st = do {
     closed \<leftarrow> us_socket_is_closed s st;
     shut \<leftarrow> (if closed then Some True else us_internal_ssl_socket_is_shut_down OS s st);
     if closed \<or> shut then Some st else do {
       context \<leftarrow> us_socket_context s st;
       _ \<leftarrow> rd_ctx context st;
       st \<leftarrow> upd_data (\<lambda>d. d\<lparr>sl_read_input_length := 0, sl_ssl_socket := s, sl_msg_more := False\<rparr>) st;
       ss \<leftarrow> rd_ssl s st;
       (ret, st) \<leftarrow> ssl_shutdown OS K U (ss_ssl ss) st;
       (ret, st) \<leftarrow> (if ret = 0 then do { ss \<leftarrow> rd_ssl s st; ssl_shutdown OS K U (ss_ssl ss) st } else Some (ret, st));
       if ret < 0 then do {
         ss \<leftarrow> rd_ssl s st;
         us_socket_shutdown s (clear_error_queue (o_get_error OS st (ss_ssl ss) ret) st)
       } else Some st
     }
   }"

definition us_internal_ssl_socket_get_native_handle :: "addr \<Rightarrow> us \<Rightarrow> addr option" where
  "us_internal_ssl_socket_get_native_handle s st = map_option ss_ssl (rd_ssl s st)"


section \<open>Reading through the BIO\<close>

text \<open>A number of reads, one after the other, and the bytes they gave.\<close>

fun bio_reads :: "nat list \<Rightarrow> us \<Rightarrow> (byte list \<times> us) option" where
  "bio_reads [] st = Some ([], st)"
| "bio_reads (n # ns) st = do {
     (r, dst, st) \<leftarrow> BIO_s_custom_read n st;
     (rest, st) \<leftarrow> bio_reads ns st;
     Some (dst @ rest, st)
   }"

text \<open>The input window is inside the received data.\<close>

definition window_ok :: "us \<Rightarrow> bool" where
  "window_ok st \<longleftrightarrow> (\<exists>d. l_ssl_data st = Some d \<and>
     sl_read_input_offset d + sl_read_input_length d \<le> length (sl_read_input d))"

definition pending_input :: "us \<Rightarrow> byte list" where
  "pending_input st = (case l_ssl_data st of None \<Rightarrow> []
     | Some d \<Rightarrow> take (sl_read_input_length d) (drop (sl_read_input_offset d) (sl_read_input d)))"

text \<open>Nothing but the data of the SSL layer differs.\<close>

definition data_frame :: "us \<Rightarrow> us \<Rightarrow> bool" where
  "data_frame st st' \<longleftrightarrow> (\<exists>d. st' = st\<lparr>l_ssl_data := d\<rparr>)"

lemma data_frame_refl: "data_frame st st"
  unfolding data_frame_def by (rule exI [of _ "l_ssl_data st"], rule us.equality) simp_all

lemma data_frame_upd: "data_frame st (st\<lparr>l_ssl_data := d\<rparr>)"
  unfolding data_frame_def by blast

lemma data_frame_trans: "data_frame st st1 \<Longrightarrow> data_frame st1 st2 \<Longrightarrow> data_frame st st2"
proof -
  assume "data_frame st st1" "data_frame st1 st2"
  then obtain d e where "st1 = st\<lparr>l_ssl_data := d\<rparr>" "st2 = st1\<lparr>l_ssl_data := e\<rparr>"
    unfolding data_frame_def by blast
  then have "st2 = st\<lparr>l_ssl_data := e\<rparr>" by simp
  then show "data_frame st st2" unfolding data_frame_def by blast
qed

lemma bio_read_none:
  assumes "l_ssl_data st = Some d" and "sl_read_input_length d = 0"
  shows "BIO_s_custom_read n st = Some (-1, [], st)" and "pending_input st = []"
  using assms by (simp_all add: BIO_s_custom_read_def pending_input_def)

lemma bio_read_some:
  fixes n :: nat
  assumes d: "l_ssl_data st = Some d" and pos: "sl_read_input_length d \<noteq> 0"
  defines "m \<equiv> min n (sl_read_input_length d)"
  shows "BIO_s_custom_read n st = Some (int m, take n (pending_input st),
    st\<lparr>l_ssl_data := Some (d\<lparr>sl_read_input_offset := sl_read_input_offset d + m,
      sl_read_input_length := sl_read_input_length d - m\<rparr>)\<rparr>)"
proof -
  have m: "(if n > sl_read_input_length d then sl_read_input_length d else n) = m" by (simp add: m_def)
  show ?thesis unfolding BIO_s_custom_read_def d bind.simps Let_def m using pos
    by (simp add: upd_data_def d pending_input_def m_def)
qed

lemma bio_read_ok:
  assumes w: "window_ok st"
  shows "\<exists>r st'. BIO_s_custom_read n st = Some (r, take n (pending_input st), st') \<and> window_ok st' \<and>
    pending_input st' = drop n (pending_input st) \<and> data_frame st st'"
proof -
  from w obtain d where d: "l_ssl_data st = Some d"
    "sl_read_input_offset d + sl_read_input_length d \<le> length (sl_read_input d)"
    unfolding window_ok_def by blast
  show ?thesis
  proof (cases "sl_read_input_length d = 0")
    case True
    have "take n (pending_input st) = []" "drop n (pending_input st) = pending_input st"
      using bio_read_none(2) [OF d(1) True] by simp_all
    then show ?thesis using bio_read_none(1) [OF d(1) True] w data_frame_refl by metis
  next
    case False
    let ?m = "min n (sl_read_input_length d)"
    let ?d = "d\<lparr>sl_read_input_offset := sl_read_input_offset d + ?m, sl_read_input_length := sl_read_input_length d - ?m\<rparr>"
    have "pending_input (st\<lparr>l_ssl_data := Some ?d\<rparr>) = drop n (pending_input st)"
      by (simp add: pending_input_def d(1) drop_take add.commute min_def)
    moreover have "window_ok (st\<lparr>l_ssl_data := Some ?d\<rparr>)" using d(2) by (simp add: window_ok_def min_def)
    ultimately show ?thesis using bio_read_some [OF d(1) False, of n] data_frame_upd by blast
  qed
qed

text \<open>
  However OpenSSL cuts its reads, the BIO hands it exactly the bytes that were received, in
  order and without a byte twice or past the end: a sequence of reads gives the first bytes of
  the pending input, as many as the reads asked for, and leaves the rest pending.
\<close>

theorem bio_reads_stream:
  assumes "window_ok st"
  shows "\<exists>st'. bio_reads ns st = Some (take (sum_list ns) (pending_input st), st') \<and> window_ok st' \<and>
    pending_input st' = drop (sum_list ns) (pending_input st) \<and> data_frame st st'"
  using assms
proof (induction ns arbitrary: st)
  case Nil
  then show ?case using data_frame_refl by simp
next
  case (Cons n ns)
  from bio_read_ok [OF Cons.prems, of n] obtain r st1 where
    1: "BIO_s_custom_read n st = Some (r, take n (pending_input st), st1)" "window_ok st1"
    "pending_input st1 = drop n (pending_input st)" "data_frame st st1" by blast
  from Cons.IH [OF 1(2)] obtain st2 where
    2: "bio_reads ns st1 = Some (take (sum_list ns) (pending_input st1), st2)" "window_ok st2"
    "pending_input st2 = drop (sum_list ns) (pending_input st1)" "data_frame st1 st2" by blast
  have "bio_reads (n # ns) st = Some (take (sum_list (n # ns)) (pending_input st), st2)"
    using 1(1,3) 2(1) by (simp add: take_add)
  moreover have "pending_input st2 = drop (sum_list (n # ns)) (pending_input st)"
    using 1(3) 2(3) by (simp add: add.commute)
  ultimately show ?case using 2(2) data_frame_trans [OF 1(4) 2(4)] by blast
qed

text \<open>The data of a loop, for the examples.\<close>

definition ssl_data3 :: loop_ssl_data where
  "ssl_data3 = \<lparr>sl_read_input = [1, 2, 3, 4, 5], sl_read_input_length = 5, sl_read_input_offset = 0,
     sl_ssl_socket = 21, sl_last_write_was_msg_more = False, sl_msg_more = False, sl_shared_rbio = 1,
     sl_shared_wbio = 2, sl_shared_biom = 3\<rparr>"

theorem bio_reads_stream_witness:
  "\<exists>st'. bio_reads [2, 1, 4] (demo\<lparr>l_ssl_data := Some ssl_data3\<rparr>) = Some ([1, 2, 3, 4, 5], st') \<and> pending_input st' = []"
proof -
  let ?st = "demo\<lparr>l_ssl_data := Some ssl_data3\<rparr>"
  have w: "window_ok ?st" by (simp add: window_ok_def ssl_data3_def)
  have p: "pending_input ?st = [1, 2, 3, 4, 5]" by (simp add: pending_input_def ssl_data3_def)
  show ?thesis using bio_reads_stream [OF w, of "[2, 1, 4]"] unfolding p by auto
qed

text \<open>Starting to read makes all of the data received pending.\<close>

lemma start_read_pending:
  "start_read data s st = Some st' \<Longrightarrow> window_ok st' \<and> pending_input st' = data"
  by (auto simp: start_read_def upd_data_def window_ok_def pending_input_def)


section \<open>Calls of OpenSSL that return\<close>

text \<open>
  A tree that asks for server names of these contexts only, and a property of all the results a
  tree can return.
\<close>

primrec bio_names :: "(addr \<Rightarrow> bool) \<Rightarrow> 'r bio \<Rightarrow> bool" where
  "bio_names C (BioRet r) = True"
| "bio_names C (BioRead n k) = (\<forall>x. bio_names C (k x))"
| "bio_names C (BioWrite data k) = (\<forall>x. bio_names C (k x))"
| "bio_names C (BioServername arg k) = (C arg \<and> (\<forall>x. bio_names C (k x)))"

primrec bio_all :: "('r \<Rightarrow> bool) \<Rightarrow> 'r bio \<Rightarrow> bool" where
  "bio_all P (BioRet r) = P r"
| "bio_all P (BioRead n k) = (\<forall>x. bio_all P (k x))"
| "bio_all P (BioWrite data k) = (\<forall>x. bio_all P (k x))"
| "bio_all P (BioServername arg k) = (\<forall>x. bio_all P (k x))"

text \<open>The data handed to the user and the data read, as the trace tells.\<close>

definition user_datas :: "sys list \<Rightarrow> byte list list" where
  "user_datas tr = concat (map (\<lambda>e. case e of Ssl (UserData s d) \<Rightarrow> [d] | _ \<Rightarrow> []) tr)"

definition bytes_read :: "sys list \<Rightarrow> byte list" where
  "bytes_read tr = concat (map (\<lambda>e. case e of Ssl (SSL_read_ret r bs) \<Rightarrow> if r > 0 then bs else [] | _ \<Rightarrow> []) tr)"

definition ssl_reads :: "sys list \<Rightarrow> nat" where
  "ssl_reads tr = length (filter (\<lambda>e. case e of Ssl (SSL_read ssl n) \<Rightarrow> True | _ \<Rightarrow> False) tr)"

lemma trace_views_append [simp]:
  "user_datas (xs @ ys) = user_datas xs @ user_datas ys" "bytes_read (xs @ ys) = bytes_read xs @ bytes_read ys"
  "ssl_reads (xs @ ys) = ssl_reads xs + ssl_reads ys"
  by (simp_all add: user_datas_def bytes_read_def ssl_reads_def)

lemma trace_views_Nil [simp]: "user_datas [] = []" "bytes_read [] = []" "ssl_reads [] = 0"
  by (simp_all add: user_datas_def bytes_read_def ssl_reads_def)

definition no_view :: "sys \<Rightarrow> bool" where
  "no_view e \<longleftrightarrow> user_datas [e] = [] \<and> bytes_read [e] = [] \<and> ssl_reads [e] = 0"

text \<open>Nothing of this happens between two states.\<close>

definition same_views :: "us \<Rightarrow> us \<Rightarrow> bool" where
  "same_views st st' \<longleftrightarrow> (\<exists>tr. trace st' = trace st @ tr \<and> user_datas tr = [] \<and> bytes_read tr = [] \<and> ssl_reads tr = 0)"

lemma same_views_refl [simp]: "same_views st st"
  by (auto simp: same_views_def intro: exI [of _ "[]"])

lemma same_views_trans: "same_views st st1 \<Longrightarrow> same_views st1 st2 \<Longrightarrow> same_views st st2"
  unfolding same_views_def by (elim exE conjE) (rule exI, auto)

lemma same_views_emit: "no_view e \<Longrightarrow> same_views st (emit e st)"
  unfolding same_views_def by (rule exI [of _ "[e]"]) (simp add: no_view_def)

lemma poll_change_frame:
  assumes "us_poll_change p ev st = Some st'"
  shows "l_ssl_data st' = l_ssl_data st" "same_views st st'" "ssl_ctxs st' = ssl_ctxs st" "ssl_socks st' = ssl_socks st"
  using assms
  by (auto simp: us_poll_change_def wr_poll_def same_views_def user_datas_def bytes_read_def ssl_reads_def emit_def
      elim!: bind_eq_SomeE split: if_splits)

lemma write_frame:
  assumes "us_socket_write K s data msg_more st = Some (r, st')"
  shows "l_ssl_data st' = l_ssl_data st" "same_views st st'" "ssl_ctxs st' = ssl_ctxs st" "ssl_socks st' = ssl_socks st"
proof -
  have v: "same_views x (emit (Send fd data msg_more) x)" for fd x
    by (rule same_views_emit) (simp add: no_view_def user_datas_def bytes_read_def ssl_reads_def)
  have fr: "l_ssl_data y = l_ssl_data x \<and> ssl_ctxs y = ssl_ctxs x \<and> ssl_socks y = ssl_socks x"
    if "us_poll_change s ev x = Some y" for ev x y
    using poll_change_frame(1,3,4) [OF that] by simp
  show "l_ssl_data st' = l_ssl_data st" "ssl_ctxs st' = ssl_ctxs st" "ssl_socks st' = ssl_socks st"
    using assms by (auto simp: us_socket_write_def Let_def elim!: bind_eq_SomeE split: if_splits
        dest!: fr)
  have w: "same_views x y" if "us_poll_change s ev ((emit (Send fd data msg_more) x)\<lparr>l_last_write_failed := True\<rparr>) = Some y"
    for x y ev fd
    using poll_change_frame(2) [OF that] v [of x fd] same_views_trans [of x "emit (Send fd data msg_more) x" y]
    by (simp add: same_views_def)
  show "same_views st st'"
    using assms v w by (auto simp: us_socket_write_def Let_def elim!: bind_eq_SomeE split: if_splits)
qed

end
