(* ===== verification/Us_Ssl_Context.thy ===== *)
theory Us_Ssl_Context
  imports Us_Ssl
begin

unbundle bit_operations_syntax

text \<open>
  The SSL contexts of \<open>src/crypto/openssl.c\<close>: creating an \<open>SSL_CTX\<close> from options with all its
  failure paths, the server names of a context, and the SSL side of every operation of a
  context. Objects of OpenSSL are made and freed by calls on the trace, so what is owned, and by
  whom, is read off the trace.
\<close>

record us_socket_context_options_t =
  key_file_name :: "string option"
  cert_file_name :: "string option"
  passphrase :: "string option"
  dh_params_file_name :: "string option"
  ca_file_name :: "string option"
  ssl_ciphers :: "string option"
  ssl_prefer_low_memory_usage :: bool

section \<open>The shared data of the loop\<close>

definition us_internal_init_loop_ssl_data :: "openssl \<Rightarrow> us \<Rightarrow> us" where
  "us_internal_init_loop_ssl_data OS st = (case l_ssl_data st of Some d \<Rightarrow> st
     | None \<Rightarrow>
       let st = emit (Ssl OPENSSL_init) st;
           biom = o_addr OS ''BIO_meth_new'' st; st = emit (Ssl (BIO_meth_new biom)) st;
           rbio = o_addr OS ''BIO_new'' st; st = emit (Ssl (BIO_new biom rbio)) st;
           wbio = o_addr OS ''BIO_new'' st; st = emit (Ssl (BIO_new biom wbio)) st
       in st\<lparr>l_ssl_data := Some \<lparr>sl_read_input = [], sl_read_input_length = 0, sl_read_input_offset = 0,
         sl_ssl_socket = NULL, sl_last_write_was_msg_more = False, sl_msg_more = False,
         sl_shared_rbio = rbio, sl_shared_wbio = wbio, sl_shared_biom = biom\<rparr>\<rparr>)"

section \<open>Creating and freeing an SSL\_CTX\<close>

definition free_ssl_context :: "openssl \<Rightarrow> addr \<Rightarrow> us \<Rightarrow> us" where
  "free_ssl_context OS ssl_context st =
     (if ssl_context = NULL then st
      else let password = o_passwd_userdata OS st ssl_context
        in emit (Ssl (SSL_CTX_free ssl_context)) (emit (Ssl (Free password)) st))"

text \<open>A call that configures the context from a string, and whether it returned 1.\<close>

definition ctx_file :: "openssl \<Rightarrow> addr \<Rightarrow> string \<Rightarrow> string \<Rightarrow> us \<Rightarrow> bool \<times> us" where
  "ctx_file OS ctx f file st = (let st = emit (Ssl (CtxFile ctx f file)) st in (o_int OS f st = 1, st))"

text \<open>
  The steps of \<open>create_ssl_context_from_options\<close>: each is done only if its option is set, and
  says whether it worked.
\<close>

definition set_cert :: "openssl \<Rightarrow> addr \<Rightarrow> us_socket_context_options_t \<Rightarrow> us \<Rightarrow> bool \<times> us" where
  "set_cert OS ctx options st = (case cert_file_name options of None \<Rightarrow> (True, st)
     | Some f \<Rightarrow> ctx_file OS ctx ''SSL_CTX_use_certificate_chain_file'' f st)"

definition set_key :: "openssl \<Rightarrow> addr \<Rightarrow> us_socket_context_options_t \<Rightarrow> us \<Rightarrow> bool \<times> us" where
  "set_key OS ctx options st = (case key_file_name options of None \<Rightarrow> (True, st)
     | Some f \<Rightarrow> ctx_file OS ctx ''SSL_CTX_use_PrivateKey_file'' f st)"

definition set_ca :: "openssl \<Rightarrow> addr \<Rightarrow> us_socket_context_options_t \<Rightarrow> us \<Rightarrow> bool \<times> us" where
  "set_ca OS ctx options st = (case ca_file_name options of None \<Rightarrow> (True, st)
     | Some f \<Rightarrow>
       let ca_list = o_addr OS ''SSL_load_client_CA_file'' st;
           st = emit (Ssl (Load_client_CA f ca_list)) st
       in if ca_list = NULL then (False, st) else
       let st = emit (Ssl (Set_client_CA_list ctx ca_list)) st;
           (ok, st) = ctx_file OS ctx ''SSL_CTX_load_verify_locations'' f st
       in if \<not> ok then (False, st) else (True, emit (Ssl (CtxOption ctx ''SSL_VERIFY_PEER'')) st))"

definition dh_ciphers :: string where
  "dh_ciphers = ''DHE-RSA-AES256-GCM-SHA384:DHE-RSA-AES128-GCM-SHA256:ECDHE-RSA-AES256-GCM-SHA384:ECDHE-RSA-AES128-GCM-SHA256''"

definition set_dh :: "openssl \<Rightarrow> addr \<Rightarrow> us_socket_context_options_t \<Rightarrow> us \<Rightarrow> bool \<times> us" where
  "set_dh OS ctx options st = (case dh_params_file_name options of None \<Rightarrow> (True, st)
     | Some f \<Rightarrow>
       let paramfile = o_addr OS ''fopen'' st; st = emit (Ssl (Fopen f paramfile)) st
       in if paramfile = NULL then (False, st) else
       let dh_2048 = o_addr OS ''PEM_read_DHparams'' st;
           st = emit (Ssl (PEM_read_DHparams paramfile dh_2048)) st;
           st = emit (Ssl (Fclose paramfile)) st
       in if dh_2048 = NULL then (False, st) else
       let st = emit (Ssl (Set_tmp_dh ctx dh_2048)) st;
           set_tmp_dh = o_int OS ''SSL_CTX_set_tmp_dh'' st;
           st = emit (Ssl (DH_free dh_2048)) st
       in if set_tmp_dh \<noteq> 1 then (False, st)
       else ctx_file OS ctx ''SSL_CTX_set_cipher_list'' dh_ciphers st)"

definition set_ciphers :: "openssl \<Rightarrow> addr \<Rightarrow> us_socket_context_options_t \<Rightarrow> us \<Rightarrow> bool \<times> us" where
  "set_ciphers OS ctx options st = (case ssl_ciphers options of None \<Rightarrow> (True, st)
     | Some c \<Rightarrow> ctx_file OS ctx ''SSL_CTX_set_cipher_list'' c st)"

text \<open>Run the steps in order; at the first that fails free the context and give up.\<close>

fun run_steps :: "openssl \<Rightarrow> addr \<Rightarrow> (us \<Rightarrow> bool \<times> us) list \<Rightarrow> us \<Rightarrow> addr \<times> us" where
  "run_steps OS ctx [] st = (ctx, st)"
| "run_steps OS ctx (f # fs) st = (let (ok, st) = f st in
     if ok then run_steps OS ctx fs st else (NULL, free_ssl_context OS ctx st))"

definition set_passphrase :: "openssl \<Rightarrow> addr \<Rightarrow> us_socket_context_options_t \<Rightarrow> us \<Rightarrow> us" where
  "set_passphrase OS ctx options st = (case passphrase options of None \<Rightarrow> st
     | Some p \<Rightarrow>
       let copy = o_addr OS ''strdup'' st; st = emit (Ssl (Strdup p copy)) st;
           st = emit (Ssl (Set_passwd_userdata ctx copy)) st
       in emit (Ssl (CtxOption ctx ''passphrase_cb'')) st)"

definition create_ssl_context_from_options ::
  "openssl \<Rightarrow> us_socket_context_options_t \<Rightarrow> us \<Rightarrow> addr \<times> us" where
  "create_ssl_context_from_options OS options st = (
     let ssl_context = o_addr OS ''SSL_CTX_new'' st;
         st = emit (Ssl (SSL_CTX_new ssl_context)) st;
         st = emit (Ssl (CtxOption ssl_context ''read_ahead'')) st;
         st = emit (Ssl (CtxOption ssl_context ''SSL_MODE_ACCEPT_MOVING_WRITE_BUFFER'')) st;
         st = emit (Ssl (CtxOption ssl_context ''TLS1_2_VERSION'')) st;
         st = (if ssl_prefer_low_memory_usage options
           then emit (Ssl (CtxOption ssl_context ''SSL_MODE_RELEASE_BUFFERS'')) st else st);
         st = set_passphrase OS ssl_context options st
     in run_steps OS ssl_context [set_cert OS ssl_context options, set_key OS ssl_context options,
         set_ca OS ssl_context options, set_dh OS ssl_context options, set_ciphers OS ssl_context options] st)"

section \<open>Server names\<close>

definition us_internal_ssl_socket_context_find_server_name_userdata ::
  "openssl \<Rightarrow> addr \<Rightarrow> string \<Rightarrow> us \<Rightarrow> addr option" where
  "us_internal_ssl_socket_context_find_server_name_userdata OS context hostname_pattern st = do {
     c \<leftarrow> rd_sslctx context st;
     t \<leftarrow> sc_sni c;
     let ssl_context = sni_find t hostname_pattern;
     Some (if ssl_context \<noteq> NULL then o_ex_data OS st ssl_context else NULL)
   }"

definition us_internal_ssl_socket_get_sni_userdata :: "openssl \<Rightarrow> addr \<Rightarrow> us \<Rightarrow> addr option" where
  "us_internal_ssl_socket_get_sni_userdata OS s st = do {
     ss \<leftarrow> rd_ssl s st;
     Some (o_ex_data OS st (o_ssl_ctx OS st (ss_ssl ss)))
   }"

definition us_internal_ssl_socket_context_add_server_name ::
  "openssl \<Rightarrow> addr \<Rightarrow> string \<Rightarrow> us_socket_context_options_t \<Rightarrow> addr \<Rightarrow> us \<Rightarrow> us option" where
  "us_internal_ssl_socket_context_add_server_name OS context hostname_pattern options user st = (
     let (ssl_context, st) = create_ssl_context_from_options OS options st
     in if ssl_context \<noteq> NULL then do {
       let st = emit (Ssl (Set_ex_data ssl_context user)) st;
       c \<leftarrow> rd_sslctx context st;
       t \<leftarrow> sc_sni c;
       let (r, t) = sni_add t hostname_pattern ssl_context;
       st \<leftarrow> wr_sslctx context (\<lambda>c. c\<lparr>sc_sni := Some t\<rparr>) st;
       Some (if r \<noteq> 0 then free_ssl_context OS ssl_context st else st)
     } else Some st)"

definition us_internal_ssl_socket_context_remove_server_name ::
  "openssl \<Rightarrow> addr \<Rightarrow> string \<Rightarrow> us \<Rightarrow> us option" where
  "us_internal_ssl_socket_context_remove_server_name OS context hostname_pattern st = do {
     c \<leftarrow> rd_sslctx context st;
     t \<leftarrow> sc_sni c;
     let (sni_node_ssl_context, t) = sni_remove t hostname_pattern;
     st \<leftarrow> wr_sslctx context (\<lambda>c. c\<lparr>sc_sni := Some t\<rparr>) st;
     Some (free_ssl_context OS sni_node_ssl_context st)
   }"

definition us_internal_ssl_socket_context_on_server_name :: "addr \<Rightarrow> fnptr \<Rightarrow> us \<Rightarrow> us option" where
  "us_internal_ssl_socket_context_on_server_name context cb = wr_sslctx context (\<lambda>c. c\<lparr>sc_on_server_name := cb\<rparr>)"

section \<open>Creating and freeing a context\<close>

definition us_internal_create_ssl_socket_context ::
  "openssl \<Rightarrow> kernel \<Rightarrow> us_socket_context_options_t \<Rightarrow> us \<Rightarrow> (addr \<times> us) option" where
  "us_internal_create_ssl_socket_context OS K options st = (
     let st = us_internal_init_loop_ssl_data OS st;
         (ssl_context, st) = create_ssl_context_from_options OS options st
     in if ssl_context = NULL then Some (NULL, st) else do {
       (context, st) \<leftarrow> us_create_socket_context K st;
       st \<leftarrow> wr_sslctx context (\<lambda>c. c\<lparr>sc_on_server_name := FnNull\<rparr>) st;
       st \<leftarrow> wr_sslctx context (\<lambda>c. c\<lparr>sc_ssl_context := ssl_context, sc_is_parent := True\<rparr>) st;
       st \<leftarrow> wr_ctx context (\<lambda>c. c\<lparr>c_is_low_prio := FnSslIsLowPrio\<rparr>) st;
       let st = emit (Ssl (Set_servername_arg ssl_context context)) st;
       st \<leftarrow> wr_sslctx context (\<lambda>c. c\<lparr>sc_sni := Some sni_new\<rparr>) st;
       Some (context, st)
     })"

text \<open>A child shares the \<open>SSL_CTX\<close> and has no server names; its tree and callback are never set.\<close>

definition us_internal_create_child_ssl_socket_context :: "kernel \<Rightarrow> addr \<Rightarrow> us \<Rightarrow> (addr \<times> us) option" where
  "us_internal_create_child_ssl_socket_context K context st = do {
     c \<leftarrow> rd_sslctx context st;
     (child_context, st) \<leftarrow> us_create_socket_context K st;
     st \<leftarrow> wr_sslctx child_context (\<lambda>x. x\<lparr>sc_sni := None\<rparr>) st;
     st \<leftarrow> wr_sslctx child_context (\<lambda>x. x\<lparr>sc_ssl_context := sc_ssl_context c, sc_is_parent := False\<rparr>) st;
     Some (child_context, st)
   }"

definition sni_hostname_destructor :: "openssl \<Rightarrow> sni_event \<Rightarrow> us \<Rightarrow> us" where
  "sni_hostname_destructor OS e st = (case e of FreeCb user \<Rightarrow> free_ssl_context OS user st | FreeLabel _ \<Rightarrow> st)"

definition us_internal_ssl_socket_context_free :: "openssl \<Rightarrow> addr \<Rightarrow> us \<Rightarrow> us option" where
  "us_internal_ssl_socket_context_free OS context st = do {
     c \<leftarrow> rd_sslctx context st;
     st \<leftarrow> (if sc_is_parent c then do {
           let st = free_ssl_context OS (sc_ssl_context c) st;
           t \<leftarrow> sc_sni c;
           Some (fold (sni_hostname_destructor OS) (sni_free t) st) }
         else Some st);
     us_socket_context_free context st
   }"

definition us_internal_ssl_socket_context_get_native_handle :: "addr \<Rightarrow> us \<Rightarrow> addr option" where
  "us_internal_ssl_socket_context_get_native_handle context st = map_option sc_ssl_context (rd_sslctx context st)"

section \<open>The operations of a context\<close>

text \<open>An SSL socket is 16 bytes longer than a plain one (a pointer and two ints).\<close>

definition ssl_ext :: u32 where "ssl_ext = 16"

definition us_internal_ssl_socket_context_listen ::
  "kernel \<Rightarrow> addr \<Rightarrow> byte list \<Rightarrow> int \<Rightarrow> int \<Rightarrow> u32 \<Rightarrow> us \<Rightarrow> (addr \<times> us) option" where
  "us_internal_ssl_socket_context_listen K context host port options socket_ext_size st =
     us_socket_context_listen K context host port options (ssl_ext + socket_ext_size) st"

definition us_internal_ssl_socket_context_listen_unix ::
  "kernel \<Rightarrow> addr \<Rightarrow> byte list \<Rightarrow> int \<Rightarrow> u32 \<Rightarrow> us \<Rightarrow> (addr \<times> us) option" where
  "us_internal_ssl_socket_context_listen_unix K context path options socket_ext_size st =
     us_socket_context_listen_unix K context path options (ssl_ext + socket_ext_size) st"

definition us_internal_ssl_adopt_accepted_socket ::
  "openssl \<Rightarrow> kernel \<Rightarrow> handlers \<Rightarrow> addr \<Rightarrow> int \<Rightarrow> byte list \<Rightarrow> us \<Rightarrow> (addr \<times> us) option" where
  "us_internal_ssl_adopt_accepted_socket OS K U context accepted_fd addr_ip st =
     us_adopt_accepted_socket K (ssl_handlers OS K U) context accepted_fd addr_ip st"

definition us_internal_ssl_socket_context_connect ::
  "kernel \<Rightarrow> addr \<Rightarrow> byte list \<Rightarrow> int \<Rightarrow> byte list \<Rightarrow> int \<Rightarrow> us \<Rightarrow> (addr \<times> us) option" where
  "us_internal_ssl_socket_context_connect K context host port source_host options st =
     us_socket_context_connect K context host port source_host options st"

definition us_internal_ssl_socket_context_connect_unix ::
  "kernel \<Rightarrow> addr \<Rightarrow> byte list \<Rightarrow> int \<Rightarrow> us \<Rightarrow> (addr \<times> us) option" where
  "us_internal_ssl_socket_context_connect_unix K context server_path options st =
     us_socket_context_connect_unix K context server_path options st"

definition us_internal_ssl_socket_context_adopt_socket ::
  "kernel \<Rightarrow> addr \<Rightarrow> addr \<Rightarrow> us \<Rightarrow> (addr \<times> us) option" where
  "us_internal_ssl_socket_context_adopt_socket K context s st = us_socket_context_adopt_socket K context s st"

definition us_internal_ssl_socket_context_on_open :: "addr \<Rightarrow> fnptr \<Rightarrow> us \<Rightarrow> us option" where
  "us_internal_ssl_socket_context_on_open context on_open st = do {
     st \<leftarrow> us_socket_context_on_open context FnSslOnOpen st;
     wr_sslctx context (\<lambda>c. c\<lparr>sc_on_open := on_open\<rparr>) st
   }"

definition us_internal_ssl_socket_context_on_close :: "addr \<Rightarrow> fnptr \<Rightarrow> us \<Rightarrow> us option" where
  "us_internal_ssl_socket_context_on_close context on_close st = do {
     st \<leftarrow> us_socket_context_on_close context FnSslOnClose st;
     wr_sslctx context (\<lambda>c. c\<lparr>sc_on_close := on_close\<rparr>) st
   }"

definition us_internal_ssl_socket_context_on_data :: "addr \<Rightarrow> fnptr \<Rightarrow> us \<Rightarrow> us option" where
  "us_internal_ssl_socket_context_on_data context on_data st = do {
     st \<leftarrow> us_socket_context_on_data context FnSslOnData st;
     wr_sslctx context (\<lambda>c. c\<lparr>sc_on_data := on_data\<rparr>) st
   }"

definition us_internal_ssl_socket_context_on_writable :: "addr \<Rightarrow> fnptr \<Rightarrow> us \<Rightarrow> us option" where
  "us_internal_ssl_socket_context_on_writable context on_writable st = do {
     st \<leftarrow> us_socket_context_on_writable context FnSslOnWritable st;
     wr_sslctx context (\<lambda>c. c\<lparr>sc_on_writable := on_writable\<rparr>) st
   }"

definition us_internal_ssl_socket_context_on_timeout :: "addr \<Rightarrow> fnptr \<Rightarrow> us \<Rightarrow> us option" where
  "us_internal_ssl_socket_context_on_timeout context on_timeout = us_socket_context_on_timeout context on_timeout"

definition us_internal_ssl_socket_context_on_long_timeout :: "addr \<Rightarrow> fnptr \<Rightarrow> us \<Rightarrow> us option" where
  "us_internal_ssl_socket_context_on_long_timeout context on_long_timeout =
     us_socket_context_on_long_timeout context on_long_timeout"

text \<open>The handler passed for the end of the stream is not used.\<close>

definition us_internal_ssl_socket_context_on_end :: "addr \<Rightarrow> fnptr \<Rightarrow> us \<Rightarrow> us option" where
  "us_internal_ssl_socket_context_on_end context on_end = us_socket_context_on_end context FnSslOnEnd"

definition us_internal_ssl_socket_context_on_connect_error :: "addr \<Rightarrow> fnptr \<Rightarrow> us \<Rightarrow> us option" where
  "us_internal_ssl_socket_context_on_connect_error context on_connect_error =
     us_socket_context_on_connect_error context on_connect_error"


section \<open>What was made and what was freed\<close>

text \<open>
  Read off the trace: the contexts, password copies, files and DH parameters that were made
  (those that are not null) and those that were freed or closed.
\<close>

definition collect :: "(ssl_call \<Rightarrow> addr option) \<Rightarrow> sys list \<Rightarrow> addr multiset" where
  "collect f tr = mset (concat (map (\<lambda>e. case e of
     Ssl c \<Rightarrow> (case f c of None \<Rightarrow> [] | Some a \<Rightarrow> if a \<noteq> NULL then [a] else []) | _ \<Rightarrow> []) tr))"

lemma collect_append [simp]: "collect f (xs @ ys) = collect f xs + collect f ys"
  by (simp add: collect_def)

lemma collect_Nil [simp]: "collect f [] = {#}"
  by (simp add: collect_def)

lemma collect_Cons [simp]: "collect f (Ssl c # xs) = (case f c of None \<Rightarrow> {#} | Some a \<Rightarrow> owned a) + collect f xs"
  by (simp add: collect_def owned_def split: option.split)

lemma collect_Ssl: "collect f [Ssl c] = (case f c of None \<Rightarrow> {#} | Some a \<Rightarrow> owned a)"
  by (simp add: collect_def owned_def split: option.split)

definition ctx_made :: "us \<Rightarrow> addr multiset" where
  "ctx_made st = collect (\<lambda>c. case c of SSL_CTX_new a \<Rightarrow> Some a | _ \<Rightarrow> None) (trace st)"
definition ctx_freed :: "us \<Rightarrow> addr multiset" where
  "ctx_freed st = collect (\<lambda>c. case c of SSL_CTX_free a \<Rightarrow> Some a | _ \<Rightarrow> None) (trace st)"
definition pw_made :: "us \<Rightarrow> addr multiset" where
  "pw_made st = collect (\<lambda>c. case c of Strdup p a \<Rightarrow> Some a | _ \<Rightarrow> None) (trace st)"
definition pw_freed :: "us \<Rightarrow> addr multiset" where
  "pw_freed st = collect (\<lambda>c. case c of Free a \<Rightarrow> Some a | _ \<Rightarrow> None) (trace st)"
definition file_made :: "us \<Rightarrow> addr multiset" where
  "file_made st = collect (\<lambda>c. case c of Fopen p a \<Rightarrow> Some a | _ \<Rightarrow> None) (trace st)"
definition file_freed :: "us \<Rightarrow> addr multiset" where
  "file_freed st = collect (\<lambda>c. case c of Fclose a \<Rightarrow> Some a | _ \<Rightarrow> None) (trace st)"
definition dh_made :: "us \<Rightarrow> addr multiset" where
  "dh_made st = collect (\<lambda>c. case c of PEM_read_DHparams p a \<Rightarrow> Some a | _ \<Rightarrow> None) (trace st)"
definition dh_freed :: "us \<Rightarrow> addr multiset" where
  "dh_freed st = collect (\<lambda>c. case c of DH_free a \<Rightarrow> Some a | _ \<Rightarrow> None) (trace st)"

lemmas ssl_ledger = ctx_made_def ctx_freed_def pw_made_def pw_freed_def file_made_def file_freed_def
  dh_made_def dh_freed_def

text \<open>The password of a context: the last one set since the context was made.\<close>

definition passwd_step :: "addr \<Rightarrow> sys \<Rightarrow> addr \<Rightarrow> addr" where
  "passwd_step c e p = (case e of
     Ssl (SSL_CTX_new a) \<Rightarrow> if a = c then NULL else p
   | Ssl (Set_passwd_userdata a q) \<Rightarrow> if a = c then q else p
   | _ \<Rightarrow> p)"

definition passwd_of :: "addr \<Rightarrow> us \<Rightarrow> addr" where
  "passwd_of c st = fold (passwd_step c) (trace st) NULL"

text \<open>What the code relies on: OpenSSL gives back the userdata that was set last, or null.\<close>

definition passwd_ok :: "openssl \<Rightarrow> bool" where
  "passwd_ok OS \<longleftrightarrow> (\<forall>st c. o_passwd_userdata OS st c = passwd_of c st)"

text \<open>Only the trace grows, and every file and DH parameter opened on the way is closed.\<close>

definition trace_grows :: "us \<Rightarrow> us \<Rightarrow> bool" where
  "trace_grows st st' \<longleftrightarrow> (\<exists>tr. st' = st\<lparr>trace := trace st @ tr\<rparr>)"

lemma trace_grows_refl [simp]: "trace_grows st st"
  unfolding trace_grows_def by (rule exI [of _ "[]"]) simp

lemma trace_grows_emit [simp]: "trace_grows st st' \<Longrightarrow> trace_grows st (emit e st')"
proof -
  assume "trace_grows st st'"
  then obtain tr where "st' = st\<lparr>trace := trace st @ tr\<rparr>" unfolding trace_grows_def by blast
  then have "emit e st' = st\<lparr>trace := trace st @ (tr @ [e])\<rparr>" by (simp add: emit_def)
  then show ?thesis unfolding trace_grows_def by blast
qed

lemma trace_grows_trans: "trace_grows st st1 \<Longrightarrow> trace_grows st1 st2 \<Longrightarrow> trace_grows st st2"
proof -
  assume "trace_grows st st1" "trace_grows st1 st2"
  then obtain t1 t2 where "st1 = st\<lparr>trace := trace st @ t1\<rparr>" "st2 = st1\<lparr>trace := trace st1 @ t2\<rparr>"
    unfolding trace_grows_def by blast
  then have "st2 = st\<lparr>trace := trace st @ (t1 @ t2)\<rparr>" by simp
  then show ?thesis unfolding trace_grows_def by blast
qed

definition ssl_calls :: "us \<Rightarrow> us \<Rightarrow> bool" where
  "ssl_calls st st' \<longleftrightarrow> trace_grows st st' \<and>
     file_made st' + file_freed st = file_made st + file_freed st' \<and>
     dh_made st' + dh_freed st = dh_made st + dh_freed st'"

text \<open>Nor are contexts and passwords made or freed.\<close>

definition ssl_quiet :: "us \<Rightarrow> us \<Rightarrow> bool" where
  "ssl_quiet st st' \<longleftrightarrow> ssl_calls st st' \<and> ctx_made st' = ctx_made st \<and> ctx_freed st' = ctx_freed st \<and>
     pw_made st' = pw_made st \<and> pw_freed st' = pw_freed st \<and> (\<forall>c. passwd_of c st' = passwd_of c st)"

lemma balance_trans:
  fixes m :: "'a multiset"
  assumes "m1 + f = m + f1" and "m2 + f1 = m1 + f2"
  shows "m2 + f = m + f2"
proof -
  have "(m2 + f) + f1 = (m + f2) + f1" using assms by (metis union_assoc union_commute)
  then show ?thesis by (rule add_right_imp_eq)
qed

lemma ssl_calls_refl: "ssl_calls st st"
  by (simp add: ssl_calls_def)

lemma ssl_calls_trans: "ssl_calls st st1 \<Longrightarrow> ssl_calls st1 st2 \<Longrightarrow> ssl_calls st st2"
  unfolding ssl_calls_def using trace_grows_trans balance_trans by blast

lemma ssl_quiet_trans: "ssl_quiet st st1 \<Longrightarrow> ssl_quiet st1 st2 \<Longrightarrow> ssl_quiet st st2"
  unfolding ssl_quiet_def by (auto intro: ssl_calls_trans)

lemma ssl_quiet_refl: "ssl_quiet st st"
  by (simp add: ssl_quiet_def ssl_calls_refl)

text \<open>The ledger after one more call.\<close>

lemma ledger_emit:
  "ctx_made (emit (Ssl c) st) = ctx_made st + (case c of SSL_CTX_new a \<Rightarrow> owned a | _ \<Rightarrow> {#})"
  "ctx_freed (emit (Ssl c) st) = ctx_freed st + (case c of SSL_CTX_free a \<Rightarrow> owned a | _ \<Rightarrow> {#})"
  "pw_made (emit (Ssl c) st) = pw_made st + (case c of Strdup p a \<Rightarrow> owned a | _ \<Rightarrow> {#})"
  "pw_freed (emit (Ssl c) st) = pw_freed st + (case c of Free a \<Rightarrow> owned a | _ \<Rightarrow> {#})"
  "file_made (emit (Ssl c) st) = file_made st + (case c of Fopen p a \<Rightarrow> owned a | _ \<Rightarrow> {#})"
  "file_freed (emit (Ssl c) st) = file_freed st + (case c of Fclose a \<Rightarrow> owned a | _ \<Rightarrow> {#})"
  "dh_made (emit (Ssl c) st) = dh_made st + (case c of PEM_read_DHparams p a \<Rightarrow> owned a | _ \<Rightarrow> {#})"
  "dh_freed (emit (Ssl c) st) = dh_freed st + (case c of DH_free a \<Rightarrow> owned a | _ \<Rightarrow> {#})"
  by (simp_all add: ssl_ledger split: ssl_call.split)

lemma passwd_of_emit: "passwd_of c (emit e st) = passwd_step c e (passwd_of c st)"
  by (simp add: passwd_of_def)

text \<open>Calls that own nothing.\<close>

lemma quiet_emit:
  "ssl_quiet st (emit (Ssl (CtxOption c o1)) st)" "ssl_quiet st (emit (Ssl (CtxFile c o1 o2)) st)"
  "ssl_quiet st (emit (Ssl (Set_client_CA_list c a)) st)" "ssl_quiet st (emit (Ssl (Load_client_CA o1 a)) st)"
  "ssl_quiet st (emit (Ssl (Set_ex_data c a)) st)" "ssl_quiet st (emit (Ssl (Set_servername_arg c a)) st)"
  by (simp_all add: ssl_quiet_def ssl_calls_def ledger_emit passwd_of_emit passwd_step_def)

lemma ctx_file_quiet: "ctx_file OS ctx f file st = (ok, st') \<Longrightarrow> ssl_quiet st st'"
  by (auto simp: ctx_file_def Let_def intro: quiet_emit(2))

lemma dh_quiet:
  "ssl_quiet st (emit (Ssl (Fopen f NULL)) st)"
  "ssl_quiet st (emit (Ssl (Fclose p)) (emit (Ssl (PEM_read_DHparams p NULL)) (emit (Ssl (Fopen f p)) st)))"
  "ssl_quiet st (emit (Ssl (DH_free d)) (emit (Ssl (Set_tmp_dh ctx d)) (emit (Ssl (Fclose p))
     (emit (Ssl (PEM_read_DHparams p d)) (emit (Ssl (Fopen f p)) st)))))"
  by (simp_all add: ssl_quiet_def ssl_calls_def ledger_emit passwd_of_emit passwd_step_def ac_simps)

text \<open>Every step of creating a context is quiet, whether it works or not.\<close>

lemma set_quiet:
  "set_cert OS ctx options st = (ok, st') \<Longrightarrow> ssl_quiet st st'"
  "set_key OS ctx options st = (ok, st') \<Longrightarrow> ssl_quiet st st'"
  "set_ciphers OS ctx options st = (ok, st') \<Longrightarrow> ssl_quiet st st'"
  by (auto simp: set_cert_def set_key_def set_ciphers_def ssl_quiet_refl dest: ctx_file_quiet split: option.splits)

lemmas quiet_after = ssl_quiet_trans [OF quiet_emit(1)] ssl_quiet_trans [OF quiet_emit(2)]
  ssl_quiet_trans [OF quiet_emit(3)] ssl_quiet_trans [OF quiet_emit(4)]

lemma set_ca_quiet: "set_ca OS ctx options st = (ok, st') \<Longrightarrow> ssl_quiet st st'"
  by (auto simp: set_ca_def Let_def ssl_quiet_refl dest!: ctx_file_quiet split: option.splits if_splits prod.splits
      intro: quiet_emit quiet_after ssl_quiet_trans [OF _ quiet_emit(1)])

lemma set_dh_quiet: "set_dh OS ctx options st = (ok, st') \<Longrightarrow> ssl_quiet st st'"
  by (auto simp: set_dh_def Let_def ssl_quiet_refl dest!: ctx_file_quiet split: option.splits if_splits
      intro: dh_quiet ssl_quiet_trans)

lemma run_steps_ok:
  assumes "\<And>f st ok st'. f \<in> set fs \<Longrightarrow> f st = (ok, st') \<Longrightarrow> ssl_quiet st st'"
    and "run_steps OS ctx fs st = (c, st')"
  shows "\<exists>st1. ssl_quiet st st1 \<and> (c = ctx \<and> st' = st1 \<or> c = NULL \<and> st' = free_ssl_context OS ctx st1)"
  using assms
proof (induction fs arbitrary: st)
  case Nil
  then show ?case using ssl_quiet_refl by auto
next
  case (Cons f fs)
  obtain ok st1 where f: "f st = (ok, st1)" by fastforce
  have q: "ssl_quiet st st1" using Cons.prems(1) [of f st ok st1] f by simp
  show ?case
  proof (cases ok)
    case True
    then have "run_steps OS ctx fs st1 = (c, st')" using Cons.prems(2) f by simp
    from Cons.IH [OF _ this] Cons.prems(1) q show ?thesis using ssl_quiet_trans by (meson list.set_intros(2))
  next
    case False
    then show ?thesis using Cons.prems(2) f q by auto
  qed
qed

lemma passphrase_ledger:
  fixes OS :: openssl and options :: us_socket_context_options_t
  assumes "ssl_calls st s3" "ctx_made s3 = ctx_made st + owned ctx" "ctx_freed s3 = ctx_freed st"
    "pw_made s3 = pw_made st" "pw_freed s3 = pw_freed st" "passwd_of ctx s3 = NULL"
  defines "s4 \<equiv> set_passphrase OS ctx options s3"
  shows "ssl_calls st s4" "ctx_made s4 = ctx_made st + owned ctx" "ctx_freed s4 = ctx_freed st"
    "pw_made s4 = pw_made st + owned (passwd_of ctx s4)" "pw_freed s4 = pw_freed st"
  using assms(1-6) unfolding s4_def
  by (simp_all add: set_passphrase_def Let_def ssl_calls_def ledger_emit passwd_of_emit passwd_step_def
      split: option.split)

lemma quiet_facts:
  assumes "ssl_calls st s1" "ctx_made s1 = m" "ctx_freed s1 = f" "pw_made s1 = pm" "pw_freed s1 = pf"
    "passwd_of ctx s1 = p" and "ssl_quiet s1 s3"
  shows "ssl_calls st s3" "ctx_made s3 = m" "ctx_freed s3 = f" "pw_made s3 = pm" "pw_freed s3 = pf"
    "passwd_of ctx s3 = p"
  using assms ssl_calls_trans unfolding ssl_quiet_def by (blast, simp_all)

lemma create_ends:
  assumes pw: "passwd_ok OS" and new: "ctx \<noteq> NULL"
    and 4: "ssl_calls st s4" "ctx_made s4 = ctx_made st + owned ctx" "ctx_freed s4 = ctx_freed st"
      "pw_made s4 = pw_made st + owned (passwd_of ctx s4)" "pw_freed s4 = pw_freed st"
    and 5: "ssl_quiet s4 st5" "c = ctx \<and> st' = st5 \<or> c = NULL \<and> st' = free_ssl_context OS ctx st5"
  shows "ssl_calls st st' \<and>
    ctx_made st' + ctx_freed st = ctx_made st + ctx_freed st' + owned c \<and>
    pw_made st' + pw_freed st = pw_made st + pw_freed st' + (if c = NULL then {#} else owned (passwd_of c st'))"
proof -
  have calls: "ssl_calls st st5" using ssl_calls_trans [OF 4(1)] 5(1) unfolding ssl_quiet_def by blast
  have q5: "ctx_made st5 = ctx_made st + owned ctx" "ctx_freed st5 = ctx_freed st"
    "pw_made st5 = pw_made st + owned (passwd_of ctx st5)" "pw_freed st5 = pw_freed st"
    using 4 5(1) unfolding ssl_quiet_def by simp_all
  from 5(2) show ?thesis
  proof (elim disjE conjE)
    assume c: "c = ctx" "st' = st5"
    then show ?thesis using calls q5 new by simp
  next
    assume c: "c = NULL" "st' = free_ssl_context OS ctx st5"
    then show ?thesis using calls q5 new pw
      by (simp add: free_ssl_context_def ledger_emit Let_def passwd_ok_def ssl_calls_def)
  qed
qed

lemma create_context_ledger:
  assumes pw: "passwd_ok OS" and new: "\<And>st. o_addr OS ''SSL_CTX_new'' st \<noteq> NULL"
    and "create_ssl_context_from_options OS options st = (c, st')"
  shows "ssl_calls st st' \<and>
    ctx_made st' + ctx_freed st = ctx_made st + ctx_freed st' + owned c \<and>
    pw_made st' + pw_freed st = pw_made st + pw_freed st' + (if c = NULL then {#} else owned (passwd_of c st'))"
proof -
  let ?ctx = "o_addr OS ''SSL_CTX_new'' st"
  let ?s1 = "emit (Ssl (SSL_CTX_new ?ctx)) st"
  let ?s2 = "emit (Ssl (CtxOption ?ctx ''TLS1_2_VERSION''))
     (emit (Ssl (CtxOption ?ctx ''SSL_MODE_ACCEPT_MOVING_WRITE_BUFFER''))
       (emit (Ssl (CtxOption ?ctx ''read_ahead'')) ?s1))"
  let ?s3 = "if ssl_prefer_low_memory_usage options
     then emit (Ssl (CtxOption ?ctx ''SSL_MODE_RELEASE_BUFFERS'')) ?s2 else ?s2"
  let ?s4 = "set_passphrase OS ?ctx options ?s3"
  let ?fs = "[set_cert OS ?ctx options, set_key OS ?ctx options, set_ca OS ?ctx options,
     set_dh OS ?ctx options, set_ciphers OS ?ctx options]"
  have q2: "ssl_quiet ?s1 ?s2" by (intro ssl_quiet_trans [OF _ quiet_emit(1)] ssl_quiet_refl)
  have q3: "ssl_quiet ?s1 ?s3"
    by (cases "ssl_prefer_low_memory_usage options")
      (simp_all only: if_True if_False q2 ssl_quiet_trans [OF q2 quiet_emit(1)])
  have run: "run_steps OS ?ctx ?fs ?s4 = (c, st')"
    using assms(3) by (simp only: create_ssl_context_from_options_def Let_def)
  have "\<exists>st5. ssl_quiet ?s4 st5 \<and> (c = ?ctx \<and> st' = st5 \<or> c = NULL \<and> st' = free_ssl_context OS ?ctx st5)"
    by (rule run_steps_ok [OF _ run]) (use set_quiet set_ca_quiet set_dh_quiet in auto)
  then obtain st5 where 5: "ssl_quiet ?s4 st5" "c = ?ctx \<and> st' = st5 \<or> c = NULL \<and> st' = free_ssl_context OS ?ctx st5"
    by blast
  have 1: "ssl_calls st ?s1" "ctx_made ?s1 = ctx_made st + owned ?ctx" "ctx_freed ?s1 = ctx_freed st"
    "pw_made ?s1 = pw_made st" "pw_freed ?s1 = pw_freed st" "passwd_of ?ctx ?s1 = NULL"
    by (simp_all add: ssl_calls_def ledger_emit passwd_of_emit passwd_step_def)
  note 3 = quiet_facts [OF 1 q3]
  have 4: "ssl_calls st ?s4" "ctx_made ?s4 = ctx_made st + owned ?ctx" "ctx_freed ?s4 = ctx_freed st"
    "pw_made ?s4 = pw_made st + owned (passwd_of ?ctx ?s4)" "pw_freed ?s4 = pw_freed st"
    by (rule passphrase_ledger [OF 3])+
  show ?thesis by (rule create_ends [OF pw new 4 5])
qed

text \<open>
  C19. Creating an \<open>SSL_CTX\<close> from options leaks nothing, whichever of its steps fails: either the
  context is returned and is the only thing left over, with the copy of its passphrase if there
  is one, or null is returned and the context and the copy are freed, once each. Every file and
  every DH parameter opened on the way is closed, and nothing but the trace changes.
\<close>

theorem create_ssl_context_no_leak:
  assumes pw: "passwd_ok OS" and new: "\<And>st. o_addr OS ''SSL_CTX_new'' st \<noteq> NULL"
    and "create_ssl_context_from_options OS options st = (c, st')"
  shows "ssl_calls st st' \<and>
    ctx_made st' + ctx_freed st = ctx_made st + ctx_freed st' + owned c \<and>
    pw_made st' + pw_freed st = pw_made st + pw_freed st' + (if c = NULL then {#} else owned (passwd_of c st'))"
  using assms by (rule create_context_ledger)

section \<open>The life of a context\<close>

text \<open>
  The \<open>SSL_CTX\<close>s a parent context is responsible for: its own and those of its server names. The
  names are added and removed in any order; two names may not be the same.
\<close>

definition ctx_owned :: "addr \<Rightarrow> us \<Rightarrow> addr multiset" where
  "ctx_owned c st = owned (sc_ssl_context (ssl_ctxs st c)) +
     (case sc_sni (ssl_ctxs st c) of None \<Rightarrow> {#} | Some t \<Rightarrow> all_users t)"

datatype name_op = AddName string us_socket_context_options_t addr | RemoveName string

definition name_step :: "openssl \<Rightarrow> addr \<Rightarrow> name_op \<Rightarrow> us \<Rightarrow> us option" where
  "name_step OS c e st = (case e of
     AddName h options user \<Rightarrow> us_internal_ssl_socket_context_add_server_name OS c h options user st
   | RemoveName h \<Rightarrow> us_internal_ssl_socket_context_remove_server_name OS c h st)"

fun name_steps :: "openssl \<Rightarrow> addr \<Rightarrow> name_op list \<Rightarrow> us \<Rightarrow> us option" where
  "name_steps OS c [] st = Some st"
| "name_steps OS c (e # es) st = do { st \<leftarrow> name_step OS c e st; name_steps OS c es st }"

text \<open>
  The balance: everything made has been freed, but for \<open>R\<close>, what belongs to others, and what the
  context owns. The tree is well formed and, as no name is empty, has no user at its root.
\<close>

definition balanced :: "addr \<Rightarrow> addr multiset \<Rightarrow> us \<Rightarrow> bool" where
  "balanced c R st \<longleftrightarrow> ctx_made st = ctx_freed st + R + ctx_owned c st \<and> is_ctx st c \<and>
     sc_is_parent (ssl_ctxs st c) \<and>
     (\<exists>t. sc_sni (ssl_ctxs st c) = Some t \<and> wf_node t \<and> node_user t = NULL)"

lemma free_ssl_context_ledger:
  "ctx_made (free_ssl_context OS a st) = ctx_made st"
  "ctx_freed (free_ssl_context OS a st) = ctx_freed st + owned a"
  "trace_grows st (free_ssl_context OS a st)"
  by (simp_all add: free_ssl_context_def Let_def ledger_emit)

lemma trace_growsD:
  assumes "trace_grows st st'"
  shows "ssl_ctxs st' = ssl_ctxs st" "is_ctx st' = is_ctx st" "objs st' = objs st" "ctxs st' = ctxs st"
    "socks st' = socks st" "us_inv A st' = us_inv A st"
  using assms by (auto simp: trace_grows_def is_ctx_def fun_eq_iff)

lemma ledger_sslctx [simp]:
  "ctx_made (st\<lparr>ssl_ctxs := x\<rparr>) = ctx_made st" "ctx_freed (st\<lparr>ssl_ctxs := x\<rparr>) = ctx_freed st"
  by (simp_all add: ssl_ledger)

lemma balanced_trace:
  assumes "balanced c R st" and "trace_grows st st'" and "ctx_made st' + ctx_freed st = ctx_made st + ctx_freed st'"
  shows "balanced c R st'"
proof -
  have "ctx_made st' + ctx_freed st = (ctx_freed st' + R + ctx_owned c st) + ctx_freed st"
    using assms(1,3) by (simp add: balanced_def ac_simps)
  then have "ctx_made st' = ctx_freed st' + R + ctx_owned c st" by (rule add_right_imp_eq)
  then show ?thesis using assms(1) trace_growsD [OF assms(2)] by (simp add: balanced_def ctx_owned_def)
qed

lemma add_name_balanced:
  assumes pw: "passwd_ok OS" and new: "\<And>st. o_addr OS ''SSL_CTX_new'' st \<noteq> NULL"
    and b: "balanced c R st" and h: "labels h \<noteq> []"
  shows "\<exists>st'. us_internal_ssl_socket_context_add_server_name OS c h options user st = Some st' \<and>
    balanced c R st' \<and> socks st' = socks st \<and> (\<forall>A. us_inv A st' = us_inv A st)"
proof -
  obtain a s1 where 1: "create_ssl_context_from_options OS options st = (a, s1)" by fastforce
  note L = create_context_ledger [OF pw new 1]
  have g1: "trace_grows st s1" and m1: "ctx_made s1 + ctx_freed st = ctx_made st + ctx_freed s1 + owned a"
    using L by (simp_all add: ssl_calls_def)
  note same = trace_growsD [OF g1]
  show ?thesis
  proof (cases "a = NULL")
    case True
    then show ?thesis using 1 balanced_trace [OF b g1] m1 same
      by (simp add: us_internal_ssl_socket_context_add_server_name_def)
  next
    case False
    from b obtain t where t: "sc_sni (ssl_ctxs st c) = Some t" "wf_node t" "node_user t = NULL" "is_ctx st c"
      "ctx_made st = ctx_freed st + R + (owned (sc_ssl_context (ssl_ctxs st c)) + all_users t)"
      "sc_is_parent (ssl_ctxs st c)"
      by (auto simp: balanced_def ctx_owned_def)
    obtain r t' where r: "sni_add t h a = (r, t')" by fastforce
    let ?s2 = "emit (Ssl (Set_ex_data a user)) s1"
    let ?s3 = "?s2\<lparr>ssl_ctxs := (ssl_ctxs ?s2)(c := (ssl_ctxs ?s2 c)\<lparr>sc_sni := Some t'\<rparr>)\<rparr>"
    let ?s4 = "if r \<noteq> 0 then free_ssl_context OS a ?s3 else ?s3"
    have e: "us_internal_ssl_socket_context_add_server_name OS c h options user st = Some ?s4"
      using 1 False t r same by (simp add: us_internal_ssl_socket_context_add_server_name_def rd_sslctx_def wr_sslctx_def)
    have g4: "trace_grows ?s3 ?s4" using free_ssl_context_ledger(3) by simp
    note s4 = trace_growsD [OF g4]
    have o: "ctx_owned c ?s4 = ctx_owned c st + (if r = 0 then owned a else {#})"
      using sni_add_users [OF r] t s4(1) same by (simp add: ctx_owned_def ac_simps)
    have "ctx_made ?s4 = ctx_made s1" "ctx_freed ?s4 = ctx_freed s1 + (if r = 0 then {#} else owned a)"
      by (simp_all add: free_ssl_context_ledger ledger_emit)
    then have "ctx_made ?s4 + ctx_freed st = (ctx_freed ?s4 + R + ctx_owned c ?s4) + ctx_freed st"
      using m1 o b by (simp add: balanced_def ac_simps)
    then have "ctx_made ?s4 = ctx_freed ?s4 + R + ctx_owned c ?s4" by (rule add_right_imp_eq)
    then have "balanced c R ?s4"
      using s4 same t sni_add_wf [OF r t(2) False] sni_add_root [OF r h] by (simp add: balanced_def)
    then show ?thesis using e s4 same by auto
  qed
qed

lemma remove_name_balanced:
  assumes b: "balanced c R st"
  shows "\<exists>st'. us_internal_ssl_socket_context_remove_server_name OS c h st = Some st' \<and> balanced c R st' \<and>
    socks st' = socks st \<and> (\<forall>A. us_inv A st' = us_inv A st)"
proof -
  from b obtain t where t: "sc_sni (ssl_ctxs st c) = Some t" "wf_node t" "node_user t = NULL" "is_ctx st c"
    "ctx_made st = ctx_freed st + R + (owned (sc_ssl_context (ssl_ctxs st c)) + all_users t)"
    "sc_is_parent (ssl_ctxs st c)"
    by (auto simp: balanced_def ctx_owned_def)
  obtain a t' where r: "sni_remove t h = (a, t')" by fastforce
  let ?s3 = "st\<lparr>ssl_ctxs := (ssl_ctxs st)(c := (ssl_ctxs st c)\<lparr>sc_sni := Some t'\<rparr>)\<rparr>"
  let ?s4 = "free_ssl_context OS a ?s3"
  have e: "us_internal_ssl_socket_context_remove_server_name OS c h st = Some ?s4"
    using t r by (simp add: us_internal_ssl_socket_context_remove_server_name_def rd_sslctx_def wr_sslctx_def)
  note s4 = trace_growsD [OF free_ssl_context_ledger(3) [of ?s3 OS a]]
  have "ctx_owned c st = ctx_owned c ?s4 + owned a"
    using sni_remove_users [OF r t(2)] t s4(1) by (simp add: ctx_owned_def ac_simps)
  then have "ctx_made ?s4 = ctx_freed ?s4 + R + ctx_owned c ?s4"
    using b by (simp add: free_ssl_context_ledger balanced_def ac_simps)
  then have "balanced c R ?s4"
    using s4 t sni_remove_wf [OF r t(2)] sni_remove_root [OF r t(3)] by (simp add: balanced_def)
  then show ?thesis using e s4 by auto
qed

lemma name_steps_balanced:
  assumes pw: "passwd_ok OS" and new: "\<And>st. o_addr OS ''SSL_CTX_new'' st \<noteq> NULL"
  shows "balanced c R st \<Longrightarrow> list_all (\<lambda>e. case e of AddName h o1 u \<Rightarrow> labels h \<noteq> [] | RemoveName h \<Rightarrow> True) es \<Longrightarrow>
    \<exists>st'. name_steps OS c es st = Some st' \<and> balanced c R st' \<and> socks st' = socks st \<and>
      (\<forall>A. us_inv A st' = us_inv A st)"
proof (induction es arbitrary: st)
  case (Cons e es)
  have "\<exists>st1. name_step OS c e st = Some st1 \<and> balanced c R st1 \<and> socks st1 = socks st \<and> (\<forall>A. us_inv A st1 = us_inv A st)"
    using add_name_balanced [OF pw new Cons.prems(1)] remove_name_balanced [OF Cons.prems(1)] Cons.prems(2)
    by (cases e) (simp_all add: name_step_def)
  then obtain st1 where 1: "name_step OS c e st = Some st1" "balanced c R st1" "socks st1 = socks st" "\<forall>A. us_inv A st1 = us_inv A st" by blast
  have "list_all (\<lambda>e. case e of AddName h o1 u \<Rightarrow> labels h \<noteq> [] | RemoveName h \<Rightarrow> True) es"
    using Cons.prems(2) by simp
  from Cons.IH [OF 1(2) this] 1 show ?case by auto
qed simp

lemma create_ctx_frame:
  assumes "us_create_socket_context K st = Some (b, st')"
  shows "trace st' = trace st" "ssl_ctxs st' = ssl_ctxs st" "socks st' = socks st" "is_ctx st' b"
  using assms
  by (auto simp: us_create_socket_context_def us_internal_loop_link_def alloc_def Let_def wr_ctx_def is_ctx_def
      elim!: bind_eq_SomeE split: if_splits)

lemma destructor_simps [simp]:
  "sni_hostname_destructor OS (FreeCb u) st = free_ssl_context OS u st"
  "sni_hostname_destructor OS (FreeLabel l) st = st"
  by (simp_all add: sni_hostname_destructor_def)

lemma fold_destructor:
  "ctx_made (fold (sni_hostname_destructor OS) es st) = ctx_made st \<and>
   ctx_freed (fold (sni_hostname_destructor OS) es st) = ctx_freed st + filter_mset (\<lambda>a. a \<noteq> NULL) (freed_users es) \<and>
   trace_grows st (fold (sni_hostname_destructor OS) es st)"
proof (induction es arbitrary: st)
  case (Cons e es)
  show ?case
  proof (cases e)
    case (FreeCb u)
    then show ?thesis
      using Cons.IH [of "free_ssl_context OS u st"] free_ssl_context_ledger [where OS = OS and a = u and st = st]
        trace_grows_trans [of st "free_ssl_context OS u st"] by (simp add: owned_def)
  qed (use Cons.IH in simp)
qed simp

lemma in_sum_list_mset: "x \<in># sum_list xs \<longleftrightarrow> (\<exists>m\<in>set xs. x \<in># m)"
  by (induction xs) auto

lemma users_nonnull: "NULL \<notin># users_of t"
proof (induction t rule: users_of.induct)
  case (1 u cs)
  then show ?case by (auto simp: in_sum_list_mset split: if_splits)
qed

lemma filter_nonnull: "(NULL :: addr) \<notin># M \<Longrightarrow> filter_mset (\<lambda>a. a \<noteq> NULL) M = M"
  by (induction M) auto

lemma free_ctx_frame: "us_socket_context_free c st = Some st' \<Longrightarrow> trace st' = trace st"
  by (auto simp: us_socket_context_free_def us_internal_loop_unlink_def free_obj_def wr_ctx_def Let_def
      elim!: bind_eq_SomeE split: if_splits)

lemma init_ssl_frame:
  "ctx_made (us_internal_init_loop_ssl_data OS st) = ctx_made st"
  "ctx_freed (us_internal_init_loop_ssl_data OS st) = ctx_freed st"
  "us_inv A (us_internal_init_loop_ssl_data OS st) = us_inv A st"
  "socks (us_internal_init_loop_ssl_data OS st) = socks st"
  by (simp_all add: us_internal_init_loop_ssl_data_def Let_def ssl_ledger split: option.split)

lemma create_balanced:
  assumes pw: "passwd_ok OS" and new: "\<And>st. o_addr OS ''SSL_CTX_new'' st \<noteq> NULL"
    and K: "allocator_ok K" and I: "us_inv A st" and R: "ctx_made st = ctx_freed st + R"
  shows "\<exists>c st1. us_internal_create_ssl_socket_context OS K options st = Some (c, st1) \<and>
    (if c = NULL then us_inv A st1 \<and> ctx_made st1 = ctx_freed st1 + R
     else balanced c R st1 \<and> us_inv (add_ctx c A) st1 \<and> c \<notin> set (al_ctxs A) \<and> socks st1 = socks st)"
proof -
  let ?s0 = "us_internal_init_loop_ssl_data OS st"
  obtain a s1 where 1: "create_ssl_context_from_options OS options ?s0 = (a, s1)" by fastforce
  have g1: "trace_grows ?s0 s1" and "ctx_made s1 + ctx_freed ?s0 = ctx_made ?s0 + ctx_freed s1 + owned a"
    using create_context_ledger [OF pw new 1] by (simp_all add: ssl_calls_def)
  then have "ctx_made s1 + ctx_freed st = (ctx_freed s1 + R + owned a) + ctx_freed st"
    using R by (simp add: init_ssl_frame ac_simps)
  then have m1: "ctx_made s1 = ctx_freed s1 + R + owned a" by (rule add_right_imp_eq)
  note same = trace_growsD [OF g1]
  have I1: "us_inv A s1" using I same(6) by (simp add: init_ssl_frame)
  show ?thesis
  proof (cases "a = NULL")
    case True
    then show ?thesis using 1 I1 m1 by (simp add: us_internal_create_ssl_socket_context_def)
  next
    case False
    from us_create_socket_context_ok [OF I1 K] obtain b s2 where
      2: "us_create_socket_context K s1 = Some (b, s2)" "b \<noteq> NULL" "objs s1 b = None"
      "evolves A s1 (add_ctx b A) s2" by blast
    note f = create_ctx_frame [OF 2(1)]
    have I2: "us_inv (add_ctx b A) s2" using 2(4) by (simp add: evolves_def)
    let ?s3 = "s2\<lparr>ctxs := (ctxs s2)(b := (ctxs s2 b)\<lparr>c_is_low_prio := FnSslIsLowPrio\<rparr>)\<rparr>"
    let ?x = "(ssl_ctxs s2 b)\<lparr>sc_on_server_name := FnNull, sc_ssl_context := a, sc_is_parent := True, sc_sni := Some sni_new\<rparr>"
    let ?s4 = "(emit (Ssl (Set_servername_arg a b)) ?s3)\<lparr>ssl_ctxs := (ssl_ctxs s2)(b := ?x)\<rparr>"
    have I3: "us_inv (add_ctx b A) ?s3"
      using ctx_fields_ok [OF I2 f(4), of "(ctxs s2 b)\<lparr>c_is_low_prio := FnSslIsLowPrio\<rparr>"] by (simp add: evolves_def)
    have e: "us_internal_create_ssl_socket_context OS K options st = Some (b, ?s4)"
      using 1 False 2(1) f(4) by (simp add: us_internal_create_ssl_socket_context_def wr_sslctx_def)
    have l: "ctx_made ?s4 = ctx_made s1" "ctx_freed ?s4 = ctx_freed s1"
      using f(1) by (simp_all add: ssl_ledger)
    have "ctx_owned b ?s4 = owned a" by (simp add: ctx_owned_def all_users_SniNode sni_new_def)
    then have "balanced b R ?s4" using m1 l f(4) by (simp add: balanced_def sni_new_def)
    moreover have "b \<notin> set (al_ctxs A)" using fresh_detached(2) [OF us_invD(1) [OF I1] 2(3)] .
    moreover have "us_inv (add_ctx b A) ?s4" using I3 by simp
    moreover have "socks ?s4 = socks st" using f(3) same(5) by (simp add: init_ssl_frame)
    ultimately show ?thesis using e 2(2) by auto
  qed
qed

lemma free_balanced:
  assumes b: "balanced c R st" and I: "us_inv A st" and c: "c \<in> set (al_ctxs A)" and e: "ctx_empty A st c"
  shows "\<exists>st'. us_internal_ssl_socket_context_free OS c st = Some st' \<and> us_inv (del_ctx c A) st' \<and>
    ctx_made st' = ctx_freed st' + R"
proof -
  from b obtain t where t: "sc_sni (ssl_ctxs st c) = Some t" "node_user t = NULL" "is_ctx st c"
    "ctx_made st = ctx_freed st + R + (owned (sc_ssl_context (ssl_ctxs st c)) + users_of t)"
    "sc_is_parent (ssl_ctxs st c)"
    by (auto simp: balanced_def ctx_owned_def all_users_def)
  let ?s1 = "free_ssl_context OS (sc_ssl_context (ssl_ctxs st c)) st"
  let ?s2 = "fold (sni_hostname_destructor OS) (sni_free t) ?s1"
  note d = fold_destructor [of OS "sni_free t" ?s1]
  have u: "filter_mset (\<lambda>a. a \<noteq> NULL) (freed_users (sni_free t)) = users_of t"
    using sni_delete_frees [of t] filter_nonnull [OF users_nonnull [of t]] by (simp only: sni_free_def)
  have g: "trace_grows st ?s2" using d free_ssl_context_ledger(3) trace_grows_trans by blast
  note s2 = trace_growsD [OF g]
  have m: "ctx_made ?s2 = ctx_freed ?s2 + R"
    using d u t(4) by (simp add: free_ssl_context_ledger ac_simps)
  have I2: "us_inv A ?s2" using I s2(6) by simp
  have "ctx_empty A ?s2 c" using e s2(5) by (simp add: ctx_empty_def)
  from us_socket_context_free_ok [OF I2 c this] obtain st' where
    3: "us_socket_context_free c ?s2 = Some st'" "us_inv (del_ctx c A) st'" by blast
  have "us_internal_ssl_socket_context_free OS c st = Some st'"
    using t 3(1) by (simp add: us_internal_ssl_socket_context_free_def rd_sslctx_def)
  then show ?thesis using 3(2) m free_ctx_frame [OF 3(1)] by (auto simp: ssl_ledger)
qed



section \<open>At a concrete state\<close>

text \<open>An OpenSSL in which every call works but for loading a private key.\<close>

definition openssl0 :: openssl where
  "openssl0 = \<lparr>o_ssl_new = (\<lambda>st c. 70), o_read = (\<lambda>st ssl n. BioRet (-1, [])), o_write = (\<lambda>st ssl d. BioRet (-1)),
     o_shutdown = (\<lambda>st ssl. BioRet 1), o_get_error = (\<lambda>st ssl r. SSL_ERROR_WANT_READ), o_get_shutdown = (\<lambda>st ssl. 0),
     o_in_init = (\<lambda>st ssl. False), o_servername = (\<lambda>st ssl. None), o_ssl_ctx = (\<lambda>st ssl. 77), o_ex_data = (\<lambda>st c. 0),
     o_passwd_userdata = (\<lambda>st c. passwd_of c st), o_addr = (\<lambda>f st. 77),
     o_int = (\<lambda>f st. if f = ''SSL_CTX_use_PrivateKey_file'' then 0 else 1)\<rparr>"

definition options0 :: us_socket_context_options_t where
  "options0 = \<lparr>key_file_name = None, cert_file_name = Some ''cert.pem'', passphrase = Some ''1234'',
     dh_params_file_name = Some ''dh.pem'', ca_file_name = Some ''ca.pem'', ssl_ciphers = None,
     ssl_prefer_low_memory_usage = True\<rparr>"

lemma openssl0_ok: "passwd_ok openssl0" "o_addr openssl0 ''SSL_CTX_new'' st \<noteq> NULL"
  by (simp_all add: passwd_ok_def openssl0_def)

theorem create_ssl_context_no_leak_witness:
  "\<exists>c st'. create_ssl_context_from_options openssl0 (options0\<lparr>key_file_name := Some ''key.pem''\<rparr>) demo = (c, st') \<and>
     c = NULL \<and> ctx_made st' + ctx_freed demo = ctx_made demo + ctx_freed st' \<and>
     pw_made st' + pw_freed demo = pw_made demo + pw_freed st'"
proof -
  let ?o = "options0\<lparr>key_file_name := Some ''key.pem''\<rparr>"
  obtain c st' where 1: "create_ssl_context_from_options openssl0 ?o demo = (c, st')" by fastforce
  have "fst (create_ssl_context_from_options openssl0 ?o demo) = NULL"
    by (simp add: create_ssl_context_from_options_def Let_def set_cert_def set_key_def ctx_file_def options0_def openssl0_def)
  then have "c = NULL" using 1 by simp
  then show ?thesis using create_ssl_context_no_leak [OF openssl0_ok 1] 1 by (simp add: owned_def)
qed

text \<open>A context that could be configured is returned.\<close>

lemma create_nonnull:
  assumes "us_internal_create_ssl_socket_context OS K options st = Some (c, st1)"
    and "fst (create_ssl_context_from_options OS options (us_internal_init_loop_ssl_data OS st)) \<noteq> NULL"
  shows "c \<noteq> NULL"
  using assms
  by (auto simp: us_internal_create_ssl_socket_context_def Let_def wr_sslctx_def is_ctx_def elim!: bind_eq_SomeE split: prod.splits if_splits)


end
