(* ===== verification/Us_Ssl_Props.thy ===== *)
theory Us_Ssl_Props
  imports Us_Ssl_Context
begin

unbundle bit_operations_syntax

text \<open>
  What the SSL layer promises of an established socket, for every OpenSSL whose calls end and keep
  to their buffers: writing is total and within its bounds, and the plain text reaches the user
  whole and in order.
\<close>

section \<open>Running a call of OpenSSL\<close>

text \<open>
  What a call of OpenSSL leaves alone: everything but the polls, the trace, the data of the loop
  and the flag of a failed write. Of the data it only consumes input.
\<close>

definition data_used :: "us \<Rightarrow> us \<Rightarrow> bool" where
  "data_used st st' \<longleftrightarrow> (\<forall>d. l_ssl_data st = Some d \<longrightarrow> (\<exists>d'. l_ssl_data st' = Some d' \<and>
     sl_ssl_socket d' = sl_ssl_socket d \<and> sl_msg_more d' = sl_msg_more d \<and> sl_read_input d' = sl_read_input d \<and>
     sl_read_input_length d' \<le> sl_read_input_length d))"

definition io_frame :: "us \<Rightarrow> us \<Rightarrow> bool" where
  "io_frame st st' \<longleftrightarrow> objs st' = objs st \<and> socks st' = socks st \<and> ctxs st' = ctxs st \<and>
     ssl_socks st' = ssl_socks st \<and> ssl_ctxs st' = ssl_ctxs st \<and> u_ext st' = u_ext st \<and> u_heap st' = u_heap st \<and>
     same_views st st'"

lemma data_used_refl: "data_used st st" by (simp add: data_used_def)

lemma data_used_trans: "data_used st st1 \<Longrightarrow> data_used st1 st2 \<Longrightarrow> data_used st st2"
  by (fastforce simp: data_used_def)

lemma io_frame_refl: "io_frame st st" by (simp add: io_frame_def)

lemma io_frame_trans: "io_frame st st1 \<Longrightarrow> io_frame st1 st2 \<Longrightarrow> io_frame st st2"
  unfolding io_frame_def using same_views_trans by metis

lemma io_frame_emit: "io_frame st st1 \<Longrightarrow> no_view e \<Longrightarrow> io_frame st (emit e st1)"
  by (rule io_frame_trans [of st st1]) (auto simp: io_frame_def same_views_emit)

lemma io_frame_data: "data_frame st st' \<Longrightarrow> io_frame st st'"
  by (auto simp: data_frame_def io_frame_def same_views_def intro: exI [of _ "[]"])

text \<open>
  The contexts whose server names OpenSSL may ask for: they have a tree of names, and the callback
  of a missing name, if one is set, changes nothing.
\<close>

definition names_ready :: "handlers \<Rightarrow> (addr \<Rightarrow> bool) \<Rightarrow> us \<Rightarrow> bool" where
  "names_ready U C st \<longleftrightarrow> (\<forall>c. C c \<longrightarrow> is_ctx st c \<and> sc_sni (ssl_ctxs st c) \<noteq> None \<and>
     (sc_on_server_name (ssl_ctxs st c) \<noteq> FnNull \<longrightarrow>
       (\<forall>h x. h_server_name U (sc_on_server_name (ssl_ctxs st c)) c h x = Some x)))"

text \<open>The socket a call works for is established, open and not queued, and the input is in bounds.\<close>

definition ssl_ready :: "handlers \<Rightarrow> (addr \<Rightarrow> bool) \<Rightarrow> alists \<Rightarrow> addr \<Rightarrow> us \<Rightarrow> bool" where
  "ssl_ready U C A s st \<longleftrightarrow> us_inv A st \<and> open_sock A s \<and> established st s \<and> window_ok st \<and>
     names_ready U C st \<and> (\<exists>d. l_ssl_data st = Some d \<and> sl_ssl_socket d = s)"

lemma names_ready_frame: "names_ready U C st \<Longrightarrow> io_frame st st' \<Longrightarrow> names_ready U C st'"
  by (simp add: names_ready_def io_frame_def is_ctx_def)

lemma data_frame_inv:
  assumes "data_frame st st'"
  shows "us_inv A st' = us_inv A st" "established st' s = established st s" "grows A st A st'"
  using assms by (auto simp: data_frame_def established_def type3_def grows_def sweep_ok_def sweep_rest_def)

lemma read_ready:
  assumes r: "ssl_ready U C A s st"
  shows "\<exists>x bs st'. BIO_s_custom_read n st = Some (x, bs, st') \<and> ssl_ready U C A s st' \<and> evolves A st A st' \<and>
    io_frame st st' \<and> data_used st st'"
proof -
  from r have I: "us_inv A st" "established st s" "open_sock A s" and w: "window_ok st"
    and nr: "names_ready U C st" by (simp_all add: ssl_ready_def)
  from r obtain d where d: "l_ssl_data st = Some d" "sl_ssl_socket d = s" by (auto simp: ssl_ready_def)
  from bio_read_ok [OF w, of n] obtain x st' where
    1: "BIO_s_custom_read n st = Some (x, take n (pending_input st), st')" "window_ok st'" "data_frame st st'" by blast
  have u: "data_used st st'"
  proof (cases "sl_read_input_length d = 0")
    case True
    then show ?thesis using bio_read_none(1) [OF d(1) True, of n] 1(1) data_used_refl by simp
  next
    case False
    then show ?thesis using bio_read_some [OF d(1) False, of n] 1(1) d by (auto simp: data_used_def)
  qed
  have "ssl_ready U C A s st'"
    using 1(2) u d I data_frame_inv [OF 1(3)] names_ready_frame [OF nr io_frame_data [OF 1(3)]]
    by (auto simp: ssl_ready_def data_used_def)
  then show ?thesis using 1(1,3) u data_frame_inv [OF 1(3)] I io_frame_data by (auto simp: evolves_def)
qed

lemma poll_change_keeps:
  assumes "us_poll_change p ev st = Some st'"
  shows "objs st' = objs st" "socks st' = socks st" "ctxs st' = ctxs st" "u_ext st' = u_ext st" "u_heap st' = u_heap st"
  using assms by (auto simp: us_poll_change_def wr_poll_def elim!: bind_eq_SomeE split: if_splits)

lemma write_cases:
  assumes "us_socket_write K s data mm st = Some (r, st')"
  shows "st' = st \<or> (\<exists>fd. st' = emit (Send fd data mm) st) \<or>
    (\<exists>fd ev. us_poll_change s ev ((emit (Send fd data mm) st)\<lparr>l_last_write_failed := True\<rparr>) = Some st')"
  using assms by (auto simp: us_socket_write_def Let_def elim!: bind_eq_SomeE split: if_splits) blast+

lemma write_keeps:
  assumes "us_socket_write K s data mm st = Some (r, st')"
  shows "io_frame st st'"
proof -
  have "objs st' = objs st \<and> socks st' = socks st \<and> ctxs st' = ctxs st \<and> u_ext st' = u_ext st \<and> u_heap st' = u_heap st"
    using write_cases [OF assms]
  proof (elim disjE exE)
    fix fd ev assume "us_poll_change s ev ((emit (Send fd data mm) st)\<lparr>l_last_write_failed := True\<rparr>) = Some st'"
    from poll_change_keeps [OF this] show ?thesis by simp
  qed simp_all
  then show ?thesis using write_frame [OF assms] by (simp add: io_frame_def)
qed

lemma write_ready:
  assumes r: "ssl_ready U C A s st"
  shows "\<exists>x st'. BIO_s_custom_write K data st = Some (x, st') \<and> ssl_ready U C A s st' \<and> evolves A st A st' \<and>
    io_frame st st' \<and> data_used st st'"
proof -
  from r have I: "us_inv A st" and e: "established st s" and o: "open_sock A s" and w: "window_ok st"
    and nr: "names_ready U C st" by (simp_all add: ssl_ready_def)
  from r obtain d where d: "l_ssl_data st = Some d" "sl_ssl_socket d = s" by (auto simp: ssl_ready_def)
  let ?m = "sl_msg_more d \<or> length data = 16413"
  let ?d = "d\<lparr>sl_last_write_was_msg_more := ?m\<rparr>"
  let ?s1 = "st\<lparr>l_ssl_data := Some ?d\<rparr>"
  note f1 = data_frame_upd [of st "Some ?d"]
  have I1: "us_inv A ?s1" and e1: "established ?s1 s" using data_frame_inv [OF f1] I e by simp_all
  have low: "s \<notin> set (al_low A)" using open_sockD(7) [OF us_invD(1) [OF I] o] .
  let ?s2 = "emit (Send (fd_of ?s1 s) data ?m) ?s1"
  from us_socket_write_ok [OF I1 open_live [OF o] e1, of K data ?m] low obtain y st' where
    2: "us_socket_write K s data ?m ?s1 = Some (y, st')" "evolves A ?s1 A st'" and
    c: "if type3 ?s1 s = POLL_TYPE_SOCKET_SHUT_DOWN then y = 0 \<and> st' = ?s1
     else y = max 0 (k_io K ?s2) \<and> (if k_io K ?s2 = int (length data) then st' = ?s2
        else short_write s (?s2\<lparr>l_last_write_failed := True\<rparr>) st')" by blast
  have 3: "type3 st' s = type3 ?s1 s" using c by (simp add: short_write_def type3_def split: if_splits)
  have e2: "established st' s" using 3 e1 by (simp add: established_def)
  have l2: "l_ssl_data st' = Some ?d" using write_frame(1) [OF 2(1)] by simp
  have w2: "window_ok st'" using l2 w d(1) by (simp add: window_ok_def)
  have fr: "io_frame st st'" using io_frame_trans [OF io_frame_data [OF f1] write_keeps [OF 2(1)]] .
  have us: "data_used st st'" using d(1) l2 by (simp add: data_used_def)
  have ev: "evolves A st A st'"
    using grows_trans [OF data_frame_inv(3) [OF f1, of A]] 2(2) by (simp add: evolves_def)
  have rd: "ssl_ready U C A s st'" using ev o e2 w2 l2 d(2) names_ready_frame [OF nr fr]
    by (simp add: ssl_ready_def evolves_def)
  have b: "BIO_s_custom_write K data st = Some (if y = 0 then -1 else y, st')"
    using 2(1) d by (simp add: BIO_s_custom_write_def upd_data_def)
  show ?thesis using b rd ev fr us by blast
qed

lemma ready_emit:
  assumes "ssl_ready U C A s st" and "no_view e"
  shows "ssl_ready U C A s (emit e st)" "evolves A st A (emit e st)" "io_frame st (emit e st)" "data_used st (emit e st)"
proof -
  show f: "io_frame st (emit e st)" using io_frame_emit [OF io_frame_refl assms(2)] .
  show "ssl_ready U C A s (emit e st)" using assms names_ready_frame [OF _ f]
    by (simp add: ssl_ready_def established_def type3_def window_ok_def)
  show "evolves A st A (emit e st)" using assms by (simp add: evolves_def ssl_ready_def)
  show "data_used st (emit e st)" by (simp add: data_used_def)
qed

lemma no_views [simp]:
  "no_view (OnServerName c h)" "no_view (Ssl (SSL_set_SSL_CTX a b))" "no_view (Ssl (SSL_write a data))"
  "no_view (Ssl (SSL_shutdown a))" "no_view (Ssl ERR_clear_error)" "no_view (Uncork fd)"
  "no_view (Send fd data mm)" "no_view (Ssl (UserWritable s))"
  by (simp_all add: no_view_def user_datas_def bytes_read_def ssl_reads_def)

lemma sni_ready:
  assumes r: "ssl_ready U C A s st" and c: "C c"
  shows "\<exists>x st'. sni_cb OS U ssl c st = Some (x, st') \<and> ssl_ready U C A s st' \<and> evolves A st A st' \<and>
    io_frame st st' \<and> data_used st st'"
proof -
  from r c obtain t where t: "is_ctx st c" "sc_sni (ssl_ctxs st c) = Some t"
    and q: "sc_on_server_name (ssl_ctxs st c) \<noteq> FnNull \<longrightarrow>
      (\<forall>h x. h_server_name U (sc_on_server_name (ssl_ctxs st c)) c h x = Some x)"
    by (auto simp: ssl_ready_def names_ready_def)
  have I: "us_inv A st" using r by (simp add: ssl_ready_def)
  have res: "\<exists>x st1. resolve_context U c h st = Some (x, st1) \<and> (st1 = st \<or> st1 = emit (OnServerName c h) st)" for h
    using t q by (simp add: resolve_context_def rd_sslctx_def Let_def)
  have "\<exists>x st'. sni_cb OS U ssl c st = Some (x, st') \<and>
    (st' = st \<or> (\<exists>e. no_view e \<and> st' = emit e st) \<or> (\<exists>e e2. no_view e \<and> no_view e2 \<and> st' = emit e2 (emit e st)))"
  proof (cases "ssl \<noteq> NULL \<and> o_servername OS st ssl \<noteq> None \<and> o_servername OS st ssl \<noteq> Some []")
    case True
    then obtain h where h: "o_servername OS st ssl = Some h" "h \<noteq> []" "ssl \<noteq> NULL" by auto
    from res [of h] obtain x st1 where
      1: "resolve_context U c h st = Some (x, st1)" "st1 = st \<or> st1 = emit (OnServerName c h) st" by blast
    obtain st2 where "sni_cb OS U ssl c st = Some (SSL_TLSEXT_ERR_OK, st2)" and
      "st2 = st1 \<or> st2 = emit (Ssl (SSL_set_SSL_CTX ssl x)) st1"
      using h 1(1) by (simp add: sni_cb_def)
    then show ?thesis using 1(2) no_views(1) [of c h] no_views(2) [of ssl x]
      by blast
  qed (auto simp: sni_cb_def)
  then obtain x st' where "sni_cb OS U ssl c st = Some (x, st')" and
    c: "st' = st \<or> (\<exists>e. no_view e \<and> st' = emit e st) \<or> (\<exists>e e2. no_view e \<and> no_view e2 \<and> st' = emit e2 (emit e st))"
    by blast
  moreover have "ssl_ready U C A s st' \<and> evolves A st A st' \<and> io_frame st st' \<and> data_used st st'"
    using c
  proof (elim disjE exE conjE)
    fix e e2 assume e: "no_view e" "no_view e2" "st' = emit e2 (emit e st)"
    note 1 = ready_emit [OF r e(1)]
    note 2 = ready_emit [OF 1(1) e(2)]
    show ?thesis using 2(1) evolves_trans [OF 1(2) 2(2)] io_frame_trans [OF 1(3) 2(3)] data_used_trans [OF 1(4) 2(4)] e(3)
      by simp
  qed (use r ready_emit [OF r] io_frame_refl data_used_refl evolves_refl [OF I] in auto)
  ultimately show ?thesis by blast
qed

lemma run_bio_ok:
  assumes "ssl_ready U C A s st" and "bio_names C t" and "bio_all P t"
  shows "\<exists>r st'. run_bio OS K U ssl t st = Some (r, st') \<and> P r \<and> ssl_ready U C A s st' \<and> evolves A st A st' \<and>
    io_frame st st' \<and> data_used st st'"
  using assms
proof (induction t arbitrary: st)
  case (BioRet r)
  then show ?case using io_frame_refl data_used_refl evolves_refl by (auto simp: ssl_ready_def)
next
  case (BioRead n k)
  from read_ready [OF BioRead.prems(1), of n] obtain x bs st1 where
    1: "BIO_s_custom_read n st = Some (x, bs, st1)" "ssl_ready U C A s st1" "evolves A st A st1" "io_frame st st1" "data_used st st1"
    by blast
  have "bio_names C (k (x, bs))" "bio_all P (k (x, bs))" using BioRead.prems(2,3) by simp_all
  from BioRead.IH [OF rangeI 1(2) this] obtain r st2 where
    2: "run_bio OS K U ssl (k (x, bs)) st1 = Some (r, st2)" "P r" "ssl_ready U C A s st2" "evolves A st1 A st2"
      "io_frame st1 st2" "data_used st1 st2" by blast
  show ?case using 1(1) 2(1-3) evolves_trans [OF 1(3) 2(4)] io_frame_trans [OF 1(4) 2(5)] data_used_trans [OF 1(5) 2(6)]
    by simp
next
  case (BioWrite data k)
  from write_ready [OF BioWrite.prems(1), of K data] obtain x st1 where
    1: "BIO_s_custom_write K data st = Some (x, st1)" "ssl_ready U C A s st1" "evolves A st A st1" "io_frame st st1" "data_used st st1"
    by blast
  have "bio_names C (k x)" "bio_all P (k x)" using BioWrite.prems(2,3) by simp_all
  from BioWrite.IH [OF rangeI 1(2) this] obtain r st2 where
    2: "run_bio OS K U ssl (k x) st1 = Some (r, st2)" "P r" "ssl_ready U C A s st2" "evolves A st1 A st2"
      "io_frame st1 st2" "data_used st1 st2" by blast
  show ?case using 1(1) 2(1-3) evolves_trans [OF 1(3) 2(4)] io_frame_trans [OF 1(4) 2(5)] data_used_trans [OF 1(5) 2(6)]
    by simp
next
  case (BioServername c k)
  have c: "C c" using BioServername.prems(2) by simp
  from sni_ready [OF BioServername.prems(1) c, of OS ssl] obtain x st1 where
    1: "sni_cb OS U ssl c st = Some (x, st1)" "ssl_ready U C A s st1" "evolves A st A st1" "io_frame st st1" "data_used st st1"
    by blast
  have "bio_names C (k x)" "bio_all P (k x)" using BioServername.prems(2,3) by simp_all
  from BioServername.IH [OF rangeI 1(2) this] obtain r st2 where
    2: "run_bio OS K U ssl (k x) st1 = Some (r, st2)" "P r" "ssl_ready U C A s st2" "evolves A st1 A st2"
      "io_frame st1 st2" "data_used st1 st2" by blast
  show ?case using 1(1) 2(1-3) evolves_trans [OF 1(3) 2(4)] io_frame_trans [OF 1(4) 2(5)] data_used_trans [OF 1(5) 2(6)]
    by simp
qed


section \<open>Writing\<close>

text \<open>
  What the code relies on: the calls of OpenSSL end, ask for names of known contexts only, take
  no more than they were given to write, and give at most the number of bytes asked for.
\<close>

definition openssl_ok :: "(addr \<Rightarrow> bool) \<Rightarrow> openssl \<Rightarrow> bool" where
  "openssl_ok C OS \<longleftrightarrow> (\<forall>st ssl.
     (\<forall>data. bio_names C (o_write OS st ssl data) \<and> bio_all (\<lambda>r. r \<le> int (length data)) (o_write OS st ssl data)) \<and>
     (\<forall>n\<ge>0. bio_names C (o_read OS st ssl n) \<and>
        bio_all (\<lambda>x. fst x \<le> n \<and> (0 < fst x \<longrightarrow> int (length (snd x)) = fst x)) (o_read OS st ssl n)) \<and>
     bio_names C (o_shutdown OS st ssl) \<and> bio_all (\<lambda>r. True) (o_shutdown OS st ssl))"

lemma ssl_write_ok:
  assumes O: "openssl_ok C OS" and r: "ssl_ready U C A s st"
  shows "\<exists>r st'. ssl_write OS K U ssl data st = Some (r, st') \<and> r \<le> int (length data) \<and> ssl_ready U C A s st' \<and>
    evolves A st A st' \<and> io_frame st st' \<and> data_used st st'"
proof -
  let ?s1 = "emit (Ssl (SSL_write ssl data)) st"
  note 1 = ready_emit [OF r no_views(3) [of ssl data]]
  have t: "bio_names C (o_write OS ?s1 ssl data)" "bio_all (\<lambda>r. r \<le> int (length data)) (o_write OS ?s1 ssl data)"
    using O by (simp_all add: openssl_ok_def)
  from run_bio_ok [OF 1(1) t, of OS K ssl] obtain r st' where
    2: "run_bio OS K U ssl (o_write OS ?s1 ssl data) ?s1 = Some (r, st')" "r \<le> int (length data)"
      "ssl_ready U C A s st'" "evolves A ?s1 A st'" "io_frame ?s1 st'" "data_used ?s1 st'" by blast
  have "ssl_write OS K U ssl data st = Some (r, st')" using 2(1) by (simp add: ssl_write_def)
  then show ?thesis
    using 2(2,3) evolves_trans [OF 1(2) 2(4)] io_frame_trans [OF 1(3) 2(5)] data_used_trans [OF 1(4) 2(6)] by blast
qed

lemma ssl_shutdown_ok:
  assumes O: "openssl_ok C OS" and r: "ssl_ready U C A s st"
  shows "\<exists>r st'. ssl_shutdown OS K U ssl st = Some (r, st') \<and> ssl_ready U C A s st' \<and>
    evolves A st A st' \<and> io_frame st st' \<and> data_used st st'"
proof -
  let ?s1 = "emit (Ssl (SSL_shutdown ssl)) st"
  note 1 = ready_emit [OF r no_views(4) [of ssl]]
  have t: "bio_names C (o_shutdown OS ?s1 ssl)" "bio_all (\<lambda>r. True) (o_shutdown OS ?s1 ssl)"
    using O by (simp_all add: openssl_ok_def)
  from run_bio_ok [OF 1(1) t, of OS K ssl] obtain r st' where
    2: "run_bio OS K U ssl (o_shutdown OS ?s1 ssl) ?s1 = Some (r, st')"
      "ssl_ready U C A s st'" "evolves A ?s1 A st'" "io_frame ?s1 st'" "data_used ?s1 st'" by blast
  have "ssl_shutdown OS K U ssl st = Some (r, st')" using 2(1) by (simp add: ssl_shutdown_def)
  then show ?thesis
    using 2(2) evolves_trans [OF 1(2) 2(3)] io_frame_trans [OF 1(3) 2(4)] data_used_trans [OF 1(4) 2(5)] by blast
qed

text \<open>Changing the data of the loop, with the input in bounds.\<close>

lemma ready_data:
  assumes "us_inv A st" "open_sock A s" "established st s" "names_ready U C st"
    and "sl_ssl_socket d = s" "sl_read_input_offset d + sl_read_input_length d \<le> length (sl_read_input d)"
  shows "ssl_ready U C A s (st\<lparr>l_ssl_data := Some d\<rparr>)" "evolves A st A (st\<lparr>l_ssl_data := Some d\<rparr>)"
    "io_frame st (st\<lparr>l_ssl_data := Some d\<rparr>)"
proof -
  note f = data_frame_upd [of st "Some d"]
  show fr: "io_frame st (st\<lparr>l_ssl_data := Some d\<rparr>)" using io_frame_data [OF f] .
  show "ssl_ready U C A s (st\<lparr>l_ssl_data := Some d\<rparr>)"
    using assms data_frame_inv [OF f] names_ready_frame [OF assms(4) fr] by (simp add: ssl_ready_def window_ok_def)
  show "evolves A st A (st\<lparr>l_ssl_data := Some d\<rparr>)" using data_frame_inv [OF f] assms(1) by (simp add: evolves_def)
qed

lemma flush_ready:
  assumes r: "ssl_ready U C A s st"
  shows "\<exists>st'. us_socket_flush s st = Some st' \<and> ssl_ready U C A s st' \<and> evolves A st A st' \<and> io_frame st st' \<and>
    l_ssl_data st' = l_ssl_data st"
proof -
  have I: "us_inv A st" and o: "open_sock A s" using r by (simp_all add: ssl_ready_def)
  have k: "is_sock st s" using open_sockD(1) [OF us_invD(1) [OF I] o] .
  show ?thesis
  proof (cases "type3 st s = POLL_TYPE_SOCKET_SHUT_DOWN")
    case True
    then show ?thesis using k r evolves_refl [OF I] io_frame_refl by (simp add: us_socket_flush_def is_shut_down_eq)
  next
    case False
    then show ?thesis using k ready_emit [OF r no_views(6)]
      by (simp add: us_socket_flush_def is_shut_down_eq us_poll_fd_def)
  qed
qed

lemma ssl_is_shut_down_eq:
  "is_sock st s \<Longrightarrow> us_internal_ssl_socket_is_shut_down OS s st =
    Some (type3 st s = POLL_TYPE_SOCKET_SHUT_DOWN \<or> o_get_shutdown OS st (ss_ssl (ssl_socks st s)) AND SSL_SENT_SHUTDOWN \<noteq> 0)"
  by (simp add: us_internal_ssl_socket_is_shut_down_def is_shut_down_eq rd_ssl_def)

text \<open>The end of a write that took nothing: only the flag of this socket and the trace may change.\<close>

definition ssl_flags_only :: "addr \<Rightarrow> us \<Rightarrow> us \<Rightarrow> bool" where
  "ssl_flags_only s st st' \<longleftrightarrow> objs st' = objs st \<and> socks st' = socks st \<and> ctxs st' = ctxs st \<and>
     ssl_ctxs st' = ssl_ctxs st \<and> u_ext st' = u_ext st \<and> u_heap st' = u_heap st \<and> same_views st st' \<and>
     (\<forall>t. t \<noteq> s \<longrightarrow> ssl_socks st' t = ssl_socks st t) \<and> ss_ssl (ssl_socks st' s) = ss_ssl (ssl_socks st s)"

lemma ssl_flags_onlyI: "io_frame st st1 \<Longrightarrow> ssl_flags_only s st1 st2 \<Longrightarrow> ssl_flags_only s st st2"
  unfolding io_frame_def ssl_flags_only_def using same_views_trans by metis

lemma flags_upd:
  assumes I: "us_inv A st" and k: "is_sock st s"
  shows "\<exists>st'. wr_ssl s (\<lambda>x. x\<lparr>ss_write_wants_read := True\<rparr>) st = Some st' \<and> ssl_flags_only s st st' \<and>
    evolves A st A st' \<and> l_ssl_data st' = l_ssl_data st \<and> polls st' = polls st \<and> ss_write_wants_read (ssl_socks st' s)"
  using assms by (auto simp: wr_ssl_def ssl_flags_only_def same_views_def evolves_def grows_def sweep_ok_def sweep_rest_def
      intro: exI [of _ "[]"])

lemma clear_queue_flags:
  assumes I: "us_inv A st"
  shows "ssl_flags_only s st (clear_error_queue err st)" "evolves A st A (clear_error_queue err st)"
    "l_ssl_data (clear_error_queue err st) = l_ssl_data st" "polls (clear_error_queue err st) = polls st"
proof -
  have v: "same_views st (emit (Ssl ERR_clear_error) st)" by (rule same_views_emit) simp
  show "ssl_flags_only s st (clear_error_queue err st)" "evolves A st A (clear_error_queue err st)"
    "l_ssl_data (clear_error_queue err st) = l_ssl_data st" "polls (clear_error_queue err st) = polls st"
    using v evolves_refl [OF I] I by (simp_all add: clear_error_queue_def ssl_flags_only_def evolves_def)
qed

text \<open>After \<open>SSL_write\<close> has returned.\<close>

definition ssl_write_end :: "openssl \<Rightarrow> addr \<Rightarrow> bool \<Rightarrow> int \<Rightarrow> us \<Rightarrow> (int \<times> us) option" where
  "ssl_write_end OS s msg_more written st = do {
     st \<leftarrow> upd_data (\<lambda>d. d\<lparr>sl_msg_more := False\<rparr>) st;
     d \<leftarrow> l_ssl_data st;
     st \<leftarrow> (if sl_last_write_was_msg_more d \<and> \<not> msg_more then us_socket_flush s st else Some st);
     if written > 0 then Some (written, st) else do {
       ss \<leftarrow> rd_ssl s st;
       let err = o_get_error OS st (ss_ssl ss) written;
       if err = SSL_ERROR_WANT_READ then do {
         st \<leftarrow> wr_ssl s (\<lambda>x. x\<lparr>ss_write_wants_read := True\<rparr>) st;
         Some (0, st)
       } else Some (0, clear_error_queue err st)
     }
   }"

lemma ssl_write_end_ok:
  assumes r: "ssl_ready U C A s st" and d: "l_ssl_data st = Some d"
  shows "\<exists>st'. ssl_write_end OS s mm written st = Some (max 0 written, st') \<and> evolves A st A st' \<and>
    ssl_flags_only s st st' \<and> l_ssl_data st' = Some (d\<lparr>sl_msg_more := False\<rparr>) \<and> established st' s"
proof -
  let ?d = "d\<lparr>sl_msg_more := False\<rparr>"
  let ?s1 = "st\<lparr>l_ssl_data := Some ?d\<rparr>"
  have 1: "ssl_ready U C A s ?s1" "evolves A st A ?s1" "io_frame st ?s1"
    using ready_data [of A st s U C ?d] r d by (auto simp: ssl_ready_def window_ok_def)
  have "\<exists>st2. (if sl_last_write_was_msg_more d \<and> \<not> mm then us_socket_flush s ?s1 else Some ?s1) = Some st2 \<and>
    ssl_ready U C A s st2 \<and> evolves A ?s1 A st2 \<and> io_frame ?s1 st2 \<and> l_ssl_data st2 = Some ?d"
    using flush_ready [OF 1(1)] 1(1) io_frame_refl evolves_refl by (auto simp: ssl_ready_def)
  then obtain st2 where 2: "(if sl_last_write_was_msg_more d \<and> \<not> mm then us_socket_flush s ?s1 else Some ?s1) = Some st2"
    "ssl_ready U C A s st2" "evolves A ?s1 A st2" "io_frame ?s1 st2" "l_ssl_data st2 = Some ?d" by blast
  have I2: "us_inv A st2" and k2: "is_sock st2 s" and est: "established st2 s"
    using 2(2) open_sockD(1) [OF us_invD(1)] by (auto simp: ssl_ready_def)
  have est': "established x s" if "polls x = polls st2" for x using est that by (simp add: established_def type3_def)
  note e12 = evolves_trans [OF 1(2) 2(3)] and f12 = io_frame_trans [OF 1(3) 2(4)]
  have w: "ssl_write_end OS s mm written st = (if written > 0 then Some (written, st2) else
     let err = o_get_error OS st2 (ss_ssl (ssl_socks st2 s)) written in
     if err = SSL_ERROR_WANT_READ then map_option (\<lambda>st. (0, st)) (wr_ssl s (\<lambda>x. x\<lparr>ss_write_wants_read := True\<rparr>) st2)
     else Some (0, clear_error_queue err st2))"
    using 2(1) k2 d by (simp add: ssl_write_end_def upd_data_def rd_ssl_def Let_def map_option_case split: option.split)
  show ?thesis
  proof (cases "written > 0")
    case True
    have "ssl_flags_only s st2 st2" by (simp add: ssl_flags_only_def)
    then show ?thesis using True w e12 2(5) ssl_flags_onlyI [OF f12] est by simp
  next
    case False
    from flags_upd [OF I2 k2] obtain st3 where
      3: "wr_ssl s (\<lambda>x. x\<lparr>ss_write_wants_read := True\<rparr>) st2 = Some st3" "ssl_flags_only s st2 st3" "evolves A st2 A st3"
        "l_ssl_data st3 = l_ssl_data st2" "polls st3 = polls st2" by blast
    note q = clear_queue_flags [OF I2]
    show ?thesis
      using False w 3(1,4) 2(5) q(3) ssl_flags_onlyI [OF f12 3(2)] ssl_flags_onlyI [OF f12 q(1)]
        evolves_trans [OF e12 3(3)] evolves_trans [OF e12 q(2)] est' [OF 3(5)] est' [OF q(4)]
      by (simp add: Let_def)
  qed
qed


lemma write_unfold:
  fixes mm :: bool
  assumes k: "is_sock st s" and c: "s_prev (socks st s) \<noteq> s_context (socks st s)" and x: "is_ctx st (s_context (socks st s))"
    and d: "l_ssl_data st = Some d"
  defines "st1 \<equiv> st\<lparr>l_ssl_data := Some (d\<lparr>sl_read_input_length := 0, sl_ssl_socket := s, sl_msg_more := mm,
    sl_last_write_was_msg_more := False\<rparr>)\<rparr>"
  assumes n: "us_internal_ssl_socket_is_shut_down OS s st = Some False"
  shows "us_internal_ssl_socket_write OS K U s data mm st =
    Option.bind (ssl_write OS K U (ss_ssl (ssl_socks st s)) data st1) (\<lambda>(written, st). ssl_write_end OS s mm written st)"
  using assms
  by (simp add: us_internal_ssl_socket_write_def us_socket_context_def upd_data_def rd_ssl_def ssl_write_end_def)

lemma ssl_socket_write_ok:
  assumes O: "openssl_ok C OS" and I: "us_inv A st" and o: "open_sock A s" and e: "established st s"
    and w: "window_ok st" and n: "names_ready U C st"
  shows "\<exists>r st'. us_internal_ssl_socket_write OS K U s data mm st = Some (r, st') \<and> 0 \<le> r \<and> r \<le> int (length data) \<and>
    evolves A st A st' \<and> ssl_flags_only s st st' \<and> established st' s \<and>
    (if us_internal_ssl_socket_is_shut_down OS s st = Some True then r = 0 \<and> st' = st
     else pending_input st' = [] \<and> window_ok st' \<and> (\<exists>d. l_ssl_data st' = Some d \<and> \<not> sl_msg_more d))"
proof -
  note od = open_sockD [OF us_invD(1) [OF I] o]
  obtain d where d: "l_ssl_data st = Some d" and
    b: "sl_read_input_offset d + sl_read_input_length d \<le> length (sl_read_input d)"
    using w by (auto simp: window_ok_def)
  show ?thesis
  proof (cases "us_internal_ssl_socket_is_shut_down OS s st = Some True")
    case True
    then have "us_internal_ssl_socket_write OS K U s data mm st = Some (0, st)"
      using od by (simp add: us_internal_ssl_socket_write_def)
    moreover have "ssl_flags_only s st st" by (simp add: ssl_flags_only_def)
    ultimately show ?thesis using True evolves_refl [OF I] e by simp
  next
    case False
    then have ns: "us_internal_ssl_socket_is_shut_down OS s st = Some False" using ssl_is_shut_down_eq [OF od(1)] by simp
    let ?d = "d\<lparr>sl_read_input_length := 0, sl_ssl_socket := s, sl_msg_more := mm, sl_last_write_was_msg_more := False\<rparr>"
    let ?s1 = "st\<lparr>l_ssl_data := Some ?d\<rparr>"
    let ?ssl = "ss_ssl (ssl_socks st s)"
    have b1: "sl_read_input_offset ?d + sl_read_input_length ?d \<le> length (sl_read_input ?d)" using b by simp
    note 1 = ready_data [OF I o e n _ b1, simplified]
    from ssl_write_ok [OF O 1(1), of K ?ssl data] obtain r st2 where
      2: "ssl_write OS K U ?ssl data ?s1 = Some (r, st2)" "r \<le> int (length data)" "ssl_ready U C A s st2"
        "evolves A ?s1 A st2" "io_frame ?s1 st2" "data_used ?s1 st2" by blast
    from 2(6) obtain d2 where d2: "l_ssl_data st2 = Some d2" "sl_read_input_length d2 = 0"
      by (auto simp: data_used_def)
    have w2: "sl_read_input_offset d2 \<le> length (sl_read_input d2)" using 2(3) d2 by (simp add: ssl_ready_def window_ok_def)
    from ssl_write_end_ok [OF 2(3) d2(1), of OS mm r] obtain st3 where
      3: "ssl_write_end OS s mm r st2 = Some (max 0 r, st3)" "evolves A st2 A st3" "ssl_flags_only s st2 st3"
        "l_ssl_data st3 = Some (d2\<lparr>sl_msg_more := False\<rparr>)" "established st3 s" by blast
    have call: "us_internal_ssl_socket_write OS K U s data mm st = Some (max 0 r, st3)"
      using write_unfold [OF od(1,6,4) d ns, of K U data mm] 2(1) 3(1) by simp
    have fin: "pending_input st3 = []" "window_ok st3" "\<exists>d. l_ssl_data st3 = Some d \<and> \<not> sl_msg_more d"
      using 3(4) d2(2) w2 by (simp_all add: pending_input_def window_ok_def)
    have ev: "evolves A st A st3" using evolves_trans [OF evolves_trans [OF 1(2) 2(4)] 3(2)] .
    have fl: "ssl_flags_only s st st3" using ssl_flags_onlyI [OF io_frame_trans [OF 1(3) 2(5)] 3(3)] .
    show ?thesis using call 2(2) ev fl fin False 3(5) by simp
  qed
qed

text \<open>
  C21. Writing to an SSL socket that is open and established is total. It takes between none and all
  of the bytes, whatever OpenSSL and the kernel answer; of the sockets it changes the flags of this
  one at most, calls no handler of the user, and keeps the invariant of the loop. On a socket that
  is shut down it is a no-op that returns 0; otherwise the input still pending for this loop is
  dropped, and no message is left marked as unfinished.
\<close>

theorem us_internal_ssl_socket_write_correct:
  assumes O: "openssl_ok C OS" and I: "us_inv A st" and o: "open_sock A s" and e: "established st s"
    and w: "window_ok st" and n: "names_ready U C st"
  shows "\<exists>r st'. us_internal_ssl_socket_write OS K U s data mm st = Some (r, st') \<and> 0 \<le> r \<and> r \<le> int (length data) \<and>
    evolves A st A st' \<and> ssl_flags_only s st st' \<and> established st' s \<and>
    (if us_internal_ssl_socket_is_shut_down OS s st = Some True then r = 0 \<and> st' = st
     else pending_input st' = [] \<and> window_ok st' \<and> (\<exists>d. l_ssl_data st' = Some d \<and> \<not> sl_msg_more d))"
  using assms by (rule ssl_socket_write_ok)


section \<open>Reading\<close>

text \<open>What happens between two states, as the trace tells: the data handed to the user, the bytes OpenSSL gave.\<close>

definition views :: "us \<Rightarrow> us \<Rightarrow> byte list list \<Rightarrow> byte list \<Rightarrow> nat \<Rightarrow> bool" where
  "views st st' ds bs k \<longleftrightarrow>
     (\<exists>tr. trace st' = trace st @ tr \<and> user_datas tr = ds \<and> bytes_read tr = bs \<and> ssl_reads tr = k)"

lemma views_same: "views st st' [] [] 0 = same_views st st'"
  by (simp add: views_def same_views_def)

lemma views_trans: "views a b d1 b1 k1 \<Longrightarrow> views b c d2 b2 k2 \<Longrightarrow> views a c (d1 @ d2) (b1 @ b2) (k1 + k2)"
  unfolding views_def by (elim exE conjE) (rule exI, auto)

lemma views_emit: "views st (emit e st) (user_datas [e]) (bytes_read [e]) (ssl_reads [e])"
  by (auto simp: views_def)

lemma views_reads: "views st st' ds bs k \<Longrightarrow> ssl_reads (trace st') = ssl_reads (trace st) + k"
  by (auto simp: views_def)

text \<open>What every step of reading leaves alone; the user may keep what it gets in its own memory.\<close>

definition core_frame :: "us \<Rightarrow> us \<Rightarrow> bool" where
  "core_frame st st' \<longleftrightarrow> objs st' = objs st \<and> socks st' = socks st \<and> ctxs st' = ctxs st \<and> ssl_ctxs st' = ssl_ctxs st \<and>
     (\<forall>t. ss_ssl (ssl_socks st' t) = ss_ssl (ssl_socks st t))"

lemma core_frame_refl: "core_frame st st" by (simp add: core_frame_def)

lemma core_frame_trans: "core_frame st st1 \<Longrightarrow> core_frame st1 st2 \<Longrightarrow> core_frame st st2"
  by (simp add: core_frame_def)

lemma io_core: "io_frame st st' \<Longrightarrow> core_frame st st'" "io_frame st st' \<Longrightarrow> views st st' [] [] 0"
  by (simp_all add: io_frame_def core_frame_def views_same)

definition user_frame :: "us \<Rightarrow> us \<Rightarrow> bool" where
  "user_frame st st' \<longleftrightarrow> (\<exists>x y. st' = st\<lparr>u_ext := x, u_heap := y\<rparr>)"

text \<open>Handlers that return their socket and touch nothing but the user's own memory.\<close>

definition quiet_user :: "handlers \<Rightarrow> bool" where
  "quiet_user U \<longleftrightarrow> (\<forall>f s d st. \<exists>st'. h_data U f s d st = Some (s, st') \<and> user_frame st st') \<and>
     (\<forall>f s code reason st. \<exists>st'. h_close U f s code reason st = Some (s, st') \<and> user_frame st st')"

text \<open>The handlers a context of the SSL layer needs for reading.\<close>

definition ssl_ctx_good :: "us \<Rightarrow> addr \<Rightarrow> bool" where
  "ssl_ctx_good st c \<longleftrightarrow> c_on_close (ctxs st c) = FnSslOnClose \<and> sc_on_data (ssl_ctxs st c) \<noteq> FnNull \<and>
     sc_on_close (ssl_ctxs st c) \<noteq> FnNull"

definition reading :: "handlers \<Rightarrow> (addr \<Rightarrow> bool) \<Rightarrow> alists \<Rightarrow> addr \<Rightarrow> us \<Rightarrow> bool" where
  "reading U C A s st \<longleftrightarrow> ssl_ready U C A s st \<and> ssl_ctx_good st (s_context (socks st s))"

lemma reading_frame: "reading U C A s st \<Longrightarrow> core_frame st st' \<Longrightarrow> ssl_ready U C A s st' \<Longrightarrow> reading U C A s st'"
  by (simp add: reading_def core_frame_def ssl_ctx_good_def)

lemma readingD:
  assumes "reading U C A s st"
  shows "ssl_ready U C A s st" "us_inv A st" "open_sock A s" "is_sock st s" "is_ctx st (s_context (socks st s))"
    "s_context (socks st s) \<noteq> s_prev (socks st s)" "ssl_ctx_good st (s_context (socks st s))"
proof -
  show r: "ssl_ready U C A s st" "ssl_ctx_good st (s_context (socks st s))" using assms by (simp_all add: reading_def)
  show I: "us_inv A st" and o: "open_sock A s" using r(1) by (simp_all add: ssl_ready_def)
  note od = open_sockD [OF us_invD(1) [OF I] o]
  show "is_sock st s" "is_ctx st (s_context (socks st s))" "s_context (socks st s) \<noteq> s_prev (socks st s)"
    using od(1,4,6) by auto
qed

lemma bio_all_conj: "bio_all (\<lambda>x. P x \<and> Q x) t \<longleftrightarrow> bio_all P t \<and> bio_all Q t"
  by (induction t) auto

text \<open>
  After \<open>N\<close> calls \<open>SSL_read\<close> has no more to give: the input of one event is finite. It may be any
  number.
\<close>

definition reads_end :: "nat \<Rightarrow> openssl \<Rightarrow> bool" where
  "reads_end N OS \<longleftrightarrow> (\<forall>st ssl n. N < ssl_reads (trace st) \<longrightarrow> bio_all (\<lambda>x. fst x \<le> 0) (o_read OS st ssl n))"

lemma any_emit:
  assumes "ssl_ready U C A s x"
  shows "ssl_ready U C A s (emit e x)" "evolves A x A (emit e x)" "core_frame x (emit e x)"
  using assms
  by (simp_all add: ssl_ready_def established_def type3_def window_ok_def names_ready_def evolves_def core_frame_def)

lemma ssl_read_ok:
  assumes O: "openssl_ok C OS" and N: "reads_end N OS" and r: "ssl_ready U C A s st" and n: "0 \<le> n"
  shows "\<exists>x bs st'. ssl_read OS K U ssl n st = Some ((x, bs), st') \<and> x \<le> n \<and> (0 < x \<longrightarrow> int (length bs) = x) \<and>
    (0 < x \<longrightarrow> ssl_reads (trace st) < N) \<and> ssl_ready U C A s st' \<and> evolves A st A st' \<and> core_frame st st' \<and>
    views st st' [] (if 0 < x then bs else []) 1"
proof -
  let ?e = "Ssl (SSL_read ssl n)"
  let ?s1 = "emit ?e st"
  let ?t = "o_read OS ?s1 ssl n"
  let ?P = "\<lambda>x. (fst x \<le> n \<and> (0 < fst x \<longrightarrow> int (length (snd x)) = fst x)) \<and> (0 < fst x \<longrightarrow> ssl_reads (trace st) < N)"
  have v1: "views st ?s1 [] [] 1" using views_emit [of st ?e] by (simp add: user_datas_def bytes_read_def ssl_reads_def)
  have I: "us_inv A st" using r by (simp add: ssl_ready_def)
  note 1 = any_emit [OF r, of ?e]
  have "bio_all (\<lambda>x. 0 < fst x \<longrightarrow> ssl_reads (trace st) < N) ?t"
  proof (cases "ssl_reads (trace st) < N")
    case True
    have "bio_all (\<lambda>x. True) t" for t :: "(int \<times> byte list) bio" by (induction t) auto
    then show ?thesis using True by simp
  next
    case False
    then have "N < ssl_reads (trace ?s1)" using views_reads [OF v1] by simp
    then have "bio_all (\<lambda>x. fst x \<le> 0) ?t" using N by (simp add: reads_end_def)
    then show ?thesis by (induction ?t) (auto simp: False not_less)
  qed
  then have P: "bio_all ?P ?t" using O n by (simp add: bio_all_conj openssl_ok_def)
  have "bio_names C ?t" using O n by (simp add: openssl_ok_def)
  from run_bio_ok [OF 1(1) this P, of OS K ssl] obtain y st2 where
    2: "run_bio OS K U ssl ?t ?s1 = Some (y, st2)" "?P y" "ssl_ready U C A s st2" "evolves A ?s1 A st2"
      "io_frame ?s1 st2" "data_used ?s1 st2" by blast
  obtain x bs where y: "y = (x, bs)" by fastforce
  let ?e3 = "Ssl (SSL_read_ret x bs)"
  note 3 = any_emit [OF 2(3), of ?e3]
  have v3: "views st2 (emit ?e3 st2) [] (if 0 < x then bs else []) 0"
    using views_emit [of st2 ?e3] by (simp add: user_datas_def bytes_read_def ssl_reads_def)
  have v: "views st (emit ?e3 st2) [] (if 0 < x then bs else []) 1"
    using views_trans [OF views_trans [OF v1 io_core(2) [OF 2(5)]] v3] by simp
  have "ssl_read OS K U ssl n st = Some ((x, bs), emit ?e3 st2)" using 2(1) y by (simp add: ssl_read_def)
  then show ?thesis
    using 2(2) y 3(1) v evolves_trans [OF evolves_trans [OF 1(2) 2(4)] 3(2)]
      core_frame_trans [OF core_frame_trans [OF 1(3) io_core(1) [OF 2(5)]] 3(3)] by simp
qed

text \<open>Handing data to a quiet user.\<close>

lemma user_frame_keeps:
  assumes "user_frame st st'"
  shows "ssl_ready U C A s st' = ssl_ready U C A s st" "core_frame st st'" "views st st' [] [] 0"
    "us_inv A st' = us_inv A st" "grows A st A st'" "socks st' = socks st" "objs st' = objs st"
    "us_socket_is_closed s st' = us_socket_is_closed s st"
  using assms
  by (auto simp: user_frame_def ssl_ready_def core_frame_def views_def established_def type3_def window_ok_def
      names_ready_def is_ctx_def grows_def sweep_ok_def sweep_rest_def us_socket_is_closed_def rd_sock_def is_sock_def)

lemma emit_data_ok:
  assumes Q: "quiet_user U" and r: "reading U C A s st"
  shows "\<exists>st'. emit_data U s out st = Some (s, st') \<and> reading U C A s st' \<and> evolves A st A st' \<and> core_frame st st' \<and>
    views st st' [out] [] 0 \<and> us_socket_is_closed s st' = Some False"
proof -
  note rd = readingD [OF r]
  let ?c = "s_context (socks st s)"
  let ?e = "Ssl (UserData s out)"
  let ?f = "sc_on_data (ssl_ctxs st ?c)"
  have f: "?f \<noteq> FnNull" using rd(7) by (simp add: ssl_ctx_good_def)
  from Q obtain st' where 1: "h_data U ?f s out (emit ?e st) = Some (s, st')" "user_frame (emit ?e st) st'"
    unfolding quiet_user_def by blast
  note k = user_frame_keeps [OF 1(2)]
  have v: "views st st' [out] [] 0" using views_trans [OF views_emit [of st ?e] k(3)]
    by (simp add: user_datas_def bytes_read_def ssl_reads_def)
  have c: "core_frame st st'" using k(2) by (simp add: core_frame_def)
  have "ssl_ready U C A s st'" using k(1) [of U C A s] any_emit(1) [OF rd(1), of ?e] by simp
  then have r': "reading U C A s st'" using reading_frame [OF r c] by simp
  have ev: "evolves A st A st'"
    using grows_trans [OF grows_emit [OF grows_refl [of A st]] k(5)] k(4) rd(2) by (simp only: evolves_def inv_loop_fields)
  have "us_socket_is_closed s st' = Some False" using readingD [OF r'] by simp
  moreover have "emit_data U s out st = Some (s, st')"
    using rd f 1(1) by (simp add: emit_data_def us_socket_context_def rd_sslctx_def user_data_def)
  ultimately show ?thesis using r' ev c v by blast
qed


text \<open>Closing from inside the SSL layer: the SSL object is freed and the user told, then the socket is closed.\<close>

lemma no_views_close [simp]:
  "no_view (EpollCtlDel fd)" "no_view (Close fd)" "no_view (OnClose s code reason)" "no_view (Ssl (SSL_free a))"
  "no_view (Ssl (UserClose s code reason))"
  by (simp_all add: no_view_def user_datas_def bytes_read_def ssl_reads_def)

lemma ssl_close_ok:
  assumes Q: "quiet_user U" and r: "reading U C A s st"
  shows "\<exists>st'. us_internal_ssl_socket_close OS U s 0 NULL st = Some (s, st') \<and>
    us_inv (abs_close (s_context (socks st s)) s A) st' \<and> us_socket_is_closed s st' = Some True \<and> views st st' [] [] 0"
proof -
  note rd = readingD [OF r]
  let ?c = "s_context (socks st s)"
  let ?H = "ssl_close_handlers OS U"
  from close_steps [OF rd(2) open_live [OF rd(3)], of ?H 0 NULL] obtain st2 where
    2: "us_socket_close ?H s 0 NULL st = call_close ?H (c_on_close (ctxs st ?c)) s 0 NULL st2"
      "evolves A st (abs_close ?c s A) st2" "close_effect s st st2" by blast
  note e = 2(3) [unfolded close_effect_def]
  let ?s3 = "emit (OnClose s 0 NULL) st2"
  let ?s4 = "emit (Ssl (UserClose s 0 NULL)) (emit (Ssl (SSL_free (ss_ssl (ssl_socks st s)))) ?s3)"
  let ?f = "sc_on_close (ssl_ctxs st ?c)"
  have k: "is_sock st2 s" "is_ctx st2 ?c" using access_cong [of st2 _ st] e rd(4,5) by simp_all
  from Q obtain st' where 3: "h_close U ?f s 0 NULL ?s4 = Some (s, st')" "user_frame ?s4 st'"
    unfolding quiet_user_def by blast
  note u = user_frame_keeps [OF 3(2)]
  have "us_internal_ssl_socket_close OS U s 0 NULL st = Some (s, st')"
    using 2(1) rd(7) 3(1) k e
    by (simp add: us_internal_ssl_socket_close_def ssl_ctx_good_def call_close_def ssl_close_handlers_def
        ssl_on_close_def us_socket_context_def rd_sslctx_def rd_ssl_def user_close_def)
  moreover have "us_inv (abs_close ?c s A) st'" using u(4) 2(2) by (simp add: evolves_def)
  moreover have "us_socket_is_closed s st' = Some True" using u(8) k(1) e by (simp add: us_socket_is_closed_def)
  moreover have "views st st' [] [] 0"
  proof -
    have "views st ?s4 [] [] 0"
      using e by (simp add: views_def user_datas_def bytes_read_def ssl_reads_def)
    then show ?thesis using views_trans [OF _ u(3)] by fastforce
  qed
  ultimately show ?thesis by blast
qed

definition chunks_ok :: "byte list list \<Rightarrow> bool" where
  "chunks_ok ds \<longleftrightarrow> (\<forall>d\<in>set ds. d \<noteq> [] \<and> int (length d) \<le> LIBUS_RECV_BUFFER_LENGTH)"

text \<open>
  The result of reading: either all that was read has been handed over and the socket is still
  open, or it is closed and what was handed over is a first part of what was read.
\<close>

definition read_result ::
  "handlers \<Rightarrow> (addr \<Rightarrow> bool) \<Rightarrow> alists \<Rightarrow> addr \<Rightarrow> byte list \<Rightarrow> us \<Rightarrow> bool \<Rightarrow> us \<Rightarrow> bool" where
  "read_result U C A s out st go st' \<longleftrightarrow> (\<exists>ds bs k. views st st' ds bs k \<and> chunks_ok ds \<and> prefix (concat ds) (out @ bs) \<and>
     (if go then concat ds = out @ bs \<and> reading U C A s st' \<and> evolves A st A st' \<and> core_frame st st'
      else us_inv (abs_close (s_context (socks st s)) s A) st' \<and> us_socket_is_closed s st' = Some True))"

lemma read_result_trans:
  assumes "views st st1 ds1 bs1 k1" "chunks_ok ds1" "concat ds1 @ out1 = out @ bs1" "evolves A st A st1" "core_frame st st1"
    and r: "read_result U C A s out1 st1 go st2"
  shows "read_result U C A s out st go st2"
proof -
  from r obtain ds bs k where v: "views st1 st2 ds bs k" and c: "chunks_ok ds" "prefix (concat ds) (out1 @ bs)" and
    e: "if go then concat ds = out1 @ bs \<and> reading U C A s st2 \<and> evolves A st1 A st2 \<and> core_frame st1 st2
      else us_inv (abs_close (s_context (socks st1 s)) s A) st2 \<and> us_socket_is_closed s st2 = Some True"
    unfolding read_result_def by blast
  have o: "out @ (bs1 @ bs) = concat ds1 @ (out1 @ bs)" using assms(3) by (metis append.assoc)
  have sk: "socks st1 = socks st" using assms(5) by (simp add: core_frame_def)
  have "prefix (concat (ds1 @ ds)) (out @ (bs1 @ bs))" using c(2) unfolding o by simp
  moreover have "chunks_ok (ds1 @ ds)" using assms(2) c(1) by (auto simp: chunks_ok_def)
  moreover have "if go then concat (ds1 @ ds) = out @ (bs1 @ bs) \<and> reading U C A s st2 \<and> evolves A st A st2 \<and> core_frame st st2
      else us_inv (abs_close (s_context (socks st s)) s A) st2 \<and> us_socket_is_closed s st2 = Some True"
    using e o evolves_trans [OF assms(4)] core_frame_trans [OF assms(5)] sk by (cases go) simp_all
  ultimately show ?thesis unfolding read_result_def using views_trans [OF assms(1) v] by blast
qed

lemma read_result_closed:
  assumes "views st st1 [] bs1 k1" "core_frame st st1" "us_inv (abs_close (s_context (socks st1 s)) s A) st2"
    "us_socket_is_closed s st2 = Some True" "views st1 st2 [] [] 0"
  shows "read_result U C A s out st False st2"
proof -
  have v: "views st st2 [] bs1 k1" using views_trans [OF assms(1,5)] by simp
  have "socks st1 = socks st" using assms(2) by (simp add: core_frame_def)
  then show ?thesis unfolding read_result_def using v assms(3,4)
    by (intro exI [of _ "[]"] exI [of _ bs1] exI [of _ k1]) (simp add: chunks_ok_def)
qed

lemma read_result_go:
  assumes "views st st1 ds bs k" "chunks_ok ds" "concat ds = out @ bs" "reading U C A s st1" "evolves A st A st1" "core_frame st st1"
  shows "read_result U C A s out st True st1"
  unfolding read_result_def using assms by (intro exI [of _ ds] exI [of _ bs] exI [of _ k]) simp

text \<open>Setting the flag of a read that wants to write.\<close>

lemma want_write_ok:
  assumes r: "reading U C A s st"
  shows "\<exists>st'. (if b then wr_ssl s (\<lambda>x. x\<lparr>ss_read_wants_write := True\<rparr>) st else Some st) = Some st' \<and>
    reading U C A s st' \<and> evolves A st A st' \<and> core_frame st st' \<and> views st st' [] [] 0 \<and> l_ssl_data st' = l_ssl_data st"
proof (cases b)
  case True
  note rd = readingD [OF r]
  let ?s = "st\<lparr>ssl_socks := (ssl_socks st)(s := (ssl_socks st s)\<lparr>ss_read_wants_write := True\<rparr>)\<rparr>"
  have c: "core_frame st ?s" by (simp add: core_frame_def)
  have "ssl_ready U C A s ?s" using rd(1)
    by (simp add: ssl_ready_def established_def type3_def window_ok_def names_ready_def)
  then have "reading U C A s ?s" using reading_frame [OF r c] by simp
  moreover have "evolves A st A ?s" using rd(2) by (simp add: evolves_def grows_def sweep_ok_def sweep_rest_def)
  moreover have "views st ?s [] [] 0" by (simp add: views_def)
  ultimately show ?thesis using True rd(4) c by (simp add: wr_ssl_def)
next
  case False
  then show ?thesis using r readingD(2) [OF r] evolves_refl core_frame_refl by (simp add: views_def)
qed

lemma clear_queue_core:
  assumes r: "reading U C A s st"
  shows "reading U C A s (clear_error_queue err st)" "core_frame st (clear_error_queue err st)"
    "views st (clear_error_queue err st) [] [] 0"
proof -
  let ?e = "Ssl ERR_clear_error"
  note e = any_emit [OF readingD(1) [OF r], of ?e]
  have v: "views st (emit ?e st) [] [] 0"
    using views_emit [of st ?e] by (simp add: user_datas_def bytes_read_def ssl_reads_def)
  have "views st st [] [] 0" by (simp add: views_def)
  then show "reading U C A s (clear_error_queue err st)" "core_frame st (clear_error_queue err st)"
    "views st (clear_error_queue err st) [] [] 0"
    using r reading_frame [OF r e(3,1)] v e(3) core_frame_refl by (simp_all add: clear_error_queue_def)
qed


text \<open>What the loop does once \<open>SSL_read\<close> has nothing to give.\<close>

definition read_stop :: "openssl \<Rightarrow> handlers \<Rightarrow> addr \<Rightarrow> int \<Rightarrow> byte list \<Rightarrow> int \<Rightarrow> us \<Rightarrow> (bool \<times> addr \<times> us) option" where
  "read_stop OS U s read out just_read st = do {
     ss \<leftarrow> rd_ssl s st;
     let err = o_get_error OS st (ss_ssl ss) just_read;
     if err \<noteq> SSL_ERROR_WANT_READ \<and> err \<noteq> SSL_ERROR_WANT_WRITE then do {
       (s, st) \<leftarrow> us_internal_ssl_socket_close OS U s 0 NULL (clear_error_queue err st);
       Some (False, s, st)
     } else do {
       st \<leftarrow> (if err = SSL_ERROR_WANT_WRITE then wr_ssl s (\<lambda>x. x\<lparr>ss_read_wants_write := True\<rparr>) st else Some st);
       d \<leftarrow> l_ssl_data st;
       if sl_read_input_length d \<noteq> 0 then do {
         (s, st) \<leftarrow> us_internal_ssl_socket_close OS U s 0 NULL st;
         Some (False, s, st)
       } else if read = 0 then Some (True, s, st)
       else do {
         (s, st) \<leftarrow> emit_data U s out st;
         closed \<leftarrow> us_socket_is_closed s st;
         Some (\<not> closed, s, st)
       }
     }
   }"

lemma read_stop_ok:
  assumes Q: "quiet_user U" and r: "reading U C A s st"
    and l: "int (length out) = read" "read < LIBUS_RECV_BUFFER_LENGTH"
  shows "\<exists>go st'. read_stop OS U s read out x st = Some (go, s, st') \<and> read_result U C A s out st go st'"
proof -
  note rd = readingD [OF r]
  define err where "err = o_get_error OS st (ss_ssl (ssl_socks st s)) x"
  have ss: "rd_ssl s st = Some (ssl_socks st s)" using rd(4) by (simp add: rd_ssl_def)
  show ?thesis
  proof (cases "err \<noteq> SSL_ERROR_WANT_READ \<and> err \<noteq> SSL_ERROR_WANT_WRITE")
    case True
    note q = clear_queue_core [OF r, of err]
    from ssl_close_ok [OF Q q(1), of OS] obtain st' where
      c: "us_internal_ssl_socket_close OS U s 0 NULL (clear_error_queue err st) = Some (s, st')"
        "us_inv (abs_close (s_context (socks (clear_error_queue err st) s)) s A) st'"
        "us_socket_is_closed s st' = Some True" "views (clear_error_queue err st) st' [] [] 0" by blast
    have "read_stop OS U s read out x st = Some (False, s, st')"
      using ss True c(1) by (simp add: read_stop_def flip: err_def)
    then show ?thesis using read_result_closed [OF q(3,2) c(2-4)] by blast
  next
    case False
    from want_write_ok [OF r, of "err = SSL_ERROR_WANT_WRITE"] obtain st1 where
      1: "(if err = SSL_ERROR_WANT_WRITE then wr_ssl s (\<lambda>x. x\<lparr>ss_read_wants_write := True\<rparr>) st else Some st) = Some st1"
        "reading U C A s st1" "evolves A st A st1" "core_frame st st1" "views st st1 [] [] 0" by blast
    obtain d where d: "l_ssl_data st1 = Some d" using readingD(1) [OF 1(2)] by (auto simp: ssl_ready_def)
    have unf: "read_stop OS U s read out x st = (if sl_read_input_length d \<noteq> 0 then
        Option.bind (us_internal_ssl_socket_close OS U s 0 NULL st1) (\<lambda>(s, st). Some (False, s, st))
      else if read = 0 then Some (True, s, st1)
      else Option.bind (emit_data U s out st1)
        (\<lambda>(s, st). Option.bind (us_socket_is_closed s st) (\<lambda>closed. Some (\<not> closed, s, st))))"
      using ss False 1(1) d by (auto simp: read_stop_def simp flip: err_def)
    consider (left) "sl_read_input_length d \<noteq> 0" | (none) "sl_read_input_length d = 0" "read = 0"
      | (some) "sl_read_input_length d = 0" "read \<noteq> 0" by blast
    then show ?thesis
    proof cases
      case left
      from ssl_close_ok [OF Q 1(2), of OS] obtain st' where
        c: "us_internal_ssl_socket_close OS U s 0 NULL st1 = Some (s, st')"
          "us_inv (abs_close (s_context (socks st1 s)) s A) st'"
          "us_socket_is_closed s st' = Some True" "views st1 st' [] [] 0" by blast
      then show ?thesis using unf left read_result_closed [OF 1(5,4) c(2-4)] by auto
    next
      case none
      have "chunks_ok []" "concat [] = out @ ([] :: byte list)" using l none by (auto simp: chunks_ok_def)
      from read_result_go [OF 1(5) this 1(2-4)] show ?thesis using unf none by auto
    next
      case some
      from emit_data_ok [OF Q 1(2), of out] obtain st2 where
        2: "emit_data U s out st1 = Some (s, st2)" "reading U C A s st2" "evolves A st1 A st2" "core_frame st1 st2"
          "views st1 st2 [out] [] 0" "us_socket_is_closed s st2 = Some False" by blast
      have v: "views st st2 [out] [] 0" using views_trans [OF 1(5) 2(5)] by simp
      have c: "chunks_ok [out]" "concat [out] = out @ []" using l some by (auto simp: chunks_ok_def)
      have "read_result U C A s out st True st2"
        using read_result_go [OF v c 2(2) evolves_trans [OF 1(3) 2(3)] core_frame_trans [OF 1(4) 2(4)]] .
      then show ?thesis using unf some 2(1,6) by auto
    qed
  qed
qed

lemma read_loop_unfold:
  assumes k: "is_sock st s"
    and r: "ssl_read OS K U (ss_ssl (ssl_socks st s)) (LIBUS_RECV_BUFFER_LENGTH - read) st = Some ((x, bs), st1)"
  shows "ssl_read_loop OS K U s read out st = (if x \<le> 0 then read_stop OS U s read out x st1
    else if read + x = LIBUS_RECV_BUFFER_LENGTH then
      Option.bind (emit_data U s (out @ bs) st1) (\<lambda>(s, st). Option.bind (us_socket_is_closed s st)
        (\<lambda>closed. if closed then Some (False, s, st) else ssl_read_loop OS K U s 0 [] st))
    else ssl_read_loop OS K U s (read + x) (out @ bs) st1)"
  using assms by (subst ssl_read_loop.simps) (simp add: rd_ssl_def read_stop_def)

lemma ssl_read_loop_ok:
  assumes O: "openssl_ok C OS" and N: "reads_end N OS" and Q: "quiet_user U"
  shows "reading U C A s st \<Longrightarrow> int (length out) = read \<Longrightarrow> read < LIBUS_RECV_BUFFER_LENGTH \<Longrightarrow>
    \<exists>go st'. ssl_read_loop OS K U s read out st = Some (go, s, st') \<and> read_result U C A s out st go st'"
proof (induction "N - ssl_reads (trace st)" arbitrary: st read out rule: less_induct)
  case less
  note rd = readingD [OF less.prems(1)]
  let ?n = "LIBUS_RECV_BUFFER_LENGTH - read"
  have "0 \<le> ?n" using less.prems(3) by simp
  from ssl_read_ok [OF O N rd(1) this, of K "ss_ssl (ssl_socks st s)"] obtain x bs st1 where
    1: "ssl_read OS K U (ss_ssl (ssl_socks st s)) ?n st = Some ((x, bs), st1)" "x \<le> ?n"
      "0 < x \<longrightarrow> int (length bs) = x" "0 < x \<longrightarrow> ssl_reads (trace st) < N" "ssl_ready U C A s st1" "evolves A st A st1"
      "core_frame st st1" "views st st1 [] (if 0 < x then bs else []) 1" by blast
  have r1: "reading U C A s st1" using reading_frame [OF less.prems(1) 1(7,5)] .
  note unf = read_loop_unfold [OF rd(4) 1(1), of out]
  have c0: "chunks_ok []" by (simp add: chunks_ok_def)
  show ?case
  proof (cases "0 < x")
    case False
    from read_stop_ok [OF Q r1 less.prems(2,3), of OS x] obtain go st' where
      2: "read_stop OS U s read out x st1 = Some (go, s, st')" "read_result U C A s out st1 go st'" by blast
    have "read_result U C A s out st go st'"
      using read_result_trans [OF 1(8) c0 _ 1(6,7) 2(2)] False by simp
    then show ?thesis using unf 2(1) False by auto
  next
    case True
    then have lt: "N - ssl_reads (trace st1) < N - ssl_reads (trace st)"
      using 1(4) views_reads [OF 1(8)] by simp
    have lb: "int (length bs) = x" using 1(3) True by simp
    have v1: "views st st1 [] bs 1" using 1(8) True by simp
    show ?thesis
    proof (cases "read + x = LIBUS_RECV_BUFFER_LENGTH")
      case full: False
      have "int (length (out @ bs)) = read + x" "read + x < LIBUS_RECV_BUFFER_LENGTH"
        using lb less.prems(2) 1(2) full by simp_all
      from less.hyps [OF lt r1 this] obtain go st' where
        2: "ssl_read_loop OS K U s (read + x) (out @ bs) st1 = Some (go, s, st')" "read_result U C A s (out @ bs) st1 go st'"
        by blast
      have "read_result U C A s out st go st'" using read_result_trans [OF v1 c0 _ 1(6,7) 2(2)] by simp
      then show ?thesis using unf 2(1) True full by auto
    next
      case full: True
      from emit_data_ok [OF Q r1, of "out @ bs"] obtain st2 where
        2: "emit_data U s (out @ bs) st1 = Some (s, st2)" "reading U C A s st2" "evolves A st1 A st2" "core_frame st1 st2"
          "views st1 st2 [out @ bs] [] 0" "us_socket_is_closed s st2 = Some False" by blast
      have lt2: "N - ssl_reads (trace st2) < N - ssl_reads (trace st)" using lt views_reads [OF 2(5)] by simp
      have v2: "views st st2 [out @ bs] bs 1" using views_trans [OF v1 2(5)] by simp
      have c2: "chunks_ok [out @ bs]" using full True lb less.prems(2) by (auto simp: chunks_ok_def)
      have "int (length ([] :: byte list)) = 0" "0 < LIBUS_RECV_BUFFER_LENGTH" by (simp_all add: LIBUS_RECV_BUFFER_LENGTH_def)
      from less.hyps [OF lt2 2(2) this] obtain go st' where
        3: "ssl_read_loop OS K U s 0 [] st2 = Some (go, s, st')" "read_result U C A s [] st2 go st'" by blast
      have "read_result U C A s out st go st'"
        using read_result_trans [OF v2 c2 _ evolves_trans [OF 1(6) 2(3)] core_frame_trans [OF 1(7) 2(4)] 3(2)] by simp
      then show ?thesis using unf 2(1,6) 3(1) True full by auto
    qed
  qed
qed



definition SSL_ERROR_ZERO_RETURN :: int where "SSL_ERROR_ZERO_RETURN = 6"

text \<open>One call of \<open>SSL_read\<close> that returns at once.\<close>

lemma ssl_read_returns:
  assumes x: "reading U C A s x" and t: "o_read OS (emit (Ssl (SSL_read ssl n)) x) ssl n = BioRet (i, b)"
  shows "\<exists>st1. ssl_read OS K U ssl n x = Some ((i, b), st1) \<and> reading U C A s st1 \<and> core_frame x st1 \<and>
    views x st1 [] (if 0 < i then b else []) 1"
proof -
  let ?e = "Ssl (SSL_read ssl n)" and ?e2 = "Ssl (SSL_read_ret i b)"
  note 1 = any_emit [OF readingD(1) [OF x], of ?e]
  note 2 = any_emit [OF 1(1), of ?e2]
  note c = core_frame_trans [OF 1(3) 2(3)]
  have "views x (emit ?e2 (emit ?e x)) [] (if 0 < i then b else []) 1"
    by (simp add: views_def user_datas_def bytes_read_def ssl_reads_def)
  then show ?thesis using t c reading_frame [OF x c 2(1)] by (simp add: ssl_read_def)
qed

text \<open>
  C23. Data that arrives together with the end of the TLS stream is lost: when \<open>SSL_read\<close> gives
  bytes and then reports the peer's close notification, the socket is closed at once and the bytes
  that are already in the output buffer are never handed to the user.
\<close>

theorem ssl_close_notify_drops_data:
  assumes Q: "quiet_user U" and r: "reading U C A s st"
    and first: "\<And>x. ssl_reads (trace x) = ssl_reads (trace st) + 1 \<Longrightarrow>
      o_read OS x (ss_ssl (ssl_socks st s)) LIBUS_RECV_BUFFER_LENGTH = BioRet (int (length bs), bs)"
    and notify: "\<And>x n. ssl_reads (trace x) = ssl_reads (trace st) + 2 \<Longrightarrow>
      o_read OS x (ss_ssl (ssl_socks st s)) n = BioRet (0, [])"
    and err: "\<And>x. o_get_error OS x (ss_ssl (ssl_socks st s)) 0 = SSL_ERROR_ZERO_RETURN"
    and l: "bs \<noteq> []" "int (length bs) < LIBUS_RECV_BUFFER_LENGTH"
  shows "\<exists>st'. ssl_read_loop OS K U s 0 [] st = Some (False, s, st') \<and> views st st' [] bs 2 \<and>
    us_socket_is_closed s st' = Some True"
proof -
  let ?ssl = "ss_ssl (ssl_socks st s)"
  have n1: "ssl_reads (trace (emit (Ssl (SSL_read ?ssl n)) x)) = ssl_reads (trace x) + 1" for x n
    by (simp add: ssl_reads_def)
  from ssl_read_returns [OF r first [OF n1]] obtain st1 where
    1: "ssl_read OS K U ?ssl (LIBUS_RECV_BUFFER_LENGTH - 0) st = Some ((int (length bs), bs), st1)"
      "reading U C A s st1" "core_frame st st1" "views st st1 [] bs 1" using l(1) by fastforce
  have same: "ss_ssl (ssl_socks st1 s) = ?ssl" using 1(3) by (simp add: core_frame_def)
  have "ssl_reads (trace (emit (Ssl (SSL_read ?ssl n)) st1)) = ssl_reads (trace st) + 2" for n
    using views_reads [OF 1(4)] n1 [of n st1] by simp
  from ssl_read_returns [OF 1(2) notify [OF this]] obtain st2 where
    2: "ssl_read OS K U ?ssl (LIBUS_RECV_BUFFER_LENGTH - int (length bs)) st1 = Some ((0, []), st2)"
      "reading U C A s st2" "core_frame st1 st2" "views st1 st2 [] [] 1" by fastforce
  have same2: "ss_ssl (ssl_socks st2 s) = ?ssl" using same 2(3) by (simp add: core_frame_def)
  from ssl_close_ok [OF Q 2(2), of OS] obtain st3 where
    3: "us_internal_ssl_socket_close OS U s 0 NULL st2 = Some (s, st3)" "us_socket_is_closed s st3 = Some True"
      "views st2 st3 [] [] 0" by blast
  have stop: "read_stop OS U s (int (length bs)) bs 0 st2 = Some (False, s, st3)"
    using readingD(4) [OF 2(2)] same2 3(1) err
    by (simp add: read_stop_def rd_ssl_def SSL_ERROR_ZERO_RETURN_def SSL_ERROR_WANT_READ_def SSL_ERROR_WANT_WRITE_def
        clear_error_queue_def SSL_ERROR_SSL_def SSL_ERROR_SYSCALL_def)
  have "ssl_read_loop OS K U s 0 [] st = ssl_read_loop OS K U s (int (length bs)) bs st1"
    using read_loop_unfold [OF readingD(4) [OF r] 1(1)] l by simp
  also have "\<dots> = Some (False, s, st3)"
    using read_loop_unfold [OF readingD(4) [OF 1(2)], of OS K U "int (length bs)" 0 "[]" st2 bs] same 2(1) stop by simp
  finally have "ssl_read_loop OS K U s 0 [] st = Some (False, s, st3)" .
  moreover have "views st st3 [] bs 2" using views_trans [OF views_trans [OF 1(4) 2(4)] 3(3)] by (simp add: numeral_2_eq_2)
  ultimately show ?thesis using 3(2) by blast
qed

section \<open>At a concrete state\<close>

text \<open>The demo with an SSL context, and an OpenSSL that gives three bytes, then the end of the stream.\<close>

definition ssl_demo :: us where
  "ssl_demo = demo\<lparr>ctxs := (ctxs demo)(100 := (ctxs demo 100)\<lparr>c_on_close := FnSslOnClose\<rparr>),
     ssl_ctxs := (ssl_ctxs demo)(100 := (ssl_ctxs demo 100)\<lparr>sc_on_data := FnUser 2, sc_on_close := FnUser 4, sc_sni := Some sni_new\<rparr>),
     l_ssl_data := Some ssl_data3\<rparr>"

definition openssl1 :: openssl where
  "openssl1 = openssl0\<lparr>
     o_read := (\<lambda>st ssl n. if ssl_reads (trace st) = 1 \<and> 3 \<le> n then BioRet (3, [7, 8, 9]) else BioRet (0, [])),
     o_write := (\<lambda>st ssl d. BioServername 100 (\<lambda>_. BioWrite d (\<lambda>r. BioRet (min r (int (length d)))))),
     o_get_error := (\<lambda>st ssl r. SSL_ERROR_ZERO_RETURN)\<rparr>"

lemma openssl1_ok: "openssl_ok (\<lambda>c. c = 100) openssl1" "reads_end 1 openssl1"
  by (simp_all add: openssl_ok_def reads_end_def openssl1_def openssl0_def)

lemma handlers0_quiet: "quiet_user handlers0"
proof -
  have "user_frame st st" for st :: us
    unfolding user_frame_def by (intro exI [of _ "u_ext st"] exI [of _ "u_heap st"]) (rule us.equality, simp_all)
  then show ?thesis by (simp add: quiet_user_def handlers0_def)
qed

lemma ssl_demo_reading: "reading handlers0 (\<lambda>c. c = 100) demo_lists 21 ssl_demo"
proof -
  have c: "is_ctx demo 100" by (simp add: is_ctx_def demo_def)
  have "evolves demo_lists demo demo_lists (demo\<lparr>ctxs := (ctxs demo)(100 := (ctxs demo 100)\<lparr>c_on_close := FnSslOnClose\<rparr>)\<rparr>)"
    by (rule ctx_fields_ok [OF demo_inv c]) simp_all
  then have I: "us_inv demo_lists ssl_demo" by (simp add: ssl_demo_def evolves_def)
  have o: "open_sock demo_lists 21" by (auto simp: open_sock_def demo_lists_def)
  have e: "established ssl_demo 21" using demo_types(1) by (simp add: established_def type3_def ssl_demo_def POLL_TYPE_SOCKET_def)
  have w: "window_ok ssl_demo" by (simp add: window_ok_def ssl_demo_def ssl_data3_def)
  have n: "names_ready handlers0 (\<lambda>c. c = 100) ssl_demo"
    using c by (simp add: names_ready_def ssl_demo_def handlers0_def is_ctx_def)
  have "ssl_ctx_good ssl_demo (s_context (socks ssl_demo 21))"
    by (simp add: ssl_ctx_good_def ssl_demo_def demo_def sock0_def)
  moreover have "\<exists>d. l_ssl_data ssl_demo = Some d \<and> sl_ssl_socket d = 21" by (simp add: ssl_demo_def ssl_data3_def)
  ultimately show ?thesis using I o e w n by (simp add: reading_def ssl_ready_def)
qed

lemma ssl_demo_views: "ssl_reads (trace ssl_demo) = 0" "ss_ssl (ssl_socks ssl_demo 21) = 0"
  by (simp_all add: ssl_demo_def demo_def)

theorem us_internal_ssl_socket_write_correct_witness:
  "\<exists>r st'. us_internal_ssl_socket_write openssl1 kernel0 handlers0 21 [1, 2, 3] True ssl_demo = Some (r, st') \<and>
     0 \<le> r \<and> r \<le> 3 \<and> us_inv demo_lists st' \<and> pending_input st' = []"
proof -
  note r = readingD(1-4) [OF ssl_demo_reading]
  have h: "open_sock demo_lists 21" "established ssl_demo 21" "window_ok ssl_demo"
    "names_ready handlers0 (\<lambda>c. c = 100) ssl_demo" using r(1) by (simp_all add: ssl_ready_def)
  have t: "type3 ssl_demo 21 = 0" using demo_types(1) by (simp add: type3_def ssl_demo_def)
  have "us_internal_ssl_socket_is_shut_down openssl1 21 ssl_demo = Some False"
    using ssl_is_shut_down_eq [OF r(4), of openssl1] t
    by (simp add: openssl1_def openssl0_def poll_type_defs SSL_SENT_SHUTDOWN_def)
  then show ?thesis
    using us_internal_ssl_socket_write_correct [OF openssl1_ok(1) r(2) h, of kernel0 "[1, 2, 3]" True]
    by (auto simp: evolves_def)
qed


theorem ssl_close_notify_drops_data_witness:
  "\<exists>st'. ssl_read_loop openssl1 kernel0 handlers0 21 0 [] ssl_demo = Some (False, 21, st') \<and>
     views ssl_demo st' [] [7, 8, 9] 2 \<and> us_socket_is_closed 21 st' = Some True"
  by (rule ssl_close_notify_drops_data [OF handlers0_quiet ssl_demo_reading])
    (simp_all add: ssl_demo_views openssl1_def openssl0_def LIBUS_RECV_BUFFER_LENGTH_def)

end
