(* ===== verification/Us_Echo.thy ===== *)
theory Us_Echo
  imports Us_Ssl_Props Us_Tcp_Server
begin

text \<open>
  The two example servers: the rest of \<open>examples/tcp_server.c\<close>, and \<open>examples/echo_server.c\<close>, a
  TLS echo server that keeps in the extension of every socket what it could not send back yet.
  Blocks of the user's own heap are lists of bytes; using a block that is not allocated, or
  freeing one twice, is undefined. What the examples print is left out.
\<close>

section \<open>The user's heap\<close>

definition u_malloc :: "kernel \<Rightarrow> int \<Rightarrow> us \<Rightarrow> addr \<times> us" where
  "u_malloc K n st = (let a = k_user_malloc K st n
     in (a, if a = NULL then st else st\<lparr>u_heap := (u_heap st)(a \<mapsto> replicate (nat n) 0)\<rparr>))"

definition u_free :: "addr \<Rightarrow> us \<Rightarrow> us option" where
  "u_free a st = (if a = NULL then Some st
     else if u_heap st a = None then None else Some (st\<lparr>u_heap := (u_heap st)(a := None)\<rparr>))"

definition u_load :: "addr \<Rightarrow> int \<Rightarrow> int \<Rightarrow> us \<Rightarrow> byte list option" where
  "u_load a off n st = (if n = 0 then Some [] else if n < 0 \<or> off < 0 then None
     else case u_heap st a of None \<Rightarrow> None
     | Some b \<Rightarrow> if off + n \<le> int (length b) then Some (take (nat n) (drop (nat off) b)) else None)"

definition u_store :: "addr \<Rightarrow> int \<Rightarrow> byte list \<Rightarrow> us \<Rightarrow> us option" where
  "u_store a off bytes st = (if bytes = [] then Some st else if off < 0 then None
     else case u_heap st a of None \<Rightarrow> None
     | Some b \<Rightarrow> if nat off + length bytes \<le> length b
         then Some (st\<lparr>u_heap := (u_heap st)(a \<mapsto> take (nat off) b @ bytes @ drop (nat off + length bytes) b)\<rparr>) else None)"

definition rd_ext :: "addr \<Rightarrow> nat \<Rightarrow> us \<Rightarrow> int option" where
  "rd_ext s n st = (if is_sock st s then Some (u_ext st s n) else None)"

definition wr_ext :: "addr \<Rightarrow> nat \<Rightarrow> int \<Rightarrow> us \<Rightarrow> us option" where
  "wr_ext s n v st = (if is_sock st s then Some (st\<lparr>u_ext := (u_ext st)(s := (u_ext st s)(n := v))\<rparr>) else None)"

section \<open>The echo server\<close>

text \<open>The two fields of \<open>struct echo_socket\<close>, in its order.\<close>

definition es_backpressure :: nat where "es_backpressure = 0"
definition es_length :: nat where "es_length = 1"

definition on_echo_socket_writable :: "openssl \<Rightarrow> kernel \<Rightarrow> handlers \<Rightarrow> addr \<Rightarrow> us \<Rightarrow> (addr \<times> us) option" where
  "on_echo_socket_writable OS K U s st = do {
     p \<leftarrow> rd_ext s es_backpressure st;
     len \<leftarrow> rd_ext s es_length st;
     data \<leftarrow> u_load (nat p) 0 len st;
     (written, st) \<leftarrow> us_internal_ssl_socket_write OS K U s data False st;
     st \<leftarrow> (if written \<noteq> len then do {
           let (new_buffer, st) = u_malloc K (len - written) st;
           rest \<leftarrow> u_load (nat p) written (len - written) st;
           st \<leftarrow> u_store new_buffer 0 rest st;
           st \<leftarrow> u_free (nat p) st;
           st \<leftarrow> wr_ext s es_backpressure (int new_buffer) st;
           wr_ext s es_length (len - written) st }
         else do {
           st \<leftarrow> u_free (nat p) st;
           wr_ext s es_length 0 st });
     st \<leftarrow> us_socket_timeout s 30 st;
     Some (s, st)
   }"

definition on_echo_socket_close :: "addr \<Rightarrow> int \<Rightarrow> addr \<Rightarrow> us \<Rightarrow> (addr \<times> us) option" where
  "on_echo_socket_close s code reason st = do {
     p \<leftarrow> rd_ext s es_backpressure st;
     st \<leftarrow> u_free (nat p) st;
     Some (s, st)
   }"

definition on_echo_socket_end :: "openssl \<Rightarrow> kernel \<Rightarrow> handlers \<Rightarrow> addr \<Rightarrow> us \<Rightarrow> (addr \<times> us) option" where
  "on_echo_socket_end OS K U s st = do {
     st \<leftarrow> us_internal_ssl_socket_shutdown OS K U s st;
     us_internal_ssl_socket_close OS U s 0 NULL st
   }"

definition on_echo_socket_data ::
  "openssl \<Rightarrow> kernel \<Rightarrow> handlers \<Rightarrow> addr \<Rightarrow> byte list \<Rightarrow> us \<Rightarrow> (addr \<times> us) option" where
  "on_echo_socket_data OS K U s data st = do {
     (written, st) \<leftarrow> us_internal_ssl_socket_write OS K U s data False st;
     st \<leftarrow> (if written \<noteq> int (length data) then do {
           p \<leftarrow> rd_ext s es_backpressure st;
           len \<leftarrow> rd_ext s es_length st;
           let (new_buffer, st) = u_malloc K (len + int (length data) - written) st;
           old \<leftarrow> u_load (nat p) 0 len st;
           st \<leftarrow> u_store new_buffer 0 old st;
           st \<leftarrow> u_store new_buffer len (drop (nat written) data) st;
           st \<leftarrow> u_free (nat p) st;
           st \<leftarrow> wr_ext s es_backpressure (int new_buffer) st;
           wr_ext s es_length (len + (int (length data) - written)) st }
         else Some st);
     st \<leftarrow> us_socket_timeout s 30 st;
     Some (s, st)
   }"

definition on_echo_socket_open :: "addr \<Rightarrow> bool \<Rightarrow> byte list \<Rightarrow> us \<Rightarrow> (addr \<times> us) option" where
  "on_echo_socket_open s is_client ip st = do {
     st \<leftarrow> wr_ext s es_backpressure 0 st;
     st \<leftarrow> wr_ext s es_length 0 st;
     st \<leftarrow> us_socket_timeout s 30 st;
     Some (s, st)
   }"

definition on_echo_socket_timeout :: "openssl \<Rightarrow> handlers \<Rightarrow> addr \<Rightarrow> us \<Rightarrow> (addr \<times> us) option" where
  "on_echo_socket_timeout OS U s st = us_internal_ssl_socket_close OS U s 0 NULL st"

text \<open>
  The handlers by number: 1 open, 2 data, 3 writable, 4 close, 5 timeout, 9 and 10 before and after
  an iteration, 11 wakeup. The end handler is registered but the SSL layer puts its own in its place.
\<close>

definition echo_close_handlers :: handlers where
  "echo_close_handlers = handlers0\<lparr>h_close := (\<lambda>f s code reason st. on_echo_socket_close s code reason st)\<rparr>"

definition echo_handlers :: "openssl \<Rightarrow> kernel \<Rightarrow> handlers" where
  "echo_handlers OS K = echo_close_handlers\<lparr>
     h_open := (\<lambda>f s cl ip st. on_echo_socket_open s cl ip st),
     h_data := (\<lambda>f s d st. on_echo_socket_data OS K echo_close_handlers s d st),
     h_sock := (\<lambda>f s st. if f = FnUser 5 then on_echo_socket_timeout OS echo_close_handlers s st
        else if f = FnUser 7 then on_echo_socket_end OS K echo_close_handlers s st
        else on_echo_socket_writable OS K echo_close_handlers s st)\<rparr>"

section \<open>The main functions\<close>

definition echo_options :: us_socket_context_options_t where
  "echo_options = \<lparr>key_file_name = Some ''/home/alexhultman/uWebSockets.js/misc/key.pem'',
     cert_file_name = Some ''/home/alexhultman/uWebSockets.js/misc/cert.pem'', passphrase = Some ''1234'',
     dh_params_file_name = None, ca_file_name = None, ssl_ciphers = None, ssl_prefer_low_memory_usage = False\<rparr>"

text \<open>\<open>main\<close> of the echo server does not check that the context could be created.\<close>

definition echo_setup :: "openssl \<Rightarrow> kernel \<Rightarrow> us \<Rightarrow> (addr \<times> us) option" where
  "echo_setup OS K st = do {
     st \<leftarrow> us_create_loop K (FnUser 11) (FnUser 9) (FnUser 10) st;
     (echo_context, st) \<leftarrow> us_internal_create_ssl_socket_context OS K echo_options st;
     st \<leftarrow> us_internal_ssl_socket_context_on_open echo_context (FnUser 1) st;
     st \<leftarrow> us_internal_ssl_socket_context_on_data echo_context (FnUser 2) st;
     st \<leftarrow> us_internal_ssl_socket_context_on_writable echo_context (FnUser 3) st;
     st \<leftarrow> us_internal_ssl_socket_context_on_close echo_context (FnUser 4) st;
     st \<leftarrow> us_internal_ssl_socket_context_on_timeout echo_context (FnUser 5) st;
     st \<leftarrow> us_internal_ssl_socket_context_on_end echo_context (FnUser 7) st;
     us_internal_ssl_socket_context_listen K echo_context [] 3000 0 16 st
   }"

definition echo_main :: "openssl \<Rightarrow> kernel \<Rightarrow> us \<Rightarrow> us option" where
  "echo_main OS K st = do {
     (listen_socket, st) \<leftarrow> echo_setup OS K st;
     if listen_socket \<noteq> NULL then us_loop_run K (ssl_handlers OS K (echo_handlers OS K)) st else Some st
   }"

definition tcp_setup :: "kernel \<Rightarrow> us \<Rightarrow> (addr \<times> us) option" where
  "tcp_setup K st = do {
     st \<leftarrow> us_create_loop K (FnUser 11) (FnUser 9) (FnUser 10) st;
     (http_context, st) \<leftarrow> us_create_socket_context K st;
     if http_context = NULL then Some (NULL, st) else do {
       st \<leftarrow> us_socket_context_on_open http_context (FnUser 1) st;
       st \<leftarrow> us_socket_context_on_data http_context (FnUser 2) st;
       st \<leftarrow> us_socket_context_on_writable http_context (FnUser 3) st;
       st \<leftarrow> us_socket_context_on_close http_context (FnUser 4) st;
       st \<leftarrow> us_socket_context_on_timeout http_context (FnUser 5) st;
       st \<leftarrow> us_socket_context_on_end http_context (FnUser 7) st;
       us_socket_context_listen K http_context [] 3000 0 0 st
     }
   }"

definition tcp_main :: "kernel \<Rightarrow> us \<Rightarrow> us option" where
  "tcp_main K st = do {
     (listen_socket, st) \<leftarrow> tcp_setup K st;
     if listen_socket \<noteq> NULL then us_loop_run K (tcp_handlers K) st else Some st
   }"


section \<open>What the echo server buffers\<close>

definition user_alloc_ok :: "kernel \<Rightarrow> bool" where
  "user_alloc_ok K \<longleftrightarrow> (\<forall>st n. finite (dom (u_heap st)) \<longrightarrow>
     k_user_malloc K st n \<noteq> NULL \<and> u_heap st (k_user_malloc K st n) = None)"

text \<open>The bytes a socket still has to send back, in a block of their own, or nothing and a null pointer.\<close>

definition echo_buf :: "addr \<Rightarrow> byte list \<Rightarrow> us \<Rightarrow> bool" where
  "echo_buf s bs st \<longleftrightarrow> u_ext st s es_length = int (length bs) \<and>
     (if bs = [] then u_ext st s es_backpressure = 0
      else \<exists>a. a \<noteq> NULL \<and> u_ext st s es_backpressure = int a \<and> u_heap st a = Some bs)"

lemma echo_buf_cong: "u_ext st' = u_ext st \<Longrightarrow> u_heap st' = u_heap st \<Longrightarrow> echo_buf s bs st' = echo_buf s bs st"
  by (simp add: echo_buf_def)

text \<open>The socket can be written to.\<close>

definition ssl_usable :: "openssl \<Rightarrow> (addr \<Rightarrow> bool) \<Rightarrow> handlers \<Rightarrow> alists \<Rightarrow> addr \<Rightarrow> us \<Rightarrow> bool" where
  "ssl_usable OS C U A s st \<longleftrightarrow> openssl_ok C OS \<and> us_inv A st \<and> open_sock A s \<and> established st s \<and> window_ok st \<and>
     names_ready U C st"

lemma ssl_usable_write:
  assumes "ssl_usable OS C U A s st"
  shows "\<exists>r st'. us_internal_ssl_socket_write OS K U s data mm st = Some (r, st') \<and> 0 \<le> r \<and> r \<le> int (length data) \<and>
    evolves A st A st' \<and> u_ext st' = u_ext st \<and> u_heap st' = u_heap st \<and> is_sock st' s \<and> ssl_usable OS C U A s st'"
proof -
  from assms ssl_socket_write_ok [of C OS A st s U K data mm] obtain r st' where
    1: "us_internal_ssl_socket_write OS K U s data mm st = Some (r, st')" "0 \<le> r" "r \<le> int (length data)"
      "evolves A st A st'" "ssl_flags_only s st st'" "established st' s" and
    2: "st' = st \<or> window_ok st'" unfolding ssl_usable_def by (auto split: if_splits)
  have k: "is_sock st s" using assms open_sockD(1) [OF us_invD(1)] by (auto simp: ssl_usable_def)
  have "is_sock st' s" using k 1(5) access_cong(1) [of st' s st] by (simp add: ssl_flags_only_def)
  moreover have "names_ready U C st'" using assms 1(5) by (simp add: ssl_usable_def ssl_flags_only_def names_ready_def is_ctx_def)
  then have "ssl_usable OS C U A s st'" using assms 1(4,6) 2 by (auto simp: ssl_usable_def evolves_def)
  ultimately show ?thesis using 1 unfolding ssl_flags_only_def by blast
qed

lemma ssl_usable_upd:
  "us_inv A st' \<Longrightarrow> ssl_usable OS C U A s st \<Longrightarrow> objs st' = objs st \<Longrightarrow> polls st' = polls st \<Longrightarrow> ssl_ctxs st' = ssl_ctxs st \<Longrightarrow>
   l_ssl_data st' = l_ssl_data st \<Longrightarrow> ssl_usable OS C U A s st'"
  by (simp add: ssl_usable_def established_def type3_def window_ok_def names_ready_def is_ctx_def)

lemma u_heap_frame:
  "us_inv A (st\<lparr>u_heap := h\<rparr>) = us_inv A st" "us_inv A (st\<lparr>u_ext := e\<rparr>) = us_inv A st"
  "is_sock (st\<lparr>u_heap := h\<rparr>) s = is_sock st s" "is_sock (st\<lparr>u_ext := e\<rparr>) s = is_sock st s"
  by simp_all

lemma timeout_keeps:
  assumes I: "us_inv A st" and s: "open_sock A s"
  shows "\<exists>st'. us_socket_timeout s n st = Some st' \<and> us_inv A st' \<and> u_ext st' = u_ext st \<and> u_heap st' = u_heap st \<and>
    (ssl_usable OS C U A s st \<longrightarrow> ssl_usable OS C U A s st')"
proof -
  from us_socket_timeout_ok(1) [OF I open_live [OF s], of n] obtain t where
    1: "us_socket_timeout s n st = Some (st\<lparr>socks := (socks st)(s := (socks st s)\<lparr>s_timeout := t\<rparr>)\<rparr>)"
      "us_inv A (st\<lparr>socks := (socks st)(s := (socks st s)\<lparr>s_timeout := t\<rparr>)\<rparr>)" by (auto simp: evolves_def)
  show ?thesis using 1 ssl_usable_upd [OF 1(2)] by simp
qed

lemma load_whole: "u_heap st a = Some bs \<Longrightarrow> u_load a 0 (int (length bs)) st = Some bs"
  by (simp add: u_load_def)

text \<open>Loading the old block, or nothing.\<close>

lemma load_buf: "echo_buf s bs st \<Longrightarrow> u_load (nat (u_ext st s es_backpressure)) 0 (u_ext st s es_length) st = Some bs"
  by (auto simp: echo_buf_def load_whole u_load_def)

text \<open>A new block is filled, in two parts, the old one is freed, and the extension points to the new one.\<close>

definition new_block_of :: "kernel \<Rightarrow> nat \<Rightarrow> us \<Rightarrow> addr" where
  "new_block_of K n st = k_user_malloc K st (int n)"

text \<open>The heap after the new block was filled, and after the old one was freed.\<close>

definition filled :: "addr \<Rightarrow> byte list \<Rightarrow> us \<Rightarrow> us" where
  "filled a c st = st\<lparr>u_heap := (u_heap st)(a \<mapsto> c)\<rparr>"

definition moved_buf :: "addr \<Rightarrow> addr \<Rightarrow> byte list \<Rightarrow> byte list \<Rightarrow> us \<Rightarrow> us" where
  "moved_buf s a bs c st = st\<lparr>u_heap := (if bs = [] then u_heap st else (u_heap st)(nat (u_ext st s es_backpressure) := None))(a \<mapsto> c),
     u_ext := (u_ext st)(s := (u_ext st s)(es_backpressure := int a, es_length := int (length c)))\<rparr>"

lemma new_block_fresh:
  assumes "user_alloc_ok K" and "finite (dom (u_heap st))"
  shows "new_block_of K n st \<noteq> NULL" "u_heap st (new_block_of K n st) = None"
    "u_malloc K (int n) st = (new_block_of K n st, filled (new_block_of K n st) (replicate n 0) st)"
proof -
  have "k_user_malloc K st (int n) \<noteq> NULL \<and> u_heap st (k_user_malloc K st (int n)) = None"
    using assms by (simp add: user_alloc_ok_def)
  then show "new_block_of K n st \<noteq> NULL" "u_heap st (new_block_of K n st) = None"
    "u_malloc K (int n) st = (new_block_of K n st, filled (new_block_of K n st) (replicate n 0) st)"
    by (simp_all add: new_block_of_def u_malloc_def filled_def Let_def)
qed

lemma fill_store:
  "u_store a 0 xs (filled a (replicate (length xs + length ys) 0) st) = Some (filled a (xs @ replicate (length ys) 0) st)"
  "u_store a (int (length xs)) ys (filled a (xs @ replicate (length ys) 0) st) = Some (filled a (xs @ ys) st)"
  by (simp_all add: u_store_def filled_def)

lemma fill_load: "u_heap st a = None \<Longrightarrow> u_heap st b = Some c \<Longrightarrow> u_load b off n (filled a x st) = u_load b off n st"
  by (auto simp: u_load_def filled_def)

lemma swap_buffer:
  assumes b: "echo_buf s bs st" and k: "is_sock st s" and a: "a \<noteq> NULL" "u_heap st a = None"
  shows "Option.bind (u_free (nat (u_ext st s es_backpressure)) (filled a c st)) (\<lambda>st.
      Option.bind (wr_ext s es_backpressure (int a) st) (\<lambda>st. wr_ext s es_length (int (length c)) st)) =
    Some (moved_buf s a bs c st)"
proof (cases "bs = []")
  case True
  then show ?thesis using b k by (simp add: echo_buf_def u_free_def wr_ext_def moved_buf_def filled_def)
next
  case False
  then obtain o' where o: "u_ext st s es_backpressure = int o'" "o' \<noteq> NULL" "u_heap st o' = Some bs"
    using b by (auto simp: echo_buf_def)
  have "o' \<noteq> a" using o a by auto
  then show ?thesis using False o k by (simp add: u_free_def wr_ext_def moved_buf_def filled_def fun_upd_twist)
qed

lemma moved_buf_ok:
  assumes "a \<noteq> NULL"
  shows "c \<noteq> [] \<Longrightarrow> echo_buf s c (moved_buf s a bs c st)" "us_inv A (moved_buf s a bs c st) = us_inv A st"
  using assms by (simp_all add: echo_buf_def moved_buf_def es_backpressure_def es_length_def)


lemma data_short:
  assumes "us_internal_ssl_socket_write OS K U s data False st = Some (r, st1)" "r \<noteq> int (length data)"
    and "rd_ext s es_backpressure st1 = Some p" "rd_ext s es_length st1 = Some len"
    and "u_malloc K (len + int (length data) - r) st1 = (a, st2)" "u_load (nat p) 0 len st2 = Some old"
    and "u_store a 0 old st2 = Some st3" "u_store a len (drop (nat r) data) st3 = Some st4"
    and "Option.bind (u_free (nat p) st4) (\<lambda>st. Option.bind (wr_ext s es_backpressure (int a) st)
      (\<lambda>st. wr_ext s es_length (len + (int (length data) - r)) st)) = Some st5"
    and "us_socket_timeout s 30 st5 = Some st6"
  shows "on_echo_socket_data OS K U s data st = Some (s, st6)"
  using assms by (elim bind_eq_SomeE) (simp add: on_echo_socket_data_def)

lemma moved_card:
  assumes b: "echo_buf s bs st" and fin: "finite (dom (u_heap st))" and a: "u_heap st a = None" and h: "u_heap st' = u_heap (moved_buf s a bs new st)"
  shows "card (dom (u_heap st')) = card (dom (u_heap st)) + (if bs = [] then 1 else 0)"
proof (cases "bs = []")
  case True
  have "dom (u_heap st') = insert a (dom (u_heap st))" using True h by (auto simp: moved_buf_def)
  then show ?thesis using True fin a by (simp add: card_insert_disjoint domIff)
next
  case False
  then obtain o' where o': "u_ext st s es_backpressure = int o'" "u_heap st o' = Some bs" using b by (auto simp: echo_buf_def)
  have "dom (u_heap st') = insert a (dom (u_heap st) - {o'})" using False h o' a by (auto simp: moved_buf_def)
  moreover have "o' \<in> dom (u_heap st)" "a \<notin> dom (u_heap st)" using o'(2) a by auto
  ultimately show ?thesis using False fin by (simp add: card_Suc_Diff1 del: card_Diff_insert)
qed

text \<open>The handler after a write that took only \<open>r\<close> bytes: the backlog and the rest of the data move to a new block.\<close>

lemma echo_short_ok:
  assumes K: "user_alloc_ok K" and fin: "finite (dom (u_heap st1))" and u: "ssl_usable OS C U A s st1" and b: "echo_buf s bs st1"
    and k: "is_sock st1 s" and wr: "us_internal_ssl_socket_write OS K U s data False st = Some (r, st1)" and r: "0 \<le> r" "r < int (length data)"
  shows "\<exists>a st3. on_echo_socket_data OS K U s data st = Some (s, st3) \<and> ssl_usable OS C U A s st3 \<and> u_heap st1 a = None \<and> a \<noteq> NULL \<and>
    u_ext st3 = u_ext (moved_buf s a bs (bs @ drop (nat r) data) st1) \<and> u_heap st3 = u_heap (moved_buf s a bs (bs @ drop (nat r) data) st1)"
proof -
  let ?rest = "drop (nat r) data"
  let ?n = "length bs + length ?rest"
  let ?a = "new_block_of K ?n st1"
  let ?st2 = "moved_buf s ?a bs (bs @ ?rest) st1"
  note nb = new_block_fresh [OF K fin, of ?n]
  have o: "open_sock A s" and I1: "us_inv A st1" using u by (simp_all add: ssl_usable_def)
  have I2: "us_inv A ?st2" using moved_buf_ok(2) [OF nb(1)] I1 by simp
  from timeout_keeps [OF I2 o, of 30 OS C U] obtain st3 where
    3: "us_socket_timeout s 30 ?st2 = Some st3" "ssl_usable OS C U A s st3" "u_ext st3 = u_ext ?st2" "u_heap st3 = u_heap ?st2"
    using ssl_usable_upd [OF I2 u] by (auto simp: moved_buf_def)
  have len: "u_ext st1 s es_length = int (length bs)" using b by (simp add: echo_buf_def)
  have sz: "int (length bs) + int (length data) - r = int ?n"
    "int (length bs) + (int (length data) - r) = int (length (bs @ ?rest))" using r by simp_all
  have ld: "u_load (nat (u_ext st1 s es_backpressure)) 0 (int (length bs)) (filled ?a (replicate ?n 0) st1) = Some bs"
  proof (cases "bs = []")
    case f: False
    then obtain o' where "u_ext st1 s es_backpressure = int o'" "u_heap st1 o' = Some bs" using b by (auto simp: echo_buf_def)
    then show ?thesis using fill_load [OF nb(2)] load_whole by simp
  qed (simp add: u_load_def)
  have rd: "rd_ext s n st1 = Some (u_ext st1 s n)" for n using k by (simp add: rd_ext_def)
  have ne: "r \<noteq> int (length data)" using r(2) by simp
  have "on_echo_socket_data OS K U s data st = Some (s, st3)"
  proof (rule data_short [OF wr ne rd rd])
    show "u_malloc K (u_ext st1 s es_length + int (length data) - r) st1 = (?a, filled ?a (replicate ?n 0) st1)"
      unfolding len sz(1) by (rule nb(3))
    show "u_load (nat (u_ext st1 s es_backpressure)) 0 (u_ext st1 s es_length) (filled ?a (replicate ?n 0) st1) = Some bs"
      using ld len by simp
    show "u_store ?a 0 bs (filled ?a (replicate ?n 0) st1) = Some (filled ?a (bs @ replicate (length ?rest) 0) st1)"
      using fill_store(1) .
    show "u_store ?a (u_ext st1 s es_length) ?rest (filled ?a (bs @ replicate (length ?rest) 0) st1) =
      Some (filled ?a (bs @ ?rest) st1)" unfolding len by (rule fill_store(2))
    show "Option.bind (u_free (nat (u_ext st1 s es_backpressure)) (filled ?a (bs @ ?rest) st1))
      (\<lambda>st. Option.bind (wr_ext s es_backpressure (int ?a) st)
        (\<lambda>st. wr_ext s es_length (u_ext st1 s es_length + (int (length data) - r)) st)) = Some ?st2"
      using swap_buffer [OF b k nb(1,2), of "bs @ ?rest"] len sz(2) by simp
  qed (rule 3(1))
  then show ?thesis using 3(2-4) nb(1,2) by blast
qed


lemma load_rest:
  "u_heap st a = Some bs \<Longrightarrow> w < length bs \<Longrightarrow> u_load a (int w) (int (length (drop w bs))) st = Some (drop w bs)"
  by (simp add: u_load_def)

lemma writable_rest:
  assumes "us_internal_ssl_socket_write OS K U s data False st = Some (r, st1)" "r \<noteq> len"
    and "rd_ext s es_backpressure st = Some p" "rd_ext s es_length st = Some len" "u_load (nat p) 0 len st = Some data"
    and "u_malloc K (len - r) st1 = (a, st2)" "u_load (nat p) r (len - r) st2 = Some rest"
    and "u_store a 0 rest st2 = Some st4"
    and "Option.bind (u_free (nat p) st4) (\<lambda>st. Option.bind (wr_ext s es_backpressure (int a) st)
      (\<lambda>st. wr_ext s es_length (len - r) st)) = Some st5"
    and "us_socket_timeout s 30 st5 = Some st6"
  shows "on_echo_socket_writable OS K U s st = Some (s, st6)"
  using assms by (elim bind_eq_SomeE) (simp add: on_echo_socket_writable_def)

lemma writable_all:
  assumes "us_internal_ssl_socket_write OS K U s data False st = Some (len, st1)"
    and "rd_ext s es_backpressure st = Some p" "rd_ext s es_length st = Some len" "u_load (nat p) 0 len st = Some data"
  shows "on_echo_socket_writable OS K U s st = Option.bind (Option.bind (u_free (nat p) st1) (wr_ext s es_length 0))
    (\<lambda>st. Option.bind (us_socket_timeout s 30 st) (\<lambda>st. Some (s, st)))"
  using assms by (simp add: on_echo_socket_writable_def)

text \<open>What a drained socket is left with: no bytes to send, and a pointer to a block that is gone.\<close>

definition dangling :: "addr \<Rightarrow> us \<Rightarrow> bool" where
  "dangling s st \<longleftrightarrow> u_ext st s es_length = 0 \<and>
     (\<exists>a. a \<noteq> NULL \<and> u_ext st s es_backpressure = int a \<and> u_heap st a = None)"

lemma echo_drained_ok:
  assumes u: "ssl_usable OS C U A s st1" and b: "echo_buf s bs st" and ne: "bs \<noteq> []" and k: "is_sock st s" "is_sock st1 s"
    and same: "u_ext st1 = u_ext st" "u_heap st1 = u_heap st"
    and wr: "us_internal_ssl_socket_write OS K U s bs False st = Some (int (length bs), st1)"
  shows "\<exists>st'. on_echo_socket_writable OS K U s st = Some (s, st') \<and> ssl_usable OS C U A s st' \<and> dangling s st'"
proof -
  have o: "open_sock A s" and I1: "us_inv A st1" using u by (simp_all add: ssl_usable_def)
  have rd: "rd_ext s n st = Some (u_ext st s n)" for n using k(1) by (simp add: rd_ext_def)
  have len: "u_ext st s es_length = int (length bs)" using b by (simp add: echo_buf_def)
  obtain p where p: "p \<noteq> NULL" "u_ext st s es_backpressure = int p" "u_heap st p = Some bs"
    using b ne by (auto simp: echo_buf_def)
  let ?st2 = "st1\<lparr>u_heap := (u_heap st1)(p := None), u_ext := (u_ext st1)(s := (u_ext st1 s)(es_length := 0))\<rparr>"
  have I2: "us_inv A ?st2" using I1 by simp
  from timeout_keeps [OF I2 o, of 30 OS C U] obtain st3 where
    3: "us_socket_timeout s 30 ?st2 = Some st3" "ssl_usable OS C U A s st3" "u_ext st3 = u_ext ?st2" "u_heap st3 = u_heap ?st2"
    using ssl_usable_upd [OF I2 u] by (auto simp: moved_buf_def)
  have fr: "Option.bind (u_free (nat (int p)) st1) (wr_ext s es_length 0) = Some ?st2"
    using p k(2) same(2) by (simp add: u_free_def wr_ext_def)
  have "on_echo_socket_writable OS K U s st = Option.bind (Option.bind (u_free (nat (int p)) st1) (wr_ext s es_length 0))
      (\<lambda>st. Option.bind (us_socket_timeout s 30 st) (\<lambda>st. Some (s, st)))"
    by (rule writable_all [OF wr rd [of es_backpressure, unfolded p(2)] rd [of es_length, unfolded len]
          load_buf [OF b, unfolded p(2) len]])
  then have "on_echo_socket_writable OS K U s st = Some (s, st3)" unfolding fr by (simp add: 3(1))
  moreover have "dangling s st3" using 3(3,4) same p by (simp add: dangling_def es_length_def es_backpressure_def)
  ultimately show ?thesis using 3(2) by blast
qed

lemma echo_rest_ok:
  assumes K: "user_alloc_ok K" and fin: "finite (dom (u_heap st))" and u: "ssl_usable OS C U A s st1" and b: "echo_buf s bs st" and ne: "bs \<noteq> []"
    and k: "is_sock st s" "is_sock st1 s" and same: "u_ext st1 = u_ext st" "u_heap st1 = u_heap st"
    and wr: "us_internal_ssl_socket_write OS K U s bs False st = Some (r, st1)" and r: "0 \<le> r" "r < int (length bs)"
  shows "\<exists>st'. on_echo_socket_writable OS K U s st = Some (s, st') \<and> ssl_usable OS C U A s st' \<and> echo_buf s (drop (nat r) bs) st'"
proof -
  let ?w = "nat r" and ?rest = "drop (nat r) bs"
  let ?a = "new_block_of K (length ?rest) st1"
  let ?st2 = "moved_buf s ?a bs ?rest st1"
  have o: "open_sock A s" and I1: "us_inv A st1" using u by (simp_all add: ssl_usable_def)
  have rd: "rd_ext s n st = Some (u_ext st s n)" for n using k(1) by (simp add: rd_ext_def)
  have len: "u_ext st s es_length = int (length bs)" using b by (simp add: echo_buf_def)
  obtain p where p: "p \<noteq> NULL" "u_ext st s es_backpressure = int p" "u_heap st p = Some bs"
    using b ne by (auto simp: echo_buf_def)
  have b1: "echo_buf s bs st1" using b echo_buf_cong [OF same] by simp
  have w: "?w < length bs" "int ?w = r" using r by linarith+
  have fin1: "finite (dom (u_heap st1))" using fin same(2) by simp
  note nb = new_block_fresh [OF K fin1, of "length ?rest"]
  have I2: "us_inv A ?st2" using moved_buf_ok(2) [OF nb(1)] I1 by simp
  from timeout_keeps [OF I2 o, of 30 OS C U] obtain st3 where
    3: "us_socket_timeout s 30 ?st2 = Some st3" "ssl_usable OS C U A s st3" "u_ext st3 = u_ext ?st2" "u_heap st3 = u_heap ?st2"
    using ssl_usable_upd [OF I2 u] by (auto simp: moved_buf_def)
  have sz: "int (length bs) - r = int (length ?rest)" using w by simp
  have ner: "r \<noteq> int (length bs)" using r(2) by simp
  have "on_echo_socket_writable OS K U s st = Some (s, st3)"
  proof (rule writable_rest [OF wr ner rd rd [of es_length, unfolded len]])
    show "u_load (nat (u_ext st s es_backpressure)) 0 (int (length bs)) st = Some bs" using load_buf [OF b] len by simp
    show "u_malloc K (int (length bs) - r) st1 = (?a, filled ?a (replicate (length ?rest) 0) st1)"
      unfolding sz by (rule nb(3))
    have up: "u_heap st1 p = Some bs" using p(3) same(2) by simp
    have "u_load p r (int (length ?rest)) st1 = Some ?rest" using load_rest [OF up w(1)] unfolding w(2) .
    then show "u_load (nat (u_ext st s es_backpressure)) r (int (length bs) - r)
        (filled ?a (replicate (length ?rest) 0) st1) = Some ?rest"
      using fill_load [OF nb(2) up, of r] unfolding sz p(2) nat_int by metis
    show "u_store ?a 0 ?rest (filled ?a (replicate (length ?rest) 0) st1) = Some (filled ?a ?rest st1)"
      using fill_store(1) [of ?a ?rest "[]" st1] by simp
    show "Option.bind (u_free (nat (u_ext st s es_backpressure)) (filled ?a ?rest st1))
      (\<lambda>st. Option.bind (wr_ext s es_backpressure (int ?a) st)
        (\<lambda>st. wr_ext s es_length (int (length bs) - r) st)) = Some ?st2"
      using swap_buffer [OF b1 k(2) nb(1,2), of ?rest] unfolding sz same(1) .
  qed (rule 3(1))
  moreover have "?rest \<noteq> []" using w(1) by simp
  then have "echo_buf s ?rest st3"
    using moved_buf_ok(1) [OF nb(1), of ?rest s bs st1] echo_buf_cong [OF 3(3,4)] by simp
  ultimately show ?thesis using 3(2) by blast
qed

lemma echo_writable_ok:
  assumes K: "user_alloc_ok K" and fin: "finite (dom (u_heap st))" and u: "ssl_usable OS C U A s st" and b: "echo_buf s bs st"
    and ne: "bs \<noteq> []"
  shows "\<exists>w st'. on_echo_socket_writable OS K U s st = Some (s, st') \<and> w \<le> length bs \<and> ssl_usable OS C U A s st' \<and>
    (if w < length bs then echo_buf s (drop w bs) st' else dangling s st')"
proof -
  from ssl_usable_write [OF u, of K bs False] obtain r st1 where
    1: "us_internal_ssl_socket_write OS K U s bs False st = Some (r, st1)" "0 \<le> r" "r \<le> int (length bs)"
      "u_ext st1 = u_ext st" "u_heap st1 = u_heap st" "is_sock st1 s" "ssl_usable OS C U A s st1" by blast
  have k: "is_sock st s" using u open_sockD(1) [OF us_invD(1)] by (auto simp: ssl_usable_def)
  show ?thesis
  proof (cases "r = int (length bs)")
    case True
    from echo_drained_ok [OF 1(7) b ne k 1(6,4,5) 1(1) [unfolded True]] show ?thesis
      by (intro exI [of _ "length bs"]) auto
  next
    case False
    then have lt: "r < int (length bs)" "nat r < length bs" using 1(2,3) by linarith+
    from echo_rest_ok [OF K fin 1(7) b ne k 1(6,4,5,1,2) lt(1)] show ?thesis
      using lt(2) by (intro exI [of _ "nat r"]) auto
  qed
qed

text \<open>
  C26. After the backlog of a socket has been drained once, closing the socket, or one more writable
  event (the library allows spurious ones), frees the same block a second time: the handler is
  undefined.
\<close>

theorem echo_backpressure_double_free:
  assumes K: "user_alloc_ok K" and fin: "finite (dom (u_heap st))" and u: "ssl_usable OS C U A s st" and b: "echo_buf s bs st"
    and ne: "bs \<noteq> []" and w: "on_echo_socket_writable OS K U s st = Some (t, st')" and d: "u_ext st' s es_length = 0"
  shows "on_echo_socket_close s code reason st' = None \<and> on_echo_socket_writable OS K U s st' = None"
proof -
  from echo_writable_ok [OF K fin u b ne] w obtain n where
    n: "t = s" "n \<le> length bs" "ssl_usable OS C U A s st'" "if n < length bs then echo_buf s (drop n bs) st' else dangling s st'"
    by auto
  have "dangling s st'" using n(2,4) d by (auto simp: echo_buf_def split: if_splits)
  then obtain a where a: "a \<noteq> NULL" "u_ext st' s es_backpressure = int a" "u_heap st' a = None"
    by (auto simp: dangling_def)
  have k: "is_sock st' s" using n(3) open_sockD(1) [OF us_invD(1)] by (auto simp: ssl_usable_def)
  then have rd: "rd_ext s n st' = Some (u_ext st' s n)" for n by (simp add: rd_ext_def)
  from ssl_usable_write [OF n(3), of K "[]" False] obtain r st1 where
    1: "us_internal_ssl_socket_write OS K U s [] False st' = Some (r, st1)" "0 \<le> r" "r \<le> 0" "u_heap st1 = u_heap st'"
    by auto
  have r: "r = 0" using 1(2,3) by simp
  have ld: "u_load (nat (int a)) 0 0 st' = Some []" by (simp add: u_load_def)
  have "on_echo_socket_writable OS K U s st' = None"
    using writable_all [OF 1(1) [unfolded r] rd [of es_backpressure, unfolded a(2)] rd [of es_length, unfolded d] ld] a 1(4)
    by (simp add: u_free_def)
  moreover have "on_echo_socket_close s code reason st' = None"
    using rd a by (simp add: on_echo_socket_close_def u_free_def)
  ultimately show ?thesis by simp
qed

section \<open>At a concrete state\<close>

definition echo_demo :: us where
  "echo_demo = ssl_demo\<lparr>u_ext := (\<lambda>_ _. 0)(21 := (\<lambda>_. 0)(es_backpressure := 500, es_length := 3)), u_heap := [500 \<mapsto> [1, 2, 3]]\<rparr>"

text \<open>An OpenSSL that takes all it is given.\<close>

definition openssl2 :: openssl where
  "openssl2 = openssl1\<lparr>o_write := (\<lambda>st ssl d. BioRet (int (length d)))\<rparr>"

lemma kernel0_user_alloc: "user_alloc_ok kernel0"
proof -
  have "(LEAST a. a \<noteq> 0 \<and> u_heap st a = None) \<noteq> 0 \<and> u_heap st (LEAST a. a \<noteq> 0 \<and> u_heap st a = None) = None"
    if "finite (dom (u_heap st))" for st :: us
  proof -
    have "\<exists>a. a \<notin> insert 0 (dom (u_heap st))"
      using that ex_new_if_finite [of "insert 0 (dom (u_heap st))"] infinite_UNIV_nat by blast
    then have "\<exists>a. a \<noteq> 0 \<and> u_heap st a = None" by auto
    then show ?thesis by (rule LeastI_ex)
  qed
  then show ?thesis by (simp add: user_alloc_ok_def kernel0_def)
qed

lemma echo_demo_usable: "ssl_usable openssl1 (\<lambda>c. c = 100) handlers0 demo_lists 21 echo_demo"
  "ssl_usable openssl2 (\<lambda>c. c = 100) handlers0 demo_lists 21 echo_demo"
proof -
  have I: "us_inv demo_lists echo_demo" using readingD(2) [OF ssl_demo_reading] by (simp add: echo_demo_def)
  have "openssl_ok (\<lambda>c. c = 100) openssl2" using openssl1_ok(1) by (simp add: openssl_ok_def openssl2_def)
  then have "ssl_usable openssl1 (\<lambda>c. c = 100) handlers0 demo_lists 21 ssl_demo"
    "ssl_usable openssl2 (\<lambda>c. c = 100) handlers0 demo_lists 21 ssl_demo"
    using readingD(1) [OF ssl_demo_reading] openssl1_ok(1) by (simp_all add: ssl_usable_def ssl_ready_def)
  then show "ssl_usable openssl1 (\<lambda>c. c = 100) handlers0 demo_lists 21 echo_demo"
    "ssl_usable openssl2 (\<lambda>c. c = 100) handlers0 demo_lists 21 echo_demo"
    using ssl_usable_upd [OF I] by (simp_all add: echo_demo_def)
qed

lemma echo_demo_buf: "echo_buf 21 [1, 2, 3] echo_demo" "finite (dom (u_heap echo_demo))"
  by (simp_all add: echo_buf_def echo_demo_def es_backpressure_def es_length_def)


lemma timeout_ext: "us_socket_timeout s n st = Some st' \<Longrightarrow> u_ext st' = u_ext st"
  by (auto simp: us_socket_timeout_def wr_sock_def elim!: bind_eq_SomeE split: if_splits)

lemma echo_demo_drained:
  assumes "on_echo_socket_writable openssl2 kernel0 handlers0 21 echo_demo = Some (t, st')"
  shows "u_ext st' 21 es_length = 0"
proof -
  let ?d = "ssl_data3\<lparr>sl_read_input_length := 0, sl_ssl_socket := 21, sl_msg_more := False, sl_last_write_was_msg_more := False\<rparr>"
  let ?s1 = "echo_demo\<lparr>l_ssl_data := Some ?d\<rparr>"
  let ?s2 = "emit (Ssl (SSL_write 0 [1, 2, 3])) ?s1"
  have I: "us_inv demo_lists echo_demo" and o: "open_sock demo_lists 21" and e: "established echo_demo 21"
    and n: "names_ready handlers0 (\<lambda>c. c = 100) echo_demo"
    using echo_demo_usable(2) by (simp_all add: ssl_usable_def)
  note od = open_sockD [OF us_invD(1) [OF I] o]
  have d: "l_ssl_data echo_demo = Some ssl_data3" by (simp add: echo_demo_def ssl_demo_def)
  have t: "type3 echo_demo 21 = 0" using demo_types(1) by (simp add: type3_def echo_demo_def ssl_demo_def)
  have z: "ss_ssl (ssl_socks echo_demo 21) = 0" using ssl_demo_views(2) by (simp add: echo_demo_def)
  have ns: "us_internal_ssl_socket_is_shut_down openssl2 21 echo_demo = Some False"
    using ssl_is_shut_down_eq [OF od(1), of openssl2] t
    by (simp add: openssl2_def openssl1_def openssl0_def poll_type_defs SSL_SENT_SHUTDOWN_def)
  have wr: "ssl_write openssl2 kernel0 handlers0 0 [1, 2, 3] ?s1 = Some (3, ?s2)" by (simp add: ssl_write_def openssl2_def)
  have "ssl_ready handlers0 (\<lambda>c. c = 100) demo_lists 21 ?s1"
    using ready_data(1) [OF I o e n, of ?d] by (simp add: ssl_data3_def)
  then have r: "ssl_ready handlers0 (\<lambda>c. c = 100) demo_lists 21 ?s2" using any_emit(1) by blast
  from ssl_write_end_ok [OF r, of ?d openssl2 False 3] obtain st1 where
    "ssl_write_end openssl2 21 False 3 ?s2 = Some (3, st1)" by auto
  then have w: "us_internal_ssl_socket_write openssl2 kernel0 handlers0 21 [1, 2, 3] False echo_demo = Some (3, st1)"
    using write_unfold [OF od(1,6,4) d ns, of kernel0 handlers0 "[1, 2, 3]" False] wr z by simp
  have rd: "rd_ext 21 es_backpressure echo_demo = Some 500" "rd_ext 21 es_length echo_demo = Some 3"
    using od(1) by (simp_all add: rd_ext_def echo_demo_def es_backpressure_def es_length_def)
  have ld: "u_load (nat 500) 0 3 echo_demo = Some [1, 2, 3]" by (simp add: u_load_def echo_demo_def)
  have "Option.bind (Option.bind (u_free (nat 500) st1) (wr_ext 21 es_length 0))
    (\<lambda>st. Option.bind (us_socket_timeout 21 30 st) (\<lambda>st. Some (21, st))) = Some (t, st')"
    using writable_all [OF w rd ld] assms by (simp only:)
  then show ?thesis
    by (auto simp: wr_ext_def elim!: bind_eq_SomeE dest!: timeout_ext split: if_splits)
qed

theorem echo_backpressure_double_free_witness:
  "\<exists>t st'. on_echo_socket_writable openssl2 kernel0 handlers0 21 echo_demo = Some (t, st') \<and>
     on_echo_socket_close 21 0 NULL st' = None \<and> on_echo_socket_writable openssl2 kernel0 handlers0 21 st' = None"
proof -
  obtain w st' where w: "on_echo_socket_writable openssl2 kernel0 handlers0 21 echo_demo = Some (21, st')"
    using echo_writable_ok [OF kernel0_user_alloc echo_demo_buf(2) echo_demo_usable(2) echo_demo_buf(1) list.distinct(2)]
    by blast
  from echo_backpressure_double_free [OF kernel0_user_alloc echo_demo_buf(2) echo_demo_usable(2) echo_demo_buf(1)
      list.distinct(2) w echo_demo_drained [OF w]] w show ?thesis by blast
qed

end
