(* ===== verification/Us_Libuv.thy ===== *)
theory Us_Libuv
  imports Us_State
begin

unbundle bit_operations_syntax

text \<open>
  The libuv back end, \<open>src/eventing/libuv.c\<close> and its header: polls, timers, asyncs and the loop on
  top of libuv's handles. libuv is a parameter: its calls are appended to a trace, and it answers
  whether a handle is closing. A poll and its \<open>uv_poll_t\<close> are two blocks, because libuv keeps a
  closed handle until it has called the close callback; the \<open>data\<close> field of the handle decides
  who frees them. Functions that the epoll back end has under the same name end in \<open>_uv\<close> here.
\<close>

section \<open>The state\<close>

definition UV_READABLE :: u32 where "UV_READABLE = 1"
definition UV_WRITABLE :: u32 where "UV_WRITABLE = 2"

record uv_us_poll_t =
  up_uv_p :: addr
  up_fd :: int
  up_poll_type :: u8

datatype uv_block = BPoll | BUvPoll | BUvPrepare | BUvCheck | BCallback | BLoop

text \<open>A handle is a block of its own, or stands behind the struct of a callback.\<close>

datatype uv_handle = HBlock addr | HTail addr

datatype uv_close_cb = CloseCbFree | CloseCbFreePoll

datatype uv_call =
    UvPollInit uv_handle int | UvPollStart uv_handle u32 | UvPollStop uv_handle
  | UvPrepareInit uv_handle | UvPrepareStart uv_handle | UvPrepareStop uv_handle
  | UvCheckInit uv_handle | UvCheckStart uv_handle | UvCheckStop uv_handle
  | UvTimerInit uv_handle | UvTimerStart uv_handle int int | UvTimerStop uv_handle
  | UvAsyncInit uv_handle | UvAsyncSend uv_handle
  | UvRef uv_handle | UvUnref uv_handle | UvClose uv_handle uv_close_cb
  | UvLoopNew addr | UvRunDefault | UvRunNowait | UvLoopDelete addr
  | DispatchReadyPoll addr bool u32 | LoopPre | LoopPost | CallCallback fnptr addr

record uv_callback_t =
  uc_expects_the_loop :: bool
  uc_leave_poll_ready :: bool
  uc_cb :: fnptr

record uvs =
  uv_blocks :: "addr \<Rightarrow> uv_block option"
  uv_polls :: "addr \<Rightarrow> uv_us_poll_t"
  uv_data :: "uv_handle \<Rightarrow> addr"
  uv_cbs :: "addr \<Rightarrow> uv_callback_t"
  lu_self :: addr
  lu_uv_loop :: addr
  lu_is_default :: bool
  lu_pre :: addr
  lu_check :: addr
  lu_sweep_timer :: addr
  lu_wakeup_async :: addr
  uv_trace :: "uv_call list"

record libuv =
  uv_malloc :: "uvs \<Rightarrow> addr"
  uv_realloc :: "uvs \<Rightarrow> addr \<Rightarrow> addr"
  uv_is_closing :: "uvs \<Rightarrow> uv_handle \<Rightarrow> bool"
  uv_new_loop :: "uvs \<Rightarrow> addr"
  uv_run_once :: "uvs \<Rightarrow> uvs option"
  uv_run_all :: "uvs \<Rightarrow> uvs option"

definition uv_emit :: "uv_call \<Rightarrow> uvs \<Rightarrow> uvs" where
  "uv_emit e st = st\<lparr>uv_trace := uv_trace st @ [e]\<rparr>"

definition uv_alloc :: "libuv \<Rightarrow> uv_block \<Rightarrow> uvs \<Rightarrow> addr \<times> uvs" where
  "uv_alloc V b st = (let a = uv_malloc V st in (a, st\<lparr>uv_blocks := (uv_blocks st)(a \<mapsto> b)\<rparr>))"

definition uv_free :: "addr \<Rightarrow> uvs \<Rightarrow> uvs option" where
  "uv_free a st = (if a = NULL then Some st else if uv_blocks st a = None then None
     else Some (st\<lparr>uv_blocks := (uv_blocks st)(a := None)\<rparr>))"

definition rd_up :: "addr \<Rightarrow> uvs \<Rightarrow> uv_us_poll_t option" where
  "rd_up p st = (if uv_blocks st p = Some BPoll then Some (uv_polls st p) else None)"

definition wr_up :: "addr \<Rightarrow> (uv_us_poll_t \<Rightarrow> uv_us_poll_t) \<Rightarrow> uvs \<Rightarrow> uvs option" where
  "wr_up p f st = (if uv_blocks st p = Some BPoll
     then Some (st\<lparr>uv_polls := (uv_polls st)(p := f (uv_polls st p))\<rparr>) else None)"

definition wr_uc :: "addr \<Rightarrow> (uv_callback_t \<Rightarrow> uv_callback_t) \<Rightarrow> uvs \<Rightarrow> uvs option" where
  "wr_uc c f st = (if uv_blocks st c = Some BCallback
     then Some (st\<lparr>uv_cbs := (uv_cbs st)(c := f (uv_cbs st c))\<rparr>) else None)"

text \<open>A handle is alive as long as the block it is in.\<close>

fun handle_alive :: "uvs \<Rightarrow> uv_handle \<Rightarrow> bool" where
  "handle_alive st (HBlock a) = (uv_blocks st a \<in> {Some BUvPoll, Some BUvPrepare, Some BUvCheck})"
| "handle_alive st (HTail c) = (uv_blocks st c = Some BCallback)"

definition uv_call :: "uv_call \<Rightarrow> uv_handle \<Rightarrow> uvs \<Rightarrow> uvs option" where
  "uv_call e h st = (if handle_alive st h then Some (uv_emit e st) else None)"

definition set_data :: "uv_handle \<Rightarrow> addr \<Rightarrow> uvs \<Rightarrow> uvs option" where
  "set_data h a st = (if handle_alive st h then Some (st\<lparr>uv_data := (uv_data st)(h := a)\<rparr>) else None)"

definition get_data :: "uv_handle \<Rightarrow> uvs \<Rightarrow> addr option" where
  "get_data h st = (if handle_alive st h then Some (uv_data st h) else None)"

section \<open>The callbacks libuv calls\<close>

definition poll_cb :: "uv_handle \<Rightarrow> int \<Rightarrow> u32 \<Rightarrow> uvs \<Rightarrow> uvs option" where
  "poll_cb p status events st = do {
     d \<leftarrow> get_data p st;
     Some (uv_emit (DispatchReadyPoll d (status < 0) events) st)
   }"

definition prepare_cb :: "uv_handle \<Rightarrow> uvs \<Rightarrow> uvs option" where
  "prepare_cb p st = do {
     loop \<leftarrow> get_data p st;
     if uv_blocks st loop = Some BLoop then Some (uv_emit LoopPre st) else None
   }"

definition check_cb :: "uv_handle \<Rightarrow> uvs \<Rightarrow> uvs option" where
  "check_cb p st = do {
     loop \<leftarrow> get_data p st;
     if uv_blocks st loop = Some BLoop then Some (uv_emit LoopPost st) else None
   }"

definition close_cb_free :: "uv_handle \<Rightarrow> uvs \<Rightarrow> uvs option" where
  "close_cb_free h st = do { d \<leftarrow> get_data h st; uv_free d st }"

definition close_cb_free_poll :: "addr \<Rightarrow> uvs \<Rightarrow> uvs option" where
  "close_cb_free_poll h st = do {
     d \<leftarrow> get_data (HBlock h) st;
     if d \<noteq> NULL then do { st \<leftarrow> uv_free d st; uv_free h st } else Some st
   }"

definition timer_cb :: "uv_handle \<Rightarrow> uvs \<Rightarrow> uvs option" where
  "timer_cb t st = do {
     cb \<leftarrow> get_data t st;
     if uv_blocks st cb = Some BCallback then Some (uv_emit (CallCallback (uc_cb (uv_cbs st cb)) cb) st) else None
   }"

text \<open>Asyncs are given their loop.\<close>

definition async_cb :: "uv_handle \<Rightarrow> uvs \<Rightarrow> uvs option" where
  "async_cb a st = do {
     cb \<leftarrow> get_data a st;
     if uv_blocks st cb = Some BCallback then Some (uv_emit (CallCallback (uc_cb (uv_cbs st cb)) (lu_self st)) st) else None
   }"

section \<open>Polls\<close>

definition us_poll_init_uv :: "addr \<Rightarrow> int \<Rightarrow> u8 \<Rightarrow> uvs \<Rightarrow> uvs option" where
  "us_poll_init_uv p fd poll_type st = wr_up p (\<lambda>x. x\<lparr>up_poll_type := poll_type, up_fd := fd\<rparr>) st"

definition us_poll_free_uv :: "libuv \<Rightarrow> addr \<Rightarrow> uvs \<Rightarrow> uvs option" where
  "us_poll_free_uv V p st = do {
     x \<leftarrow> rd_up p st;
     if \<not> handle_alive st (HBlock (up_uv_p x)) then None
     else if uv_is_closing V st (HBlock (up_uv_p x)) then set_data (HBlock (up_uv_p x)) p st
     else do { st \<leftarrow> uv_free (up_uv_p x) st; uv_free p st }
   }"

definition polling_bits :: "u32 \<Rightarrow> u8" where
  "polling_bits events = (if events AND UV_READABLE \<noteq> 0 then 8 else 0) OR (if events AND UV_WRITABLE \<noteq> 0 then 4 else 0)"

definition us_poll_events_uv :: "addr \<Rightarrow> uvs \<Rightarrow> u32 option" where
  "us_poll_events_uv p st = map_option (\<lambda>x. (if up_poll_type x AND 8 \<noteq> 0 then UV_READABLE else 0) OR
     (if up_poll_type x AND 4 \<noteq> 0 then UV_WRITABLE else 0)) (rd_up p st)"

definition us_internal_poll_type_uv :: "addr \<Rightarrow> uvs \<Rightarrow> u8 option" where
  "us_internal_poll_type_uv p st = map_option (\<lambda>x. up_poll_type x AND 3) (rd_up p st)"

definition us_internal_poll_set_type_uv :: "addr \<Rightarrow> u8 \<Rightarrow> uvs \<Rightarrow> uvs option" where
  "us_internal_poll_set_type_uv p poll_type st =
     wr_up p (\<lambda>x. x\<lparr>up_poll_type := poll_type OR (up_poll_type x AND 12)\<rparr>) st"

definition us_poll_fd_uv :: "addr \<Rightarrow> uvs \<Rightarrow> int option" where
  "us_poll_fd_uv p st = map_option up_fd (rd_up p st)"

definition us_internal_accept_poll_event_uv :: "addr \<Rightarrow> u32" where
  "us_internal_accept_poll_event_uv p = 0"

definition us_poll_start_uv :: "addr \<Rightarrow> u32 \<Rightarrow> uvs \<Rightarrow> uvs option" where
  "us_poll_start_uv p events st = do {
     t \<leftarrow> us_internal_poll_type_uv p st;
     st \<leftarrow> wr_up p (\<lambda>x. x\<lparr>up_poll_type := t OR polling_bits events\<rparr>) st;
     x \<leftarrow> rd_up p st;
     st \<leftarrow> uv_call (UvPollInit (HBlock (up_uv_p x)) (up_fd x)) (HBlock (up_uv_p x)) st;
     uv_call (UvPollStart (HBlock (up_uv_p x)) events) (HBlock (up_uv_p x)) st
   }"

definition us_poll_change_uv :: "addr \<Rightarrow> u32 \<Rightarrow> uvs \<Rightarrow> uvs option" where
  "us_poll_change_uv p events st = do {
     old \<leftarrow> us_poll_events_uv p st;
     if old \<noteq> events then do {
       t \<leftarrow> us_internal_poll_type_uv p st;
       st \<leftarrow> wr_up p (\<lambda>x. x\<lparr>up_poll_type := t OR polling_bits events\<rparr>) st;
       x \<leftarrow> rd_up p st;
       uv_call (UvPollStart (HBlock (up_uv_p x)) events) (HBlock (up_uv_p x)) st
     } else Some st
   }"

definition us_poll_stop_uv :: "addr \<Rightarrow> uvs \<Rightarrow> uvs option" where
  "us_poll_stop_uv p st = do {
     x \<leftarrow> rd_up p st;
     st \<leftarrow> uv_call (UvPollStop (HBlock (up_uv_p x))) (HBlock (up_uv_p x)) st;
     st \<leftarrow> set_data (HBlock (up_uv_p x)) NULL st;
     uv_call (UvClose (HBlock (up_uv_p x)) CloseCbFreePoll) (HBlock (up_uv_p x)) st
   }"

definition us_create_poll_uv :: "libuv \<Rightarrow> uvs \<Rightarrow> (addr \<times> uvs) option" where
  "us_create_poll_uv V st = (
     let (p, st) = uv_alloc V BPoll st;
         (h, st) = uv_alloc V BUvPoll st
     in do {
       st \<leftarrow> wr_up p (\<lambda>x. x\<lparr>up_uv_p := h\<rparr>) st;
       st \<leftarrow> set_data (HBlock h) p st;
       Some (p, st)
     })"

definition us_poll_resize_uv :: "libuv \<Rightarrow> addr \<Rightarrow> uvs \<Rightarrow> (addr \<times> uvs) option" where
  "us_poll_resize_uv V p st = do {
     x \<leftarrow> rd_up p st;
     let new_p = uv_realloc V st p;
     let st = (if new_p = p then st else st\<lparr>uv_blocks := (uv_blocks st)(p := None, new_p \<mapsto> BPoll),
       uv_polls := (uv_polls st)(new_p := x)\<rparr>);
     st \<leftarrow> set_data (HBlock (up_uv_p x)) new_p st;
     Some (new_p, st)
   }"

section \<open>Timers and asyncs\<close>

definition us_create_timer_uv :: "libuv \<Rightarrow> bool \<Rightarrow> uvs \<Rightarrow> (addr \<times> uvs) option" where
  "us_create_timer_uv V fallthrough st = (
     let (cb, st) = uv_alloc V BCallback st
     in do {
       st \<leftarrow> wr_uc cb (\<lambda>c. c\<lparr>uc_expects_the_loop := False, uc_leave_poll_ready := False\<rparr>) st;
       st \<leftarrow> uv_call (UvTimerInit (HTail cb)) (HTail cb) st;
       st \<leftarrow> set_data (HTail cb) cb st;
       st \<leftarrow> (if fallthrough then uv_call (UvUnref (HTail cb)) (HTail cb) st else Some st);
       Some (cb, st)
     })"

definition us_timer_close_uv :: "addr \<Rightarrow> uvs \<Rightarrow> uvs option" where
  "us_timer_close_uv t st = do {
     st \<leftarrow> uv_call (UvRef (HTail t)) (HTail t) st;
     st \<leftarrow> uv_call (UvTimerStop (HTail t)) (HTail t) st;
     st \<leftarrow> set_data (HTail t) t st;
     uv_call (UvClose (HTail t) CloseCbFree) (HTail t) st
   }"

definition us_timer_set_uv :: "addr \<Rightarrow> fnptr \<Rightarrow> int \<Rightarrow> int \<Rightarrow> uvs \<Rightarrow> uvs option" where
  "us_timer_set_uv t cb ms repeat_ms st = do {
     st \<leftarrow> wr_uc t (\<lambda>c. c\<lparr>uc_cb := cb\<rparr>) st;
     if ms = 0 then uv_call (UvTimerStop (HTail t)) (HTail t) st
     else uv_call (UvTimerStart (HTail t) ms repeat_ms) (HTail t) st
   }"

definition us_internal_create_async_uv :: "libuv \<Rightarrow> uvs \<Rightarrow> addr \<times> uvs" where
  "us_internal_create_async_uv V st = uv_alloc V BCallback st"

definition us_internal_async_close_uv :: "addr \<Rightarrow> uvs \<Rightarrow> uvs option" where
  "us_internal_async_close_uv a st = do {
     st \<leftarrow> uv_call (UvRef (HTail a)) (HTail a) st;
     st \<leftarrow> set_data (HTail a) a st;
     uv_call (UvClose (HTail a) CloseCbFree) (HTail a) st
   }"

definition us_internal_async_set_uv :: "addr \<Rightarrow> fnptr \<Rightarrow> uvs \<Rightarrow> uvs option" where
  "us_internal_async_set_uv a cb st = do {
     st \<leftarrow> wr_uc a (\<lambda>c. c\<lparr>uc_cb := cb\<rparr>) st;
     st \<leftarrow> uv_call (UvAsyncInit (HTail a)) (HTail a) st;
     st \<leftarrow> uv_call (UvUnref (HTail a)) (HTail a) st;
     set_data (HTail a) a st
   }"

definition us_internal_async_wakeup_uv :: "addr \<Rightarrow> uvs \<Rightarrow> uvs option" where
  "us_internal_async_wakeup_uv a st = uv_call (UvAsyncSend (HTail a)) (HTail a) st"

section \<open>The loop\<close>

text \<open>
  \<open>us_internal_loop_data_init\<close> and \<open>us_internal_loop_data_free\<close> of \<open>src/loop.c\<close>, as far as they
  concern this back end: the sweep timer and the wakeup async. The loop is the state itself.
\<close>

definition loop_data_init_uv :: "libuv \<Rightarrow> fnptr \<Rightarrow> uvs \<Rightarrow> uvs option" where
  "loop_data_init_uv V wakeup_cb st = do {
     (t, st) \<leftarrow> us_create_timer_uv V True st;
     let st = st\<lparr>lu_sweep_timer := t\<rparr>;
     let (a, st) = us_internal_create_async_uv V st;
     us_internal_async_set_uv a wakeup_cb (st\<lparr>lu_wakeup_async := a\<rparr>)
   }"

definition loop_data_free_uv :: "uvs \<Rightarrow> uvs option" where
  "loop_data_free_uv st = do {
     st \<leftarrow> us_timer_close_uv (lu_sweep_timer st) st;
     us_internal_async_close_uv (lu_wakeup_async st) st
   }"

definition us_loop_integrate_uv :: "uvs \<Rightarrow> uvs option" where
  "us_loop_integrate_uv st = us_timer_set_uv (lu_sweep_timer st) FnSweepTimer
     (LIBUS_TIMEOUT_GRANULARITY * 1000) (LIBUS_TIMEOUT_GRANULARITY * 1000) st"

definition us_loop_pump :: "libuv \<Rightarrow> uvs \<Rightarrow> uvs option" where
  "us_loop_pump V st = uv_run_once V (uv_emit UvRunNowait st)"

definition us_create_loop_uv :: "libuv \<Rightarrow> addr \<Rightarrow> fnptr \<Rightarrow> uvs \<Rightarrow> (addr \<times> uvs) option" where
  "us_create_loop_uv V hint wakeup_cb st = (
     let (loop, st) = uv_alloc V BLoop st;
         st = st\<lparr>lu_self := loop\<rparr>;
         st = (if hint \<noteq> NULL then st\<lparr>lu_uv_loop := hint\<rparr>
           else let l = uv_new_loop V st in uv_emit (UvLoopNew l) (st\<lparr>lu_uv_loop := l\<rparr>));
         st = st\<lparr>lu_is_default := hint \<noteq> NULL\<rparr>;
         (pre, st) = uv_alloc V BUvPrepare st;
         st = st\<lparr>lu_pre := pre\<rparr>
     in do {
       st \<leftarrow> uv_call (UvPrepareInit (HBlock pre)) (HBlock pre) st;
       st \<leftarrow> uv_call (UvPrepareStart (HBlock pre)) (HBlock pre) st;
       st \<leftarrow> uv_call (UvUnref (HBlock pre)) (HBlock pre) st;
       st \<leftarrow> set_data (HBlock pre) loop st;
       let (check, st) = uv_alloc V BUvCheck st;
       let st = st\<lparr>lu_check := check\<rparr>;
       st \<leftarrow> uv_call (UvCheckInit (HBlock check)) (HBlock check) st;
       st \<leftarrow> uv_call (UvUnref (HBlock check)) (HBlock check) st;
       st \<leftarrow> uv_call (UvCheckStart (HBlock check)) (HBlock check) st;
       st \<leftarrow> set_data (HBlock check) loop st;
       st \<leftarrow> loop_data_init_uv V wakeup_cb st;
       st \<leftarrow> (if hint \<noteq> NULL then us_loop_integrate_uv st else Some st);
       Some (loop, st)
     })"

definition us_loop_free_uv :: "libuv \<Rightarrow> uvs \<Rightarrow> uvs option" where
  "us_loop_free_uv V st = do {
     let pre = lu_pre st;
     st \<leftarrow> uv_call (UvRef (HBlock pre)) (HBlock pre) st;
     st \<leftarrow> uv_call (UvPrepareStop (HBlock pre)) (HBlock pre) st;
     st \<leftarrow> set_data (HBlock pre) pre st;
     st \<leftarrow> uv_call (UvClose (HBlock pre) CloseCbFree) (HBlock pre) st;
     let check = lu_check st;
     st \<leftarrow> uv_call (UvRef (HBlock check)) (HBlock check) st;
     st \<leftarrow> uv_call (UvCheckStop (HBlock check)) (HBlock check) st;
     st \<leftarrow> set_data (HBlock check) check st;
     st \<leftarrow> uv_call (UvClose (HBlock check) CloseCbFree) (HBlock check) st;
     st \<leftarrow> loop_data_free_uv st;
     st \<leftarrow> (if \<not> lu_is_default st then do {
           st \<leftarrow> uv_run_once V (uv_emit UvRunNowait st);
           Some (uv_emit (UvLoopDelete (lu_uv_loop st)) st) }
         else Some st);
     uv_free (lu_self st) st
   }"

definition us_loop_run_uv :: "libuv \<Rightarrow> uvs \<Rightarrow> uvs option" where
  "us_loop_run_uv V st = do {
     st \<leftarrow> us_loop_integrate_uv st;
     uv_run_all V (uv_emit UvRunDefault st)
   }"


section \<open>Many polls, in any order\<close>

text \<open>
  The life of a poll as its client sees it: created, polling, stopped, and gone once it is freed.
  The polls of a loop and the close callbacks of libuv take their steps in any order; \<open>pend\<close> are
  the handles whose close callback libuv still owes, \<open>late\<close> the polls that were freed after their
  close callback had run.
\<close>

datatype poll_phase = Created | Polling | Stopped

record uv_run =
  phase :: "addr \<Rightarrow> poll_phase option"
  pend :: "addr set"
  late :: "addr set"
  uv_st :: uvs

inductive uv_step :: "libuv \<Rightarrow> uv_run \<Rightarrow> uv_run \<Rightarrow> bool" for V where
  create: "us_create_poll_uv V (uv_st r) = Some (p, st') \<Longrightarrow>
    uv_step V r (r\<lparr>phase := (phase r)(p \<mapsto> Created), uv_st := st'\<rparr>)"
| init: "phase r p = Some Created \<Longrightarrow> us_poll_init_uv p fd ty (uv_st r) = Some st' \<Longrightarrow> uv_step V r (r\<lparr>uv_st := st'\<rparr>)"
| set_type: "phase r p \<noteq> None \<Longrightarrow> us_internal_poll_set_type_uv p ty (uv_st r) = Some st' \<Longrightarrow> uv_step V r (r\<lparr>uv_st := st'\<rparr>)"
| start: "phase r p = Some Created \<Longrightarrow> us_poll_start_uv p ev (uv_st r) = Some st' \<Longrightarrow>
    uv_step V r (r\<lparr>phase := (phase r)(p \<mapsto> Polling), uv_st := st'\<rparr>)"
| change: "phase r p = Some Polling \<Longrightarrow> us_poll_change_uv p ev (uv_st r) = Some st' \<Longrightarrow> uv_step V r (r\<lparr>uv_st := st'\<rparr>)"
| stop: "phase r p = Some Polling \<Longrightarrow> us_poll_stop_uv p (uv_st r) = Some st' \<Longrightarrow>
    uv_step V r (r\<lparr>phase := (phase r)(p \<mapsto> Stopped), pend := insert (up_uv_p (uv_polls (uv_st r) p)) (pend r), uv_st := st'\<rparr>)"
| free: "phase r p = Some Stopped \<Longrightarrow> us_poll_free_uv V p (uv_st r) = Some st' \<Longrightarrow>
    uv_step V r (r\<lparr>phase := (phase r)(p := None),
      late := (if up_uv_p (uv_polls (uv_st r) p) \<in> pend r then late r else insert p (late r)), uv_st := st'\<rparr>)"
| closed: "h \<in> pend r \<Longrightarrow> close_cb_free_poll h (uv_st r) = Some st' \<Longrightarrow>
    uv_step V r (r\<lparr>pend := pend r - {h}, uv_st := st'\<rparr>)"

inductive uv_reachable :: "libuv \<Rightarrow> uv_run \<Rightarrow> bool" for V where
  empty: "uv_blocks st = Map.empty \<Longrightarrow> uv_reachable V \<lparr>phase = Map.empty, pend = {}, late = {}, uv_st = st\<rparr>"
| step: "uv_reachable V r \<Longrightarrow> uv_step V r r' \<Longrightarrow> uv_reachable V r'"

text \<open>
  What the code relies on: the allocator gives fresh blocks, and libuv says that a handle is
  closing exactly when \<open>uv_close\<close> has been called on it since it was initialised, also after the
  close callback.
\<close>

definition uv_malloc_ok :: "libuv \<Rightarrow> bool" where
  "uv_malloc_ok V \<longleftrightarrow> (\<forall>st. finite (dom (uv_blocks st)) \<longrightarrow> uv_malloc V st \<noteq> NULL \<and> uv_blocks st (uv_malloc V st) = None)"

definition closing_of :: "uv_handle \<Rightarrow> uv_call list \<Rightarrow> bool" where
  "closing_of h tr = fold (\<lambda>e b. case e of UvPollInit x fd \<Rightarrow> if x = h then False else b
     | UvClose x cb \<Rightarrow> if x = h then True else b | _ \<Rightarrow> b) tr False"

definition uv_closing_ok :: "libuv \<Rightarrow> bool" where
  "uv_closing_ok V \<longleftrightarrow> (\<forall>st h. uv_is_closing V st h = closing_of h (uv_trace st))"

definition libuv_ok :: "libuv \<Rightarrow> bool" where
  "libuv_ok V \<longleftrightarrow> uv_malloc_ok V \<and> uv_closing_ok V"

abbreviation uvp :: "uvs \<Rightarrow> addr \<Rightarrow> addr" where
  "uvp st p \<equiv> up_uv_p (uv_polls st p)"

text \<open>
  A poll that is in use or was freed late keeps its two blocks; one that was freed in time waits,
  with its handle pointing to it, for the close callback.
\<close>

definition waiting :: "uv_run \<Rightarrow> addr \<Rightarrow> bool" where
  "waiting r p \<longleftrightarrow> phase r p = None \<and> p \<notin> late r \<and> uv_blocks (uv_st r) p = Some BPoll"

definition uv_inv :: "uv_run \<Rightarrow> bool" where
  "uv_inv r \<longleftrightarrow>
     (\<forall>p. phase r p \<noteq> None \<or> p \<in> late r \<longrightarrow> uv_blocks (uv_st r) p = Some BPoll) \<and>
     (\<forall>p. p \<in> late r \<longrightarrow> phase r p = None) \<and>
     (\<forall>p. uv_blocks (uv_st r) p = Some BPoll \<longrightarrow> p \<noteq> NULL \<and> uvp (uv_st r) p \<noteq> NULL \<and>
        uv_blocks (uv_st r) (uvp (uv_st r) p) = Some BUvPoll) \<and>
     (\<forall>p q. uv_blocks (uv_st r) p = Some BPoll \<longrightarrow> uv_blocks (uv_st r) q = Some BPoll \<longrightarrow>
        uvp (uv_st r) p = uvp (uv_st r) q \<longrightarrow> p = q) \<and>
     (\<forall>a. uv_blocks (uv_st r) a \<noteq> None \<longrightarrow> uv_blocks (uv_st r) a = Some BPoll \<or>
        uv_blocks (uv_st r) a = Some BUvPoll \<and> (\<exists>p. uv_blocks (uv_st r) p = Some BPoll \<and> uvp (uv_st r) p = a)) \<and>
     (\<forall>h\<in>pend r. \<exists>p. uv_blocks (uv_st r) p = Some BPoll \<and> uvp (uv_st r) p = h \<and>
        (phase r p = Some Stopped \<and> uv_data (uv_st r) (HBlock h) = NULL \<or>
         waiting r p \<and> uv_data (uv_st r) (HBlock h) = p)) \<and>
     (\<forall>p. waiting r p \<longrightarrow> uvp (uv_st r) p \<in> pend r) \<and>
     (\<forall>p. phase r p = Some Stopped \<longrightarrow> closing_of (HBlock (uvp (uv_st r) p)) (uv_trace (uv_st r))) \<and>
     (\<forall>p. phase r p = Some Created \<or> phase r p = Some Polling \<longrightarrow> uv_data (uv_st r) (HBlock (uvp (uv_st r) p)) = p) \<and>
     finite (dom (uv_blocks (uv_st r)))"


lemma closing_of_snoc:
  "closing_of h (tr @ [e]) = (case e of UvPollInit x fd \<Rightarrow> if x = h then False else closing_of h tr
     | UvClose x cb \<Rightarrow> if x = h then True else closing_of h tr | _ \<Rightarrow> closing_of h tr)"
  by (cases e) (simp_all add: closing_of_def)

text \<open>What the operations on one poll change, as equations.\<close>

lemma create_eq:
  assumes V: "uv_malloc_ok V" and fin: "finite (dom (uv_blocks st))"
  shows "\<exists>p h. us_create_poll_uv V st = Some (p, st\<lparr>uv_blocks := (uv_blocks st)(p \<mapsto> BPoll, h \<mapsto> BUvPoll),
      uv_polls := (uv_polls st)(p := (uv_polls st p)\<lparr>up_uv_p := h\<rparr>), uv_data := (uv_data st)(HBlock h := p)\<rparr>) \<and>
    p \<noteq> NULL \<and> h \<noteq> NULL \<and> p \<noteq> h \<and> uv_blocks st p = None \<and> uv_blocks st h = None"
proof -
  let ?p = "uv_malloc V st"
  let ?s1 = "st\<lparr>uv_blocks := (uv_blocks st)(?p \<mapsto> BPoll)\<rparr>"
  let ?h = "uv_malloc V ?s1"
  have p: "?p \<noteq> NULL" "uv_blocks st ?p = None" using V fin by (auto simp: uv_malloc_ok_def)
  have "finite (dom (uv_blocks ?s1))" using fin by simp
  then have "?h \<noteq> NULL \<and> uv_blocks ?s1 ?h = None" using V unfolding uv_malloc_ok_def by blast
  then have h: "?h \<noteq> NULL" "?h \<noteq> ?p" "uv_blocks st ?h = None" by (auto split: if_splits)
  show ?thesis
    by (rule exI [of _ ?p], rule exI [of _ ?h])
      (use p h in \<open>simp add: us_create_poll_uv_def uv_alloc_def Let_def wr_up_def set_data_def\<close>)
qed

definition keeps_uv :: "uvs \<Rightarrow> uvs \<Rightarrow> bool" where
  "keeps_uv st st' \<longleftrightarrow> uv_blocks st' = uv_blocks st \<and> (\<forall>p. uvp st' p = uvp st p) \<and> uv_data st' = uv_data st"

lemma wr_up_eq:
  "uv_blocks st p = Some BPoll \<Longrightarrow> wr_up p f st = Some (st\<lparr>uv_polls := (uv_polls st)(p := f (uv_polls st p))\<rparr>)"
  by (simp add: wr_up_def)

lemma poll_ops_ok:
  assumes p: "uv_blocks st p = Some BPoll" and h: "uv_blocks st (uvp st p) = Some BUvPoll"
  shows "\<exists>st'. us_poll_init_uv p fd ty st = Some st' \<and> keeps_uv st st' \<and> uv_trace st' = uv_trace st"
    "\<exists>st'. us_internal_poll_set_type_uv p ty st = Some st' \<and> keeps_uv st st' \<and> uv_trace st' = uv_trace st"
    "\<exists>st' fd. us_poll_start_uv p ev st = Some st' \<and> keeps_uv st st' \<and>
       uv_trace st' = uv_trace st @ [UvPollInit (HBlock (uvp st p)) fd, UvPollStart (HBlock (uvp st p)) ev]"
    "\<exists>st'. us_poll_change_uv p ev st = Some st' \<and> keeps_uv st st' \<and>
       (\<forall>h. closing_of h (uv_trace st') = closing_of h (uv_trace st))"
  using assms
  by (auto simp: us_poll_init_uv_def us_internal_poll_set_type_uv_def us_poll_start_uv_def us_poll_change_uv_def wr_up_def
      rd_up_def keeps_uv_def us_internal_poll_type_uv_def us_poll_events_uv_def uv_call_def uv_emit_def closing_of_snoc)

lemma stop_eq:
  assumes p: "uv_blocks st p = Some BPoll" and h: "uv_blocks st (uvp st p) = Some BUvPoll"
  shows "us_poll_stop_uv p st = Some (st\<lparr>uv_data := (uv_data st)(HBlock (uvp st p) := NULL),
    uv_trace := uv_trace st @ [UvPollStop (HBlock (uvp st p)), UvClose (HBlock (uvp st p)) CloseCbFreePoll]\<rparr>)"
  using assms by (simp add: us_poll_stop_uv_def rd_up_def uv_call_def set_data_def uv_emit_def)

lemma free_eq:
  assumes V: "uv_closing_ok V" and p: "uv_blocks st p = Some BPoll" and h: "uv_blocks st (uvp st p) = Some BUvPoll"
    and c: "closing_of (HBlock (uvp st p)) (uv_trace st)"
  shows "us_poll_free_uv V p st = Some (st\<lparr>uv_data := (uv_data st)(HBlock (uvp st p) := p)\<rparr>)"
  using assms by (simp add: us_poll_free_uv_def rd_up_def set_data_def uv_closing_ok_def)

lemma closed_eq:
  assumes h: "uv_blocks st h = Some BUvPoll" and z: "h \<noteq> NULL"
  shows "close_cb_free_poll h st = (if uv_data st (HBlock h) = NULL then Some st
    else Option.bind (uv_free (uv_data st (HBlock h)) st) (uv_free h))"
  using assms by (simp add: close_cb_free_poll_def get_data_def)

section \<open>The invariant\<close>

lemma uv_invD:
  assumes "uv_inv r"
  shows "phase r p \<noteq> None \<Longrightarrow> uv_blocks (uv_st r) p = Some BPoll" "p \<in> late r \<Longrightarrow> uv_blocks (uv_st r) p = Some BPoll"
    "p \<in> late r \<Longrightarrow> phase r p = None"
    "uv_blocks (uv_st r) p = Some BPoll \<Longrightarrow> p \<noteq> NULL \<and> uvp (uv_st r) p \<noteq> NULL \<and> uv_blocks (uv_st r) (uvp (uv_st r) p) = Some BUvPoll"
    "uv_blocks (uv_st r) p = Some BPoll \<Longrightarrow> uv_blocks (uv_st r) q = Some BPoll \<Longrightarrow> uvp (uv_st r) p = uvp (uv_st r) q \<Longrightarrow> p = q"
    "uv_blocks (uv_st r) a \<noteq> None \<Longrightarrow> uv_blocks (uv_st r) a = Some BPoll \<or>
        uv_blocks (uv_st r) a = Some BUvPoll \<and> (\<exists>p. uv_blocks (uv_st r) p = Some BPoll \<and> uvp (uv_st r) p = a)"
    "h \<in> pend r \<Longrightarrow> \<exists>p. uv_blocks (uv_st r) p = Some BPoll \<and> uvp (uv_st r) p = h \<and>
        (phase r p = Some Stopped \<and> uv_data (uv_st r) (HBlock h) = NULL \<or> waiting r p \<and> uv_data (uv_st r) (HBlock h) = p)"
    "waiting r p \<Longrightarrow> uvp (uv_st r) p \<in> pend r"
    "phase r p = Some Stopped \<Longrightarrow> closing_of (HBlock (uvp (uv_st r) p)) (uv_trace (uv_st r))"
    "phase r p = Some Created \<or> phase r p = Some Polling \<Longrightarrow> uv_data (uv_st r) (HBlock (uvp (uv_st r) p)) = p"
    "finite (dom (uv_blocks (uv_st r)))"
  using assms unfolding uv_inv_def by blast+

text \<open>A step that changes the fields of polls, the trace and the phase of one poll in use.\<close>

lemma keeps_inv:
  assumes I: "uv_inv r" and k: "keeps_uv (uv_st r) st'" and p: "phase r p = Some x" "x \<noteq> Stopped" "y \<noteq> Stopped"
    and c: "\<And>h. h \<noteq> HBlock (uvp (uv_st r) p) \<Longrightarrow> closing_of h (uv_trace st') = closing_of h (uv_trace (uv_st r))"
  shows "uv_inv (r\<lparr>phase := (phase r)(p \<mapsto> y), uv_st := st'\<rparr>)"
proof -
  note D = uv_invD [OF I]
  let ?r = "r\<lparr>phase := (phase r)(p \<mapsto> y), uv_st := st'\<rparr>"
  have b: "uv_blocks st' = uv_blocks (uv_st r)" "uv_data st' = uv_data (uv_st r)" and u: "uvp st' q = uvp (uv_st r) q" for q
    using k by (simp_all add: keeps_uv_def)
  have bp: "uv_blocks (uv_st r) p = Some BPoll" using D(1) p(1) by simp
  have nl: "p \<notin> late r" using D(3) p(1) by auto
  have w: "waiting ?r q = waiting r q" for q using p(1) by (auto simp: waiting_def b)
  have st: "phase ?r q = Some Stopped \<longleftrightarrow> phase r q = Some Stopped" for q using p by auto
  have cl: "closing_of (HBlock (uvp st' q)) (uv_trace st')" if "phase r q = Some Stopped" for q
  proof -
    have "q \<noteq> p" using that p by auto
    moreover have "uv_blocks (uv_st r) q = Some BPoll" using D(1) that by simp
    ultimately have "uvp (uv_st r) q \<noteq> uvp (uv_st r) p" using D(5) [OF _ bp] by blast
    then show ?thesis using c [of "HBlock (uvp (uv_st r) q)"] D(9) [OF that] u by simp
  qed
  have dt: "uv_data (uv_st r) (HBlock (uvp (uv_st r) p)) = p" using D(10) [of p] p by (cases x) auto
  show ?thesis unfolding uv_inv_def
  proof (intro conjI allI impI ballI)
    fix q assume "phase ?r q \<noteq> None \<or> q \<in> late ?r"
    then show "uv_blocks (uv_st ?r) q = Some BPoll" using D(1,2) bp by (auto simp: b split: if_splits)
  next
    fix q assume "q \<in> late ?r"
    then show "phase ?r q = None" using D(3) nl by auto
  next
    fix h assume "h \<in> pend ?r"
    then show "\<exists>q. uv_blocks (uv_st ?r) q = Some BPoll \<and> uvp (uv_st ?r) q = h \<and>
        (phase ?r q = Some Stopped \<and> uv_data (uv_st ?r) (HBlock h) = NULL \<or> waiting ?r q \<and> uv_data (uv_st ?r) (HBlock h) = q)"
      using D(7) [of h] unfolding w st by (simp add: b u)
  next
    fix q assume "phase ?r q = Some Created \<or> phase ?r q = Some Polling"
    then show "uv_data (uv_st ?r) (HBlock (uvp (uv_st ?r) q)) = q" using D(10) dt by (auto simp: b u split: if_splits)
  next
    fix q assume "waiting ?r q" then show "uvp (uv_st ?r) q \<in> pend ?r" using D(8) unfolding w by (simp add: u)
  next
    fix q assume "phase ?r q = Some Stopped"
    then show "closing_of (HBlock (uvp (uv_st ?r) q)) (uv_trace (uv_st ?r))" using cl unfolding st by simp
  next
    fix q assume "uv_blocks (uv_st ?r) q = Some BPoll"
    then show "q \<noteq> NULL" "uvp (uv_st ?r) q \<noteq> NULL" "uv_blocks (uv_st ?r) (uvp (uv_st ?r) q) = Some BUvPoll"
      using D(4) by (simp_all add: b u)
  next
    fix q q' assume "uv_blocks (uv_st ?r) q = Some BPoll" "uv_blocks (uv_st ?r) q' = Some BPoll" "uvp (uv_st ?r) q = uvp (uv_st ?r) q'"
    then show "q = q'" using D(5) by (simp add: b u)
  next
    fix a assume "uv_blocks (uv_st ?r) a \<noteq> None"
    then show "uv_blocks (uv_st ?r) a = Some BPoll \<or>
        uv_blocks (uv_st ?r) a = Some BUvPoll \<and> (\<exists>p. uv_blocks (uv_st ?r) p = Some BPoll \<and> uvp (uv_st ?r) p = a)"
      using D(6) [of a] by (simp add: b u)
  next
    show "finite (dom (uv_blocks (uv_st ?r)))" using D(11) by (simp add: b)
  qed
qed


lemma create_inv:
  assumes V: "uv_malloc_ok V" and I: "uv_inv r" and s: "us_create_poll_uv V (uv_st r) = Some (p, st')"
  shows "uv_inv (r\<lparr>phase := (phase r)(p \<mapsto> Created), uv_st := st'\<rparr>)"
proof -
  note D = uv_invD [OF I]
  from create_eq [OF V D(11)] s obtain h where
    st': "st' = (uv_st r)\<lparr>uv_blocks := (uv_blocks (uv_st r))(p \<mapsto> BPoll, h \<mapsto> BUvPoll),
      uv_polls := (uv_polls (uv_st r))(p := (uv_polls (uv_st r) p)\<lparr>up_uv_p := h\<rparr>), uv_data := (uv_data (uv_st r))(HBlock h := p)\<rparr>"
    and n: "p \<noteq> NULL" "h \<noteq> NULL" "p \<noteq> h" "uv_blocks (uv_st r) p = None" "uv_blocks (uv_st r) h = None" by auto
  let ?r = "r\<lparr>phase := (phase r)(p \<mapsto> Created), uv_st := st'\<rparr>"
  have ph: "phase r p = None" "p \<notin> late r" using D(1,2) n(4) by force+
  have b: "uv_blocks (uv_st ?r) q = Some BPoll \<longleftrightarrow> q = p \<or> uv_blocks (uv_st r) q = Some BPoll" for q
    using n by (auto simp: st')
  have u: "uvp (uv_st ?r) q = (if q = p then h else uvp (uv_st r) q)" for q by (simp add: st')
  have fresh: "uvp (uv_st r) q \<noteq> h \<and> uvp (uv_st r) q \<noteq> p" if "uv_blocks (uv_st r) q = Some BPoll" for q
    using D(4) [OF that] n by auto
  have w: "waiting ?r q = waiting r q" for q using ph n by (auto simp: waiting_def st')
  have hp: "x \<noteq> h" "x \<noteq> p" if "x \<in> pend r" for x using D(7) [OF that] fresh by auto
  show ?thesis unfolding uv_inv_def
  proof (intro conjI allI impI ballI)
    fix q assume "phase ?r q \<noteq> None \<or> q \<in> late ?r"
    then show "uv_blocks (uv_st ?r) q = Some BPoll" using D(1,2) b by (auto split: if_splits)
  next
    fix q assume "q \<in> late ?r"
    then show "phase ?r q = None" using D(3) ph by auto
  next
    fix x assume x: "x \<in> pend ?r"
    then obtain q where q: "uv_blocks (uv_st r) q = Some BPoll" "uvp (uv_st r) q = x"
      "phase r q = Some Stopped \<and> uv_data (uv_st r) (HBlock x) = NULL \<or> waiting r q \<and> uv_data (uv_st r) (HBlock x) = q"
      using D(7) [of x] by auto
    have "q \<noteq> p" using q(1) n by auto
    then show "\<exists>q. uv_blocks (uv_st ?r) q = Some BPoll \<and> uvp (uv_st ?r) q = x \<and>
        (phase ?r q = Some Stopped \<and> uv_data (uv_st ?r) (HBlock x) = NULL \<or> waiting ?r q \<and> uv_data (uv_st ?r) (HBlock x) = q)"
      using q hp [of x] x w b u by (intro exI [of _ q]) (auto simp: st')
  next
    fix q assume q: "phase ?r q = Some Created \<or> phase ?r q = Some Polling"
    show "uv_data (uv_st ?r) (HBlock (uvp (uv_st ?r) q)) = q"
    proof (cases "q = p")
      case False
      then show ?thesis using q D(10) [of q] D(1) [of q] fresh [of q] by (auto simp: st')
    qed (simp add: st')
  next
    fix q assume "waiting ?r q"
    then have q: "waiting r q" using w by simp
    then have "q \<noteq> p" using n by (auto simp: waiting_def)
    then show "uvp (uv_st ?r) q \<in> pend ?r" using D(8) [OF q] u by simp
  next
    fix q assume q: "phase ?r q = Some Stopped"
    then have "q \<noteq> p" "phase r q = Some Stopped" by (auto split: if_splits)
    then show "closing_of (HBlock (uvp (uv_st ?r) q)) (uv_trace (uv_st ?r))" using D(9) by (simp add: st')
  next
    fix q assume q: "uv_blocks (uv_st ?r) q = Some BPoll"
    show "q \<noteq> NULL" "uvp (uv_st ?r) q \<noteq> NULL" "uv_blocks (uv_st ?r) (uvp (uv_st ?r) q) = Some BUvPoll"
      using q D(4) [of q] n fresh [of q] by (auto simp: st' split: if_splits)
  next
    fix q q' assume q: "uv_blocks (uv_st ?r) q = Some BPoll" "uv_blocks (uv_st ?r) q' = Some BPoll" "uvp (uv_st ?r) q = uvp (uv_st ?r) q'"
    then show "q = q'" using D(5) fresh unfolding b u by (auto split: if_splits)
  next
    fix a assume a: "uv_blocks (uv_st ?r) a \<noteq> None"
    have "\<exists>x. uv_blocks (uv_st ?r) x = Some BPoll \<and> uvp (uv_st ?r) x = a"
      if "uv_blocks (uv_st r) x = Some BPoll" "uvp (uv_st r) x = a" for x
    proof -
      have "x \<noteq> p" using that n(4) by auto
      then show ?thesis using that b u by (intro exI [of _ x]) simp
    qed
    note old = this
    show "uv_blocks (uv_st ?r) a = Some BPoll \<or>
        uv_blocks (uv_st ?r) a = Some BUvPoll \<and> (\<exists>p. uv_blocks (uv_st ?r) p = Some BPoll \<and> uvp (uv_st ?r) p = a)"
    proof (cases "a = h \<or> a = p")
      case True
      then show ?thesis using b [of p] u [of p] n(3) by (auto simp: st' intro: exI [of _ p])
    next
      case False
      then have same: "uv_blocks (uv_st ?r) a = uv_blocks (uv_st r) a" by (simp add: st')
      then have "uv_blocks (uv_st r) a \<noteq> None" using a by simp
      from D(6) [OF this] old show ?thesis unfolding same by blast
    qed
  next
    show "finite (dom (uv_blocks (uv_st ?r)))" using D(11) by (simp add: st')
  qed
qed

text \<open>Stopping and freeing change one handle's data.\<close>

lemma stop_inv:
  assumes I: "uv_inv r" and p: "phase r p = Some Polling" and s: "us_poll_stop_uv p (uv_st r) = Some st'"
  shows "uv_inv (r\<lparr>phase := (phase r)(p \<mapsto> Stopped), pend := insert (uvp (uv_st r) p) (pend r), uv_st := st'\<rparr>)"
proof -
  note D = uv_invD [OF I]
  let ?h = "uvp (uv_st r) p"
  have bp: "uv_blocks (uv_st r) p = Some BPoll" using D(1) p by simp
  have st': "st' = (uv_st r)\<lparr>uv_data := (uv_data (uv_st r))(HBlock ?h := NULL),
    uv_trace := uv_trace (uv_st r) @ [UvPollStop (HBlock ?h), UvClose (HBlock ?h) CloseCbFreePoll]\<rparr>"
    using stop_eq [OF bp] D(4) [OF bp] s by simp
  let ?r = "r\<lparr>phase := (phase r)(p \<mapsto> Stopped), pend := insert ?h (pend r), uv_st := st'\<rparr>"
  have nl: "p \<notin> late r" using D(3) p by auto
  have w: "waiting ?r q = waiting r q" for q using p by (auto simp: waiting_def st')
  have inj: "uvp (uv_st r) q = ?h \<Longrightarrow> uv_blocks (uv_st r) q = Some BPoll \<Longrightarrow> q = p" for q using D(5) [OF _ bp] by blast
  have notpend: "?h \<notin> pend r"
  proof
    assume "?h \<in> pend r"
    from D(7) [OF this] obtain q where q: "uv_blocks (uv_st r) q = Some BPoll" "uvp (uv_st r) q = ?h"
      "phase r q = Some Stopped \<or> waiting r q" by blast
    have "q = p" using inj [OF q(2,1)] .
    then show False using q(3) p by (simp add: waiting_def)
  qed
  have cl: "closing_of h (uv_trace st') = (h = HBlock ?h \<or> closing_of h (uv_trace (uv_st r)))" for h
    using closing_of_snoc [of h "uv_trace (uv_st r) @ [UvPollStop (HBlock ?h)]"] by (auto simp: st' closing_of_snoc)
  show ?thesis unfolding uv_inv_def
  proof (intro conjI allI impI ballI)
    fix q assume "phase ?r q \<noteq> None \<or> q \<in> late ?r"
    then show "uv_blocks (uv_st ?r) q = Some BPoll" using D(1,2) bp by (auto simp: st' split: if_splits)
  next
    fix q assume "q \<in> late ?r"
    then show "phase ?r q = None" using D(3) nl by auto
  next
    fix x assume x: "x \<in> pend ?r"
    show "\<exists>q. uv_blocks (uv_st ?r) q = Some BPoll \<and> uvp (uv_st ?r) q = x \<and>
        (phase ?r q = Some Stopped \<and> uv_data (uv_st ?r) (HBlock x) = NULL \<or> waiting ?r q \<and> uv_data (uv_st ?r) (HBlock x) = q)"
    proof (cases "x = ?h")
      case True
      then show ?thesis using bp by (intro exI [of _ p]) (simp add: st')
    next
      case False
      then obtain q where q: "uv_blocks (uv_st r) q = Some BPoll" "uvp (uv_st r) q = x"
        "phase r q = Some Stopped \<and> uv_data (uv_st r) (HBlock x) = NULL \<or> waiting r q \<and> uv_data (uv_st r) (HBlock x) = q"
        using D(7) [of x] x by auto
      then show ?thesis using False w by (intro exI [of _ q]) (auto simp: st')
    qed
  next
    fix q assume q: "phase ?r q = Some Created \<or> phase ?r q = Some Polling"
    then have "q \<noteq> p" "phase r q = Some Created \<or> phase r q = Some Polling" by (auto split: if_splits)
    then show "uv_data (uv_st ?r) (HBlock (uvp (uv_st ?r) q)) = q" using D(10) [of q] D(1) [of q] inj [of q] by (auto simp: st')
  next
    fix q assume "waiting ?r q" then show "uvp (uv_st ?r) q \<in> pend ?r" using D(8) unfolding w by (simp add: st')
  next
    fix q assume q: "phase ?r q = Some Stopped"
    then show "closing_of (HBlock (uvp (uv_st ?r) q)) (uv_trace (uv_st ?r))"
      using D(9) [of q] cl by (auto simp: st' split: if_splits)
  next
    fix q assume "uv_blocks (uv_st ?r) q = Some BPoll"
    then show "q \<noteq> NULL" "uvp (uv_st ?r) q \<noteq> NULL" "uv_blocks (uv_st ?r) (uvp (uv_st ?r) q) = Some BUvPoll"
      using D(4) by (simp_all add: st')
  next
    fix q q' assume "uv_blocks (uv_st ?r) q = Some BPoll" "uv_blocks (uv_st ?r) q' = Some BPoll" "uvp (uv_st ?r) q = uvp (uv_st ?r) q'"
    then show "q = q'" using D(5) by (simp add: st')
  next
    fix a assume "uv_blocks (uv_st ?r) a \<noteq> None"
    then show "uv_blocks (uv_st ?r) a = Some BPoll \<or>
        uv_blocks (uv_st ?r) a = Some BUvPoll \<and> (\<exists>p. uv_blocks (uv_st ?r) p = Some BPoll \<and> uvp (uv_st ?r) p = a)"
      using D(6) [of a] by (simp add: st')
  next
    show "finite (dom (uv_blocks (uv_st ?r)))" using D(11) by (simp add: st')
  qed
qed


lemma free_inv:
  assumes V: "uv_closing_ok V" and I: "uv_inv r" and p: "phase r p = Some Stopped" and s: "us_poll_free_uv V p (uv_st r) = Some st'"
  shows "uv_inv (r\<lparr>phase := (phase r)(p := None),
      late := (if uvp (uv_st r) p \<in> pend r then late r else insert p (late r)), uv_st := st'\<rparr>)"
proof -
  note D = uv_invD [OF I]
  let ?h = "uvp (uv_st r) p"
  have bp: "uv_blocks (uv_st r) p = Some BPoll" using D(1) p by simp
  have st': "st' = (uv_st r)\<lparr>uv_data := (uv_data (uv_st r))(HBlock ?h := p)\<rparr>"
    using free_eq [OF V bp _ D(9) [OF p]] D(4) [OF bp] s by simp
  let ?r = "r\<lparr>phase := (phase r)(p := None),
      late := (if ?h \<in> pend r then late r else insert p (late r)), uv_st := st'\<rparr>"
  have nl: "p \<notin> late r" using D(3) p by auto
  have w: "waiting ?r q \<longleftrightarrow> (if q = p then ?h \<in> pend r else waiting r q)" for q
    using nl bp by (auto simp: waiting_def st')
  have inj: "uvp (uv_st r) q = ?h \<Longrightarrow> uv_blocks (uv_st r) q = Some BPoll \<Longrightarrow> q = p" for q using D(5) [OF _ bp] by blast
  show ?thesis unfolding uv_inv_def
  proof (intro conjI allI impI ballI)
    fix q assume "phase ?r q \<noteq> None \<or> q \<in> late ?r"
    then show "uv_blocks (uv_st ?r) q = Some BPoll" using D(1,2) bp by (auto simp: st' split: if_splits)
  next
    fix q assume "q \<in> late ?r"
    then show "phase ?r q = None" using D(3) by (auto split: if_splits)
  next
    fix x assume x: "x \<in> pend ?r"
    then obtain q where q: "uv_blocks (uv_st r) q = Some BPoll" "uvp (uv_st r) q = x"
      "phase r q = Some Stopped \<and> uv_data (uv_st r) (HBlock x) = NULL \<or> waiting r q \<and> uv_data (uv_st r) (HBlock x) = q"
      using D(7) [of x] by auto
    show "\<exists>q. uv_blocks (uv_st ?r) q = Some BPoll \<and> uvp (uv_st ?r) q = x \<and>
        (phase ?r q = Some Stopped \<and> uv_data (uv_st ?r) (HBlock x) = NULL \<or> waiting ?r q \<and> uv_data (uv_st ?r) (HBlock x) = q)"
    proof (cases "q = p")
      case True
      then show ?thesis using q x w [of p] by (intro exI [of _ p]) (simp add: st')
    next
      case False
      then have "x \<noteq> ?h" using inj [of q] q by auto
      then show ?thesis using False q w [of q] by (intro exI [of _ q]) (simp add: st')
    qed
  next
    fix q assume q: "phase ?r q = Some Created \<or> phase ?r q = Some Polling"
    then have "q \<noteq> p" "phase r q = Some Created \<or> phase r q = Some Polling" by (auto split: if_splits)
    then show "uv_data (uv_st ?r) (HBlock (uvp (uv_st ?r) q)) = q" using D(10) [of q] D(1) [of q] inj [of q] by (auto simp: st')
  next
    fix q assume "waiting ?r q"
    then show "uvp (uv_st ?r) q \<in> pend ?r" using D(8) [of q] unfolding w by (simp add: st' split: if_splits)
  next
    fix q assume q: "phase ?r q = Some Stopped"
    then show "closing_of (HBlock (uvp (uv_st ?r) q)) (uv_trace (uv_st ?r))" using D(9) [of q] by (auto simp: st' split: if_splits)
  next
    fix q assume "uv_blocks (uv_st ?r) q = Some BPoll"
    then show "q \<noteq> NULL" "uvp (uv_st ?r) q \<noteq> NULL" "uv_blocks (uv_st ?r) (uvp (uv_st ?r) q) = Some BUvPoll"
      using D(4) by (simp_all add: st')
  next
    fix q q' assume "uv_blocks (uv_st ?r) q = Some BPoll" "uv_blocks (uv_st ?r) q' = Some BPoll" "uvp (uv_st ?r) q = uvp (uv_st ?r) q'"
    then show "q = q'" using D(5) by (simp add: st')
  next
    fix a assume "uv_blocks (uv_st ?r) a \<noteq> None"
    then show "uv_blocks (uv_st ?r) a = Some BPoll \<or>
        uv_blocks (uv_st ?r) a = Some BUvPoll \<and> (\<exists>p. uv_blocks (uv_st ?r) p = Some BPoll \<and> uvp (uv_st ?r) p = a)"
      using D(6) [of a] by (simp add: st')
  next
    show "finite (dom (uv_blocks (uv_st ?r)))" using D(11) by (simp add: st')
  qed
qed

text \<open>The close callback frees a waiting poll and its handle, once; otherwise it does nothing.\<close>

lemma closed_step:
  assumes I: "uv_inv r" and h: "h \<in> pend r"
  shows "\<exists>p. uvp (uv_st r) p = h \<and> uv_blocks (uv_st r) p = Some BPoll \<and>
    (phase r p = Some Stopped \<and> close_cb_free_poll h (uv_st r) = Some (uv_st r) \<or>
     waiting r p \<and> close_cb_free_poll h (uv_st r) =
       Some ((uv_st r)\<lparr>uv_blocks := (uv_blocks (uv_st r))(p := None, h := None)\<rparr>))"
proof -
  note D = uv_invD [OF I]
  from D(7) [OF h] obtain p where p: "uv_blocks (uv_st r) p = Some BPoll" "uvp (uv_st r) p = h"
    "phase r p = Some Stopped \<and> uv_data (uv_st r) (HBlock h) = NULL \<or> waiting r p \<and> uv_data (uv_st r) (HBlock h) = p" by blast
  have k: "p \<noteq> NULL" "h \<noteq> NULL" "uv_blocks (uv_st r) h = Some BUvPoll" using D(4) [OF p(1)] p(2) by auto
  have "h \<noteq> p" using k(3) p(1) by auto
  then show ?thesis using p k closed_eq [OF k(3,2)] by (intro exI [of _ p]) (auto simp: uv_free_def fun_upd_twist)
qed

lemma closed_inv:
  assumes I: "uv_inv r" and h: "h \<in> pend r" and s: "close_cb_free_poll h (uv_st r) = Some st'"
  shows "uv_inv (r\<lparr>pend := pend r - {h}, uv_st := st'\<rparr>)"
proof -
  note D = uv_invD [OF I]
  obtain p where p: "uvp (uv_st r) p = h" "uv_blocks (uv_st r) p = Some BPoll" and
    c0: "phase r p = Some Stopped \<and> close_cb_free_poll h (uv_st r) = Some (uv_st r) \<or>
     waiting r p \<and> close_cb_free_poll h (uv_st r) =
       Some ((uv_st r)\<lparr>uv_blocks := (uv_blocks (uv_st r))(p := None, h := None)\<rparr>)"
    using closed_step [OF I h] by blast
  have c: "phase r p = Some Stopped \<and> st' = uv_st r \<or>
     waiting r p \<and> st' = (uv_st r)\<lparr>uv_blocks := (uv_blocks (uv_st r))(p := None, h := None)\<rparr>"
    using c0 unfolding s option.inject by blast
  have inj: "q = p" if "uvp (uv_st r) q = h" "uv_blocks (uv_st r) q = Some BPoll" for q
    by (rule D(5) [OF that(2) p(2)]) (simp only: that(1) p(1))
  have k: "uv_blocks (uv_st r) h = Some BUvPoll" "h \<noteq> p" using D(4) [OF p(2)] p by auto
  let ?r = "r\<lparr>pend := pend r - {h}, uv_st := st'\<rparr>"
  let ?B = "uv_blocks (uv_st r)"
  have "uv_blocks st' = (if waiting r p then ?B(p := None, h := None) else ?B) \<and>
    uv_polls st' = uv_polls (uv_st r) \<and> uv_data st' = uv_data (uv_st r) \<and> uv_trace st' = uv_trace (uv_st r)"
  proof (cases "waiting r p")
    case True
    then have "phase r p \<noteq> Some Stopped" by (simp add: waiting_def)
    then show ?thesis using c True by simp
  next
    case False
    then have "st' = uv_st r" using c by blast
    then show ?thesis using False by simp
  qed
  then have B: "uv_blocks st' = (if waiting r p then ?B(p := None, h := None) else ?B)"
    and u: "uv_polls st' = uv_polls (uv_st r)" "uv_data st' = uv_data (uv_st r)" "uv_trace st' = uv_trace (uv_st r)"
    by blast+
  have b: "uv_blocks st' q = Some BPoll \<longleftrightarrow> ?B q = Some BPoll \<and> (q = p \<longrightarrow> \<not> waiting r p)" for q
    using k by (simp add: B)
  have bh: "uv_blocks st' q = Some BUvPoll \<longleftrightarrow> ?B q = Some BUvPoll \<and> (q = h \<longrightarrow> \<not> waiting r p)" for q
    using p k by (simp add: B)
  have bn: "uv_blocks st' q \<noteq> None \<Longrightarrow> ?B q \<noteq> None" for q by (simp add: B split: if_splits)
  have w: "waiting ?r q \<longleftrightarrow> waiting r q \<and> q \<noteq> p" for q using b [of q] by (auto simp: waiting_def)
  have np: "waiting r p \<Longrightarrow> phase r q \<noteq> None \<or> q \<in> late r \<Longrightarrow> q \<noteq> p" for q by (auto simp: waiting_def)
  show ?thesis unfolding uv_inv_def
  proof (intro conjI allI impI ballI)
    fix q assume "phase ?r q \<noteq> None \<or> q \<in> late ?r"
    then show "uv_blocks (uv_st ?r) q = Some BPoll" using D(1,2) [of q] b [of q] np [of q] by auto
  next
    fix q assume "q \<in> late ?r" then show "phase ?r q = None" using D(3) by simp
  next
    fix x assume "x \<in> pend ?r"
    then have x: "x \<in> pend r" "x \<noteq> h" by simp_all
    from D(7) [OF x(1)] obtain q where q: "uv_blocks (uv_st r) q = Some BPoll" "uvp (uv_st r) q = x"
      "phase r q = Some Stopped \<and> uv_data (uv_st r) (HBlock x) = NULL \<or> waiting r q \<and> uv_data (uv_st r) (HBlock x) = q" by blast
    have "q \<noteq> p" using q(2) x(2) p(1) by auto
    then show "\<exists>q. uv_blocks (uv_st ?r) q = Some BPoll \<and> uvp (uv_st ?r) q = x \<and>
        (phase ?r q = Some Stopped \<and> uv_data (uv_st ?r) (HBlock x) = NULL \<or> waiting ?r q \<and> uv_data (uv_st ?r) (HBlock x) = q)"
      using q b w [of q] by (intro exI [of _ q]) (simp add: u)
  next
    fix q assume "phase ?r q = Some Created \<or> phase ?r q = Some Polling"
    then show "uv_data (uv_st ?r) (HBlock (uvp (uv_st ?r) q)) = q" using D(10) by (simp add: u)
  next
    fix q assume "waiting ?r q"
    then have q: "waiting r q" "q \<noteq> p" using w by simp_all
    moreover have "uv_blocks (uv_st r) q = Some BPoll" using q(1) by (simp add: waiting_def)
    ultimately show "uvp (uv_st ?r) q \<in> pend ?r" using D(8) [OF q(1)] inj [of q] by (auto simp: u)
  next
    fix q assume "phase ?r q = Some Stopped"
    then show "closing_of (HBlock (uvp (uv_st ?r) q)) (uv_trace (uv_st ?r))" using D(9) by (simp add: u)
  next
    fix q assume "uv_blocks (uv_st ?r) q = Some BPoll"
    then have q: "uv_blocks (uv_st r) q = Some BPoll" "q = p \<longrightarrow> \<not> waiting r p" using b by simp_all
    show "q \<noteq> NULL" "uvp (uv_st ?r) q \<noteq> NULL" "uv_blocks (uv_st ?r) (uvp (uv_st ?r) q) = Some BUvPoll"
      using D(4) [OF q(1)] bh inj [OF _ q(1)] q(2) by (auto simp: u)
  next
    fix q q' assume "uv_blocks (uv_st ?r) q = Some BPoll" "uv_blocks (uv_st ?r) q' = Some BPoll" "uvp (uv_st ?r) q = uvp (uv_st ?r) q'"
    then show "q = q'" using D(5) b by (simp add: u)
  next
    fix a assume a: "uv_blocks (uv_st ?r) a \<noteq> None"
    have "uv_blocks (uv_st r) a \<noteq> None" using bn [of a] a by simp
    from D(6) [OF this] consider (p) "uv_blocks (uv_st r) a = Some BPoll"
      | (h) x where "uv_blocks (uv_st r) a = Some BUvPoll" "uv_blocks (uv_st r) x = Some BPoll" "uvp (uv_st r) x = a" by blast
    then show "uv_blocks (uv_st ?r) a = Some BPoll \<or>
        uv_blocks (uv_st ?r) a = Some BUvPoll \<and> (\<exists>p. uv_blocks (uv_st ?r) p = Some BPoll \<and> uvp (uv_st ?r) p = a)"
    proof cases
      case p': p
      then have "uv_blocks st' a = Some BPoll" using a b [of a] by (simp add: B split: if_splits)
      then show ?thesis by simp
    next
      case x: h
      have 1: "a = h \<longrightarrow> \<not> waiting r p" using a by (simp add: B split: if_splits)
      have 2: "x = p \<longrightarrow> a = h" using x(3) p(1) by blast
      have "uv_blocks st' a = Some BUvPoll" using bh [of a] x(1) 1 by simp
      moreover have "uv_blocks st' x = Some BPoll" using b [of x] x(2) 1 2 by simp
      ultimately show ?thesis using x(3) u(1) by auto
    qed
  next
    show "finite (dom (uv_blocks (uv_st ?r)))" 
      by (rule finite_subset [OF _ D(11)]) (use bn in \<open>auto simp: dom_def\<close>)
  qed
qed


lemma same_inv:
  assumes I: "uv_inv r" and k: "keeps_uv (uv_st r) st'" and c: "\<And>h. closing_of h (uv_trace st') = closing_of h (uv_trace (uv_st r))"
  shows "uv_inv (r\<lparr>uv_st := st'\<rparr>)"
proof -
  have b: "uv_blocks st' = uv_blocks (uv_st r)" "uv_data st' = uv_data (uv_st r)" and u: "uvp st' q = uvp (uv_st r) q" for q
    using k by (simp_all add: keeps_uv_def)
  have w: "waiting (r\<lparr>uv_st := st'\<rparr>) q = waiting r q" for q by (simp add: waiting_def b)
  show ?thesis using I unfolding uv_inv_def w by (simp add: b u c)
qed

lemma phase_blocks:
  assumes "uv_inv r" "phase r p \<noteq> None"
  shows "uv_blocks (uv_st r) p = Some BPoll" "uv_blocks (uv_st r) (uvp (uv_st r) p) = Some BUvPoll"
  using uv_invD(1) [OF assms] uv_invD(4) [OF assms(1), of p] by simp_all

lemma uv_inv_step:
  assumes V: "libuv_ok V" and I: "uv_inv r" and s: "uv_step V r r'"
  shows "uv_inv r'"
proof -
  have M: "uv_malloc_ok V" and C: "uv_closing_ok V" using V by (simp_all add: libuv_ok_def)
  show ?thesis
    using s
  proof cases
    case (create p st')
    then show ?thesis using create_inv [OF M I create(2)] by simp
  next
    case (init p fd ty st')
    note D = phase_blocks [OF I, of p]
    have "keeps_uv (uv_st r) st' \<and> uv_trace st' = uv_trace (uv_st r)"
      using poll_ops_ok(1) [of "uv_st r" p fd ty] D init by auto
    then show ?thesis using same_inv [OF I] init by simp
  next
    case (set_type p ty st')
    note D = phase_blocks [OF I, of p]
    have "keeps_uv (uv_st r) st' \<and> uv_trace st' = uv_trace (uv_st r)"
      using poll_ops_ok(2) [of "uv_st r" p ty] D set_type by auto
    then show ?thesis using same_inv [OF I] set_type by simp
  next
    case (start p ev st')
    note D = phase_blocks [OF I, of p]
    obtain fd where k: "keeps_uv (uv_st r) st'"
      and t: "uv_trace st' = uv_trace (uv_st r) @ [UvPollInit (HBlock (uvp (uv_st r) p)) fd, UvPollStart (HBlock (uvp (uv_st r) p)) ev]"
      using poll_ops_ok(3) [of "uv_st r" p ev] D start by auto
    have c: "closing_of h (uv_trace st') = closing_of h (uv_trace (uv_st r))" if "h \<noteq> HBlock (uvp (uv_st r) p)" for h
      using closing_of_snoc [of h "uv_trace (uv_st r) @ [UvPollInit (HBlock (uvp (uv_st r) p)) fd]"] that
      by (simp add: t closing_of_snoc)
    show ?thesis unfolding start(1) by (rule keeps_inv [OF I k start(2) _ _ c]) simp_all
  next
    case (change p ev st')
    note D = phase_blocks [OF I, of p]
    have "keeps_uv (uv_st r) st' \<and> (\<forall>h. closing_of h (uv_trace st') = closing_of h (uv_trace (uv_st r)))"
      using poll_ops_ok(4) [of "uv_st r" p ev] D change by auto
    then show ?thesis using same_inv [OF I] change by simp
  next
    case (stop p st')
    then show ?thesis using stop_inv [OF I stop(2,3)] by simp
  next
    case (free p st')
    then show ?thesis using free_inv [OF C I free(2,3)] by simp
  next
    case (closed h st')
    then show ?thesis using closed_inv [OF I closed(2,3)] by simp
  qed
qed

lemma uv_reachable_inv:
  assumes "uv_reachable V r" and V: "libuv_ok V"
  shows "uv_inv r"
  using assms(1)
proof induction
  case (empty st)
  then show ?case by (simp add: uv_inv_def waiting_def)
next
  case (step r r')
  then show ?case using uv_inv_step [OF V] by blast
qed

section \<open>No use after free, and what is left\<close>

text \<open>C27. In every interleaving of the lives of polls with libuv's close callbacks, the next call on
  a poll is defined: starting, changing, retyping, stopping or freeing a poll that its phase allows,
  and a close callback libuv owes, never touch a block that has been freed, nor free one twice.\<close>

theorem uv_no_use_after_free:
  assumes V: "libuv_ok V" and R: "uv_reachable V r"
  shows "(phase r p = Some Created \<longrightarrow> us_poll_init_uv p fd ty (uv_st r) \<noteq> None \<and> us_poll_start_uv p ev (uv_st r) \<noteq> None) \<and>
    (phase r p \<noteq> None \<longrightarrow> us_internal_poll_set_type_uv p ty (uv_st r) \<noteq> None \<and>
       us_poll_fd_uv p (uv_st r) \<noteq> None \<and> us_poll_events_uv p (uv_st r) \<noteq> None) \<and>
    (phase r p = Some Polling \<longrightarrow> us_poll_change_uv p ev (uv_st r) \<noteq> None \<and> us_poll_stop_uv p (uv_st r) \<noteq> None) \<and>
    (phase r p = Some Stopped \<longrightarrow> us_poll_free_uv V p (uv_st r) \<noteq> None) \<and>
    (h \<in> pend r \<longrightarrow> close_cb_free_poll h (uv_st r) \<noteq> None)"
proof -
  have I: "uv_inv r" using uv_reachable_inv [OF R V] .
  have b: "uv_blocks (uv_st r) p = Some BPoll" "uv_blocks (uv_st r) (uvp (uv_st r) p) = Some BUvPoll" if "phase r p \<noteq> None"
    using phase_blocks [OF I that] by simp_all
  have fr: "us_poll_free_uv V p (uv_st r) \<noteq> None" if "phase r p = Some Stopped"
    using free_eq [OF _ b uv_invD(9) [OF I that]] V that by (simp add: libuv_ok_def)
  have cl: "close_cb_free_poll h (uv_st r) \<noteq> None" if "h \<in> pend r"
    using closed_step [OF I that] by auto
  show ?thesis
  proof (intro conjI impI fr cl)
    assume "phase r p = Some Created"
    then have n: "phase r p \<noteq> None" by simp
    show "us_poll_init_uv p fd ty (uv_st r) \<noteq> None" "us_poll_start_uv p ev (uv_st r) \<noteq> None"
      using poll_ops_ok(1) [OF b [OF n], of fd ty] poll_ops_ok(3) [OF b [OF n], of ev] by auto
  next
    assume n: "phase r p \<noteq> None"
    show "us_internal_poll_set_type_uv p ty (uv_st r) \<noteq> None" using poll_ops_ok(2) [OF b [OF n], of ty] by auto
    show "us_poll_fd_uv p (uv_st r) \<noteq> None" "us_poll_events_uv p (uv_st r) \<noteq> None"
      using b(1) [OF n] by (simp_all add: us_poll_fd_uv_def us_poll_events_uv_def rd_up_def)
  next
    assume "phase r p = Some Polling"
    then have n: "phase r p \<noteq> None" by simp
    show "us_poll_change_uv p ev (uv_st r) \<noteq> None" "us_poll_stop_uv p (uv_st r) \<noteq> None"
      using poll_ops_ok(4) [OF b [OF n], of ev] stop_eq [OF b [OF n]] by auto
  qed
qed

text \<open>Once no poll is in use and libuv owes no close callback, the blocks that are left are
  exactly those of the polls freed after their close callback had run, with their handles: there is
  no leak when every poll is freed before that, and two blocks are lost for each one that is not.\<close>

theorem uv_blocks_left:
  assumes V: "libuv_ok V" and R: "uv_reachable V r" and q: "phase r = Map.empty" "pend r = {}"
  shows "dom (uv_blocks (uv_st r)) = late r \<union> uvp (uv_st r) ` late r"
proof -
  have I: "uv_inv r" using uv_reachable_inv [OF R V] .
  note D = uv_invD [OF I]
  have bp: "uv_blocks (uv_st r) a = Some BPoll \<longleftrightarrow> a \<in> late r" for a
    using D(2) D(8) [of a] q by (auto simp: waiting_def)
  show ?thesis
  proof (intro equalityI subsetI)
    fix a assume "a \<in> dom (uv_blocks (uv_st r))"
    then show "a \<in> late r \<union> uvp (uv_st r) ` late r" using D(6) [of a] bp by blast
  next
    fix a assume "a \<in> late r \<union> uvp (uv_st r) ` late r"
    then show "a \<in> dom (uv_blocks (uv_st r))" using bp D(4) by auto
  qed
qed

text \<open>A poll that is freed after its close callback has run is never released: libuv still says
  that its handle is closing, so the free only writes the handle's data for a callback that does not
  come, and in every later state both blocks are still allocated.\<close>

theorem uv_late_free_leaks:
  assumes V: "libuv_ok V" and R: "uv_reachable V r" and p: "phase r p = Some Stopped" "up_uv_p (uv_polls (uv_st r) p) \<notin> pend r"
    and f: "us_poll_free_uv V p (uv_st r) = Some st'"
    and s: "(uv_step V)\<^sup>*\<^sup>* (r\<lparr>phase := (phase r)(p := None), late := insert p (late r), uv_st := st'\<rparr>) r'"
  shows "uv_blocks (uv_st r') p = Some BPoll \<and> uv_blocks (uv_st r') (up_uv_p (uv_polls (uv_st r') p)) = Some BUvPoll"
proof -
  let ?r = "r\<lparr>phase := (phase r)(p := None), late := insert p (late r), uv_st := st'\<rparr>"
  have R': "uv_reachable V ?r" using uv_reachable.step [OF R uv_step.free [OF p(1) f]] p(2) by (simp add: fun_upd_def)
  from s have "uv_reachable V r' \<and> p \<in> late r'"
  proof induction
    case base
    show ?case by (intro conjI R') simp
  next
    case (step y z)
    have y: "uv_reachable V y" "p \<in> late y" using step(3) by simp_all
    have "p \<in> late z" using step(2) y(2) by cases simp_all
    then show ?case using uv_reachable.step [OF y(1) step(2)] by simp
  qed
  then have "uv_inv r'" "p \<in> late r'" using uv_reachable_inv V by blast+
  then show ?thesis using uv_invD(2,4) by blast
qed


section \<open>A concrete libuv\<close>

definition uv0 :: libuv where
  "uv0 = \<lparr>uv_malloc = \<lambda>st. Suc (Max (insert 0 (dom (uv_blocks st)))), uv_realloc = \<lambda>st p. p,
    uv_is_closing = \<lambda>st h. closing_of h (uv_trace st), uv_new_loop = \<lambda>st. 1, uv_run_once = Some, uv_run_all = Some\<rparr>"

definition uv_empty :: uvs where
  "uv_empty = \<lparr>uv_blocks = Map.empty, uv_polls = \<lambda>_. \<lparr>up_uv_p = 0, up_fd = 0, up_poll_type = 0\<rparr>, uv_data = \<lambda>_. 0,
    uv_cbs = \<lambda>_. \<lparr>uc_expects_the_loop = False, uc_leave_poll_ready = False, uc_cb = FnSweepTimer\<rparr>,
    lu_self = 0, lu_uv_loop = 0, lu_is_default = False, lu_pre = 0, lu_check = 0, lu_sweep_timer = 0,
    lu_wakeup_async = 0, uv_trace = []\<rparr>"

lemma uv0_ok: "libuv_ok uv0"
proof -
  have "uv_blocks st (Suc (Max (insert 0 (dom (uv_blocks st))))) = None" if "finite (dom (uv_blocks st))" for st
    using Suc_Max_fresh [OF that] .
  then show ?thesis unfolding libuv_ok_def uv_malloc_ok_def uv_closing_ok_def uv0_def libuv.simps by blast
qed

text \<open>The run in which one poll is created at 1, with its handle at 2, started on descriptor 0 and
  stopped.\<close>

definition uv_created :: uvs where "uv_created = snd (the (us_create_poll_uv uv0 uv_empty))"
definition uv_started :: uvs where "uv_started = the (us_poll_start_uv 1 UV_READABLE uv_created)"
definition uv_stopped :: uvs where "uv_stopped = the (us_poll_stop_uv 1 uv_started)"

lemma uv_created_eq:
  "us_create_poll_uv uv0 uv_empty = Some (1, uv_created)"
  "uv_created = uv_empty\<lparr>uv_blocks := Map.empty(1 \<mapsto> BPoll, 2 \<mapsto> BUvPoll),
     uv_polls := (uv_polls uv_empty)(1 := \<lparr>up_uv_p = 2, up_fd = 0, up_poll_type = 0\<rparr>), uv_data := (uv_data uv_empty)(HBlock 2 := 1)\<rparr>"
  by (simp_all add: uv_created_def us_create_poll_uv_def uv_alloc_def uv0_def uv_empty_def wr_up_def set_data_def Let_def numeral_2_eq_2)

lemma uv_started_eq:
  "us_poll_start_uv 1 UV_READABLE uv_created = Some uv_started"
  "uv_started = uv_created\<lparr>uv_polls := (uv_polls uv_empty)(1 := \<lparr>up_uv_p = 2, up_fd = 0, up_poll_type = 8\<rparr>),
     uv_trace := [UvPollInit (HBlock 2) 0, UvPollStart (HBlock 2) UV_READABLE]\<rparr>"
  by (simp_all add: uv_started_def uv_created_eq(2) us_poll_start_uv_def us_internal_poll_type_uv_def rd_up_def wr_up_def
      uv_call_def uv_emit_def polling_bits_def UV_READABLE_def UV_WRITABLE_def uv_empty_def)

lemma uv_stopped_eq:
  "us_poll_stop_uv 1 uv_started = Some uv_stopped"
  "uv_stopped = uv_started\<lparr>uv_data := (uv_data uv_empty)(HBlock 2 := 0),
     uv_trace := uv_trace uv_started @ [UvPollStop (HBlock 2), UvClose (HBlock 2) CloseCbFreePoll]\<rparr>"
  by (simp_all add: uv_stopped_def uv_started_eq(2) uv_created_eq(2) us_poll_stop_uv_def rd_up_def
      uv_call_def uv_emit_def set_data_def)

definition run_created :: uv_run where "run_created = \<lparr>phase = Map.empty(1 \<mapsto> Created), pend = {}, late = {}, uv_st = uv_created\<rparr>"
definition run_stopped :: uv_run where "run_stopped = \<lparr>phase = Map.empty(1 \<mapsto> Stopped), pend = {2}, late = {}, uv_st = uv_stopped\<rparr>"

lemma run_created_reachable: "uv_reachable uv0 run_created"
  using uv_reachable.step [OF uv_reachable.empty [of uv_empty] uv_step.create [of uv0 _ 1 uv_created]] uv_created_eq(1)
  by (simp add: run_created_def uv_empty_def)

lemma run_stopped_reachable: "uv_reachable uv0 run_stopped"
proof -
  have "uv_reachable uv0 (run_created\<lparr>phase := (phase run_created)(1 \<mapsto> Polling), uv_st := uv_started\<rparr>)"
    by (rule uv_reachable.step [OF run_created_reachable], rule uv_step.start [of _ _ UV_READABLE])
      (simp_all add: run_created_def uv_started_eq(1) del: One_nat_def)
  then have "uv_reachable uv0 (let r = run_created\<lparr>phase := (phase run_created)(1 \<mapsto> Polling), uv_st := uv_started\<rparr>
    in r\<lparr>phase := (phase r)(1 \<mapsto> Stopped), pend := insert (up_uv_p (uv_polls (uv_st r) 1)) (pend r), uv_st := uv_stopped\<rparr>)"
    unfolding Let_def by (rule uv_reachable.step, intro uv_step.stop) (simp_all add: uv_stopped_eq(1) del: One_nat_def)
  then show ?thesis by (simp add: run_created_def run_stopped_def uv_started_eq(2))
qed

theorem uv_no_use_after_free_witness: "us_poll_start_uv 1 UV_READABLE (uv_st run_created) \<noteq> None"
  using uv_no_use_after_free [OF uv0_ok run_created_reachable, of 1 0 0 UV_READABLE 0] by (simp add: run_created_def)

text \<open>Freed at once, the poll is gone after the close callback; freed after it, it stays.\<close>

lemma free_stopped:
  "us_poll_free_uv uv0 1 uv_stopped = Some (uv_stopped\<lparr>uv_data := (uv_data uv_empty)(HBlock 2 := 1)\<rparr>)"
  by (simp add: us_poll_free_uv_def rd_up_def set_data_def uv_stopped_eq(2) uv_started_eq(2) uv_created_eq(2) uv0_def
      closing_of_def)

theorem uv_blocks_left_witness:
  "\<exists>r. uv_reachable uv0 r \<and> phase r = Map.empty \<and> pend r = {} \<and> dom (uv_blocks (uv_st r)) = {}"
proof -
  let ?st1 = "uv_stopped\<lparr>uv_data := (uv_data uv_empty)(HBlock 2 := 1)\<rparr>"
  let ?r1 = "\<lparr>phase = Map.empty, pend = {2}, late = {}, uv_st = ?st1\<rparr>"
  let ?st2 = "?st1\<lparr>uv_blocks := Map.empty\<rparr>"
  let ?r2 = "\<lparr>phase = Map.empty, pend = {}, late = {}, uv_st = ?st2\<rparr>"
  have "uv_step uv0 run_stopped ?r1"
    using uv_step.free [of run_stopped 1 uv0 ?st1] free_stopped
    by (simp add: run_stopped_def uv_stopped_eq(2) uv_started_eq(2) fun_upd_idem)
  then have r1: "uv_reachable uv0 ?r1" using uv_reachable.step [OF run_stopped_reachable] by blast
  have "close_cb_free_poll 2 ?st1 = Some ?st2"
    by (simp add: close_cb_free_poll_def get_data_def uv_free_def uv_stopped_eq(2) uv_started_eq(2) uv_created_eq(2) fun_upd_twist)
  then have "uv_step uv0 ?r1 ?r2" using uv_step.closed [of 2 ?r1 ?st2 uv0] by simp
  then have r2: "uv_reachable uv0 ?r2" using uv_reachable.step [OF r1] by blast
  have "dom (uv_blocks (uv_st ?r2)) = {}" using uv_blocks_left [OF uv0_ok r2] by simp
  with r2 show ?thesis by (intro exI [of _ ?r2]) simp
qed

theorem uv_late_free_leaks_witness:
  "\<exists>r st'. uv_reachable uv0 r \<and> us_poll_free_uv uv0 1 (uv_st r) = Some st' \<and>
    uv_blocks st' 1 = Some BPoll \<and> uv_blocks st' 2 = Some BUvPoll"
proof -
  let ?r = "\<lparr>phase = Map.empty(1 \<mapsto> Stopped), pend = {}, late = {}, uv_st = uv_stopped\<rparr>"
  let ?st1 = "uv_stopped\<lparr>uv_data := (uv_data uv_empty)(HBlock 2 := 1)\<rparr>"
  have "close_cb_free_poll 2 uv_stopped = Some uv_stopped"
    by (simp add: close_cb_free_poll_def get_data_def uv_stopped_eq(2) uv_started_eq(2) uv_created_eq(2))
  then have "uv_step uv0 run_stopped ?r"
    using uv_step.closed [of 2 run_stopped uv_stopped uv0] by (simp add: run_stopped_def)
  then have R: "uv_reachable uv0 ?r" using uv_reachable.step [OF run_stopped_reachable] by blast
  have "uv_blocks ?st1 1 = Some BPoll \<and> uv_blocks ?st1 (up_uv_p (uv_polls ?st1 1)) = Some BUvPoll"
    using uv_late_free_leaks [OF uv0_ok R, of 1 ?st1, OF _ _ _ rtranclp.rtrancl_refl] free_stopped by simp
  then show ?thesis using R free_stopped
    by (intro exI [of _ ?r] exI [of _ ?st1]) (simp add: uv_stopped_eq(2) uv_started_eq(2))
qed

end
