(* ===== verification/Us_Kqueue.thy ===== *)
theory Us_Kqueue
  imports Us_Poll
begin

unbundle bit_operations_syntax

text \<open>
  The kqueue branches of \<open>src/eventing/epoll_kqueue.c\<close>. A kqueue knows filters, not event bits: a
  poll has up to two of them, so it can be twice among the ready polls, and timers and asyncs
  are filters on the address of their struct, with no descriptor. The calls of \<open>kevent\<close> are a trace
  of change lists; \<open>knotes\<close> is what the manual says they register. Functions with the name of one of
  the epoll branch end in \<open>_kq\<close> here.
\<close>

section \<open>The state\<close>

definition KQ_READABLE :: u32 where "KQ_READABLE = 1"
definition KQ_WRITABLE :: u32 where "KQ_WRITABLE = 2"

datatype kfilter = EVFILT_READ | EVFILT_WRITE | EVFILT_TIMER | EVFILT_USER

definition EV_ADD :: "16 word" where "EV_ADD = 0x1"
definition EV_DELETE :: "16 word" where "EV_DELETE = 0x2"
definition EV_ONESHOT :: "16 word" where "EV_ONESHOT = 0x10"
definition EV_ERROR :: "16 word" where "EV_ERROR = 0x4000"
definition EV_EOF :: "16 word" where "EV_EOF = 0x8000"
definition NOTE_TRIGGER :: u32 where "NOTE_TRIGGER = 0x01000000"

lemmas ev_defs = EV_ADD_def EV_DELETE_def EV_ONESHOT_def EV_ERROR_def EV_EOF_def

record kevent =
  ke_ident :: int
  ke_filter :: kfilter
  ke_flags :: "16 word"
  ke_fflags :: u32
  ke_data :: int
  ke_udata :: addr

definition EV_SET :: "int \<Rightarrow> kfilter \<Rightarrow> 16 word \<Rightarrow> u32 \<Rightarrow> int \<Rightarrow> addr \<Rightarrow> kevent" where
  "EV_SET ident filt flags fflags data udata = \<lparr>ke_ident = ident, ke_filter = filt, ke_flags = flags,
     ke_fflags = fflags, ke_data = data, ke_udata = udata\<rparr>"

datatype kq_kind = KqPoll | KqCallback

record kqs =
  kq_objs :: "addr \<Rightarrow> kq_kind option"
  kq_polls :: "addr \<Rightarrow> us_poll_t"
  kq_cbs :: "addr \<Rightarrow> us_internal_callback_t"
  kq_num_polls :: int
  kq_ready_polls :: "kevent list"
  kq_num_ready_polls :: nat
  kq_current_ready_poll :: nat
  kq_trace :: "kevent list list"

record kq_libc =
  kq_malloc :: "kqs \<Rightarrow> addr"
  kq_realloc :: "kqs \<Rightarrow> addr \<Rightarrow> addr"

definition kevent :: "kevent list \<Rightarrow> kqs \<Rightarrow> kqs" where
  "kevent change_list st = st\<lparr>kq_trace := kq_trace st @ [change_list]\<rparr>"

definition rd_kq :: "addr \<Rightarrow> kqs \<Rightarrow> us_poll_t option" where
  "rd_kq p st = (if kq_objs st p \<noteq> None then Some (kq_polls st p) else None)"

definition wr_kq :: "addr \<Rightarrow> (us_poll_t \<Rightarrow> us_poll_t) \<Rightarrow> kqs \<Rightarrow> kqs option" where
  "wr_kq p f st = (if kq_objs st p \<noteq> None then Some (st\<lparr>kq_polls := (kq_polls st)(p := f (kq_polls st p))\<rparr>) else None)"

definition wr_kq_cb :: "addr \<Rightarrow> (us_internal_callback_t \<Rightarrow> us_internal_callback_t) \<Rightarrow> kqs \<Rightarrow> kqs option" where
  "wr_kq_cb c f st = (if kq_objs st c = Some KqCallback
     then Some (st\<lparr>kq_cbs := (kq_cbs st)(c := f (kq_cbs st c))\<rparr>) else None)"

section \<open>Polls\<close>

definition us_create_poll_kq :: "kq_libc \<Rightarrow> bool \<Rightarrow> kqs \<Rightarrow> addr \<times> kqs" where
  "us_create_poll_kq L fallthrough st = (
     let st = (if \<not> fallthrough then st\<lparr>kq_num_polls := kq_num_polls st + 1\<rparr> else st);
         p = kq_malloc L st
     in (p, st\<lparr>kq_objs := (kq_objs st)(p \<mapsto> KqPoll)\<rparr>))"

definition us_poll_free_kq :: "addr \<Rightarrow> kqs \<Rightarrow> kqs option" where
  "us_poll_free_kq p st = (let st = st\<lparr>kq_num_polls := kq_num_polls st - 1\<rparr>
     in if kq_objs st p = None then None else Some (st\<lparr>kq_objs := (kq_objs st)(p := None)\<rparr>))"

definition us_poll_init_kq :: "addr \<Rightarrow> int \<Rightarrow> 4 word \<Rightarrow> kqs \<Rightarrow> kqs option" where
  "us_poll_init_kq p fd ty st = wr_kq p (\<lambda>q. q\<lparr>p_fd := word_of_int fd, p_type := ty\<rparr>) st"

definition kq_events_of_type :: "4 word \<Rightarrow> u32" where
  "kq_events_of_type ty =
     (if ty AND POLL_TYPE_POLLING_IN \<noteq> 0 then KQ_READABLE else 0) OR
     (if ty AND POLL_TYPE_POLLING_OUT \<noteq> 0 then KQ_WRITABLE else 0)"

definition kq_type_of_events :: "u32 \<Rightarrow> 4 word" where
  "kq_type_of_events ev =
     (if ev AND KQ_READABLE \<noteq> 0 then POLL_TYPE_POLLING_IN else 0) OR
     (if ev AND KQ_WRITABLE \<noteq> 0 then POLL_TYPE_POLLING_OUT else 0)"

definition us_poll_events_kq :: "addr \<Rightarrow> kqs \<Rightarrow> u32 option" where
  "us_poll_events_kq p st = map_option (\<lambda>q. kq_events_of_type (p_type q)) (rd_kq p st)"

definition us_poll_fd_kq :: "addr \<Rightarrow> kqs \<Rightarrow> int option" where
  "us_poll_fd_kq p st = map_option (\<lambda>q. sint (p_fd q)) (rd_kq p st)"

definition us_internal_poll_type_kq :: "addr \<Rightarrow> kqs \<Rightarrow> 4 word option" where
  "us_internal_poll_type_kq p st = map_option (\<lambda>q. p_type q AND 3) (rd_kq p st)"

definition us_internal_poll_set_type_kq :: "addr \<Rightarrow> 4 word \<Rightarrow> kqs \<Rightarrow> kqs option" where
  "us_internal_poll_set_type_kq p ty st = wr_kq p (\<lambda>q. q\<lparr>p_type := ty OR (p_type q AND 12)\<rparr>) st"

text \<open>The filters that differ between two sets of events.\<close>

definition kqueue_change :: "int \<Rightarrow> u32 \<Rightarrow> u32 \<Rightarrow> addr \<Rightarrow> kqs \<Rightarrow> kqs" where
  "kqueue_change fd old_events new_events user_data st = (
     let change_list = (if new_events AND KQ_READABLE \<noteq> old_events AND KQ_READABLE
           then [EV_SET fd EVFILT_READ (if new_events AND KQ_READABLE \<noteq> 0 then EV_ADD else EV_DELETE) 0 0 user_data] else []);
         change_list = change_list @ (if new_events AND KQ_WRITABLE \<noteq> old_events AND KQ_WRITABLE
           then [EV_SET fd EVFILT_WRITE (if new_events AND KQ_WRITABLE \<noteq> 0 then EV_ADD else EV_DELETE) 0 0 user_data] else [])
     in kevent change_list st)"

text \<open>As on epoll, but a poll may be there twice.\<close>

function kq_pending_loop :: "nat \<Rightarrow> nat \<Rightarrow> nat \<Rightarrow> addr \<Rightarrow> addr \<Rightarrow> kevent list \<Rightarrow> kevent list" where
  "kq_pending_loop i n remaining old_poll new_poll rp =
     (if i < n \<and> remaining \<noteq> 0 then
        (if ke_udata (rp ! i) = old_poll
         then kq_pending_loop (i + 1) n (remaining - 1) old_poll new_poll (rp[i := (rp ! i)\<lparr>ke_udata := new_poll\<rparr>])
         else kq_pending_loop (i + 1) n remaining old_poll new_poll rp)
      else rp)"
  by pat_completeness auto
termination
  by (relation "measure (\<lambda>(i, n, _). n - i)") auto

declare kq_pending_loop.simps [simp del]

definition us_internal_loop_update_pending_ready_polls_kq :: "addr \<Rightarrow> addr \<Rightarrow> kqs \<Rightarrow> kqs" where
  "us_internal_loop_update_pending_ready_polls_kq old_poll new_poll st =
     st\<lparr>kq_ready_polls := kq_pending_loop (kq_current_ready_poll st) (kq_num_ready_polls st) 2
          old_poll new_poll (kq_ready_polls st)\<rparr>"

definition us_poll_start_kq :: "addr \<Rightarrow> u32 \<Rightarrow> kqs \<Rightarrow> kqs option" where
  "us_poll_start_kq p events st = do {
     ty \<leftarrow> us_internal_poll_type_kq p st;
     st \<leftarrow> wr_kq p (\<lambda>q. q\<lparr>p_type := ty OR kq_type_of_events events\<rparr>) st;
     fd \<leftarrow> us_poll_fd_kq p st;
     Some (kqueue_change fd 0 events p st)
   }"

definition us_poll_change_kq :: "addr \<Rightarrow> u32 \<Rightarrow> kqs \<Rightarrow> kqs option" where
  "us_poll_change_kq p events st = do {
     old_events \<leftarrow> us_poll_events_kq p st;
     if old_events \<noteq> events then do {
       ty \<leftarrow> us_internal_poll_type_kq p st;
       st \<leftarrow> wr_kq p (\<lambda>q. q\<lparr>p_type := ty OR kq_type_of_events events\<rparr>) st;
       fd \<leftarrow> us_poll_fd_kq p st;
       Some (kqueue_change fd old_events events p st)
     } else Some st
   }"

definition us_poll_stop_kq :: "addr \<Rightarrow> kqs \<Rightarrow> kqs option" where
  "us_poll_stop_kq p st = do {
     old_events \<leftarrow> us_poll_events_kq p st;
     fd \<leftarrow> us_poll_fd_kq p st;
     let st = (if old_events \<noteq> 0 then kqueue_change fd old_events 0 NULL st else st);
     Some (us_internal_loop_update_pending_ready_polls_kq p NULL st)
   }"

definition us_poll_resize_kq :: "kq_libc \<Rightarrow> addr \<Rightarrow> kqs \<Rightarrow> (addr \<times> kqs) option" where
  "us_poll_resize_kq L p st = do {
     events \<leftarrow> us_poll_events_kq p st;
     let new_p = kq_realloc L st p;
     let st = (if new_p = p then st else
       st\<lparr>kq_objs := (kq_objs st)(p := None, new_p := kq_objs st p), kq_polls := (kq_polls st)(new_p := kq_polls st p),
          kq_cbs := (kq_cbs st)(new_p := kq_cbs st p)\<rparr>);
     if p \<noteq> new_p \<and> events \<noteq> 0 then do {
       fd \<leftarrow> us_poll_fd_kq new_p st;
       let st = kqueue_change fd 0 events new_p st;
       Some (new_p, us_internal_loop_update_pending_ready_polls_kq p new_p st)
     } else Some (new_p, st)
   }"

definition us_internal_accept_poll_event_kq :: "addr \<Rightarrow> u32" where
  "us_internal_accept_poll_event_kq p = 0"

text \<open>
  What the loop makes of one ready entry: nothing if it was nulled, or if the poll no longer polls
  for it and there is no error; else the poll, the error flags and the events it is dispatched with.
\<close>

definition kq_ready :: "kevent \<Rightarrow> kqs \<Rightarrow> (addr \<times> 16 word \<times> u32) option option" where
  "kq_ready e st = (
     let poll = ke_udata e
     in if poll = NULL then Some None else do {
       let events = (if ke_filter e = EVFILT_WRITE then KQ_WRITABLE else KQ_READABLE);
       let error = ke_flags e AND (EV_ERROR OR EV_EOF);
       pe \<leftarrow> us_poll_events_kq poll st;
       let events = events AND pe;
       Some (if events \<noteq> 0 \<or> error \<noteq> 0 then Some (poll, error, events) else None)
     })"

section \<open>Timers and asyncs\<close>

definition us_create_timer_kq :: "kq_libc \<Rightarrow> bool \<Rightarrow> kqs \<Rightarrow> (addr \<times> kqs) option" where
  "us_create_timer_kq L fallthrough st = (
     let cb = kq_malloc L st;
         st = st\<lparr>kq_objs := (kq_objs st)(cb \<mapsto> KqCallback)\<rparr>
     in do {
       st \<leftarrow> wr_kq_cb cb (\<lambda>c. c\<lparr>cb_expects_the_loop := False, cb_leave_poll_ready := False\<rparr>) st;
       st \<leftarrow> wr_kq cb (\<lambda>q. q\<lparr>p_type := POLL_TYPE_POLLING_IN\<rparr>) st;
       st \<leftarrow> us_internal_poll_set_type_kq cb POLL_TYPE_CALLBACK st;
       Some (cb, if \<not> fallthrough then st\<lparr>kq_num_polls := kq_num_polls st + 1\<rparr> else st)
     })"

definition us_timer_close_kq :: "addr \<Rightarrow> kqs \<Rightarrow> kqs option" where
  "us_timer_close_kq t st = us_poll_free_kq t (kevent [EV_SET (int t) EVFILT_TIMER EV_DELETE 0 0 t] st)"

definition us_timer_set_kq :: "addr \<Rightarrow> fnptr \<Rightarrow> int \<Rightarrow> int \<Rightarrow> kqs \<Rightarrow> kqs option" where
  "us_timer_set_kq t cb ms repeat_ms st = do {
     st \<leftarrow> wr_kq_cb t (\<lambda>c. c\<lparr>cb_cb := cb\<rparr>) st;
     Some (kevent [EV_SET (int t) EVFILT_TIMER (EV_ADD OR (if repeat_ms \<noteq> 0 then 0 else EV_ONESHOT)) 0 ms t] st)
   }"

definition us_internal_create_async_kq :: "kq_libc \<Rightarrow> bool \<Rightarrow> kqs \<Rightarrow> (addr \<times> kqs) option" where
  "us_internal_create_async_kq L fallthrough st = (
     let cb = kq_malloc L st;
         st = st\<lparr>kq_objs := (kq_objs st)(cb \<mapsto> KqCallback)\<rparr>
     in do {
       st \<leftarrow> wr_kq_cb cb (\<lambda>c. c\<lparr>cb_expects_the_loop := True, cb_leave_poll_ready := False\<rparr>) st;
       st \<leftarrow> wr_kq cb (\<lambda>q. q\<lparr>p_type := POLL_TYPE_POLLING_IN\<rparr>) st;
       st \<leftarrow> us_internal_poll_set_type_kq cb POLL_TYPE_CALLBACK st;
       Some (cb, if \<not> fallthrough then st\<lparr>kq_num_polls := kq_num_polls st + 1\<rparr> else st)
     })"

definition us_internal_async_close_kq :: "addr \<Rightarrow> kqs \<Rightarrow> kqs option" where
  "us_internal_async_close_kq a st = us_poll_free_kq a (kevent [EV_SET (int a) EVFILT_USER EV_DELETE 0 0 a] st)"

definition us_internal_async_set_kq :: "addr \<Rightarrow> fnptr \<Rightarrow> kqs \<Rightarrow> kqs option" where
  "us_internal_async_set_kq a cb st = wr_kq_cb a (\<lambda>c. c\<lparr>cb_cb := cb\<rparr>) st"

definition us_internal_async_wakeup_kq :: "addr \<Rightarrow> kqs \<Rightarrow> kqs option" where
  "us_internal_async_wakeup_kq a st = (if kq_objs st a = Some KqCallback
     then Some (kevent [EV_SET (int a) EVFILT_USER (EV_ADD OR EV_ONESHOT) NOTE_TRIGGER 0 a] st) else None)"


section \<open>What is registered\<close>

text \<open>
  The manual of \<open>kevent\<close>: adding a filter that is there changes it, deleting one that is not is an
  error, and an error ends the change list.
\<close>

type_synonym knotes = "int \<times> kfilter \<Rightarrow> addr option"

fun apply_changes :: "kevent list \<Rightarrow> knotes \<Rightarrow> knotes" where
  "apply_changes [] n = n"
| "apply_changes (e # es) n =
     (if ke_flags e AND EV_DELETE \<noteq> 0
      then if n (ke_ident e, ke_filter e) = None then n else apply_changes es (n((ke_ident e, ke_filter e) := None))
      else apply_changes es (n((ke_ident e, ke_filter e) := Some (ke_udata e))))"

definition knotes :: "kqs \<Rightarrow> knotes" where
  "knotes st = fold apply_changes (kq_trace st) Map.empty"

lemma knotes_kevent: "knotes (kevent cs st) = apply_changes cs (knotes st)"
  by (simp add: knotes_def kevent_def)

declare bit_numeral_word_iff [simp del]

lemma bit_kq: "bit KQ_READABLE n \<longleftrightarrow> n = 0" "bit KQ_WRITABLE n \<longleftrightarrow> n = 1"
  using bit_exp_iff [of 0 n, where ?'a = u32] bit_exp_iff [of 1 n, where ?'a = u32]
  by (auto simp: KQ_READABLE_def KQ_WRITABLE_def possible_bit_def)

lemma kq_bits:
  "ev AND KQ_READABLE \<noteq> 0 \<longleftrightarrow> bit ev 0" "ev AND KQ_WRITABLE \<noteq> 0 \<longleftrightarrow> bit ev 1"
  "ev AND KQ_READABLE \<noteq> ev' AND KQ_READABLE \<longleftrightarrow> bit ev 0 \<noteq> bit ev' 0"
  "ev AND KQ_WRITABLE \<noteq> ev' AND KQ_WRITABLE \<longleftrightarrow> bit ev 1 \<noteq> bit ev' 1"
proof -
  have e: "x AND KQ_READABLE = (if bit x 0 then KQ_READABLE else 0)" "x AND KQ_WRITABLE = (if bit x 1 then KQ_WRITABLE else 0)" for x
    by (auto intro!: bit_word_eqI simp: bit_and_iff bit_kq)
  have z: "KQ_READABLE \<noteq> 0" "KQ_WRITABLE \<noteq> 0" by (simp_all add: KQ_READABLE_def KQ_WRITABLE_def)
  show "ev AND KQ_READABLE \<noteq> 0 \<longleftrightarrow> bit ev 0" "ev AND KQ_WRITABLE \<noteq> 0 \<longleftrightarrow> bit ev 1"
    "ev AND KQ_READABLE \<noteq> ev' AND KQ_READABLE \<longleftrightarrow> bit ev 0 \<noteq> bit ev' 0"
    "ev AND KQ_WRITABLE \<noteq> ev' AND KQ_WRITABLE \<longleftrightarrow> bit ev 1 \<noteq> bit ev' 1"
    using z unfolding e by auto
qed

lemma kq_events_of_type_bits: "bit (kq_events_of_type ty) n \<longleftrightarrow> n = 0 \<and> bit ty 3 \<or> n = 1 \<and> bit ty 2"
  by (auto simp: kq_events_of_type_def poll_type_defs and_bit_iff bit_or_iff bit_kq)

lemma kq_type_of_events_bits: "bit (kq_type_of_events ev) n \<longleftrightarrow> n = 3 \<and> bit ev 0 \<or> n = 2 \<and> bit ev 1"
  by (auto simp: kq_type_of_events_def poll_type_defs kq_bits bit_or_iff bit_small_numeral)

definition kq_mask :: u32 where "kq_mask = KQ_READABLE OR KQ_WRITABLE"

lemma kq_events_type [simp]: "kq_events_of_type ((ty AND 3) OR kq_type_of_events ev) = ev AND kq_mask"
  by (rule bit_word_eqI)
    (auto simp: kq_events_of_type_bits kq_type_of_events_bits bit_or_iff bit_and_iff bit_3_12 kq_mask_def bit_kq)

lemma kq_type_type [simp]: "((ty AND 3) OR kq_type_of_events ev) AND 3 = ty AND 3"
  by (rule bit_word_eqI) (auto simp: kq_type_of_events_bits bit_or_iff bit_and_iff bit_3_12)

lemma kq_events_zero: "kq_events_of_type ty = 0 \<longleftrightarrow> \<not> bit ty 3 \<and> \<not> bit ty 2"
  unfolding bit_eq_iff [where ?'a = u32] kq_events_of_type_bits possible_bit_word
  by (auto dest: spec [of _ 0], auto dest: spec [of _ "Suc 0"])

declare bit_numeral_word_iff [simp]

text \<open>A change of a descriptor whose filters are those of the old events gives it those of the new.\<close>

definition want :: "bool \<Rightarrow> bool \<Rightarrow> addr \<Rightarrow> addr option \<Rightarrow> addr option" where
  "want old new u x = (if new = old then x else if new then Some u else None)"

lemma ev_delete: "EV_ADD AND EV_DELETE = 0" "EV_DELETE AND EV_DELETE \<noteq> 0"
  by (simp_all add: EV_ADD_def EV_DELETE_def)

lemma knotes_kqueue_change:
  assumes "bit old 0 \<Longrightarrow> knotes st (fd, EVFILT_READ) \<noteq> None" "bit old 1 \<Longrightarrow> knotes st (fd, EVFILT_WRITE) \<noteq> None"
  shows "knotes (kqueue_change fd old new u st) = (knotes st)
    ((fd, EVFILT_READ) := want (bit old 0) (bit new 0) u (knotes st (fd, EVFILT_READ)),
     (fd, EVFILT_WRITE) := want (bit old 1) (bit new 1) u (knotes st (fd, EVFILT_WRITE)))"
  unfolding kqueue_change_def knotes_kevent Let_def kq_bits
  using assms ev_delete
  by (cases "bit old 0"; cases "bit old 1"; cases "bit new 0"; cases "bit new 1")
    (auto simp: EV_SET_def want_def fun_upd_idem fun_upd_twist)

lemma kqueue_change_simps [simp]:
  "kq_objs (kqueue_change fd old new u st) = kq_objs st" "kq_polls (kqueue_change fd old new u st) = kq_polls st"
  "kq_cbs (kqueue_change fd old new u st) = kq_cbs st" "kq_num_polls (kqueue_change fd old new u st) = kq_num_polls st"
  "kq_ready_polls (kqueue_change fd old new u st) = kq_ready_polls st"
  "kq_num_ready_polls (kqueue_change fd old new u st) = kq_num_ready_polls st"
  "kq_current_ready_poll (kqueue_change fd old new u st) = kq_current_ready_poll st"
  by (simp_all add: kqueue_change_def kevent_def Let_def)


section \<open>The ready polls\<close>

text \<open>The reference: rewrite the first \<open>k\<close> entries of the old poll.\<close>

fun replace_upto :: "nat \<Rightarrow> addr \<Rightarrow> addr \<Rightarrow> kevent list \<Rightarrow> kevent list" where
  "replace_upto k old new [] = []"
| "replace_upto k old new (e # es) =
     (if k = 0 then e # es
      else if ke_udata e = old then e\<lparr>ke_udata := new\<rparr> # replace_upto (k - 1) old new es
      else e # replace_upto k old new es)"

lemma replace_upto_0 [simp]: "replace_upto 0 old new es = es"
  by (cases es) simp_all

lemma kq_pending_loop_eq:
  "i \<le> length rp \<Longrightarrow> kq_pending_loop i (length rp) k old new rp = take i rp @ replace_upto k old new (drop i rp)"
proof (induction i "length rp" k old new rp rule: kq_pending_loop.induct)
  case (1 i k old new rp)
  show ?case
  proof (cases "i < length rp \<and> k \<noteq> 0")
    case True
    then have d: "drop i rp = rp ! i # drop (Suc i) rp" by (simp add: Cons_nth_drop_Suc)
    show ?thesis
    proof (cases "ke_udata (rp ! i) = old")
      case old: True
      let ?rp = "rp[i := (rp ! i)\<lparr>ke_udata := new\<rparr>]"
      have "kq_pending_loop i (length rp) k old new rp = kq_pending_loop (Suc i) (length ?rp) (k - 1) old new ?rp"
        using True old by (simp add: kq_pending_loop.simps [of i])
      also have "\<dots> = take (Suc i) ?rp @ replace_upto (k - 1) old new (drop (Suc i) ?rp)"
        using 1(1) [OF True old] True by simp
      also have "\<dots> = take i rp @ replace_upto k old new (drop i rp)"
        using True old by (simp add: d take_Suc_conv_app_nth)
      finally show ?thesis .
    next
      case False
      have "kq_pending_loop i (length rp) k old new rp = kq_pending_loop (Suc i) (length rp) k old new rp"
        using True False by (simp add: kq_pending_loop.simps [of i])
      also have "\<dots> = take (Suc i) rp @ replace_upto k old new (drop (Suc i) rp)"
        using 1(2) [OF True False] True by simp
      also have "\<dots> = take i rp @ replace_upto k old new (drop i rp)"
        using True False by (simp add: d take_Suc_conv_app_nth)
      finally show ?thesis .
    qed
  next
    case False
    then have "k = 0 \<or> i = length rp" using 1(3) by auto
    then show ?thesis by (elim disjE) (simp_all add: kq_pending_loop.simps [of i] kq_pending_loop.simps [of "length rp"])
  qed
qed

definition kq_pending :: "kqs \<Rightarrow> kevent list" where
  "kq_pending st = drop (kq_current_ready_poll st) (kq_ready_polls st)"

definition kq_ready_ok :: "kqs \<Rightarrow> bool" where
  "kq_ready_ok st \<longleftrightarrow> kq_num_ready_polls st = length (kq_ready_polls st) \<and> kq_current_ready_poll st \<le> length (kq_ready_polls st) \<and>
     (\<forall>p. p \<noteq> NULL \<longrightarrow> length (filter (\<lambda>e. ke_udata e = p) (kq_pending st)) \<le> 2)"

lemma update_pending_kq:
  "kq_ready_ok st \<Longrightarrow> kq_pending (us_internal_loop_update_pending_ready_polls_kq old new st) = replace_upto 2 old new (kq_pending st)"
  by (simp add: kq_ready_ok_def kq_pending_def us_internal_loop_update_pending_ready_polls_kq_def kq_pending_loop_eq)

lemma length_replace_upto [simp]: "length (replace_upto k old new es) = length es"
  by (induction es arbitrary: k) auto

lemma update_pending_kq_length:
  fixes old new st
  assumes "kq_ready_ok st"
  defines "st' \<equiv> us_internal_loop_update_pending_ready_polls_kq old new st"
  shows "kq_num_ready_polls st' = length (kq_ready_polls st') \<and> kq_current_ready_poll st' \<le> length (kq_ready_polls st')"
  using assms by (simp add: kq_ready_ok_def us_internal_loop_update_pending_ready_polls_kq_def kq_pending_loop_eq)

lemma replace_upto_all:
  "length (filter (\<lambda>e. ke_udata e = old) es) \<le> k \<Longrightarrow>
   replace_upto k old new es = map (\<lambda>e. if ke_udata e = old then e\<lparr>ke_udata := new\<rparr> else e) es"
proof (induction es arbitrary: k)
  case (Cons e es)
  show ?case
  proof (cases "k = 0")
    case True
    then have "filter (\<lambda>e. ke_udata e = old) (e # es) = []" using Cons.prems by simp
    then have "\<forall>x\<in>set (e # es). ke_udata x \<noteq> old" unfolding filter_empty_conv by simp
    then have "map (\<lambda>e. if ke_udata e = old then e\<lparr>ke_udata := new\<rparr> else e) (e # es) = e # es" by (simp add: map_idI)
    then show ?thesis using True by simp
  next
    case False
    then show ?thesis using Cons.IH [of "k - 1"] Cons.IH [of k] Cons.prems by (auto split: if_splits)
  qed
qed simp

text \<open>What stopping a poll does to the entries still to be dispatched: every one of the poll is nulled.\<close>

definition kq_purged :: "addr \<Rightarrow> kevent list \<Rightarrow> kevent list" where
  "kq_purged p es = map (\<lambda>e. if ke_udata e = p then e\<lparr>ke_udata := NULL\<rparr> else e) es"

text \<open>Stopping a poll on kqueue nulls both of the entries it may still have among the ready
  polls, so that neither is dispatched, and leaves those of the other polls as they are.\<close>

theorem us_poll_stop_kq_purges:
  assumes r: "kq_ready_ok st" and p: "p \<noteq> NULL" and s: "us_poll_stop_kq p st = Some st'"
  shows "kq_pending st' = kq_purged p (kq_pending st) \<and> kq_ready_ok st' \<and>
    (\<forall>e\<in>set (kq_pending st'). ke_udata e \<noteq> p)"
proof -
  obtain old fd where oe: "us_poll_events_kq p st = Some old" "us_poll_fd_kq p st = Some fd"
    using s by (auto simp: us_poll_stop_kq_def split: bind_splits)
  then have st': "st' = us_internal_loop_update_pending_ready_polls_kq p NULL
      (if old \<noteq> 0 then kqueue_change fd old 0 NULL st else st)"
    using s by (auto simp: us_poll_stop_kq_def Let_def)
  let ?st = "if old \<noteq> 0 then kqueue_change fd old 0 NULL st else st"
  have r': "kq_ready_ok ?st" and e: "kq_pending ?st = kq_pending st" using r by (simp_all add: kq_ready_ok_def kq_pending_def)
  have two: "length (filter (\<lambda>e. ke_udata e = p) (kq_pending st)) \<le> 2" using r p by (simp add: kq_ready_ok_def)
  have n: "kq_pending st' = kq_purged p (kq_pending st)"
    unfolding st' using update_pending_kq [OF r', of p NULL] replace_upto_all [OF two, of NULL] by (simp add: e kq_purged_def)
  have l: "kq_num_ready_polls st' = length (kq_ready_polls st') \<and> kq_current_ready_poll st' \<le> length (kq_ready_polls st')"
    unfolding st' using update_pending_kq_length [OF r', of p NULL] .
  have c: "length (filter (\<lambda>e. ke_udata e = q) (kq_purged p es)) \<le> length (filter (\<lambda>e. ke_udata e = q) es)" if "q \<noteq> NULL" for q es
    using that by (induction es) (auto simp: kq_purged_def)
  have "length (filter (\<lambda>e. ke_udata e = q) (kq_pending st')) \<le> 2" if "q \<noteq> NULL" for q
    unfolding n by (rule order_trans [OF c [OF that]]) (use r that in \<open>simp add: kq_ready_ok_def\<close>)
  moreover have "\<forall>e\<in>set (kq_pending st'). ke_udata e \<noteq> p" using p unfolding n by (auto simp: kq_purged_def)
  ultimately show ?thesis using n l by (simp add: kq_ready_ok_def)
qed


section \<open>Many polls, in any order\<close>

text \<open>
  The polls of a loop as their client uses them, in any interleaving. A poll is started once, on a
  descriptor no other poll is polling, and only a polling poll is moved.
\<close>

datatype kq_phase = KqCreated | KqPolling | KqStopped

record kq_run =
  kphase :: "addr \<Rightarrow> kq_phase option"
  kst :: kqs

abbreviation kfd :: "kqs \<Rightarrow> addr \<Rightarrow> int" where "kfd st p \<equiv> sint (p_fd (kq_polls st p))"
abbreviation kty :: "kqs \<Rightarrow> addr \<Rightarrow> 4 word" where "kty st p \<equiv> p_type (kq_polls st p)"

inductive kq_step :: "kq_libc \<Rightarrow> kq_run \<Rightarrow> kq_run \<Rightarrow> bool" for L where
  create: "us_create_poll_kq L fallthrough (kst r) = (p, st') \<Longrightarrow>
    kq_step L r (r\<lparr>kphase := (kphase r)(p \<mapsto> KqCreated), kst := st'\<rparr>)"
| init: "kphase r p = Some KqCreated \<Longrightarrow> us_poll_init_kq p fd ty (kst r) = Some st' \<Longrightarrow> kq_step L r (r\<lparr>kst := st'\<rparr>)"
| set_type: "kphase r p = Some x \<Longrightarrow> ty AND 3 = ty \<Longrightarrow> us_internal_poll_set_type_kq p ty (kst r) = Some st' \<Longrightarrow>
    kq_step L r (r\<lparr>kst := st'\<rparr>)"
| start: "kphase r p = Some KqCreated \<Longrightarrow> (\<And>q. kphase r q = Some KqPolling \<Longrightarrow> kfd (kst r) q \<noteq> kfd (kst r) p) \<Longrightarrow>
    us_poll_start_kq p ev (kst r) = Some st' \<Longrightarrow> kq_step L r (r\<lparr>kphase := (kphase r)(p \<mapsto> KqPolling), kst := st'\<rparr>)"
| change: "kphase r p = Some KqPolling \<Longrightarrow> us_poll_change_kq p ev (kst r) = Some st' \<Longrightarrow> kq_step L r (r\<lparr>kst := st'\<rparr>)"
| stop: "kphase r p = Some KqPolling \<Longrightarrow> us_poll_stop_kq p (kst r) = Some st' \<Longrightarrow>
    kq_step L r (r\<lparr>kphase := (kphase r)(p \<mapsto> KqStopped), kst := st'\<rparr>)"
| free: "kphase r p = Some KqStopped \<Longrightarrow> us_poll_free_kq p (kst r) = Some st' \<Longrightarrow>
    kq_step L r (r\<lparr>kphase := (kphase r)(p := None), kst := st'\<rparr>)"
| resize: "kphase r p = Some KqPolling \<Longrightarrow> us_poll_resize_kq L p (kst r) = Some (q, st') \<Longrightarrow>
    kq_step L r (r\<lparr>kphase := (kphase r)(p := None, q \<mapsto> KqPolling), kst := st'\<rparr>)"

inductive kq_reachable :: "kq_libc \<Rightarrow> kq_run \<Rightarrow> bool" for L where
  empty: "kq_objs st = Map.empty \<Longrightarrow> kq_trace st = [] \<Longrightarrow> kq_reachable L \<lparr>kphase = Map.empty, kst = st\<rparr>"
| step: "kq_reachable L r \<Longrightarrow> kq_step L r r' \<Longrightarrow> kq_reachable L r'"

definition kq_libc_ok :: "kq_libc \<Rightarrow> bool" where
  "kq_libc_ok L \<longleftrightarrow> (\<forall>st. finite (dom (kq_objs st)) \<longrightarrow> kq_objs st (kq_malloc L st) = None \<and>
     (\<forall>p. kq_realloc L st p = p \<or> kq_objs st (kq_realloc L st p) = None))"

definition fbit :: "kfilter \<Rightarrow> nat" where "fbit f = (if f = EVFILT_READ then 3 else 2)"

definition watches :: "kq_run \<Rightarrow> addr \<Rightarrow> int \<Rightarrow> kfilter \<Rightarrow> bool" where
  "watches r u i f \<longleftrightarrow> kphase r u = Some KqPolling \<and> kfd (kst r) u = i \<and> bit (kty (kst r) u) (fbit f)"

definition kq_inv :: "kq_run \<Rightarrow> bool" where
  "kq_inv r \<longleftrightarrow>
     (\<forall>p. kphase r p \<noteq> None \<longrightarrow> kq_objs (kst r) p \<noteq> None) \<and>
     (\<forall>i f u. f \<in> {EVFILT_READ, EVFILT_WRITE} \<longrightarrow> knotes (kst r) (i, f) = Some u \<longleftrightarrow> watches r u i f) \<and>
     (\<forall>p q. kphase r p = Some KqPolling \<longrightarrow> kphase r q = Some KqPolling \<longrightarrow> kfd (kst r) p = kfd (kst r) q \<longrightarrow> p = q) \<and>
     finite (dom (kq_objs (kst r)))"

lemma kq_invD:
  assumes "kq_inv r"
  shows "kphase r p \<noteq> None \<Longrightarrow> kq_objs (kst r) p \<noteq> None"
    "f \<in> {EVFILT_READ, EVFILT_WRITE} \<Longrightarrow> knotes (kst r) (i, f) = Some u \<longleftrightarrow> watches r u i f"
    "kphase r p = Some KqPolling \<Longrightarrow> kphase r q = Some KqPolling \<Longrightarrow> kfd (kst r) p = kfd (kst r) q \<Longrightarrow> p = q"
    "finite (dom (kq_objs (kst r)))"
  using assms unfolding kq_inv_def by blast+

text \<open>A step of one poll: it goes from address \<open>p\<close> to \<open>q\<close> and gets the filters \<open>w\<close>.\<close>

lemma replace_inv:
  assumes I: "kq_inv r" and p: "\<And>u. kphase r u = Some KqPolling \<Longrightarrow> kfd (kst r) u = fd \<Longrightarrow> u = p"
    and q: "q = p \<or> kphase r q = None" and ph: "ph = KqPolling \<or> \<not> w EVFILT_READ \<and> \<not> w EVFILT_WRITE"
    and n: "\<And>i f. f \<in> {EVFILT_READ, EVFILT_WRITE} \<Longrightarrow>
      knotes st' (i, f) = (if i = fd then if w f then Some q else None else knotes (kst r) (i, f))"
    and fd: "kfd st' q = fd" and w: "\<And>f. f \<in> {EVFILT_READ, EVFILT_WRITE} \<Longrightarrow> ph = KqPolling \<Longrightarrow> bit (kty st' q) (fbit f) = w f"
    and pd: "kphase r p = Some KqPolling \<Longrightarrow> kfd (kst r) p = fd"
    and o: "\<And>u. u \<noteq> p \<Longrightarrow> u \<noteq> q \<Longrightarrow> kq_polls st' u = kq_polls (kst r) u"
    and ob: "kq_objs st' q \<noteq> None" "\<And>u. u \<noteq> p \<Longrightarrow> kq_objs (kst r) u \<noteq> None \<Longrightarrow> kq_objs st' u \<noteq> None" "finite (dom (kq_objs st'))"
  shows "kq_inv (r\<lparr>kphase := (kphase r)(p := None, q \<mapsto> ph), kst := st'\<rparr>)"
proof -
  note D = kq_invD [OF I]
  let ?r = "r\<lparr>kphase := (kphase r)(p := None, q \<mapsto> ph), kst := st'\<rparr>"
  have other: "watches ?r u i f \<longleftrightarrow> watches r u i f" if "u \<noteq> p" "u \<noteq> q" for u i f
    using that o [of u] by (simp add: watches_def)
  have at_q: "watches ?r q i f \<longleftrightarrow> i = fd \<and> w f" if "f \<in> {EVFILT_READ, EVFILT_WRITE}" for i f
    using w [OF that] ph that fd by (auto simp: watches_def)
  have at_p: "\<not> watches ?r p i f" if "p \<noteq> q" for i f using that by (simp add: watches_def)
  have old_p: "watches r p i f \<Longrightarrow> i = fd" for i f using pd by (auto simp: watches_def)
  have old_q: "q \<noteq> p \<Longrightarrow> \<not> watches r q i f" for i f using q by (auto simp: watches_def)
  have old_fd: "watches r u fd f \<Longrightarrow> u = p" for u f using p by (auto simp: watches_def)
  have A: "knotes st' (i, f) = Some u \<longleftrightarrow> watches ?r u i f" if f: "f \<in> {EVFILT_READ, EVFILT_WRITE}" for i f u
  proof (cases "i = fd")
    case True
    have new: "knotes st' (i, f) = Some u \<longleftrightarrow> w f \<and> u = q" unfolding n [OF f] using True by auto
    show ?thesis
    proof (cases "u = q")
      case q: True
      show ?thesis unfolding new using at_q [OF f, of i] q True by simp
    next
      case False
      then have "\<not> watches ?r u i f" using at_p [of i f] other [of u i f] old_fd [of u f] True by (cases "u = p") blast+
      then show ?thesis unfolding new using False by simp
    qed
  next
    case False
    have new: "knotes st' (i, f) = Some u \<longleftrightarrow> watches r u i f" unfolding n [OF f] if_not_P [OF False] by (rule D(2) [OF f])
    show ?thesis
    proof (cases "u = q")
      case q: True
      then have "\<not> watches r u i f" using old_p [of i f] old_q [of i f] False by (cases "q = p") blast+
      then show ?thesis unfolding new using at_q [OF f, of i] q False by simp
    next
      case nq: False
      show ?thesis
      proof (cases "u = p")
        case True
        then show ?thesis unfolding new using at_p [of i f] old_p [of i f] nq False by blast
      next
        case False
        then show ?thesis unfolding new using other [OF False nq] by simp
      qed
    qed
  qed
  have B: "\<forall>x y. kphase ?r x = Some KqPolling \<longrightarrow> kphase ?r y = Some KqPolling \<longrightarrow> kfd (kst ?r) x = kfd (kst ?r) y \<longrightarrow> x = y"
  proof (intro allI impI)
    fix x y assume a: "kphase ?r x = Some KqPolling" "kphase ?r y = Some KqPolling" "kfd (kst ?r) x = kfd (kst ?r) y"
    have old: "u \<noteq> p \<and> kphase r u = Some KqPolling \<and> kfd st' u = kfd (kst r) u" if "u \<noteq> q" "kphase ?r u = Some KqPolling" for u
      using that o [of u] by (auto split: if_splits)
    have key: "u = q" if "kphase ?r u = Some KqPolling" "kfd st' u = fd" for u
      using old [OF _ that(1)] p [of u] that(2) by (cases "u = q") auto
    show "x = y"
    proof (cases "x = q \<or> y = q")
      case True
      then show ?thesis
      proof
        assume "x = q"
        then have "kfd st' y = fd" using a(3) fd by simp
        then show ?thesis using key [OF a(2)] \<open>x = q\<close> by simp
      next
        assume "y = q"
        then have "kfd st' x = fd" using a(3) fd by simp
        then show ?thesis using key [OF a(1)] \<open>y = q\<close> by simp
      qed
    next
      case False
      then have "x \<noteq> q" "y \<noteq> q" by simp_all
      from old [OF this(1) a(1)] old [OF this(2) a(2)] have k: "kphase r x = Some KqPolling" "kphase r y = Some KqPolling"
        "kfd st' x = kfd (kst r) x" "kfd st' y = kfd (kst r) y" by blast+
      have "kfd st' x = kfd st' y" using a(3) by simp
      then have "kfd (kst r) x = kfd (kst r) y" unfolding k(3,4) .
      then show ?thesis by (rule D(3) [OF k(1,2)])
    qed
  qed
  have C: "\<forall>u. kphase ?r u \<noteq> None \<longrightarrow> kq_objs (kst ?r) u \<noteq> None"
  proof (intro allI impI)
    fix u assume a: "kphase ?r u \<noteq> None"
    show "kq_objs (kst ?r) u \<noteq> None"
    proof (cases "u = q")
      case True
      then show ?thesis using ob(1) by simp
    next
      case False
      then have "u \<noteq> p" "kphase r u \<noteq> None" using a by (auto split: if_splits)
      then show ?thesis using ob(2) [OF _ D(1)] by simp
    qed
  qed
  have E: "kst ?r = st'" by simp
  have A': "\<forall>i f u. f \<in> {EVFILT_READ, EVFILT_WRITE} \<longrightarrow> knotes (kst ?r) (i, f) = Some u \<longleftrightarrow> watches ?r u i f"
    unfolding E using A by blast
  have F: "finite (dom (kq_objs (kst ?r)))" unfolding E by (rule ob(3))
  show ?thesis unfolding kq_inv_def by (intro conjI) (rule C A' B F)+
qed

lemma watch_bits:
  assumes I: "kq_inv r" and p: "kphase r p = Some KqPolling" and f: "f \<in> {EVFILT_READ, EVFILT_WRITE}"
  shows "knotes (kst r) (kfd (kst r) p, f) = (if bit (kty (kst r) p) (fbit f) then Some p else None)"
proof (cases "knotes (kst r) (kfd (kst r) p, f)")
  case None
  then show ?thesis using kq_invD(2) [OF I f, of "kfd (kst r) p" p] p by (auto simp: watches_def)
next
  case (Some u)
  then have "watches r u (kfd (kst r) p) f" using kq_invD(2) [OF I f] by blast
  then show ?thesis using kq_invD(3) [OF I _ p, of u] Some by (auto simp: watches_def)
qed


lemma knotes_upd [simp]:
  "knotes (st\<lparr>kq_polls := x\<rparr>) = knotes st" "knotes (st\<lparr>kq_objs := y\<rparr>) = knotes st"
  "knotes (st\<lparr>kq_num_polls := z\<rparr>) = knotes st" "knotes (st\<lparr>kq_cbs := v\<rparr>) = knotes st"
  "knotes (us_internal_loop_update_pending_ready_polls_kq a b st) = knotes st"
  by (simp_all add: knotes_def us_internal_loop_update_pending_ready_polls_kq_def)

lemma pending_kq_simps [simp]:
  "kq_objs (us_internal_loop_update_pending_ready_polls_kq a b st) = kq_objs st"
  "kq_polls (us_internal_loop_update_pending_ready_polls_kq a b st) = kq_polls st"
  by (simp_all add: us_internal_loop_update_pending_ready_polls_kq_def)

text \<open>The operations on an allocated poll, as equations.\<close>

lemma kq_ops:
  assumes p: "kq_objs st p \<noteq> None"
  shows "us_poll_init_kq p fd ty st = Some (st\<lparr>kq_polls := (kq_polls st)(p := (kq_polls st p)\<lparr>p_fd := word_of_int fd, p_type := ty\<rparr>)\<rparr>)"
    "us_internal_poll_set_type_kq p ty st =
       Some (st\<lparr>kq_polls := (kq_polls st)(p := (kq_polls st p)\<lparr>p_type := ty OR (kty st p AND 12)\<rparr>)\<rparr>)"
    "us_poll_start_kq p ev st = Some (kqueue_change (kfd st p) 0 ev p
       (st\<lparr>kq_polls := (kq_polls st)(p := (kq_polls st p)\<lparr>p_type := (kty st p AND 3) OR kq_type_of_events ev\<rparr>)\<rparr>))"
    "us_poll_change_kq p ev st = Some (if kq_events_of_type (kty st p) \<noteq> ev
       then kqueue_change (kfd st p) (kq_events_of_type (kty st p)) ev p
         (st\<lparr>kq_polls := (kq_polls st)(p := (kq_polls st p)\<lparr>p_type := (kty st p AND 3) OR kq_type_of_events ev\<rparr>)\<rparr>)
       else st)"
    "us_poll_stop_kq p st = Some (us_internal_loop_update_pending_ready_polls_kq p NULL
       (if kq_events_of_type (kty st p) \<noteq> 0 then kqueue_change (kfd st p) (kq_events_of_type (kty st p)) 0 NULL st else st))"
  using p by (simp_all add: us_poll_init_kq_def us_internal_poll_set_type_kq_def us_poll_start_kq_def us_poll_change_kq_def
      us_poll_stop_kq_def us_internal_poll_type_kq_def us_poll_fd_kq_def us_poll_events_kq_def rd_kq_def wr_kq_def Let_def)

lemma fbit_type_bits:
  "bit ((ty AND 3) OR kq_type_of_events ev) (fbit EVFILT_READ) \<longleftrightarrow> bit ev 0"
  "bit ((ty AND 3) OR kq_type_of_events ev) (fbit EVFILT_WRITE) \<longleftrightarrow> bit ev 1"
  by (simp_all add: fbit_def bit_or_iff bit_and_iff bit_3_12 kq_type_of_events_bits)

definition wants :: "u32 \<Rightarrow> kfilter \<Rightarrow> bool" where
  "wants ev f = bit ev (if f = EVFILT_READ then 0 else 1)"

lemma wants_simps [simp]: "wants 0 f = False" "wants ev EVFILT_READ = bit ev 0" "wants ev EVFILT_WRITE = bit ev 1"
  by (simp_all add: wants_def)

lemma wants_type: "wants (kq_events_of_type ty) f = bit ty (fbit f)"
  by (simp add: wants_def fbit_def kq_events_of_type_bits)

text \<open>A change list brings the descriptor from the filters of \<open>p\<close> to those of \<open>q\<close>.\<close>

lemma change_all:
  assumes "\<And>f. f \<in> {EVFILT_READ, EVFILT_WRITE} \<Longrightarrow> knotes st (fd, f) = (if wants old f then Some p else None)"
    and "old' = old \<and> (q = p \<or> new = 0) \<or> old' = 0 \<and> new = old" and "f \<in> {EVFILT_READ, EVFILT_WRITE}"
  shows "knotes (kqueue_change fd old' new q st) (i, f) = (if i = fd then if wants new f then Some q else None else knotes st (i, f))"
proof -
  have k: "knotes st (fd, EVFILT_READ) = (if bit old 0 then Some p else None)" "knotes st (fd, EVFILT_WRITE) = (if bit old 1 then Some p else None)"
    using assms(1) [of EVFILT_READ] assms(1) [of EVFILT_WRITE] by simp_all
  have e: "knotes (kqueue_change fd old' new q st) = (knotes st)
    ((fd, EVFILT_READ) := want (bit old' 0) (bit new 0) q (knotes st (fd, EVFILT_READ)),
     (fd, EVFILT_WRITE) := want (bit old' 1) (bit new 1) q (knotes st (fd, EVFILT_WRITE)))"
    by (rule knotes_kqueue_change) (use assms(2) k in auto)
  show ?thesis
  proof (cases "i = fd")
    case True
    show ?thesis using assms(2,3) unfolding e True by (elim insertE disjE conjE) (auto simp: want_def k)
  next
    case False
    then show ?thesis unfolding e by simp
  qed
qed


lemma start_inv:
  assumes I: "kq_inv r" and p: "kphase r p = Some KqCreated"
    and u: "\<And>q. kphase r q = Some KqPolling \<Longrightarrow> kfd (kst r) q \<noteq> kfd (kst r) p" and s: "us_poll_start_kq p ev (kst r) = Some st'"
  shows "kq_inv (r\<lparr>kphase := (kphase r)(p \<mapsto> KqPolling), kst := st'\<rparr>)"
proof -
  note D = kq_invD [OF I]
  have o: "kq_objs (kst r) p \<noteq> None" using D(1) p by simp
  let ?st = "(kst r)\<lparr>kq_polls := (kq_polls (kst r))(p := (kq_polls (kst r) p)\<lparr>p_type := (kty (kst r) p AND 3) OR kq_type_of_events ev\<rparr>)\<rparr>"
  have st': "st' = kqueue_change (kfd (kst r) p) 0 ev p ?st" using kq_ops(3) [OF o, of ev] s by simp
  have z: "knotes (kst r) (kfd (kst r) p, f) = None" if "f \<in> {EVFILT_READ, EVFILT_WRITE}" for f
    using D(2) [OF that, of "kfd (kst r) p"] u by (cases "knotes (kst r) (kfd (kst r) p, f)") (auto simp: watches_def)
  have n: "knotes st' (i, f) = (if i = kfd (kst r) p then if wants ev f then Some p else None else knotes (kst r) (i, f))"
    if "f \<in> {EVFILT_READ, EVFILT_WRITE}" for i f
    unfolding st' by (subst change_all [where old = 0 and p = p]) (use that z in auto)
  have "kq_inv (r\<lparr>kphase := (kphase r)(p := None, p \<mapsto> KqPolling), kst := st'\<rparr>)"
  proof (rule replace_inv [OF I _ _ _ n])
    show "bit (kty st' p) (fbit f) = wants ev f" if "f \<in> {EVFILT_READ, EVFILT_WRITE}" for f
      using that fbit_type_bits by (auto simp: st')
  qed (use o u p D(4) in \<open>auto simp: st'\<close>)
  then show ?thesis by simp
qed

lemma change_inv:
  assumes I: "kq_inv r" and p: "kphase r p = Some KqPolling" and s: "us_poll_change_kq p ev (kst r) = Some st'"
  shows "kq_inv (r\<lparr>kst := st'\<rparr>)"
proof (cases "kq_events_of_type (kty (kst r) p) = ev")
  case True
  then have "st' = kst r" using kq_ops(4) [of "kst r" p ev] kq_invD(1) [OF I] p s by simp
  then show ?thesis using I by simp
next
  case False
  note D = kq_invD [OF I]
  have o: "kq_objs (kst r) p \<noteq> None" using D(1) p by simp
  let ?old = "kq_events_of_type (kty (kst r) p)"
  let ?st = "(kst r)\<lparr>kq_polls := (kq_polls (kst r))(p := (kq_polls (kst r) p)\<lparr>p_type := (kty (kst r) p AND 3) OR kq_type_of_events ev\<rparr>)\<rparr>"
  have st': "st' = kqueue_change (kfd (kst r) p) ?old ev p ?st" using kq_ops(4) [OF o, of ev] False s by simp
  have n: "knotes st' (i, f) = (if i = kfd (kst r) p then if wants ev f then Some p else None else knotes (kst r) (i, f))"
    if "f \<in> {EVFILT_READ, EVFILT_WRITE}" for i f
    unfolding st' by (subst change_all [where old = ?old and p = p]) (use that watch_bits [OF I p] wants_type in auto)
  have "kq_inv (r\<lparr>kphase := (kphase r)(p := None, p \<mapsto> KqPolling), kst := st'\<rparr>)"
  proof (rule replace_inv [OF I _ _ _ n])
    show "bit (kty st' p) (fbit f) = wants ev f" if "f \<in> {EVFILT_READ, EVFILT_WRITE}" for f
      using that fbit_type_bits by (auto simp: st')
    show "u = p" if "kphase r u = Some KqPolling" "kfd (kst r) u = kfd (kst r) p" for u by (rule D(3) [OF that(1) p that(2)])
  qed (use o p D(4) in \<open>auto simp: st'\<close>)
  then show ?thesis using p by (simp add: fun_upd_idem)
qed

lemma stop_inv_kq:
  assumes I: "kq_inv r" and p: "kphase r p = Some KqPolling" and s: "us_poll_stop_kq p (kst r) = Some st'"
  shows "kq_inv (r\<lparr>kphase := (kphase r)(p \<mapsto> KqStopped), kst := st'\<rparr>)"
proof -
  note D = kq_invD [OF I]
  have o: "kq_objs (kst r) p \<noteq> None" using D(1) p by simp
  let ?old = "kq_events_of_type (kty (kst r) p)"
  have st': "st' = us_internal_loop_update_pending_ready_polls_kq p NULL
       (if ?old \<noteq> 0 then kqueue_change (kfd (kst r) p) ?old 0 NULL (kst r) else kst r)"
    using kq_ops(5) [OF o] s by simp
  have n: "knotes st' (i, f) = (if i = kfd (kst r) p then if False then Some p else None else knotes (kst r) (i, f))"
    if f: "f \<in> {EVFILT_READ, EVFILT_WRITE}" for i f
  proof (cases "?old = 0")
    case True
    then have "\<not> bit (kty (kst r) p) (fbit f)" using wants_type [of "kty (kst r) p" f] by simp
    then show ?thesis using watch_bits [OF I p f] True by (simp add: st')
  next
    case False
    have "knotes (kqueue_change (kfd (kst r) p) ?old 0 NULL (kst r)) (i, f) =
        (if i = kfd (kst r) p then if wants 0 f then Some NULL else None else knotes (kst r) (i, f))"
      by (rule change_all [where old = ?old and p = p]) (use that watch_bits [OF I p] wants_type in auto)
    then show ?thesis using False by (simp add: st')
  qed
  have "kq_inv (r\<lparr>kphase := (kphase r)(p := None, p \<mapsto> KqStopped), kst := st'\<rparr>)"
  proof (rule replace_inv [OF I _ _ _ n])
    show "u = p" if "kphase r u = Some KqPolling" "kfd (kst r) u = kfd (kst r) p" for u by (rule D(3) [OF that(1) p that(2)])
  qed (use o p D(4) in \<open>auto simp: st'\<close>)
  then show ?thesis by simp
qed

lemma resize_inv:
  assumes L: "kq_libc_ok L" and I: "kq_inv r" and p: "kphase r p = Some KqPolling" and s: "us_poll_resize_kq L p (kst r) = Some (q, st')"
  shows "kq_inv (r\<lparr>kphase := (kphase r)(p := None, q \<mapsto> KqPolling), kst := st'\<rparr>)"
proof (cases "q = p")
  note D = kq_invD [OF I]
  have o: "kq_objs (kst r) p \<noteq> None" using D(1) p by simp
  {
    case True
    then have "st' = kst r" using s o by (auto simp: us_poll_resize_kq_def us_poll_events_kq_def rd_kq_def Let_def split: if_splits bind_splits)
    then show ?thesis using I True p by (simp add: fun_upd_idem)
  next
    case False
    let ?old = "kq_events_of_type (kty (kst r) p)"
    let ?st = "(kst r)\<lparr>kq_objs := (kq_objs (kst r))(p := None, q := kq_objs (kst r) p),
      kq_polls := (kq_polls (kst r))(q := kq_polls (kst r) p), kq_cbs := (kq_cbs (kst r))(q := kq_cbs (kst r) p)\<rparr>"
    have q: "q = kq_realloc L (kst r) p" using s o
      by (auto simp: us_poll_resize_kq_def us_poll_events_kq_def rd_kq_def Let_def split: if_splits bind_splits)
    then have nq: "kq_objs (kst r) q = None" using L D(4) False by (auto simp: kq_libc_ok_def)
    then have kq: "kphase r q = None" using D(1) [of q] by blast
    have st': "st' = (if ?old \<noteq> 0 then us_internal_loop_update_pending_ready_polls_kq p q (kqueue_change (kfd (kst r) p) 0 ?old q ?st) else ?st)"
      using s o False q [symmetric] by (auto simp: us_poll_resize_kq_def us_poll_events_kq_def us_poll_fd_kq_def rd_kq_def Let_def)
    have n: "knotes st' (i, f) = (if i = kfd (kst r) p then if wants ?old f then Some q else None else knotes (kst r) (i, f))"
      if f: "f \<in> {EVFILT_READ, EVFILT_WRITE}" for i f
    proof (cases "?old = 0")
      case True
      then have "\<not> bit (kty (kst r) p) (fbit f)" using wants_type [of "kty (kst r) p" f] by simp
      then show ?thesis using watch_bits [OF I p f] True by (simp add: st')
    next
      case old: False
      have "knotes (kqueue_change (kfd (kst r) p) 0 ?old q ?st) (i, f) =
          (if i = kfd (kst r) p then if wants ?old f then Some q else None else knotes ?st (i, f))"
        by (rule change_all [where old = ?old and p = p]) (use that watch_bits [OF I p] wants_type in auto)
      then show ?thesis using old by (simp add: st')
    qed
    have sel: "kq_polls st' = (kq_polls (kst r))(q := kq_polls (kst r) p)" "kq_objs st' = (kq_objs (kst r))(p := None, q := kq_objs (kst r) p)"
      by (simp_all add: st')
    show ?thesis
    proof (rule replace_inv [OF I _ _ _ n])
      show "u = p" if "kphase r u = Some KqPolling" "kfd (kst r) u = kfd (kst r) p" for u by (rule D(3) [OF that(1) p that(2)])
      show "bit (kty st' q) (fbit f) = wants ?old f" for f using wants_type by (simp add: sel)
    qed (use o p D(4) kq in \<open>auto simp: sel\<close>)
  }
qed


text \<open>A step that leaves the polling polls and the filters alone.\<close>

lemma quiet_inv:
  assumes I: "kq_inv r" and n: "knotes (kst r') = knotes (kst r)"
    and ph: "\<And>u. kphase r' u = Some KqPolling \<longleftrightarrow> kphase r u = Some KqPolling"
    and fd: "\<And>u. kphase r u = Some KqPolling \<Longrightarrow> kfd (kst r') u = kfd (kst r) u"
    and ty: "\<And>u f. kphase r u = Some KqPolling \<Longrightarrow> bit (kty (kst r') u) (fbit f) = bit (kty (kst r) u) (fbit f)"
    and ob: "\<And>u. kphase r' u \<noteq> None \<Longrightarrow> kq_objs (kst r') u \<noteq> None" "finite (dom (kq_objs (kst r')))"
  shows "kq_inv r'"
proof -
  note D = kq_invD [OF I]
  have w: "watches r' u i f \<longleftrightarrow> watches r u i f" for u i f
    using ph [of u] fd [of u] ty [of u f] by (auto simp: watches_def)
  have B: "p = q" if "kphase r' p = Some KqPolling" "kphase r' q = Some KqPolling" "kfd (kst r') p = kfd (kst r') q" for p q
  proof -
    have k: "kphase r p = Some KqPolling" "kphase r q = Some KqPolling" using that(1,2) ph by blast+
    show ?thesis using that(3) unfolding fd [OF k(1)] fd [OF k(2)] by (rule D(3) [OF k])
  qed
  have A: "f \<in> {EVFILT_READ, EVFILT_WRITE} \<Longrightarrow> knotes (kst r') (i, f) = Some u \<longleftrightarrow> watches r' u i f" for i f u
    unfolding w n by (rule D(2))
  show ?thesis unfolding kq_inv_def
  proof (intro conjI allI impI)
    show "kq_objs (kst r') p \<noteq> None" if "kphase r' p \<noteq> None" for p using ob(1) [OF that] .
    show "p = q" if "kphase r' p = Some KqPolling" "kphase r' q = Some KqPolling" "kfd (kst r') p = kfd (kst r') q" for p q
      using B [OF that] .
  qed (use A ob(2) in blast)+
qed

lemma kq_inv_step:
  assumes L: "kq_libc_ok L" and I: "kq_inv r" and s: "kq_step L r r'"
  shows "kq_inv r'"
proof -
  note D = kq_invD [OF I]
  show ?thesis
    using s
  proof cases
    case (create fallthrough p st')
    let ?st = "if \<not> fallthrough then (kst r)\<lparr>kq_num_polls := kq_num_polls (kst r) + 1\<rparr> else kst r"
    have "kq_objs ?st p = None"
    proof -
      have "finite (dom (kq_objs ?st))" using D(4) by simp
      then have "kq_objs ?st (kq_malloc L ?st) = None" using L unfolding kq_libc_ok_def by blast
      then show ?thesis using create(2) unfolding us_create_poll_kq_def Let_def prod.inject by blast
    qed
    then have "kq_objs (kst r) p = None" by (simp split: if_splits)
    then have fresh: "kphase r p = None" using D(1) [of p] by blast
    show ?thesis unfolding create(1)
      by (rule quiet_inv [OF I]) (use create(2) fresh D(1,4) in \<open>auto simp: us_create_poll_kq_def Let_def split: if_splits\<close>)
  next
    case (init p fd ty st')
    have o: "kq_objs (kst r) p \<noteq> None" using D(1) init(2) by simp
    show ?thesis unfolding init(1)
      by (rule quiet_inv [OF I]) (use init(2,3) kq_ops(1) [OF o, of fd ty] D(1,4) in \<open>auto split: if_splits\<close>)
  next
    case (set_type p x ty st')
    have o: "kq_objs (kst r) p \<noteq> None" using D(1) set_type(2) by simp
    have k: "bit ty n \<Longrightarrow> n = 0 \<or> n = 1" for n
      using arg_cong [OF set_type(3), of "\<lambda>w. bit w n"] unfolding bit_and_iff bit_3_12 by blast
    have "\<not> bit ty 3 \<and> \<not> bit ty 2" using k [of 3] k [of 2] by auto
    then have b: "bit (ty OR (t AND 12)) (fbit f) = bit t (fbit f)" for t f
      by (simp add: fbit_def bit_or_iff bit_and_iff bit_3_12)
    show ?thesis unfolding set_type(1)
      by (rule quiet_inv [OF I]) (use set_type(4) kq_ops(2) [OF o, of ty] D(1,4) b in \<open>auto split: if_splits\<close>)
  next
    case (start p ev st')
    then show ?thesis using start_inv [OF I start(2,3,4)] by simp
  next
    case (change p ev st')
    then show ?thesis using change_inv [OF I change(2,3)] by simp
  next
    case (stop p st')
    then show ?thesis using stop_inv_kq [OF I stop(2,3)] by simp
  next
    case (free p st')
    show ?thesis unfolding free(1)
      by (rule quiet_inv [OF I]) (use free(2,3) D(1,4) in \<open>auto simp: us_poll_free_kq_def Let_def split: if_splits\<close>)
  next
    case (resize p q st')
    then show ?thesis using resize_inv [OF L I resize(2,3)] by simp
  qed
qed

lemma kq_reachable_inv:
  assumes "kq_reachable L r" and L: "kq_libc_ok L"
  shows "kq_inv r"
  using assms(1)
proof induction
  case (empty st)
  then show ?case by (simp add: kq_inv_def watches_def knotes_def)
next
  case (step r r')
  then show ?case using kq_inv_step [OF L] by blast
qed

section \<open>The theorems\<close>

text \<open>C28. Whatever the order in which polls are created, started, changed, moved, stopped and freed,
  the read and write filters in the kqueue are exactly the events the polling polls ask for: every
  filter points to a live poll with that descriptor that polls for it, and no poll misses one.\<close>

theorem kq_filters_exact:
  assumes L: "kq_libc_ok L" and R: "kq_reachable L r" and f: "f \<in> {EVFILT_READ, EVFILT_WRITE}"
  shows "knotes (kst r) (i, f) = Some u \<longleftrightarrow> kphase r u = Some KqPolling \<and> us_poll_fd_kq u (kst r) = Some i \<and>
    (\<exists>ev. us_poll_events_kq u (kst r) = Some ev \<and> wants ev f)"
proof -
  have I: "kq_inv r" using kq_reachable_inv [OF R L] .
  show ?thesis
  proof (cases "kphase r u = Some KqPolling")
    case True
    then obtain k where "kq_objs (kst r) u = Some k" using kq_invD(1) [OF I, of u] by auto
    then show ?thesis
      unfolding kq_invD(2) [OF I f] watches_def by (simp add: us_poll_fd_kq_def us_poll_events_kq_def rd_kq_def wants_type)
  next
    case False
    then show ?thesis unfolding kq_invD(2) [OF I f] watches_def by simp
  qed
qed

text \<open>Closing a timer or an async on kqueue frees its struct but leaves the entries it has among
  the ready polls, which the loop is still going to read: dispatching such an entry is a use after free.\<close>

theorem kq_callback_close_dangles:
  assumes "us_timer_close_kq t st = Some st' \<or> us_internal_async_close_kq t st = Some st'"
    and "e \<in> set (kq_pending st)" "ke_udata e = t" "t \<noteq> NULL"
  shows "e \<in> set (kq_pending st') \<and> kq_ready e st' = None"
proof -
  have "kq_objs st' t = None \<and> kq_pending st' = kq_pending st"
    using assms(1) by (auto simp: us_timer_close_kq_def us_internal_async_close_kq_def us_poll_free_kq_def kevent_def
        kq_pending_def Let_def split: if_splits)
  then show ?thesis using assms(2-4) by (simp add: kq_ready_def us_poll_events_kq_def rd_kq_def Let_def)
qed


section \<open>A concrete run\<close>

definition kq_libc0 :: kq_libc where
  "kq_libc0 = \<lparr>kq_malloc = \<lambda>st. Suc (Max (insert 0 (dom (kq_objs st)))), kq_realloc = \<lambda>st p. p\<rparr>"

definition kq_empty :: kqs where
  "kq_empty = \<lparr>kq_objs = Map.empty, kq_polls = \<lambda>_. \<lparr>p_fd = 5, p_type = 0\<rparr>,
    kq_cbs = \<lambda>_. \<lparr>cb_expects_the_loop = False, cb_leave_poll_ready = False, cb_cb = FnNull\<rparr>, kq_num_polls = 0,
    kq_ready_polls = [], kq_num_ready_polls = 0, kq_current_ready_poll = 0, kq_trace = []\<rparr>"

lemma kq_libc0_ok: "kq_libc_ok kq_libc0"
proof -
  have "kq_objs st (Suc (Max (insert 0 (dom (kq_objs st))))) = None" if "finite (dom (kq_objs st))" for st
    using Suc_Max_fresh [OF that] .
  then show ?thesis unfolding kq_libc_ok_def kq_libc0_def kq_libc.simps by blast
qed

text \<open>A poll on descriptor 5 started for reading and writing, and both of its entries ready.\<close>

definition kq_created :: kqs where "kq_created = snd (us_create_poll_kq kq_libc0 False kq_empty)"
definition kq_started :: kqs where "kq_started = the (us_poll_start_kq 1 3 kq_created)"

lemma kq_created_eq:
  "us_create_poll_kq kq_libc0 False kq_empty = (1, kq_created)"
  "kq_created = kq_empty\<lparr>kq_num_polls := 1, kq_objs := Map.empty(1 \<mapsto> KqPoll)\<rparr>"
  by (simp_all add: kq_created_def us_create_poll_kq_def kq_libc0_def kq_empty_def Let_def)

lemma kq_started_eq:
  "us_poll_start_kq 1 3 kq_created = Some kq_started"
  "kq_started = kq_created\<lparr>kq_polls := (kq_polls kq_empty)(1 := \<lparr>p_fd = 5, p_type = 12\<rparr>),
     kq_trace := [[EV_SET 5 EVFILT_READ EV_ADD 0 0 1, EV_SET 5 EVFILT_WRITE EV_ADD 0 0 1]]\<rparr>"
  by (simp_all add: kq_started_def kq_created_eq(2) kq_ops kqueue_change_def kevent_def kq_empty_def Let_def
      KQ_READABLE_def KQ_WRITABLE_def kq_type_of_events_def poll_type_defs)

definition kq_run0 :: kq_run where "kq_run0 = \<lparr>kphase = Map.empty(1 \<mapsto> KqPolling), kst = kq_started\<rparr>"

lemma kq_run0_reachable: "kq_reachable kq_libc0 kq_run0"
proof -
  let ?r0 = "\<lparr>kphase = Map.empty, kst = kq_empty\<rparr>"
  let ?r1 = "\<lparr>kphase = Map.empty(1 \<mapsto> KqCreated), kst = kq_created\<rparr>"
  have "kq_reachable kq_libc0 ?r0" by (rule kq_reachable.empty) (simp_all add: kq_empty_def)
  moreover have "kq_step kq_libc0 ?r0 ?r1" using kq_step.create [of kq_libc0 False ?r0 1 kq_created] kq_created_eq(1) by simp
  ultimately have "kq_reachable kq_libc0 ?r1" by (rule kq_reachable.step)
  moreover have "kq_step kq_libc0 ?r1 (?r1\<lparr>kphase := (kphase ?r1)(1 \<mapsto> KqPolling), kst := kq_started\<rparr>)"
    by (rule kq_step.start [of _ _ 3]) (auto simp: kq_started_eq(1) split: if_splits simp del: One_nat_def)
  then have "kq_step kq_libc0 ?r1 kq_run0" by (simp add: kq_run0_def)
  ultimately show ?thesis by (rule kq_reachable.step)
qed

theorem kq_filters_exact_witness: "knotes kq_started (5, EVFILT_READ) = Some 1 \<and> knotes kq_started (5, EVFILT_WRITE) = Some 1"
proof -
  have "us_poll_fd_kq 1 kq_started = Some 5" "us_poll_events_kq 1 kq_started = Some 3"
    by (simp_all add: us_poll_fd_kq_def us_poll_events_kq_def rd_kq_def kq_started_eq(2) kq_created_eq(2)
        kq_events_of_type_def poll_type_defs KQ_READABLE_def KQ_WRITABLE_def)
  moreover have "wants 3 f" for f by (simp add: wants_def)
  ultimately show ?thesis
    using kq_filters_exact [OF kq_libc0_ok kq_run0_reachable, of EVFILT_READ 5 1]
      kq_filters_exact [OF kq_libc0_ok kq_run0_reachable, of EVFILT_WRITE 5 1]
    by (simp add: kq_run0_def)
qed

definition kq_both :: kqs where
  "kq_both = kq_started\<lparr>kq_ready_polls := [EV_SET 5 EVFILT_READ 0 0 0 1, EV_SET 7 EVFILT_READ 0 0 0 2, EV_SET 5 EVFILT_WRITE 0 0 0 1],
     kq_num_ready_polls := 3\<rparr>"

theorem us_poll_stop_kq_purges_witness:
  "\<exists>st'. us_poll_stop_kq 1 kq_both = Some st' \<and> map ke_udata (kq_pending st') = [NULL, 2, NULL]"
proof -
  have c: "kq_current_ready_poll kq_both = 0" "kq_objs kq_both 1 \<noteq> None"
    by (simp_all add: kq_both_def kq_started_eq(2) kq_created_eq(2) kq_empty_def)
  have p: "kq_pending kq_both = [EV_SET 5 EVFILT_READ 0 0 0 1, EV_SET 7 EVFILT_READ 0 0 0 2, EV_SET 5 EVFILT_WRITE 0 0 0 1]"
    using c(1) by (simp add: kq_pending_def kq_both_def)
  have "kq_ready_ok kq_both" using c(1) by (simp add: kq_ready_ok_def p) (simp add: kq_both_def EV_SET_def)
  from us_poll_stop_kq_purges [OF this, of 1, OF _ kq_ops(5) [OF c(2)]] show ?thesis
    unfolding kq_ops(5) [OF c(2)] p by (simp add: kq_purged_def EV_SET_def)
qed

theorem kq_callback_close_dangles_witness:
  "\<exists>t st e st'. us_create_timer_kq kq_libc0 True kq_empty = Some (t, st) \<and>
    us_timer_close_kq t (st\<lparr>kq_ready_polls := [e]\<rparr>) = Some st' \<and> kq_ready e st' = None"
proof -
  let ?e = "EV_SET 1 EVFILT_TIMER 0 0 1 1"
  obtain st where 1: "us_create_timer_kq kq_libc0 True kq_empty = Some (1, st)" "kq_current_ready_poll st = 0" "kq_objs st 1 \<noteq> None"
    by (simp add: us_create_timer_kq_def kq_libc0_def kq_empty_def wr_kq_cb_def wr_kq_def us_internal_poll_set_type_kq_def Let_def)
  obtain st' where 2: "us_timer_close_kq 1 (st\<lparr>kq_ready_polls := [?e]\<rparr>) = Some st'"
    using 1(3) by (simp add: us_timer_close_kq_def us_poll_free_kq_def kevent_def Let_def)
  have "kq_ready ?e st' = None"
    using kq_callback_close_dangles [OF disjI1 [OF 2], of ?e] 1(2) by (simp add: kq_pending_def EV_SET_def)
  with 1(1) 2 show ?thesis by blast
qed

end
