(* ===== verification/Us_Gcd.thy ===== *)
theory Us_Gcd
  imports Us_State
begin

unbundle bit_operations_syntax

text \<open>
  The back end on Apple's Grand Central Dispatch, \<open>src/eventing/gcd.c\<close>: a poll is two dispatch
  sources that are resumed and suspended as the events it polls for change. libdispatch is a
  parameter: its calls are a trace, and \<open>sources\<close> is what its manual says of them, above all that
  resuming a source too often and releasing a suspended one end the process. Functions with the
  name of one of the epoll back end end in \<open>_gcd\<close> here.
\<close>

section \<open>The state\<close>

definition GCD_READABLE :: u32 where "GCD_READABLE = 1"
definition GCD_WRITABLE :: u32 where "GCD_WRITABLE = 2"

record gcd_poll_t =
  gp_events :: u32
  gp_gcd_read :: addr
  gp_gcd_write :: addr
  gp_fd :: int
  gp_poll_type :: u8

datatype source_type = DISPATCH_SOURCE_TYPE_READ | DISPATCH_SOURCE_TYPE_WRITE | DISPATCH_SOURCE_TYPE_TIMER

datatype gcd_handler = GcdReadHandler | GcdWriteHandler | GcdTimerHandler | AsyncHandler

datatype gcd_call =
    SourceCreate addr source_type int | SetContext addr addr
  | SetEventHandler addr gcd_handler | SetCancelHandler addr gcd_handler
  | Resume addr | Suspend addr | Release addr
  | SetTimer addr int int int | Activate addr | AsyncF addr gcd_handler
  | CFRunLoopRun
  | GcdDispatchReadyPoll addr u32 | GcdCallCallback fnptr addr

datatype gcd_kind = GPoll | GCallback | GLoop

record gcds =
  g_objs :: "addr \<Rightarrow> gcd_kind option"
  g_polls :: "addr \<Rightarrow> gcd_poll_t"
  g_cbs :: "addr \<Rightarrow> us_internal_callback_t"
  g_timer_source :: "addr \<Rightarrow> addr"
  g_loop :: addr
  g_sweep_timer :: addr
  g_wakeup_async :: addr
  g_trace :: "gcd_call list"

record gcd_lib =
  gcd_malloc :: "gcds \<Rightarrow> addr"
  gcd_realloc :: "gcds \<Rightarrow> addr \<Rightarrow> addr"
  gcd_new_source :: "gcds \<Rightarrow> addr"

definition gcd_emit :: "gcd_call \<Rightarrow> gcds \<Rightarrow> gcds" where
  "gcd_emit e st = st\<lparr>g_trace := g_trace st @ [e]\<rparr>"

definition rd_gp :: "addr \<Rightarrow> gcds \<Rightarrow> gcd_poll_t option" where
  "rd_gp p st = (if g_objs st p = Some GPoll then Some (g_polls st p) else None)"

definition wr_gp :: "addr \<Rightarrow> (gcd_poll_t \<Rightarrow> gcd_poll_t) \<Rightarrow> gcds \<Rightarrow> gcds option" where
  "wr_gp p f st = (if g_objs st p = Some GPoll then Some (st\<lparr>g_polls := (g_polls st)(p := f (g_polls st p))\<rparr>) else None)"

definition wr_gcb :: "addr \<Rightarrow> (us_internal_callback_t \<Rightarrow> us_internal_callback_t) \<Rightarrow> gcds \<Rightarrow> gcds option" where
  "wr_gcb c f st = (if g_objs st c = Some GCallback
     then Some (st\<lparr>g_cbs := (g_cbs st)(c := f (g_cbs st c))\<rparr>) else None)"

text \<open>\<open>dispatch_source_create\<close> with its context and handlers.\<close>

definition dispatch_source_create :: "gcd_lib \<Rightarrow> source_type \<Rightarrow> int \<Rightarrow> gcds \<Rightarrow> addr \<times> gcds" where
  "dispatch_source_create G ty fd st = (let s = gcd_new_source G st in (s, gcd_emit (SourceCreate s ty fd) st))"

section \<open>Polls\<close>

definition gcd_read_handler :: "addr \<Rightarrow> gcds \<Rightarrow> gcds" where
  "gcd_read_handler p st = gcd_emit (GcdDispatchReadyPoll p GCD_READABLE) st"

definition gcd_write_handler :: "addr \<Rightarrow> gcds \<Rightarrow> gcds" where
  "gcd_write_handler p st = gcd_emit (GcdDispatchReadyPoll p GCD_WRITABLE) st"

definition us_poll_init_gcd :: "gcd_lib \<Rightarrow> addr \<Rightarrow> int \<Rightarrow> u8 \<Rightarrow> gcds \<Rightarrow> gcds option" where
  "us_poll_init_gcd G p fd poll_type st = do {
     st \<leftarrow> wr_gp p (\<lambda>x. x\<lparr>gp_poll_type := poll_type, gp_fd := fd\<rparr>) st;
     let (r, st) = dispatch_source_create G DISPATCH_SOURCE_TYPE_READ fd st;
     st \<leftarrow> wr_gp p (\<lambda>x. x\<lparr>gp_gcd_read := r\<rparr>) st;
     let st = gcd_emit (SetContext r p) st;
     let st = gcd_emit (SetEventHandler r GcdReadHandler) st;
     let st = gcd_emit (SetCancelHandler r GcdReadHandler) st;
     let (w, st) = dispatch_source_create G DISPATCH_SOURCE_TYPE_WRITE fd st;
     st \<leftarrow> wr_gp p (\<lambda>x. x\<lparr>gp_gcd_write := w\<rparr>) st;
     let st = gcd_emit (SetContext w p) st;
     let st = gcd_emit (SetEventHandler w GcdWriteHandler) st;
     Some (gcd_emit (SetCancelHandler w GcdWriteHandler) st)
   }"

definition us_poll_start_gcd :: "addr \<Rightarrow> u32 \<Rightarrow> gcds \<Rightarrow> gcds option" where
  "us_poll_start_gcd p events st = do {
     st \<leftarrow> wr_gp p (\<lambda>x. x\<lparr>gp_events := events\<rparr>) st;
     x \<leftarrow> rd_gp p st;
     let st = (if events AND GCD_READABLE \<noteq> 0 then gcd_emit (Resume (gp_gcd_read x)) st else st);
     Some (if events AND GCD_WRITABLE \<noteq> 0 then gcd_emit (Resume (gp_gcd_write x)) st else st)
   }"

definition us_poll_change_gcd :: "addr \<Rightarrow> u32 \<Rightarrow> gcds \<Rightarrow> gcds option" where
  "us_poll_change_gcd p events st = do {
     x \<leftarrow> rd_gp p st;
     let old_events = gp_events x;
     let st = (if old_events AND GCD_READABLE \<noteq> events AND GCD_READABLE
       then gcd_emit (if old_events AND GCD_READABLE \<noteq> 0 then Suspend (gp_gcd_read x) else Resume (gp_gcd_read x)) st else st);
     let st = (if old_events AND GCD_WRITABLE \<noteq> events AND GCD_WRITABLE
       then gcd_emit (if old_events AND GCD_WRITABLE \<noteq> 0 then Suspend (gp_gcd_write x) else Resume (gp_gcd_write x)) st else st);
     wr_gp p (\<lambda>x. x\<lparr>gp_events := events\<rparr>) st
   }"

definition us_poll_free_gcd :: "addr \<Rightarrow> gcds \<Rightarrow> gcds option" where
  "us_poll_free_gcd p st = do {
     st \<leftarrow> us_poll_change_gcd p (GCD_READABLE OR GCD_WRITABLE) st;
     x \<leftarrow> rd_gp p st;
     let st = gcd_emit (Release (gp_gcd_write x)) (gcd_emit (Release (gp_gcd_read x)) st);
     Some (st\<lparr>g_objs := (g_objs st)(p := None)\<rparr>)
   }"

definition us_poll_stop_gcd :: "addr \<Rightarrow> gcds \<Rightarrow> gcds option" where
  "us_poll_stop_gcd p st = do {
     x \<leftarrow> rd_gp p st;
     let st = (if gp_events x AND GCD_READABLE \<noteq> 0 then gcd_emit (Suspend (gp_gcd_read x)) st else st);
     let st = (if gp_events x AND GCD_WRITABLE \<noteq> 0 then gcd_emit (Suspend (gp_gcd_write x)) st else st);
     wr_gp p (\<lambda>x. x\<lparr>gp_events := 0\<rparr>) st
   }"

definition us_poll_events_gcd :: "addr \<Rightarrow> gcds \<Rightarrow> u32 option" where
  "us_poll_events_gcd p st = map_option gp_events (rd_gp p st)"

definition us_internal_accept_poll_event_gcd :: "addr \<Rightarrow> u32" where
  "us_internal_accept_poll_event_gcd p = 0"

definition us_internal_poll_type_gcd :: "addr \<Rightarrow> gcds \<Rightarrow> u8 option" where
  "us_internal_poll_type_gcd p st = map_option (\<lambda>x. gp_poll_type x AND 3) (rd_gp p st)"

definition us_internal_poll_set_type_gcd :: "addr \<Rightarrow> u8 \<Rightarrow> gcds \<Rightarrow> gcds option" where
  "us_internal_poll_set_type_gcd p poll_type st = wr_gp p (\<lambda>x. x\<lparr>gp_poll_type := poll_type\<rparr>) st"

definition us_poll_fd_gcd :: "addr \<Rightarrow> gcds \<Rightarrow> int option" where
  "us_poll_fd_gcd p st = map_option gp_fd (rd_gp p st)"

definition us_create_poll_gcd :: "gcd_lib \<Rightarrow> gcds \<Rightarrow> addr \<times> gcds" where
  "us_create_poll_gcd G st = (let p = gcd_malloc G st in (p, st\<lparr>g_objs := (g_objs st)(p \<mapsto> GPoll)\<rparr>))"

text \<open>When the block moves, the sources are replaced: their context is the old address.\<close>

definition us_poll_resize_gcd :: "gcd_lib \<Rightarrow> addr \<Rightarrow> gcds \<Rightarrow> (addr \<times> gcds) option" where
  "us_poll_resize_gcd G p st = do {
     events \<leftarrow> us_poll_events_gcd p st;
     let new_p = gcd_realloc G st p;
     if p \<noteq> new_p then do {
       let st = st\<lparr>g_objs := (g_objs st)(p := None, new_p := g_objs st p), g_polls := (g_polls st)(new_p := g_polls st p)\<rparr>;
       st \<leftarrow> us_poll_change_gcd new_p (GCD_READABLE OR GCD_WRITABLE) st;
       x \<leftarrow> rd_gp new_p st;
       let st = gcd_emit (Release (gp_gcd_write x)) (gcd_emit (Release (gp_gcd_read x)) st);
       fd \<leftarrow> us_poll_fd_gcd new_p st;
       ty \<leftarrow> us_internal_poll_type_gcd new_p st;
       st \<leftarrow> us_poll_init_gcd G new_p fd ty st;
       st \<leftarrow> us_poll_start_gcd new_p events st;
       Some (new_p, st)
     } else Some (new_p, st)
   }"

section \<open>Timers, asyncs and the loop\<close>

definition gcd_timer_handler :: "addr \<Rightarrow> gcds \<Rightarrow> gcds option" where
  "gcd_timer_handler t st = (if g_objs st t = Some GCallback
     then Some (gcd_emit (GcdCallCallback (cb_cb (g_cbs st t)) t) st) else None)"

definition us_create_timer_gcd :: "gcd_lib \<Rightarrow> gcds \<Rightarrow> (addr \<times> gcds) option" where
  "us_create_timer_gcd G st = (
     let cb = gcd_malloc G st;
         st = st\<lparr>g_objs := (g_objs st)(cb \<mapsto> GCallback)\<rparr>
     in do {
       st \<leftarrow> wr_gcb cb (\<lambda>c. c\<lparr>cb_expects_the_loop := False, cb_leave_poll_ready := False\<rparr>) st;
       let (s, st) = dispatch_source_create G DISPATCH_SOURCE_TYPE_TIMER 0 st;
       let st = st\<lparr>g_timer_source := (g_timer_source st)(cb := s)\<rparr>;
       let st = gcd_emit (SetEventHandler s GcdTimerHandler) st;
       Some (cb, gcd_emit (SetContext s cb) st)
     })"

definition us_timer_close_gcd :: "addr \<Rightarrow> gcds \<Rightarrow> gcds" where
  "us_timer_close_gcd t st = st"

definition us_timer_set_gcd :: "addr \<Rightarrow> fnptr \<Rightarrow> int \<Rightarrow> int \<Rightarrow> gcds \<Rightarrow> gcds option" where
  "us_timer_set_gcd t cb ms repeat_ms st = do {
     st \<leftarrow> wr_gcb t (\<lambda>c. c\<lparr>cb_cb := cb\<rparr>) st;
     let nanos = (ms * 1000000) mod 2 ^ 64;
     Some (gcd_emit (Activate (g_timer_source st t)) (gcd_emit (SetTimer (g_timer_source st t) 0 nanos 0) st))
   }"

text \<open>Asyncs are given their loop.\<close>

definition async_handler :: "addr \<Rightarrow> gcds \<Rightarrow> gcds option" where
  "async_handler c st = (if g_objs st c = Some GCallback
     then Some (gcd_emit (GcdCallCallback (cb_cb (g_cbs st c)) (g_loop st)) st) else None)"

definition us_internal_create_async_gcd :: "gcd_lib \<Rightarrow> gcds \<Rightarrow> (addr \<times> gcds) option" where
  "us_internal_create_async_gcd G st = (
     let cb = gcd_malloc G st;
         st = st\<lparr>g_objs := (g_objs st)(cb \<mapsto> GCallback)\<rparr>
     in do {
       st \<leftarrow> wr_gcb cb (\<lambda>c. c\<lparr>cb_expects_the_loop := True, cb_leave_poll_ready := False\<rparr>) st;
       Some (cb, st)
     })"

definition us_internal_async_close_gcd :: "addr \<Rightarrow> gcds \<Rightarrow> gcds" where
  "us_internal_async_close_gcd a st = st"

definition us_internal_async_set_gcd :: "addr \<Rightarrow> fnptr \<Rightarrow> gcds \<Rightarrow> gcds option" where
  "us_internal_async_set_gcd a cb st = wr_gcb a (\<lambda>c. c\<lparr>cb_cb := cb\<rparr>) st"

definition us_internal_async_wakeup_gcd :: "addr \<Rightarrow> gcds \<Rightarrow> gcds" where
  "us_internal_async_wakeup_gcd a st = gcd_emit (AsyncF a AsyncHandler) st"


text \<open>
  \<open>us_internal_loop_data_init\<close> and \<open>us_internal_loop_data_free\<close> of \<open>src/loop.c\<close>, as far as they
  concern this back end: the sweep timer and the wakeup async.
\<close>

definition loop_data_init_gcd :: "gcd_lib \<Rightarrow> fnptr \<Rightarrow> gcds \<Rightarrow> gcds option" where
  "loop_data_init_gcd G wakeup_cb st = do {
     (t, st) \<leftarrow> us_create_timer_gcd G st;
     let st = st\<lparr>g_sweep_timer := t\<rparr>;
     (a, st) \<leftarrow> us_internal_create_async_gcd G st;
     us_internal_async_set_gcd a wakeup_cb (st\<lparr>g_wakeup_async := a\<rparr>)
   }"

definition loop_data_free_gcd :: "gcds \<Rightarrow> gcds" where
  "loop_data_free_gcd st = us_internal_async_close_gcd (g_wakeup_async st) (us_timer_close_gcd (g_sweep_timer st) st)"

definition us_loop_integrate_gcd :: "gcds \<Rightarrow> gcds option" where
  "us_loop_integrate_gcd st = us_timer_set_gcd (g_sweep_timer st) FnSweepTimer
     (LIBUS_TIMEOUT_GRANULARITY * 1000) (LIBUS_TIMEOUT_GRANULARITY * 1000) st"

definition us_create_loop_gcd :: "gcd_lib \<Rightarrow> fnptr \<Rightarrow> gcds \<Rightarrow> (addr \<times> gcds) option" where
  "us_create_loop_gcd G wakeup_cb st = (
     let loop = gcd_malloc G st;
         st = st\<lparr>g_objs := (g_objs st)(loop \<mapsto> GLoop), g_loop := loop\<rparr>
     in do {
       st \<leftarrow> loop_data_init_gcd G wakeup_cb st;
       Some (loop, st)
     })"

definition us_loop_free_gcd :: "addr \<Rightarrow> gcds \<Rightarrow> gcds option" where
  "us_loop_free_gcd loop st = (
     let st = loop_data_free_gcd st
     in if g_objs st loop = None then None else Some (st\<lparr>g_objs := (g_objs st)(loop := None)\<rparr>))"

definition us_loop_run_gcd :: "gcds \<Rightarrow> gcds option" where
  "us_loop_run_gcd st = do {
     st \<leftarrow> us_loop_integrate_gcd st;
     Some (gcd_emit CFRunLoopRun st)
   }"

section \<open>What libdispatch says of sources\<close>

text \<open>
  How often each source is suspended: a new one once; resuming one that is not suspended and
  releasing one that is end the process, as does any use of a source that has been released.
\<close>

type_synonym sources = "addr \<Rightarrow> nat option"

fun gcd_apply :: "gcd_call \<Rightarrow> sources \<Rightarrow> sources option" where
  "gcd_apply (SourceCreate s ty fd) S = Some (S(s \<mapsto> 1))"
| "gcd_apply (Resume s) S = (case S s of Some (Suc n) \<Rightarrow> Some (S(s \<mapsto> n)) | _ \<Rightarrow> None)"
| "gcd_apply (Suspend s) S = (case S s of Some n \<Rightarrow> Some (S(s \<mapsto> Suc n)) | None \<Rightarrow> None)"
| "gcd_apply (Release s) S = (if S s = Some 0 then Some (S(s := None)) else None)"
| "gcd_apply (SetContext s p) S = (if S s = None then None else Some S)"
| "gcd_apply (SetEventHandler s h) S = (if S s = None then None else Some S)"
| "gcd_apply (SetCancelHandler s h) S = (if S s = None then None else Some S)"
| "gcd_apply _ S = Some S"

definition sources_of :: "gcds \<Rightarrow> sources option" where
  "sources_of st = fold (\<lambda>e S. Option.bind S (gcd_apply e)) (g_trace st) (Some Map.empty)"

lemma sources_emit [simp]: "sources_of (gcd_emit e st) = Option.bind (sources_of st) (gcd_apply e)"
  by (simp add: sources_of_def gcd_emit_def)

lemma sources_upd [simp]:
  "sources_of (st\<lparr>g_polls := x\<rparr>) = sources_of st" "sources_of (st\<lparr>g_objs := y\<rparr>) = sources_of st"
  by (simp_all add: sources_of_def)

lemma gcd_emit_simps [simp]:
  "g_objs (gcd_emit e st) = g_objs st" "g_polls (gcd_emit e st) = g_polls st"
  by (simp_all add: gcd_emit_def)

lemma gcd_mask: "(GCD_READABLE OR GCD_WRITABLE) AND GCD_READABLE \<noteq> 0" "(GCD_READABLE OR GCD_WRITABLE) AND GCD_WRITABLE \<noteq> 0"
  by (simp_all add: GCD_READABLE_def GCD_WRITABLE_def)

text \<open>How often a source of a poll with these events is suspended.\<close>

definition susp :: "u32 \<Rightarrow> u32 \<Rightarrow> nat" where
  "susp events b = (if events AND b \<noteq> 0 then 0 else 1)"

lemma and_same:
  "(x AND GCD_READABLE = y AND GCD_READABLE) \<longleftrightarrow> (x AND GCD_READABLE \<noteq> 0) = (y AND GCD_READABLE \<noteq> 0)"
  "(x AND GCD_WRITABLE = y AND GCD_WRITABLE) \<longleftrightarrow> (x AND GCD_WRITABLE \<noteq> 0) = (y AND GCD_WRITABLE \<noteq> 0)"
proof -
  have e: "bit GCD_READABLE n \<longleftrightarrow> n = 0" "bit GCD_WRITABLE n \<longleftrightarrow> n = 1" for n
    using bit_exp_iff [of 0 n, where ?'a = u32] bit_exp_iff [of 1 n, where ?'a = u32]
    by (auto simp: GCD_READABLE_def GCD_WRITABLE_def possible_bit_def simp del: bit_numeral_word_iff)
  have z: "GCD_READABLE \<noteq> 0" "GCD_WRITABLE \<noteq> 0" by (simp_all add: GCD_READABLE_def GCD_WRITABLE_def)
  have a: "x AND GCD_READABLE = (if bit x 0 then GCD_READABLE else 0)" "x AND GCD_WRITABLE = (if bit x 1 then GCD_WRITABLE else 0)" for x
    by (auto intro!: bit_word_eqI simp: bit_and_iff e)
  show "(x AND GCD_READABLE = y AND GCD_READABLE) \<longleftrightarrow> (x AND GCD_READABLE \<noteq> 0) = (y AND GCD_READABLE \<noteq> 0)"
    "(x AND GCD_WRITABLE = y AND GCD_WRITABLE) \<longleftrightarrow> (x AND GCD_WRITABLE \<noteq> 0) = (y AND GCD_WRITABLE \<noteq> 0)"
    using z unfolding a by auto
qed

text \<open>The operations on a poll whose sources are in the right state.\<close>

definition src_ok :: "sources \<Rightarrow> gcd_poll_t \<Rightarrow> nat \<Rightarrow> nat \<Rightarrow> bool" where
  "src_ok S x n m \<longleftrightarrow> gp_gcd_read x \<noteq> gp_gcd_write x \<and> S (gp_gcd_read x) = Some n \<and> S (gp_gcd_write x) = Some m"

lemma change_sources:
  assumes S: "sources_of st = Some S" and p: "g_objs st p = Some GPoll"
    and x: "src_ok S (g_polls st p) (susp (gp_events (g_polls st p)) GCD_READABLE) (susp (gp_events (g_polls st p)) GCD_WRITABLE)"
  shows "\<exists>st'. us_poll_change_gcd p ev st = Some st' \<and> g_objs st' = g_objs st \<and>
    g_polls st' = (g_polls st)(p := (g_polls st p)\<lparr>gp_events := ev\<rparr>) \<and>
    sources_of st' = Some (S(gp_gcd_read (g_polls st p) \<mapsto> susp ev GCD_READABLE, gp_gcd_write (g_polls st p) \<mapsto> susp ev GCD_WRITABLE))"
  using assms
  by (cases "ev AND GCD_READABLE \<noteq> 0"; cases "ev AND GCD_WRITABLE \<noteq> 0"; cases "gp_events (g_polls st p) AND GCD_READABLE \<noteq> 0";
      cases "gp_events (g_polls st p) AND GCD_WRITABLE \<noteq> 0")
    (simp_all add: us_poll_change_gcd_def rd_gp_def wr_gp_def Let_def src_ok_def susp_def and_same fun_upd_idem fun_upd_twist)

lemma start_sources:
  assumes S: "sources_of st = Some S" and p: "g_objs st p = Some GPoll" and x: "src_ok S (g_polls st p) 1 1"
  shows "\<exists>st'. us_poll_start_gcd p ev st = Some st' \<and> g_objs st' = g_objs st \<and>
    g_polls st' = (g_polls st)(p := (g_polls st p)\<lparr>gp_events := ev\<rparr>) \<and>
    sources_of st' = Some (S(gp_gcd_read (g_polls st p) \<mapsto> susp ev GCD_READABLE, gp_gcd_write (g_polls st p) \<mapsto> susp ev GCD_WRITABLE))"
  using assms
  by (cases "ev AND GCD_READABLE \<noteq> 0"; cases "ev AND GCD_WRITABLE \<noteq> 0")
    (simp_all add: us_poll_start_gcd_def rd_gp_def wr_gp_def Let_def src_ok_def susp_def fun_upd_idem fun_upd_twist)

lemma stop_sources:
  assumes S: "sources_of st = Some S" and p: "g_objs st p = Some GPoll"
    and x: "src_ok S (g_polls st p) (susp (gp_events (g_polls st p)) GCD_READABLE) (susp (gp_events (g_polls st p)) GCD_WRITABLE)"
  shows "\<exists>st'. us_poll_stop_gcd p st = Some st' \<and> g_objs st' = g_objs st \<and>
    g_polls st' = (g_polls st)(p := (g_polls st p)\<lparr>gp_events := 0\<rparr>) \<and>
    sources_of st' = Some (S(gp_gcd_read (g_polls st p) \<mapsto> susp 0 GCD_READABLE, gp_gcd_write (g_polls st p) \<mapsto> susp 0 GCD_WRITABLE))"
  using assms
  by (cases "gp_events (g_polls st p) AND GCD_READABLE \<noteq> 0"; cases "gp_events (g_polls st p) AND GCD_WRITABLE \<noteq> 0")
    (simp_all add: us_poll_stop_gcd_def rd_gp_def wr_gp_def Let_def src_ok_def susp_def fun_upd_idem fun_upd_twist)

definition gcd_lib_ok :: "gcd_lib \<Rightarrow> bool" where
  "gcd_lib_ok G \<longleftrightarrow> (\<forall>st. finite (dom (g_objs st)) \<longrightarrow> g_objs st (gcd_malloc G st) = None \<and>
     (\<forall>p. gcd_realloc G st p = p \<or> g_objs st (gcd_realloc G st p) = None)) \<and>
     (\<forall>st S. sources_of st = Some S \<longrightarrow> S (gcd_new_source G st) = None)"

lemma init_sources:
  assumes G: "gcd_lib_ok G" and S: "sources_of st = Some S" and p: "g_objs st p = Some GPoll"
  shows "\<exists>r w st'. us_poll_init_gcd G p fd ty st = Some st' \<and> g_objs st' = g_objs st \<and>
    g_polls st' = (g_polls st)(p := (g_polls st p)\<lparr>gp_poll_type := ty, gp_fd := fd, gp_gcd_read := r, gp_gcd_write := w\<rparr>) \<and>
    sources_of st' = Some (S(r \<mapsto> 1, w \<mapsto> 1)) \<and> S r = None \<and> S w = None \<and> r \<noteq> w"
proof -
  let ?s1 = "st\<lparr>g_polls := (g_polls st)(p := (g_polls st p)\<lparr>gp_poll_type := ty, gp_fd := fd\<rparr>)\<rparr>"
  define r where "r = gcd_new_source G ?s1"
  let ?s2 = "gcd_emit (SourceCreate r DISPATCH_SOURCE_TYPE_READ fd) ?s1"
  let ?s3 = "?s2\<lparr>g_polls := (g_polls st)(p := (g_polls st p)\<lparr>gp_poll_type := ty, gp_fd := fd, gp_gcd_read := r\<rparr>)\<rparr>"
  let ?s4 = "gcd_emit (SetCancelHandler r GcdReadHandler) (gcd_emit (SetEventHandler r GcdReadHandler) (gcd_emit (SetContext r p) ?s3))"
  define w where "w = gcd_new_source G ?s4"
  have new: "sources_of s = Some T \<Longrightarrow> T (gcd_new_source G s) = None" for s T using G by (simp add: gcd_lib_ok_def)
  have r: "S r = None" unfolding r_def by (rule new) (simp add: S)
  have s4: "sources_of ?s4 = Some (S(r \<mapsto> 1))" by (simp add: S)
  have w: "S w = None \<and> w \<noteq> r" using new [OF s4] unfolding w_def [symmetric] by (auto split: if_splits)
  show ?thesis
    by (rule exI [of _ r], rule exI [of _ w])
      (use S p r w in \<open>simp add: us_poll_init_gcd_def wr_gp_def dispatch_source_create_def Let_def flip: r_def w_def\<close>)
qed


section \<open>Many polls, in any order\<close>

text \<open>
  A poll is created, given its descriptor, started, changed and moved while it polls, stopped,
  perhaps started again, and freed after it has been started.
\<close>

datatype gcd_phase = GCreated | GInited | GStarted | GStopped

record gcd_run =
  gphase :: "addr \<Rightarrow> gcd_phase option"
  gst :: gcds

inductive gcd_step :: "gcd_lib \<Rightarrow> gcd_run \<Rightarrow> gcd_run \<Rightarrow> bool" for G where
  create: "us_create_poll_gcd G (gst r) = (p, st') \<Longrightarrow> gcd_step G r (r\<lparr>gphase := (gphase r)(p \<mapsto> GCreated), gst := st'\<rparr>)"
| init: "gphase r p = Some GCreated \<Longrightarrow> us_poll_init_gcd G p fd ty (gst r) = Some st' \<Longrightarrow>
    gcd_step G r (r\<lparr>gphase := (gphase r)(p \<mapsto> GInited), gst := st'\<rparr>)"
| set_type: "gphase r p \<noteq> None \<Longrightarrow> us_internal_poll_set_type_gcd p ty (gst r) = Some st' \<Longrightarrow> gcd_step G r (r\<lparr>gst := st'\<rparr>)"
| start: "gphase r p \<in> {Some GInited, Some GStopped} \<Longrightarrow> us_poll_start_gcd p ev (gst r) = Some st' \<Longrightarrow>
    gcd_step G r (r\<lparr>gphase := (gphase r)(p \<mapsto> GStarted), gst := st'\<rparr>)"
| change: "gphase r p = Some GStarted \<Longrightarrow> us_poll_change_gcd p ev (gst r) = Some st' \<Longrightarrow> gcd_step G r (r\<lparr>gst := st'\<rparr>)"
| stop: "gphase r p = Some GStarted \<Longrightarrow> us_poll_stop_gcd p (gst r) = Some st' \<Longrightarrow>
    gcd_step G r (r\<lparr>gphase := (gphase r)(p \<mapsto> GStopped), gst := st'\<rparr>)"
| free: "gphase r p \<in> {Some GStarted, Some GStopped} \<Longrightarrow> us_poll_free_gcd p (gst r) = Some st' \<Longrightarrow>
    gcd_step G r (r\<lparr>gphase := (gphase r)(p := None), gst := st'\<rparr>)"
| resize: "gphase r p = Some GStarted \<Longrightarrow> us_poll_resize_gcd G p (gst r) = Some (q, st') \<Longrightarrow>
    gcd_step G r (r\<lparr>gphase := (gphase r)(p := None, q \<mapsto> GStarted), gst := st'\<rparr>)"

inductive gcd_reachable :: "gcd_lib \<Rightarrow> gcd_run \<Rightarrow> bool" for G where
  empty: "g_objs st = Map.empty \<Longrightarrow> g_trace st = [] \<Longrightarrow> gcd_reachable G \<lparr>gphase = Map.empty, gst = st\<rparr>"
| step: "gcd_reachable G r \<Longrightarrow> gcd_step G r r' \<Longrightarrow> gcd_reachable G r'"

text \<open>The sources a poll in this phase has, and how often each is suspended.\<close>

definition susp_in :: "gcd_phase \<Rightarrow> gcd_poll_t \<Rightarrow> u32 \<Rightarrow> nat" where
  "susp_in ph x b = (if ph = GInited then 1 else susp (gp_events x) b)"

definition slot :: "gcd_phase option \<Rightarrow> gcd_poll_t \<Rightarrow> addr \<Rightarrow> nat \<Rightarrow> bool" where
  "slot ph x s n \<longleftrightarrow> (\<exists>y. ph = Some y \<and> y \<noteq> GCreated \<and>
     (s = gp_gcd_read x \<and> n = susp_in y x GCD_READABLE \<or> s = gp_gcd_write x \<and> n = susp_in y x GCD_WRITABLE))"

definition exact :: "sources \<Rightarrow> (addr \<Rightarrow> gcd_phase option) \<Rightarrow> (addr \<Rightarrow> gcd_poll_t) \<Rightarrow> bool" where
  "exact S ph ps \<longleftrightarrow> (\<forall>s n. S s = Some n \<longleftrightarrow> (\<exists>p. slot (ph p) (ps p) s n)) \<and>
     (\<forall>p q s n m. slot (ph p) (ps p) s n \<longrightarrow> slot (ph q) (ps q) s m \<longrightarrow> p = q) \<and>
     (\<forall>p y. ph p = Some y \<longrightarrow> y \<noteq> GCreated \<longrightarrow> gp_gcd_read (ps p) \<noteq> gp_gcd_write (ps p))"

definition gcd_inv :: "gcd_run \<Rightarrow> bool" where
  "gcd_inv r \<longleftrightarrow> (\<exists>S. sources_of (gst r) = Some S \<and> exact S (gphase r) (g_polls (gst r))) \<and>
     (\<forall>p. gphase r p \<noteq> None \<longrightarrow> g_objs (gst r) p = Some GPoll) \<and>
     (\<forall>p. gphase r p = Some GStopped \<longrightarrow> gp_events (g_polls (gst r) p) = 0) \<and>
     finite (dom (g_objs (gst r)))"

lemma exact_src:
  assumes E: "exact S ph ps" and p: "ph p = Some y" "y \<noteq> GCreated"
  shows "src_ok S (ps p) (susp_in y (ps p) GCD_READABLE) (susp_in y (ps p) GCD_WRITABLE)"
proof -
  have "slot (ph p) (ps p) (gp_gcd_read (ps p)) (susp_in y (ps p) GCD_READABLE)"
    "slot (ph p) (ps p) (gp_gcd_write (ps p)) (susp_in y (ps p) GCD_WRITABLE)"
    using p by (auto simp: slot_def)
  moreover have "gp_gcd_read (ps p) \<noteq> gp_gcd_write (ps p)" using E p unfolding exact_def by blast
  ultimately show ?thesis using E unfolding exact_def src_ok_def by blast
qed

text \<open>One poll changes its sources; it may move and it may gain or lose them.\<close>

lemma exact_update:
  assumes E: "exact S ph ps"
    and o: "\<And>u. u \<noteq> p \<Longrightarrow> u \<noteq> q \<Longrightarrow> ph' u = ph u" "\<And>u. u \<noteq> p \<Longrightarrow> u \<noteq> q \<Longrightarrow> ps' u = ps u"
    and q: "q = p \<or> ph q = None \<and> ph' p = None"
    and S': "\<And>s n. S' s = Some n \<longleftrightarrow> (\<exists>u. u \<noteq> p \<and> slot (ph u) (ps u) s n) \<or> slot (ph' q) (ps' q) s n"
    and f: "\<And>u s n m. u \<noteq> p \<Longrightarrow> slot (ph u) (ps u) s n \<Longrightarrow> \<not> slot (ph' q) (ps' q) s m"
    and d: "\<And>y. ph' q = Some y \<Longrightarrow> y \<noteq> GCreated \<Longrightarrow> gp_gcd_read (ps' q) \<noteq> gp_gcd_write (ps' q)"
  shows "exact S' ph' ps'"
proof -
  have none: "\<not> slot None x s n" for x s n by (simp add: slot_def)
  have other: "slot (ph' u) (ps' u) s n \<longleftrightarrow> u \<noteq> p \<and> slot (ph u) (ps u) s n" if "u \<noteq> q" for u s n
    using o [OF _ that] q none that by (cases "u = p") auto
  have old: "u \<noteq> q" if "u \<noteq> p" "slot (ph u) (ps u) s n" for u s n using q none that by auto
  have inj: "u = v" if "slot (ph u) (ps u) s n" "slot (ph v) (ps v) s m" for u v s n m using E that unfolding exact_def by blast
  have 1: "S' s = Some n \<longleftrightarrow> (\<exists>u. slot (ph' u) (ps' u) s n)" for s n
  proof
    assume "S' s = Some n"
    then consider u where "u \<noteq> p" "slot (ph u) (ps u) s n" | "slot (ph' q) (ps' q) s n" using S' by blast
    then show "\<exists>u. slot (ph' u) (ps' u) s n"
    proof cases
      case 1
      then have "slot (ph' u) (ps' u) s n" using other [OF old [OF 1]] by blast
      then show ?thesis by blast
    qed blast
  next
    assume "\<exists>u. slot (ph' u) (ps' u) s n"
    then obtain u where u: "slot (ph' u) (ps' u) s n" by blast
    then show "S' s = Some n" using S' [of s n] other [of u s n] by (cases "u = q") blast+
  qed
  have 2: "u = v" if u: "slot (ph' u) (ps' u) s n" and v: "slot (ph' v) (ps' v) s m" for u v s n m
  proof (cases "u = q \<or> v = q")
    case True
    then show ?thesis
    proof
      assume uq: "u = q"
      show ?thesis
      proof (rule ccontr)
        assume "u \<noteq> v"
        then have "v \<noteq> p \<and> slot (ph v) (ps v) s m" using other [of v s m] v uq by blast
        then show False using f u uq by blast
      qed
    next
      assume vq: "v = q"
      show ?thesis
      proof (rule ccontr)
        assume "u \<noteq> v"
        then have "u \<noteq> p \<and> slot (ph u) (ps u) s n" using other [of u s n] u vq by blast
        then show False using f v vq by blast
      qed
    qed
  next
    case False
    then show ?thesis using inj other [of u s n] other [of v s m] u v by blast
  qed
  have 3: "gp_gcd_read (ps' u) \<noteq> gp_gcd_write (ps' u)" if "ph' u = Some y" "y \<noteq> GCreated" for u y
  proof (cases "u = q")
    case True
    then show ?thesis using d that by simp
  next
    case False
    then have "u \<noteq> p" using q that(1) by auto
    then show ?thesis using E that o [OF _ False] unfolding exact_def by simp
  qed
  show ?thesis unfolding exact_def using 1 2 3 by blast
qed


lemma slot_at:
  assumes E: "exact S ph ps" and p: "ph p = Some y" "y \<noteq> GCreated"
  shows "(\<exists>u. u \<noteq> p \<and> slot (ph u) (ps u) s n) \<longleftrightarrow> s \<noteq> gp_gcd_read (ps p) \<and> s \<noteq> gp_gcd_write (ps p) \<and> S s = Some n"
proof -
  have sl: "slot (ph p) (ps p) (gp_gcd_read (ps p)) (susp_in y (ps p) GCD_READABLE)"
    "slot (ph p) (ps p) (gp_gcd_write (ps p)) (susp_in y (ps p) GCD_WRITABLE)"
    using p by (auto simp: slot_def)
  have inj: "u = v" if "slot (ph u) (ps u) s n" "slot (ph v) (ps v) s m" for u v s n m using E that unfolding exact_def by blast
  have S: "S s = Some n \<longleftrightarrow> (\<exists>u. slot (ph u) (ps u) s n)" for s n using E unfolding exact_def by blast
  show ?thesis
  proof
    assume "\<exists>u. u \<noteq> p \<and> slot (ph u) (ps u) s n"
    then obtain u where u: "u \<noteq> p" "slot (ph u) (ps u) s n" by blast
    then have "s \<noteq> gp_gcd_read (ps p)" "s \<noteq> gp_gcd_write (ps p)" using inj sl by blast+
    then show "s \<noteq> gp_gcd_read (ps p) \<and> s \<noteq> gp_gcd_write (ps p) \<and> S s = Some n" using S u by blast
  next
    assume a: "s \<noteq> gp_gcd_read (ps p) \<and> s \<noteq> gp_gcd_write (ps p) \<and> S s = Some n"
    then obtain u where u: "slot (ph u) (ps u) s n" using S by blast
    then have "u \<noteq> p" using a by (auto simp: slot_def)
    then show "\<exists>u. u \<noteq> p \<and> slot (ph u) (ps u) s n" using u by blast
  qed
qed

lemma slot_in: "slot ph x s n \<Longrightarrow> s = gp_gcd_read x \<or> s = gp_gcd_write x"
  by (auto simp: slot_def)

lemma exact_here:
  assumes E: "exact S ph ps" and p: "ph p = Some y" "y \<noteq> GCreated" "y' \<noteq> GCreated"
    and x: "gp_gcd_read x' = gp_gcd_read (ps p)" "gp_gcd_write x' = gp_gcd_write (ps p)"
  shows "exact (S(gp_gcd_read (ps p) \<mapsto> susp_in y' x' GCD_READABLE, gp_gcd_write (ps p) \<mapsto> susp_in y' x' GCD_WRITABLE))
    (ph(p \<mapsto> y')) (ps(p := x'))"
proof (rule exact_update [OF E, of p p])
  have d: "gp_gcd_read (ps p) \<noteq> gp_gcd_write (ps p)" using E p unfolding exact_def by blast
  show "(S(gp_gcd_read (ps p) \<mapsto> susp_in y' x' GCD_READABLE, gp_gcd_write (ps p) \<mapsto> susp_in y' x' GCD_WRITABLE)) s = Some n
    \<longleftrightarrow> (\<exists>u. u \<noteq> p \<and> slot (ph u) (ps u) s n) \<or> slot ((ph(p \<mapsto> y')) p) ((ps(p := x')) p) s n" for s n
    unfolding slot_at [OF E p(1,2)] using d x p(3) by (auto simp: slot_def)
  show "\<not> slot ((ph(p \<mapsto> y')) p) ((ps(p := x')) p) s m" if "u \<noteq> p" "slot (ph u) (ps u) s n" for u s n m
  proof -
    have "s \<noteq> gp_gcd_read (ps p) \<and> s \<noteq> gp_gcd_write (ps p)" using slot_at [OF E p(1,2), of s n] that by blast
    then show ?thesis using slot_in [of "Some y'" x' s m] x by auto
  qed
  show "gp_gcd_read ((ps(p := x')) p) \<noteq> gp_gcd_write ((ps(p := x')) p)" using d x by simp
qed auto

lemma exact_gone:
  assumes E: "exact S ph ps" and p: "ph p = Some y" "y \<noteq> GCreated" and q: "\<And>u. u \<noteq> p \<Longrightarrow> ph u \<noteq> None \<Longrightarrow> ps' u = ps u"
  shows "exact (S(gp_gcd_read (ps p) := None, gp_gcd_write (ps p) := None)) (ph(p := None)) ps'"
proof -
  have none: "\<not> slot None x s n" for x s n by (simp add: slot_def)
  have A: "exact (S(gp_gcd_read (ps p) := None, gp_gcd_write (ps p) := None)) (ph(p := None)) ps"
  proof (rule exact_update [OF E, of p p])
    show "(S(gp_gcd_read (ps p) := None, gp_gcd_write (ps p) := None)) s = Some n
      \<longleftrightarrow> (\<exists>u. u \<noteq> p \<and> slot (ph u) (ps u) s n) \<or> slot ((ph(p := None)) p) (ps p) s n" for s n
      unfolding slot_at [OF E p(1,2)] using none by auto
  qed (use none in auto)
  have B: "slot ((ph(p := None)) u) (ps' u) s n = slot ((ph(p := None)) u) (ps u) s n" for u s n
    using q [of u] none by (cases "u = p \<or> ph u = None") auto
  have C: "gp_gcd_read (ps' u) \<noteq> gp_gcd_write (ps' u)" if "(ph(p := None)) u = Some y" "y \<noteq> GCreated" for u y
  proof -
    have u: "u \<noteq> p" "ph u = Some y" using that(1) by (simp_all split: if_splits)
    then have "gp_gcd_read (ps u) \<noteq> gp_gcd_write (ps u)" using E that(2) unfolding exact_def by blast
    then show ?thesis using q [OF u(1)] u(2) by simp
  qed
  show ?thesis using A C unfolding exact_def B by blast
qed

lemma exact_new:
  assumes E: "exact S ph ps" and q: "ph q = None \<or> ph q = Some GCreated" "y' \<noteq> GCreated"
    and fresh: "S (gp_gcd_read x') = None" "S (gp_gcd_write x') = None" "gp_gcd_read x' \<noteq> gp_gcd_write x'"
  shows "exact (S(gp_gcd_read x' \<mapsto> susp_in y' x' GCD_READABLE, gp_gcd_write x' \<mapsto> susp_in y' x' GCD_WRITABLE))
    (ph(q \<mapsto> y')) (ps(q := x'))"
proof (rule exact_update [OF E, of q q])
  have no: "\<not> slot (ph q) (ps q) s n" for s n using q(1) by (auto simp: slot_def)
  have S: "S s = Some n \<longleftrightarrow> (\<exists>u. u \<noteq> q \<and> slot (ph u) (ps u) s n)" for s n
  proof -
    have "S s = Some n \<longleftrightarrow> (\<exists>u. slot (ph u) (ps u) s n)" using E unfolding exact_def by blast
    moreover have "(\<exists>u. slot (ph u) (ps u) s n) \<longleftrightarrow> (\<exists>u. u \<noteq> q \<and> slot (ph u) (ps u) s n)" using no [of s n] by metis
    ultimately show ?thesis by blast
  qed
  have notS: "s \<noteq> gp_gcd_read x' \<and> s \<noteq> gp_gcd_write x'" if "S s = Some n" for s n using fresh that by auto
  show "(S(gp_gcd_read x' \<mapsto> susp_in y' x' GCD_READABLE, gp_gcd_write x' \<mapsto> susp_in y' x' GCD_WRITABLE)) s = Some n
    \<longleftrightarrow> (\<exists>u. u \<noteq> q \<and> slot (ph u) (ps u) s n) \<or> slot ((ph(q \<mapsto> y')) q) ((ps(q := x')) q) s n" for s n
    unfolding S [symmetric] using q(2) fresh notS [of s n] by (auto simp: slot_def)
  show "\<not> slot ((ph(q \<mapsto> y')) q) ((ps(q := x')) q) s m" if "u \<noteq> q" "slot (ph u) (ps u) s n" for u s n m
    using S [of s n] notS [of s n] that slot_in [of "Some y'" x' s m] by auto
qed (use fresh in auto)

lemma gcd_invE:
  assumes "gcd_inv r" "gphase r p = Some y" "y \<noteq> GCreated"
  obtains S where "sources_of (gst r) = Some S" "exact S (gphase r) (g_polls (gst r))" "g_objs (gst r) p = Some GPoll"
    "src_ok S (g_polls (gst r) p) (susp_in y (g_polls (gst r) p) GCD_READABLE) (susp_in y (g_polls (gst r) p) GCD_WRITABLE)"
    "finite (dom (g_objs (gst r)))"
  using assms exact_src unfolding gcd_inv_def by blast

lemma susp_started [simp]:
  "susp_in GStarted x b = susp (gp_events x) b" "susp_in GStopped x b = susp (gp_events x) b" "susp_in GInited x b = 1"
  by (simp_all add: susp_in_def)

text \<open>Freeing: the sources are resumed, whatever the events, and released.\<close>

lemma change_release:
  assumes S: "sources_of st = Some S" and p: "g_objs st p = Some GPoll"
    and x: "src_ok S (g_polls st p) (susp (gp_events (g_polls st p)) GCD_READABLE) (susp (gp_events (g_polls st p)) GCD_WRITABLE)"
  shows "\<exists>st'. us_poll_change_gcd p (GCD_READABLE OR GCD_WRITABLE) st = Some st' \<and> g_objs st' = g_objs st \<and>
    g_polls st' = (g_polls st)(p := (g_polls st p)\<lparr>gp_events := GCD_READABLE OR GCD_WRITABLE\<rparr>) \<and>
    sources_of (gcd_emit (Release (gp_gcd_write (g_polls st p))) (gcd_emit (Release (gp_gcd_read (g_polls st p))) st')) =
      Some (S(gp_gcd_read (g_polls st p) := None, gp_gcd_write (g_polls st p) := None))"
proof -
  obtain st' where 1: "us_poll_change_gcd p (GCD_READABLE OR GCD_WRITABLE) st = Some st'" "g_objs st' = g_objs st"
    "g_polls st' = (g_polls st)(p := (g_polls st p)\<lparr>gp_events := GCD_READABLE OR GCD_WRITABLE\<rparr>)"
    "sources_of st' = Some (S(gp_gcd_read (g_polls st p) \<mapsto> susp (GCD_READABLE OR GCD_WRITABLE) GCD_READABLE,
       gp_gcd_write (g_polls st p) \<mapsto> susp (GCD_READABLE OR GCD_WRITABLE) GCD_WRITABLE))"
    using change_sources [OF assms] by blast
  have z: "susp (GCD_READABLE OR GCD_WRITABLE) GCD_READABLE = 0" "susp (GCD_READABLE OR GCD_WRITABLE) GCD_WRITABLE = 0"
    using gcd_mask by (simp_all add: susp_def)
  have "sources_of (gcd_emit (Release (gp_gcd_write (g_polls st p))) (gcd_emit (Release (gp_gcd_read (g_polls st p))) st')) =
      Some (S(gp_gcd_read (g_polls st p) := None, gp_gcd_write (g_polls st p) := None))"
    using x by (simp add: 1(4) z src_ok_def fun_upd_twist)
  with 1(1-3) show ?thesis by blast
qed


lemma gcd_invD:
  assumes "gcd_inv r"
  shows "gphase r p \<noteq> None \<Longrightarrow> g_objs (gst r) p = Some GPoll" "finite (dom (g_objs (gst r)))"
    "gphase r p = Some GStopped \<Longrightarrow> gp_events (g_polls (gst r) p) = 0"
  using assms unfolding gcd_inv_def by blast+

lemma gcd_inv_put:
  assumes I: "gcd_inv r" and p: "gphase r p \<noteq> None" and o: "g_objs st' = g_objs (gst r)"
    and x: "g_polls st' = (g_polls (gst r))(p := x')" "y' = GStopped \<longrightarrow> gp_events x' = 0"
    and E: "sources_of st' = Some S'" "exact S' ((gphase r)(p \<mapsto> y')) (g_polls st')"
  shows "gcd_inv (r\<lparr>gphase := (gphase r)(p \<mapsto> y'), gst := st'\<rparr>)"
proof -
  let ?r = "r\<lparr>gphase := (gphase r)(p \<mapsto> y'), gst := st'\<rparr>"
  have s: "gst ?r = st'" "gphase ?r = (gphase r)(p \<mapsto> y')" by simp_all
  show ?thesis unfolding gcd_inv_def s
  proof (intro conjI allI impI)
    show "\<exists>S. sources_of st' = Some S \<and> exact S ((gphase r)(p \<mapsto> y')) (g_polls st')" using E by blast
    show "finite (dom (g_objs st'))" using gcd_invD(2) [OF I] o by simp
    show "g_objs st' q = Some GPoll" if "((gphase r)(p \<mapsto> y')) q \<noteq> None" for q
      using gcd_invD(1) [OF I, of q] gcd_invD(1) [OF I p] that o by (cases "q = p") auto
    show "gp_events (g_polls st' q) = 0" if "((gphase r)(p \<mapsto> y')) q = Some GStopped" for q
      using gcd_invD(3) [OF I, of q] that x by (cases "q = p") auto
  qed
qed

lemma gcd_has:
  assumes I: "gcd_inv r" and p: "gphase r p = Some y" "y = GStarted \<or> y = GStopped"
  obtains S where "sources_of (gst r) = Some S" "exact S (gphase r) (g_polls (gst r))" "g_objs (gst r) p = Some GPoll"
    "src_ok S (g_polls (gst r) p) (susp (gp_events (g_polls (gst r) p)) GCD_READABLE) (susp (gp_events (g_polls (gst r) p)) GCD_WRITABLE)"
proof -
  have "y \<noteq> GCreated" using p(2) by auto
  then obtain S where S: "sources_of (gst r) = Some S" "exact S (gphase r) (g_polls (gst r))" "g_objs (gst r) p = Some GPoll"
    "src_ok S (g_polls (gst r) p) (susp_in y (g_polls (gst r) p) GCD_READABLE) (susp_in y (g_polls (gst r) p) GCD_WRITABLE)"
    using gcd_invE [OF I p(1)] by blast
  have "susp_in y (g_polls (gst r) p) c = susp (gp_events (g_polls (gst r) p)) c" for c using p(2) by auto
  with that S show ?thesis by simp
qed

lemma gcd_init_ok:
  assumes G: "gcd_lib_ok G" and I: "gcd_inv r" and p: "gphase r p = Some GCreated"
  shows "\<exists>st'. us_poll_init_gcd G p fd ty (gst r) = Some st' \<and> gcd_inv (r\<lparr>gphase := (gphase r)(p \<mapsto> GInited), gst := st'\<rparr>)"
proof -
  obtain S where S: "sources_of (gst r) = Some S" "exact S (gphase r) (g_polls (gst r))" using I unfolding gcd_inv_def by blast
  have n: "gphase r p \<noteq> None" using p by simp
  let ?x = "\<lambda>a b. (g_polls (gst r) p)\<lparr>gp_poll_type := ty, gp_fd := fd, gp_gcd_read := a, gp_gcd_write := b\<rparr>"
  obtain a b st' where 1: "us_poll_init_gcd G p fd ty (gst r) = Some st'" "g_objs st' = g_objs (gst r)"
    "g_polls st' = (g_polls (gst r))(p := ?x a b)" "sources_of st' = Some (S(a \<mapsto> 1, b \<mapsto> 1))" "S a = None" "S b = None" "a \<noteq> b"
    using init_sources [OF G S(1) gcd_invD(1) [OF I n]] by blast
  have E: "exact (S(gp_gcd_read (?x a b) \<mapsto> susp_in GInited (?x a b) GCD_READABLE, gp_gcd_write (?x a b) \<mapsto> susp_in GInited (?x a b) GCD_WRITABLE))
      ((gphase r)(p \<mapsto> GInited)) ((g_polls (gst r))(p := ?x a b))"
    by (rule exact_new [OF S(2)]) (use p 1 in auto)
  show ?thesis by (rule exI, rule conjI [OF 1(1)], rule gcd_inv_put [OF I n 1(2,3) _ 1(4)]) (use E 1(3) in simp_all)
qed

lemma gcd_start_ok:
  assumes I: "gcd_inv r" and p: "gphase r p \<in> {Some GInited, Some GStopped}"
  shows "\<exists>st'. us_poll_start_gcd p ev (gst r) = Some st' \<and> gcd_inv (r\<lparr>gphase := (gphase r)(p \<mapsto> GStarted), gst := st'\<rparr>)"
proof -
  obtain y where p: "gphase r p = Some y" "y = GInited \<or> y = GStopped" "y \<noteq> GCreated" using p by auto
  then obtain S where S: "sources_of (gst r) = Some S" "exact S (gphase r) (g_polls (gst r))" "g_objs (gst r) p = Some GPoll"
    "src_ok S (g_polls (gst r) p) (susp_in y (g_polls (gst r) p) GCD_READABLE) (susp_in y (g_polls (gst r) p) GCD_WRITABLE)"
    using gcd_invE [OF I] by blast
  have "susp_in y (g_polls (gst r) p) c = 1" for c using p gcd_invD(3) [OF I, of p] by (auto simp: susp_def)
  then have "src_ok S (g_polls (gst r) p) 1 1" using S(4) by simp
  from start_sources [OF S(1,3) this, of ev] obtain st' where 1: "us_poll_start_gcd p ev (gst r) = Some st'" "g_objs st' = g_objs (gst r)"
    "g_polls st' = (g_polls (gst r))(p := (g_polls (gst r) p)\<lparr>gp_events := ev\<rparr>)"
    "sources_of st' = Some (S(gp_gcd_read (g_polls (gst r) p) \<mapsto> susp ev GCD_READABLE, gp_gcd_write (g_polls (gst r) p) \<mapsto> susp ev GCD_WRITABLE))"
    by blast
  have n: "gphase r p \<noteq> None" using p by simp
  have E: "exact (S(gp_gcd_read (g_polls (gst r) p) \<mapsto> susp ev GCD_READABLE, gp_gcd_write (g_polls (gst r) p) \<mapsto> susp ev GCD_WRITABLE))
      ((gphase r)(p \<mapsto> GStarted)) (g_polls st')"
    using exact_here [OF S(2) p(1,3), of GStarted "(g_polls (gst r) p)\<lparr>gp_events := ev\<rparr>"] by (simp add: 1(3))
  show ?thesis by (rule exI, rule conjI [OF 1(1)], rule gcd_inv_put [OF I n 1(2,3) _ 1(4) E]) simp
qed

lemma gcd_change_ok:
  assumes I: "gcd_inv r" and p: "gphase r p = Some GStarted"
  shows "\<exists>st'. us_poll_change_gcd p ev (gst r) = Some st' \<and> gcd_inv (r\<lparr>gst := st'\<rparr>)"
proof -
  obtain S where S: "sources_of (gst r) = Some S" "exact S (gphase r) (g_polls (gst r))" "g_objs (gst r) p = Some GPoll"
    "src_ok S (g_polls (gst r) p) (susp (gp_events (g_polls (gst r) p)) GCD_READABLE) (susp (gp_events (g_polls (gst r) p)) GCD_WRITABLE)"
    using gcd_has [OF I p] by blast
  from change_sources [OF S(1,3,4), of ev] obtain st' where 1: "us_poll_change_gcd p ev (gst r) = Some st'" "g_objs st' = g_objs (gst r)"
    "g_polls st' = (g_polls (gst r))(p := (g_polls (gst r) p)\<lparr>gp_events := ev\<rparr>)"
    "sources_of st' = Some (S(gp_gcd_read (g_polls (gst r) p) \<mapsto> susp ev GCD_READABLE, gp_gcd_write (g_polls (gst r) p) \<mapsto> susp ev GCD_WRITABLE))"
    by blast
  have n: "gphase r p \<noteq> None" using p by simp
  have E: "exact (S(gp_gcd_read (g_polls (gst r) p) \<mapsto> susp ev GCD_READABLE, gp_gcd_write (g_polls (gst r) p) \<mapsto> susp ev GCD_WRITABLE))
      ((gphase r)(p \<mapsto> GStarted)) (g_polls st')"
    using exact_here [OF S(2) p, of GStarted "(g_polls (gst r) p)\<lparr>gp_events := ev\<rparr>"] by (simp add: 1(3))
  have "gcd_inv (r\<lparr>gphase := (gphase r)(p \<mapsto> GStarted), gst := st'\<rparr>)"
    by (rule gcd_inv_put [OF I n 1(2,3) _ 1(4) E]) simp
  then show ?thesis using 1(1) p by (simp add: fun_upd_idem)
qed

lemma gcd_stop_ok:
  assumes I: "gcd_inv r" and p: "gphase r p = Some GStarted"
  shows "\<exists>st'. us_poll_stop_gcd p (gst r) = Some st' \<and> gcd_inv (r\<lparr>gphase := (gphase r)(p \<mapsto> GStopped), gst := st'\<rparr>)"
proof -
  obtain S where S: "sources_of (gst r) = Some S" "exact S (gphase r) (g_polls (gst r))" "g_objs (gst r) p = Some GPoll"
    "src_ok S (g_polls (gst r) p) (susp (gp_events (g_polls (gst r) p)) GCD_READABLE) (susp (gp_events (g_polls (gst r) p)) GCD_WRITABLE)"
    using gcd_has [OF I p] by blast
  from stop_sources [OF S(1,3,4)] obtain st' where 1: "us_poll_stop_gcd p (gst r) = Some st'" "g_objs st' = g_objs (gst r)"
    "g_polls st' = (g_polls (gst r))(p := (g_polls (gst r) p)\<lparr>gp_events := 0\<rparr>)"
    "sources_of st' = Some (S(gp_gcd_read (g_polls (gst r) p) \<mapsto> susp 0 GCD_READABLE, gp_gcd_write (g_polls (gst r) p) \<mapsto> susp 0 GCD_WRITABLE))"
    by blast
  have n: "gphase r p \<noteq> None" using p by simp
  have E: "exact (S(gp_gcd_read (g_polls (gst r) p) \<mapsto> susp 0 GCD_READABLE, gp_gcd_write (g_polls (gst r) p) \<mapsto> susp 0 GCD_WRITABLE))
      ((gphase r)(p \<mapsto> GStopped)) (g_polls st')"
    using exact_here [OF S(2) p, of GStopped "(g_polls (gst r) p)\<lparr>gp_events := 0\<rparr>"] by (simp add: 1(3))
  show ?thesis by (rule exI, rule conjI [OF 1(1)], rule gcd_inv_put [OF I n 1(2,3) _ 1(4) E]) simp
qed

lemma gcd_inv_drop:
  assumes I: "gcd_inv r" and E: "sources_of st' = Some S'" "exact S' ((gphase r)(p := None)) (g_polls st')"
    and o: "g_objs st' = (g_objs (gst r))(p := None)" "\<And>q. q \<noteq> p \<Longrightarrow> g_polls st' q = g_polls (gst r) q"
  shows "gcd_inv (r\<lparr>gphase := (gphase r)(p := None), gst := st'\<rparr>)"
proof -
  let ?r = "r\<lparr>gphase := (gphase r)(p := None), gst := st'\<rparr>"
  have s: "gst ?r = st'" "gphase ?r = (gphase r)(p := None)" by simp_all
  show ?thesis unfolding gcd_inv_def s
  proof (intro conjI allI impI)
    show "\<exists>S. sources_of st' = Some S \<and> exact S ((gphase r)(p := None)) (g_polls st')" using E by blast
    show "finite (dom (g_objs st'))" using gcd_invD(2) [OF I] o by simp
    show "g_objs st' q = Some GPoll" if "((gphase r)(p := None)) q \<noteq> None" for q
      using gcd_invD(1) [OF I, of q] that o by (cases "q = p") auto
    show "gp_events (g_polls st' q) = 0" if "((gphase r)(p := None)) q = Some GStopped" for q
      using gcd_invD(3) [OF I, of q] that o by (cases "q = p") auto
  qed
qed

lemma gcd_free_ok:
  assumes I: "gcd_inv r" and p: "gphase r p \<in> {Some GStarted, Some GStopped}"
  shows "\<exists>st'. us_poll_free_gcd p (gst r) = Some st' \<and> gcd_inv (r\<lparr>gphase := (gphase r)(p := None), gst := st'\<rparr>)"
proof -
  obtain y where p: "gphase r p = Some y" "y = GStarted \<or> y = GStopped" "y \<noteq> GCreated" using p by auto
  then obtain S where S: "sources_of (gst r) = Some S" "exact S (gphase r) (g_polls (gst r))" "g_objs (gst r) p = Some GPoll"
    "src_ok S (g_polls (gst r) p) (susp (gp_events (g_polls (gst r) p)) GCD_READABLE) (susp (gp_events (g_polls (gst r) p)) GCD_WRITABLE)"
    using gcd_has [OF I] by blast
  from change_release [OF S(1,3,4)] obtain st1 where 1: "us_poll_change_gcd p (GCD_READABLE OR GCD_WRITABLE) (gst r) = Some st1"
    "g_objs st1 = g_objs (gst r)" "g_polls st1 = (g_polls (gst r))(p := (g_polls (gst r) p)\<lparr>gp_events := GCD_READABLE OR GCD_WRITABLE\<rparr>)"
    "sources_of (gcd_emit (Release (gp_gcd_write (g_polls (gst r) p))) (gcd_emit (Release (gp_gcd_read (g_polls (gst r) p))) st1)) =
      Some (S(gp_gcd_read (g_polls (gst r) p) := None, gp_gcd_write (g_polls (gst r) p) := None))" by blast
  let ?st' = "(gcd_emit (Release (gp_gcd_write (g_polls (gst r) p))) (gcd_emit (Release (gp_gcd_read (g_polls (gst r) p))) st1))
    \<lparr>g_objs := (g_objs (gst r))(p := None)\<rparr>"
  have f: "us_poll_free_gcd p (gst r) = Some ?st'"
    using S(3) by (simp add: us_poll_free_gcd_def 1(1,2,3) rd_gp_def Let_def)
  have E: "exact (S(gp_gcd_read (g_polls (gst r) p) := None, gp_gcd_write (g_polls (gst r) p) := None)) ((gphase r)(p := None)) (g_polls ?st')"
    by (rule exact_gone [OF S(2) p(1,3)]) (simp add: 1(3))
  have "gcd_inv (r\<lparr>gphase := (gphase r)(p := None), gst := ?st'\<rparr>)"
    by (rule gcd_inv_drop [OF I _ E]) (use 1(3,4) in \<open>simp_all del: sources_emit\<close>)
  with f show ?thesis by blast
qed


lemma exact_cong:
  assumes E: "exact S ph ps" and c: "\<And>u s n. slot (ph' u) (ps' u) s n = slot (ph u) (ps u) s n"
    and d: "\<And>u y. ph' u = Some y \<Longrightarrow> y \<noteq> GCreated \<Longrightarrow> ph u \<noteq> None \<and> ph u \<noteq> Some GCreated \<and>
      gp_gcd_read (ps' u) = gp_gcd_read (ps u) \<and> gp_gcd_write (ps' u) = gp_gcd_write (ps u)"
  shows "exact S ph' ps'"
proof -
  have "gp_gcd_read (ps' u) \<noteq> gp_gcd_write (ps' u)" if a: "ph' u = Some y" "y \<noteq> GCreated" for u y
  proof -
    obtain z where "ph u = Some z" "z \<noteq> GCreated" using d [OF a] by auto
    then have "gp_gcd_read (ps u) \<noteq> gp_gcd_write (ps u)" using E unfolding exact_def by blast
    then show ?thesis using d [OF a] by simp
  qed
  then show ?thesis using E unfolding exact_def c by blast
qed

lemma exact_created:
  assumes E: "exact S ph ps" and q: "ph q = None" and o: "\<And>u. u \<noteq> q \<Longrightarrow> ps' u = ps u"
  shows "exact S (ph(q \<mapsto> GCreated)) ps'"
proof (rule exact_cong [OF E])
  show "slot ((ph(q \<mapsto> GCreated)) u) (ps' u) s n = slot (ph u) (ps u) s n" for u s n
    using q o by (cases "u = q") (auto simp: slot_def)
  show "ph u \<noteq> None \<and> ph u \<noteq> Some GCreated \<and> gp_gcd_read (ps' u) = gp_gcd_read (ps u) \<and> gp_gcd_write (ps' u) = gp_gcd_write (ps u)"
    if "(ph(q \<mapsto> GCreated)) u = Some y" "y \<noteq> GCreated" for u y
    using that o by (cases "u = q") auto
qed

lemma gcd_resize_ok:
  assumes G: "gcd_lib_ok G" and I: "gcd_inv r" and p: "gphase r p = Some GStarted"
  shows "\<exists>q st'. us_poll_resize_gcd G p (gst r) = Some (q, st') \<and> gcd_inv (r\<lparr>gphase := (gphase r)(p := None, q \<mapsto> GStarted), gst := st'\<rparr>)"
proof -
  let ?st = "gst r"
  define q where "q = gcd_realloc G ?st p"
  let ?x = "g_polls ?st p"
  obtain S where S: "sources_of ?st = Some S" "exact S (gphase r) (g_polls ?st)" "g_objs ?st p = Some GPoll"
    "src_ok S ?x (susp (gp_events ?x) GCD_READABLE) (susp (gp_events ?x) GCD_WRITABLE)"
    using gcd_has [OF I p] by blast
  show ?thesis
  proof (cases "q = p")
    case True
    then have "us_poll_resize_gcd G p ?st = Some (p, ?st)"
      using S(3) by (simp add: us_poll_resize_gcd_def us_poll_events_gcd_def rd_gp_def Let_def flip: q_def)
    then show ?thesis using I p by (intro exI [of _ p] exI [of _ ?st]) (simp add: fun_upd_idem)
  next
    case False
    have "g_objs ?st q = None" using G gcd_invD(2) [OF I] False unfolding gcd_lib_ok_def q_def by blast
    then have qn: "gphase r q = None" using gcd_invD(1) [OF I, of q] by (cases "gphase r q") auto
    let ?s0 = "?st\<lparr>g_objs := (g_objs ?st)(p := None, q := g_objs ?st p), g_polls := (g_polls ?st)(q := ?x)\<rparr>"
    have 0: "sources_of ?s0 = Some S" "g_objs ?s0 q = Some GPoll" "g_polls ?s0 q = ?x" using S(1,3) by (simp_all add: sources_of_def)
    from change_release [OF 0(1,2), unfolded 0(3), OF S(4)] obtain s1 where 1:
      "us_poll_change_gcd q (GCD_READABLE OR GCD_WRITABLE) ?s0 = Some s1" "g_objs s1 = g_objs ?s0"
      "g_polls s1 = (g_polls ?s0)(q := ?x\<lparr>gp_events := GCD_READABLE OR GCD_WRITABLE\<rparr>)"
      "sources_of (gcd_emit (Release (gp_gcd_write ?x)) (gcd_emit (Release (gp_gcd_read ?x)) s1)) =
        Some (S(gp_gcd_read ?x := None, gp_gcd_write ?x := None))" by blast
    let ?s2 = "gcd_emit (Release (gp_gcd_write ?x)) (gcd_emit (Release (gp_gcd_read ?x)) s1)"
    let ?r2 = "r\<lparr>gphase := (gphase r)(p := None, q \<mapsto> GCreated), gst := ?s2\<rparr>"
    have o: "g_polls ?s2 u = g_polls ?st u" if "u \<noteq> q" for u using that 1(3) by simp
    have "exact (S(gp_gcd_read ?x := None, gp_gcd_write ?x := None)) ((gphase r)(p := None)) (g_polls ?s2)"
    proof (rule exact_gone [OF S(2) p])
      show "g_polls ?s2 u = g_polls ?st u" if "gphase r u \<noteq> None" for u
        by (rule o) (use that qn in auto)
    qed simp
    then have "exact (S(gp_gcd_read ?x := None, gp_gcd_write ?x := None)) ((gphase r)(p := None, q \<mapsto> GCreated)) (g_polls ?s2)"
      by (rule exact_created) (use qn in auto)
    then have E: "\<exists>T. sources_of ?s2 = Some T \<and> exact T ((gphase r)(p := None, q \<mapsto> GCreated)) (g_polls ?s2)"
      unfolding 1(4) by simp
    have I2: "gcd_inv ?r2"
    proof -
      have s: "gst ?r2 = ?s2" "gphase ?r2 = (gphase r)(p := None, q \<mapsto> GCreated)" by simp_all
      show ?thesis unfolding gcd_inv_def s
      proof (intro conjI allI impI)
        show "finite (dom (g_objs ?s2))" using gcd_invD(2) [OF I] 1(2) by simp
        show "g_objs ?s2 u = Some GPoll" if "((gphase r)(p := None, q \<mapsto> GCreated)) u \<noteq> None" for u
          using gcd_invD(1) [OF I, of u] that 1(2) S(3) by (auto split: if_splits)
        show "gp_events (g_polls ?s2 u) = 0" if "((gphase r)(p := None, q \<mapsto> GCreated)) u = Some GStopped" for u
          using gcd_invD(3) [OF I, of u] that o [of u] by (auto split: if_splits)
      qed (rule E)
    qed
    obtain s3 where 3: "us_poll_init_gcd G q (gp_fd ?x) (gp_poll_type ?x AND 3) ?s2 = Some s3"
      "gcd_inv (?r2\<lparr>gphase := (gphase ?r2)(q \<mapsto> GInited), gst := s3\<rparr>)"
      using gcd_init_ok [OF G I2, of q "gp_fd ?x" "gp_poll_type ?x AND 3"] by auto
    obtain s4 where 4: "us_poll_start_gcd q (gp_events ?x) s3 = Some s4"
      "gcd_inv (r\<lparr>gphase := (gphase r)(p := None, q \<mapsto> GStarted), gst := s4\<rparr>)"
      using gcd_start_ok [OF 3(2), of q "gp_events ?x"] by auto
    have "us_poll_resize_gcd G p ?st = Some (q, s4)"
      using S(3) False 1(1,2,3) 3(1) 4(1)
      by (simp add: us_poll_resize_gcd_def us_poll_events_gcd_def us_poll_fd_gcd_def us_internal_poll_type_gcd_def rd_gp_def Let_def flip: q_def)
    with 4(2) show ?thesis by blast
  qed
qed


lemma gcd_create_ok:
  assumes G: "gcd_lib_ok G" and I: "gcd_inv r" and s: "us_create_poll_gcd G (gst r) = (p, st')"
  shows "gcd_inv (r\<lparr>gphase := (gphase r)(p \<mapsto> GCreated), gst := st'\<rparr>)"
proof -
  let ?r = "r\<lparr>gphase := (gphase r)(p \<mapsto> GCreated), gst := st'\<rparr>"
  have st': "st' = (gst r)\<lparr>g_objs := (g_objs (gst r))(p \<mapsto> GPoll)\<rparr>" and p: "p = gcd_malloc G (gst r)"
    using s by (auto simp: us_create_poll_gcd_def Let_def)
  have "g_objs (gst r) p = None" using G gcd_invD(2) [OF I] unfolding gcd_lib_ok_def p by blast
  then have pn: "gphase r p = None" using gcd_invD(1) [OF I, of p] by (cases "gphase r p") auto
  obtain S where S: "sources_of (gst r) = Some S" "exact S (gphase r) (g_polls (gst r))" using I unfolding gcd_inv_def by blast
  have E: "exact S ((gphase r)(p \<mapsto> GCreated)) (g_polls (gst r))" by (rule exact_created [OF S(2) pn]) simp
  have s: "gst ?r = st'" "gphase ?r = (gphase r)(p \<mapsto> GCreated)" by simp_all
  show ?thesis unfolding gcd_inv_def s
  proof (intro conjI allI impI)
    show "\<exists>S. sources_of st' = Some S \<and> exact S ((gphase r)(p \<mapsto> GCreated)) (g_polls st')" using S(1) E by (simp add: st')
    show "finite (dom (g_objs st'))" using gcd_invD(2) [OF I] by (simp add: st')
    show "g_objs st' u = Some GPoll" if "((gphase r)(p \<mapsto> GCreated)) u \<noteq> None" for u
      using gcd_invD(1) [OF I, of u] that by (cases "u = p") (auto simp: st')
    show "gp_events (g_polls st' u) = 0" if "((gphase r)(p \<mapsto> GCreated)) u = Some GStopped" for u
      using gcd_invD(3) [OF I, of u] that by (cases "u = p") (auto simp: st')
  qed
qed

lemma gcd_set_type_ok:
  assumes I: "gcd_inv r" and p: "gphase r p \<noteq> None"
  shows "\<exists>st'. us_internal_poll_set_type_gcd p ty (gst r) = Some st' \<and> gcd_inv (r\<lparr>gst := st'\<rparr>)"
proof -
  let ?st' = "(gst r)\<lparr>g_polls := (g_polls (gst r))(p := (g_polls (gst r) p)\<lparr>gp_poll_type := ty\<rparr>)\<rparr>"
  obtain S where S: "sources_of (gst r) = Some S" "exact S (gphase r) (g_polls (gst r))" using I unfolding gcd_inv_def by blast
  obtain y where y: "gphase r p = Some y" using p by auto
  have E: "exact S (gphase r) (g_polls ?st')"
    by (rule exact_cong [OF S(2)]) (auto simp: slot_def susp_in_def)
  have ev: "gp_events (g_polls ?st' u) = gp_events (g_polls (gst r) u)" for u by simp
  have "gcd_inv (r\<lparr>gphase := (gphase r)(p \<mapsto> y), gst := ?st'\<rparr>)"
  proof (rule gcd_inv_put [OF I p, where S' = S])
    show "exact S ((gphase r)(p \<mapsto> y)) (g_polls ?st')" using E y by (simp add: fun_upd_idem)
    show "y = GStopped \<longrightarrow> gp_events ((g_polls (gst r) p)\<lparr>gp_poll_type := ty\<rparr>) = 0" using gcd_invD(3) [OF I, of p] y by auto
  qed (use S(1) in simp_all)
  then have "gcd_inv (r\<lparr>gst := ?st'\<rparr>)" using y by (simp add: fun_upd_idem)
  moreover have "us_internal_poll_set_type_gcd p ty (gst r) = Some ?st'"
    using gcd_invD(1) [OF I p] by (simp add: us_internal_poll_set_type_gcd_def wr_gp_def)
  ultimately show ?thesis by blast
qed

lemma gcd_inv_step:
  assumes G: "gcd_lib_ok G" and I: "gcd_inv r" and s: "gcd_step G r r'"
  shows "gcd_inv r'"
  using s
proof cases
  case (create p st')
  then show ?thesis using gcd_create_ok [OF G I create(2)] by simp
next
  case (init p fd ty st')
  then show ?thesis using gcd_init_ok [OF G I init(2), of fd ty] by auto
next
  case (set_type p ty st')
  then show ?thesis using gcd_set_type_ok [OF I set_type(2), of ty] by auto
next
  case (start p ev st')
  then show ?thesis using gcd_start_ok [OF I start(2), of ev] by auto
next
  case (change p ev st')
  then show ?thesis using gcd_change_ok [OF I change(2), of ev] by auto
next
  case (stop p st')
  then show ?thesis using gcd_stop_ok [OF I stop(2)] by auto
next
  case (free p st')
  then show ?thesis using gcd_free_ok [OF I free(2)] by auto
next
  case (resize p q st')
  then show ?thesis using gcd_resize_ok [OF G I resize(2)] by auto
qed

lemma gcd_reachable_inv:
  assumes "gcd_reachable G r" and G: "gcd_lib_ok G"
  shows "gcd_inv r"
  using assms(1)
proof induction
  case (empty st)
  then show ?case by (simp add: gcd_inv_def exact_def slot_def sources_of_def)
next
  case (step r r')
  then show ?case using gcd_inv_step [OF G] by blast
qed

section \<open>The theorems\<close>

text \<open>C29. No order of operations on polls ends the process on Grand Central Dispatch: resumes and
  suspends are balanced, no suspended source is released and none is used after its release; and
  the next operation on a poll is defined whatever its phase allows.\<close>

theorem gcd_never_crashes:
  assumes G: "gcd_lib_ok G" and R: "gcd_reachable G r"
  shows "sources_of (gst r) \<noteq> None \<and>
    (gphase r p = Some GCreated \<longrightarrow> us_poll_init_gcd G p fd ty (gst r) \<noteq> None) \<and>
    (gphase r p \<in> {Some GInited, Some GStopped} \<longrightarrow> us_poll_start_gcd p ev (gst r) \<noteq> None) \<and>
    (gphase r p = Some GStarted \<longrightarrow> us_poll_change_gcd p ev (gst r) \<noteq> None \<and> us_poll_stop_gcd p (gst r) \<noteq> None \<and>
       us_poll_resize_gcd G p (gst r) \<noteq> None) \<and>
    (gphase r p \<in> {Some GStarted, Some GStopped} \<longrightarrow> us_poll_free_gcd p (gst r) \<noteq> None)"
proof -
  have I: "gcd_inv r" using gcd_reachable_inv [OF R G] .
  have "sources_of (gst r) \<noteq> None" using I unfolding gcd_inv_def by auto
  then show ?thesis
    using gcd_init_ok [OF G I, of p fd ty] gcd_start_ok [OF I, of p ev] gcd_change_ok [OF I, of p ev] gcd_stop_ok [OF I, of p]
      gcd_resize_ok [OF G I, of p] gcd_free_ok [OF I, of p] by (intro conjI impI) auto
qed

text \<open>C30. A started poll has its read source running exactly when it polls for readable and its
  write source exactly when it polls for writable, and once every poll has been freed every
  source has been released.\<close>

theorem gcd_sources_exact:
  assumes G: "gcd_lib_ok G" and R: "gcd_reachable G r"
  shows "\<exists>S. sources_of (gst r) = Some S \<and>
    (\<forall>p ev. gphase r p = Some GStarted \<longrightarrow> us_poll_events_gcd p (gst r) = Some ev \<longrightarrow>
       S (gp_gcd_read (g_polls (gst r) p)) = Some (if ev AND GCD_READABLE \<noteq> 0 then 0 else 1) \<and>
       S (gp_gcd_write (g_polls (gst r) p)) = Some (if ev AND GCD_WRITABLE \<noteq> 0 then 0 else 1)) \<and>
    (gphase r = Map.empty \<longrightarrow> S = Map.empty)"
proof -
  have I: "gcd_inv r" using gcd_reachable_inv [OF R G] .
  then obtain S where S: "sources_of (gst r) = Some S" "exact S (gphase r) (g_polls (gst r))" unfolding gcd_inv_def by blast
  have "src_ok S (g_polls (gst r) p) (susp ev GCD_READABLE) (susp ev GCD_WRITABLE)"
    if "gphase r p = Some GStarted" "us_poll_events_gcd p (gst r) = Some ev" for p ev
    using exact_src [OF S(2) that(1)] that(2) by (auto simp: us_poll_events_gcd_def rd_gp_def split: if_splits)
  moreover have "S = Map.empty" if "gphase r = Map.empty"
  proof
    fix s show "S s = None" using S(2) that by (cases "S s") (auto simp: exact_def slot_def)
  qed
  ultimately show ?thesis using S(1) by (intro exI [of _ S]) (simp add: src_ok_def susp_def)
qed

section \<open>A concrete run\<close>

definition gcd_lib0 :: gcd_lib where
  "gcd_lib0 = \<lparr>gcd_malloc = \<lambda>st. Suc (Max (insert 0 (dom (g_objs st)))), gcd_realloc = \<lambda>st p. p,
    gcd_new_source = \<lambda>st. case sources_of st of None \<Rightarrow> 0 | Some S \<Rightarrow> Suc (Max (insert 0 (dom S)))\<rparr>"

definition gcd_empty :: gcds where
  "gcd_empty = \<lparr>g_objs = Map.empty, g_polls = \<lambda>_. \<lparr>gp_events = 0, gp_gcd_read = 0, gp_gcd_write = 0, gp_fd = 0, gp_poll_type = 0\<rparr>,
    g_cbs = \<lambda>_. \<lparr>cb_expects_the_loop = False, cb_leave_poll_ready = False, cb_cb = FnNull\<rparr>, g_timer_source = \<lambda>_. 0, g_loop = 9, g_sweep_timer = 0, g_wakeup_async = 0, g_trace = []\<rparr>"

lemma gcd_apply_finite: "gcd_apply e S = Some T \<Longrightarrow> finite (dom S) \<Longrightarrow> finite (dom T)"
  by (cases e) (auto split: option.splits nat.splits if_splits)

lemma sources_finite: "sources_of st = Some S \<Longrightarrow> finite (dom S)"
proof (induction "g_trace st" arbitrary: st S rule: rev_induct)
  case Nil
  then have "S = Map.empty" using Nil.prems by (simp add: sources_of_def flip: Nil.hyps)
  then show ?case by simp
next
  case (snoc e es)
  have e: "sources_of st = Option.bind (sources_of (st\<lparr>g_trace := es\<rparr>)) (gcd_apply e)"
    by (simp add: sources_of_def flip: snoc.hyps(2))
  then obtain T where T: "sources_of (st\<lparr>g_trace := es\<rparr>) = Some T" "gcd_apply e T = Some S"
    using snoc.prems unfolding e by (cases "sources_of (st\<lparr>g_trace := es\<rparr>)") simp_all
  have "finite (dom T)" by (rule snoc.hyps(1) [OF _ T(1)]) simp
  then show ?case using gcd_apply_finite [OF T(2)] by blast
qed

lemma gcd_lib0_ok: "gcd_lib_ok gcd_lib0"
proof -
  have "g_objs st (gcd_malloc gcd_lib0 st) = None" if "finite (dom (g_objs st))" for st
    using Suc_Max_fresh [OF that] by (simp add: gcd_lib0_def)
  moreover have "S (gcd_new_source gcd_lib0 st) = None" if "sources_of st = Some S" for st S
    using Suc_Max_fresh [OF sources_finite [OF that]] that by (simp add: gcd_lib0_def)
  moreover have "gcd_realloc gcd_lib0 st p = p" for st p by (simp add: gcd_lib0_def)
  ultimately show ?thesis unfolding gcd_lib_ok_def by blast
qed

lemma gcd_run_started: "\<exists>st. gcd_reachable gcd_lib0 \<lparr>gphase = Map.empty(1 \<mapsto> GStarted), gst = st\<rparr> \<and>
  us_poll_events_gcd 1 st = Some GCD_READABLE"
proof -
  let ?r0 = "\<lparr>gphase = Map.empty, gst = gcd_empty\<rparr>"
  have R0: "gcd_reachable gcd_lib0 ?r0" by (rule gcd_reachable.empty) (simp_all add: gcd_empty_def)
  obtain st1 where 1: "us_create_poll_gcd gcd_lib0 (gst ?r0) = (1, st1)"
    by (simp add: us_create_poll_gcd_def gcd_lib0_def gcd_empty_def Let_def)
  let ?r1 = "?r0\<lparr>gphase := (gphase ?r0)(1 \<mapsto> GCreated), gst := st1\<rparr>"
  have R1: "gcd_reachable gcd_lib0 ?r1" by (rule gcd_reachable.step [OF R0 gcd_step.create [OF 1]])
  have p1: "gphase ?r1 1 = Some GCreated" by simp
  obtain st2 where 2: "us_poll_init_gcd gcd_lib0 1 5 0 (gst ?r1) = Some st2"
    using gcd_init_ok [OF gcd_lib0_ok gcd_reachable_inv [OF R1 gcd_lib0_ok] p1] by blast
  let ?r2 = "?r1\<lparr>gphase := (gphase ?r1)(1 \<mapsto> GInited), gst := st2\<rparr>"
  have R2: "gcd_reachable gcd_lib0 ?r2" by (rule gcd_reachable.step [OF R1 gcd_step.init [OF p1 2]])
  have p2: "gphase ?r2 1 \<in> {Some GInited, Some GStopped}" by simp
  obtain st3 where 3: "us_poll_start_gcd 1 GCD_READABLE (gst ?r2) = Some st3"
    using gcd_start_ok [OF gcd_reachable_inv [OF R2 gcd_lib0_ok] p2] by blast
  have R3: "gcd_reachable gcd_lib0 (?r2\<lparr>gphase := (gphase ?r2)(1 \<mapsto> GStarted), gst := st3\<rparr>)"
    by (rule gcd_reachable.step [OF R2 gcd_step.start [OF p2 3]])
  have "us_poll_events_gcd 1 st3 = Some GCD_READABLE"
    using 3 by (auto simp: us_poll_start_gcd_def us_poll_events_gcd_def rd_gp_def wr_gp_def Let_def split: bind_splits if_splits)
  with R3 show ?thesis by auto
qed

theorem gcd_never_crashes_witness: "\<exists>st. us_poll_events_gcd 1 st = Some GCD_READABLE \<and> us_poll_free_gcd 1 st \<noteq> None"
proof -
  obtain st where st: "gcd_reachable gcd_lib0 \<lparr>gphase = Map.empty(1 \<mapsto> GStarted), gst = st\<rparr>" "us_poll_events_gcd 1 st = Some GCD_READABLE"
    using gcd_run_started by blast
  from gcd_never_crashes [OF gcd_lib0_ok st(1), of 1] have "us_poll_free_gcd 1 st \<noteq> None" by simp
  with st(2) show ?thesis by blast
qed

theorem gcd_sources_exact_witness: "\<exists>st S. us_poll_events_gcd 1 st = Some GCD_READABLE \<and> sources_of st = Some S \<and>
  S (gp_gcd_read (g_polls st 1)) = Some 0 \<and> S (gp_gcd_write (g_polls st 1)) = Some 1"
proof -
  obtain st where st: "gcd_reachable gcd_lib0 \<lparr>gphase = Map.empty(1 \<mapsto> GStarted), gst = st\<rparr>" "us_poll_events_gcd 1 st = Some GCD_READABLE"
    using gcd_run_started by blast
  have "GCD_READABLE AND GCD_READABLE \<noteq> 0" "GCD_READABLE AND GCD_WRITABLE = 0" by (simp_all add: GCD_READABLE_def GCD_WRITABLE_def)
  then show ?thesis using gcd_sources_exact [OF gcd_lib0_ok st(1)] st(2) by fastforce
qed

end
