(* ===== verification/Us_Quic_Headers.thy ===== *)
theory Us_Quic_Headers
  imports Us_Prelude
begin

text \<open>
  The headers of HTTP/3 in \<open>src/quic.c\<close>, all of it kept in global variables: the headers to be sent
  in one buffer and an array of ten, the headers received in blocks of a pool, and the list of
  protocols of ALPN. A pointer into one of them is the variable with an offset. The code ends the
  process where it gives up.
\<close>

section \<open>The state\<close>

datatype qptr = PHbuf nat | PPool nat nat | PNull

record lsxpack_header =
  hx_buf :: qptr
  hx_name_offset :: nat
  hx_name_len :: nat
  hx_val_offset :: nat
  hx_val_len :: nat

record processed_header =
  ph_name :: "qptr \<times> nat"
  ph_value :: "qptr \<times> nat"
  ph_name_length :: nat
  ph_value_length :: nat

text \<open>
  A block of the pool is what was last built in it: a header set, the count of its headers and
  the array behind it, or a header with the bytes it is decoded to behind it.
\<close>

datatype pool_block = PoolRaw | PoolSet int "nat \<Rightarrow> processed_header" | PoolHeader lsxpack_header "byte list"

record qheaders =
  qh_off :: nat
  qh_buf :: "byte list"
  qh_arr :: "lsxpack_header list"
  qp_pool :: "nat \<Rightarrow> pool_block"
  qp_top :: nat
  qp_last_hset :: "nat option"
  qa_alpn :: "byte list"

definition sizeof_header_buf :: nat where "sizeof_header_buf = 65535"
definition pool_blocks :: nat where "pool_blocks = 1000"
definition pool_block_size :: nat where "pool_block_size = 4096"

text \<open>A \<open>header_set_hd\<close> has four bytes, a \<open>processed_header\<close> twenty-four.\<close>

definition slot_end :: "nat \<Rightarrow> nat" where "slot_end i = 4 + 24 * (i + 1)"

definition write_at :: "nat \<Rightarrow> byte list \<Rightarrow> byte list \<Rightarrow> byte list" where
  "write_at n xs m = take n m @ xs @ drop (n + length xs) m"

section \<open>Headers to send\<close>

definition header_set_ptr :: "lsxpack_header \<Rightarrow> byte list \<Rightarrow> byte list \<Rightarrow> 'a qheaders_scheme \<Rightarrow>
    int \<times> lsxpack_header \<times> 'a qheaders_scheme" where
  "header_set_ptr hdr name val st =
     (if qh_off st + length name + length val \<le> sizeof_header_buf
      then let b = write_at (qh_off st) name (qh_buf st);
               b = write_at (qh_off st + length name) val b;
               hdr = \<lparr>hx_buf = PHbuf (qh_off st), hx_name_offset = 0, hx_name_len = length name,
                 hx_val_offset = length name, hx_val_len = length val\<rparr>
           in (0, hdr, st\<lparr>qh_buf := b, qh_off := qh_off st + (length name + length val)\<rparr>)
      else (-1, hdr, st))"

definition us_quic_socket_context_set_header :: "int \<Rightarrow> byte list \<Rightarrow> byte list \<Rightarrow> 'a qheaders_scheme \<Rightarrow> perr + 'a qheaders_scheme" where
  "us_quic_socket_context_set_header index key val st =
     (if index < 0 \<or> index \<ge> int (length (qh_arr st)) then Inl Undefined
      else let (r, hdr, st) = header_set_ptr (qh_arr st ! nat index) key val st
           in if r \<noteq> 0 then Inl Exits else Inr (st\<lparr>qh_arr := (qh_arr st)[nat index := hdr]\<rparr>))"

section \<open>Headers received\<close>

definition take_block :: "'a qheaders_scheme \<Rightarrow> perr + nat \<times> 'a qheaders_scheme" where
  "take_block st = (if qp_top st = pool_blocks then Inl Exits else Inr (qp_top st, st\<lparr>qp_top := qp_top st + 1\<rparr>))"

definition leave_all :: "'a qheaders_scheme \<Rightarrow> 'a qheaders_scheme" where
  "leave_all st = st\<lparr>qp_top := 0\<rparr>"

definition set_block :: "nat \<Rightarrow> pool_block \<Rightarrow> 'a qheaders_scheme \<Rightarrow> 'a qheaders_scheme" where
  "set_block k b st = st\<lparr>qp_pool := (qp_pool st)(k := b)\<rparr>"

text \<open>The array behind a new set keeps whatever the block held.\<close>

definition old_slots :: "pool_block \<Rightarrow> nat \<Rightarrow> processed_header" where
  "old_slots b = (case b of PoolSet _ f \<Rightarrow> f | _ \<Rightarrow> (\<lambda>_. \<lparr>ph_name = (PNull, 0), ph_value = (PNull, 0), ph_name_length = 0, ph_value_length = 0\<rparr>))"

definition hsi_create_header_set :: "'a qheaders_scheme \<Rightarrow> perr + nat \<times> 'a qheaders_scheme" where
  "hsi_create_header_set st = ebind (take_block st) (\<lambda>(k, st). Inr (k, set_block k (PoolSet 0 (old_slots (qp_pool st k))) st))"

definition hsi_discard_header_set :: "nat \<Rightarrow> 'a qheaders_scheme \<Rightarrow> 'a qheaders_scheme" where
  "hsi_discard_header_set hset st = st"

text \<open>
  \<open>n\<close> is \<open>sizeof (struct lsxpack_header)\<close>, which lsquic defines. A new header has its buffer
  behind it in the same block, and \<open>space\<close> bytes for its value.
\<close>

definition hsi_prepare_decode :: "nat \<Rightarrow> nat option \<Rightarrow> nat \<Rightarrow> 'a qheaders_scheme \<Rightarrow> perr + nat \<times> 'a qheaders_scheme" where
  "hsi_prepare_decode n hdr space st = (case hdr of
     None \<Rightarrow> ebind (take_block st) (\<lambda>(k, st). Inr (k, set_block k (PoolHeader
         \<lparr>hx_buf = PPool k n, hx_name_offset = 0, hx_name_len = 0, hx_val_offset = 0, hx_val_len = space\<rparr> []) st))
   | Some k \<Rightarrow>
       if space > pool_block_size - n then Inl Exits
       else case qp_pool st k of
         PoolHeader h bs \<Rightarrow> Inr (k, set_block k (PoolHeader (h\<lparr>hx_val_len := space\<rparr>) bs) st)
       | _ \<Rightarrow> Inl Undefined)"

definition hsi_process_header :: "nat \<Rightarrow> nat option \<Rightarrow> 'a qheaders_scheme \<Rightarrow> perr + 'a qheaders_scheme" where
  "hsi_process_header hdr_set hdr st = (case hdr of
     None \<Rightarrow> Inr (st\<lparr>qp_last_hset := Some hdr_set\<rparr>)
   | Some b \<Rightarrow> (case (qp_pool st hdr_set, qp_pool st b) of
       (PoolSet off slots, PoolHeader h bs) \<Rightarrow>
         if off < 0 \<or> slot_end (nat off) > pool_block_size then Inl Undefined
         else let x = \<lparr>ph_name = (hx_buf h, hx_name_offset h), ph_value = (hx_buf h, hx_val_offset h),
                ph_name_length = hx_name_len h, ph_value_length = hx_val_len h\<rparr>
              in Inr (set_block hdr_set (PoolSet (off + 1) (slots(nat off := x))) st)
     | _ \<Rightarrow> Inl Undefined))"

text \<open>The lookup is in the set that was finished last, whichever stream it belongs to.\<close>

definition us_quic_socket_context_get_header :: "int \<Rightarrow> 'a qheaders_scheme \<Rightarrow> perr + processed_header option" where
  "us_quic_socket_context_get_header index st = (case qp_last_hset st of
     None \<Rightarrow> Inl Undefined
   | Some k \<Rightarrow> (case qp_pool st k of
       PoolSet off slots \<Rightarrow>
         if index < off then if index < 0 then Inl Undefined else Inr (Some (slots (nat index))) else Inr None
     | _ \<Rightarrow> Inl Undefined))"

section \<open>ALPN\<close>

text \<open>The 256 bytes of \<open>s_alpn\<close> are a C string; its length is the one of \<open>strlen\<close>.\<close>

definition strlen_bytes :: "byte list \<Rightarrow> nat" where
  "strlen_bytes m = length (takeWhile (\<lambda>b. b \<noteq> 0) m)"

definition add_alpn :: "byte list \<Rightarrow> 'a qheaders_scheme \<Rightarrow> int \<times> 'a qheaders_scheme" where
  "add_alpn alpn st = (
     let alpn_len = length alpn
     in if alpn_len > 255 then (-1, st) else
     let all_len = strlen_bytes (qa_alpn st)
     in if all_len + 1 + alpn_len + 1 > length (qa_alpn st) then (-1, st)
     else let m = (qa_alpn st)[all_len := word_of_nat alpn_len];
              m = write_at (all_len + 1) alpn m;
              m = m[all_len + 1 + alpn_len := 0]
          in (0, st\<lparr>qa_alpn := m\<rparr>))"


section \<open>Setting headers\<close>

text \<open>The headers of one message, set one after the other.\<close>

fun set_headers :: "(int \<times> byte list \<times> byte list) list \<Rightarrow> 'a qheaders_scheme \<Rightarrow> perr + 'a qheaders_scheme" where
  "set_headers [] st = Inr st"
| "set_headers ((i, k, v) # hs) st = ebind (us_quic_socket_context_set_header i k v st) (set_headers hs)"

lemma set_headers_snoc:
  "set_headers (hs @ [(i, k, v)]) st = ebind (set_headers hs st) (us_quic_socket_context_set_header i k v)"
proof (induction hs arbitrary: st)
  case Nil
  show ?case by (cases "us_quic_socket_context_set_header i k v st") simp_all
next
  case (Cons h hs)
  obtain a b c where h: "h = (a, b, c)" by (cases h)
  show ?case unfolding h by (cases "us_quic_socket_context_set_header a b c st") (simp_all add: Cons.IH)
qed

definition header_bytes :: "(int \<times> byte list \<times> byte list) list \<Rightarrow> nat" where
  "header_bytes hs = sum_list (map (\<lambda>(i, k, v). length k + length v) hs)"

text \<open>What lsquic reads at a header of the array.\<close>

definition header_at :: "lsxpack_header \<Rightarrow> nat \<Rightarrow> byte list \<Rightarrow> byte list \<times> byte list" where
  "header_at h off m = (take (hx_name_len h) (drop (off + hx_name_offset h) m), take (hx_val_len h) (drop (off + hx_val_offset h) m))"

definition reads_as :: "'a qheaders_scheme \<Rightarrow> int \<Rightarrow> byte list \<Rightarrow> byte list \<Rightarrow> bool" where
  "reads_as st i k v \<longleftrightarrow> (\<exists>off. hx_buf (qh_arr st ! nat i) = PHbuf off \<and>
     off + hx_val_offset (qh_arr st ! nat i) + hx_val_len (qh_arr st ! nat i) \<le> qh_off st \<and>
     off + hx_name_offset (qh_arr st ! nat i) + hx_name_len (qh_arr st ! nat i) \<le> qh_off st \<and>
     header_at (qh_arr st ! nat i) off (qh_buf st) = (k, v))"

lemma length_write_at: "n + length xs \<le> length m \<Longrightarrow> length (write_at n xs m) = length m"
  by (simp add: write_at_def)

lemma write_at_before: "b \<le> n \<Longrightarrow> n \<le> length m \<Longrightarrow> take (b - a) (drop a (write_at n xs m)) = take (b - a) (drop a m)"
proof -
  assume b: "b \<le> n" "n \<le> length m"
  have "take b (write_at n xs m) = take b m" using b by (simp add: write_at_def)
  then have "drop a (take b (write_at n xs m)) = drop a (take b m)" by simp
  then show ?thesis by (simp add: drop_take)
qed

lemma write_at_same: "n \<le> length m \<Longrightarrow> take (length xs) (drop n (write_at n xs m)) = xs"
  by (simp add: write_at_def)

lemma take_drop_eq: "n + l \<le> (b::nat) \<Longrightarrow> b \<le> n' \<Longrightarrow> n' \<le> length m \<Longrightarrow> take l (drop n (write_at n' xs m)) = take l (drop n m)"
  using write_at_before [of "n + l" n' m n xs] by simp

lemma set_header_ok:
  assumes i: "0 \<le> i" "i < int (length (qh_arr st))" and l: "length (qh_buf st) = sizeof_header_buf"
    and o: "qh_off st + length k + length v \<le> sizeof_header_buf"
  shows "\<exists>st'. us_quic_socket_context_set_header i k v st = Inr st' \<and> length (qh_buf st') = sizeof_header_buf \<and>
    qh_off st' = qh_off st + (length k + length v) \<and> length (qh_arr st') = length (qh_arr st) \<and> reads_as st' i k v \<and>
    (\<forall>j k' v'. reads_as st j k' v' \<longrightarrow> 0 \<le> j \<longrightarrow> j \<noteq> i \<longrightarrow> reads_as st' j k' v')"
proof -
  let ?hdr = "\<lparr>hx_buf = PHbuf (qh_off st), hx_name_offset = 0, hx_name_len = length k, hx_val_offset = length k, hx_val_len = length v\<rparr>"
  let ?m = "write_at (qh_off st + length k) v (write_at (qh_off st) k (qh_buf st))"
  let ?st' = "st\<lparr>qh_buf := ?m, qh_off := qh_off st + (length k + length v), qh_arr := (qh_arr st)[nat i := ?hdr]\<rparr>"
  have e: "us_quic_socket_context_set_header i k v st = Inr ?st'"
    using i o by (simp add: us_quic_socket_context_set_header_def header_set_ptr_def Let_def)
  have n: "nat i < length (qh_arr st)" using i by simp
  have w1: "length (write_at (qh_off st) k (qh_buf st)) = sizeof_header_buf" using l o by (simp add: length_write_at)
  have w2: "length ?m = sizeof_header_buf" using w1 o by (simp add: length_write_at)
  have name: "take (length k) (drop (qh_off st) ?m) = k"
    using take_drop_eq [of "qh_off st" "length k" "qh_off st + length k" "qh_off st + length k" "write_at (qh_off st) k (qh_buf st)" v]
      write_at_same [of "qh_off st" "qh_buf st" k] w1 l o by simp
  have val: "take (length v) (drop (qh_off st + length k) ?m) = v"
    by (rule write_at_same) (use w1 o in simp)
  have here: "reads_as ?st' i k v"
    unfolding reads_as_def header_at_def using n name val by (intro exI [of _ "qh_off st"]) simp
  have there: "reads_as ?st' j k' v'" if r: "reads_as st j k' v'" "0 \<le> j" "j \<noteq> i" for j k' v'
  proof -
    have ne: "nat j \<noteq> nat i" using r i by auto
    obtain off where off: "hx_buf (qh_arr st ! nat j) = PHbuf off"
      "off + hx_val_offset (qh_arr st ! nat j) + hx_val_len (qh_arr st ! nat j) \<le> qh_off st"
      "off + hx_name_offset (qh_arr st ! nat j) + hx_name_len (qh_arr st ! nat j) \<le> qh_off st"
      "header_at (qh_arr st ! nat j) off (qh_buf st) = (k', v')" using r(1) unfolding reads_as_def by blast
    have keep: "take len (drop s ?m) = take len (drop s (qh_buf st))" if "s + len \<le> qh_off st" for s len
    proof -
      have "take len (drop s ?m) = take len (drop s (write_at (qh_off st) k (qh_buf st)))"
        by (rule take_drop_eq [OF that]) (use w1 o in simp_all)
      also have "\<dots> = take len (drop s (qh_buf st))" by (rule take_drop_eq [OF that]) (use l o in simp_all)
      finally show ?thesis .
    qed
    show ?thesis unfolding reads_as_def
      using off keep ne by (intro exI [of _ off]) (simp add: header_at_def)
  qed
  show ?thesis using e w2 here there by (intro exI [of _ ?st']) simp
qed

text \<open>Which header was set last at an index.\<close>

definition last_at :: "(int \<times> byte list \<times> byte list) list \<Rightarrow> int \<Rightarrow> (byte list \<times> byte list) option" where
  "last_at hs i = map_of (rev hs) i"

lemma set_headers_inv:
  assumes "qh_off st = 0" and "length (qh_buf st) = sizeof_header_buf" and "length (qh_arr st) = 10"
  shows "((\<exists>st'. set_headers hs st = Inr st') \<longleftrightarrow> (\<forall>(i, k, v)\<in>set hs. 0 \<le> i \<and> i < 10) \<and> header_bytes hs \<le> sizeof_header_buf) \<and>
    (\<forall>st'. set_headers hs st = Inr st' \<longrightarrow> length (qh_buf st') = sizeof_header_buf \<and> qh_off st' = header_bytes hs \<and>
       length (qh_arr st') = 10 \<and> (\<forall>i k v. last_at hs i = Some (k, v) \<longrightarrow> reads_as st' i k v))"
proof (induction hs rule: rev_induct)
  case Nil
  then show ?case using assms by (simp add: header_bytes_def last_at_def sizeof_header_buf_def)
next
  case (snoc h hs)
  obtain i k v where h: "h = (i, k, v)" by (cases h)
  have hb: "header_bytes (hs @ [h]) = header_bytes hs + (length k + length v)" by (simp add: header_bytes_def h)
  show ?case
  proof (cases "set_headers hs st")
    case (Inl e)
    then have "\<not> ((\<forall>(i, k, v)\<in>set hs. 0 \<le> i \<and> i < 10) \<and> header_bytes hs \<le> sizeof_header_buf)" using snoc by auto
    then show ?thesis using Inl hb by (auto simp: h set_headers_snoc)
  next
    case (Inr st1)
    then have I: "(\<forall>(i, k, v)\<in>set hs. 0 \<le> i \<and> i < 10)" "length (qh_buf st1) = sizeof_header_buf" "qh_off st1 = header_bytes hs"
      "length (qh_arr st1) = 10" "\<And>i k v. last_at hs i = Some (k, v) \<Longrightarrow> reads_as st1 i k v" using snoc by auto
    have s: "set_headers (hs @ [h]) st = us_quic_socket_context_set_header i k v st1" using Inr by (simp add: h set_headers_snoc)
    have la: "last_at (hs @ [h]) j = (if j = i then Some (k, v) else last_at hs j)" for j by (simp add: last_at_def h)
    show ?thesis
    proof (cases "0 \<le> i \<and> i < 10 \<and> header_bytes hs + (length k + length v) \<le> sizeof_header_buf")
      case True
      then have p: "0 \<le> i" "i < int (length (qh_arr st1))" "qh_off st1 + length k + length v \<le> sizeof_header_buf" using I by auto
      obtain st' where st': "us_quic_socket_context_set_header i k v st1 = Inr st'" "length (qh_buf st') = sizeof_header_buf"
        "qh_off st' = qh_off st1 + (length k + length v)" "length (qh_arr st') = length (qh_arr st1)" "reads_as st' i k v"
        "\<And>j k' v'. reads_as st1 j k' v' \<Longrightarrow> 0 \<le> j \<Longrightarrow> j \<noteq> i \<Longrightarrow> reads_as st' j k' v'"
        using set_header_ok [OF p(1,2) I(2) p(3)] by blast
      have r: "reads_as st' j k' v'" if "last_at (hs @ [h]) j = Some (k', v')" for j k' v'
      proof (cases "j = i")
        case True
        then show ?thesis using that st'(5) by (simp add: la)
      next
        case False
        then have "last_at hs j = Some (k', v')" using that by (simp add: la)
        moreover from this have "0 \<le> j" using I(1) unfolding last_at_def by (fastforce dest: map_of_SomeD)
        ultimately show ?thesis using st'(6) I(5) False by blast
      qed
      have ex: "(\<forall>(i, k, v)\<in>set (hs @ [h]). 0 \<le> i \<and> i < 10) \<and> header_bytes (hs @ [h]) \<le> sizeof_header_buf"
        using True I(1) hb by (auto simp: h)
      show ?thesis unfolding s st'(1) using ex st'(2,3,4) r I(3,4) hb by simp
    next
      case False
      then have "us_quic_socket_context_set_header i k v st1 = Inl Undefined \<or> us_quic_socket_context_set_header i k v st1 = Inl Exits"
        using I by (auto simp: us_quic_socket_context_set_header_def header_set_ptr_def)
      moreover have "\<not> ((\<forall>(i, k, v)\<in>set (hs @ [h]). 0 \<le> i \<and> i < 10) \<and> header_bytes (hs @ [h]) \<le> sizeof_header_buf)"
        using False hb by (auto simp: h)
      ultimately show ?thesis unfolding s by auto
    qed
  qed
qed

text \<open>C31. Setting the headers of a message succeeds exactly when every index is below ten and the
  names and values fit into 65535 bytes; then what lsquic reads at each index is the name and the
  value that were set there last: no header overlaps another.\<close>

theorem set_headers_roundtrip:
  assumes "qh_off st = 0" and "length (qh_buf st) = sizeof_header_buf" and "length (qh_arr st) = 10"
  shows "((\<exists>st'. set_headers hs st = Inr st') \<longleftrightarrow> (\<forall>(i, k, v)\<in>set hs. 0 \<le> i \<and> i < 10) \<and> header_bytes hs \<le> sizeof_header_buf) \<and>
    (\<forall>st' i k v. set_headers hs st = Inr st' \<longrightarrow> last_at hs i = Some (k, v) \<longrightarrow> reads_as st' i k v)"
  using set_headers_inv [OF assms] by blast


theorem set_headers_roundtrip_witness:
  "\<exists>(st :: qheaders) st'. set_headers [(0, [58, 115], [50, 48, 48]), (1, [97], [98, 99])] st = Inr st' \<and>
    reads_as st' 0 [58, 115] [50, 48, 48] \<and> reads_as st' 1 [97] [98, 99]"
proof -
  let ?h = "\<lparr>hx_buf = PNull, hx_name_offset = 0, hx_name_len = 0, hx_val_offset = 0, hx_val_len = 0\<rparr>"
  let ?st = "\<lparr>qh_off = 0, qh_buf = replicate sizeof_header_buf 0, qh_arr = replicate 10 ?h, qp_pool = \<lambda>_. PoolRaw, qp_top = 0,
    qp_last_hset = None, qa_alpn = replicate 256 0\<rparr>"
  let ?hs = "[(0, [58, 115], [50, 48, 48]), (1, [97], [98, 99])] :: (int \<times> byte list \<times> byte list) list"
  have R: "((\<exists>st'. set_headers ?hs ?st = Inr st') \<longleftrightarrow> (\<forall>(i, k, v)\<in>set ?hs. 0 \<le> i \<and> i < 10) \<and> header_bytes ?hs \<le> sizeof_header_buf) \<and>
    (\<forall>st' i k v. set_headers ?hs ?st = Inr st' \<longrightarrow> last_at ?hs i = Some (k, v) \<longrightarrow> reads_as st' i k v)"
    by (rule set_headers_roundtrip) simp_all
  then obtain st' where "set_headers ?hs ?st = Inr st'" by (auto simp: header_bytes_def sizeof_header_buf_def)
  moreover have "last_at ?hs 0 = Some ([58, 115], [50, 48, 48])" "last_at ?hs 1 = Some ([97], [98, 99])" by (simp_all add: last_at_def)
  ultimately show ?thesis using R by blast
qed

section \<open>Receiving headers\<close>

text \<open>
  How lsquic decodes one header set: for every header it prepares a block for it, fills in the
  header (\<open>f\<close>) and its bytes, and hands it over; then it ends the set.
\<close>

fun decode_headers :: "nat \<Rightarrow> nat \<Rightarrow> (nat \<times> (lsxpack_header \<Rightarrow> lsxpack_header) \<times> byte list) list \<Rightarrow>
    'a qheaders_scheme \<Rightarrow> perr + 'a qheaders_scheme" where
  "decode_headers n k [] st = hsi_process_header k None st"
| "decode_headers n k ((space, f, bs) # ds) st = ebind (hsi_prepare_decode n None space st) (\<lambda>(b, st).
     case qp_pool st b of
       PoolHeader h _ \<Rightarrow> ebind (hsi_process_header k (Some b) (set_block b (PoolHeader (f h) bs) st)) (decode_headers n k ds)
     | _ \<Rightarrow> Inl Undefined)"

definition decoded :: "nat \<Rightarrow> nat \<Rightarrow> nat \<times> (lsxpack_header \<Rightarrow> lsxpack_header) \<times> byte list \<Rightarrow> processed_header" where
  "decoded n b d = (case d of (space, f, bs) \<Rightarrow>
     let h = f \<lparr>hx_buf = PPool b n, hx_name_offset = 0, hx_name_len = 0, hx_val_offset = 0, hx_val_len = space\<rparr>
     in \<lparr>ph_name = (hx_buf h, hx_name_offset h), ph_value = (hx_buf h, hx_val_offset h),
          ph_name_length = hx_name_len h, ph_value_length = hx_val_len h\<rparr>)"

lemma decode_step:
  assumes k: "k < qp_top st" and p: "qp_pool st k = PoolSet (int i) slots" and t: "qp_top st < pool_blocks" and i: "i < 170"
  shows "decode_headers n k (d # ds) st = decode_headers n k ds
    (st\<lparr>qp_top := qp_top st + 1, qp_pool := (qp_pool st)(qp_top st := PoolHeader
       (fst (snd d) \<lparr>hx_buf = PPool (qp_top st) n, hx_name_offset = 0, hx_name_len = 0, hx_val_offset = 0, hx_val_len = fst d\<rparr>) (snd (snd d)),
       k := PoolSet (int (Suc i)) (slots(i := decoded n (qp_top st) d)))\<rparr>)"
  using assms by (cases d) (simp add: hsi_prepare_decode_def take_block_def set_block_def hsi_process_header_def
      slot_end_def pool_block_size_def decoded_def Let_def fun_upd_twist add.commute)

lemma decode_full:
  assumes k: "k < qp_top st" and p: "qp_pool st k = PoolSet (int i) slots" and t: "qp_top st < pool_blocks" and i: "170 \<le> i"
  shows "decode_headers n k (d # ds) st = Inl Undefined"
  using assms by (cases d) (auto simp: hsi_prepare_decode_def take_block_def set_block_def hsi_process_header_def
      slot_end_def pool_block_size_def)

lemma decode_ok:
  "k < qp_top st \<Longrightarrow> qp_pool st k = PoolSet (int i) slots \<Longrightarrow> qp_top st + length ds \<le> pool_blocks \<Longrightarrow> i + length ds \<le> 170 \<Longrightarrow>
   \<exists>st'. decode_headers n k ds st = Inr st' \<and> qp_last_hset st' = Some k \<and> qp_top st' = qp_top st + length ds \<and>
     (\<exists>slots'. qp_pool st' k = PoolSet (int (i + length ds)) slots' \<and> (\<forall>j<i. slots' j = slots j) \<and>
       (\<forall>j<length ds. slots' (i + j) = decoded n (qp_top st + j) (ds ! j)))"
proof (induction ds arbitrary: st i slots)
  case Nil
  then show ?case by (simp add: hsi_process_header_def)
next
  case (Cons d ds)
  let ?st = "st\<lparr>qp_top := qp_top st + 1, qp_pool := (qp_pool st)(qp_top st := PoolHeader
       (fst (snd d) \<lparr>hx_buf = PPool (qp_top st) n, hx_name_offset = 0, hx_name_len = 0, hx_val_offset = 0, hx_val_len = fst d\<rparr>) (snd (snd d)),
       k := PoolSet (int (Suc i)) (slots(i := decoded n (qp_top st) d)))\<rparr>"
  have e: "decode_headers n k (d # ds) st = decode_headers n k ds ?st"
    by (rule decode_step) (use Cons.prems in simp_all)
  have q: "k < qp_top ?st" "qp_pool ?st k = PoolSet (int (Suc i)) (slots(i := decoded n (qp_top st) d))"
    "qp_top ?st + length ds \<le> pool_blocks" "Suc i + length ds \<le> 170" using Cons.prems by simp_all
  from Cons.IH [OF q] obtain st' slots' where IH: "decode_headers n k ds ?st = Inr st'" "qp_last_hset st' = Some k" "qp_top st' = qp_top ?st + length ds"
    "qp_pool st' k = PoolSet (int (Suc i + length ds)) slots'" "\<forall>j<Suc i. slots' j = (slots(i := decoded n (qp_top st) d)) j"
    "\<forall>j<length ds. slots' (Suc i + j) = decoded n (qp_top ?st + j) (ds ! j)" by blast
  have a: "slots' j = slots j" if "j < i" for j using IH(5) that by simp
  have b: "slots' (i + j) = decoded n (qp_top st + j) ((d # ds) ! j)" if "j < length (d # ds)" for j
    using IH(5,6) that by (cases j) simp_all
  have "qp_pool st' k = PoolSet (int (i + length (d # ds))) slots'" using IH(4) by simp
  then show ?case unfolding e using IH(1-3) a b by (intro exI [of _ st'] conjI exI [of _ slots']) simp_all
qed

lemma decode_overflow:
  "k < qp_top st \<Longrightarrow> qp_pool st k = PoolSet (int i) slots \<Longrightarrow> qp_top st + length ds \<le> pool_blocks \<Longrightarrow> 170 < i + length ds \<Longrightarrow> i \<le> 170 \<Longrightarrow>
   decode_headers n k ds st = Inl Undefined"
proof (induction ds arbitrary: st i slots)
  case (Cons d ds)
  show ?case
  proof (cases "i < 170")
    case True
    then show ?thesis
      by (subst decode_step, use Cons.prems in simp_all) (rule Cons.IH [of _ "Suc i"], use Cons.prems in simp_all)
  next
    case False
    then show ?thesis using decode_full [OF Cons.prems(1,2)] Cons.prems by simp
  qed
qed simp




section \<open>The list of protocols\<close>

text \<open>The wire format of ALPN: every name behind its length.\<close>

definition alpn_encode :: "byte list list \<Rightarrow> byte list" where
  "alpn_encode names = concat (map (\<lambda>a. word_of_nat (length a) # a) names)"

function alpn_parse :: "byte list \<Rightarrow> byte list list" where
  "alpn_parse [] = []"
| "alpn_parse (n # m) = take (unat n) m # alpn_parse (drop (unat n) m)"
  by pat_completeness auto
termination by (relation "measure length") auto

definition alpn_name :: "byte list \<Rightarrow> bool" where
  "alpn_name a \<longleftrightarrow> a \<noteq> [] \<and> length a \<le> 255 \<and> 0 \<notin> set a"

definition c_string :: "byte list \<Rightarrow> byte list" where
  "c_string m = takeWhile (\<lambda>b. b \<noteq> 0) m"

lemma alpn_len: "length a \<le> 255 \<Longrightarrow> unat (word_of_nat (length a) :: byte) = length a"
  by (simp add: unat_of_nat take_bit_nat_eq_self)

lemma alpn_parse_encode: "\<forall>a\<in>set names. length a \<le> 255 \<Longrightarrow> alpn_parse (alpn_encode names) = names"
  by (induction names) (simp_all add: alpn_encode_def alpn_len)

lemma alpn_len_nonzero: "alpn_name a \<Longrightarrow> (word_of_nat (length a) :: byte) \<noteq> 0"
  using alpn_len [of a] by (auto simp: alpn_name_def)

lemma alpn_encode_nonzero: "\<forall>a\<in>set names. alpn_name a \<Longrightarrow> 0 \<notin> set (alpn_encode names)"
  using alpn_len_nonzero by (induction names) (auto simp: alpn_encode_def alpn_name_def)

lemma c_string_append: "0 \<notin> set xs \<Longrightarrow> c_string (xs @ 0 # ys) = xs"
  by (induction xs) (auto simp: c_string_def)

lemma add_alpn_ok:
  assumes m: "qa_alpn st = xs @ 0 # ys" "0 \<notin> set xs" and a: "alpn_name a" and room: "length xs + 1 + length a + 1 \<le> length (qa_alpn st)"
  shows "\<exists>zs. add_alpn a st = (0, st\<lparr>qa_alpn := (xs @ word_of_nat (length a) # a) @ 0 # zs\<rparr>) \<and>
    length ((xs @ word_of_nat (length a) # a) @ 0 # zs) = length (qa_alpn st)"
proof -
  have s: "strlen_bytes (qa_alpn st) = length xs" using c_string_append [OF m(2), of ys] by (simp add: strlen_bytes_def c_string_def m(1))
  have y: "Suc (length a) \<le> length ys" "length a \<le> 255" using room m(1) a by (simp_all add: alpn_name_def)
  let ?m1 = "xs @ word_of_nat (length a) # ys"
  have w: "write_at (length xs + 1) a ?m1 = xs @ word_of_nat (length a) # a @ drop (length a) ys"
    by (simp add: write_at_def)
  obtain z zs where z: "drop (length a) ys = z # zs" using y(1) by (cases "drop (length a) ys") auto
  have u: "(xs @ word_of_nat (length a) # a @ z # zs)[length xs + 1 + length a := 0] = (xs @ word_of_nat (length a) # a) @ 0 # zs"
    by (simp add: list_update_append)
  have "add_alpn a st = (0, st\<lparr>qa_alpn := (xs @ word_of_nat (length a) # a) @ 0 # zs\<rparr>)"
    using room y(2) s by (simp add: add_alpn_def Let_def m(1) w [simplified] z u [simplified] list_update_append)
  moreover have "length ys = length a + length (z # zs)" using y(1) unfolding z [symmetric] by simp
  ultimately show ?thesis by (intro exI [of _ zs]) (simp add: m(1))
qed

definition add_all :: "byte list list \<Rightarrow> 'a qheaders_scheme \<Rightarrow> 'a qheaders_scheme" where
  "add_all names st = fold (\<lambda>a st. snd (add_alpn a st)) names st"

text \<open>The protocols added to the ALPN list are read back in order from its wire format, as long
  as they fit into its 256 bytes; one that does not fit is refused and leaves the list as it is.\<close>

theorem add_alpn_roundtrip:
  assumes e: "qa_alpn st = replicate 256 0" and n: "\<forall>a\<in>set names. alpn_name a" and l: "length (alpn_encode names) \<le> 255"
  shows "alpn_parse (c_string (qa_alpn (add_all names st))) = names \<and>
    (\<forall>a. alpn_name a \<longrightarrow> length (alpn_encode (names @ [a])) > 255 \<longrightarrow> add_alpn a (add_all names st) = (-1, add_all names st))"
proof -
  have "\<exists>zs. qa_alpn (add_all names st) = alpn_encode names @ 0 # zs \<and> length (alpn_encode names @ 0 # zs) = 256"
    using n l
  proof (induction names rule: rev_induct)
    case Nil
    show ?case using e by (intro exI [of _ "replicate 255 0"]) (simp add: add_all_def alpn_encode_def numeral_eq_Suc)
  next
    case (snoc a names)
    have enc: "alpn_encode (names @ [a]) = alpn_encode names @ word_of_nat (length a) # a" by (simp add: alpn_encode_def)
    obtain zs where z: "qa_alpn (add_all names st) = alpn_encode names @ 0 # zs" "length (alpn_encode names @ 0 # zs) = 256"
      using snoc enc by auto
    have 0: "0 \<notin> set (alpn_encode names)" by (rule alpn_encode_nonzero) (use snoc.prems in simp)
    have "\<exists>zs'. add_alpn a (add_all names st) = (0, (add_all names st)\<lparr>qa_alpn := (alpn_encode names @ word_of_nat (length a) # a) @ 0 # zs'\<rparr>) \<and>
        length ((alpn_encode names @ word_of_nat (length a) # a) @ 0 # zs') = length (qa_alpn (add_all names st))"
      by (rule add_alpn_ok [OF z(1) 0]) (use snoc.prems z enc in auto)
    then show ?case using z by (auto simp: add_all_def enc)
  qed
  then obtain zs where z: "qa_alpn (add_all names st) = alpn_encode names @ 0 # zs" "length (alpn_encode names @ 0 # zs) = 256" by blast
  have c: "c_string (qa_alpn (add_all names st)) = alpn_encode names" unfolding z(1) by (rule c_string_append [OF alpn_encode_nonzero [OF n]])
  have "\<forall>a\<in>set names. length a \<le> 255" using n by (auto simp: alpn_name_def)
  moreover have "add_alpn a (add_all names st) = (-1, add_all names st)"
    if "alpn_name a" "length (alpn_encode (names @ [a])) > 255" for a
  proof -
    have "strlen_bytes (qa_alpn (add_all names st)) = length (alpn_encode names)" using c by (simp add: strlen_bytes_def c_string_def)
    then show ?thesis using that z by (simp add: add_alpn_def Let_def alpn_encode_def)
  qed
  ultimately show ?thesis unfolding c using alpn_parse_encode by blast
qed

theorem add_alpn_roundtrip_witness:
  "alpn_parse (c_string (qa_alpn (add_all [[104, 51], [104, 51, 45, 50, 57]]
     \<lparr>qh_off = 0, qh_buf = [], qh_arr = [], qp_pool = \<lambda>_. PoolRaw, qp_top = 0, qp_last_hset = None, qa_alpn = replicate 256 0\<rparr>))) =
   [[104, 51], [104, 51, 45, 50, 57]]"
  by (rule conjunct1 [OF add_alpn_roundtrip]) (simp_all add: alpn_name_def alpn_encode_def)

end
