(* ===== verification/Us_Quic.thy ===== *)
theory Us_Quic
  imports Us_Udp Us_Quic_Headers
begin

text \<open>
  QUIC sockets and streams, the rest of \<open>src/quic.c\<close>: socket contexts over the UDP sockets of
  \<open>Us_Udp\<close> and the library lsquic, which keeps the connections and the streams. lsquic is a
  parameter: \<open>lq_call\<close> is what a call of it does, the callbacks it makes included, \<open>lq_ret\<close> what
  it returned. What the code prints is left out.
\<close>

section \<open>The state\<close>

record us_quic_socket_context_options_t =
  qo_cert_file_name :: string
  qo_key_file_name :: string
  qo_passphrase :: string

record us_quic_socket_context_s =
  qc_recv_buf :: addr
  qc_engine :: addr
  qc_client_engine :: addr
  qc_options :: us_quic_socket_context_options_t
  qc_on_stream_data :: fnptr
  qc_on_stream_end :: fnptr
  qc_on_stream_headers :: fnptr
  qc_on_stream_open :: fnptr
  qc_on_stream_close :: fnptr
  qc_on_stream_writable :: fnptr
  qc_on_open :: fnptr
  qc_on_close :: fnptr

text \<open>The address of a packet: a \<open>sockaddr_in\<close> or a \<open>sockaddr_in6\<close>, the port as it was given to \<open>htons\<close>.\<close>

datatype sockaddr = SockIn int "byte list" | SockIn6 int "byte list"

record qmsghdr =
  qm_name :: sockaddr
  qm_namelen :: nat
  qm_iov :: "byte list list"

text \<open>
  The calls of lsquic, of \<open>sendmmsg\<close> on a descriptor, of OpenSSL, and of the user's handlers. A
  packet's payload and the address of its peer are pointers into the receive buffer. \<open>SendRet\<close> notes
  what a \<open>sendmmsg\<close> of a run returned.
\<close>

datatype quser =
    UserStreamData addr "byte list" int | UserStreamEnd addr | UserStreamHeaders addr | UserStreamOpen addr bool
  | UserStreamWritable addr | UserConnOpen addr bool | UserConnClose addr

datatype qtls = QCtxNew addr | QCtxOption addr string | QCtxFile addr string string | QSetCtx addr addr | QSetName addr string

datatype qcall =
    GlobalInit | EngineNew bool addr bool | ProcessConns addr | SendUnsent addr
  | PacketIn addr addr int sockaddr addr addr
  | EngineConnect addr sockaddr sockaddr addr addr
  | MakeStream addr | WantRead addr bool | WantWrite addr bool
  | SetCtx addr addr | SendHeaders addr "lsxpack_header list" bool
  | GetHset addr | StreamRead addr nat | StreamWrite addr "byte list" | StreamShutdown addr int | StreamClose addr
  | SendRun int "qmsghdr list" | SendRet int "qmsghdr list" int
  | Tls qtls | User quser

text \<open>
  The global variables of the headers come first. \<open>q_exts\<close> are the blocks of the streams'
  extensions. A context whose pointers \<open>malloc\<close> left as they were has the fields it finds.
\<close>

record quic = qheaders +
  q_us :: us
  q_udp :: udp_part
  q_ctxs :: "addr \<Rightarrow> us_quic_socket_context_s option"
  q_global_engine :: addr
  q_global_client_engine :: addr
  q_old_ctx :: addr
  q_exts :: "addr \<Rightarrow> string option"
  q_errno :: int
  q_calls :: "qcall list"

record lsquic =
  lq_call :: "qcall \<Rightarrow> quic \<Rightarrow> perr + quic"
  lq_ret :: "quic \<Rightarrow> int"
  lq_addr :: "quic \<Rightarrow> addr"
  lq_data :: "quic \<Rightarrow> byte list"
  lq_malloc :: "quic \<Rightarrow> addr"
  lq_new_context :: "quic \<Rightarrow> addr \<times> us_quic_socket_context_s"
  lq_conn_engine :: "quic \<Rightarrow> addr \<Rightarrow> addr"
  lq_conn_ctx :: "quic \<Rightarrow> addr \<Rightarrow> addr"
  lq_stream_conn :: "quic \<Rightarrow> addr \<Rightarrow> addr"
  lq_stream_ctx :: "quic \<Rightarrow> addr \<Rightarrow> addr"
  lq_select :: "byte list \<Rightarrow> byte list \<Rightarrow> byte list option"
  lq_servername :: "quic \<Rightarrow> addr \<Rightarrow> string option"
  lq_handler :: "fnptr \<Rightarrow> quser \<Rightarrow> quic \<Rightarrow> perr + quic"

definition q_emit :: "qcall \<Rightarrow> quic \<Rightarrow> quic" where
  "q_emit c st = st\<lparr>q_calls := q_calls st @ [c]\<rparr>"

definition q_lib :: "lsquic \<Rightarrow> qcall \<Rightarrow> quic \<Rightarrow> perr + quic" where
  "q_lib L c st = lq_call L c (q_emit c st)"

text \<open>A handler that was never set is a call through a null pointer.\<close>

definition q_user :: "lsquic \<Rightarrow> fnptr \<Rightarrow> quser \<Rightarrow> quic \<Rightarrow> perr + quic" where
  "q_user L f c st = (if f = FnNull then Inl Undefined else lq_handler L f c (q_emit (User c) st))"

definition rd_qctx :: "addr \<Rightarrow> quic \<Rightarrow> perr + us_quic_socket_context_s" where
  "rd_qctx a st = esome (q_ctxs st a)"

definition wr_qctx :: "addr \<Rightarrow> (us_quic_socket_context_s \<Rightarrow> us_quic_socket_context_s) \<Rightarrow> quic \<Rightarrow> perr + quic" where
  "wr_qctx a f st = ebind (rd_qctx a st) (\<lambda>c. Inr (st\<lparr>q_ctxs := (q_ctxs st)(a \<mapsto> f c)\<rparr>))"

definition EAGAIN :: int where "EAGAIN = 11"

section \<open>Setters\<close>

definition us_quic_socket_context_on_stream_data :: "addr \<Rightarrow> fnptr \<Rightarrow> quic \<Rightarrow> perr + quic" where
  "us_quic_socket_context_on_stream_data context f = wr_qctx context (\<lambda>c. c\<lparr>qc_on_stream_data := f\<rparr>)"

definition us_quic_socket_context_on_stream_end :: "addr \<Rightarrow> fnptr \<Rightarrow> quic \<Rightarrow> perr + quic" where
  "us_quic_socket_context_on_stream_end context f = wr_qctx context (\<lambda>c. c\<lparr>qc_on_stream_end := f\<rparr>)"

definition us_quic_socket_context_on_stream_headers :: "addr \<Rightarrow> fnptr \<Rightarrow> quic \<Rightarrow> perr + quic" where
  "us_quic_socket_context_on_stream_headers context f = wr_qctx context (\<lambda>c. c\<lparr>qc_on_stream_headers := f\<rparr>)"

definition us_quic_socket_context_on_stream_open :: "addr \<Rightarrow> fnptr \<Rightarrow> quic \<Rightarrow> perr + quic" where
  "us_quic_socket_context_on_stream_open context f = wr_qctx context (\<lambda>c. c\<lparr>qc_on_stream_open := f\<rparr>)"

definition us_quic_socket_context_on_stream_close :: "addr \<Rightarrow> fnptr \<Rightarrow> quic \<Rightarrow> perr + quic" where
  "us_quic_socket_context_on_stream_close context f = wr_qctx context (\<lambda>c. c\<lparr>qc_on_stream_close := f\<rparr>)"

definition us_quic_socket_context_on_open :: "addr \<Rightarrow> fnptr \<Rightarrow> quic \<Rightarrow> perr + quic" where
  "us_quic_socket_context_on_open context f = wr_qctx context (\<lambda>c. c\<lparr>qc_on_open := f\<rparr>)"

definition us_quic_socket_context_on_close :: "addr \<Rightarrow> fnptr \<Rightarrow> quic \<Rightarrow> perr + quic" where
  "us_quic_socket_context_on_close context f = wr_qctx context (\<lambda>c. c\<lparr>qc_on_close := f\<rparr>)"

definition us_quic_socket_context_on_stream_writable :: "addr \<Rightarrow> fnptr \<Rightarrow> quic \<Rightarrow> perr + quic" where
  "us_quic_socket_context_on_stream_writable context f = wr_qctx context (\<lambda>c. c\<lparr>qc_on_stream_writable := f\<rparr>)"

section \<open>Packets in\<close>

definition q_udp_user :: "addr \<Rightarrow> quic \<Rightarrow> perr + addr" where
  "q_udp_user s st = esome (us_udp_socket_user s (q_us st, q_udp st))"

definition on_udp_socket_writable :: "lsquic \<Rightarrow> addr \<Rightarrow> quic \<Rightarrow> perr + quic" where
  "on_udp_socket_writable L s st =
     ebind (q_udp_user s st) (\<lambda>context.
     ebind (rd_qctx context st) (\<lambda>c. q_lib L (SendUnsent (qc_engine c)) st))"

definition local_sockaddr :: "int \<Rightarrow> byte list \<Rightarrow> int \<Rightarrow> sockaddr" where
  "local_sockaddr ip_length ip port = (if ip_length = 16 then SockIn6 port ip else SockIn port (take 4 ip))"

text \<open>One turn of the loop over the packets of the buffer, towards the given engine of the context.\<close>

definition feed_packet :: "lsquic \<Rightarrow> (us_quic_socket_context_s \<Rightarrow> addr) \<Rightarrow> addr \<Rightarrow> addr \<Rightarrow> addr \<Rightarrow> nat \<Rightarrow> quic \<Rightarrow> perr + quic" where
  "feed_packet L engine context s buf i st =
     (if i \<ge> length (bufs (q_udp st) buf) then Inl Undefined else
      let payload = us_udp_packet_buffer_payload buf i (q_udp st);
          len = us_udp_packet_buffer_payload_length buf i (q_udp st);
          peer_addr = us_udp_packet_buffer_peer buf i (q_udp st);
          (ip_length, ip) = us_udp_packet_buffer_local_ip buf i (q_udp st)
      in if ip_length = 0 then Inl Exits else
      ebind (esome (us_udp_socket_bound_port s (q_us st, q_udp st))) (\<lambda>port.
      ebind (rd_qctx context st) (\<lambda>c.
      q_lib L (PacketIn (engine c) payload len (local_sockaddr ip_length ip port) peer_addr s) st)))"

fun feed_packets :: "lsquic \<Rightarrow> (us_quic_socket_context_s \<Rightarrow> addr) \<Rightarrow> addr \<Rightarrow> addr \<Rightarrow> addr \<Rightarrow> nat list \<Rightarrow> quic \<Rightarrow> perr + quic" where
  "feed_packets L engine context s buf [] st = Inr st"
| "feed_packets L engine context s buf (i # is) st =
     ebind (feed_packet L engine context s buf i st) (feed_packets L engine context s buf is)"

definition on_udp_socket_data_client :: "lsquic \<Rightarrow> addr \<Rightarrow> addr \<Rightarrow> int \<Rightarrow> quic \<Rightarrow> perr + quic" where
  "on_udp_socket_data_client L s buf packets st =
     ebind (q_udp_user s st) (\<lambda>context.
     ebind (feed_packets L qc_client_engine context s buf [0..<nat packets] st) (\<lambda>st.
     ebind (rd_qctx context st) (\<lambda>c. q_lib L (ProcessConns (qc_client_engine c)) st)))"

definition on_udp_socket_data :: "lsquic \<Rightarrow> addr \<Rightarrow> addr \<Rightarrow> int \<Rightarrow> quic \<Rightarrow> perr + quic" where
  "on_udp_socket_data L s buf packets st =
     ebind (q_udp_user s st) (\<lambda>context.
     ebind (rd_qctx context st) (\<lambda>c.
     ebind (q_lib L (ProcessConns (qc_engine c)) st) (\<lambda>st.
     ebind (feed_packets L qc_engine context s buf [0..<nat packets] st) (\<lambda>st.
     ebind (rd_qctx context st) (\<lambda>c. q_lib L (ProcessConns (qc_engine c)) st)))))"


section \<open>Packets out\<close>

record lsquic_out_spec =
  os_iov :: "byte list list"
  os_dest_sa :: sockaddr
  os_peer_ctx :: addr

definition UIO_MAXIOV :: nat where "UIO_MAXIOV = 1024"

definition out_header :: "lsquic_out_spec \<Rightarrow> qmsghdr" where
  "out_header sp = \<lparr>qm_name = os_dest_sa sp,
     qm_namelen = (case os_dest_sa sp of SockIn _ _ \<Rightarrow> 16 | SockIn6 _ _ \<Rightarrow> 28), qm_iov = os_iov sp\<rparr>"

definition send_run :: "lsquic \<Rightarrow> addr \<Rightarrow> qmsghdr list \<Rightarrow> quic \<Rightarrow> perr + int \<times> quic" where
  "send_run L last_socket run st =
     ebind (esome (us_poll_fd last_socket (q_us st))) (\<lambda>fd.
     ebind (q_lib L (SendRun fd run) st) (\<lambda>st.
     Inr (lq_ret L st, q_emit (SendRet fd run (lq_ret L st)) st)))"

fun send_loop :: "lsquic \<Rightarrow> nat \<Rightarrow> lsquic_out_spec list \<Rightarrow> qmsghdr list \<Rightarrow> addr \<Rightarrow> int \<Rightarrow> quic \<Rightarrow> perr + int \<times> quic" where
  "send_loop L n [] run last_socket sent st =
     (if run \<noteq> [] then
        ebind (send_run L last_socket run st) (\<lambda>(ret, st).
        if ret = -1 then Inr (sent, st)
        else let st = (if sent + ret \<noteq> int n then st\<lparr>q_errno := EAGAIN\<rparr> else st) in Inr (sent + ret, st))
      else Inr (int n, st))"
| "send_loop L n (sp # specs) run last_socket sent st =
     (if length run = UIO_MAXIOV \<or> os_peer_ctx sp \<noteq> last_socket then
        ebind (send_run L last_socket run st) (\<lambda>(ret, st).
        if ret \<noteq> int (length run) then
          if ret = -1 then Inr (sent, st) else Inr (sent + ret, st\<lparr>q_errno := EAGAIN\<rparr>)
        else send_loop L n specs [out_header sp] (os_peer_ctx sp) (sent + ret) st)
      else send_loop L n specs (run @ [out_header sp]) last_socket sent st)"

text \<open>The array must not be empty: its first element is read before the loop.\<close>

definition send_packets_out :: "lsquic \<Rightarrow> lsquic_out_spec list \<Rightarrow> quic \<Rightarrow> perr + int \<times> quic" where
  "send_packets_out L specs st = (case specs of
     [] \<Rightarrow> Inl Undefined
   | sp # _ \<Rightarrow> send_loop L (length specs) specs [] (os_peer_ctx sp) 0 st)"

section \<open>Connections and streams\<close>

definition on_new_conn :: "lsquic \<Rightarrow> addr \<Rightarrow> addr \<Rightarrow> quic \<Rightarrow> perr + addr \<times> quic" where
  "on_new_conn L context c st =
     ebind (rd_qctx context st) (\<lambda>x.
     let is_client = (lq_conn_engine L st c = qc_client_engine x) in
     ebind (q_user L (qc_on_open x) (UserConnOpen c is_client) st) (\<lambda>st. Inr (context, st)))"

definition us_quic_socket_create_stream :: "lsquic \<Rightarrow> addr \<Rightarrow> quic \<Rightarrow> perr + quic" where
  "us_quic_socket_create_stream L s = q_lib L (MakeStream s)"

definition on_conn_closed :: "lsquic \<Rightarrow> addr \<Rightarrow> quic \<Rightarrow> perr + quic" where
  "on_conn_closed L c st =
     ebind (rd_qctx (lq_conn_ctx L st c) st) (\<lambda>x. q_user L (qc_on_close x) (UserConnClose c) st)"

definition on_new_stream :: "lsquic \<Rightarrow> addr \<Rightarrow> addr \<Rightarrow> quic \<Rightarrow> perr + addr \<times> quic" where
  "on_new_stream L context s st =
     ebind (q_lib L (WantRead s True) st) (\<lambda>st.
     let ext = lq_malloc L st;
         st = st\<lparr>q_exts := (q_exts st)(ext \<mapsto> ''Hello I am ext!'')\<rparr> in
     ebind (rd_qctx context st) (\<lambda>x.
     let is_client = (lq_conn_engine L st (lq_stream_conn L st s) = qc_client_engine x) in
     ebind (q_lib L (SetCtx s ext) st) (\<lambda>st.
     ebind (rd_qctx context st) (\<lambda>x.
     ebind (q_user L (qc_on_stream_open x) (UserStreamOpen s is_client) st) (\<lambda>st. Inr (ext, st))))))"

text \<open>The headers to send are the first of the array, which has ten; the last argument asks for the end of the stream.\<close>

definition us_quic_socket_context_send_headers :: "lsquic \<Rightarrow> addr \<Rightarrow> int \<Rightarrow> bool \<Rightarrow> quic \<Rightarrow> perr + quic" where
  "us_quic_socket_context_send_headers L s num has_body st =
     (if num < 0 \<or> num > int (length (qh_arr st)) then Inl Undefined else
      ebind (q_lib L (SendHeaders s (take (nat num) (qh_arr st)) (\<not> has_body)) st) (\<lambda>st.
      if lq_ret L st \<noteq> 0 then Inl Exits else Inr (st\<lparr>qh_off := 0\<rparr>)))"

definition us_quic_stream_is_client :: "lsquic \<Rightarrow> addr \<Rightarrow> quic \<Rightarrow> perr + bool" where
  "us_quic_stream_is_client L s st =
     ebind (rd_qctx (lq_conn_ctx L st (lq_stream_conn L st s)) st) (\<lambda>x.
     Inr (lq_conn_engine L st (lq_stream_conn L st s) = qc_client_engine x))"

definition us_quic_stream_socket :: "lsquic \<Rightarrow> addr \<Rightarrow> quic \<Rightarrow> addr" where
  "us_quic_stream_socket L s st = lq_stream_conn L st s"

text \<open>The code behind the first \<open>return\<close> of \<open>on_read\<close> never runs. The buffer is 4096 zero bytes before the read.\<close>

definition read_size :: nat where "read_size = 4096"

definition on_read :: "lsquic \<Rightarrow> addr \<Rightarrow> quic \<Rightarrow> perr + quic" where
  "on_read L s st = (
     let context = lq_conn_ctx L st (lq_stream_conn L st s) in
     ebind (q_lib L (GetHset s) st) (\<lambda>st.
     ebind (if lq_addr L st \<noteq> NULL
            then ebind (rd_qctx context st) (\<lambda>x.
                 ebind (q_user L (qc_on_stream_headers x) (UserStreamHeaders s) st) (\<lambda>st. Inr (leave_all st)))
            else Inr st) (\<lambda>st.
     ebind (q_lib L (StreamRead s read_size) st) (\<lambda>st.
     let temp = lq_data L st @ replicate (read_size - length (lq_data L st)) 0;
         nr = lq_ret L st in
     if nr = 0 then
       ebind (q_lib L (WantRead s False) st) (\<lambda>st.
       ebind (rd_qctx context st) (\<lambda>x. q_user L (qc_on_stream_end x) (UserStreamEnd s) st))
     else if nr = -1 then
       if q_errno st \<noteq> EWOULDBLOCK then Inl Exits else Inr st
     else ebind (rd_qctx context st) (\<lambda>x. q_user L (qc_on_stream_data x) (UserStreamData s temp nr) st)))))"

definition us_quic_stream_write :: "lsquic \<Rightarrow> addr \<Rightarrow> byte list \<Rightarrow> quic \<Rightarrow> perr + int \<times> quic" where
  "us_quic_stream_write L s data st =
     ebind (q_lib L (StreamWrite s data) st) (\<lambda>st.
     let ret = lq_ret L st in
     ebind (q_lib L (WantWrite s (ret \<noteq> int (length data))) st) (\<lambda>st. Inr (ret, st)))"

definition on_write :: "lsquic \<Rightarrow> addr \<Rightarrow> quic \<Rightarrow> perr + quic" where
  "on_write L s st =
     ebind (rd_qctx (lq_conn_ctx L st (lq_stream_conn L st s)) st) (\<lambda>x.
     q_user L (qc_on_stream_writable x) (UserStreamWritable s) st)"

definition on_stream_close :: "addr \<Rightarrow> quic \<Rightarrow> quic" where
  "on_stream_close s st = st"

definition us_quic_stream_shutdown_read :: "lsquic \<Rightarrow> addr \<Rightarrow> quic \<Rightarrow> perr + int \<times> quic" where
  "us_quic_stream_shutdown_read L s st =
     ebind (q_lib L (StreamShutdown s 0) st) (\<lambda>st. if lq_ret L st \<noteq> 0 then Inl Exits else Inr (0, st))"

definition us_quic_stream_ext :: "lsquic \<Rightarrow> addr \<Rightarrow> quic \<Rightarrow> addr" where
  "us_quic_stream_ext L s st = lq_stream_ctx L st s"

definition us_quic_stream_close :: "lsquic \<Rightarrow> addr \<Rightarrow> quic \<Rightarrow> perr + quic" where
  "us_quic_stream_close L s st =
     ebind (q_lib L (StreamClose s) st) (\<lambda>st. if lq_ret L st \<noteq> 0 then Inl Exits else Inr st)"

definition us_quic_stream_shutdown :: "lsquic \<Rightarrow> addr \<Rightarrow> quic \<Rightarrow> perr + int \<times> quic" where
  "us_quic_stream_shutdown L s st =
     ebind (q_lib L (StreamShutdown s 1) st) (\<lambda>st. if lq_ret L st \<noteq> 0 then Inl Exits else Inr (0, st))"

definition us_quic_socket_context :: "lsquic \<Rightarrow> addr \<Rightarrow> quic \<Rightarrow> addr" where
  "us_quic_socket_context L s st = lq_conn_ctx L st s"


section \<open>TLS\<close>

definition SSL_TLSEXT_ERR_OK :: int where "SSL_TLSEXT_ERR_OK = 0"
definition SSL_TLSEXT_ERR_ALERT_FATAL :: int where "SSL_TLSEXT_ERR_ALERT_FATAL = 2"

definition select_alpn :: "lsquic \<Rightarrow> byte list \<Rightarrow> quic \<Rightarrow> int \<times> byte list option" where
  "select_alpn L inp st = (
     let r = lq_select L inp (take (strlen_bytes (qa_alpn st)) (qa_alpn st))
     in (if r \<noteq> None then SSL_TLSEXT_ERR_OK else SSL_TLSEXT_ERR_ALERT_FATAL, r))"

definition server_name_cb :: "lsquic \<Rightarrow> addr \<Rightarrow> quic \<Rightarrow> perr + int \<times> quic" where
  "server_name_cb L s st =
     ebind (q_lib L (Tls (QSetCtx s (q_old_ctx st))) st) (\<lambda>st.
     ebind (if lq_servername L st s = None then q_lib L (Tls (QSetName s ''YOLO NAME!'')) st else Inr st) (\<lambda>st.
     Inr (SSL_TLSEXT_ERR_OK, st)))"

fun q_libs :: "lsquic \<Rightarrow> qcall list \<Rightarrow> quic \<Rightarrow> perr + quic" where
  "q_libs L [] st = Inr st"
| "q_libs L (c # cs) st = ebind (q_lib L c st) (q_libs L cs)"

text \<open>The results of loading the certificate and the key are only printed.\<close>

definition get_ssl_ctx :: "lsquic \<Rightarrow> addr \<Rightarrow> quic \<Rightarrow> perr + addr \<times> quic" where
  "get_ssl_ctx L peer_ctx st =
     ebind (q_udp_user peer_ctx st) (\<lambda>context.
     if q_old_ctx st \<noteq> NULL then Inr (q_old_ctx st, st) else
     ebind (rd_qctx context st) (\<lambda>x.
     let ctx = lq_addr L st;
         st = (q_emit (Tls (QCtxNew ctx)) st)\<lparr>q_old_ctx := ctx\<rparr> in
     if ctx = NULL then Inl Undefined else
     ebind (q_libs L (map Tls [QCtxOption ctx ''min_proto_version TLS1_3'', QCtxOption ctx ''max_proto_version TLS1_3'',
        QCtxOption ctx ''alpn_select_cb'', QCtxOption ctx ''tlsext_servername_callback'',
        QCtxFile ctx ''use_certificate_chain_file'' (qo_cert_file_name (qc_options x)),
        QCtxFile ctx ''use_PrivateKey_file'' (qo_key_file_name (qc_options x))]) st) (\<lambda>st.
     Inr (ctx, st))))"

definition sni_lookup :: "quic \<Rightarrow> addr" where
  "sni_lookup st = q_old_ctx st"

section \<open>Contexts\<close>

definition timer_cb_quic :: "lsquic \<Rightarrow> quic \<Rightarrow> perr + quic" where
  "timer_cb_quic L st =
     ebind (q_lib L (ProcessConns (q_global_engine st)) st) (\<lambda>st.
     ebind (q_lib L (ProcessConns (q_global_client_engine st)) st) (\<lambda>st.
     ebind (q_lib L (SendUnsent (q_global_engine st)) st) (\<lambda>st.
     q_lib L (SendUnsent (q_global_client_engine st)) st)))"

text \<open>
  \<open>EngineNew\<close> carries the mode, the context the callbacks get, and whether \<open>ea_get_ssl_ctx\<close> and
  \<open>ea_lookup_cert\<close> are given. The block of the context keeps what it held, the handlers too.
\<close>

definition us_create_quic_socket_context ::
  "lsquic \<Rightarrow> kernel \<Rightarrow> udp_env \<Rightarrow> us_quic_socket_context_options_t \<Rightarrow> quic \<Rightarrow> perr + addr \<times> quic" where
  "us_create_quic_socket_context L K E options st = (
     let (context, c) = lq_new_context L st;
         (b, u) = us_create_udp_packet_buffer E (q_us st, q_udp st);
         c = c\<lparr>qc_options := options, qc_recv_buf := b\<rparr>;
         st = st\<lparr>q_udp := u, q_ctxs := (q_ctxs st)(context \<mapsto> c)\<rparr> in
     ebind (q_lib L GlobalInit st) (\<lambda>st.
     if lq_ret L st \<noteq> 0 then Inl Exits else
     let (_, st) = add_alpn [104, 51] st in
     ebind (q_lib L (EngineNew True context True) st) (\<lambda>st.
     ebind (wr_qctx context (\<lambda>c. c\<lparr>qc_engine := lq_addr L st\<rparr>) st) (\<lambda>st.
     ebind (q_lib L (EngineNew False context False) st) (\<lambda>st.
     ebind (wr_qctx context (\<lambda>c. c\<lparr>qc_client_engine := lq_addr L st\<rparr>) st) (\<lambda>st.
     ebind (esome (us_create_timer K False (q_us st))) (\<lambda>(t, s).
     ebind (esome (us_timer_set t FnQuicTimer 50 50 s)) (\<lambda>s.
     let st = st\<lparr>q_us := s\<rparr> in
     ebind (rd_qctx context st) (\<lambda>c.
     Inr (context, st\<lparr>q_global_engine := qc_engine c, q_global_client_engine := qc_client_engine c\<rparr>))))))))))"

definition us_quic_socket_context_listen ::
  "kernel \<Rightarrow> udp_env \<Rightarrow> addr \<Rightarrow> string option \<Rightarrow> int \<Rightarrow> quic \<Rightarrow> perr + addr \<times> quic" where
  "us_quic_socket_context_listen K E context host port st =
     ebind (esome (us_create_udp_socket K E NULL FnQuicData FnQuicWritable host (word_of_int port) context (q_us st, q_udp st))) (\<lambda>(p, s, u).
     Inr (p, st\<lparr>q_us := s, q_udp := u\<rparr>))"

text \<open>Host and port are ignored: the peer is always port 9004 of \<open>::1\<close>.\<close>

definition loopback6 :: "byte list" where "loopback6 = replicate 15 0 @ [1]"

definition us_quic_socket_context_connect ::
  "lsquic \<Rightarrow> kernel \<Rightarrow> udp_env \<Rightarrow> addr \<Rightarrow> string option \<Rightarrow> int \<Rightarrow> quic \<Rightarrow> perr + addr \<times> quic" where
  "us_quic_socket_context_connect L K E context host port st = (
     let peer = SockIn6 9004 loopback6 in
     ebind (esome (us_create_udp_socket K E NULL FnQuicDataClient FnQuicWritable None 0 context (q_us st, q_udp st))) (\<lambda>(udp_socket, s, u).
     let st = st\<lparr>q_us := s, q_udp := u\<rparr> in
     ebind (esome (us_udp_socket_bound_port udp_socket (q_us st, q_udp st))) (\<lambda>ephemeral.
     ebind (rd_qctx context st) (\<lambda>c.
     ebind (q_lib L (EngineConnect (qc_client_engine c) (SockIn6 ephemeral loopback6) peer udp_socket udp_socket) st) (\<lambda>st.
     let client = lq_addr L st in
     ebind (rd_qctx context st) (\<lambda>c.
     ebind (q_lib L (ProcessConns (qc_client_engine c)) st) (\<lambda>st. Inr (client, st))))))))"

end
