(* ===== verification/Us_Quic_Props.thy ===== *)
theory Us_Quic_Props
  imports Us_Quic
begin

text \<open>
  What holds of the packets of QUIC, in and out, and of the certificates.
\<close>

section \<open>Properties of sending\<close>

text \<open>
  What is relied on of \<open>sendmmsg\<close>: it returns, with -1 or the number of messages it took, and
  leaves the state of the program alone but for \<open>errno\<close>.
\<close>

definition sends_ok :: "lsquic \<Rightarrow> bool" where
  "sends_ok L \<longleftrightarrow> (\<forall>fd hs st. \<exists>st'. lq_call L (SendRun fd hs) st = Inr st' \<and> q_us st' = q_us st \<and>
     q_calls st' = q_calls st \<and> -1 \<le> lq_ret L st' \<and> lq_ret L st' \<le> int (length hs))"

text \<open>The datagrams the kernel took, with the descriptor each went to.\<close>

definition accepted :: "qcall list \<Rightarrow> (int \<times> qmsghdr) list" where
  "accepted cs = concat (map (\<lambda>c. case c of SendRet fd hs r \<Rightarrow> map (Pair fd) (take (nat r) hs) | _ \<Rightarrow> []) cs)"

definition fd_at :: "quic \<Rightarrow> addr \<Rightarrow> int" where
  "fd_at st a = (case us_poll_fd a (q_us st) of None \<Rightarrow> -1 | Some fd \<Rightarrow> fd)"

definition datagram :: "quic \<Rightarrow> lsquic_out_spec \<Rightarrow> int \<times> qmsghdr" where
  "datagram st sp = (fd_at st (os_peer_ctx sp), out_header sp)"

definition has_fd :: "quic \<Rightarrow> addr \<Rightarrow> bool" where
  "has_fd st a \<longleftrightarrow> us_poll_fd a (q_us st) \<noteq> None"

definition runs_ok :: "qcall list \<Rightarrow> bool" where
  "runs_ok cs \<longleftrightarrow> (\<forall>fd hs. SendRun fd hs \<in> set cs \<longrightarrow> hs \<noteq> [] \<and> length hs \<le> UIO_MAXIOV)"

definition refused :: "qcall list \<Rightarrow> bool" where
  "refused cs \<longleftrightarrow> (\<exists>fd hs k. SendRet fd hs k \<in> set cs \<and> k < int (length hs))"

lemma call_views_append [simp]:
  "accepted (xs @ ys) = accepted xs @ accepted ys" "runs_ok (xs @ ys) \<longleftrightarrow> runs_ok xs \<and> runs_ok ys"
  "refused (xs @ ys) \<longleftrightarrow> refused xs \<or> refused ys"
  by (auto simp: accepted_def runs_ok_def refused_def)

lemma send_run_ok:
  assumes L: "sends_ok L" and l: "has_fd st sk" and run: "run \<noteq> []" "length run \<le> UIO_MAXIOV"
  obtains k st' new where "send_run L sk run st = Inr (k, st')" "q_us st' = q_us st" "q_calls st' = q_calls st @ new"
    "accepted new = map (Pair (fd_at st sk)) (take (nat k) run)" "runs_ok new" "-1 \<le> k" "k \<le> int (length run)"
    "refused new \<longleftrightarrow> k < int (length run)"
proof -
  obtain fd where fd: "us_poll_fd sk (q_us st) = Some fd" using l by (auto simp: has_fd_def)
  obtain st1 where "lq_call L (SendRun fd run) (q_emit (SendRun fd run) st) = Inr st1 \<and> q_us st1 = q_us (q_emit (SendRun fd run) st) \<and>
    q_calls st1 = q_calls (q_emit (SendRun fd run) st) \<and> -1 \<le> lq_ret L st1 \<and> lq_ret L st1 \<le> int (length run)"
    using L unfolding sends_ok_def by blast
  then have s: "lq_call L (SendRun fd run) (q_emit (SendRun fd run) st) = Inr st1" "q_us st1 = q_us st"
    "q_calls st1 = q_calls st @ [SendRun fd run]" "-1 \<le> lq_ret L st1" "lq_ret L st1 \<le> int (length run)"
    by (simp_all add: q_emit_def)
  show thesis
  proof (rule that)
    show "send_run L sk run st = Inr (lq_ret L st1, q_emit (SendRet fd run (lq_ret L st1)) st1)"
      by (simp add: send_run_def fd q_lib_def s(1))
    show "q_calls (q_emit (SendRet fd run (lq_ret L st1)) st1) = q_calls st @ [SendRun fd run, SendRet fd run (lq_ret L st1)]"
      by (simp add: q_emit_def s(3))
  qed (use s(2,4,5) run fd in \<open>auto simp: q_emit_def accepted_def runs_ok_def refused_def fd_at_def\<close>)
qed

definition sent_ok :: "quic \<Rightarrow> int \<Rightarrow> (int \<times> qmsghdr) list \<Rightarrow> int \<times> quic \<Rightarrow> bool" where
  "sent_ok st sent xs res \<longleftrightarrow> (case res of (r, st') \<Rightarrow> \<exists>new. q_us st' = q_us st \<and> q_calls st' = q_calls st @ new \<and>
     sent \<le> r \<and> r \<le> sent + int (length xs) \<and> accepted new = take (nat (r - sent)) xs \<and> runs_ok new \<and>
     (refused new \<longleftrightarrow> r < sent + int (length xs)))"

lemma sent_okI:
  assumes "q_us st' = q_us st" "q_calls st' = q_calls st @ new" "sent \<le> r" "r \<le> sent + int (length xs)"
    "accepted new = take (nat (r - sent)) xs" "runs_ok new" "refused new \<longleftrightarrow> r < sent + int (length xs)"
  shows "sent_ok st sent xs (r, st')"
  using assms by (auto simp: sent_ok_def)

lemma sent_ok_step:
  assumes a: "q_us st1 = q_us st" "q_calls st1 = q_calls st @ new1" "accepted new1 = xs" "runs_ok new1" "\<not> refused new1"
    and b: "sent_ok st1 (sent + int (length xs)) ys res"
  shows "sent_ok st sent (xs @ ys) res"
proof -
  obtain r st' where res: "res = (r, st')" by (cases res)
  obtain new where n: "q_us st' = q_us st1" "q_calls st' = q_calls st1 @ new" "sent + int (length xs) \<le> r"
    "r \<le> sent + int (length xs) + int (length ys)" "accepted new = take (nat (r - (sent + int (length xs)))) ys" "runs_ok new"
    "refused new \<longleftrightarrow> r < sent + int (length xs) + int (length ys)"
    using b unfolding sent_ok_def res by auto
  have t: "take (nat (r - sent)) (xs @ ys) = xs @ take (nat (r - (sent + int (length xs)))) ys"
  proof -
    have "nat (r - sent) = length xs + nat (r - (sent + int (length xs)))" using n(3) by arith
    then show ?thesis by simp
  qed
  show ?thesis unfolding res by (rule sent_okI [where new = "new1 @ new"]) (use a n t in auto)
qed

lemma send_loop_ok:
  assumes L: "sends_ok L"
  shows "\<forall>sp\<in>set specs. has_fd st (os_peer_ctx sp) \<Longrightarrow> run \<noteq> [] \<longrightarrow> has_fd st sk \<Longrightarrow> length run \<le> UIO_MAXIOV \<Longrightarrow>
    run = [] \<longrightarrow> specs = [] \<or> os_peer_ctx (hd specs) = sk \<Longrightarrow> int n = sent + int (length run) + int (length specs) \<Longrightarrow>
    \<exists>res. send_loop L n specs run sk sent st = Inr res \<and>
      sent_ok st sent (map (Pair (fd_at st sk)) run @ map (datagram st) specs) res"
proof (induction specs arbitrary: run sk sent st)
  case Nil
  show ?case
  proof (cases "run = []")
    case True
    then show ?thesis using Nil.prems(5) by (intro exI [of _ "(int n, st)"]) (simp add: sent_ok_def accepted_def runs_ok_def refused_def)
  next
    case False
    then have h: "has_fd st sk" using Nil.prems(2) by blast
    obtain k st1 new where s: "send_run L sk run st = Inr (k, st1)" "q_us st1 = q_us st" "q_calls st1 = q_calls st @ new"
      "accepted new = map (Pair (fd_at st sk)) (take (nat k) run)" "runs_ok new" "-1 \<le> k" "k \<le> int (length run)"
      "refused new \<longleftrightarrow> k < int (length run)"
      by (rule send_run_ok [OF L h False Nil.prems(3)])
    show ?thesis
    proof (cases "k = -1")
      case True
      have "sent_ok st sent (map (Pair (fd_at st sk)) run) (sent, st1)"
        by (rule sent_okI [where new = new]) (use s True False in auto)
      then show ?thesis using False s(1) True by simp
    next
      case k: False
      let ?st = "if sent + k \<noteq> int n then st1\<lparr>q_errno := EAGAIN\<rparr> else st1"
      have "sent_ok st sent (map (Pair (fd_at st sk)) run) (sent + k, ?st)"
        by (rule sent_okI [where new = new]) (use s k in \<open>auto simp: take_map\<close>)
      then show ?thesis using False s(1) k by (simp add: Let_def)
    qed
  qed
next
  case (Cons sp specs)
  have hsp: "has_fd st (os_peer_ctx sp)" and hs: "\<forall>sp\<in>set specs. has_fd st (os_peer_ctx sp)" using Cons.prems(1) by auto
  show ?case
  proof (cases "length run = UIO_MAXIOV \<or> os_peer_ctx sp \<noteq> sk")
    case False
    then have l: "os_peer_ctx sp = sk" "length run < UIO_MAXIOV" using Cons.prems(3) by auto
    have "\<exists>res. send_loop L n specs (run @ [out_header sp]) sk sent st = Inr res \<and>
      sent_ok st sent (map (Pair (fd_at st sk)) (run @ [out_header sp]) @ map (datagram st) specs) res"
      by (rule Cons.IH) (use hs hsp l Cons.prems(5) in auto)
    moreover have "datagram st sp = (fd_at st sk, out_header sp)" using l by (simp add: datagram_def)
    ultimately show ?thesis using False l(1) by simp
  next
    case True
    then have r: "run \<noteq> []" using Cons.prems(4) by (auto simp: UIO_MAXIOV_def)
    then have h: "has_fd st sk" using Cons.prems(2) by blast
    obtain k st1 new where s: "send_run L sk run st = Inr (k, st1)" "q_us st1 = q_us st" "q_calls st1 = q_calls st @ new"
      "accepted new = map (Pair (fd_at st sk)) (take (nat k) run)" "runs_ok new" "-1 \<le> k" "k \<le> int (length run)"
      "refused new \<longleftrightarrow> k < int (length run)"
      by (rule send_run_ok [OF L h r Cons.prems(3)])
    let ?xs = "map (Pair (fd_at st sk)) run @ map (datagram st) (sp # specs)"
    show ?thesis
    proof (cases "k = int (length run)")
      case k: True
      have same: "has_fd st1 = has_fd st" "fd_at st1 = fd_at st" "datagram st1 = datagram st"
        using s(2) by (simp_all add: has_fd_def fd_at_def datagram_def fun_eq_iff)
      have d: "datagram st sp = (fd_at st (os_peer_ctx sp), out_header sp)" by (simp add: datagram_def)
      have "\<exists>res. send_loop L n specs [out_header sp] (os_peer_ctx sp) (sent + k) st1 = Inr res \<and>
        sent_ok st1 (sent + k) (map (Pair (fd_at st1 (os_peer_ctx sp))) [out_header sp] @ map (datagram st1) specs) res"
        by (rule Cons.IH) (use hs hsp same Cons.prems(5) k in \<open>auto simp: UIO_MAXIOV_def\<close>)
      then obtain res where res: "send_loop L n specs [out_header sp] (os_peer_ctx sp) (sent + k) st1 = Inr res"
        "sent_ok st1 (sent + int (length (map (Pair (fd_at st sk)) run))) (map (datagram st) (sp # specs)) res"
        using same k d by auto
      have "sent_ok st sent ?xs res"
        by (rule sent_ok_step [OF s(2,3) _ s(5) _ res(2)]) (use s(4,8) k in simp_all)
      then show ?thesis using True s(1) k res(1) by auto
    next
      case k: False
      then have lt: "k < int (length run)" using s(7) by simp
      have *: "send_loop L n (sp # specs) run sk sent st = Inr (if k = -1 then (sent, st1) else (sent + k, st1\<lparr>q_errno := EAGAIN\<rparr>))"
        using True s(1) k by auto
      have "sent_ok st sent ?xs (sent, st1)" if "k = -1"
        by (rule sent_okI [where new = new]) (use s that r in auto)
      moreover have "sent_ok st sent ?xs (sent + k, st1\<lparr>q_errno := EAGAIN\<rparr>)" if "k \<noteq> -1"
        by (rule sent_okI [where new = new]) (use s that lt in \<open>auto simp: take_map nat_le_iff\<close>)
      ultimately show ?thesis using * by auto
    qed
  qed
qed

text \<open>C33. Sending out packets ends, and the number it returns is exactly the number of leading packets
  the kernel took, in their order, each on the descriptor of its own UDP socket and with its own
  address and bytes. No call of \<open>sendmmsg\<close> gets more than 1024 packets or none, and fewer than all
  are reported exactly if the kernel took less than it was given.\<close>

theorem send_packets_out_correct:
  assumes "sends_ok L" and "specs \<noteq> []" and "\<forall>sp\<in>set specs. us_poll_fd (os_peer_ctx sp) (q_us st) \<noteq> None"
  shows "\<exists>r st' new. send_packets_out L specs st = Inr (r, st') \<and> q_calls st' = q_calls st @ new \<and>
    0 \<le> r \<and> r \<le> int (length specs) \<and> accepted new = map (datagram st) (take (nat r) specs) \<and>
    runs_ok new \<and> (r < int (length specs) \<longleftrightarrow> refused new)"
proof -
  obtain sp sps where sp: "specs = sp # sps" using assms(2) by (cases specs) auto
  have "\<exists>res. send_loop L (length specs) specs [] (os_peer_ctx sp) 0 st = Inr res \<and>
      sent_ok st 0 (map (Pair (fd_at st (os_peer_ctx sp))) [] @ map (datagram st) specs) res"
    by (rule send_loop_ok [OF assms(1)]) (use assms(3) sp in \<open>auto simp: has_fd_def\<close>)
  then obtain r st' where "send_loop L (length specs) specs [] (os_peer_ctx sp) 0 st = Inr (r, st')"
      and ok: "sent_ok st 0 (map (datagram st) specs) (r, st')"
    by auto
  then have "send_packets_out L specs st = Inr (r, st')" unfolding send_packets_out_def sp by (simp del: send_loop.simps)
  with ok show ?thesis by (auto simp: sent_ok_def take_map)
qed


text \<open>An lsquic whose \<open>sendmmsg\<close> takes one message of every run.\<close>

definition lsq0 :: lsquic where
  "lsq0 = \<lparr>lq_call = (\<lambda>c st. case c of SendRun fd hs \<Rightarrow> Inr (st\<lparr>q_errno := min 1 (int (length hs))\<rparr>) | _ \<Rightarrow> Inr st),
     lq_ret = q_errno, lq_addr = (\<lambda>st. 77), lq_data = (\<lambda>st. []), lq_malloc = (\<lambda>st. 0),
     lq_new_context = (\<lambda>st. (0, \<lparr>qc_recv_buf = 0, qc_engine = 0, qc_client_engine = 0,
       qc_options = \<lparr>qo_cert_file_name = [], qo_key_file_name = [], qo_passphrase = []\<rparr>, qc_on_stream_data = FnNull,
       qc_on_stream_end = FnNull, qc_on_stream_headers = FnNull, qc_on_stream_open = FnNull, qc_on_stream_close = FnNull,
       qc_on_stream_writable = FnNull, qc_on_open = FnNull, qc_on_close = FnNull\<rparr>)),
     lq_conn_engine = (\<lambda>st c. 0), lq_conn_ctx = (\<lambda>st c. 0), lq_stream_conn = (\<lambda>st c. 0), lq_stream_ctx = (\<lambda>st c. 0),
     lq_select = (\<lambda>xs ys. None), lq_servername = (\<lambda>st s. None), lq_handler = (\<lambda>f c st. Inr st)\<rparr>"

text \<open>Two contexts, 5 with the engines 51 and 52 and 6 with 61 and 62, each with its own certificate; the poll 26 is their UDP socket.\<close>

definition qctx0 :: "nat \<Rightarrow> string \<Rightarrow> us_quic_socket_context_s" where
  "qctx0 n cert = snd (lq_new_context lsq0 undefined) \<lparr>qc_engine := 10 * n + 1, qc_client_engine := 10 * n + 2,
     qc_options := \<lparr>qo_cert_file_name = cert, qo_key_file_name = [], qo_passphrase = []\<rparr>\<rparr>"

definition packet0 :: "addr \<Rightarrow> mmsghdr" where
  "packet0 a = \<lparr>msg_name = a, msg_namelen = 16, iov_base = a + 100, iov_len = 1200, msg_control = a + 200,
     msg_controllen = 256, msg_cmsgs = [Cmsg IPPROTO_IPV6 IPV6_PKTINFO (replicate 16 1)], msg_len = 1200\<rparr>"

definition qst0 :: quic where
  "qst0 = \<lparr>qh_off = 0, qh_buf = [], qh_arr = [], qp_pool = \<lambda>_. PoolRaw, qp_top = 0, qp_last_hset = None, qa_alpn = [],
     q_us = demo, q_udp = part3\<lparr>bufs := (\<lambda>_. [packet0 1000, packet0 2000]), udps := (udps part3)(26 := \<lparr>udp_receive_buf = 9,
       udp_data_cb = FnQuicData, udp_drain_cb = FnNull, udp_user = 5, udp_port = 443\<rparr>)\<rparr>,
     q_ctxs = [5 \<mapsto> qctx0 5 ''a.pem'', 6 \<mapsto> qctx0 6 ''b.pem''], q_global_engine = 0, q_global_client_engine = 0,
     q_old_ctx = 0, q_exts = Map.empty, q_errno = 0, q_calls = []\<rparr>"

definition specs0 :: "lsquic_out_spec list" where
  "specs0 = [\<lparr>os_iov = [[1, 2]], os_dest_sa = SockIn 443 [127, 0, 0, 1], os_peer_ctx = 26\<rparr>,
     \<lparr>os_iov = [[3]], os_dest_sa = SockIn 443 [127, 0, 0, 1], os_peer_ctx = 26\<rparr>]"

lemma lsq0_sends: "sends_ok lsq0"
  by (auto simp: sends_ok_def lsq0_def)

theorem send_packets_out_correct_witness:
  "\<exists>r st' new. send_packets_out lsq0 specs0 qst0 = Inr (r, st') \<and> q_calls st' = [] @ new \<and>
    0 \<le> r \<and> r \<le> 2 \<and> accepted new = map (datagram qst0) (take (nat r) specs0) \<and>
    runs_ok new \<and> (r < 2 \<longleftrightarrow> refused new)"
proof -
  have p: "us_poll_fd 26 demo \<noteq> None" by (simp add: us_poll_fd_def rd_poll_def is_poll_def demo_def)
  have "\<exists>r st' new. send_packets_out lsq0 specs0 qst0 = Inr (r, st') \<and> q_calls st' = q_calls qst0 @ new \<and>
    0 \<le> r \<and> r \<le> int (length specs0) \<and> accepted new = map (datagram qst0) (take (nat r) specs0) \<and>
    runs_ok new \<and> (r < int (length specs0) \<longleftrightarrow> refused new)"
    by (rule send_packets_out_correct [OF lsq0_sends]) (use p in \<open>simp_all add: specs0_def qst0_def\<close>)
  moreover have "q_calls qst0 = []" "int (length specs0) = 2" by (simp_all add: qst0_def specs0_def)
  ultimately show ?thesis by simp
qed

section \<open>Packets in\<close>

text \<open>
  What is relied on of lsquic while the packets of one buffer are handed to it: the calls return,
  whatever callbacks they make; they add no packets themselves, and leave the buffer, the UDP
  socket and the engines of the context as they are.
\<close>

definition engines :: "quic \<Rightarrow> addr \<Rightarrow> (addr \<times> addr) option" where
  "engines st context = map_option (\<lambda>c. (qc_engine c, qc_client_engine c)) (q_ctxs st context)"

definition feed_frame :: "addr \<Rightarrow> addr \<Rightarrow> addr \<Rightarrow> quic \<Rightarrow> quic \<Rightarrow> bool" where
  "feed_frame s buf context st st' \<longleftrightarrow> bufs (q_udp st') buf = bufs (q_udp st) buf \<and> is_cb (q_us st') s = is_cb (q_us st) s \<and>
     udps (q_udp st') s = udps (q_udp st) s \<and> engines st' context = engines st context"

definition packets_in :: "qcall list \<Rightarrow> qcall list" where
  "packets_in cs = filter (\<lambda>c. case c of PacketIn e p l a b s \<Rightarrow> True | _ \<Rightarrow> False) cs"

definition feeds_ok :: "lsquic \<Rightarrow> addr \<Rightarrow> addr \<Rightarrow> addr \<Rightarrow> bool" where
  "feeds_ok L s buf context \<longleftrightarrow> (\<forall>c st. (\<exists>e. c = ProcessConns e) \<or> packets_in [c] \<noteq> [] \<longrightarrow>
     (\<exists>st' new. lq_call L c st = Inr st' \<and> q_calls st' = q_calls st @ new \<and> packets_in new = [] \<and> feed_frame s buf context st st'))"

lemma packets_in_append [simp]: "packets_in (xs @ ys) = packets_in xs @ packets_in ys"
  by (simp add: packets_in_def)

lemma feed_frame_trans: "feed_frame s buf x st st1 \<Longrightarrow> feed_frame s buf x st1 st2 \<Longrightarrow> feed_frame s buf x st st2"
  by (simp add: feed_frame_def)

lemma lib_feeds:
  assumes "feeds_ok L s buf context" and "(\<exists>e. c = ProcessConns e) \<or> packets_in [c] \<noteq> []"
  obtains st' new where "q_lib L c st = Inr st'" "q_calls st' = q_calls st @ c # new" "packets_in new = []" "feed_frame s buf context st st'"
proof -
  obtain st' new where *: "lq_call L c (q_emit c st) = Inr st'" "q_calls st' = q_calls (q_emit c st) @ new" "packets_in new = []"
    "feed_frame s buf context (q_emit c st) st'"
    using assms unfolding feeds_ok_def by blast
  then show thesis by (intro that [of st' new]) (simp_all add: q_lib_def q_emit_def feed_frame_def engines_def)
qed

text \<open>The call that hands packet \<open>i\<close> over, and whether its destination address is known.\<close>

definition packet_call :: "addr \<Rightarrow> addr \<Rightarrow> addr \<Rightarrow> quic \<Rightarrow> nat \<Rightarrow> qcall" where
  "packet_call e s buf st i = (let m = bufs (q_udp st) buf ! i; (n, ip) = local_ip_loop (msg_cmsgs m) in
     PacketIn e (iov_base m) (msg_len m) (local_sockaddr n ip (udp_port (udps (q_udp st) s))) (msg_name m) s)"

definition has_local_ip :: "addr \<Rightarrow> quic \<Rightarrow> nat \<Rightarrow> bool" where
  "has_local_ip buf st i \<longleftrightarrow> fst (local_ip_loop (msg_cmsgs (bufs (q_udp st) buf ! i))) \<noteq> 0"

lemma packet_frame:
  assumes "feed_frame s buf context st st'"
  shows "packet_call e s buf st' = packet_call e s buf st" "has_local_ip buf st' = has_local_ip buf st"
  using assms by (simp_all add: feed_frame_def packet_call_def has_local_ip_def fun_eq_iff)

lemma feed_packets_ok:
  assumes L: "feeds_ok L s buf context" and e: "eng = qc_engine \<or> eng = qc_client_engine"
  shows "is_cb (q_us st) s \<Longrightarrow> q_ctxs st context = Some c \<Longrightarrow> \<forall>i\<in>set is. i < length (bufs (q_udp st) buf) \<Longrightarrow>
    (if \<forall>i\<in>set is. has_local_ip buf st i
     then \<exists>st' new. feed_packets L eng context s buf is st = Inr st' \<and> q_calls st' = q_calls st @ new \<and>
       packets_in new = map (packet_call (eng c) s buf st) is \<and> feed_frame s buf context st st'
     else feed_packets L eng context s buf is st = Inl Exits)"
proof (induction "is" arbitrary: st c)
  case Nil
  show ?case by (simp add: packets_in_def feed_frame_def)
next
  case (Cons i js)
  have i: "i < length (bufs (q_udp st) buf)" using Cons.prems(3) by simp
  have port: "us_udp_socket_bound_port s (q_us st, q_udp st) = Some (udp_port (udps (q_udp st) s))"
    using Cons.prems(1) by (simp add: us_udp_socket_bound_port_def)
  obtain n ip where ip: "local_ip_loop (msg_cmsgs (bufs (q_udp st) buf ! i)) = (n, ip)" by fastforce
  have local: "us_udp_packet_buffer_local_ip buf i (q_udp st) = (n, ip)"
    by (simp add: us_udp_packet_buffer_local_ip_def bsd_udp_packet_buffer_local_ip_def ip)
  show ?case
  proof (cases "n = 0")
    case True
    then have "feed_packet L eng context s buf i st = Inl Exits" using i local by (simp add: feed_packet_def)
    moreover have "\<not> has_local_ip buf st i" using True by (simp add: has_local_ip_def ip)
    ultimately show ?thesis by simp
  next
    case False
    have h: "has_local_ip buf st i" using False by (simp add: has_local_ip_def ip)
    have f: "feed_packet L eng context s buf i st = q_lib L (packet_call (eng c) s buf st i) st"
      using False i local port Cons.prems(2)
      by (simp add: feed_packet_def rd_qctx_def packet_call_def ip Let_def us_udp_packet_buffer_payload_def us_udp_packet_buffer_payload_length_def
        us_udp_packet_buffer_peer_def bsd_udp_packet_buffer_payload_def bsd_udp_packet_buffer_payload_length_def bsd_udp_packet_buffer_peer_def)
    have pk: "packets_in [packet_call (eng c) s buf st i] = [packet_call (eng c) s buf st i]"
      by (simp add: packet_call_def packets_in_def ip Let_def)
    have "(\<exists>e. packet_call (eng c) s buf st i = ProcessConns e) \<or> packets_in [packet_call (eng c) s buf st i] \<noteq> []" using pk by simp
    then obtain st1 new1 where 1: "q_lib L (packet_call (eng c) s buf st i) st = Inr st1"
      "q_calls st1 = q_calls st @ packet_call (eng c) s buf st i # new1" "packets_in new1 = []" "feed_frame s buf context st st1"
      by (rule lib_feeds [OF L])
    have fr: "is_cb (q_us st1) s" "\<forall>i\<in>set js. i < length (bufs (q_udp st1) buf)" "engines st1 context = engines st context"
      using 1(4) Cons.prems by (simp_all add: feed_frame_def)
    obtain c1 where c1: "q_ctxs st1 context = Some c1" "eng c1 = eng c"
      using fr(3) Cons.prems(2) e by (auto simp: engines_def)
    note IH = Cons.IH [OF fr(1) c1(1) fr(2), unfolded packet_frame [OF 1(4)] c1(2)]
    show ?thesis
    proof (cases "\<forall>j\<in>set js. has_local_ip buf st j")
      case True
      then obtain st' new where 2: "feed_packets L eng context s buf js st1 = Inr st'" "q_calls st' = q_calls st1 @ new"
        "packets_in new = map (packet_call (eng c) s buf st) js" "feed_frame s buf context st1 st'"
        using IH by auto
      have "packets_in (packet_call (eng c) s buf st i # new1 @ new) = map (packet_call (eng c) s buf st) (i # js)"
        using packets_in_append [of "[packet_call (eng c) s buf st i]" "new1 @ new"] pk 1(3) 2(3) by simp
      moreover have "feed_frame s buf context st st'" by (rule feed_frame_trans [OF 1(4) 2(4)])
      ultimately have "\<exists>st' new. feed_packets L eng context s buf (i # js) st = Inr st' \<and> q_calls st' = q_calls st @ new \<and>
          packets_in new = map (packet_call (eng c) s buf st) (i # js) \<and> feed_frame s buf context st st'"
        using f 1(1,2) 2(1,2) by (intro exI [of _ st'] exI [of _ "packet_call (eng c) s buf st i # new1 @ new"]) simp
      then show ?thesis using True h by simp
    next
      case False
      then show ?thesis using IH f 1(1) by auto
    qed
  qed
qed


lemma server_data_ok:
  assumes L: "feeds_ok L s buf context" and s: "is_cb (q_us st) s" "udp_user (udps (q_udp st) s) = context"
    and c: "q_ctxs st context = Some c" and n: "packets \<le> int (length (bufs (q_udp st) buf))"
  shows "if \<forall>i<nat packets. has_local_ip buf st i
    then \<exists>st' mid rest. on_udp_socket_data L s buf packets st = Inr st' \<and>
      q_calls st' = q_calls st @ ProcessConns (qc_engine c) # mid @ ProcessConns (qc_engine c) # rest \<and>
      packets_in mid = map (packet_call (qc_engine c) s buf st) [0..<nat packets] \<and> packets_in rest = []
    else on_udp_socket_data L s buf packets st = Inl Exits"
proof -
  let ?is = "[0..<nat packets]"
  have user: "q_udp_user s st = Inr context" using s by (simp add: q_udp_user_def us_udp_socket_user_def)
  obtain st1 new1 where 1: "q_lib L (ProcessConns (qc_engine c)) st = Inr st1" "q_calls st1 = q_calls st @ ProcessConns (qc_engine c) # new1"
    "packets_in new1 = []" "feed_frame s buf context st st1"
    by (rule lib_feeds [OF L]) blast
  obtain c1 where c1: "q_ctxs st1 context = Some c1" "qc_engine c1 = qc_engine c"
    using 1(4) c by (auto simp: feed_frame_def engines_def)
  have fr: "is_cb (q_us st1) s" "\<forall>i\<in>set ?is. i < length (bufs (q_udp st1) buf)" using 1(4) s n by (auto simp: feed_frame_def)
  have all: "(\<forall>i\<in>set ?is. has_local_ip buf st i) \<longleftrightarrow> (\<forall>i<nat packets. has_local_ip buf st i)" by auto
  note srv = feed_packets_ok [OF L disjI1 [OF refl] fr(1) c1(1) fr(2), unfolded packet_frame [OF 1(4)] all c1(2)]
  show ?thesis
  proof (cases "\<forall>i<nat packets. has_local_ip buf st i")
    case False
    then have "feed_packets L qc_engine context s buf ?is st1 = Inl Exits" using srv by simp
    then show ?thesis using False user c 1(1) by (simp add: on_udp_socket_data_def rd_qctx_def)
  next
    case True
    obtain st2 new2 where 2: "feed_packets L qc_engine context s buf ?is st1 = Inr st2" "q_calls st2 = q_calls st1 @ new2"
      "packets_in new2 = map (packet_call (qc_engine c) s buf st) ?is" "feed_frame s buf context st1 st2"
      using srv True by auto
    obtain c2 where c2: "q_ctxs st2 context = Some c2" "qc_engine c2 = qc_engine c"
      using 2(4) c1 by (auto simp: feed_frame_def engines_def)
    obtain st3 new3 where 3: "q_lib L (ProcessConns (qc_engine c)) st2 = Inr st3" "q_calls st3 = q_calls st2 @ ProcessConns (qc_engine c) # new3"
      "packets_in new3 = []"
      by (rule lib_feeds [OF L, where c = "ProcessConns (qc_engine c)" and st = st2]) auto
    have "on_udp_socket_data L s buf packets st = Inr st3"
      using user c 1(1) 2(1) c2 3(1) by (simp add: on_udp_socket_data_def rd_qctx_def)
    moreover have "q_calls st3 = q_calls st @ ProcessConns (qc_engine c) # (new1 @ new2) @ ProcessConns (qc_engine c) # new3"
      "packets_in (new1 @ new2) = map (packet_call (qc_engine c) s buf st) ?is"
      using 1 2 3 by simp_all
    ultimately show ?thesis using True 3(3) by (metis (no_types, lifting))
  qed
qed

lemma client_data_ok:
  assumes L: "feeds_ok L s buf context" and s: "is_cb (q_us st) s" "udp_user (udps (q_udp st) s) = context"
    and c: "q_ctxs st context = Some c" and n: "packets \<le> int (length (bufs (q_udp st) buf))"
  shows "if \<forall>i<nat packets. has_local_ip buf st i
    then \<exists>st' mid rest. on_udp_socket_data_client L s buf packets st = Inr st' \<and>
      q_calls st' = q_calls st @ mid @ ProcessConns (qc_client_engine c) # rest \<and>
      packets_in mid = map (packet_call (qc_client_engine c) s buf st) [0..<nat packets] \<and> packets_in rest = []
    else on_udp_socket_data_client L s buf packets st = Inl Exits"
proof -
  let ?is = "[0..<nat packets]"
  have user: "q_udp_user s st = Inr context" using s by (simp add: q_udp_user_def us_udp_socket_user_def)
  have all: "(\<forall>i\<in>set ?is. has_local_ip buf st i) \<longleftrightarrow> (\<forall>i<nat packets. has_local_ip buf st i)" by auto
  have lt: "\<forall>i\<in>set ?is. i < length (bufs (q_udp st) buf)" using n by auto
  note cli = feed_packets_ok [OF L disjI2 [OF refl] s(1) c lt, unfolded all]
  show ?thesis
  proof (cases "\<forall>i<nat packets. has_local_ip buf st i")
    case False
    then have "feed_packets L qc_client_engine context s buf ?is st = Inl Exits" using cli by simp
    then show ?thesis using False user by (simp add: on_udp_socket_data_client_def)
  next
    case True
    obtain st4 new4 where 4: "feed_packets L qc_client_engine context s buf ?is st = Inr st4" "q_calls st4 = q_calls st @ new4"
      "packets_in new4 = map (packet_call (qc_client_engine c) s buf st) ?is" "feed_frame s buf context st st4"
      using cli True by auto
    obtain c4 where c4: "q_ctxs st4 context = Some c4" "qc_client_engine c4 = qc_client_engine c"
      using 4(4) c by (auto simp: feed_frame_def engines_def)
    obtain st5 new5 where 5: "q_lib L (ProcessConns (qc_client_engine c)) st4 = Inr st5"
      "q_calls st5 = q_calls st4 @ ProcessConns (qc_client_engine c) # new5" "packets_in new5 = []"
      by (rule lib_feeds [OF L, where c = "ProcessConns (qc_client_engine c)" and st = st4]) auto
    have "on_udp_socket_data_client L s buf packets st = Inr st5"
      using user 4(1) c4 5(1) by (simp add: on_udp_socket_data_client_def rd_qctx_def)
    moreover have "q_calls st5 = q_calls st @ new4 @ ProcessConns (qc_client_engine c) # new5" using 4 5 by simp
    ultimately show ?thesis using True 4(3) 5(3) by (metis (no_types, lifting))
  qed
qed

text \<open>C34. When packets arrive, a server hands every one of them to its engine, in order, each with its
  payload, its length, the address of its peer and the address it was sent to, and lets the
  engine work before and after; a client does the same with its own engine, without the first.
  But one packet whose destination address is not known ends the process.\<close>

theorem on_udp_socket_data_correct:
  assumes L: "feeds_ok L s buf context" and s: "is_cb (q_us st) s" "udp_user (udps (q_udp st) s) = context"
    and c: "q_ctxs st context = Some c" and n: "packets \<le> int (length (bufs (q_udp st) buf))"
  shows "(if \<forall>i<nat packets. has_local_ip buf st i
      then (\<exists>st' mid rest. on_udp_socket_data L s buf packets st = Inr st' \<and>
          q_calls st' = q_calls st @ ProcessConns (qc_engine c) # mid @ ProcessConns (qc_engine c) # rest \<and>
          packets_in mid = map (packet_call (qc_engine c) s buf st) [0..<nat packets] \<and> packets_in rest = []) \<and>
        (\<exists>st' mid rest. on_udp_socket_data_client L s buf packets st = Inr st' \<and>
          q_calls st' = q_calls st @ mid @ ProcessConns (qc_client_engine c) # rest \<and>
          packets_in mid = map (packet_call (qc_client_engine c) s buf st) [0..<nat packets] \<and> packets_in rest = [])
      else on_udp_socket_data L s buf packets st = Inl Exits \<and> on_udp_socket_data_client L s buf packets st = Inl Exits)"
  using server_data_ok [OF L s c n] client_data_ok [OF L s c n] by (auto split: if_splits)

lemma lsq0_feeds: "feeds_ok lsq0 s buf context"
  unfolding feeds_ok_def
proof (intro allI impI)
  fix c st
  assume "(\<exists>e. c = ProcessConns e) \<or> packets_in [c] \<noteq> []"
  then have "lq_call lsq0 c st = Inr st" by (cases c) (auto simp: lsq0_def packets_in_def)
  then show "\<exists>st' new. lq_call lsq0 c st = Inr st' \<and> q_calls st' = q_calls st @ new \<and> packets_in new = [] \<and> feed_frame s buf context st st'"
    by (intro exI [of _ st] exI [of _ "[]"]) (simp add: packets_in_def feed_frame_def)
qed

theorem on_udp_socket_data_correct_witness:
  "\<exists>st' mid rest. on_udp_socket_data lsq0 26 9 2 qst0 = Inr st' \<and> q_calls st' = ProcessConns 51 # mid @ ProcessConns 51 # rest \<and>
     packets_in mid = [PacketIn 51 1100 1200 (SockIn6 443 (replicate 16 1)) 1000 26, PacketIn 51 2100 1200 (SockIn6 443 (replicate 16 1)) 2000 26]"
proof -
  have b: "bufs (q_udp qst0) 9 = [packet0 1000, packet0 2000]" "q_calls qst0 = []" "q_ctxs qst0 5 = Some (qctx0 5 ''a.pem'')"
    "is_cb (q_us qst0) 26" "udp_user (udps (q_udp qst0) 26) = 5" "udp_port (udps (q_udp qst0) 26) = 443"
    by (simp_all add: qst0_def part3_def is_cb_def demo_def)
  have ip: "local_ip_loop (msg_cmsgs (packet0 a)) = (16, replicate 16 1)" for a
    by (simp add: packet0_def IPPROTO_IP_def IPPROTO_IPV6_def IPV6_PKTINFO_def IP_PKTINFO_TYPE_def)
  have h: "\<forall>i<nat 2. has_local_ip 9 qst0 i" using b ip by (simp add: has_local_ip_def less_2_cases_iff)
  have p: "map (packet_call 51 26 9 qst0) [0..<nat 2] =
    [PacketIn 51 1100 1200 (SockIn6 443 (replicate 16 1)) 1000 26, PacketIn 51 2100 1200 (SockIn6 443 (replicate 16 1)) 2000 26]"
    using b ip by (simp add: packet_call_def local_sockaddr_def packet0_def upt_rec Let_def)
  have e: "qc_engine (qctx0 5 ''a.pem'') = 51" by (simp add: qctx0_def)
  have "2 \<le> int (length (bufs (q_udp qst0) 9))" by (simp add: b)
  from on_udp_socket_data_correct [OF lsq0_feeds b(4) b(5) b(3) this, unfolded if_P [OF h] e p b(2)]
  show ?thesis by auto
qed

section \<open>Certificates\<close>

text \<open>The first context that a server certificate is asked for fixes it for all: its certificate and
  its key are loaded into one SSL_CTX, and every later request gets that one, whatever context its
  UDP socket belongs to; the certificate of another context is never loaded.\<close>

theorem get_ssl_ctx_first_certificate:
  assumes tls: "\<And>c st. \<exists>st'. lq_call L (Tls c) st = Inr st' \<and> q_old_ctx st' = q_old_ctx st \<and> q_calls st' = q_calls st \<and>
      q_us st' = q_us st \<and> q_udp st' = q_udp st"
    and first: "q_old_ctx st = NULL" and new: "lq_addr L st \<noteq> NULL"
    and p: "q_udp_user p st = Inr a" "q_ctxs st a = Some x" and p2: "q_udp_user p2 st = Inr b"
  shows "\<exists>st1. get_ssl_ctx L p st = Inr (lq_addr L st, st1) \<and> get_ssl_ctx L p2 st1 = Inr (lq_addr L st, st1) \<and>
    sni_lookup st1 = lq_addr L st \<and>
    filter (\<lambda>c. case c of Tls (QCtxFile _ _ _) \<Rightarrow> True | _ \<Rightarrow> False) (q_calls st1) =
    filter (\<lambda>c. case c of Tls (QCtxFile _ _ _) \<Rightarrow> True | _ \<Rightarrow> False) (q_calls st) @
      [Tls (QCtxFile (lq_addr L st) ''use_certificate_chain_file'' (qo_cert_file_name (qc_options x))),
       Tls (QCtxFile (lq_addr L st) ''use_PrivateKey_file'' (qo_key_file_name (qc_options x)))]"
proof -
  have step: "\<exists>st'. q_libs L (map Tls cs) s = Inr st' \<and> q_old_ctx st' = q_old_ctx s \<and> q_calls st' = q_calls s @ map Tls cs \<and>
      q_us st' = q_us s \<and> q_udp st' = q_udp s" for cs s
  proof (induction cs arbitrary: s)
    case (Cons c cs)
    obtain s1 where 1: "lq_call L (Tls c) (q_emit (Tls c) s) = Inr s1" "q_old_ctx s1 = q_old_ctx s" "q_calls s1 = q_calls s @ [Tls c]"
      "q_us s1 = q_us s" "q_udp s1 = q_udp s"
      using tls [of c "q_emit (Tls c) s"] by (auto simp: q_emit_def)
    then show ?case using Cons.IH [of s1] by (auto simp: q_lib_def)
  qed simp
  let ?ctx = "lq_addr L st"
  let ?s0 = "(q_emit (Tls (QCtxNew ?ctx)) st)\<lparr>q_old_ctx := ?ctx\<rparr>"
  let ?cs = "[QCtxOption ?ctx ''min_proto_version TLS1_3'', QCtxOption ?ctx ''max_proto_version TLS1_3'',
        QCtxOption ?ctx ''alpn_select_cb'', QCtxOption ?ctx ''tlsext_servername_callback'',
        QCtxFile ?ctx ''use_certificate_chain_file'' (qo_cert_file_name (qc_options x)),
        QCtxFile ?ctx ''use_PrivateKey_file'' (qo_key_file_name (qc_options x))]"
  obtain st1 where 1: "q_libs L (map Tls ?cs) ?s0 = Inr st1" "q_old_ctx st1 = ?ctx" "q_calls st1 = q_calls ?s0 @ map Tls ?cs"
    "q_us st1 = q_us st" "q_udp st1 = q_udp st"
    using step [of ?cs ?s0] by (auto simp: q_emit_def simp del: q_libs.simps list.map)
  have "get_ssl_ctx L p st = Inr (?ctx, st1)"
    using first new p 1(1) by (simp add: get_ssl_ctx_def rd_qctx_def Let_def del: q_libs.simps list.map)
  moreover have "q_udp_user p2 st1 = Inr b" using p2 1(4,5) by (simp add: q_udp_user_def)
  then have "get_ssl_ctx L p2 st1 = Inr (?ctx, st1)" using 1(2) new by (simp add: get_ssl_ctx_def)
  ultimately show ?thesis using 1(2,3) by (intro exI [of _ st1]) (simp add: sni_lookup_def q_emit_def)
qed

theorem get_ssl_ctx_first_certificate_witness:
  "\<exists>st1. get_ssl_ctx lsq0 26 qst0 = Inr (77, st1) \<and> get_ssl_ctx lsq0 26 st1 = Inr (77, st1)"
proof -
  have u: "q_udp_user 26 qst0 = Inr 5" by (simp add: q_udp_user_def us_udp_socket_user_def qst0_def part3_def is_cb_def demo_def)
  have "lq_addr lsq0 qst0 = 77" "q_old_ctx qst0 = NULL" "q_ctxs qst0 5 = Some (qctx0 5 ''a.pem'')" by (simp_all add: lsq0_def qst0_def)
  moreover have "\<exists>st'. lq_call lsq0 (Tls c) st = Inr st' \<and> q_old_ctx st' = q_old_ctx st \<and> q_calls st' = q_calls st \<and>
      q_us st' = q_us st \<and> q_udp st' = q_udp st" for c st by (simp add: lsq0_def)
  ultimately show ?thesis using get_ssl_ctx_first_certificate [of lsq0 qst0 26 5 "qctx0 5 ''a.pem''" 26 5] u by auto
qed

end
