(* ===== verification/Us_Uring.thy ===== *)
theory Us_Uring
  imports Us_Loop Us_Bsd
begin

text \<open>
  The io_uring back end, \<open>src/io_uring\<close>: not a back end for the polls but loop, contexts and sockets
  of its own, an unfinished variant of the library with many operations left empty. The program
  puts requests into a submission queue; the loop submits them and handles their completions.
  Nothing is ever freed, so an object is known by its address once it is made. \<open>liburing\<close> is
  modelled as far as its inline functions write to the rings; the kernel is a parameter.
\<close>

section \<open>The state\<close>

record us_uring_socket =
  rs_context :: addr
  rs_prev :: addr
  rs_next :: addr
  rs_timeout :: u8
  rs_long_timeout :: u8
  rs_dd :: int
  rs_send_buf :: "byte list"

record us_uring_context =
  rc_global_tick :: u32
  rc_timestamp :: u8
  rc_long_timestamp :: u8
  rc_head_sockets :: addr
  rc_head_listen_sockets :: addr
  rc_iterator :: addr
  rc_prev :: addr
  rc_next :: addr
  rc_on_open :: fnptr
  rc_on_data :: fnptr
  rc_on_close :: fnptr
  rc_on_socket_timeout :: fnptr
  rc_on_socket_long_timeout :: fnptr

text \<open>A timer holds its descriptor, a listen socket its context and the extension size of its sockets.\<close>

datatype uring_obj = RTimer int | RListen addr int | RContext us_uring_context | RSocket us_uring_socket

datatype sqe_op = OpNone | OpRead int addr | OpRecvMultishot int int | OpCloseDirect int | OpSend int addr nat
  | OpAcceptMultishotDirect int | OpConnect int "byte list"

text \<open>A request carries its flags and 64 bits of user data, a pointer with a tag in its low three bits.\<close>

record sqe =
  sq_op :: sqe_op
  sq_flags :: nat
  sq_data :: nat

record cqe =
  cq_data :: nat
  cq_res :: int
  cq_flags :: u32

datatype ucall = USubmit "sqe list" | UTimerfdCreate | UTimerfdSettime int "int \<times> int" "int \<times> int"
  | URingInit | URegisterFiles nat | URegisterRing | URegisterBufRing | URegisterFile nat int
  | UOpen addr | UData addr "byte list" | UClose addr | UTimeout addr | ULongTimeout addr

text \<open>
  The ring of provided buffers is its slots, each the number of a buffer, and its tail. \<open>ur_bufs\<close>
  holds the bytes the kernel left in the buffers.
\<close>

record urs =
  ur_objs :: "addr \<Rightarrow> uring_obj option"
  ur_timer :: addr
  ur_head :: addr
  ur_iterator :: addr
  ur_sq :: "sqe list"
  ur_slots :: "nat \<Rightarrow> nat"
  ur_tail :: u16
  ur_bufs :: "nat \<Rightarrow> byte list"
  ur_num_sockets :: nat
  ur_hist :: hist
  ur_calls :: "ucall list"

record uring_env =
  ue_os :: os
  ue_malloc :: "urs \<Rightarrow> addr"
  ue_new_context :: "urs \<Rightarrow> us_uring_context"
  ue_new_socket :: "urs \<Rightarrow> us_uring_socket"
  ue_ret :: "urs \<Rightarrow> int"
  ue_cqes :: "urs \<Rightarrow> cqe list \<times> (nat \<Rightarrow> byte list)"
  ue_handler :: "fnptr \<Rightarrow> ucall \<Rightarrow> urs \<Rightarrow> urs option"

definition u_emit :: "ucall \<Rightarrow> urs \<Rightarrow> urs" where
  "u_emit c st = st\<lparr>ur_calls := ur_calls st @ [c]\<rparr>"

definition u_handler :: "uring_env \<Rightarrow> fnptr \<Rightarrow> ucall \<Rightarrow> urs \<Rightarrow> urs option" where
  "u_handler E f c st = (if f = FnNull then None else ue_handler E f c (u_emit c st))"

section \<open>Access\<close>

definition rd_rs :: "addr \<Rightarrow> urs \<Rightarrow> us_uring_socket option" where
  "rd_rs a st = (case ur_objs st a of Some (RSocket s) \<Rightarrow> if a \<noteq> NULL then Some s else None | _ \<Rightarrow> None)"

definition rd_rc :: "addr \<Rightarrow> urs \<Rightarrow> us_uring_context option" where
  "rd_rc a st = (case ur_objs st a of Some (RContext c) \<Rightarrow> if a \<noteq> NULL then Some c else None | _ \<Rightarrow> None)"

definition wr_rs :: "addr \<Rightarrow> (us_uring_socket \<Rightarrow> us_uring_socket) \<Rightarrow> urs \<Rightarrow> urs option" where
  "wr_rs a f st = map_option (\<lambda>s. st\<lparr>ur_objs := (ur_objs st)(a \<mapsto> RSocket (f s))\<rparr>) (rd_rs a st)"

definition wr_rc :: "addr \<Rightarrow> (us_uring_context \<Rightarrow> us_uring_context) \<Rightarrow> urs \<Rightarrow> urs option" where
  "wr_rc a f st = map_option (\<lambda>c. st\<lparr>ur_objs := (ur_objs st)(a \<mapsto> RContext (f c))\<rparr>) (rd_rc a st)"

definition rd_timer :: "addr \<Rightarrow> urs \<Rightarrow> int option" where
  "rd_timer a st = (case ur_objs st a of Some (RTimer fd) \<Rightarrow> if a \<noteq> NULL then Some fd else None | _ \<Rightarrow> None)"

definition u_alloc :: "uring_env \<Rightarrow> uring_obj \<Rightarrow> urs \<Rightarrow> addr \<times> urs" where
  "u_alloc E x st = (let a = ue_malloc E st in (a, st\<lparr>ur_objs := (ur_objs st)(a \<mapsto> x)\<rparr>))"

section \<open>Constants\<close>

definition SOCKET_READ :: nat where "SOCKET_READ = 0"
definition SOCKET_WRITE :: nat where "SOCKET_WRITE = 1"
definition LISTEN_SOCKET_ACCEPT :: nat where "LISTEN_SOCKET_ACCEPT = 2"
definition SOCKET_CONNECT :: nat where "SOCKET_CONNECT = 3"
definition LOOP_TIMER :: nat where "LOOP_TIMER = 7"

lemmas tag_defs = SOCKET_READ_def SOCKET_WRITE_def LISTEN_SOCKET_ACCEPT_def SOCKET_CONNECT_def LOOP_TIMER_def

definition BUFFERS_COUNT :: nat where "BUFFERS_COUNT = 4096"
definition send_buf_size :: nat where "send_buf_size = 16 * 1024"
definition sq_entries :: nat where "sq_entries = 2048"
definition ENOBUFS :: int where "ENOBUFS = 105"
definition IOSQE_FIXED_FILE :: nat where "IOSQE_FIXED_FILE = 1"
definition IOSQE_BUFFER_SELECT :: nat where "IOSQE_BUFFER_SELECT = 32"
definition IOSQE_CQE_SKIP_SUCCESS :: nat where "IOSQE_CQE_SKIP_SUCCESS = 64"
definition uring_group_id :: int where "uring_group_id = 1337"

section \<open>The rings\<close>

text \<open>A full queue gives a null pointer, which the code writes through.\<close>

definition io_uring_get_sqe :: "urs \<Rightarrow> (nat \<times> urs) option" where
  "io_uring_get_sqe st = (if length (ur_sq st) \<ge> sq_entries then None
     else Some (length (ur_sq st), st\<lparr>ur_sq := ur_sq st @ [\<lparr>sq_op = OpNone, sq_flags = 0, sq_data = 0\<rparr>]\<rparr>))"

definition put_sqe :: "nat \<Rightarrow> sqe \<Rightarrow> urs \<Rightarrow> urs" where
  "put_sqe i q st = st\<lparr>ur_sq := (ur_sq st)[i := q]\<rparr>"

definition io_uring_buf_ring_add :: "nat \<Rightarrow> nat \<Rightarrow> urs \<Rightarrow> urs" where
  "io_uring_buf_ring_add bid offset st = st\<lparr>ur_slots := (ur_slots st)((unat (ur_tail st) + offset) mod BUFFERS_COUNT := bid)\<rparr>"

definition readd_buffer :: "nat \<Rightarrow> urs \<Rightarrow> urs option" where
  "readd_buffer bid st = (if bid \<ge> BUFFERS_COUNT then None
     else let st = io_uring_buf_ring_add bid 0 st in Some (st\<lparr>ur_tail := ur_tail st + 1\<rparr>))"

definition start_read_uring :: "addr \<Rightarrow> urs \<Rightarrow> urs option" where
  "start_read_uring s st = do {
     (i, st) \<leftarrow> io_uring_get_sqe st;
     k \<leftarrow> rd_rs s st;
     Some (put_sqe i \<lparr>sq_op = OpRecvMultishot (rs_dd k) uring_group_id,
       sq_flags = IOSQE_BUFFER_SELECT + IOSQE_FIXED_FILE, sq_data = s + SOCKET_READ\<rparr> st)
   }"

section \<open>Contexts\<close>

definition us_internal_loop_link_uring :: "addr \<Rightarrow> urs \<Rightarrow> urs option" where
  "us_internal_loop_link_uring context st = do {
     st \<leftarrow> wr_rc context (\<lambda>c. c\<lparr>rc_next := ur_head st, rc_prev := NULL\<rparr>) st;
     st \<leftarrow> (if ur_head st \<noteq> NULL then wr_rc (ur_head st) (\<lambda>c. c\<lparr>rc_prev := context\<rparr>) st else Some st);
     Some (st\<lparr>ur_head := context\<rparr>)
   }"

definition us_internal_socket_context_link_socket_uring :: "addr \<Rightarrow> addr \<Rightarrow> urs \<Rightarrow> urs option" where
  "us_internal_socket_context_link_socket_uring context s st = do {
     c \<leftarrow> rd_rc context st;
     st \<leftarrow> wr_rs s (\<lambda>k. k\<lparr>rs_context := context, rs_next := rc_head_sockets c, rs_prev := NULL\<rparr>) st;
     st \<leftarrow> (if rc_head_sockets c \<noteq> NULL then wr_rs (rc_head_sockets c) (\<lambda>k. k\<lparr>rs_prev := s\<rparr>) st else Some st);
     wr_rc context (\<lambda>c. c\<lparr>rc_head_sockets := s\<rparr>) st
   }"

definition us_create_socket_context_uring :: "uring_env \<Rightarrow> urs \<Rightarrow> (addr \<times> urs) option" where
  "us_create_socket_context_uring E st = (
     let (context, st) = u_alloc E (RContext ((ue_new_context E st)\<lparr>rc_head_sockets := NULL, rc_head_listen_sockets := NULL,
           rc_iterator := NULL, rc_next := NULL, rc_timestamp := 0, rc_long_timestamp := 0, rc_global_tick := 0\<rparr>)) st
     in do {
       st \<leftarrow> us_internal_loop_link_uring context st;
       Some (context, st)
     })"

definition us_create_child_socket_context_uring :: "uring_env \<Rightarrow> addr \<Rightarrow> urs \<Rightarrow> (addr \<times> urs) option" where
  "us_create_child_socket_context_uring E context st = do {
     _ \<leftarrow> rd_rc context st;
     us_create_socket_context_uring E st
   }"

definition us_socket_context_adopt_socket_uring :: "addr \<Rightarrow> addr \<Rightarrow> urs \<Rightarrow> (addr \<times> urs) option" where
  "us_socket_context_adopt_socket_uring context s st = do {
     st \<leftarrow> wr_rs s (\<lambda>k. k\<lparr>rs_context := context\<rparr>) st;
     Some (s, st)
   }"

definition us_socket_context_on_open_uring :: "addr \<Rightarrow> fnptr \<Rightarrow> urs \<Rightarrow> urs option" where
  "us_socket_context_on_open_uring context f = wr_rc context (\<lambda>c. c\<lparr>rc_on_open := f\<rparr>)"

definition us_socket_context_on_close_uring :: "addr \<Rightarrow> fnptr \<Rightarrow> urs \<Rightarrow> urs option" where
  "us_socket_context_on_close_uring context f = wr_rc context (\<lambda>c. c\<lparr>rc_on_close := f\<rparr>)"

definition us_socket_context_on_data_uring :: "addr \<Rightarrow> fnptr \<Rightarrow> urs \<Rightarrow> urs option" where
  "us_socket_context_on_data_uring context f = wr_rc context (\<lambda>c. c\<lparr>rc_on_data := f\<rparr>)"

definition us_socket_context_on_long_timeout_uring :: "addr \<Rightarrow> fnptr \<Rightarrow> urs \<Rightarrow> urs option" where
  "us_socket_context_on_long_timeout_uring context f = wr_rc context (\<lambda>c. c\<lparr>rc_on_socket_long_timeout := f\<rparr>)"

definition us_socket_context_on_timeout_uring :: "addr \<Rightarrow> fnptr \<Rightarrow> urs \<Rightarrow> urs option" where
  "us_socket_context_on_timeout_uring context f = wr_rc context (\<lambda>c. c\<lparr>rc_on_socket_timeout := f\<rparr>)"

text \<open>These set handlers the back end never calls, or do nothing at all.\<close>

definition us_socket_context_on_writable_uring :: "addr \<Rightarrow> fnptr \<Rightarrow> urs \<Rightarrow> urs" where
  "us_socket_context_on_writable_uring context f st = st"

definition us_socket_context_on_end_uring :: "addr \<Rightarrow> fnptr \<Rightarrow> urs \<Rightarrow> urs" where
  "us_socket_context_on_end_uring context f st = st"

definition us_socket_context_on_connect_error_uring :: "addr \<Rightarrow> fnptr \<Rightarrow> urs \<Rightarrow> urs" where
  "us_socket_context_on_connect_error_uring context f st = st"

definition us_socket_context_close_uring :: "addr \<Rightarrow> urs \<Rightarrow> urs" where
  "us_socket_context_close_uring context st = st"

definition us_listen_socket_close_uring :: "addr \<Rightarrow> urs \<Rightarrow> urs" where
  "us_listen_socket_close_uring ls st = st"

definition us_socket_context_free_uring :: "addr \<Rightarrow> urs \<Rightarrow> urs" where
  "us_socket_context_free_uring context st = st"


section \<open>Listening and connecting\<close>

definition sockaddr_any :: "int \<Rightarrow> byte list" where
  "sockaddr_any port = [2, 0, word_of_int (port div 256), word_of_int port] @ replicate 12 0"

text \<open>The host is ignored and the results of creating the descriptor and of setting options are not looked at.\<close>

definition us_socket_context_listen_uring ::
  "uring_env \<Rightarrow> addr \<Rightarrow> string option \<Rightarrow> int \<Rightarrow> int \<Rightarrow> int \<Rightarrow> urs \<Rightarrow> perr + addr \<times> urs" where
  "us_socket_context_listen_uring E context host port options socket_ext_size st = (
     let OS = ue_os E;
         (listen_s, st) = u_alloc E (RListen context socket_ext_size) st;
         (fd, h) = sys_call OS (Socket AF_INET SOCK_STREAM 0) (ur_hist st);
         h = bsd_socket_nodelay OS fd 1 h;
         (_, h) = sys_call OS (Setsockopt fd SO_REUSEADDR 1) h;
         (_, h) = sys_call OS (Setsockopt fd SO_REUSEPORT 1) h;
         (b, h) = sys_call OS (Bind fd (sockaddr_any port)) h
     in if b < 0 then Inl Exits else
     let (l, h) = sys_call OS (Listen fd 512) h
     in if l < 0 then Inl Exits else
     ebind (esome (io_uring_get_sqe (st\<lparr>ur_hist := h\<rparr>))) (\<lambda>(i, st).
     Inr (listen_s, put_sqe i \<lparr>sq_op = OpAcceptMultishotDirect fd, sq_flags = 0, sq_data = listen_s + LISTEN_SOCKET_ACCEPT\<rparr> st)))"

definition us_socket_context_listen_unix_uring :: "urs \<Rightarrow> addr \<times> urs" where
  "us_socket_context_listen_unix_uring st = (NULL, st)"

definition us_socket_context_connect_unix_uring :: "urs \<Rightarrow> addr \<times> urs" where
  "us_socket_context_connect_unix_uring st = (NULL, st)"

text \<open>
  The descriptor to connect with is entered into the ring's table of files under the running
  number of the connection. The socket is linked before anything can fail.
\<close>

definition new_socket_uring :: "uring_env \<Rightarrow> addr \<Rightarrow> urs \<Rightarrow> us_uring_socket" where
  "new_socket_uring E context st = (ue_new_socket E st)\<lparr>rs_context := context, rs_timeout := 255, rs_long_timeout := 255\<rparr>"

definition connect_fd_uring :: "os \<Rightarrow> addrinfo \<Rightarrow> addrinfo list \<Rightarrow> string option \<Rightarrow> hist \<Rightarrow> int option \<times> hist" where
  "connect_fd_uring OS a result source_host h = (
     let (fd, h) = bsd_create_socket OS (ai_family a) (ai_socktype a) (ai_protocol a) h;
         h = bsd_socket_nodelay OS fd 1 h
     in if fd = SOCKET_ERROR then (None, snd (sys_call OS (Freeaddrinfo result) h)) else
     let (bad, h) = (case source_host of None \<Rightarrow> (False, h)
         | Some src \<Rightarrow>
           let (r, h) = sys_call OS (Getaddrinfo (Some src) None False 0) h;
               interface_result = os_addrinfo OS h
           in if r \<noteq> 0 then (False, h) else
           let (ret, h) = sys_call OS (Bind fd (addr_of (if interface_result = [] then None else Some (hd interface_result)))) h;
               h = snd (sys_call OS (Freeaddrinfo interface_result) h)
           in (ret = SOCKET_ERROR, h))
     in if bad then
       let h = bsd_close_socket OS fd h
       in (None, snd (sys_call OS (Freeaddrinfo result) h))
     else (Some fd, h))"

definition enter_connect :: "os \<Rightarrow> addr \<Rightarrow> int \<Rightarrow> addrinfo list \<Rightarrow> urs \<Rightarrow> (addr \<times> urs) option" where
  "enter_connect OS s fd result st = do {
     (i, st) \<leftarrow> io_uring_get_sqe st;
     let n = ur_num_sockets st;
     let st = u_emit (URegisterFile n fd) st;
     st \<leftarrow> wr_rs s (\<lambda>k. k\<lparr>rs_dd := int n\<rparr>) st;
     let st = st\<lparr>ur_num_sockets := n + 1\<rparr>;
     let st = put_sqe i \<lparr>sq_op = OpConnect fd (ai_addr (hd result)), sq_flags = 0, sq_data = s + SOCKET_CONNECT\<rparr> st;
     Some (s, st\<lparr>ur_hist := snd (sys_call OS (Freeaddrinfo result) (ur_hist st))\<rparr>)
   }"

definition us_socket_context_connect_uring ::
  "uring_env \<Rightarrow> addr \<Rightarrow> string \<Rightarrow> int \<Rightarrow> string option \<Rightarrow> int \<Rightarrow> int \<Rightarrow> urs \<Rightarrow> (addr \<times> urs) option" where
  "us_socket_context_connect_uring E context host port source_host options socket_ext_size st = (
     let (s, st) = u_alloc E (RSocket (new_socket_uring E context st)) st
     in do {
       st \<leftarrow> us_internal_socket_context_link_socket_uring context s st;
       let OS = ue_os E;
       let (r, h) = sys_call OS (Getaddrinfo (Some host) (Some (port_string port)) False SOCK_STREAM) (ur_hist st);
       let result = os_addrinfo OS h;
       if r \<noteq> 0 then Some (NULL, st\<lparr>ur_hist := h\<rparr>) else if result = [] then None else do {
         let (fd, h) = connect_fd_uring OS (hd result) result source_host h;
         let st = st\<lparr>ur_hist := h\<rparr>;
         case fd of None \<Rightarrow> Some (NULL, st) | Some fd \<Rightarrow> enter_connect OS s fd result st
       }
     })"

section \<open>Sockets\<close>

definition us_socket_context_uring :: "addr \<Rightarrow> urs \<Rightarrow> addr option" where
  "us_socket_context_uring s st = map_option rs_context (rd_rs s st)"

definition us_socket_timeout_uring :: "addr \<Rightarrow> u32 \<Rightarrow> urs \<Rightarrow> urs option" where
  "us_socket_timeout_uring s seconds st =
     (if seconds \<noteq> 0 then do {
        k \<leftarrow> rd_rs s st;
        c \<leftarrow> rd_rc (rs_context k) st;
        wr_rs s (\<lambda>k. k\<lparr>rs_timeout := ucast ((ucast (rc_timestamp c) + drop_bit 2 (seconds + 3)) mod 240)\<rparr>) st
      } else wr_rs s (\<lambda>k. k\<lparr>rs_timeout := 255\<rparr>) st)"

definition us_socket_long_timeout_uring :: "addr \<Rightarrow> u32 \<Rightarrow> urs \<Rightarrow> urs option" where
  "us_socket_long_timeout_uring s minutes st =
     (if minutes \<noteq> 0 then do {
        k \<leftarrow> rd_rs s st;
        c \<leftarrow> rd_rc (rs_context k) st;
        wr_rs s (\<lambda>k. k\<lparr>rs_long_timeout := ucast ((ucast (rc_long_timestamp c) + minutes) mod 240)\<rparr>) st
      } else wr_rs s (\<lambda>k. k\<lparr>rs_long_timeout := 255\<rparr>) st)"

text \<open>
  Data other than the socket's own buffer (\<open>None\<close>) is copied there, past its end if it is longer.
  Every write is reported as done in full.
\<close>

definition us_socket_write_uring :: "addr \<Rightarrow> byte list option \<Rightarrow> nat \<Rightarrow> urs \<Rightarrow> (int \<times> urs) option" where
  "us_socket_write_uring s data len st = do {
     k \<leftarrow> rd_rs s st;
     st \<leftarrow> (case data of None \<Rightarrow> Some st | Some bs \<Rightarrow>
       if len > send_buf_size then None else wr_rs s (\<lambda>k. k\<lparr>rs_send_buf := take len bs @ drop len (rs_send_buf k)\<rparr>) st);
     (i, st) \<leftarrow> io_uring_get_sqe st;
     Some (int len, put_sqe i \<lparr>sq_op = OpSend (rs_dd k) s len, sq_flags = IOSQE_FIXED_FILE, sq_data = s + SOCKET_WRITE\<rparr> st)
   }"

definition us_socket_write2_uring :: "addr \<Rightarrow> byte list \<Rightarrow> byte list \<Rightarrow> urs \<Rightarrow> perr + int \<times> urs" where
  "us_socket_write2_uring s header payload st = Inl Exits"

definition us_socket_close_uring :: "addr \<Rightarrow> urs \<Rightarrow> addr \<times> urs" where
  "us_socket_close_uring s st = (s, st)"

definition us_socket_close_connecting_uring :: "addr \<Rightarrow> urs \<Rightarrow> addr \<times> urs" where
  "us_socket_close_connecting_uring s st = (s, st)"

definition us_socket_is_closed_uring :: "addr \<Rightarrow> urs \<Rightarrow> bool" where
  "us_socket_is_closed_uring s st \<longleftrightarrow> False"

definition us_socket_is_established_uring :: "addr \<Rightarrow> urs \<Rightarrow> bool" where
  "us_socket_is_established_uring s st \<longleftrightarrow> True"

definition us_socket_is_shut_down_uring :: "addr \<Rightarrow> urs \<Rightarrow> bool" where
  "us_socket_is_shut_down_uring s st \<longleftrightarrow> False"

definition us_socket_shutdown_uring :: "addr \<Rightarrow> urs \<Rightarrow> urs" where
  "us_socket_shutdown_uring s st = st"

definition us_socket_shutdown_read_uring :: "addr \<Rightarrow> urs \<Rightarrow> urs" where
  "us_socket_shutdown_read_uring s st = st"

definition us_socket_flush_uring :: "addr \<Rightarrow> urs \<Rightarrow> urs" where
  "us_socket_flush_uring s st = st"

definition us_socket_local_port_uring :: "addr \<Rightarrow> urs \<Rightarrow> int" where
  "us_socket_local_port_uring s st = 0"

definition us_socket_remote_port_uring :: "addr \<Rightarrow> urs \<Rightarrow> int" where
  "us_socket_remote_port_uring s st = 0"


section \<open>The loop\<close>

definition us_create_timer_uring :: "uring_env \<Rightarrow> urs \<Rightarrow> addr \<times> urs" where
  "us_create_timer_uring E st = (
     let st = u_emit UTimerfdCreate st;
         fd = ue_ret E st
     in if fd = -1 then (NULL, st) else u_alloc E (RTimer fd) st)"

definition read_timer_uring :: "addr \<Rightarrow> urs \<Rightarrow> urs option" where
  "read_timer_uring t st = do {
     (i, st) \<leftarrow> io_uring_get_sqe st;
     fd \<leftarrow> rd_timer t st;
     Some (put_sqe i \<lparr>sq_op = OpRead fd t, sq_flags = 0, sq_data = t + LOOP_TIMER\<rparr> st)
   }"

definition us_timer_set_uring :: "addr \<Rightarrow> int \<Rightarrow> int \<Rightarrow> urs \<Rightarrow> urs option" where
  "us_timer_set_uring t ms repeat_ms st = do {
     fd \<leftarrow> rd_timer t st;
     let st = u_emit (UTimerfdSettime fd (timespec_of_ms repeat_ms) (timespec_of_ms ms)) st;
     read_timer_uring t st
   }"

definition fill_buf_ring :: "urs \<Rightarrow> urs" where
  "fill_buf_ring st = (
     let st = fold (\<lambda>i. io_uring_buf_ring_add i i) [0..<BUFFERS_COUNT] (st\<lparr>ur_tail := 0\<rparr>)
     in st\<lparr>ur_tail := ur_tail st + of_nat BUFFERS_COUNT\<rparr>)"

text \<open>
  \<open>io_uring_buf_ring_advance\<close> moves the tail past the buffers added. The timer is not checked;
  nor is the memory of the ring.
\<close>

definition us_create_loop_uring :: "uring_env \<Rightarrow> urs \<Rightarrow> perr + urs" where
  "us_create_loop_uring E st = (
     let (t, st) = us_create_timer_uring E st;
         st = st\<lparr>ur_timer := t, ur_head := NULL, ur_iterator := NULL\<rparr>;
         st = u_emit URingInit st
     in if ue_ret E st < 0 then Inl Exits else
     let st = u_emit (URegisterFiles 1024) (st\<lparr>ur_sq := []\<rparr>)
     in if ue_ret E st \<noteq> 0 then Inl Exits else
     let st = u_emit URegisterRing st;
         st = u_emit URegisterBufRing st
     in if ue_ret E st \<noteq> 0 then Inl Exits else
     Inr (fill_buf_ring st))"

text \<open>The sweep is the one of \<open>src/loop.c\<close>, over these sockets.\<close>

partial_function (option) sweep_seek_uring :: "u8 \<Rightarrow> u8 \<Rightarrow> addr \<Rightarrow> urs \<Rightarrow> addr option" where
  "sweep_seek_uring short long s st = do {
     k \<leftarrow> rd_rs s st;
     if short = rs_timeout k \<or> long = rs_long_timeout k then Some s
     else if rs_next k = NULL then Some NULL
     else sweep_seek_uring short long (rs_next k) st
   }"

definition sweep_emit_uring :: "uring_env \<Rightarrow> addr \<Rightarrow> u8 \<Rightarrow> u8 \<Rightarrow> addr \<Rightarrow> urs \<Rightarrow> urs option" where
  "sweep_emit_uring E context short long s st = do {
     st \<leftarrow> wr_rc context (\<lambda>c. c\<lparr>rc_iterator := s\<rparr>) st;
     k \<leftarrow> rd_rs s st;
     st \<leftarrow> (if short = rs_timeout k then do {
           st \<leftarrow> wr_rs s (\<lambda>k. k\<lparr>rs_timeout := 255\<rparr>) st;
           c \<leftarrow> rd_rc context st;
           u_handler E (rc_on_socket_timeout c) (UTimeout s) st }
         else Some st);
     c \<leftarrow> rd_rc context st;
     if rc_iterator c = s then do {
       k \<leftarrow> rd_rs s st;
       if long = rs_long_timeout k then do {
         st \<leftarrow> wr_rs s (\<lambda>k. k\<lparr>rs_long_timeout := 255\<rparr>) st;
         c \<leftarrow> rd_rc context st;
         u_handler E (rc_on_socket_long_timeout c) (ULongTimeout s) st
       } else Some st
     } else Some st
   }"

partial_function (option) sweep_sockets_uring :: "uring_env \<Rightarrow> addr \<Rightarrow> u8 \<Rightarrow> u8 \<Rightarrow> addr \<Rightarrow> urs \<Rightarrow> urs option" where
  "sweep_sockets_uring E context short long s st = (if s = NULL then Some st else do {
     s \<leftarrow> sweep_seek_uring short long s st;
     if s = NULL then Some st else do {
       st \<leftarrow> sweep_emit_uring E context short long s st;
       c \<leftarrow> rd_rc context st;
       if s = rc_iterator c then do {
         k \<leftarrow> rd_rs s st;
         sweep_sockets_uring E context short long (rs_next k) st
       } else sweep_sockets_uring E context short long (rc_iterator c) st
     }
   })"

definition sweep_context_uring :: "uring_env \<Rightarrow> addr \<Rightarrow> urs \<Rightarrow> urs option" where
  "sweep_context_uring E context st = do {
     st \<leftarrow> wr_rc context (\<lambda>c. c\<lparr>rc_global_tick := rc_global_tick c + 1\<rparr>) st;
     st \<leftarrow> wr_rc context (\<lambda>c. c\<lparr>rc_timestamp := short_ticks (rc_global_tick c), rc_long_timestamp := long_ticks (rc_global_tick c)\<rparr>) st;
     c \<leftarrow> rd_rc context st;
     st \<leftarrow> sweep_sockets_uring E context (rc_timestamp c) (rc_long_timestamp c) (rc_head_sockets c) st;
     wr_rc context (\<lambda>c. c\<lparr>rc_iterator := NULL\<rparr>) st
   }"

partial_function (option) sweep_contexts_uring :: "uring_env \<Rightarrow> urs \<Rightarrow> urs option" where
  "sweep_contexts_uring E st = (if ur_iterator st = NULL then Some st else do {
     st \<leftarrow> sweep_context_uring E (ur_iterator st) st;
     c \<leftarrow> rd_rc (ur_iterator st) st;
     sweep_contexts_uring E (st\<lparr>ur_iterator := rc_next c\<rparr>)
   })"

definition us_internal_timer_sweep_uring :: "uring_env \<Rightarrow> urs \<Rightarrow> urs option" where
  "us_internal_timer_sweep_uring E st = sweep_contexts_uring E (st\<lparr>ur_iterator := ur_head st\<rparr>)"

text \<open>A completion's user data is taken apart by its low three bits.\<close>

definition cqe_tag :: "nat \<Rightarrow> nat" where "cqe_tag d = d mod 8"
definition cqe_object :: "nat \<Rightarrow> addr" where "cqe_object d = d - d mod 8"

definition complete_accept :: "uring_env \<Rightarrow> addr \<Rightarrow> int \<Rightarrow> urs \<Rightarrow> urs option" where
  "complete_accept E listen_s res st = (case ur_objs st listen_s of
     Some (RListen context ext_size) \<Rightarrow> do {
       let (s, st) = u_alloc E (RSocket ((ue_new_socket E st)\<lparr>rs_context := context, rs_dd := res,
             rs_timeout := 255, rs_long_timeout := 255, rs_prev := NULL, rs_next := NULL\<rparr>)) st;
       st \<leftarrow> us_internal_socket_context_link_socket_uring context s st;
       st \<leftarrow> (if res \<ge> 0 then start_read_uring s st else Some st);
       k \<leftarrow> rd_rs s st;
       c \<leftarrow> rd_rc (rs_context k) st;
       u_handler E (rc_on_open c) (UOpen s) st
     }
   | _ \<Rightarrow> None)"

text \<open>The number of the buffer is in the upper half of the flags, whether or not the kernel picked one.\<close>

definition cqe_bid :: "u32 \<Rightarrow> nat" where "cqe_bid flags = unat (drop_bit 16 flags)"

definition complete_read :: "uring_env \<Rightarrow> addr \<Rightarrow> int \<Rightarrow> nat \<Rightarrow> urs \<Rightarrow> urs option" where
  "complete_read E s res bid st =
     (if res \<le> 0 then do {
        st \<leftarrow> readd_buffer bid st;
        (i, st) \<leftarrow> io_uring_get_sqe st;
        k \<leftarrow> rd_rs s st;
        c \<leftarrow> rd_rc (rs_context k) st;
        st \<leftarrow> u_handler E (rc_on_close c) (UClose s) st;
        k \<leftarrow> rd_rs s st;
        Some (put_sqe i \<lparr>sq_op = OpCloseDirect (rs_dd k), sq_flags = IOSQE_CQE_SKIP_SUCCESS, sq_data = 5\<rparr> st)
      } else do {
        k \<leftarrow> rd_rs s st;
        c \<leftarrow> rd_rc (rs_context k) st;
        st \<leftarrow> (if bid \<ge> BUFFERS_COUNT then None else u_handler E (rc_on_data c) (UData s (take (nat res) (ur_bufs st bid))) st);
        readd_buffer bid st
      })"

definition complete_connect :: "uring_env \<Rightarrow> addr \<Rightarrow> urs \<Rightarrow> urs option" where
  "complete_connect E s st = do {
     st \<leftarrow> start_read_uring s st;
     k \<leftarrow> rd_rs s st;
     c \<leftarrow> rd_rc (rs_context k) st;
     u_handler E (rc_on_open c) (UOpen s) st
   }"

definition complete_timer :: "uring_env \<Rightarrow> addr \<Rightarrow> urs \<Rightarrow> urs option" where
  "complete_timer E t st = do {
     st \<leftarrow> us_internal_timer_sweep_uring E st;
     read_timer_uring t st
   }"

definition handle_cqe :: "uring_env \<Rightarrow> cqe \<Rightarrow> urs \<Rightarrow> perr + urs" where
  "handle_cqe E q st = (
     let tag = cqe_tag (cq_data q); x = cqe_object (cq_data q); res = cq_res q
     in if tag = 6 then Inl Exits
     else if res = - ENOBUFS then Inl Exits
     else if tag = LISTEN_SOCKET_ACCEPT then esome (complete_accept E x res st)
     else if tag = SOCKET_READ then esome (complete_read E x res (cqe_bid (cq_flags q)) st)
     else if tag = SOCKET_WRITE then Inr st
     else if tag = SOCKET_CONNECT then esome (complete_connect E x st)
     else if tag = LOOP_TIMER then esome (complete_timer E x st)
     else Inr st)"

fun handle_cqes :: "uring_env \<Rightarrow> cqe list \<Rightarrow> urs \<Rightarrow> perr + urs" where
  "handle_cqes E [] st = Inr st"
| "handle_cqes E (q # qs) st = ebind (handle_cqe E q st) (handle_cqes E qs)"

text \<open>One turn of the loop: submit what is queued, wait, handle the completions.\<close>

definition uring_turn :: "uring_env \<Rightarrow> urs \<Rightarrow> perr + urs" where
  "uring_turn E st = (
     let st = u_emit (USubmit (ur_sq st)) (st\<lparr>ur_sq := []\<rparr>);
         (qs, b) = ue_cqes E st
     in handle_cqes E qs (st\<lparr>ur_bufs := b\<rparr>))"

fun uring_turns :: "uring_env \<Rightarrow> nat \<Rightarrow> urs \<Rightarrow> perr + urs" where
  "uring_turns E 0 st = Inr st"
| "uring_turns E (Suc n) st = ebind (uring_turn E st) (uring_turns E n)"

text \<open>The loop never ends by itself; \<open>n\<close> is how many turns of it are looked at.\<close>

definition us_loop_run_uring :: "uring_env \<Rightarrow> nat \<Rightarrow> urs \<Rightarrow> perr + urs" where
  "us_loop_run_uring E n st =
     ebind (esome (us_timer_set_uring (ur_timer st) (LIBUS_TIMEOUT_GRANULARITY * 1000) (LIBUS_TIMEOUT_GRANULARITY * 1000) st)) (uring_turns E n)"

definition us_timer_close_uring :: "addr \<Rightarrow> urs \<Rightarrow> urs" where
  "us_timer_close_uring t st = st"

definition us_loop_free_uring :: "urs \<Rightarrow> urs" where
  "us_loop_free_uring st = st"

definition us_wakeup_loop_uring :: "urs \<Rightarrow> urs" where
  "us_wakeup_loop_uring st = st"

definition us_internal_loop_unlink_uring :: "addr \<Rightarrow> urs \<Rightarrow> urs" where
  "us_internal_loop_unlink_uring context st = st"


section \<open>The provided buffers\<close>

text \<open>What lies in the ring of buffers; a handler leaves the ring alone.\<close>

definition keeps_ring :: "uring_env \<Rightarrow> bool" where
  "keeps_ring E \<longleftrightarrow> (\<forall>f c st st'. ue_handler E f c st = Some st' \<longrightarrow> ur_slots st' = ur_slots st \<and> ur_tail st' = ur_tail st)"

definition same_ring :: "urs \<Rightarrow> urs \<Rightarrow> bool" where
  "same_ring st st' \<longleftrightarrow> ur_slots st' = ur_slots st \<and> ur_tail st' = ur_tail st"

named_theorems ring

lemma same_ring_refl [simp]: "same_ring st st"
  by (simp add: same_ring_def)

lemma same_ring_trans: "same_ring st st1 \<Longrightarrow> same_ring st1 st2 \<Longrightarrow> same_ring st st2"
  by (simp add: same_ring_def)

lemma ring_handler [ring]: "keeps_ring E \<Longrightarrow> u_handler E f c st = Some st' \<Longrightarrow> same_ring st st'"
  by (auto simp: u_handler_def keeps_ring_def same_ring_def u_emit_def split: if_splits)

lemma ring_wr [ring]:
  "wr_rs a f st = Some st' \<Longrightarrow> same_ring st st'" "wr_rc a g st = Some st' \<Longrightarrow> same_ring st st'"
  by (auto simp: wr_rs_def wr_rc_def same_ring_def)

lemma ring_sqe [ring]:
  "io_uring_get_sqe st = Some (i, st') \<Longrightarrow> same_ring st st'" "same_ring st (put_sqe i q st)"
  by (auto simp: io_uring_get_sqe_def put_sqe_def same_ring_def split: if_splits)

lemma ring_alloc [ring]: "u_alloc E x st = (a, st') \<Longrightarrow> same_ring st st'"
  by (auto simp: u_alloc_def same_ring_def Let_def)

lemma ring_link [ring]: "us_internal_socket_context_link_socket_uring c s st = Some st' \<Longrightarrow> same_ring st st'"
  unfolding us_internal_socket_context_link_socket_uring_def
  by (auto simp: bind_eq_Some_conv same_ring_def split: if_splits dest!: ring_wr)

lemma ring_start [ring]: "start_read_uring s st = Some st' \<Longrightarrow> same_ring st st'"
  unfolding start_read_uring_def
  by (auto simp: bind_eq_Some_conv same_ring_def put_sqe_def dest!: ring_sqe(1))

lemma ring_read_timer [ring]: "read_timer_uring t st = Some st' \<Longrightarrow> same_ring st st'"
  unfolding read_timer_uring_def
  by (auto simp: bind_eq_Some_conv same_ring_def put_sqe_def dest!: ring_sqe(1))

lemma ring_accept:
  assumes K: "keeps_ring E"
  shows "complete_accept E l res st = Some st' \<Longrightarrow> same_ring st st'"
  unfolding complete_accept_def
  by (auto simp: bind_eq_Some_conv Let_def same_ring_def split: option.splits uring_obj.splits if_splits prod.splits
      dest!: ring_alloc ring_link ring_start ring_handler [OF K])

lemma ring_connect:
  assumes K: "keeps_ring E"
  shows "complete_connect E s st = Some st' \<Longrightarrow> same_ring st st'"
  unfolding complete_connect_def
  by (auto simp: bind_eq_Some_conv same_ring_def dest!: ring_start ring_handler [OF K])

lemma ring_sweep_emit:
  assumes K: "keeps_ring E" and e: "sweep_emit_uring E x short long s st = Some st'"
  shows "same_ring st st'"
proof -
  let ?short = "\<lambda>(k :: us_uring_socket) st. if short = rs_timeout k then do {
       st \<leftarrow> wr_rs s (\<lambda>k. k\<lparr>rs_timeout := 255\<rparr>) st; c \<leftarrow> rd_rc x st; u_handler E (rc_on_socket_timeout c) (UTimeout s) st } else Some st"
  let ?long = "\<lambda>(c :: us_uring_context) st. if rc_iterator c = s then do {
       k \<leftarrow> rd_rs s st;
       if long = rs_long_timeout k then do {
         st \<leftarrow> wr_rs s (\<lambda>k. k\<lparr>rs_long_timeout := 255\<rparr>) st; c \<leftarrow> rd_rc x st; u_handler E (rc_on_socket_long_timeout c) (ULongTimeout s) st
       } else Some st } else Some st"
  have S: "?short k a = Some b \<Longrightarrow> same_ring a b" for k a b
    by (auto simp: bind_eq_Some_conv split: if_split_asm dest!: ring_wr(1) ring_handler [OF K] intro: same_ring_trans)
  have L: "?long c a = Some b \<Longrightarrow> same_ring a b" for c a b
    by (auto simp: bind_eq_Some_conv split: if_split_asm dest!: ring_wr(1) ring_handler [OF K] intro: same_ring_trans)
  obtain st1 where 1: "wr_rc x (\<lambda>c. c\<lparr>rc_iterator := s\<rparr>) st = Some st1"
      and e1: "Option.bind (rd_rs s st1) (\<lambda>k. Option.bind (?short k st1) (\<lambda>st. Option.bind (rd_rc x st) (\<lambda>c. ?long c st))) = Some st'"
    using e unfolding sweep_emit_uring_def by (rule bind_eq_SomeE)
  obtain k where e2: "Option.bind (?short k st1) (\<lambda>st. Option.bind (rd_rc x st) (\<lambda>c. ?long c st)) = Some st'"
    using e1 by (rule bind_eq_SomeE)
  obtain st2 where 2: "?short k st1 = Some st2" and e3: "Option.bind (rd_rc x st2) (\<lambda>c. ?long c st2) = Some st'"
    using e2 by (rule bind_eq_SomeE)
  obtain c where 3: "?long c st2 = Some st'" using e3 by (rule bind_eq_SomeE)
  show ?thesis using ring_wr(2) [OF 1] S [OF 2] L [OF 3] same_ring_trans by blast
qed

lemma ring_sweep_sockets:
  assumes K: "keeps_ring E" and e: "sweep_sockets_uring E x0 short0 long0 s0 st0 = Some st1"
  shows "same_ring st0 st1"
proof -
  have "E = E \<longrightarrow> same_ring st0 st1"
  proof (rule sweep_sockets_uring.raw_induct [where P = "\<lambda>E' x short long s st st'. E' = E \<longrightarrow> same_ring st st'", OF _ e], rule impI)
    fix sweep E' x short long s st st'
    assume 1: "\<And>E' x short long s st st'. sweep E' x short long s st = Some st' \<Longrightarrow> E' = E \<longrightarrow> same_ring st st'"
      "(if s = NULL then Some st else do {
         s \<leftarrow> sweep_seek_uring short long s st;
         if s = NULL then Some st else do {
           st \<leftarrow> sweep_emit_uring E' x short long s st; c \<leftarrow> rd_rc x st;
           if s = rc_iterator c then do { k \<leftarrow> rd_rs s st; sweep E' x short long (rs_next k) st }
           else sweep E' x short long (rc_iterator c) st } }) = Some st'" "E' = E"
    show "same_ring st st'"
  proof (cases "s = NULL")
    case True
    then show ?thesis using 1(2) by simp
  next
    case False
    then obtain s1 where s1: "sweep_seek_uring short long s st = Some s1"
      "(if s1 = NULL then Some st else do {
         st \<leftarrow> sweep_emit_uring E' x short long s1 st; c \<leftarrow> rd_rc x st;
         if s1 = rc_iterator c then do { k \<leftarrow> rd_rs s1 st; sweep E' x short long (rs_next k) st }
         else sweep E' x short long (rc_iterator c) st }) = Some st'"
      using 1(2) by (auto simp: bind_eq_Some_conv)
    show ?thesis
    proof (cases "s1 = NULL")
      case True
      then show ?thesis using s1(2) by simp
    next
      case False
      then obtain st1 and c :: us_uring_context where 2: "sweep_emit_uring E' x short long s1 st = Some st1"
        "(if s1 = rc_iterator c then do { k \<leftarrow> rd_rs s1 st1; sweep E' x short long (rs_next k) st1 }
         else sweep E' x short long (rc_iterator c) st1) = Some st'"
        using s1(2) by (auto simp: bind_eq_Some_conv)
      have "\<exists>a. sweep E' x short long a st1 = Some st'" using 2(2) by (auto simp: bind_eq_Some_conv split: if_splits)
      then have "same_ring st1 st'" using 1(1,3) by blast
      moreover have "same_ring st st1" using ring_sweep_emit [OF K] 2(1) 1(3) by blast
      ultimately show ?thesis by (rule same_ring_trans [rotated])
    qed
  qed
  qed
  then show ?thesis by simp
qed

lemma ring_sweep_context:
  assumes K: "keeps_ring E"
  shows "sweep_context_uring E x st = Some st' \<Longrightarrow> same_ring st st'"
  unfolding sweep_context_uring_def
  by (auto simp: bind_eq_Some_conv same_ring_def dest!: ring_wr(2) ring_sweep_sockets [OF K])

lemma ring_sweep_contexts:
  assumes K: "keeps_ring E" and e: "sweep_contexts_uring E st0 = Some st1"
  shows "same_ring st0 st1"
proof -
  have "E = E \<longrightarrow> same_ring st0 st1"
  proof (rule sweep_contexts_uring.raw_induct [where P = "\<lambda>E' st st'. E' = E \<longrightarrow> same_ring st st'", OF _ e], rule impI)
    fix sweep E' st st'
    assume IH: "\<And>E' st st'. sweep E' st = Some st' \<Longrightarrow> E' = E \<longrightarrow> same_ring st st'" and E: "E' = E"
      and s: "(if ur_iterator st = NULL then Some st else do {
         st \<leftarrow> sweep_context_uring E' (ur_iterator st) st; c \<leftarrow> rd_rc (ur_iterator st) st;
         sweep E' (st\<lparr>ur_iterator := rc_next c\<rparr>) }) = Some st'"
    show "same_ring st st'"
    proof (cases "ur_iterator st = NULL")
      case True
      then show ?thesis using s by simp
    next
      case False
      then obtain st1 a where 1: "sweep_context_uring E' (ur_iterator st) st = Some st1" "sweep E' (st1\<lparr>ur_iterator := a\<rparr>) = Some st'"
        using s by (auto simp: bind_eq_Some_conv)
      have "same_ring (st1\<lparr>ur_iterator := a\<rparr>) st'" using IH [OF 1(2)] E by blast
      then show ?thesis using ring_sweep_context [OF K] 1(1) E by (auto simp: same_ring_def)
    qed
  qed
  then show ?thesis by simp
qed

lemma ring_timer:
  assumes K: "keeps_ring E"
  shows "complete_timer E t st = Some st' \<Longrightarrow> same_ring st st'"
  unfolding complete_timer_def us_internal_timer_sweep_uring_def
  by (auto simp: bind_eq_Some_conv same_ring_def dest!: ring_read_timer ring_sweep_contexts [OF K])

text \<open>Only a completed read moves the ring, by the buffer it gives back.\<close>

lemma ring_handle_cqe:
  assumes K: "keeps_ring E" and h: "handle_cqe E q st = Inr st'" and t: "cqe_tag (cq_data q) \<noteq> SOCKET_READ"
  shows "same_ring st st'"
  using h t by (auto simp: handle_cqe_def Let_def esome_def split: if_splits option.splits
    dest!: ring_accept [OF K] ring_connect [OF K] ring_timer [OF K])

lemma ring_complete_read:
  assumes K: "keeps_ring E" and r: "complete_read E s res bid st = Some st'"
  shows "bid < BUFFERS_COUNT \<and> ur_tail st' = ur_tail st + 1 \<and> ur_slots st' = (ur_slots st)(unat (ur_tail st) mod BUFFERS_COUNT := bid)"
proof (cases "res \<le> 0")
  case True
  then show ?thesis using r
    by (auto simp: complete_read_def bind_eq_Some_conv readd_buffer_def io_uring_buf_ring_add_def Let_def same_ring_def put_sqe_def
        split: if_splits dest!: ring_sqe(1) ring_handler [OF K])
next
  case False
  then show ?thesis using r
    by (auto simp: complete_read_def bind_eq_Some_conv readd_buffer_def io_uring_buf_ring_add_def Let_def same_ring_def
        split: if_splits dest!: ring_handler [OF K])
qed


text \<open>
  The loop together with the kernel's side of the ring: how many buffers the kernel has taken, how
  many were ever put in, and the buffers in completions that are not handled yet.
\<close>

type_synonym ring_state = "urs \<times> nat \<times> nat \<times> nat list"

inductive uring_step :: "uring_env \<Rightarrow> ring_state \<Rightarrow> ring_state \<Rightarrow> bool" for E where
  Take: "h < t \<Longrightarrow> uring_step E (st, h, t, fl) (st, Suc h, t, fl @ [ur_slots st (h mod BUFFERS_COUNT)])"
| Read: "bid \<in> set fl \<Longrightarrow> complete_read E s res bid st = Some st' \<Longrightarrow> uring_step E (st, h, t, fl) (st', h, Suc t, remove1 bid fl)"
| Other: "cqe_tag (cq_data q) \<noteq> SOCKET_READ \<Longrightarrow> handle_cqe E q st = Inr st' \<Longrightarrow> uring_step E (st, h, t, fl) (st', h, t, fl)"
| Submit: "uring_step E (st, h, t, fl) ((u_emit (USubmit (ur_sq st)) (st\<lparr>ur_sq := []\<rparr>))\<lparr>ur_bufs := b\<rparr>, h, t, fl)"
| Write: "us_socket_write_uring s d n st = Some (r, st') \<Longrightarrow> uring_step E (st, h, t, fl) (st', h, t, fl)"

inductive uring_reachable :: "uring_env \<Rightarrow> ring_state \<Rightarrow> bool" for E where
  Start: "us_create_loop_uring E st0 = Inr st \<Longrightarrow> uring_reachable E (st, 0, BUFFERS_COUNT, [])"
| Step: "uring_reachable E x \<Longrightarrow> uring_step E x y \<Longrightarrow> uring_reachable E y"

inductive_cases uring_stepE: "uring_step E (st, h, t, fl) y"

definition available :: "urs \<Rightarrow> nat \<Rightarrow> nat \<Rightarrow> nat list" where
  "available st h t = map (\<lambda>i. ur_slots st (i mod BUFFERS_COUNT)) [h..<t]"

definition ring_inv :: "ring_state \<Rightarrow> bool" where
  "ring_inv x \<longleftrightarrow> (case x of (st, h, t, fl) \<Rightarrow> h \<le> t \<and> unat (ur_tail st) = t mod 65536 \<and>
     mset (available st h t) + mset fl = mset [0..<BUFFERS_COUNT])"

lemma ring_inv_size: "ring_inv (st, h, t, fl) \<Longrightarrow> t - h + length fl = BUFFERS_COUNT"
proof -
  assume "ring_inv (st, h, t, fl)"
  then have "size (mset (available st h t) + mset fl) = size (mset [0..<BUFFERS_COUNT])" unfolding ring_inv_def by simp
  then show ?thesis by (simp add: available_def)
qed

lemma ring_inv_same: "same_ring st st' \<Longrightarrow> ring_inv (st, h, t, fl) \<Longrightarrow> ring_inv (st', h, t, fl)"
  by (simp add: ring_inv_def same_ring_def available_def)

lemma mod_window:
  assumes "h \<le> i" "i < t" "t < h + n"
  shows "i mod n \<noteq> t mod (n :: nat)"
proof
  assume "i mod n = t mod n"
  then have "n dvd t - i" using mod_eq_dvd_iff_nat [of i t n] assms(2) by simp
  then have "n \<le> t - i" using assms(2) by (intro dvd_imp_le) auto
  then show False using assms by linarith
qed

lemma ring_tail: "ring_inv (st, h, t, fl) \<Longrightarrow> unat (ur_tail st) mod BUFFERS_COUNT = t mod BUFFERS_COUNT"
  by (simp add: ring_inv_def BUFFERS_COUNT_def mod_mod_cancel)

lemma ring_readd:
  assumes I: "ring_inv (st, h, t, fl)" and lt: "t < h + BUFFERS_COUNT" and tl: "ur_tail st' = ur_tail st + 1"
    and sl: "ur_slots st' = (ur_slots st)(unat (ur_tail st) mod BUFFERS_COUNT := bid)"
  shows "available st' h (Suc t) = available st h t @ [bid]" and "unat (ur_tail st') = Suc t mod 65536"
proof -
  have ht: "h \<le> t" and u: "unat (ur_tail st) = t mod 65536" using I by (simp_all add: ring_inv_def)
  have k: "unat (ur_tail st) mod BUFFERS_COUNT = t mod BUFFERS_COUNT" by (rule ring_tail [OF I])
  have "map (\<lambda>i. ur_slots st' (i mod BUFFERS_COUNT)) [h..<t] = map (\<lambda>i. ur_slots st (i mod BUFFERS_COUNT)) [h..<t]"
    using mod_window [OF _ _ lt] unfolding sl k by (intro map_cong) auto
  then show "available st' h (Suc t) = available st h t @ [bid]" using ht by (simp add: available_def sl k)
  show "unat (ur_tail st') = Suc t mod 65536"
    unfolding tl by (simp add: unat_word_ariths u mod_simps)
qed

lemma ring_inv_step:
  assumes K: "keeps_ring E" and I: "ring_inv x" and s: "uring_step E x y"
  shows "ring_inv y"
  using s I
proof cases
  case (Take h t st fl)
  have "available st h t = ur_slots st (h mod BUFFERS_COUNT) # available st (Suc h) t"
    using Take(3) by (simp add: available_def upt_conv_Cons)
  then show ?thesis using I Take by (simp add: ring_inv_def)
next
  case (Read bid fl s res st st' h t)
  note c = ring_complete_read [OF K Read(4)]
  have I': "ring_inv (st, h, t, fl)" using I Read(1) by simp
  have "length fl > 0" using Read(3) by auto
  moreover have "h \<le> t" using I' by (simp add: ring_inv_def)
  ultimately have lt: "t < h + BUFFERS_COUNT" using ring_inv_size [OF I'] by linarith
  have a: "available st' h (Suc t) = available st h t @ [bid]" "unat (ur_tail st') = Suc t mod 65536"
    using ring_readd [OF I' lt] c by blast+
  have "mset (available st' h (Suc t)) + mset (remove1 bid fl) = mset (available st h t) + mset fl"
    using Read(3) unfolding a(1) by (simp flip: union_mset_add_mset_right)
  then show ?thesis using I' a(2) by (simp add: ring_inv_def Read(2))
next
  case (Other q st st' h t fl)
  then show ?thesis using ring_inv_same [OF ring_handle_cqe [OF K Other(4,3)]] I by simp
next
  case (Submit st h t fl b)
  have "same_ring st ((u_emit (USubmit (ur_sq st)) (st\<lparr>ur_sq := []\<rparr>))\<lparr>ur_bufs := b\<rparr>)" by (simp add: same_ring_def u_emit_def)
  from ring_inv_same [OF this] show ?thesis using I Submit by simp
next
  case (Write s d n st r st' h t fl)
  have "same_ring st st'" using Write(3)
    by (auto simp: us_socket_write_uring_def bind_eq_Some_conv same_ring_def put_sqe_def split: option.splits if_splits
        dest!: ring_sqe(1) ring_wr(1))
  from ring_inv_same [OF this] show ?thesis using I Write by simp
qed

lemma fold_ring_add:
  "n \<le> BUFFERS_COUNT \<Longrightarrow> ur_tail st = 0 \<Longrightarrow>
   fold (\<lambda>i. io_uring_buf_ring_add i i) [0..<n] st = st\<lparr>ur_slots := (\<lambda>k. if k < n then k else ur_slots st k)\<rparr>"
  by (induction n) (auto simp: io_uring_buf_ring_add_def fun_eq_iff)

lemma ring_inv_start:
  assumes "us_create_loop_uring E st0 = Inr st"
  shows "ring_inv (st, 0, BUFFERS_COUNT, [])"
proof -
  obtain st1 where st: "st = fill_buf_ring st1"
    using assms by (auto simp: us_create_loop_uring_def Let_def split: if_splits prod.splits)
  have "fold (\<lambda>i. io_uring_buf_ring_add i i) [0..<BUFFERS_COUNT] (st1\<lparr>ur_tail := 0\<rparr>) =
      (st1\<lparr>ur_tail := 0\<rparr>)\<lparr>ur_slots := (\<lambda>k. if k < BUFFERS_COUNT then k else ur_slots (st1\<lparr>ur_tail := 0\<rparr>) k)\<rparr>"
    by (rule fold_ring_add) simp_all
  then have t: "ur_tail st = of_nat BUFFERS_COUNT"
      and s: "ur_slots st = (\<lambda>k. if k < BUFFERS_COUNT then k else ur_slots (st1\<lparr>ur_tail := 0\<rparr>) k)"
    unfolding st fill_buf_ring_def by simp_all
  have "available st 0 BUFFERS_COUNT = map id [0..<BUFFERS_COUNT]" unfolding available_def s by (intro map_cong) auto
  moreover have "unat (of_nat BUFFERS_COUNT :: u16) = BUFFERS_COUNT mod 65536" by (simp add: BUFFERS_COUNT_def)
  ultimately show ?thesis by (simp add: ring_inv_def t)
qed

lemma uring_reachable_inv:
  assumes K: "keeps_ring E" and r: "uring_reachable E x"
  shows "ring_inv x"
  using r by induction (auto intro: ring_inv_start ring_inv_step [OF K])



section \<open>Writes and descriptors\<close>

text \<open>The bytes a queued send takes out of its socket's buffer when the kernel gets to it.\<close>

definition send_bytes :: "urs \<Rightarrow> sqe \<Rightarrow> byte list" where
  "send_bytes st q = (case sq_op q of OpSend dd s len \<Rightarrow> (case rd_rs s st of Some k \<Rightarrow> take len (rs_send_buf k) | None \<Rightarrow> []) | _ \<Rightarrow> [])"

text \<open>C36. Two writes to a socket in one turn of the loop are both reported as sent in full, but both
  requests read the one buffer of the socket when the queue is submitted: the second goes out as
  it is, the first with the bytes of the second over its own.\<close>

theorem uring_second_write_overwrites:
  assumes s: "rd_rs s st = Some k" "length (rs_send_buf k) = send_buf_size" and room: "length (ur_sq st) + 2 \<le> sq_entries"
    and len: "length d1 \<le> send_buf_size" "length d2 \<le> send_buf_size"
  shows "\<exists>st1 st2 q1 q2. us_socket_write_uring s (Some d1) (length d1) st = Some (int (length d1), st1) \<and>
    us_socket_write_uring s (Some d2) (length d2) st1 = Some (int (length d2), st2) \<and> ur_sq st2 = ur_sq st @ [q1, q2] \<and>
    send_bytes st2 q1 = take (length d1) (d2 @ drop (length d2) d1) \<and> send_bytes st2 q2 = d2"
proof -
  have nz: "s \<noteq> NULL" "ur_objs st s = Some (RSocket k)" using s(1) by (auto simp: rd_rs_def split: option.splits uring_obj.splits if_splits)
  let ?k1 = "k\<lparr>rs_send_buf := d1 @ drop (length d1) (rs_send_buf k)\<rparr>"
  let ?q = "\<lambda>n. \<lparr>sq_op = OpSend (rs_dd k) s n, sq_flags = IOSQE_FIXED_FILE, sq_data = s + SOCKET_WRITE\<rparr>"
  let ?st1 = "st\<lparr>ur_objs := (ur_objs st)(s \<mapsto> RSocket ?k1), ur_sq := ur_sq st @ [?q (length d1)]\<rparr>"
  let ?k2 = "?k1\<lparr>rs_send_buf := d2 @ drop (length d2) (rs_send_buf ?k1)\<rparr>"
  let ?st2 = "?st1\<lparr>ur_objs := (ur_objs ?st1)(s \<mapsto> RSocket ?k2), ur_sq := ur_sq st @ [?q (length d1), ?q (length d2)]\<rparr>"
  have 1: "us_socket_write_uring s (Some d1) (length d1) st = Some (int (length d1), ?st1)"
    using s(1) nz len(1) room by (simp add: us_socket_write_uring_def wr_rs_def io_uring_get_sqe_def put_sqe_def)
  have r1: "rd_rs s ?st1 = Some ?k1" using nz by (simp add: rd_rs_def)
  have 2: "us_socket_write_uring s (Some d2) (length d2) ?st1 = Some (int (length d2), ?st2)"
    using r1 nz len(2) room by (simp add: us_socket_write_uring_def wr_rs_def io_uring_get_sqe_def put_sqe_def list_update_append)
  have r2: "rd_rs s ?st2 = Some ?k2" using nz by (simp add: rd_rs_def)
  have "take (length d1) (d2 @ drop (length d2) (d1 @ drop (length d1) (rs_send_buf k))) = take (length d1) (d2 @ drop (length d2) d1)"
    by (simp add: take_drop)
  then have "send_bytes ?st2 (?q (length d1)) = take (length d1) (d2 @ drop (length d2) d1)" "send_bytes ?st2 (?q (length d2)) = d2"
    unfolding send_bytes_def using r2 by simp_all
  then show ?thesis using 1 2 by (intro exI [of _ ?st1] exI [of _ ?st2] exI [of _ "?q (length d1)"] exI [of _ "?q (length d2)"]) simp
qed

definition dd_frame :: "urs \<Rightarrow> urs \<Rightarrow> bool" where
  "dd_frame st st' \<longleftrightarrow> ur_num_sockets st' = ur_num_sockets st \<and> ur_calls st' = ur_calls st \<and>
     (\<forall>a. map_option rs_dd (rd_rs a st') = map_option rs_dd (rd_rs a st))"

lemma dd_frame_trans: "dd_frame st st1 \<Longrightarrow> dd_frame st1 st2 \<Longrightarrow> dd_frame st st2"
  by (simp add: dd_frame_def)

lemma dd_frame_wr:
  "wr_rc c g st = Some st' \<Longrightarrow> dd_frame st st'"
  "wr_rs s f st = Some st' \<Longrightarrow> (\<And>k. rs_dd (f k) = rs_dd k) \<Longrightarrow> dd_frame st st'"
  by (auto simp: dd_frame_def wr_rs_def wr_rc_def rd_rs_def rd_rc_def split: if_splits option.splits uring_obj.splits)

lemma uring_link_frame:
  assumes "us_internal_socket_context_link_socket_uring c s st = Some st'"
  shows "dd_frame st st'"
proof -
  obtain x :: us_uring_context and st1 st2
    where 1: "wr_rs s (\<lambda>k. k\<lparr>rs_context := c, rs_next := rc_head_sockets x, rs_prev := NULL\<rparr>) st = Some st1"
    and 2: "(if rc_head_sockets x \<noteq> NULL then wr_rs (rc_head_sockets x) (\<lambda>k. k\<lparr>rs_prev := s\<rparr>) st1 else Some st1) = Some st2"
    and 3: "wr_rc c (\<lambda>c. c\<lparr>rc_head_sockets := s\<rparr>) st2 = Some st'"
    using assms unfolding us_internal_socket_context_link_socket_uring_def by (elim bind_eq_SomeE) (erule (2) that)
  have "dd_frame st st1" by (rule dd_frame_wr(2) [OF 1]) simp
  moreover have "dd_frame st1 st2"
    using 2 dd_frame_wr(2) [of "rc_head_sockets x" "\<lambda>k. k\<lparr>rs_prev := s\<rparr>" st1 st2] by (auto simp: dd_frame_def split: if_splits)
  moreover have "dd_frame st2 st'" by (rule dd_frame_wr(1) [OF 3])
  ultimately show ?thesis using dd_frame_trans by blast
qed

lemma connect_success:
  assumes "us_socket_context_connect_uring E context host port source_host options ext_size st = Some (s, st')" "s \<noteq> NULL"
  obtains st1 h fd result where
    "us_internal_socket_context_link_socket_uring context (ue_malloc E st)
       (st\<lparr>ur_objs := (ur_objs st)(ue_malloc E st \<mapsto> RSocket (new_socket_uring E context st))\<rparr>) = Some st1"
    "enter_connect (ue_os E) (ue_malloc E st) fd result (st1\<lparr>ur_hist := h\<rparr>) = Some (s, st')"
proof -
  obtain st1 where 1: "us_internal_socket_context_link_socket_uring context (ue_malloc E st)
       (st\<lparr>ur_objs := (ur_objs st)(ue_malloc E st \<mapsto> RSocket (new_socket_uring E context st))\<rparr>) = Some st1"
    using assms(1) by (auto simp: us_socket_context_connect_uring_def u_alloc_def Let_def elim: bind_eq_SomeE)
  then show thesis using assms that
    by (auto simp: us_socket_context_connect_uring_def u_alloc_def Let_def split: if_splits option.splits prod.splits)
qed

lemma enter_connect_dd:
  assumes "enter_connect OS m fd result st = Some (s, st')"
  obtains k where "s = m" "rd_rs m st = Some k" "ur_calls st' = ur_calls st @ [URegisterFile (ur_num_sockets st) fd]"
    "ur_objs st' = (ur_objs st)(m \<mapsto> RSocket (k\<lparr>rs_dd := int (ur_num_sockets st)\<rparr>))"
  using assms by (auto simp: enter_connect_def Let_def wr_rs_def io_uring_get_sqe_def u_emit_def put_sqe_def rd_rs_def bind_eq_Some_conv
    split: if_splits option.splits uring_obj.splits)

text \<open>The descriptors of accepted sockets are given out by the kernel, those of connecting ones counted
  by the library from zero, in the same table: a connection gets the descriptor of a socket already
  accepted when the numbers meet, and takes over its entry of the table.\<close>

theorem uring_descriptors_clash:
  assumes a: "rd_rs a st = Some k" "rs_dd k = int (ur_num_sockets st)" and fresh: "ur_objs st (ue_malloc E st) = None"
    and c: "us_socket_context_connect_uring E context host port source_host options ext_size st = Some (s, st')" "s \<noteq> NULL"
  shows "s \<noteq> a \<and> (\<exists>k1 k2 fd. rd_rs a st' = Some k1 \<and> rd_rs s st' = Some k2 \<and> rs_dd k1 = rs_dd k2 \<and>
    ur_calls st' = ur_calls st @ [URegisterFile (nat (rs_dd k1)) fd])"
proof -
  let ?m = "ue_malloc E st"
  let ?st0 = "st\<lparr>ur_objs := (ur_objs st)(?m \<mapsto> RSocket (new_socket_uring E context st))\<rparr>"
  have am: "a \<noteq> ?m" "a \<noteq> NULL" using a(1) fresh by (auto simp: rd_rs_def split: option.splits uring_obj.splits if_splits)
  obtain st1 h fd result where l: "us_internal_socket_context_link_socket_uring context ?m ?st0 = Some st1"
    and e: "enter_connect (ue_os E) ?m fd result (st1\<lparr>ur_hist := h\<rparr>) = Some (s, st')"
    by (rule connect_success [OF c])
  note f = uring_link_frame [OF l, unfolded dd_frame_def]
  obtain k0 where k0: "s = ?m" "ur_calls st' = ur_calls st @ [URegisterFile (ur_num_sockets st) fd]"
    "ur_objs st' = (ur_objs st1)(?m \<mapsto> RSocket (k0\<lparr>rs_dd := int (ur_num_sockets st)\<rparr>))"
    by (rule enter_connect_dd [OF e]) (use f that in auto)
  have "map_option rs_dd (rd_rs a ?st0) = Some (int (ur_num_sockets st))" using am a by (simp add: rd_rs_def)
  then have "map_option rs_dd (rd_rs a st1) = Some (int (ur_num_sockets st))" using f by simp
  then obtain k1 where k1: "rd_rs a st1 = Some k1" "rs_dd k1 = int (ur_num_sockets st)" by auto
  have "rd_rs a st' = Some k1" "rd_rs s st' = Some (k0\<lparr>rs_dd := int (ur_num_sockets st)\<rparr>)"
    using k0 k1(1) am c(2) by (simp_all add: rd_rs_def)
  then show ?thesis using k0 am k1(2) by auto
qed

section \<open>An example\<close>

definition uring_ctx0 :: us_uring_context where
  "uring_ctx0 = \<lparr>rc_global_tick = 0, rc_timestamp = 0, rc_long_timestamp = 0, rc_head_sockets = 0, rc_head_listen_sockets = 0,
     rc_iterator = 0, rc_prev = 0, rc_next = 0, rc_on_open = FnUser 1, rc_on_data = FnUser 2, rc_on_close = FnUser 3,
     rc_on_socket_timeout = FnUser 4, rc_on_socket_long_timeout = FnUser 5\<rparr>"

definition uring_sock0 :: us_uring_socket where
  "uring_sock0 = \<lparr>rs_context = 8, rs_prev = 0, rs_next = 0, rs_timeout = 255, rs_long_timeout = 255, rs_dd = 0, rs_send_buf = replicate send_buf_size 0\<rparr>"

definition uring_env0 :: uring_env where
  "uring_env0 = \<lparr>ue_os = os3, ue_malloc = (\<lambda>st. 32), ue_new_context = (\<lambda>st. uring_ctx0), ue_new_socket = (\<lambda>st. uring_sock0),
     ue_ret = (\<lambda>st. 0), ue_cqes = (\<lambda>st. ([], \<lambda>_. [])), ue_handler = (\<lambda>f c st. Some st)\<rparr>"

text \<open>A context at 8 with an accepted socket at 16 that has descriptor 0.\<close>

definition urs0 :: urs where
  "urs0 = \<lparr>ur_objs = [8 \<mapsto> RContext (uring_ctx0\<lparr>rc_head_sockets := 16\<rparr>), 16 \<mapsto> RSocket uring_sock0], ur_timer = 0, ur_head = 8, ur_iterator = 0,
     ur_sq = [], ur_slots = (\<lambda>_. 0), ur_tail = 0, ur_bufs = (\<lambda>_. []), ur_num_sockets = 0, ur_hist = [], ur_calls = []\<rparr>"


theorem uring_second_write_overwrites_witness:
  "\<exists>st1 st2 q1 q2. us_socket_write_uring 16 (Some [1, 2, 3]) 3 urs0 = Some (3, st1) \<and>
    us_socket_write_uring 16 (Some [7, 8]) 2 st1 = Some (2, st2) \<and> ur_sq st2 = [q1, q2] \<and>
    send_bytes st2 q1 = [7, 8, 3] \<and> send_bytes st2 q2 = [7, 8]"
proof -
  have r: "rd_rs 16 urs0 = Some uring_sock0" "length (rs_send_buf uring_sock0) = send_buf_size" "length (ur_sq urs0) + 2 \<le> sq_entries"
    by (simp_all add: rd_rs_def urs0_def uring_sock0_def sq_entries_def)
  have l: "length [1, 2, 3 :: byte] \<le> send_buf_size" "length [7, 8 :: byte] \<le> send_buf_size" by (simp_all add: send_buf_size_def)
  have "ur_sq urs0 = []" by (simp add: urs0_def)
  with uring_second_write_overwrites [OF r l] show ?thesis by (simp add: numeral_2_eq_2 numeral_3_eq_3)
qed

theorem uring_descriptors_clash_witness:
  "\<exists>st' k1 k2. us_socket_context_connect_uring uring_env0 8 ''h'' 80 None 0 0 urs0 = Some (32, st') \<and>
    rd_rs 16 st' = Some k1 \<and> rd_rs 32 st' = Some k2 \<and> rs_dd k1 = rs_dd k2"
proof -
  have r: "rd_rs 16 urs0 = Some uring_sock0" "rs_dd uring_sock0 = int (ur_num_sockets urs0)" "ur_objs urs0 (ue_malloc uring_env0 urs0) = None"
    by (simp_all add: rd_rs_def urs0_def uring_sock0_def uring_env0_def)
  obtain st' where c: "us_socket_context_connect_uring uring_env0 8 ''h'' 80 None 0 0 urs0 = Some (32, st')"
    by (simp add: us_socket_context_connect_uring_def us_internal_socket_context_link_socket_uring_def u_alloc_def new_socket_uring_def
      wr_rs_def wr_rc_def rd_rs_def rd_rc_def urs0_def uring_env0_def enter_connect_def put_sqe_def os3_def sys_call_def connect_fd_uring_def bsd_create_socket_def
      bsd_set_nonblocking_def apple_no_sigpipe_def SOCKET_ERROR_def bsd_socket_nodelay_def io_uring_get_sqe_def sq_entries_def u_emit_def Let_def uring_sock0_def uring_ctx0_def)
  from uring_descriptors_clash [OF r c] c show ?thesis by auto
qed

end
