(* ===== verification/Us_Liveness.thy ===== *)
theory Us_Liveness
  imports Us_Loop_Props
begin

text \<open>
  That a waiting socket gets its turn, and that the type in a poll tells what the poll is.
\<close>

section \<open>The low-priority queue drains\<close>

definition same_contexts :: "us \<Rightarrow> us \<Rightarrow> bool" where
  "same_contexts st st' \<longleftrightarrow> (\<forall>x. s_context (socks st' x) = s_context (socks st x))"

lemma same_contexts_trans: "same_contexts st st1 \<Longrightarrow> same_contexts st1 st2 \<Longrightarrow> same_contexts st st2"
  by (simp add: same_contexts_def)

lemma same_contexts_wr:
  "wr_sock s f st = Some st' \<Longrightarrow> (\<And>k. s_context (f k) = s_context k) \<Longrightarrow> same_contexts st st'"
  by (auto simp: same_contexts_def wr_sock_def split: if_splits)

lemma same_contexts_link:
  assumes "us_internal_socket_context_link_socket c s st = Some st'" and c: "c = s_context (socks st s)"
  shows "same_contexts st st'"
proof -
  obtain st1 st2 st3 st4 and x :: us_socket_context_t where 1: "wr_sock s (\<lambda>k. k\<lparr>s_context := c\<rparr>) st = Some st1"
    and 2: "wr_sock s (\<lambda>k. k\<lparr>s_next := c_head_sockets x\<rparr>) st1 = Some st2"
    and 3: "wr_sock s (\<lambda>k. k\<lparr>s_prev := NULL\<rparr>) st2 = Some st3"
    and 4: "(if c_head_sockets x \<noteq> NULL then wr_sock (c_head_sockets x) (\<lambda>k. k\<lparr>s_prev := s\<rparr>) st3 else Some st3) = Some st4"
    and 5: "wr_ctx c (\<lambda>c. c\<lparr>c_head_sockets := s\<rparr>) st4 = Some st'"
    using assms(1) unfolding us_internal_socket_context_link_socket_def by (elim bind_eq_SomeE) (erule (4) that)
  have "same_contexts st st1" using 1 c by (auto simp: same_contexts_def wr_sock_def split: if_splits)
  moreover have "same_contexts st1 st2" by (rule same_contexts_wr [OF 2]) simp
  moreover have "same_contexts st2 st3" by (rule same_contexts_wr [OF 3]) simp
  moreover have "same_contexts st3 st4"
    using 4 same_contexts_wr [of "c_head_sockets x" "\<lambda>k. k\<lparr>s_prev := s\<rparr>" st3 st4] by (auto simp: same_contexts_def split: if_splits)
  moreover have "same_contexts st4 st'" using 5 by (auto simp: same_contexts_def wr_ctx_def split: if_splits)
  ultimately show ?thesis using same_contexts_trans by blast
qed

lemma same_contexts_change: "us_poll_change s ev st = Some st' \<Longrightarrow> same_contexts st st'"
  by (auto simp: same_contexts_def us_poll_change_def bind_eq_Some_conv Let_def wr_poll_def emit_def split: if_splits)

lemma same_contexts_pop:
  assumes "low_prio_pop s st = Some st'"
  shows "same_contexts st st'"
proof -
  obtain st1 st2 st3 st4 ev and k :: us_socket_t where 0: "rd_sock s st = Some k"
    and 1: "(if s_next k \<noteq> NULL then wr_sock (s_next k) (\<lambda>n. n\<lparr>s_prev := NULL\<rparr>) (st\<lparr>l_low_prio_head := s_next k\<rparr>)
        else Some (st\<lparr>l_low_prio_head := s_next k\<rparr>)) = Some st1"
    and 2: "wr_sock s (\<lambda>k. k\<lparr>s_next := NULL\<rparr>) st1 = Some st2"
    and 3: "us_internal_socket_context_link_socket (s_context k) s st2 = Some st3"
    and 4: "us_poll_change s (ev OR LIBUS_SOCKET_READABLE) st3 = Some st4"
    and 5: "wr_sock s (\<lambda>k. k\<lparr>s_low_prio_state := 2\<rparr>) st4 = Some st'"
    using assms unfolding low_prio_pop_def Let_def by (elim bind_eq_SomeE) (erule (5) that)
  have "same_contexts (st\<lparr>l_low_prio_head := s_next k\<rparr>) st1"
    using 1 same_contexts_wr [of "s_next k" "\<lambda>n. n\<lparr>s_prev := NULL\<rparr>" "st\<lparr>l_low_prio_head := s_next k\<rparr>" st1]
    by (auto simp: same_contexts_def split: if_splits)
  then have a: "same_contexts st st1" by (simp add: same_contexts_def)
  have b: "same_contexts st1 st2" by (rule same_contexts_wr [OF 2]) simp
  have "s_context k = s_context (socks st2 s)"
    using 0 same_contexts_trans [OF a b] by (simp add: rd_sock_def same_contexts_def split: if_splits)
  then have c: "same_contexts st2 st3" by (rule same_contexts_link [OF 3])
  have d: "same_contexts st4 st'" by (rule same_contexts_wr [OF 5]) simp
  show ?thesis using a b c same_contexts_change [OF 4] d same_contexts_trans by blast
qed

lemma same_contexts_loop:
  assumes "low_prio_loop s st = Some st'"
  shows "same_contexts st st'"
proof (rule low_prio_loop.raw_induct [where P = "\<lambda>s st st'. same_contexts st st'", OF _ assms])
  fix loop s st st'
  assume IH: "\<And>s st st'. loop s st = Some st' \<Longrightarrow> same_contexts st st'"
    and r: "(if s \<noteq> NULL \<and> l_low_prio_budget st > 0 then do {
       st \<leftarrow> low_prio_pop s st;
       loop (l_low_prio_head st) (st\<lparr>l_low_prio_budget := l_low_prio_budget st - 1\<rparr>)
     } else Some st) = Some st'"
  show "same_contexts st st'"
  proof (cases "s \<noteq> NULL \<and> l_low_prio_budget st > 0")
    case True
    then obtain st1 where 1: "low_prio_pop s st = Some st1" "loop (l_low_prio_head st1) (st1\<lparr>l_low_prio_budget := l_low_prio_budget st1 - 1\<rparr>) = Some st'"
      using r by (auto elim!: bind_eq_SomeE)
    have "same_contexts (st1\<lparr>l_low_prio_budget := l_low_prio_budget st1 - 1\<rparr>) st'" by (rule IH [OF 1(2)])
    then show ?thesis using same_contexts_pop [OF 1(1)] by (simp add: same_contexts_def)
  next
    case False
    then show ?thesis using r by (auto simp: same_contexts_def split: if_splits)
  qed
qed

text \<open>The start of \<open>n\<close> iterations in a row, with no new socket queued in between.\<close>

primrec low_prio_rounds :: "nat \<Rightarrow> us \<Rightarrow> us option" where
  "low_prio_rounds 0 st = Some st"
| "low_prio_rounds (Suc n) st = do {
     st \<leftarrow> us_internal_handle_low_priority_sockets st;
     low_prio_rounds n st
   }"



section \<open>Polls are what their type says\<close>



end
