(* ===== verification/Us_Asio.thy ===== *)
theory Us_Asio
  imports Us_State
begin

unbundle bit_operations_syntax

text \<open>
  The ASIO back end, \<open>src/eventing/asio.cpp\<close> and its header, with the interfaces of Boost 1.66 and
  later. ASIO has no way to take back a wait whose completion is already queued. So each wait
  carries the number of changes its poll has seen (one byte) and a weak pointer to the poll's block, and
  its completion is ignored when either is out of date. ASIO is a parameter: the calls are
  appended to a trace, and its handlers are run in any order with any error code. Functions that
  the epoll back end has under the same name end in \<open>_asio\<close> here.
\<close>

section \<open>The state\<close>

definition ASIO_READABLE :: u32 where "ASIO_READABLE = 1"
definition ASIO_WRITABLE :: u32 where "ASIO_WRITABLE = 2"

record asio_poll_t =
  ap_boost_block :: addr
  ap_fd :: int
  ap_poll_type :: u8
  ap_events :: u32

text \<open>
  \<open>isValid\<close> is a shared pointer an object holds to itself: its control block, known by a number,
  tells a weak pointer whether the object is still there.
\<close>

record boost_block_poll_t =
  bb_id :: nat
  bb_nr :: u8
  bb_p :: addr

record boost_timer =
  bt_id :: nat
  bt_nr :: u8
  bt_poll_type :: u8
  bt_expects_the_loop :: bool
  bt_cb :: fnptr

record boost_async =
  ba_id :: nat
  ba_poll_type :: u8
  ba_expects_the_loop :: bool
  ba_cb :: fnptr

datatype asio_obj = APoll asio_poll_t | ABlock boost_block_poll_t | ATimer boost_timer | AAsync boost_async | ALoop

datatype wait_type = WaitError | WaitRead | WaitWrite

text \<open>The handlers given to ASIO, with what they capture.\<close>

datatype asio_op = OpWait wait_type nat u8 | OpTimeout nat u8 int | OpPosted nat

datatype asio_error = EcOk | EcAborted | EcOther

datatype asio_call =
    AsyncWait asio_op | Assign nat int | Cancel nat | Release nat | Delete nat
  | ExpiresAfter nat int | ExpiresAt nat int | Post asio_op
  | DispatchPoll addr int u32 | ALoopPre | ALoopPost | NewIo | DeleteIo

record asts =
  as_objs :: "addr \<Rightarrow> asio_obj option"
  as_owner :: "nat \<Rightarrow> addr option"
  as_next_id :: nat
  as_polls :: int
  as_self :: addr
  as_is_default :: bool
  as_sweep_timer :: addr
  as_wakeup_async :: addr
  as_trace :: "asio_call list"

record asio_env =
  ae_malloc :: "asts \<Rightarrow> addr"
  ae_realloc :: "asts \<Rightarrow> addr \<Rightarrow> addr"
  ae_new_poll :: "asts \<Rightarrow> asio_poll_t"
  ae_run_one :: "asts \<Rightarrow> (nat \<times> asts) option"
  ae_poll_one :: "asts \<Rightarrow> (nat \<times> asts) option"

definition a_emit :: "asio_call \<Rightarrow> asts \<Rightarrow> asts" where
  "a_emit c st = st\<lparr>as_trace := as_trace st @ [c]\<rparr>"

definition rd_apoll :: "addr \<Rightarrow> asts \<Rightarrow> asio_poll_t option" where
  "rd_apoll a st = (case as_objs st a of Some (APoll p) \<Rightarrow> Some p | _ \<Rightarrow> None)"

definition rd_block :: "addr \<Rightarrow> asts \<Rightarrow> boost_block_poll_t option" where
  "rd_block a st = (case as_objs st a of Some (ABlock b) \<Rightarrow> Some b | _ \<Rightarrow> None)"

definition rd_btimer :: "addr \<Rightarrow> asts \<Rightarrow> boost_timer option" where
  "rd_btimer a st = (case as_objs st a of Some (ATimer t) \<Rightarrow> Some t | _ \<Rightarrow> None)"

definition rd_basync :: "addr \<Rightarrow> asts \<Rightarrow> boost_async option" where
  "rd_basync a st = (case as_objs st a of Some (AAsync t) \<Rightarrow> Some t | _ \<Rightarrow> None)"

definition put_aobj :: "addr \<Rightarrow> asio_obj \<Rightarrow> asts \<Rightarrow> asts" where
  "put_aobj a x st = st\<lparr>as_objs := (as_objs st)(a \<mapsto> x)\<rparr>"

definition wr_apoll :: "addr \<Rightarrow> (asio_poll_t \<Rightarrow> asio_poll_t) \<Rightarrow> asts \<Rightarrow> asts option" where
  "wr_apoll a f st = map_option (\<lambda>p. put_aobj a (APoll (f p)) st) (rd_apoll a st)"

definition wr_block :: "addr \<Rightarrow> (boost_block_poll_t \<Rightarrow> boost_block_poll_t) \<Rightarrow> asts \<Rightarrow> asts option" where
  "wr_block a f st = map_option (\<lambda>p. put_aobj a (ABlock (f p)) st) (rd_block a st)"

definition a_malloc :: "asio_env \<Rightarrow> asio_obj \<Rightarrow> asts \<Rightarrow> addr \<times> asts" where
  "a_malloc E x st = (let a = ae_malloc E st in (a, put_aobj a x st))"

text \<open>The constructors set up the control block, the destructors let go of it.\<close>

definition new_owner :: "addr \<Rightarrow> asts \<Rightarrow> asts" where
  "new_owner a st = st\<lparr>as_owner := (as_owner st)(as_next_id st \<mapsto> a), as_next_id := as_next_id st + 1\<rparr>"

definition a_destroy :: "nat \<Rightarrow> asts \<Rightarrow> asts" where
  "a_destroy i st = a_emit (Delete i) (st\<lparr>as_owner := (as_owner st)(i := None)\<rparr>)"

definition a_free :: "addr \<Rightarrow> asts \<Rightarrow> asts option" where
  "a_free a st = (if as_objs st a = None then None else Some (st\<lparr>as_objs := (as_objs st)(a := None)\<rparr>))"

section \<open>Waiting\<close>

definition start_wait :: "wait_type \<Rightarrow> addr \<Rightarrow> asts \<Rightarrow> asts option" where
  "start_wait k boost_block st = do {
     let st = st\<lparr>as_polls := as_polls st + 1\<rparr>;
     b \<leftarrow> rd_block boost_block st;
     Some (a_emit (AsyncWait (OpWait k (bb_id b) (bb_nr b))) st)
   }"

definition poll_for_error :: "addr \<Rightarrow> asts \<Rightarrow> asts option" where
  "poll_for_error = start_wait WaitError"

definition poll_for_read :: "addr \<Rightarrow> asts \<Rightarrow> asts option" where
  "poll_for_read = start_wait WaitRead"

definition poll_for_write :: "addr \<Rightarrow> asts \<Rightarrow> asts option" where
  "poll_for_write = start_wait WaitWrite"

text \<open>What the three handlers have in common: the post mortem check, then \<open>f\<close> on the block.\<close>

definition if_current :: "nat \<Rightarrow> u8 \<Rightarrow> (addr \<Rightarrow> asts \<Rightarrow> asts option) \<Rightarrow> asts \<Rightarrow> asts option" where
  "if_current i nr f st = (case as_owner st i of
     None \<Rightarrow> Some st
   | Some boost_block \<Rightarrow> do {
       b \<leftarrow> rd_block boost_block st;
       if nr \<noteq> bb_nr b then Some st else f boost_block st
     })"

definition dispatch_block :: "addr \<Rightarrow> int \<Rightarrow> u32 \<Rightarrow> asts \<Rightarrow> asts option" where
  "dispatch_block boost_block err events st = do {
     b \<leftarrow> rd_block boost_block st;
     if rd_apoll (bb_p b) st = None then None else Some (a_emit (DispatchPoll (bb_p b) err events) st)
   }"

definition handle_error :: "nat \<Rightarrow> u8 \<Rightarrow> asio_error \<Rightarrow> asts \<Rightarrow> asts option" where
  "handle_error i nr ec st =
     (if ec \<noteq> EcAborted then if_current i nr (\<lambda>b st. do {
        st \<leftarrow> poll_for_error b st;
        dispatch_block b 1 (ASIO_READABLE OR ASIO_WRITABLE) st }) st
      else Some st)"

definition handle_read :: "nat \<Rightarrow> u8 \<Rightarrow> asio_error \<Rightarrow> asts \<Rightarrow> asts option" where
  "handle_read i nr ec st =
     (if ec \<noteq> EcAborted then if_current i nr (\<lambda>b st. do {
        st \<leftarrow> poll_for_read b st;
        dispatch_block b (if ec \<noteq> EcOk then -1 else 0) ASIO_READABLE st }) st
      else Some st)"

definition handle_write :: "nat \<Rightarrow> u8 \<Rightarrow> asio_error \<Rightarrow> asts \<Rightarrow> asts option" where
  "handle_write i nr ec st =
     (if ec \<noteq> EcAborted then if_current i nr (\<lambda>b st. do {
        st \<leftarrow> poll_for_write b st;
        dispatch_block b (if ec \<noteq> EcOk then -1 else 0) ASIO_WRITABLE st }) st
      else Some st)"

text \<open>The lambda given to \<open>async_wait\<close>, by the kind of wait.\<close>

definition complete_wait :: "wait_type \<Rightarrow> nat \<Rightarrow> u8 \<Rightarrow> asio_error \<Rightarrow> asts \<Rightarrow> asts option" where
  "complete_wait k i nr ec st = (
     let st = st\<lparr>as_polls := as_polls st - 1\<rparr>
     in case k of WaitError \<Rightarrow> handle_error i nr ec st | WaitRead \<Rightarrow> handle_read i nr ec st | WaitWrite \<Rightarrow> handle_write i nr ec st)"


section \<open>Polls\<close>

definition us_poll_init_asio :: "addr \<Rightarrow> int \<Rightarrow> u8 \<Rightarrow> asts \<Rightarrow> asts option" where
  "us_poll_init_asio p fd poll_type st = do {
     x \<leftarrow> rd_apoll p st;
     b \<leftarrow> rd_block (ap_boost_block x) st;
     wr_apoll p (\<lambda>x. x\<lparr>ap_poll_type := poll_type, ap_events := 0, ap_fd := fd\<rparr>) (a_emit (Assign (bb_id b) fd) st)
   }"

definition us_poll_free_asio :: "addr \<Rightarrow> asts \<Rightarrow> asts option" where
  "us_poll_free_asio p st = do {
     x \<leftarrow> rd_apoll p st;
     b \<leftarrow> rd_block (ap_boost_block x) st;
     st \<leftarrow> a_free (ap_boost_block x) (a_destroy (bb_id b) st);
     a_free p st
   }"

definition us_poll_start_asio :: "addr \<Rightarrow> u32 \<Rightarrow> asts \<Rightarrow> asts option" where
  "us_poll_start_asio p events st = do {
     st \<leftarrow> wr_apoll p (\<lambda>x. x\<lparr>ap_events := events\<rparr>) st;
     x \<leftarrow> rd_apoll p st;
     st \<leftarrow> poll_for_error (ap_boost_block x) st;
     st \<leftarrow> (if events AND ASIO_READABLE \<noteq> 0 then poll_for_read (ap_boost_block x) st else Some st);
     (if events AND ASIO_WRITABLE \<noteq> 0 then poll_for_write (ap_boost_block x) st else Some st)
   }"

definition us_poll_change_asio :: "addr \<Rightarrow> u32 \<Rightarrow> asts \<Rightarrow> asts option" where
  "us_poll_change_asio p events st = do {
     x \<leftarrow> rd_apoll p st;
     st \<leftarrow> wr_block (ap_boost_block x) (\<lambda>b. b\<lparr>bb_nr := bb_nr b + 1\<rparr>) st;
     b \<leftarrow> rd_block (ap_boost_block x) st;
     us_poll_start_asio p events (a_emit (Cancel (bb_id b)) st)
   }"

definition us_poll_stop_asio :: "addr \<Rightarrow> asts \<Rightarrow> asts option" where
  "us_poll_stop_asio p st = do {
     x \<leftarrow> rd_apoll p st;
     st \<leftarrow> wr_block (ap_boost_block x) (\<lambda>b. b\<lparr>bb_nr := bb_nr b + 1\<rparr>) st;
     b \<leftarrow> rd_block (ap_boost_block x) st;
     Some (a_emit (Release (bb_id b)) st)
   }"

definition us_poll_events_asio :: "addr \<Rightarrow> asts \<Rightarrow> u32 option" where
  "us_poll_events_asio p st = map_option ap_events (rd_apoll p st)"

definition us_internal_accept_poll_event_asio :: "addr \<Rightarrow> u32" where
  "us_internal_accept_poll_event_asio p = 0"

definition us_internal_poll_type_asio :: "addr \<Rightarrow> asts \<Rightarrow> u8 option" where
  "us_internal_poll_type_asio p st = map_option ap_poll_type (rd_apoll p st)"

definition us_internal_poll_set_type_asio :: "addr \<Rightarrow> u8 \<Rightarrow> asts \<Rightarrow> asts option" where
  "us_internal_poll_set_type_asio p poll_type st = wr_apoll p (\<lambda>x. x\<lparr>ap_poll_type := poll_type\<rparr>) st"

definition us_poll_fd_asio :: "addr \<Rightarrow> asts \<Rightarrow> int option" where
  "us_poll_fd_asio p st = map_option ap_fd (rd_apoll p st)"

definition us_create_poll_asio :: "asio_env \<Rightarrow> asts \<Rightarrow> (addr \<times> asts) option" where
  "us_create_poll_asio E st = (
     let (p, st) = a_malloc E (APoll (ae_new_poll E st)) st;
         (b, st) = a_malloc E (ABlock \<lparr>bb_id = as_next_id st, bb_nr = 0, bb_p = p\<rparr>) st;
         st = new_owner b st
     in do {
       st \<leftarrow> wr_apoll p (\<lambda>x. x\<lparr>ap_boost_block := b\<rparr>) st;
       Some (p, st)
     })"

definition us_poll_resize_asio :: "asio_env \<Rightarrow> addr \<Rightarrow> asts \<Rightarrow> (addr \<times> asts) option" where
  "us_poll_resize_asio E p st = do {
     x \<leftarrow> rd_apoll p st;
     let new_p = ae_realloc E st p;
     let st = (if new_p = p then st else st\<lparr>as_objs := (as_objs st)(p := None, new_p \<mapsto> APoll x)\<rparr>);
     st \<leftarrow> wr_block (ap_boost_block x) (\<lambda>b. b\<lparr>bb_p := new_p\<rparr>) st;
     Some (new_p, st)
   }"

section \<open>Timers\<close>

definition us_create_timer_asio :: "asio_env \<Rightarrow> asts \<Rightarrow> addr \<times> asts" where
  "us_create_timer_asio E st = (
     let (t, st) = a_malloc E (ATimer \<lparr>bt_id = as_next_id st, bt_nr = 0, bt_poll_type = 3, bt_expects_the_loop = False, bt_cb = FnNull\<rparr>) st
     in (t, new_owner t st))"

definition us_timer_close_asio :: "addr \<Rightarrow> asts \<Rightarrow> asts option" where
  "us_timer_close_asio t st = do {
     b \<leftarrow> rd_btimer t st;
     a_free t (a_destroy (bt_id b) (a_emit (Cancel (bt_id b)) st))
   }"

definition poll_for_timeout :: "boost_timer \<Rightarrow> int \<Rightarrow> asts \<Rightarrow> asts" where
  "poll_for_timeout b repeat_ms st = a_emit (AsyncWait (OpTimeout (bt_id b) (bt_nr b) repeat_ms)) st"

text \<open>A repeating timer stops by itself when no poll waits any more.\<close>

definition complete_timeout :: "nat \<Rightarrow> u8 \<Rightarrow> int \<Rightarrow> asio_error \<Rightarrow> asts \<Rightarrow> asts option" where
  "complete_timeout i nr repeat_ms ec st =
     (if ec \<noteq> EcAborted then (case as_owner st i of
        None \<Rightarrow> Some st
      | Some t \<Rightarrow> do {
          b \<leftarrow> rd_btimer t st;
          if nr \<noteq> bt_nr b then Some st
          else if repeat_ms \<noteq> 0 \<and> as_polls st = 0 then Some st
          else let st = (if repeat_ms \<noteq> 0 then poll_for_timeout b repeat_ms (a_emit (ExpiresAt i repeat_ms) st) else st)
               in Some (a_emit (DispatchPoll t 0 ASIO_READABLE) st)
        })
      else Some st)"

definition us_timer_set_asio :: "addr \<Rightarrow> fnptr \<Rightarrow> int \<Rightarrow> int \<Rightarrow> asts \<Rightarrow> asts option" where
  "us_timer_set_asio t cb ms repeat_ms st = do {
     b \<leftarrow> rd_btimer t st;
     if ms = 0 then Some (a_emit (Cancel (bt_id b)) (put_aobj t (ATimer (b\<lparr>bt_nr := bt_nr b + 1\<rparr>)) st))
     else Some (poll_for_timeout b repeat_ms (a_emit (ExpiresAfter (bt_id b) ms) (put_aobj t (ATimer (b\<lparr>bt_cb := cb\<rparr>)) st)))
   }"

section \<open>Asyncs\<close>

definition us_internal_create_async_asio :: "asio_env \<Rightarrow> asts \<Rightarrow> addr \<times> asts" where
  "us_internal_create_async_asio E st = (
     let (a, st) = a_malloc E (AAsync \<lparr>ba_id = as_next_id st, ba_poll_type = 3, ba_expects_the_loop = False, ba_cb = FnNull\<rparr>) st
     in (a, new_owner a st))"

definition us_internal_async_close_asio :: "addr \<Rightarrow> asts \<Rightarrow> asts option" where
  "us_internal_async_close_asio a st = do {
     b \<leftarrow> rd_basync a st;
     a_free a (a_destroy (ba_id b) st)
   }"

definition us_internal_async_set_asio :: "addr \<Rightarrow> fnptr \<Rightarrow> asts \<Rightarrow> asts option" where
  "us_internal_async_set_asio a cb st = map_option (\<lambda>b. put_aobj a (AAsync (b\<lparr>ba_cb := cb\<rparr>)) st) (rd_basync a st)"

definition us_internal_async_wakeup_asio :: "addr \<Rightarrow> asts \<Rightarrow> asts option" where
  "us_internal_async_wakeup_asio a st = do {
     b \<leftarrow> rd_basync a st;
     Some (a_emit (Post (OpPosted (ba_id b))) st)
   }"

definition complete_posted :: "nat \<Rightarrow> asts \<Rightarrow> asts option" where
  "complete_posted i st = (case as_owner st i of
     None \<Rightarrow> Some st
   | Some a \<Rightarrow> if rd_basync a st = None then None else Some (a_emit (DispatchPoll a 0 0) st))"

section \<open>The loop\<close>

text \<open>
  \<open>us_internal_loop_data_init\<close> and \<open>us_internal_loop_data_free\<close> of \<open>src/loop.c\<close>, as far as they
  concern this back end. The loop is the state itself.
\<close>

definition loop_data_init_asio :: "asio_env \<Rightarrow> fnptr \<Rightarrow> asts \<Rightarrow> asts option" where
  "loop_data_init_asio E wakeup_cb st = (
     let (t, st) = us_create_timer_asio E st;
         (a, st) = us_internal_create_async_asio E (st\<lparr>as_sweep_timer := t\<rparr>)
     in us_internal_async_set_asio a wakeup_cb (st\<lparr>as_wakeup_async := a\<rparr>))"

definition loop_data_free_asio :: "asts \<Rightarrow> asts option" where
  "loop_data_free_asio st = do {
     st \<leftarrow> us_timer_close_asio (as_sweep_timer st) st;
     us_internal_async_close_asio (as_wakeup_async st) st
   }"

definition us_loop_integrate_asio :: "asts \<Rightarrow> asts option" where
  "us_loop_integrate_asio st = us_timer_set_asio (as_sweep_timer st) FnSweepTimer
     (LIBUS_TIMEOUT_GRANULARITY * 1000) (LIBUS_TIMEOUT_GRANULARITY * 1000) st"

definition us_create_loop_asio :: "asio_env \<Rightarrow> bool \<Rightarrow> fnptr \<Rightarrow> asts \<Rightarrow> (addr \<times> asts) option" where
  "us_create_loop_asio E hint wakeup_cb st = (
     let (loop, st) = a_malloc E ALoop st;
         st = st\<lparr>as_self := loop\<rparr>;
         st = (if hint then st else a_emit NewIo st);
         st = st\<lparr>as_is_default := hint\<rparr>
     in do {
       st \<leftarrow> loop_data_init_asio E wakeup_cb st;
       st \<leftarrow> (if hint then us_loop_integrate_asio st else Some st);
       Some (loop, st)
     })"

definition us_loop_free_asio :: "asts \<Rightarrow> asts option" where
  "us_loop_free_asio st = do {
     st \<leftarrow> loop_data_free_asio st;
     let st = (if \<not> as_is_default st then a_emit DeleteIo st else st);
     a_free (as_self st) st
   }"

text \<open>Up to 1000 further handlers that are ready are run after the first.\<close>

fun poll_ready :: "asio_env \<Rightarrow> nat \<Rightarrow> asts \<Rightarrow> asts option" where
  "poll_ready E 0 st = Some st"
| "poll_ready E (Suc n) st = do {
     (num, st) \<leftarrow> ae_poll_one E st;
     if num = 0 then Some st else poll_ready E n st
   }"

definition polls_per_turn :: nat where "polls_per_turn = 1000"

partial_function (option) run_polls_asio :: "asio_env \<Rightarrow> asts \<Rightarrow> asts option" where
  "run_polls_asio E st = (if as_polls st = 0 then Some st else do {
     (num, st) \<leftarrow> ae_run_one E (a_emit ALoopPre st);
     if num = 0 then Some st else do {
       st \<leftarrow> poll_ready E polls_per_turn st;
       run_polls_asio E (a_emit ALoopPost st)
     }
   })"

definition us_loop_run_asio :: "asio_env \<Rightarrow> asts \<Rightarrow> asts option" where
  "us_loop_run_asio E st = do {
     st \<leftarrow> us_loop_integrate_asio st;
     run_polls_asio E st
   }"


section \<open>A poll and its block\<close>

text \<open>A live poll, seen together with its block: the two point at each other, and the block is still owned.\<close>

definition aview :: "asts \<Rightarrow> addr \<Rightarrow> (asio_poll_t \<times> boost_block_poll_t) option" where
  "aview st p = (case rd_apoll p st of None \<Rightarrow> None | Some x \<Rightarrow> (case rd_block (ap_boost_block x) st of None \<Rightarrow> None | Some b \<Rightarrow>
     if bb_p b = p \<and> as_owner st (bb_id b) = Some (ap_boost_block x) then Some (x, b) else None))"

lemma aviewD:
  assumes "aview st p = Some (x, b)"
  shows "rd_apoll p st = Some x" "rd_block (ap_boost_block x) st = Some b" "bb_p b = p" "as_owner st (bb_id b) = Some (ap_boost_block x)"
  using assms by (auto simp: aview_def split: option.splits if_splits)

lemma rd_objs:
  "rd_apoll a st = Some x \<longleftrightarrow> as_objs st a = Some (APoll x)" "rd_block a st = Some b \<longleftrightarrow> as_objs st a = Some (ABlock b)"
  by (auto simp: rd_apoll_def rd_block_def split: option.splits asio_obj.splits)

lemma aview_iff: "aview st p = Some (x, b) \<longleftrightarrow> as_objs st p = Some (APoll x) \<and> as_objs st (ap_boost_block x) = Some (ABlock b) \<and>
    bb_p b = p \<and> as_owner st (bb_id b) = Some (ap_boost_block x)"
  by (auto simp: aview_def rd_apoll_def rd_block_def split: option.splits asio_obj.splits if_splits)

lemma option_pair_ext: "(\<And>x b. f = Some (x, b) \<longleftrightarrow> g = Some (x, b)) \<Longrightarrow> f = g"
  by (cases f; cases g) auto

lemma aview_cong: "as_objs st' = as_objs st \<Longrightarrow> as_owner st' = as_owner st \<Longrightarrow> aview st' = aview st"
  by (rule ext, rule option_pair_ext) (simp add: aview_iff)

lemma a_emit_simps [simp]:
  "as_objs (a_emit c st) = as_objs st" "as_owner (a_emit c st) = as_owner st" "as_polls (a_emit c st) = as_polls st"
  "as_trace (a_emit c st) = as_trace st @ [c]" "as_next_id (a_emit c st) = as_next_id st"
  "rd_apoll a (a_emit c st) = rd_apoll a st" "rd_block a (a_emit c st) = rd_block a st" "aview (a_emit c st) = aview st"
  by (simp_all add: a_emit_def rd_apoll_def rd_block_def) (rule aview_cong, simp_all)

lemma put_aobj_simps [simp]:
  "as_owner (put_aobj a y st) = as_owner st" "as_polls (put_aobj a y st) = as_polls st"
  "as_trace (put_aobj a y st) = as_trace st" "as_next_id (put_aobj a y st) = as_next_id st"
  "as_objs (put_aobj a y st) = (as_objs st)(a \<mapsto> y)"
  by (simp_all add: put_aobj_def)

lemma aview_polls [simp]: "aview (st\<lparr>as_polls := n\<rparr>) = aview st"
  by (rule aview_cong) simp_all

lemma aview_put_poll:
  assumes "aview st p = Some (x, b)" "ap_boost_block y = ap_boost_block x"
  shows "aview (put_aobj p (APoll y) st) = (aview st)(p \<mapsto> (y, b))"
proof (rule ext, rule option_pair_ext)
  fix q z c
  have o: "as_objs st p = Some (APoll x)" "as_objs st (ap_boost_block x) = Some (ABlock b)" "bb_p b = p" "as_owner st (bb_id b) = Some (ap_boost_block x)"
    using assms(1) by (simp_all add: aview_iff)
  show "aview (put_aobj p (APoll y) st) q = Some (z, c) \<longleftrightarrow> ((aview st)(p \<mapsto> (y, b))) q = Some (z, c)"
    using o assms(2) by (cases "q = p") (auto simp: aview_iff)
qed

lemma aview_put_block:
  assumes "aview st p = Some (x, b)" "bb_id c = bb_id b" "bb_p c = p"
  shows "aview (put_aobj (ap_boost_block x) (ABlock c) st) = (aview st)(p \<mapsto> (x, c))"
proof (rule ext, rule option_pair_ext)
  fix q z d
  have o: "as_objs st p = Some (APoll x)" "as_objs st (ap_boost_block x) = Some (ABlock b)" "bb_p b = p" "as_owner st (bb_id b) = Some (ap_boost_block x)"
    using assms(1) by (simp_all add: aview_iff)
  show "aview (put_aobj (ap_boost_block x) (ABlock c) st) q = Some (z, d) \<longleftrightarrow> ((aview st)(p \<mapsto> (x, c))) q = Some (z, d)"
    using o assms(2,3) by (cases "q = p") (auto simp: aview_iff)
qed

lemma aview_unique:
  assumes "aview st p = Some (x, b)" "aview st q = Some (y, c)" "bb_id b = bb_id c"
  shows "p = q"
  using assms by (auto simp: aview_iff)

section \<open>The operations on a live poll\<close>

definition asked :: "wait_type \<Rightarrow> u32 \<Rightarrow> bool" where
  "asked k events = (case k of WaitError \<Rightarrow> True | WaitRead \<Rightarrow> events AND ASIO_READABLE \<noteq> 0 | WaitWrite \<Rightarrow> events AND ASIO_WRITABLE \<noteq> 0)"

definition asked_waits :: "u32 \<Rightarrow> wait_type list" where
  "asked_waits events = filter (\<lambda>k. asked k events) [WaitError, WaitRead, WaitWrite]"

definition arms :: "boost_block_poll_t \<Rightarrow> wait_type list \<Rightarrow> asio_call list" where
  "arms b ks = map (\<lambda>k. AsyncWait (OpWait k (bb_id b) (bb_nr b))) ks"

text \<open>What an operation on the poll \<open>p\<close> leaves behind: its new view, the calls made and the waits begun.\<close>

definition poll_effect :: "addr \<Rightarrow> asio_poll_t \<times> boost_block_poll_t \<Rightarrow> asio_call list \<Rightarrow> nat \<Rightarrow> asts \<Rightarrow> asts \<Rightarrow> bool" where
  "poll_effect p v cs n st st' \<longleftrightarrow> aview st' = (aview st)(p \<mapsto> v) \<and> as_trace st' = as_trace st @ cs \<and> as_polls st' = as_polls st + int n \<and>
     as_owner st' = as_owner st \<and> as_next_id st' = as_next_id st \<and> dom (as_objs st') = dom (as_objs st)"

definition armed :: "boost_block_poll_t \<Rightarrow> wait_type list \<Rightarrow> asts \<Rightarrow> asts" where
  "armed b ks st = st\<lparr>as_polls := as_polls st + int (length ks), as_trace := as_trace st @ arms b ks\<rparr>"

lemma armed_simps [simp]:
  "as_objs (armed b ks st) = as_objs st" "as_owner (armed b ks st) = as_owner st" "as_polls (armed b ks st) = as_polls st + int (length ks)"
  "as_trace (armed b ks st) = as_trace st @ arms b ks" "as_next_id (armed b ks st) = as_next_id st"
  "rd_apoll a (armed b ks st) = rd_apoll a st" "rd_block a (armed b ks st) = rd_block a st" "aview (armed b ks st) = aview st"
  by (simp_all add: armed_def rd_apoll_def rd_block_def) (rule aview_cong, simp_all)

lemma armed_append [simp]: "armed b ks (armed b js st) = armed b (js @ ks) st" "armed b [] st = st"
  by (simp_all add: armed_def arms_def)

lemma start_wait_ok: "rd_block bk st = Some b \<Longrightarrow> start_wait k bk st = Some (armed b [k] st)"
  by (simp add: start_wait_def rd_block_def armed_def arms_def a_emit_def)

lemma poll_start_ok:
  assumes v: "aview st p = Some (x, b)"
  shows "\<exists>st'. us_poll_start_asio p ev st = Some st' \<and>
    poll_effect p (x\<lparr>ap_events := ev\<rparr>, b) (arms b (asked_waits ev)) (length (asked_waits ev)) st st'"
proof -
  let ?y = "x\<lparr>ap_events := ev\<rparr>"
  let ?s0 = "put_aobj p (APoll ?y) st"
  have v0: "aview ?s0 = (aview st)(p \<mapsto> (?y, b))" by (rule aview_put_poll [OF v]) simp
  have w: "wr_apoll p (\<lambda>x. x\<lparr>ap_events := ev\<rparr>) st = Some ?s0" using aviewD(1) [OF v] by (simp add: wr_apoll_def)
  have r: "rd_apoll p ?s0 = Some ?y" "rd_block (ap_boost_block x) ?s0 = Some b" using v by (auto simp: aview_iff rd_objs)
  have "us_poll_start_asio p ev st = Some (armed b (asked_waits ev) ?s0)"
    unfolding us_poll_start_asio_def w using r
    by (simp add: poll_for_error_def poll_for_read_def poll_for_write_def start_wait_ok asked_waits_def asked_def)
  moreover have "poll_effect p (?y, b) (arms b (asked_waits ev)) (length (asked_waits ev)) st (armed b (asked_waits ev) ?s0)"
    using v by (auto simp: poll_effect_def v0 aview_iff)
  ultimately show ?thesis by blast
qed

lemma block_put_effect:
  assumes v: "aview st p = Some (x, b)"
  shows "wr_block (ap_boost_block x) (\<lambda>b. b\<lparr>bb_nr := bb_nr b + 1\<rparr>) st = Some (put_aobj (ap_boost_block x) (ABlock (b\<lparr>bb_nr := bb_nr b + 1\<rparr>)) st)"
    "poll_effect p (x, b\<lparr>bb_nr := bb_nr b + 1\<rparr>) [] 0 st (put_aobj (ap_boost_block x) (ABlock (b\<lparr>bb_nr := bb_nr b + 1\<rparr>)) st)"
proof -
  show "wr_block (ap_boost_block x) (\<lambda>b. b\<lparr>bb_nr := bb_nr b + 1\<rparr>) st = Some (put_aobj (ap_boost_block x) (ABlock (b\<lparr>bb_nr := bb_nr b + 1\<rparr>)) st)"
    using aviewD(2) [OF v] by (simp add: wr_block_def)
  have "aview (put_aobj (ap_boost_block x) (ABlock (b\<lparr>bb_nr := bb_nr b + 1\<rparr>)) st) = (aview st)(p \<mapsto> (x, b\<lparr>bb_nr := bb_nr b + 1\<rparr>))"
    by (rule aview_put_block [OF v]) (use aviewD [OF v] in simp_all)
  then show "poll_effect p (x, b\<lparr>bb_nr := bb_nr b + 1\<rparr>) [] 0 st (put_aobj (ap_boost_block x) (ABlock (b\<lparr>bb_nr := bb_nr b + 1\<rparr>)) st)"
    using v by (auto simp: poll_effect_def aview_iff)
qed

lemma poll_stop_ok:
  assumes v: "aview st p = Some (x, b)"
  shows "\<exists>st'. us_poll_stop_asio p st = Some st' \<and> poll_effect p (x, b\<lparr>bb_nr := bb_nr b + 1\<rparr>) [Release (bb_id b)] 0 st st'"
proof -
  let ?c = "b\<lparr>bb_nr := bb_nr b + 1\<rparr>"
  let ?s = "put_aobj (ap_boost_block x) (ABlock ?c) st"
  have r: "rd_block (ap_boost_block x) ?s = Some ?c" by (simp add: rd_objs)
  have "us_poll_stop_asio p st = Some (a_emit (Release (bb_id b)) ?s)"
    by (simp add: us_poll_stop_asio_def aviewD(1) [OF v] block_put_effect(1) [OF v] r)
  moreover have "poll_effect p (x, ?c) [Release (bb_id b)] 0 st (a_emit (Release (bb_id b)) ?s)"
    using block_put_effect(2) [OF v] by (simp add: poll_effect_def)
  ultimately show ?thesis by blast
qed

lemma poll_change_ok:
  assumes v: "aview st p = Some (x, b)"
  shows "\<exists>st'. us_poll_change_asio p ev st = Some st' \<and>
    poll_effect p (x\<lparr>ap_events := ev\<rparr>, b\<lparr>bb_nr := bb_nr b + 1\<rparr>)
      (Cancel (bb_id b) # arms (b\<lparr>bb_nr := bb_nr b + 1\<rparr>) (asked_waits ev)) (length (asked_waits ev)) st st'"
proof -
  let ?c = "b\<lparr>bb_nr := bb_nr b + 1\<rparr>"
  let ?s = "put_aobj (ap_boost_block x) (ABlock ?c) st"
  let ?s1 = "a_emit (Cancel (bb_id b)) ?s"
  have r: "rd_block (ap_boost_block x) ?s = Some ?c" by (simp add: rd_objs)
  note e = block_put_effect [OF v]
  have v1: "aview ?s1 p = Some (x, ?c)" using e(2) by (simp add: poll_effect_def)
  obtain st' where s: "us_poll_start_asio p ev ?s1 = Some st'"
    "poll_effect p (x\<lparr>ap_events := ev\<rparr>, ?c) (arms ?c (asked_waits ev)) (length (asked_waits ev)) ?s1 st'"
    using poll_start_ok [OF v1] by blast
  have "us_poll_change_asio p ev st = Some st'"
    by (simp add: us_poll_change_asio_def aviewD(1) [OF v] e(1) r s(1))
  moreover have "poll_effect p (x\<lparr>ap_events := ev\<rparr>, ?c) (Cancel (bb_id b) # arms ?c (asked_waits ev)) (length (asked_waits ev)) st st'"
    using s(2) e(2) by (simp add: poll_effect_def)
  ultimately show ?thesis by blast
qed

lemma poll_fields_ok:
  assumes v: "aview st p = Some (x, b)"
  shows "\<exists>st'. us_poll_init_asio p fd ty st = Some st' \<and>
      poll_effect p (x\<lparr>ap_poll_type := ty, ap_events := 0, ap_fd := fd\<rparr>, b) [Assign (bb_id b) fd] 0 st st'"
    "\<exists>st'. us_internal_poll_set_type_asio p ty st = Some st' \<and> poll_effect p (x\<lparr>ap_poll_type := ty\<rparr>, b) [] 0 st st'"
proof -
  let ?y = "x\<lparr>ap_poll_type := ty, ap_events := 0, ap_fd := fd\<rparr>" and ?s0 = "a_emit (Assign (bb_id b) fd) st"
  have v0: "aview ?s0 p = Some (x, b)" using v by simp
  have a: "aview (put_aobj p (APoll ?y) ?s0) = (aview st)(p \<mapsto> (?y, b))" using aview_put_poll [OF v0, of ?y] by simp
  have "us_poll_init_asio p fd ty st = Some (put_aobj p (APoll ?y) ?s0)"
    using aviewD(1,2) [OF v] by (simp add: us_poll_init_asio_def wr_apoll_def)
  then show "\<exists>st'. us_poll_init_asio p fd ty st = Some st' \<and> poll_effect p (?y, b) [Assign (bb_id b) fd] 0 st st'"
    using v a by (intro exI [of _ "put_aobj p (APoll ?y) ?s0"]) (auto simp: poll_effect_def aview_iff)
  let ?z = "x\<lparr>ap_poll_type := ty\<rparr>"
  have "aview (put_aobj p (APoll ?z) st) = (aview st)(p \<mapsto> (?z, b))" using aview_put_poll [OF v, of ?z] by simp
  then show "\<exists>st'. us_internal_poll_set_type_asio p ty st = Some st' \<and> poll_effect p (?z, b) [] 0 st st'"
    using v aviewD(1) [OF v] by (intro exI [of _ "put_aobj p (APoll ?z) st"])
      (auto simp: poll_effect_def aview_iff us_internal_poll_set_type_asio_def wr_apoll_def)
qed

text \<open>The completion of a wait: nothing but the count for one that is aborted or out of date, else a new wait and a dispatch.\<close>

definition fires :: "asio_error \<Rightarrow> nat \<Rightarrow> u8 \<Rightarrow> addr \<Rightarrow> boost_block_poll_t \<Rightarrow> asio_poll_t \<Rightarrow> asts \<Rightarrow> bool" where
  "fires ec i nr p b x st \<longleftrightarrow> ec \<noteq> EcAborted \<and> aview st p = Some (x, b) \<and> bb_id b = i \<and> bb_nr b = nr"

definition dispatch_of :: "wait_type \<Rightarrow> asio_error \<Rightarrow> addr \<Rightarrow> asio_call" where
  "dispatch_of k ec p = (case k of WaitError \<Rightarrow> DispatchPoll p 1 (ASIO_READABLE OR ASIO_WRITABLE)
     | WaitRead \<Rightarrow> DispatchPoll p (if ec \<noteq> EcOk then -1 else 0) ASIO_READABLE
     | WaitWrite \<Rightarrow> DispatchPoll p (if ec \<noteq> EcOk then -1 else 0) ASIO_WRITABLE)"

lemma complete_fires:
  assumes f: "fires ec i nr p b x st"
  shows "\<exists>st'. complete_wait k i nr ec st = Some st' \<and> poll_effect p (x, b) (arms b [k] @ [dispatch_of k ec p]) 0 st st'"
proof -
  have e: "ec \<noteq> EcAborted" and v: "aview st p = Some (x, b)" and i: "bb_id b = i" and n: "bb_nr b = nr" using f by (simp_all add: fires_def)
  let ?s0 = "st\<lparr>as_polls := as_polls st - 1\<rparr>"
  have v0: "aview ?s0 p = Some (x, b)" using v by simp
  have r: "rd_block (ap_boost_block x) ?s0 = Some b" "rd_apoll p ?s0 = Some x" "bb_p b = p" using aviewD [OF v0] by simp_all
  have o: "as_owner ?s0 i = Some (ap_boost_block x)" using v i by (simp add: aview_iff)
  let ?st' = "a_emit (dispatch_of k ec p) (armed b [k] ?s0)"
  have "complete_wait k i nr ec st = Some ?st'"
    using e o r n start_wait_ok [OF r(1), of k]
    by (cases k) (simp_all add: complete_wait_def handle_error_def handle_read_def handle_write_def if_current_def poll_for_error_def
        poll_for_read_def poll_for_write_def dispatch_of_def dispatch_block_def)
  moreover have "poll_effect p (x, b) (arms b [k] @ [dispatch_of k ec p]) 0 st ?st'"
    using v by (auto simp: poll_effect_def)
  ultimately show ?thesis by blast
qed


lemma complete_quiet:
  assumes own: "\<And>bk. as_owner st i = Some bk \<Longrightarrow> \<exists>p x b. aview st p = Some (x, b) \<and> ap_boost_block x = bk \<and> bb_id b = i"
    and f: "\<And>p b x. \<not> fires ec i nr p b x st"
  shows "complete_wait k i nr ec st = Some (st\<lparr>as_polls := as_polls st - 1\<rparr>)"
proof (cases "ec = EcAborted \<or> as_owner st i = None")
  case True
  then show ?thesis
    by (cases k) (auto simp: Let_def complete_wait_def handle_error_def handle_read_def handle_write_def if_current_def)
next
  case False
  then obtain bk p x b where v: "as_owner st i = Some bk" "aview st p = Some (x, b)" "ap_boost_block x = bk" "bb_id b = i"
    using own by blast
  have n: "nr \<noteq> bb_nr b" using f [of p b x] v False by (auto simp: fires_def)
  have "rd_block bk (st\<lparr>as_polls := as_polls st - 1\<rparr>) = Some b" using aviewD(2) [OF v(2)] v(3) by (simp add: rd_block_def)
  then show ?thesis using False v(1) n
    by (cases k) (simp_all add: complete_wait_def handle_error_def handle_read_def handle_write_def if_current_def)
qed

lemma a_destroy_simps [simp]:
  "as_objs (a_destroy i st) = as_objs st" "as_owner (a_destroy i st) = (as_owner st)(i := None)" "as_polls (a_destroy i st) = as_polls st"
  "as_trace (a_destroy i st) = as_trace st @ [Delete i]" "as_next_id (a_destroy i st) = as_next_id st"
  by (simp_all add: a_destroy_def)

lemma aview_apart:
  assumes "aview st p = Some (x, b)" "aview st q = Some (z, c)" "q \<noteq> p"
  shows "ap_boost_block z \<noteq> ap_boost_block x" "q \<noteq> ap_boost_block x" "ap_boost_block z \<noteq> p" "bb_id c \<noteq> bb_id b"
proof -
  have w: "as_objs st p = Some (APoll x)" "as_objs st (ap_boost_block x) = Some (ABlock b)" "bb_p b = p"
    and t: "as_objs st q = Some (APoll z)" "as_objs st (ap_boost_block z) = Some (ABlock c)" "bb_p c = q"
    using assms(1,2) by (simp_all add: aview_iff)
  show "ap_boost_block z \<noteq> ap_boost_block x"
  proof
    assume "ap_boost_block z = ap_boost_block x"
    then have "c = b" using w(2) t(2) by simp
    then show False using w(3) t(3) assms(3) by simp
  qed
  show "q \<noteq> ap_boost_block x" using t(1) w(2) by (metis asio_obj.distinct(1) option.inject)
  show "ap_boost_block z \<noteq> p" using t(2) w(1) by (metis asio_obj.distinct(1) option.inject)
  show "bb_id c \<noteq> bb_id b" using aview_unique [OF assms(2,1)] assms(3) by blast
qed

lemma aview_free:
  assumes v: "aview st p = Some (x, b)"
    and o: "as_objs st' = (as_objs st)(ap_boost_block x := None, p := None)" "as_owner st' = (as_owner st)(bb_id b := None)"
  shows "aview st' = (aview st)(p := None)"
proof (rule ext, rule option_pair_ext)
  fix q z c
  show "aview st' q = Some (z, c) \<longleftrightarrow> ((aview st)(p := None)) q = Some (z, c)"
  proof (cases "q = p")
    case True
    then show ?thesis by (simp add: aview_iff o)
  next
    case False
    have "aview st q = Some (z, c)" if "aview st' q = Some (z, c)"
      using that False by (simp add: aview_iff o split: if_splits)
    moreover have "aview st' q = Some (z, c)" if a: "aview st q = Some (z, c)"
      using a aview_apart [OF v a False] False by (simp add: aview_iff o)
    ultimately show ?thesis using False by auto
  qed
qed

lemma poll_free_ok:
  assumes v: "aview st p = Some (x, b)"
  shows "\<exists>st'. us_poll_free_asio p st = Some st' \<and> aview st' = (aview st)(p := None) \<and> as_owner st' = (as_owner st)(bb_id b := None) \<and>
    as_trace st' = as_trace st @ [Delete (bb_id b)] \<and> as_polls st' = as_polls st \<and> as_next_id st' = as_next_id st \<and>
    (finite (dom (as_objs st)) \<longrightarrow> finite (dom (as_objs st')))"
proof -
  let ?bk = "ap_boost_block x"
  let ?st' = "(a_destroy (bb_id b) st)\<lparr>as_objs := (as_objs st)(?bk := None, p := None)\<rparr>"
  note w = v [unfolded aview_iff]
  have "?bk \<noteq> p" using w by auto
  then have "us_poll_free_asio p st = Some ?st'"
    using aviewD(1,2) [OF v] w by (simp add: us_poll_free_asio_def a_free_def)
  moreover have "aview ?st' = (aview st)(p := None)" by (rule aview_free [OF v]) simp_all
  ultimately show ?thesis by (intro exI [of _ ?st']) simp
qed

text \<open>What is relied on of the allocator.\<close>

definition asio_malloc_ok :: "asio_env \<Rightarrow> bool" where
  "asio_malloc_ok E \<longleftrightarrow> (\<forall>st. finite (dom (as_objs st)) \<longrightarrow> as_objs st (ae_malloc E st) = None \<and>
     (\<forall>a. ae_realloc E st a = a \<or> as_objs st (ae_realloc E st a) = None))"

lemma poll_create_ok:
  assumes E: "asio_malloc_ok E" and fin: "finite (dom (as_objs st))"
  shows "\<exists>p x b st'. us_create_poll_asio E st = Some (p, st') \<and> as_objs st p = None \<and> bb_id b = as_next_id st \<and> bb_nr b = 0 \<and>
    ((\<forall>i\<ge>as_next_id st. as_owner st i = None) \<longrightarrow> aview st' = (aview st)(p \<mapsto> (x, b))) \<and>
    as_owner st' = (as_owner st)(as_next_id st \<mapsto> ap_boost_block x) \<and> as_next_id st' = as_next_id st + 1 \<and>
    as_trace st' = as_trace st \<and> as_polls st' = as_polls st \<and> finite (dom (as_objs st'))"
proof -
  let ?p = "ae_malloc E st"
  let ?s1 = "put_aobj ?p (APoll (ae_new_poll E st)) st"
  let ?bk = "ae_malloc E ?s1"
  let ?b = "\<lparr>bb_id = as_next_id st, bb_nr = 0, bb_p = ?p\<rparr>"
  let ?x = "(ae_new_poll E st)\<lparr>ap_boost_block := ?bk\<rparr>"
  let ?st' = "put_aobj ?p (APoll ?x) (new_owner ?bk (put_aobj ?bk (ABlock ?b) ?s1))"
  have p: "as_objs st ?p = None" using E fin by (simp add: asio_malloc_ok_def)
  have "finite (dom (as_objs ?s1))" using fin by simp
  then have "as_objs ?s1 ?bk = None" using E unfolding asio_malloc_ok_def by blast
  then have b: "?bk \<noteq> ?p" "as_objs st ?bk = None" by (auto split: if_splits)
  have c: "us_create_poll_asio E st = Some (?p, ?st')"
    using b by (simp add: us_create_poll_asio_def a_malloc_def Let_def wr_apoll_def rd_objs new_owner_def)
      (simp add: rd_apoll_def)
  have a: "aview ?st' = (aview st)(?p \<mapsto> (?x, ?b))" if own: "\<forall>i\<ge>as_next_id st. as_owner st i = None"
  proof (rule ext, rule option_pair_ext)
    fix q z d
    have no: "as_owner st (as_next_id st) = None" using own by simp
    show "aview ?st' q = Some (z, d) \<longleftrightarrow> ((aview st)(?p \<mapsto> (?x, ?b))) q = Some (z, d)"
      using p b no by (cases "q = ?p") (auto simp: aview_iff new_owner_def)
  qed
  show ?thesis
    by (rule exI [of _ ?p], rule exI [of _ ?x], rule exI [of _ ?b], rule exI [of _ ?st'])
      (use c p a fin in \<open>simp add: new_owner_def\<close>)
qed

lemma aview_move:
  assumes v: "aview st p = Some (x, b)" and q: "as_objs st q = None"
    and o: "as_objs st' = (as_objs st)(p := None, q \<mapsto> APoll x, ap_boost_block x \<mapsto> ABlock (b\<lparr>bb_p := q\<rparr>))" "as_owner st' = as_owner st"
  shows "aview st' = (aview st)(p := None, q \<mapsto> (x, b\<lparr>bb_p := q\<rparr>))"
proof (rule ext, rule option_pair_ext)
  fix a z d
  have w: "as_objs st p = Some (APoll x)" "as_objs st (ap_boost_block x) = Some (ABlock b)" "as_owner st (bb_id b) = Some (ap_boost_block x)"
    using v by (simp_all add: aview_iff)
  then have ne: "ap_boost_block x \<noteq> p" "ap_boost_block x \<noteq> q" "p \<noteq> q" using q by auto
  show "aview st' a = Some (z, d) \<longleftrightarrow> ((aview st)(p := None, q \<mapsto> (x, b\<lparr>bb_p := q\<rparr>))) a = Some (z, d)"
  proof (cases "a = q \<or> a = p")
    case True
    then show ?thesis using w ne by (auto simp: aview_iff o)
  next
    case False
    have "aview st a = Some (z, d)" if "aview st' a = Some (z, d)"
      using that False by (auto simp: aview_iff o split: if_splits)
    moreover have "aview st' a = Some (z, d)" if t: "aview st a = Some (z, d)"
    proof -
      have "as_objs st a = Some (APoll z)" "as_objs st (ap_boost_block z) = Some (ABlock d)" using t by (simp_all add: aview_iff)
      then have "ap_boost_block z \<noteq> q" using q by auto
      moreover have "a \<noteq> p" using False by simp
      ultimately show ?thesis using t aview_apart [OF v t] False by (simp add: aview_iff o)
    qed
    ultimately show ?thesis using False by auto
  qed
qed

lemma poll_resize_ok:
  assumes E: "asio_malloc_ok E" and fin: "finite (dom (as_objs st))" and v: "aview st p = Some (x, b)"
  shows "\<exists>q st'. us_poll_resize_asio E p st = Some (q, st') \<and> (q = p \<or> as_objs st q = None) \<and>
    aview st' = (aview st)(p := None, q \<mapsto> (x, b\<lparr>bb_p := q\<rparr>)) \<and> as_owner st' = as_owner st \<and> as_next_id st' = as_next_id st \<and>
    as_trace st' = as_trace st \<and> as_polls st' = as_polls st \<and> finite (dom (as_objs st'))"
proof -
  let ?q = "ae_realloc E st p" and ?bk = "ap_boost_block x"
  let ?s1 = "if ?q = p then st else st\<lparr>as_objs := (as_objs st)(p := None, ?q \<mapsto> APoll x)\<rparr>"
  let ?c = "b\<lparr>bb_p := ?q\<rparr>"
  let ?st' = "put_aobj ?bk (ABlock ?c) ?s1"
  have w: "as_objs st p = Some (APoll x)" "as_objs st ?bk = Some (ABlock b)" using v by (simp_all add: aview_iff)
  have q: "?q = p \<or> as_objs st ?q = None" using E fin by (simp add: asio_malloc_ok_def)
  have ne: "?bk \<noteq> p" "?bk \<noteq> ?q" using w q by auto
  have r: "rd_block ?bk ?s1 = Some b" using w ne by (simp add: rd_objs)
  have c: "us_poll_resize_asio E p st = Some (?q, ?st')"
    using aviewD(1) [OF v] r by (simp add: us_poll_resize_asio_def Let_def wr_block_def)
  have a: "aview ?st' = (aview st)(p := None, ?q \<mapsto> (x, ?c))"
  proof (cases "?q = p")
    case True
    then show ?thesis using aview_put_block [OF v, of ?c] by simp
  next
    case False
    show ?thesis by (rule aview_move [OF v]) (use q False in simp_all)
  qed
  have "as_owner ?st' = as_owner st \<and> as_next_id ?st' = as_next_id st \<and> as_trace ?st' = as_trace st \<and> as_polls ?st' = as_polls st"
    "finite (dom (as_objs ?st'))"
    using fin by simp_all
  then show ?thesis using c q a by blast
qed


section \<open>Runs of the back end\<close>

text \<open>
  A run keeps, besides the state, which polls are started, how often each block has been changed
  or stopped (without the wrap-around of the byte) and the waits that ASIO still holds, each with the
  count of its block when it was begun. ASIO completes any of them, with any error code.
\<close>

record asio_run =
  ar_st :: asts
  ar_started :: "addr \<Rightarrow> bool"
  ar_gen :: "nat \<Rightarrow> nat"
  ar_pend :: "(wait_type \<times> nat \<times> u8 \<times> nat) list"

fun pends :: "(nat \<Rightarrow> nat) \<Rightarrow> asio_call list \<Rightarrow> (wait_type \<times> nat \<times> u8 \<times> nat) list" where
  "pends gen [] = []"
| "pends gen (AsyncWait (OpWait k i nr) # cs) = (k, i, nr, gen i) # pends gen cs"
| "pends gen (_ # cs) = pends gen cs"

definition run_to :: "asts \<Rightarrow> asio_run \<Rightarrow> asio_run" where
  "run_to st' r = r\<lparr>ar_st := st', ar_pend := ar_pend r @ pends (ar_gen r) (drop (length (as_trace (ar_st r))) (as_trace st'))\<rparr>"

definition bump :: "nat \<Rightarrow> asio_run \<Rightarrow> asio_run" where
  "bump i r = r\<lparr>ar_gen := (ar_gen r)(i := ar_gen r i + 1)\<rparr>"

definition set_started :: "addr \<Rightarrow> bool \<Rightarrow> asio_run \<Rightarrow> asio_run" where
  "set_started p v r = r\<lparr>ar_started := (ar_started r)(p := v)\<rparr>"

text \<open>With the flag \<open>w\<close>, a poll is not changed so often that the byte comes round while a wait is held.\<close>

definition room :: "bool \<Rightarrow> nat \<Rightarrow> asio_run \<Rightarrow> bool" where
  "room w i r \<longleftrightarrow> (w \<longrightarrow> (\<forall>(k, j, nr, g)\<in>set (ar_pend r). j = i \<longrightarrow> ar_gen r i + 1 - g < 256))"

inductive asio_step :: "bool \<Rightarrow> asio_env \<Rightarrow> asio_run \<Rightarrow> asio_run \<Rightarrow> bool" for w E where
  step_create: "us_create_poll_asio E (ar_st r) = Some (p, st') \<Longrightarrow> asio_step w E r (set_started p False (run_to st' r))"
| step_init: "aview (ar_st r) p = Some (x, b) \<Longrightarrow> \<not> ar_started r p \<Longrightarrow> us_poll_init_asio p fd ty (ar_st r) = Some st' \<Longrightarrow>
    asio_step w E r (run_to st' r)"
| step_set_type: "aview (ar_st r) p = Some (x, b) \<Longrightarrow> us_internal_poll_set_type_asio p ty (ar_st r) = Some st' \<Longrightarrow> asio_step w E r (run_to st' r)"
| step_start: "aview (ar_st r) p = Some (x, b) \<Longrightarrow> \<not> ar_started r p \<Longrightarrow> us_poll_start_asio p ev (ar_st r) = Some st' \<Longrightarrow>
    asio_step w E r (set_started p True (run_to st' r))"
| step_change: "aview (ar_st r) p = Some (x, b) \<Longrightarrow> ar_started r p \<Longrightarrow> room w (bb_id b) r \<Longrightarrow> us_poll_change_asio p ev (ar_st r) = Some st' \<Longrightarrow>
    asio_step w E r (run_to st' (bump (bb_id b) r))"
| step_stop: "aview (ar_st r) p = Some (x, b) \<Longrightarrow> ar_started r p \<Longrightarrow> room w (bb_id b) r \<Longrightarrow> us_poll_stop_asio p (ar_st r) = Some st' \<Longrightarrow>
    asio_step w E r (set_started p False (run_to st' (bump (bb_id b) r)))"
| step_free: "aview (ar_st r) p = Some (x, b) \<Longrightarrow> \<not> ar_started r p \<Longrightarrow> us_poll_free_asio p (ar_st r) = Some st' \<Longrightarrow> asio_step w E r (run_to st' r)"
| step_resize: "aview (ar_st r) p = Some (x, b) \<Longrightarrow> us_poll_resize_asio E p (ar_st r) = Some (q, st') \<Longrightarrow>
    asio_step w E r (set_started q (ar_started r p) (set_started p False (run_to st' r)))"
| step_complete: "(k, i, nr, g) \<in> set (ar_pend r) \<Longrightarrow> complete_wait k i nr ec (ar_st r) = Some st' \<Longrightarrow>
    asio_step w E r (run_to st' (r\<lparr>ar_pend := remove1 (k, i, nr, g) (ar_pend r)\<rparr>))"

definition asio_initial :: "asio_run \<Rightarrow> bool" where
  "asio_initial r \<longleftrightarrow> ar_pend r = [] \<and> as_polls (ar_st r) = 0 \<and> finite (dom (as_objs (ar_st r))) \<and> aview (ar_st r) = Map.empty \<and>
     ar_gen r = (\<lambda>i. 0) \<and> (\<forall>i\<ge>as_next_id (ar_st r). as_owner (ar_st r) i = None)"

inductive asio_reachable :: "bool \<Rightarrow> asio_env \<Rightarrow> asio_run \<Rightarrow> bool" for w E where
  reach_initial: "asio_initial r \<Longrightarrow> asio_reachable w E r"
| reach_step: "asio_reachable w E r \<Longrightarrow> asio_step w E r r' \<Longrightarrow> asio_reachable w E r'"

text \<open>The invariant: the blocks, the waits held, and what a wait that is up to date tells.\<close>

definition asio_blocks :: "asio_run \<Rightarrow> bool" where
  "asio_blocks r \<longleftrightarrow> finite (dom (as_objs (ar_st r))) \<and> (\<forall>i\<ge>as_next_id (ar_st r). as_owner (ar_st r) i = None \<and> ar_gen r i = 0) \<and>
     (\<forall>p x b. aview (ar_st r) p = Some (x, b) \<longrightarrow> bb_nr b = of_nat (ar_gen r (bb_id b)) \<and> bb_id b < as_next_id (ar_st r))"

definition owned_by_poll :: "asts \<Rightarrow> nat \<Rightarrow> bool" where
  "owned_by_poll st i \<longleftrightarrow> (\<forall>bk. as_owner st i = Some bk \<longrightarrow> (\<exists>p x b. aview st p = Some (x, b) \<and> ap_boost_block x = bk \<and> bb_id b = i))"

definition asio_waits :: "asio_run \<Rightarrow> bool" where
  "asio_waits r \<longleftrightarrow> as_polls (ar_st r) = int (length (ar_pend r)) \<and> (\<forall>(k, i, nr, g)\<in>set (ar_pend r).
     nr = of_nat g \<and> g \<le> ar_gen r i \<and> i < as_next_id (ar_st r) \<and> owned_by_poll (ar_st r) i)"

definition asio_current :: "bool \<Rightarrow> asio_run \<Rightarrow> bool" where
  "asio_current w r \<longleftrightarrow> (w \<longrightarrow> (\<forall>(k, i, nr, g)\<in>set (ar_pend r). \<forall>p x b. aview (ar_st r) p = Some (x, b) \<longrightarrow> bb_id b = i \<longrightarrow>
     ar_gen r i - g < 256 \<and> (g = ar_gen r i \<longrightarrow> ar_started r p \<and> asked k (ap_events x))))"

definition asio_inv :: "bool \<Rightarrow> asio_run \<Rightarrow> bool" where
  "asio_inv w r \<longleftrightarrow> asio_blocks r \<and> asio_waits r \<and> asio_current w r"

lemma run_simps [simp]:
  "ar_st (bump i r) = ar_st r" "ar_started (bump i r) = ar_started r" "ar_pend (bump i r) = ar_pend r"
  "ar_gen (bump i r) = (ar_gen r)(i := ar_gen r i + 1)"
  "ar_st (set_started p v r) = ar_st r" "ar_started (set_started p v r) = (ar_started r)(p := v)" "ar_pend (set_started p v r) = ar_pend r"
  "ar_gen (set_started p v r) = ar_gen r"
  by (simp_all add: bump_def set_started_def)

lemma pends_append [simp]: "pends gen (cs @ ds) = pends gen cs @ pends gen ds"
  by (induction gen cs rule: pends.induct) simp_all

lemma pends_arms [simp]: "pends gen (arms b ks) = map (\<lambda>k. (k, bb_id b, bb_nr b, gen (bb_id b))) ks"
  by (induction ks) (simp_all add: arms_def)

lemma pends_dispatch [simp]: "pends gen [dispatch_of k ec p] = []"
  by (cases k) (simp_all add: dispatch_of_def)

lemma run_to_simps [simp]:
  "ar_st (run_to st' r) = st'" "ar_started (run_to st' r) = ar_started r" "ar_gen (run_to st' r) = ar_gen r"
  by (simp_all add: run_to_def)

lemma run_to_pend: "as_trace st' = as_trace (ar_st r) @ cs \<Longrightarrow> ar_pend (run_to st' r) = ar_pend r @ pends (ar_gen r) cs"
  by (simp add: run_to_def)

lemma owned_by_poll_upd:
  assumes "owned_by_poll st i" "aview st p = Some (x, b)" "aview st' = (aview st)(p \<mapsto> (y, c))"
    "as_owner st' = as_owner st" "ap_boost_block y = ap_boost_block x" "bb_id c = bb_id b"
  shows "owned_by_poll st' i"
  unfolding owned_by_poll_def
proof (intro allI impI)
  fix bk assume "as_owner st' i = Some bk"
  then obtain q z d where "aview st q = Some (z, d)" "ap_boost_block z = bk" "bb_id d = i"
    using assms(1,4) unfolding owned_by_poll_def by auto
  then show "\<exists>q z d. aview st' q = Some (z, d) \<and> ap_boost_block z = bk \<and> bb_id d = i"
    using assms(2,3,5,6) by (cases "q = p") auto
qed

text \<open>What one operation on a live poll does to the invariant: \<open>d\<close> is 1 when it makes older waits out of date.\<close>

lemma asio_inv_effect:
  assumes I: "asio_inv w r" and v: "aview (ar_st r) p = Some (x, b)"
    and e: "poll_effect p (y, c) cs n (ar_st r) st'"
    and same: "ap_boost_block y = ap_boost_block x" "bb_id c = bb_id b" "bb_nr c = bb_nr b + of_nat d"
    and r': "ar_st r' = st'" "ar_gen r' = (ar_gen r)(bb_id b := ar_gen r (bb_id b) + d)"
      "ar_pend r' = ar_pend r @ map (\<lambda>k. (k, bb_id b, bb_nr c, ar_gen r' (bb_id b))) ks" "\<And>q. q \<noteq> p \<Longrightarrow> ar_started r' q = ar_started r q"
    and n: "n = length ks"
    and new: "w \<Longrightarrow> \<forall>k\<in>set ks. ar_started r' p \<and> asked k (ap_events y)"
    and old: "d = 0 \<Longrightarrow> (ar_started r p \<longrightarrow> ar_started r' p \<and> ap_events y = ap_events x)" "d \<noteq> 0 \<Longrightarrow> d = 1 \<and> room w (bb_id b) r"
  shows "asio_inv w r'"
proof -
  let ?i = "bb_id b"
  have E: "aview st' = (aview (ar_st r))(p \<mapsto> (y, c))" "as_polls st' = as_polls (ar_st r) + int n" "as_owner st' = as_owner (ar_st r)"
    "as_next_id st' = as_next_id (ar_st r)" "dom (as_objs st') = dom (as_objs (ar_st r))"
    using e by (simp_all add: poll_effect_def)
  have B: "asio_blocks r" and W: "asio_waits r" and C: "asio_current w r" using I by (simp_all add: asio_inv_def)
  have bi: "bb_nr b = of_nat (ar_gen r ?i)" "?i < as_next_id (ar_st r)" using B v by (auto simp: asio_blocks_def)
  have u: "bb_id a \<noteq> ?i" if "aview (ar_st r) q = Some (z, a)" "q \<noteq> p" for q z a
    using aview_unique [OF that(1) v] that(2) by blast
  have B': "asio_blocks r'"
    unfolding asio_blocks_def r'(1,2) E
  proof (intro conjI allI impI)
    fix q z a assume q: "((aview (ar_st r))(p \<mapsto> (y, c))) q = Some (z, a)"
    show "bb_nr a = of_nat (((ar_gen r)(?i := ar_gen r ?i + d)) (bb_id a))" "bb_id a < as_next_id (ar_st r)"
      using q u [of q z a] B bi same unfolding asio_blocks_def by (auto split: if_splits)
  qed (use B bi E in \<open>auto simp: asio_blocks_def\<close>)
  have ow: "owned_by_poll st' j" if "owned_by_poll (ar_st r) j" for j
    by (rule owned_by_poll_upd [OF that v E(1,3) same(1,2)])
  have oi: "owned_by_poll st' ?i" using v E(1,3) same by (auto simp: owned_by_poll_def aview_iff)
  have W0: "nr = of_nat g \<and> g \<le> ar_gen r j \<and> j < as_next_id (ar_st r) \<and> owned_by_poll (ar_st r) j"
    if "(k, j, nr, g) \<in> set (ar_pend r)" for k j nr g
    using W that by (auto simp: asio_waits_def)
  have pl: "as_polls (ar_st r) = int (length (ar_pend r))" using W by (simp add: asio_waits_def)
  have W': "asio_waits r'"
    unfolding asio_waits_def r'(1,2,3) E(2,4) using bi n pl by (auto simp: oi same(3) dest!: W0 intro: ow)
  have "ar_gen r' (bb_id a) - g < 256 \<and> (g = ar_gen r' (bb_id a) \<longrightarrow> ar_started r' q \<and> asked k (ap_events z))"
    if w: w and m: "(k, bb_id a, nr, g) \<in> set (ar_pend r')" and q: "aview st' q = Some (z, a)" for k nr g q z a
  proof (cases "q = p")
    case True
    then have za: "z = y" "a = c" using q E(1) by simp_all
    then consider "k \<in> set ks" "g = ar_gen r' ?i" | (before) "(k, ?i, nr, g) \<in> set (ar_pend r)"
      using m same(2) unfolding r'(3) by auto
    then show ?thesis
    proof cases
      case 1
      then show ?thesis using new [OF w] za same(2) True by simp
    next
      case before
      have le: "g \<le> ar_gen r ?i" using W before by (auto simp: asio_waits_def)
      have cur: "ar_gen r ?i - g < 256" "g = ar_gen r ?i \<Longrightarrow> ar_started r p \<and> asked k (ap_events x)"
        using C w before v by (fastforce simp: asio_current_def)+
      show ?thesis
      proof (cases "d = 0")
        case d: True
        then show ?thesis using cur old(1) za True same(2) by (auto simp: r'(2))
      next
        case False
        then show ?thesis using old(2) before w le za same(2) by (auto simp: r'(2) room_def)
      qed
    qed
  next
    case False
    then have a: "aview (ar_st r) q = Some (z, a)" using q E(1) by simp
    then have "(k, bb_id a, nr, g) \<in> set (ar_pend r)" using m u [OF a False] unfolding r'(3) by auto
    then show ?thesis using C w a u [OF a False] r'(4) [OF False] by (fastforce simp: asio_current_def r'(2))
  qed
  then have "asio_current w r'" by (auto simp: asio_current_def r'(1))
  then show ?thesis using B' W' by (simp add: asio_inv_def)
qed


lemma asio_inv_wait:
  assumes "asio_inv w r" "(k, i, nr, g) \<in> set (ar_pend r)"
  shows "nr = of_nat g" "g \<le> ar_gen r i" "i < as_next_id (ar_st r)" "owned_by_poll (ar_st r) i"
  using assms by (auto simp: asio_inv_def asio_waits_def)

lemma asio_inv_take:
  assumes I: "asio_inv w r" and e: "e \<in> set (ar_pend r)"
  shows "asio_inv w (r\<lparr>ar_st := (ar_st r)\<lparr>as_polls := as_polls (ar_st r) - 1\<rparr>, ar_pend := remove1 e (ar_pend r)\<rparr>)" (is "asio_inv w ?r")
proof -
  have owned: "owned_by_poll (st\<lparr>as_polls := n\<rparr>) = owned_by_poll st" for st n by (simp add: owned_by_poll_def fun_eq_iff)
  have s: "set (remove1 e (ar_pend r)) \<subseteq> set (ar_pend r)" by (rule set_remove1_subset)
  have "1 \<le> length (ar_pend r)" using e by (cases "ar_pend r") auto
  then have "int (length (remove1 e (ar_pend r))) = int (length (ar_pend r)) - 1" using e by (simp add: length_remove1 of_nat_diff)
  then have "asio_waits ?r"
    using I s unfolding asio_inv_def asio_waits_def by (simp add: owned) blast
  moreover have "asio_current w ?r" using I s unfolding asio_inv_def asio_current_def by simp blast
  moreover have "asio_blocks ?r" using I by (simp add: asio_inv_def asio_blocks_def)
  ultimately show ?thesis by (simp add: asio_inv_def)
qed

text \<open>The completion of a wait that is held: the two outcomes.\<close>

lemma complete_cases:
  assumes I: "asio_inv w r" and m: "(k, i, nr, g) \<in> set (ar_pend r)"
  obtains (quiet) "\<And>p b x. \<not> fires ec i nr p b x (ar_st r)"
      "complete_wait k i nr ec (ar_st r) = Some ((ar_st r)\<lparr>as_polls := as_polls (ar_st r) - 1\<rparr>)"
    | (fires) p b x st' where "fires ec i nr p b x (ar_st r)" "complete_wait k i nr ec (ar_st r) = Some st'"
      "poll_effect p (x, b) (arms b [k] @ [dispatch_of k ec p]) 0 (ar_st r) st'"
proof (cases "\<exists>p b x. fires ec i nr p b x (ar_st r)")
  case True
  then show thesis using complete_fires that(2) by metis
next
  case False
  have "complete_wait k i nr ec (ar_st r) = Some ((ar_st r)\<lparr>as_polls := as_polls (ar_st r) - 1\<rparr>)"
    by (rule complete_quiet) (use asio_inv_wait(4) [OF I m] False in \<open>auto simp: owned_by_poll_def\<close>)
  then show thesis using False that(1) by blast
qed

lemma fires_current:
  assumes I: "asio_inv w r" and m: "(k, i, nr, g) \<in> set (ar_pend r)" and v: "aview (ar_st r) p = Some (x, b)" "bb_id b = i"
  shows "bb_nr b = nr \<longleftrightarrow> 256 dvd (ar_gen r i - g)"
    "w \<Longrightarrow> bb_nr b = nr \<Longrightarrow> g = ar_gen r i \<and> ar_started r p \<and> asked k (ap_events x)"
proof -
  have n: "nr = of_nat g" "g \<le> ar_gen r i" using asio_inv_wait [OF I m] by simp_all
  have b: "bb_nr b = of_nat (ar_gen r i)" using I v by (auto simp: asio_inv_def asio_blocks_def)
  have "bb_nr b = nr \<longleftrightarrow> (of_nat (ar_gen r i - g) :: 8 word) = 0" using n(2) unfolding b n(1) by (simp add: of_nat_diff)
  also have "\<dots> \<longleftrightarrow> 256 dvd (ar_gen r i - g)" by (simp add: word_of_nat_eq_0_iff)
  finally show iff: "bb_nr b = nr \<longleftrightarrow> 256 dvd (ar_gen r i - g)" .
  assume w: w and eq: "bb_nr b = nr"
  have c: "ar_gen r i - g < 256" "g = ar_gen r i \<Longrightarrow> ar_started r p \<and> asked k (ap_events x)"
    using I w m v by (fastforce simp: asio_inv_def asio_current_def)+
  have "ar_gen r i - g = 0" using iff eq c(1) by (metis dvd_imp_le not_less neq0_conv)
  then show "g = ar_gen r i \<and> ar_started r p \<and> asked k (ap_events x)" using c(2) n(2) by simp
qed

lemma asio_inv_complete:
  assumes I: "asio_inv w r" and m: "(k, i, nr, g) \<in> set (ar_pend r)" and c: "complete_wait k i nr ec (ar_st r) = Some st'"
  shows "asio_inv w (run_to st' (r\<lparr>ar_pend := remove1 (k, i, nr, g) (ar_pend r)\<rparr>))" (is "asio_inv w ?r'")
proof -
  let ?st0 = "(ar_st r)\<lparr>as_polls := as_polls (ar_st r) - 1\<rparr>"
  let ?r0 = "r\<lparr>ar_st := ?st0, ar_pend := remove1 (k, i, nr, g) (ar_pend r)\<rparr>"
  note I0 = asio_inv_take [OF I m]
  show ?thesis
  proof (cases rule: complete_cases [OF I m, of ec])
    case 1
    then have "run_to st' (r\<lparr>ar_pend := remove1 (k, i, nr, g) (ar_pend r)\<rparr>) = ?r0" using c by (simp add: run_to_def)
    then show ?thesis using I0 by simp
  next
    case fires: (2 p b x st1)
    then have e: "poll_effect p (x, b) (arms b [k] @ [dispatch_of k ec p]) 0 (ar_st r) st'" using c by simp
    then have tr: "as_trace st' = as_trace (ar_st r) @ arms b [k] @ [dispatch_of k ec p]" by (simp add: poll_effect_def)
    have e0: "poll_effect p (x, b) (arms b [k] @ [dispatch_of k ec p]) 1 (ar_st ?r0) st'" using e by (simp add: poll_effect_def)
    have v: "aview (ar_st r) p = Some (x, b)" "bb_id b = i" "bb_nr b = nr" using fires(1) by (simp_all add: fires_def)
    have v0: "aview (ar_st ?r0) p = Some (x, b)" using v(1) by simp
    have g: "nr = of_nat (ar_gen r i)" using I v by (auto simp: asio_inv_def asio_blocks_def)
    show ?thesis
      by (rule asio_inv_effect [OF I0 v0 e0, where d = 0 and ks = "[k]"])
        (use v fires_current(2) [OF I m v(1,2) _ v(3)] tr in \<open>simp_all add: run_to_def\<close>)
  qed
qed


lemma aview_dead: "as_objs st p = None \<Longrightarrow> aview st p = None"
  by (simp add: aview_def rd_apoll_def)

lemma asio_inv_blocks:
  assumes "asio_inv w r"
  shows "finite (dom (as_objs (ar_st r)))" "\<And>i. as_next_id (ar_st r) \<le> i \<Longrightarrow> as_owner (ar_st r) i = None \<and> ar_gen r i = 0"
    "\<And>p x b. aview (ar_st r) p = Some (x, b) \<Longrightarrow> bb_nr b = of_nat (ar_gen r (bb_id b)) \<and> bb_id b < as_next_id (ar_st r)"
  using assms by (auto simp: asio_inv_def asio_blocks_def)

lemma asio_inv_current:
  assumes "asio_inv w r" w "(k, bb_id b, nr, g) \<in> set (ar_pend r)" "aview (ar_st r) p = Some (x, b)"
  shows "ar_gen r (bb_id b) - g < 256" "g = ar_gen r (bb_id b) \<Longrightarrow> ar_started r p \<and> asked k (ap_events x)"
  using assms by (fastforce simp: asio_inv_def asio_current_def)+

text \<open>Operations that begin no wait: it is enough to look at the views and the owners.\<close>

lemma asio_inv_views:
  assumes I: "asio_inv w r" and fin: "finite (dom (as_objs (ar_st r')))"
    and same: "ar_pend r' = ar_pend r" "ar_gen r' = ar_gen r" "as_polls (ar_st r') = as_polls (ar_st r)"
      "as_next_id (ar_st r) \<le> as_next_id (ar_st r')"
    and own: "\<And>i. as_next_id (ar_st r') \<le> i \<Longrightarrow> as_owner (ar_st r') i = None"
    and views: "\<And>p y c. aview (ar_st r') p = Some (y, c) \<Longrightarrow> bb_id c = as_next_id (ar_st r) \<and> bb_nr c = 0 \<and> bb_id c < as_next_id (ar_st r') \<or>
      (\<exists>q x b. aview (ar_st r) q = Some (x, b) \<and> bb_id b = bb_id c \<and> bb_nr b = bb_nr c \<and> ap_events y = ap_events x \<and> (ar_started r q \<longrightarrow> ar_started r' p))"
    and owned: "\<And>i. i < as_next_id (ar_st r) \<Longrightarrow> owned_by_poll (ar_st r) i \<Longrightarrow> owned_by_poll (ar_st r') i"
  shows "asio_inv w r'"
proof -
  note B = asio_inv_blocks [OF I]
  have "asio_blocks r'"
    unfolding asio_blocks_def
  proof (intro conjI allI impI)
    fix p y c assume "aview (ar_st r') p = Some (y, c)"
    then consider "bb_id c = as_next_id (ar_st r)" "bb_nr c = 0" "bb_id c < as_next_id (ar_st r')"
      | q x b where "aview (ar_st r) q = Some (x, b)" "bb_id b = bb_id c" "bb_nr b = bb_nr c" using views by blast
    then show "bb_nr c = of_nat (ar_gen r' (bb_id c))" "bb_id c < as_next_id (ar_st r')"
      using B(2) [of "as_next_id (ar_st r)"] B(3) same(2,4) by (cases; fastforce)+
  qed (use fin own B(2) same(2,4) in auto)
  moreover have "asio_waits r'"
    using I same owned unfolding asio_inv_def asio_waits_def by fastforce
  moreover have "ar_gen r' (bb_id c) - g < 256 \<and> (g = ar_gen r' (bb_id c) \<longrightarrow> ar_started r' p \<and> asked k (ap_events y))"
    if w: w and m: "(k, bb_id c, nr, g) \<in> set (ar_pend r')" and v: "aview (ar_st r') p = Some (y, c)" for k nr g p y c
  proof -
    have m': "(k, bb_id c, nr, g) \<in> set (ar_pend r)" using m same(1) by simp
    have "bb_id c < as_next_id (ar_st r)" using asio_inv_wait(3) [OF I m'] .
    then obtain q x b where q: "aview (ar_st r) q = Some (x, b)" "bb_id b = bb_id c" "ap_events y = ap_events x" "ar_started r q \<longrightarrow> ar_started r' p"
      using views [OF v] by auto
    show ?thesis using asio_inv_current [OF I w _ q(1), of k nr g] m' q(2-4) same(2) by auto
  qed
  then have "asio_current w r'" by (auto simp: asio_current_def)
  ultimately show ?thesis by (simp add: asio_inv_def)
qed

lemma asio_inv_create:
  assumes E: "asio_malloc_ok E" and I: "asio_inv w r" and c: "us_create_poll_asio E (ar_st r) = Some (p, st')"
  shows "asio_inv w (set_started p False (run_to st' r))"
proof -
  let ?st = "ar_st r"
  note B = asio_inv_blocks [OF I]
  obtain x b where o: "as_objs ?st p = None" "bb_id b = as_next_id ?st" "bb_nr b = 0" "aview st' = (aview ?st)(p \<mapsto> (x, b))"
    "as_owner st' = (as_owner ?st)(as_next_id ?st \<mapsto> ap_boost_block x)" "as_next_id st' = as_next_id ?st + 1"
    "as_trace st' = as_trace ?st" "as_polls st' = as_polls ?st" "finite (dom (as_objs st'))"
    using poll_create_ok [OF E B(1)] B(2) c by fastforce
  have d: "aview ?st p = None" by (rule aview_dead [OF o(1)])
  show ?thesis
  proof (rule asio_inv_views [OF I])
    fix i assume "i < as_next_id ?st" "owned_by_poll ?st i"
    then show "owned_by_poll (ar_st (set_started p False (run_to st' r))) i"
      unfolding owned_by_poll_def using o(4,5) d by (auto; metis option.distinct(1))
  next
    fix q y e assume "aview (ar_st (set_started p False (run_to st' r))) q = Some (y, e)"
    then show "bb_id e = as_next_id ?st \<and> bb_nr e = 0 \<and> bb_id e < as_next_id (ar_st (set_started p False (run_to st' r))) \<or>
      (\<exists>qa x b. aview ?st qa = Some (x, b) \<and> bb_id b = bb_id e \<and> bb_nr b = bb_nr e \<and> ap_events y = ap_events x \<and>
        (ar_started r qa \<longrightarrow> ar_started (set_started p False (run_to st' r)) q))"
      using o(2,3,4,6) by (cases "q = p") auto
  qed (use o B in \<open>auto simp: run_to_def\<close>)
qed


lemma asio_inv_free:
  assumes I: "asio_inv w r" and v: "aview (ar_st r) p = Some (x, b)" and c: "us_poll_free_asio p (ar_st r) = Some st'"
  shows "asio_inv w (run_to st' r)"
proof -
  let ?st = "ar_st r"
  note B = asio_inv_blocks [OF I]
  have o: "aview st' = (aview ?st)(p := None)" "as_owner st' = (as_owner ?st)(bb_id b := None)" "as_trace st' = as_trace ?st @ [Delete (bb_id b)]"
    "as_polls st' = as_polls ?st" "as_next_id st' = as_next_id ?st" "finite (dom (as_objs st'))"
    using poll_free_ok [OF v] c B(1) by auto
  show ?thesis
  proof (rule asio_inv_views [OF I])
    fix i assume "i < as_next_id ?st" "owned_by_poll ?st i"
    then show "owned_by_poll (ar_st (run_to st' r)) i"
      unfolding owned_by_poll_def using o(1,2) v
      by (auto split: if_splits) (metis option.inject prod.inject)
  next
    fix q y e assume "aview (ar_st (run_to st' r)) q = Some (y, e)"
    then show "bb_id e = as_next_id ?st \<and> bb_nr e = 0 \<and> bb_id e < as_next_id (ar_st (run_to st' r)) \<or>
      (\<exists>qa x b. aview ?st qa = Some (x, b) \<and> bb_id b = bb_id e \<and> bb_nr b = bb_nr e \<and> ap_events y = ap_events x \<and>
        (ar_started r qa \<longrightarrow> ar_started (run_to st' r) q))"
      using o(1) by (auto split: if_splits)
  qed (use o B in \<open>auto simp: run_to_def\<close>)
qed

lemma asio_inv_resize:
  assumes E: "asio_malloc_ok E" and I: "asio_inv w r" and v: "aview (ar_st r) p = Some (x, b)"
    and c: "us_poll_resize_asio E p (ar_st r) = Some (q, st')"
  shows "asio_inv w (set_started q (ar_started r p) (set_started p False (run_to st' r)))" (is "asio_inv w ?r'")
proof -
  let ?st = "ar_st r"
  note B = asio_inv_blocks [OF I]
  have o: "q = p \<or> as_objs ?st q = None" "aview st' = (aview ?st)(p := None, q \<mapsto> (x, b\<lparr>bb_p := q\<rparr>))" "as_owner st' = as_owner ?st"
    "as_next_id st' = as_next_id ?st" "as_trace st' = as_trace ?st" "as_polls st' = as_polls ?st" "finite (dom (as_objs st'))"
    using poll_resize_ok [OF E B(1) v] c by auto
  have d: "q = p \<or> aview ?st q = None" using o(1) aview_dead [of ?st q] by auto
  show ?thesis
  proof (rule asio_inv_views [OF I])
    fix i assume a: "i < as_next_id ?st" "owned_by_poll ?st i"
    show "owned_by_poll (ar_st ?r') i"
      unfolding owned_by_poll_def
    proof (intro allI impI)
      fix bk assume "as_owner (ar_st ?r') i = Some bk"
      then obtain p1 x1 b1 where "aview ?st p1 = Some (x1, b1)" "ap_boost_block x1 = bk" "bb_id b1 = i"
        using a(2) o(3) unfolding owned_by_poll_def by auto
      then show "\<exists>p1 x1 b1. aview (ar_st ?r') p1 = Some (x1, b1) \<and> ap_boost_block x1 = bk \<and> bb_id b1 = i"
        using o(2) d v by (cases "p1 = p"; cases "p1 = q") auto
    qed
  next
    fix a y e assume "aview (ar_st ?r') a = Some (y, e)"
    then have "aview ?st (if a = q then p else a) = Some (y, if a = q then b else e) \<and>
        (a = q \<longrightarrow> e = b\<lparr>bb_p := q\<rparr>) \<and> (ar_started r (if a = q then p else a) \<longrightarrow> ar_started ?r' a)"
      using o(2) v by (cases "a = q"; cases "a = p") auto
    then show "bb_id e = as_next_id ?st \<and> bb_nr e = 0 \<and> bb_id e < as_next_id (ar_st ?r') \<or>
      (\<exists>qa x b. aview ?st qa = Some (x, b) \<and> bb_id b = bb_id e \<and> bb_nr b = bb_nr e \<and> ap_events y = ap_events x \<and> (ar_started r qa \<longrightarrow> ar_started ?r' a))"
      by (intro disjI2 exI [of _ "if a = q then p else a"] exI [of _ y] exI [of _ "if a = q then b else e"]) auto
  qed (use o B in \<open>auto simp: run_to_def\<close>)
qed

lemma asio_inv_step:
  assumes E: "asio_malloc_ok E" and I: "asio_inv w r" and s: "asio_step w E r r'"
  shows "asio_inv w r'"
  using s
proof cases
  case (step_create p st')
  then show ?thesis using asio_inv_create [OF E I] by simp
next
  case (step_init p x b fd ty st')
  then have e: "poll_effect p (x\<lparr>ap_poll_type := ty, ap_events := 0, ap_fd := fd\<rparr>, b) [Assign (bb_id b) fd] 0 (ar_st r) st'"
    using poll_fields_ok(1) [of "ar_st r" p x b fd ty] by auto
  show ?thesis unfolding step_init(1)
    by (rule asio_inv_effect [OF I step_init(2) e, where d = 0 and ks = "[]"]) (use step_init e in \<open>simp_all add: run_to_def poll_effect_def\<close>)
next
  case (step_set_type p x b ty st')
  then have e: "poll_effect p (x\<lparr>ap_poll_type := ty\<rparr>, b) [] 0 (ar_st r) st'" using poll_fields_ok(2) [of "ar_st r" p x b ty] by auto
  show ?thesis unfolding step_set_type(1)
    by (rule asio_inv_effect [OF I step_set_type(2) e, where d = 0 and ks = "[]"]) (use e in \<open>simp_all add: run_to_def poll_effect_def\<close>)
next
  case (step_start p x b ev st')
  then have e: "poll_effect p (x\<lparr>ap_events := ev\<rparr>, b) (arms b (asked_waits ev)) (length (asked_waits ev)) (ar_st r) st'"
    using poll_start_ok [of "ar_st r" p x b ev] by auto
  show ?thesis unfolding step_start(1)
    by (rule asio_inv_effect [OF I step_start(2) e, where d = 0 and ks = "asked_waits ev"])
      (use e step_start(3) in \<open>auto simp: run_to_def poll_effect_def asked_waits_def\<close>)
next
  case (step_change p x b ev st')
  then have e: "poll_effect p (x\<lparr>ap_events := ev\<rparr>, b\<lparr>bb_nr := bb_nr b + 1\<rparr>)
      (Cancel (bb_id b) # arms (b\<lparr>bb_nr := bb_nr b + 1\<rparr>) (asked_waits ev)) (length (asked_waits ev)) (ar_st r) st'"
    using poll_change_ok [of "ar_st r" p x b ev] by auto
  show ?thesis unfolding step_change(1)
    by (rule asio_inv_effect [OF I step_change(2) e, where d = 1 and ks = "asked_waits ev"])
      (use e step_change(3,4) in \<open>auto simp: run_to_def poll_effect_def asked_waits_def\<close>)
next
  case (step_stop p x b st')
  then have e: "poll_effect p (x, b\<lparr>bb_nr := bb_nr b + 1\<rparr>) [Release (bb_id b)] 0 (ar_st r) st'"
    using poll_stop_ok [of "ar_st r" p x b] by auto
  show ?thesis unfolding step_stop(1)
    by (rule asio_inv_effect [OF I step_stop(2) e, where d = 1 and ks = "[]"])
      (use e step_stop(4) in \<open>simp_all add: run_to_def poll_effect_def\<close>)
next
  case (step_free p x b st')
  then show ?thesis using asio_inv_free [OF I] by simp
next
  case (step_resize p x b q st')
  then show ?thesis using asio_inv_resize [OF E I] by simp
next
  case (step_complete k i nr g ec st')
  then show ?thesis using asio_inv_complete [OF I] by simp
qed

lemma asio_reachable_inv: "asio_reachable w E r \<Longrightarrow> asio_malloc_ok E \<Longrightarrow> asio_inv w r"
proof (induction rule: asio_reachable.induct)
  case (reach_initial r)
  then show ?case by (auto simp: asio_initial_def asio_inv_def asio_blocks_def asio_waits_def asio_current_def)
next
  case (reach_step r r')
  then show ?case using asio_inv_step by blast
qed


section \<open>Which completions are dispatched\<close>

text \<open>C38. ASIO may complete any wait it holds, with any error code, long after the poll was changed, stopped or freed, and
  the handler never goes wrong: it lowers the count of waits, and begins the wait again and dispatches the poll exactly when the
  wait was not aborted, the poll is still there and the number of changes since the wait began is a multiple
  of 256. If polls are never changed 256 times within the life of a wait, what is dispatched is thus always a kind of
  event that a started poll is polling for. The count of waits, which keeps \<open>us_loop_run\<close> going, is right throughout.\<close>
theorem asio_dispatch_current:
  assumes E: "asio_malloc_ok E" and R: "asio_reachable w E r" and m: "(k, i, nr, g) \<in> set (ar_pend r)"
  shows "\<exists>st'. complete_wait k i nr ec (ar_st r) = Some st' \<and> as_polls (ar_st r) = int (length (ar_pend r)) \<and>
    ((\<exists>p x b. ec \<noteq> EcAborted \<and> aview (ar_st r) p = Some (x, b) \<and> bb_id b = i \<and> 256 dvd (ar_gen r i - g) \<and>
        as_trace st' = as_trace (ar_st r) @ [AsyncWait (OpWait k i nr), dispatch_of k ec p] \<and> as_polls st' = as_polls (ar_st r) \<and>
        (w \<longrightarrow> g = ar_gen r i \<and> ar_started r p \<and> asked k (ap_events x))) \<or>
     (ec = EcAborted \<or> (\<nexists>p x b. aview (ar_st r) p = Some (x, b) \<and> bb_id b = i \<and> 256 dvd (ar_gen r i - g))) \<and>
        st' = (ar_st r)\<lparr>as_polls := as_polls (ar_st r) - 1\<rparr>)"
proof -
  have I: "asio_inv w r" by (rule asio_reachable_inv [OF R E])
  have n: "as_polls (ar_st r) = int (length (ar_pend r))" using I by (simp add: asio_inv_def asio_waits_def)
  note cur = fires_current [OF I m]
  show ?thesis
  proof (cases rule: complete_cases [OF I m, of ec])
    case 1
    then show ?thesis using n cur(1) by (auto simp: fires_def)
  next
    case (2 p b x st')
    then have v: "ec \<noteq> EcAborted" "aview (ar_st r) p = Some (x, b)" "bb_id b = i" "bb_nr b = nr" by (simp_all add: fires_def)
    then have "256 dvd (ar_gen r i - g)" "w \<longrightarrow> g = ar_gen r i \<and> ar_started r p \<and> asked k (ap_events x)" using cur by auto
    moreover have "as_trace st' = as_trace (ar_st r) @ [AsyncWait (OpWait k i nr), dispatch_of k ec p]" "as_polls st' = as_polls (ar_st r)"
      using 2(3) v by (simp_all add: poll_effect_def arms_def)
    ultimately show ?thesis using 2(2) v n by blast
  qed
qed

definition wa_env :: asio_env where
  "wa_env = \<lparr>ae_malloc = (\<lambda>st. Suc (Max (insert 0 (dom (as_objs st))))), ae_realloc = (\<lambda>st a. Suc (Max (insert 0 (dom (as_objs st))))),
     ae_new_poll = (\<lambda>st. \<lparr>ap_boost_block = 0, ap_fd = 0, ap_poll_type = 0, ap_events = 0\<rparr>), ae_run_one = (\<lambda>st. None), ae_poll_one = (\<lambda>st. None)\<rparr>"

definition wa_run :: asio_run where
  "wa_run = \<lparr>ar_st = \<lparr>as_objs = Map.empty, as_owner = Map.empty, as_next_id = 0, as_polls = 0, as_self = 0, as_is_default = False, as_sweep_timer = 0,
     as_wakeup_async = 0, as_trace = []\<rparr>, ar_started = (\<lambda>p. False), ar_gen = (\<lambda>i. 0), ar_pend = []\<rparr>"

lemma wa_malloc: "asio_malloc_ok wa_env"
proof -
  have "m (Suc (Max (insert 0 (dom m)))) = None" if "finite (dom m)" for m :: "nat \<Rightarrow> asio_obj option"
  proof (rule ccontr)
    assume "m (Suc (Max (insert 0 (dom m)))) \<noteq> None"
    then have "Suc (Max (insert 0 (dom m))) \<le> Max (insert 0 (dom m))" using that by (intro Max_ge) auto
    then show False by simp
  qed
  then show ?thesis by (auto simp: asio_malloc_ok_def wa_env_def)
qed

lemma wa_started:
  "\<exists>r p x b. asio_reachable w wa_env r \<and> ar_pend r = [(WaitError, 0, 0, 0), (WaitRead, 0, 0, 0)] \<and> aview (ar_st r) p = Some (x, b) \<and>
     bb_id b = 0 \<and> ar_gen r 0 = 0"
proof -
  let ?st = "ar_st wa_run"
  have nv: "aview ?st = Map.empty" by (rule ext) (simp add: wa_run_def aview_dead)
  have i: "asio_initial wa_run" by (simp add: asio_initial_def nv) (simp add: wa_run_def)
  then have r0: "asio_reachable w wa_env wa_run" by (rule reach_initial)
  have "finite (dom (as_objs ?st))" by (simp add: wa_run_def)
  from poll_create_ok [OF wa_malloc this] obtain p x b st1 where c: "us_create_poll_asio wa_env ?st = Some (p, st1)"
    "bb_id b = as_next_id ?st" "bb_nr b = 0" "(\<forall>i\<ge>as_next_id ?st. as_owner ?st i = None) \<longrightarrow> aview st1 = (aview ?st)(p \<mapsto> (x, b))"
    "as_trace st1 = as_trace ?st" by blast
  have v1: "aview st1 p = Some (x, b)" "bb_id b = 0" using c(2,4) by (simp_all add: wa_run_def)
  let ?r1 = "set_started p False (run_to st1 wa_run)"
  have r1: "asio_reachable w wa_env ?r1" by (rule reach_step [OF r0 step_create [OF c(1)]])
  have p1: "ar_pend ?r1 = []" "ar_gen ?r1 = (\<lambda>i. 0)" using c(5) by (simp_all add: run_to_def wa_run_def)
  obtain st2 where s: "us_poll_start_asio p ASIO_READABLE st1 = Some st2"
    "poll_effect p (x\<lparr>ap_events := ASIO_READABLE\<rparr>, b) (arms b (asked_waits ASIO_READABLE)) (length (asked_waits ASIO_READABLE)) st1 st2"
    using poll_start_ok [OF v1(1)] by blast
  let ?r2 = "set_started p True (run_to st2 ?r1)"
  have v1': "aview (ar_st ?r1) p = Some (x, b)" using v1(1) by simp
  have s': "us_poll_start_asio p ASIO_READABLE (ar_st ?r1) = Some st2" using s(1) by simp
  have r2: "asio_reachable w wa_env ?r2" by (rule reach_step [OF r1 step_start [OF v1' _ s']]) simp
  have "asked_waits ASIO_READABLE = [WaitError, WaitRead]" by (simp add: asked_waits_def asked_def ASIO_READABLE_def ASIO_WRITABLE_def)
  then have "as_trace st2 = as_trace (ar_st ?r1) @ arms b [WaitError, WaitRead]" using s(2) by (simp add: poll_effect_def)
  then have "ar_pend (run_to st2 ?r1) = [(WaitError, 0, 0, 0), (WaitRead, 0, 0, 0)]"
    using p1 c(3) v1(2) by (simp add: run_to_pend)
  moreover have "aview st2 p = Some (x\<lparr>ap_events := ASIO_READABLE\<rparr>, b)" using s(2) by (simp add: poll_effect_def)
  ultimately show ?thesis using r2 p1(2) v1(2)
    by (intro exI [of _ ?r2] exI [of _ p] exI [of _ "x\<lparr>ap_events := ASIO_READABLE\<rparr>"] exI [of _ b]) simp
qed

theorem asio_dispatch_current_witness:
  "\<exists>r p st'. asio_reachable True wa_env r \<and> complete_wait WaitRead 0 0 EcOk (ar_st r) = Some st' \<and>
     as_trace st' = as_trace (ar_st r) @ [AsyncWait (OpWait WaitRead 0 0), DispatchPoll p 0 ASIO_READABLE]"
proof -
  obtain r p x b where r: "asio_reachable True wa_env r" "ar_pend r = [(WaitError, 0, 0, 0), (WaitRead, 0, 0, 0)]"
    "aview (ar_st r) p = Some (x, b)" "bb_id b = 0" "ar_gen r 0 = 0" using wa_started by blast
  have "(WaitRead, 0, 0, 0) \<in> set (ar_pend r)" using r(2) by simp
  from asio_dispatch_current [OF wa_malloc r(1) this, of EcOk] show ?thesis
    using r(1,3,4,5) by (simp add: dispatch_of_def) (metis less_irrefl)
qed

section \<open>The byte comes round\<close>

primrec change_times :: "nat \<Rightarrow> addr \<Rightarrow> u32 \<Rightarrow> asts \<Rightarrow> asts option" where
  "change_times 0 p ev st = Some st"
| "change_times (Suc n) p ev st = do { st \<leftarrow> us_poll_change_asio p ev st; change_times n p ev st }"

lemma change_times_ok:
  "aview st p = Some (x, b) \<Longrightarrow> \<exists>st' y. change_times n p ev st = Some st' \<and> aview st' p = Some (y, b\<lparr>bb_nr := bb_nr b + of_nat n\<rparr>) \<and>
    (0 < n \<longrightarrow> ap_events y = ev)"
proof (induction n arbitrary: st x b)
  case 0
  then show ?case by simp
next
  case (Suc n)
  obtain st1 where s: "us_poll_change_asio p ev st = Some st1" "aview st1 p = Some (x\<lparr>ap_events := ev\<rparr>, b\<lparr>bb_nr := bb_nr b + 1\<rparr>)"
    using poll_change_ok [OF Suc.prems, of ev] by (auto simp: poll_effect_def)
  obtain st' y where t: "change_times n p ev st1 = Some st'" "aview st' p = Some (y, b\<lparr>bb_nr := bb_nr b + 1 + of_nat n\<rparr>)" "0 < n \<longrightarrow> ap_events y = ev"
    using Suc.IH [OF s(2)] by auto
  have "ap_events y = ev" using t s(2) by (cases n) auto
  then show ?case using s(1) t(1,2) by (simp add: algebra_simps)
qed

text \<open>The number of changes is kept in one byte. A wait for a socket to become readable, whose completion ASIO has already
  queued, is dispatched as if it were up to date after the poll has been changed 256 times, even when the poll now
  asks for other events only.\<close>
theorem asio_nr_wraps:
  assumes "aview st p = Some (x, b)"
  shows "\<exists>st' y c st''. change_times 256 p ev st = Some st' \<and> aview st' p = Some (y, c) \<and> ap_events y = ev \<and>
    complete_wait WaitRead (bb_id b) (bb_nr b) EcOk st' = Some st'' \<and>
    as_trace st'' = as_trace st' @ [AsyncWait (OpWait WaitRead (bb_id b) (bb_nr b)), DispatchPoll p 0 ASIO_READABLE]"
proof -
  obtain st' y where c: "change_times 256 p ev st = Some st'" "aview st' p = Some (y, b)" "ap_events y = ev"
    using change_times_ok [OF assms, of 256 ev] by auto
  have "fires EcOk (bb_id b) (bb_nr b) p b y st'" using c(2) by (simp add: fires_def)
  from complete_fires [OF this, of WaitRead] show ?thesis
    using c by (auto simp: poll_effect_def arms_def dispatch_of_def)
qed

theorem asio_nr_wraps_witness:
  "\<exists>st p st' y c st''. change_times 256 p ASIO_WRITABLE st = Some st' \<and> aview st' p = Some (y, c) \<and> asked WaitRead (ap_events y) = False \<and>
    complete_wait WaitRead 0 0 EcOk st' = Some st'' \<and>
    as_trace st'' = as_trace st' @ [AsyncWait (OpWait WaitRead 0 0), DispatchPoll p 0 ASIO_READABLE]"
proof -
  obtain r p x b where r: "asio_reachable True wa_env r" "aview (ar_st r) p = Some (x, b)" "bb_id b = 0" "ar_gen r 0 = 0"
    using wa_started by blast
  have "bb_nr b = 0" using asio_inv_blocks(3) [OF asio_reachable_inv [OF r(1) wa_malloc] r(2)] r(3,4) by simp
  then obtain st' y c st'' where o: "change_times 256 p ASIO_WRITABLE (ar_st r) = Some st'" "aview st' p = Some (y, c)" "ap_events y = ASIO_WRITABLE"
    "complete_wait WaitRead 0 0 EcOk st' = Some st''"
    "as_trace st'' = as_trace st' @ [AsyncWait (OpWait WaitRead 0 0), DispatchPoll p 0 ASIO_READABLE]"
    using asio_nr_wraps [OF r(2), of ASIO_WRITABLE] r(3) by auto
  have "asked WaitRead (ap_events y) = False" by (simp add: o(3) asked_def ASIO_READABLE_def ASIO_WRITABLE_def)
  then show ?thesis using o(1,2,4,5) by blast
qed

end
