(* ===== verification/Us_Api.thy ===== *)
theory Us_Api
  imports Us_Ssl_Context
begin

unbundle bit_operations_syntax

text \<open>
  The functions of \<open>src/libusockets.h\<close> that work on plain and on SSL objects alike: their first
  argument \<open>ssl\<close> picks the function of the SSL layer or the plain one, in \<open>src/context.c\<close> and
  \<open>src/socket.c\<close>. The plain halves have the plain names in this development, the public functions
  end in \<open>_api\<close>. OpenSSL, the kernel and the handlers of the user are parameters as in the layers
  below. Last, what the user of the public functions sees of the server names of a context.
\<close>

section \<open>Contexts\<close>

definition us_socket_context_find_server_name_userdata_api :: "openssl \<Rightarrow> bool \<Rightarrow> addr \<Rightarrow> string \<Rightarrow> us \<Rightarrow> addr option" where
  "us_socket_context_find_server_name_userdata_api OS ssl context hostname_pattern st =
     (if ssl then us_internal_ssl_socket_context_find_server_name_userdata OS context hostname_pattern st else Some NULL)"

definition us_socket_server_name_userdata_api :: "openssl \<Rightarrow> bool \<Rightarrow> addr \<Rightarrow> us \<Rightarrow> addr option" where
  "us_socket_server_name_userdata_api OS ssl s st = (if ssl then us_internal_ssl_socket_get_sni_userdata OS s st else Some NULL)"

definition us_socket_context_add_server_name_api ::
  "openssl \<Rightarrow> bool \<Rightarrow> addr \<Rightarrow> string \<Rightarrow> us_socket_context_options_t \<Rightarrow> addr \<Rightarrow> us \<Rightarrow> us option" where
  "us_socket_context_add_server_name_api OS ssl context hostname_pattern options user st =
     (if ssl then us_internal_ssl_socket_context_add_server_name OS context hostname_pattern options user st else Some st)"

definition us_socket_context_remove_server_name_api :: "openssl \<Rightarrow> bool \<Rightarrow> addr \<Rightarrow> string \<Rightarrow> us \<Rightarrow> us option" where
  "us_socket_context_remove_server_name_api OS ssl context hostname_pattern st =
     (if ssl then us_internal_ssl_socket_context_remove_server_name OS context hostname_pattern st else Some st)"

definition us_socket_context_on_server_name_api :: "bool \<Rightarrow> addr \<Rightarrow> fnptr \<Rightarrow> us \<Rightarrow> us option" where
  "us_socket_context_on_server_name_api ssl context cb st =
     (if ssl then us_internal_ssl_socket_context_on_server_name context cb st else Some st)"

definition us_socket_context_get_native_handle_api :: "bool \<Rightarrow> addr \<Rightarrow> us \<Rightarrow> addr option" where
  "us_socket_context_get_native_handle_api ssl context st =
     (if ssl then us_internal_ssl_socket_context_get_native_handle context st else Some NULL)"

definition us_create_socket_context_api ::
  "openssl \<Rightarrow> kernel \<Rightarrow> bool \<Rightarrow> us_socket_context_options_t \<Rightarrow> us \<Rightarrow> (addr \<times> us) option" where
  "us_create_socket_context_api OS K ssl options st =
     (if ssl then us_internal_create_ssl_socket_context OS K options st else us_create_socket_context K st)"

definition us_socket_context_free_api :: "openssl \<Rightarrow> bool \<Rightarrow> addr \<Rightarrow> us \<Rightarrow> us option" where
  "us_socket_context_free_api OS ssl context st =
     (if ssl then us_internal_ssl_socket_context_free OS context st else us_socket_context_free context st)"

definition us_socket_context_listen_api ::
  "kernel \<Rightarrow> bool \<Rightarrow> addr \<Rightarrow> byte list \<Rightarrow> int \<Rightarrow> int \<Rightarrow> u32 \<Rightarrow> us \<Rightarrow> (addr \<times> us) option" where
  "us_socket_context_listen_api K ssl context host port options socket_ext_size st =
     (if ssl then us_internal_ssl_socket_context_listen K context host port options socket_ext_size st
      else us_socket_context_listen K context host port options socket_ext_size st)"

definition us_socket_context_listen_unix_api ::
  "kernel \<Rightarrow> bool \<Rightarrow> addr \<Rightarrow> byte list \<Rightarrow> int \<Rightarrow> u32 \<Rightarrow> us \<Rightarrow> (addr \<times> us) option" where
  "us_socket_context_listen_unix_api K ssl context path options socket_ext_size st =
     (if ssl then us_internal_ssl_socket_context_listen_unix K context path options socket_ext_size st
      else us_socket_context_listen_unix K context path options socket_ext_size st)"

definition us_socket_context_connect_api ::
  "kernel \<Rightarrow> bool \<Rightarrow> addr \<Rightarrow> byte list \<Rightarrow> int \<Rightarrow> byte list \<Rightarrow> int \<Rightarrow> us \<Rightarrow> (addr \<times> us) option" where
  "us_socket_context_connect_api K ssl context host port source_host options st =
     (if ssl then us_internal_ssl_socket_context_connect K context host port source_host options st
      else us_socket_context_connect K context host port source_host options st)"

definition us_socket_context_connect_unix_api :: "kernel \<Rightarrow> bool \<Rightarrow> addr \<Rightarrow> byte list \<Rightarrow> int \<Rightarrow> us \<Rightarrow> (addr \<times> us) option" where
  "us_socket_context_connect_unix_api K ssl context server_path options st =
     (if ssl then us_internal_ssl_socket_context_connect_unix K context server_path options st
      else us_socket_context_connect_unix K context server_path options st)"

definition us_create_child_socket_context_api :: "kernel \<Rightarrow> bool \<Rightarrow> addr \<Rightarrow> us \<Rightarrow> (addr \<times> us) option" where
  "us_create_child_socket_context_api K ssl context st =
     (if ssl then us_internal_create_child_ssl_socket_context K context st else us_create_child_socket_context K context st)"

definition us_socket_context_adopt_socket_api :: "kernel \<Rightarrow> bool \<Rightarrow> addr \<Rightarrow> addr \<Rightarrow> us \<Rightarrow> (addr \<times> us) option" where
  "us_socket_context_adopt_socket_api K ssl context s st =
     (if ssl then us_internal_ssl_socket_context_adopt_socket K context s st else us_socket_context_adopt_socket K context s st)"

section \<open>The handlers of a context\<close>

definition us_socket_context_on_open_api :: "bool \<Rightarrow> addr \<Rightarrow> fnptr \<Rightarrow> us \<Rightarrow> us option" where
  "us_socket_context_on_open_api ssl context on_open =
     (if ssl then us_internal_ssl_socket_context_on_open context on_open else us_socket_context_on_open context on_open)"

definition us_socket_context_on_close_api :: "bool \<Rightarrow> addr \<Rightarrow> fnptr \<Rightarrow> us \<Rightarrow> us option" where
  "us_socket_context_on_close_api ssl context on_close =
     (if ssl then us_internal_ssl_socket_context_on_close context on_close else us_socket_context_on_close context on_close)"

definition us_socket_context_on_data_api :: "bool \<Rightarrow> addr \<Rightarrow> fnptr \<Rightarrow> us \<Rightarrow> us option" where
  "us_socket_context_on_data_api ssl context on_data =
     (if ssl then us_internal_ssl_socket_context_on_data context on_data else us_socket_context_on_data context on_data)"

definition us_socket_context_on_writable_api :: "bool \<Rightarrow> addr \<Rightarrow> fnptr \<Rightarrow> us \<Rightarrow> us option" where
  "us_socket_context_on_writable_api ssl context on_writable =
     (if ssl then us_internal_ssl_socket_context_on_writable context on_writable else us_socket_context_on_writable context on_writable)"

definition us_socket_context_on_long_timeout_api :: "bool \<Rightarrow> addr \<Rightarrow> fnptr \<Rightarrow> us \<Rightarrow> us option" where
  "us_socket_context_on_long_timeout_api ssl context on_long_timeout =
     (if ssl then us_internal_ssl_socket_context_on_long_timeout context on_long_timeout
      else us_socket_context_on_long_timeout context on_long_timeout)"

definition us_socket_context_on_timeout_api :: "bool \<Rightarrow> addr \<Rightarrow> fnptr \<Rightarrow> us \<Rightarrow> us option" where
  "us_socket_context_on_timeout_api ssl context on_timeout =
     (if ssl then us_internal_ssl_socket_context_on_timeout context on_timeout else us_socket_context_on_timeout context on_timeout)"

definition us_socket_context_on_end_api :: "bool \<Rightarrow> addr \<Rightarrow> fnptr \<Rightarrow> us \<Rightarrow> us option" where
  "us_socket_context_on_end_api ssl context on_end =
     (if ssl then us_internal_ssl_socket_context_on_end context on_end else us_socket_context_on_end context on_end)"

definition us_socket_context_on_connect_error_api :: "bool \<Rightarrow> addr \<Rightarrow> fnptr \<Rightarrow> us \<Rightarrow> us option" where
  "us_socket_context_on_connect_error_api ssl context on_connect_error =
     (if ssl then us_internal_ssl_socket_context_on_connect_error context on_connect_error
      else us_socket_context_on_connect_error context on_connect_error)"

section \<open>Sockets\<close>

text \<open>The native handle is the address of the SSL object, or the descriptor cast to a pointer.\<close>

definition us_socket_get_native_handle_api :: "bool \<Rightarrow> addr \<Rightarrow> us \<Rightarrow> (addr + int) option" where
  "us_socket_get_native_handle_api ssl s st =
     (if ssl then map_option Inl (us_internal_ssl_socket_get_native_handle s st) else map_option Inr (us_socket_get_native_handle s st))"

definition us_socket_write_api :: "openssl \<Rightarrow> kernel \<Rightarrow> handlers \<Rightarrow> bool \<Rightarrow> addr \<Rightarrow> byte list \<Rightarrow> bool \<Rightarrow> us \<Rightarrow> (int \<times> us) option" where
  "us_socket_write_api OS K U ssl s data msg_more st =
     (if ssl then us_internal_ssl_socket_write OS K U s data msg_more st else us_socket_write K s data msg_more st)"

definition us_socket_is_shut_down_api :: "openssl \<Rightarrow> bool \<Rightarrow> addr \<Rightarrow> us \<Rightarrow> bool option" where
  "us_socket_is_shut_down_api OS ssl s st =
     (if ssl then us_internal_ssl_socket_is_shut_down OS s st else us_socket_is_shut_down s st)"

definition us_socket_shutdown_api :: "openssl \<Rightarrow> kernel \<Rightarrow> handlers \<Rightarrow> bool \<Rightarrow> addr \<Rightarrow> us \<Rightarrow> us option" where
  "us_socket_shutdown_api OS K U ssl s st =
     (if ssl then us_internal_ssl_socket_shutdown OS K U s st else us_socket_shutdown s st)"


section \<open>The server names of a context\<close>

text \<open>The userdata of an \<open>SSL_CTX\<close>: what was set last since it was made.\<close>

definition ex_data_step :: "addr \<Rightarrow> sys \<Rightarrow> addr \<Rightarrow> addr" where
  "ex_data_step c e u = (case e of
     Ssl (SSL_CTX_new a) \<Rightarrow> if a = c then NULL else u
   | Ssl (Set_ex_data a v) \<Rightarrow> if a = c then v else u
   | _ \<Rightarrow> u)"

definition ex_data_of :: "addr \<Rightarrow> us \<Rightarrow> addr" where
  "ex_data_of c st = fold (ex_data_step c) (trace st) NULL"

text \<open>What is relied on of OpenSSL: it gives back the userdata that was set last.\<close>

definition ex_data_ok :: "openssl \<Rightarrow> bool" where
  "ex_data_ok OS \<longleftrightarrow> (\<forall>st c. o_ex_data OS st c = ex_data_of c st)"

lemma ex_data_of_simps [simp]:
  "ex_data_of c (emit e st) = ex_data_step c e (ex_data_of c st)" "ex_data_of c (st\<lparr>ssl_ctxs := x\<rparr>) = ex_data_of c st"
  by (simp_all add: ex_data_of_def emit_def)

lemma patterns_first: "\<exists>ps. patterns ls = ls # ps"
  by (induction ls rule: patterns.induct) auto

text \<open>A name that has a user is found, whatever wildcards there are besides.\<close>

lemma sni_find_exact:
  assumes "user_at t (labels h) \<noteq> NULL" "length (labels h) \<le> MAX_LABELS"
  shows "sni_find t h = user_at t (labels h)"
proof -
  obtain ps where "patterns (labels h) = labels h # ps" using patterns_first by blast
  then show ?thesis using assms by (simp add: sni_find_def Let_def getUser_eq)
qed

lemma sni_add_fresh:
  assumes "user_at t (labels h) = NULL" "wf_node t" "a \<noteq> NULL" "length (labels h) \<le> MAX_LABELS"
  shows "\<exists>t'. sni_add t h a = (0, t') \<and> sni_find t' h = a \<and> sni_remove t' h = (a, t)"
proof (cases "add_path (labels h) a t")
  case (fields r t' new)
  have r: "r = 0" using add_path_ok(2) [OF fields] assms(1) by simp
  have u: "user_at t' (labels h) = a" using add_path_ok(1) [OF fields] assms(1) by simp
  have "sni_remove t' h = (a, t)"
    using remove_add [OF fields [unfolded r] assms(2,3)] assms(4) by (auto simp: sni_remove_def Let_def)
  then show ?thesis using r u sni_find_exact [of t' h] assms(3,4) fields by (simp add: sni_add_def)
qed

text \<open>C17. A server name that is added to an SSL context through the public functions is found again with its userdata. When it is
  removed, the \<open>SSL_CTX\<close> made for it is freed, the context has the names it had before, and the name is not found any more unless a wildcard
  covers it. On a plain context none of this has any effect.\<close>
theorem api_server_name_roundtrip:
  assumes OS: "ex_data_ok OS" "passwd_ok OS" "\<And>st. o_addr OS ''SSL_CTX_new'' st \<noteq> NULL"
    and c: "is_ctx st c" "sc_sni (ssl_ctxs st c) = Some t" "wf_node t"
    and h: "user_at t (labels h) = NULL" "length (labels h) \<le> MAX_LABELS"
    and n: "create_ssl_context_from_options OS options st = (a, s1)" "a \<noteq> NULL"
  shows "\<exists>st1 st2. us_socket_context_add_server_name_api OS True c h options user st = Some st1 \<and>
    us_socket_context_find_server_name_userdata_api OS True c h st1 = Some user \<and>
    us_socket_context_remove_server_name_api OS True c h st1 = Some st2 \<and> last (trace st2) = Ssl (SSL_CTX_free a) \<and>
    sc_sni (ssl_ctxs st2 c) = Some t \<and> 
    (sni_find t h = NULL \<longrightarrow> us_socket_context_find_server_name_userdata_api OS True c h st2 = Some NULL) \<and>
    us_socket_context_add_server_name_api OS False c h options user st = Some st \<and>
    us_socket_context_find_server_name_userdata_api OS False c h st = Some NULL"
proof -
  obtain t' where t': "sni_add t h a = (0, t')" "sni_find t' h = a" "sni_remove t' h = (a, t)"
    using sni_add_fresh [OF h(1) c(3) n(2) h(2)] by blast
  have "trace_grows st s1" using create_context_ledger [OF OS(2,3) n(1)] by (simp add: ssl_calls_def)
  then obtain tr where s1: "s1 = st\<lparr>trace := trace st @ tr\<rparr>" unfolding trace_grows_def by blast
  let ?with = "\<lambda>t st. st\<lparr>ssl_ctxs := (ssl_ctxs st)(c := (ssl_ctxs st c)\<lparr>sc_sni := Some t\<rparr>)\<rparr>"
  let ?st1 = "?with t' (emit (Ssl (Set_ex_data a user)) s1)"
  let ?st2 = "free_ssl_context OS a (?with t ?st1)"
  have k: "is_ctx s1 c" "is_ctx ?st1 c" "is_ctx ?st2 c"
    using c(1) n(2) by (simp_all add: s1 is_ctx_def free_ssl_context_def Let_def)
  have d: "sc_sni (ssl_ctxs ?st1 c) = Some t'" "sc_sni (ssl_ctxs ?st2 c) = Some t" "last (trace ?st2) = Ssl (SSL_CTX_free a)"
    using n(2) by (simp_all add: free_ssl_context_def Let_def emit_def)
  have add: "us_socket_context_add_server_name_api OS True c h options user st = Some ?st1"
    using n t'(1) c(2) k(1)
    by (simp add: us_socket_context_add_server_name_api_def us_internal_ssl_socket_context_add_server_name_def rd_sslctx_def wr_sslctx_def s1)
  have "ex_data_of a ?st1 = user" by (simp add: ex_data_step_def)
  then have find: "us_socket_context_find_server_name_userdata_api OS True c h ?st1 = Some user"
    using OS(1) k(2) d(1) t'(2) n(2)
    by (simp add: us_socket_context_find_server_name_userdata_api_def us_internal_ssl_socket_context_find_server_name_userdata_def
        rd_sslctx_def ex_data_ok_def)
  have rem: "us_socket_context_remove_server_name_api OS True c h ?st1 = Some ?st2"
    using k(2) d(1) t'(3)
    by (simp add: us_socket_context_remove_server_name_api_def us_internal_ssl_socket_context_remove_server_name_def rd_sslctx_def wr_sslctx_def)
  have "sni_find t h = NULL \<longrightarrow> us_socket_context_find_server_name_userdata_api OS True c h ?st2 = Some NULL"
    using k(3) d(2)
    by (simp add: us_socket_context_find_server_name_userdata_api_def us_internal_ssl_socket_context_find_server_name_userdata_def rd_sslctx_def)
  then show ?thesis
    by (intro exI [of _ ?st1] exI [of _ ?st2])
      (use add find rem d in \<open>simp add: us_socket_context_add_server_name_api_def us_socket_context_find_server_name_userdata_api_def\<close>)
qed

definition openssl3 :: openssl where
  "openssl3 = openssl0\<lparr>o_ex_data := (\<lambda>st c. ex_data_of c st)\<rparr>"

theorem api_server_name_roundtrip_witness:
  "\<exists>st1 st2. us_socket_context_add_server_name_api openssl3 True 100 ''a.b'' options0 5 (demo\<lparr>ssl_ctxs := (ssl_ctxs demo)(100 := (ssl_ctxs demo 100)\<lparr>sc_sni := Some sni_new\<rparr>)\<rparr>) = Some st1 \<and>
    us_socket_context_find_server_name_userdata_api openssl3 True 100 ''a.b'' st1 = Some 5 \<and>
    us_socket_context_remove_server_name_api openssl3 True 100 ''a.b'' st1 = Some st2 \<and>
    us_socket_context_find_server_name_userdata_api openssl3 True 100 ''a.b'' st2 = Some NULL"
proof -
  let ?d = "demo\<lparr>ssl_ctxs := (ssl_ctxs demo)(100 := (ssl_ctxs demo 100)\<lparr>sc_sni := Some sni_new\<rparr>)\<rparr>"
  have o: "ex_data_ok openssl3" "passwd_ok openssl3" "\<And>st. o_addr openssl3 ''SSL_CTX_new'' st \<noteq> NULL"
    using openssl0_ok by (simp_all add: ex_data_ok_def passwd_ok_def openssl3_def)
  have c: "is_ctx ?d 100" "sc_sni (ssl_ctxs ?d 100) = Some sni_new" "wf_node sni_new" by (simp_all add: is_ctx_def demo_def)
  have h: "user_at sni_new (labels ''a.b'') = NULL" "length (labels ''a.b'') \<le> MAX_LABELS" "sni_find sni_new ''a.b'' = NULL" by code_simp+
  obtain a s1 where n: "create_ssl_context_from_options openssl3 options0 ?d = (a, s1)" by fastforce
  have "fst (create_ssl_context_from_options openssl3 options0 ?d) \<noteq> NULL"
    by (simp add: create_ssl_context_from_options_def Let_def set_cert_def set_key_def set_ca_def set_dh_def
        set_ciphers_def ctx_file_def options0_def openssl3_def openssl0_def)
  then have "a \<noteq> NULL" using n by simp
  from api_server_name_roundtrip [OF o c h(1,2) n this, of 5] show ?thesis using h(3) by blast
qed

end
