(* ===== verification/Us_Backends.thy ===== *)
theory Us_Backends
  imports Us_Demo Us_Libuv Us_Kqueue Us_Gcd Us_Asio
begin

unbundle bit_operations_syntax

text \<open>
  The five event back ends keep one contract. \<open>src/socket.c\<close>, \<open>src/context.c\<close> and \<open>src/loop.c\<close> see a
  poll through \<open>us_poll_change\<close>, \<open>us_internal_poll_set_type\<close>, \<open>us_poll_events\<close> and
  \<open>us_internal_poll_type\<close> alone, between its start and its stop. The contract is a locale; each back end, with its own
  state, its own bits for the events and its own encoding of the type, is an interpretation. What the code above may
  conclude is proved once: a program over these calls behaves as on an abstract table of polls, whichever
  back end was compiled in.
\<close>

section \<open>The abstract table\<close>

text \<open>Of a poll: whether it polls for reading, for writing, and its type.\<close>

type_synonym poll_view = "bool \<times> bool \<times> nat"

datatype poll_cmd = ChangePoll addr bool bool | SetPollType addr nat

fun cmd_addr :: "poll_cmd \<Rightarrow> addr" where
  "cmd_addr (ChangePoll p r w) = p"
| "cmd_addr (SetPollType p ty) = p"

fun cmd_ok :: "poll_cmd \<Rightarrow> bool" where
  "cmd_ok (ChangePoll p r w) = True"
| "cmd_ok (SetPollType p ty) = (ty < 4)"

fun abs_cmd :: "poll_cmd \<Rightarrow> (addr \<Rightarrow> poll_view) \<Rightarrow> addr \<Rightarrow> poll_view" where
  "abs_cmd (ChangePoll p r w) T = T(p := (r, w, snd (snd (T p))))"
| "abs_cmd (SetPollType p ty) T = T(p := (fst (T p), fst (snd (T p)), ty))"

section \<open>Programs over a back end\<close>

record 's backend =
  b_readable :: u32
  b_writable :: u32
  b_change :: "addr \<Rightarrow> u32 \<Rightarrow> 's \<Rightarrow> 's option"
  b_set_type :: "addr \<Rightarrow> nat \<Rightarrow> 's \<Rightarrow> 's option"
  b_events :: "addr \<Rightarrow> 's \<Rightarrow> u32 option"
  b_type :: "addr \<Rightarrow> 's \<Rightarrow> nat option"

definition event_bits :: "'s backend \<Rightarrow> bool \<Rightarrow> bool \<Rightarrow> u32" where
  "event_bits B r w = (if r then b_readable B else 0) OR (if w then b_writable B else 0)"

definition poll_view :: "'s backend \<Rightarrow> 's \<Rightarrow> addr \<Rightarrow> poll_view" where
  "poll_view B st p = (case (b_events B p st, b_type B p st) of
     (Some ev, Some ty) \<Rightarrow> (ev AND b_readable B \<noteq> 0, ev AND b_writable B \<noteq> 0, ty) | _ \<Rightarrow> (False, False, 0))"

fun run_cmd :: "'s backend \<Rightarrow> poll_cmd \<Rightarrow> 's \<Rightarrow> 's option" where
  "run_cmd B (ChangePoll p r w) st = b_change B p (event_bits B r w) st"
| "run_cmd B (SetPollType p ty) st = b_set_type B p ty st"

fun run_cmds :: "'s backend \<Rightarrow> poll_cmd list \<Rightarrow> 's \<Rightarrow> 's option" where
  "run_cmds B [] st = Some st"
| "run_cmds B (c # cs) st = Option.bind (run_cmd B c st) (run_cmds B cs)"

text \<open>What a call on the poll \<open>p\<close> may change: the events and the type of \<open>p\<close>, and what the kernel was asked.\<close>

definition only_poll :: "'s backend \<Rightarrow> addr \<Rightarrow> u32 option \<Rightarrow> nat option \<Rightarrow> 's \<Rightarrow> 's \<Rightarrow> bool" where
  "only_poll B p ev ty st st' \<longleftrightarrow> b_events B p st' = ev \<and> b_type B p st' = ty \<and>
     (\<forall>q. q \<noteq> p \<longrightarrow> b_events B q st' = b_events B q st \<and> b_type B q st' = b_type B q st)"

lemma only_poll_view:
  assumes "only_poll B p (Some ev) (Some ty) st st'"
  shows "poll_view B st' = (poll_view B st)(p := (ev AND b_readable B \<noteq> 0, ev AND b_writable B \<noteq> 0, ty))"
proof
  fix q
  show "poll_view B st' q = ((poll_view B st)(p := (ev AND b_readable B \<noteq> 0, ev AND b_writable B \<noteq> 0, ty))) q"
    using assms by (cases "q = p") (simp_all add: poll_view_def only_poll_def cong: option.case_cong)
qed

section \<open>The contract\<close>

locale poll_table =
  fixes B :: "'s backend" and started :: "'s \<Rightarrow> addr \<Rightarrow> bool"
  assumes bits: "b_readable B \<noteq> 0" "b_writable B \<noteq> 0" "b_readable B AND b_writable B = 0"
    and change_ok: "started st p \<Longrightarrow> ev = event_bits B r w \<Longrightarrow> \<exists>st'. b_change B p ev st = Some st' \<and>
      only_poll B p (Some ev) (b_type B p st) st st' \<and> started st' = started st"
    and set_type_ok: "started st p \<Longrightarrow> ty < 4 \<Longrightarrow> \<exists>st'. b_set_type B p ty st = Some st' \<and>
      only_poll B p (b_events B p st) (Some ty) st st' \<and> started st' = started st"
    and started_ok: "started st p \<Longrightarrow> \<exists>ev ty. b_events B p st = Some ev \<and> b_type B p st = Some ty"
begin

lemma event_bits_and: "event_bits B r w AND b_readable B \<noteq> 0 \<longleftrightarrow> r" "event_bits B r w AND b_writable B \<noteq> 0 \<longleftrightarrow> w"
  using bits by (auto simp: event_bits_def bit.conj_disj_distrib bit.conj_disj_distrib2 and.commute)

lemma run_cmd_ok:
  assumes s: "started st (cmd_addr c)" and c: "cmd_ok c"
  shows "\<exists>st'. run_cmd B c st = Some st' \<and> started st' = started st \<and> poll_view B st' = abs_cmd c (poll_view B st)"
proof (cases c)
  case (ChangePoll p r w)
  then have p: "started st p" using s by simp
  from started_ok [OF p] obtain ev ty where e: "b_events B p st = Some ev" "b_type B p st = Some ty" by blast
  from change_ok [OF p refl, of r w] obtain st' where 1: "b_change B p (event_bits B r w) st = Some st'"
    "only_poll B p (Some (event_bits B r w)) (Some ty) st st'" "started st' = started st" using e by auto
  then show ?thesis using ChangePoll e only_poll_view [OF 1(2)] event_bits_and by (simp add: poll_view_def)
next
  case (SetPollType p ty)
  then have p: "started st p" "ty < 4" using s c by simp_all
  from started_ok [OF p(1)] obtain ev ty0 where e: "b_events B p st = Some ev" "b_type B p st = Some ty0" by blast
  from set_type_ok [OF p] obtain st' where 1: "b_set_type B p ty st = Some st'"
    "only_poll B p (Some ev) (Some ty) st st'" "started st' = started st" using e by auto
  then show ?thesis using SetPollType e only_poll_view [OF 1(2)] by (simp add: poll_view_def)
qed

text \<open>Any program over the contract runs and does to the views what it does to the table.\<close>

lemma run_cmds_refines:
  "\<forall>c\<in>set cs. started st (cmd_addr c) \<and> cmd_ok c \<Longrightarrow>
   \<exists>st'. run_cmds B cs st = Some st' \<and> started st' = started st \<and> poll_view B st' = fold abs_cmd cs (poll_view B st)"
proof (induction cs arbitrary: st)
  case Nil
  then show ?case by simp
next
  case (Cons c cs)
  then obtain st1 where 1: "run_cmd B c st = Some st1" "started st1 = started st" "poll_view B st1 = abs_cmd c (poll_view B st)"
    using run_cmd_ok [of st c] by auto
  from Cons.IH [of st1] Cons.prems 1(2) obtain st' where
    "run_cmds B cs st1 = Some st'" "started st' = started st1" "poll_view B st' = fold abs_cmd cs (poll_view B st1)" by auto
  then show ?case using 1 by simp
qed

end

section \<open>The back ends\<close>

definition epoll_backend :: "us backend" where
  "epoll_backend = \<lparr>b_readable = LIBUS_SOCKET_READABLE, b_writable = LIBUS_SOCKET_WRITABLE, b_change = us_poll_change,
     b_set_type = (\<lambda>p ty. us_internal_poll_set_type p (of_nat ty)), b_events = us_poll_events,
     b_type = (\<lambda>p st. map_option unat (us_internal_poll_type p st))\<rparr>"

definition kqueue_backend :: "kqs backend" where
  "kqueue_backend = \<lparr>b_readable = KQ_READABLE, b_writable = KQ_WRITABLE, b_change = us_poll_change_kq,
     b_set_type = (\<lambda>p ty. us_internal_poll_set_type_kq p (of_nat ty)), b_events = us_poll_events_kq,
     b_type = (\<lambda>p st. map_option unat (us_internal_poll_type_kq p st))\<rparr>"

definition uv_backend :: "uvs backend" where
  "uv_backend = \<lparr>b_readable = UV_READABLE, b_writable = UV_WRITABLE, b_change = us_poll_change_uv,
     b_set_type = (\<lambda>p ty. us_internal_poll_set_type_uv p (of_nat ty)), b_events = us_poll_events_uv,
     b_type = (\<lambda>p st. map_option unat (us_internal_poll_type_uv p st))\<rparr>"

definition gcd_backend :: "gcds backend" where
  "gcd_backend = \<lparr>b_readable = GCD_READABLE, b_writable = GCD_WRITABLE, b_change = us_poll_change_gcd,
     b_set_type = (\<lambda>p ty. us_internal_poll_set_type_gcd p (of_nat ty)), b_events = us_poll_events_gcd,
     b_type = (\<lambda>p st. map_option unat (us_internal_poll_type_gcd p st))\<rparr>"

definition asio_backend :: "asts backend" where
  "asio_backend = \<lparr>b_readable = ASIO_READABLE, b_writable = ASIO_WRITABLE, b_change = us_poll_change_asio,
     b_set_type = (\<lambda>p ty. us_internal_poll_set_type_asio p (of_nat ty)), b_events = us_poll_events_asio,
     b_type = (\<lambda>p st. map_option unat (us_internal_poll_type_asio p st))\<rparr>"

lemma small_types: "ty < 4 \<Longrightarrow> ty = 0 \<or> ty = 1 \<or> ty = 2 \<or> ty = (3 :: nat)"
  by presburger

lemma of_nat_and3: "ty < 4 \<Longrightarrow> (of_nat ty :: 4 word) AND 3 = of_nat ty" "ty < 4 \<Longrightarrow> (of_nat ty :: 8 word) AND 3 = of_nat ty"
  by (drule small_types, elim disjE, simp_all)+

lemma unat_small: "ty < 4 \<Longrightarrow> unat (of_nat ty :: 4 word) = ty" "ty < 4 \<Longrightarrow> unat (of_nat ty :: 8 word) = ty"
  by (drule small_types, elim disjE, simp_all)+

interpretation epoll_table: poll_table epoll_backend is_poll
proof unfold_locales
  show "b_readable epoll_backend \<noteq> 0" "b_writable epoll_backend \<noteq> 0" "b_readable epoll_backend AND b_writable epoll_backend = 0"
    by (simp_all add: epoll_backend_def event_defs)
next
  fix st p ev r w
  assume p: "is_poll st p" and ev: "ev = event_bits epoll_backend r w"
  then have "ev AND poll_mask = ev" by (auto simp: event_bits_def epoll_backend_def event_defs poll_mask_def)
  then show "\<exists>st'. b_change epoll_backend p ev st = Some st' \<and> only_poll epoll_backend p (Some ev) (b_type epoll_backend p st) st st' \<and>
      is_poll st' = is_poll st"
    using p by (auto simp: epoll_backend_def us_poll_change_eq only_poll_def us_poll_events_def us_internal_poll_type_def fun_eq_iff is_poll_def rd_poll_def)
next
  fix st p and ty :: nat
  assume p: "is_poll st p" and ty: "ty < 4"
  show "\<exists>st'. b_set_type epoll_backend p ty st = Some st' \<and> only_poll epoll_backend p (b_events epoll_backend p st) (Some ty) st st' \<and>
      is_poll st' = is_poll st"
    using p events_set_type [of "of_nat ty" "p_type (polls st p)"] type_set_type [of "of_nat ty" "p_type (polls st p)"]
    by (auto simp: epoll_backend_def us_internal_poll_set_type_eq only_poll_def us_poll_events_def us_internal_poll_type_def
        fun_eq_iff is_poll_def rd_poll_def of_nat_and3 [OF ty] unat_small [OF ty])
next
  fix st p
  assume "is_poll st p"
  then show "\<exists>ev ty. b_events epoll_backend p st = Some ev \<and> b_type epoll_backend p st = Some ty"
    by (simp add: epoll_backend_def us_poll_events_def us_internal_poll_type_def)
qed

lemma kq_set_type [simp]:
  "kq_events_of_type (((t :: 4 word) AND 3) OR (ty AND 12)) = kq_events_of_type ty" "(((t :: 4 word) AND 3) OR (ty AND 12)) AND 3 = t AND 3"
  by (rule bit_word_eqI; auto simp: kq_events_of_type_bits bit_or_iff bit_and_iff bit_3_12)+

interpretation kqueue_table: poll_table kqueue_backend "\<lambda>st p. kq_objs st p \<noteq> None"
proof unfold_locales
  show "b_readable kqueue_backend \<noteq> 0" "b_writable kqueue_backend \<noteq> 0" "b_readable kqueue_backend AND b_writable kqueue_backend = 0"
    by (simp_all add: kqueue_backend_def KQ_READABLE_def KQ_WRITABLE_def)
next
  fix st :: kqs and p ev r w
  assume p: "kq_objs st p \<noteq> None" and ev: "ev = event_bits kqueue_backend r w"
  then have "ev AND kq_mask = ev" by (auto simp: event_bits_def kqueue_backend_def kq_mask_def KQ_READABLE_def KQ_WRITABLE_def)
  then show "\<exists>st'. b_change kqueue_backend p ev st = Some st' \<and> only_poll kqueue_backend p (Some ev) (b_type kqueue_backend p st) st st' \<and>
      (\<lambda>p. kq_objs st' p \<noteq> None) = (\<lambda>p. kq_objs st p \<noteq> None)"
    using p by (auto simp: kqueue_backend_def kq_ops only_poll_def us_poll_events_kq_def us_internal_poll_type_kq_def rd_kq_def)
next
  fix st :: kqs and p and ty :: nat
  assume p: "kq_objs st p \<noteq> None" and ty: "ty < 4"
  show "\<exists>st'. b_set_type kqueue_backend p ty st = Some st' \<and> only_poll kqueue_backend p (b_events kqueue_backend p st) (Some ty) st st' \<and>
      (\<lambda>p. kq_objs st' p \<noteq> None) = (\<lambda>p. kq_objs st p \<noteq> None)"
    using p kq_set_type [of "of_nat ty" "kty st p"]
    by (auto simp: kqueue_backend_def kq_ops only_poll_def us_poll_events_kq_def us_internal_poll_type_kq_def rd_kq_def
        of_nat_and3 [OF ty] unat_small [OF ty])
next
  fix st :: kqs and p
  assume "kq_objs st p \<noteq> None"
  then show "\<exists>ev ty. b_events kqueue_backend p st = Some ev \<and> b_type kqueue_backend p st = Some ty"
    by (simp add: kqueue_backend_def us_poll_events_kq_def us_internal_poll_type_kq_def rd_kq_def)
qed

text \<open>On libuv the handle has to be alive too, for the call that changes its events.\<close>

definition uv_started_poll :: "uvs \<Rightarrow> addr \<Rightarrow> bool" where
  "uv_started_poll st p \<longleftrightarrow> uv_blocks st p = Some BPoll \<and> uv_blocks st (up_uv_p (uv_polls st p)) = Some BUvPoll"

lemma uv_masks:
  "(((t :: u8) AND 3) OR c) AND 8 = c AND 8" "((t AND 3) OR c) AND 4 = c AND 4" "((t AND 3) OR c) AND 3 = (t AND 3) OR (c AND 3)"
  "(t OR (c AND 12)) AND 8 = (t AND 8) OR (c AND 8)" "(t OR (c AND 12)) AND 4 = (t AND 4) OR (c AND 4)" "(t OR (c AND 12)) AND 3 = t AND 3"
  by (simp_all add: bit.conj_disj_distrib2 and.assoc)

lemma uv_small_type: "ty < 4 \<Longrightarrow> (of_nat ty :: u8) AND 8 = 0 \<and> (of_nat ty :: u8) AND 4 = 0"
  by (drule small_types, elim disjE, simp_all)

lemma uv_bits: "(if polling_bits (event_bits uv_backend r w) AND 8 \<noteq> 0 then UV_READABLE else 0) OR
    (if polling_bits (event_bits uv_backend r w) AND 4 \<noteq> 0 then UV_WRITABLE else 0) = event_bits uv_backend r w"
  "polling_bits ev AND 3 = 0"
  by (cases r; cases w; simp add: event_bits_def uv_backend_def polling_bits_def UV_READABLE_def UV_WRITABLE_def)
    (simp add: polling_bits_def)

interpretation uv_table: poll_table uv_backend uv_started_poll
proof unfold_locales
  show "b_readable uv_backend \<noteq> 0" "b_writable uv_backend \<noteq> 0" "b_readable uv_backend AND b_writable uv_backend = 0"
    by (simp_all add: uv_backend_def UV_READABLE_def UV_WRITABLE_def)
next
  fix st :: uvs and p ev r w
  assume p: "uv_started_poll st p" and ev: "ev = event_bits uv_backend r w"
  note d = us_poll_change_uv_def us_poll_events_uv_def us_internal_poll_type_uv_def rd_up_def wr_up_def uv_call_def uv_emit_def
  let ?t = "up_poll_type (uv_polls st p)"
  let ?s = "uv_emit (UvPollStart (HBlock (up_uv_p (uv_polls st p))) ev)
    (st\<lparr>uv_polls := (uv_polls st)(p := (uv_polls st p)\<lparr>up_poll_type := (?t AND 3) OR polling_bits ev\<rparr>)\<rparr>)"
  have b: "uv_blocks st p = Some BPoll" "uv_blocks st (up_uv_p (uv_polls st p)) = Some BUvPoll" using p by (simp_all add: uv_started_poll_def)
  show "\<exists>st'. b_change uv_backend p ev st = Some st' \<and> only_poll uv_backend p (Some ev) (b_type uv_backend p st) st st' \<and>
      uv_started_poll st' = uv_started_poll st"
  proof (cases "us_poll_events_uv p st = Some ev")
    case True
    then show ?thesis by (simp add: uv_backend_def us_poll_change_uv_def only_poll_def)
  next
    case False
    have e: "b_change uv_backend p ev st = Some ?s" using False b by (auto simp: uv_backend_def d)
    have "us_poll_events_uv p ?s = Some ev" using uv_bits(1) [of r w] b unfolding ev by (simp add: us_poll_events_uv_def rd_up_def uv_emit_def uv_masks)
    moreover have "us_internal_poll_type_uv p ?s = us_internal_poll_type_uv p st"
      using b uv_bits(2) by (simp add: us_internal_poll_type_uv_def rd_up_def uv_emit_def uv_masks)
    moreover have "us_poll_events_uv q ?s = us_poll_events_uv q st" "us_internal_poll_type_uv q ?s = us_internal_poll_type_uv q st" if "q \<noteq> p" for q
      using that by (simp_all add: us_poll_events_uv_def us_internal_poll_type_uv_def rd_up_def uv_emit_def)
    ultimately have "only_poll uv_backend p (Some ev) (b_type uv_backend p st) st ?s" by (simp add: only_poll_def uv_backend_def)
    moreover have "uv_started_poll ?s = uv_started_poll st" by (auto simp: uv_started_poll_def fun_eq_iff uv_emit_def)
    ultimately show ?thesis using e by blast
  qed
next
  fix st :: uvs and p and ty :: nat
  assume p: "uv_started_poll st p" and ty: "ty < 4"
  show "\<exists>st'. b_set_type uv_backend p ty st = Some st' \<and> only_poll uv_backend p (b_events uv_backend p st) (Some ty) st st' \<and>
      uv_started_poll st' = uv_started_poll st"
    using p uv_small_type [OF ty]
    by (auto simp: uv_backend_def us_internal_poll_set_type_uv_def us_poll_events_uv_def us_internal_poll_type_uv_def rd_up_def wr_up_def
        only_poll_def uv_started_poll_def fun_eq_iff uv_masks of_nat_and3 [OF ty] unat_small [OF ty])
next
  fix st :: uvs and p
  assume "uv_started_poll st p"
  then show "\<exists>ev ty. b_events uv_backend p st = Some ev \<and> b_type uv_backend p st = Some ty"
    by (simp add: uv_backend_def us_poll_events_uv_def us_internal_poll_type_uv_def rd_up_def uv_started_poll_def)
qed

lemma gcd_change_eq:
  assumes "g_objs st p = Some GPoll"
  shows "\<exists>st'. us_poll_change_gcd p ev st = Some st' \<and> g_objs st' = g_objs st \<and>
    g_polls st' = (g_polls st)(p := (g_polls st p)\<lparr>gp_events := ev\<rparr>)"
  using assms by (auto simp: us_poll_change_gcd_def rd_gp_def wr_gp_def gcd_emit_def Let_def)

interpretation gcd_table: poll_table gcd_backend "\<lambda>st p. g_objs st p = Some GPoll"
proof unfold_locales
  show "b_readable gcd_backend \<noteq> 0" "b_writable gcd_backend \<noteq> 0" "b_readable gcd_backend AND b_writable gcd_backend = 0"
    by (simp_all add: gcd_backend_def GCD_READABLE_def GCD_WRITABLE_def)
next
  fix st :: gcds and p ev r w
  assume "g_objs st p = Some GPoll"
  from gcd_change_eq [OF this, of ev] this
  show "\<exists>st'. b_change gcd_backend p ev st = Some st' \<and> only_poll gcd_backend p (Some ev) (b_type gcd_backend p st) st st' \<and>
      (\<lambda>p. g_objs st' p = Some GPoll) = (\<lambda>p. g_objs st p = Some GPoll)"
    by (auto simp: gcd_backend_def only_poll_def us_poll_events_gcd_def us_internal_poll_type_gcd_def rd_gp_def)
next
  fix st :: gcds and p and ty :: nat
  assume "g_objs st p = Some GPoll" and ty: "ty < 4"
  then show "\<exists>st'. b_set_type gcd_backend p ty st = Some st' \<and> only_poll gcd_backend p (b_events gcd_backend p st) (Some ty) st st' \<and>
      (\<lambda>p. g_objs st' p = Some GPoll) = (\<lambda>p. g_objs st p = Some GPoll)"
    by (auto simp: gcd_backend_def us_internal_poll_set_type_gcd_def wr_gp_def only_poll_def us_poll_events_gcd_def
        us_internal_poll_type_gcd_def rd_gp_def of_nat_and3 [OF ty] unat_small [OF ty])
next
  fix st :: gcds and p
  assume "g_objs st p = Some GPoll"
  then show "\<exists>ev ty. b_events gcd_backend p st = Some ev \<and> b_type gcd_backend p st = Some ty"
    by (simp add: gcd_backend_def us_poll_events_gcd_def us_internal_poll_type_gcd_def rd_gp_def)
qed

lemma asio_change_eq:
  assumes v: "aview st p = Some (x, b)" and c: "us_poll_change_asio p ev st = Some st'"
  shows "as_objs st' = (as_objs st)(ap_boost_block x \<mapsto> ABlock (b\<lparr>bb_nr := bb_nr b + 1\<rparr>), p \<mapsto> APoll (x\<lparr>ap_events := ev\<rparr>))"
proof -
  have w: "start_wait k bk s = Some s' \<Longrightarrow> as_objs s' = as_objs s" for k bk s s'
    by (auto simp: start_wait_def Let_def elim!: bind_eq_SomeE)
  have f: "us_poll_start_asio p ev s = Some s' \<Longrightarrow> rd_apoll p s = Some y \<Longrightarrow> as_objs s' = (as_objs s)(p \<mapsto> APoll (y\<lparr>ap_events := ev\<rparr>))" for s s' y
    by (auto simp: us_poll_start_asio_def poll_for_error_def poll_for_read_def poll_for_write_def wr_apoll_def elim!: bind_eq_SomeE
        dest!: w split: if_splits)
  note d = aviewD [OF v]
  have "p \<noteq> ap_boost_block x" using d(1,2) by (auto simp: rd_objs)
  then have r: "rd_apoll p (a_emit e (put_aobj (ap_boost_block x) y st)) = Some x" for y e using d(1) by (simp add: rd_objs)
  have "rd_block (ap_boost_block x) (put_aobj (ap_boost_block x) (ABlock c) st) = Some c" for c by (simp add: rd_objs)
  then have "us_poll_start_asio p ev (a_emit (Cancel (bb_id b)) (put_aobj (ap_boost_block x) (ABlock (b\<lparr>bb_nr := bb_nr b + 1\<rparr>)) st)) = Some st'"
    using c d(1,2) by (simp add: us_poll_change_asio_def wr_block_def)
  from f [OF this r] show ?thesis by simp
qed

interpretation asio_table: poll_table asio_backend "\<lambda>st p. aview st p \<noteq> None"
proof unfold_locales
  show "b_readable asio_backend \<noteq> 0" "b_writable asio_backend \<noteq> 0" "b_readable asio_backend AND b_writable asio_backend = 0"
    by (simp_all add: asio_backend_def ASIO_READABLE_def ASIO_WRITABLE_def)
next
  fix st :: asts and p ev r w
  assume "aview st p \<noteq> None"
  then obtain x b where v: "aview st p = Some (x, b)" by auto
  obtain st' where c: "us_poll_change_asio p ev st = Some st'" "poll_effect p (x\<lparr>ap_events := ev\<rparr>, b\<lparr>bb_nr := bb_nr b + 1\<rparr>)
      (Cancel (bb_id b) # arms (b\<lparr>bb_nr := bb_nr b + 1\<rparr>) (asked_waits ev)) (length (asked_waits ev)) st st'"
    using poll_change_ok [OF v] by blast
  note o = asio_change_eq [OF v c(1)] and d = aviewD [OF v]
  have "as_objs st (ap_boost_block x) = Some (ABlock b)" using d(2) by (simp add: rd_objs)
  then have "rd_apoll q st' = (if q = p then Some (x\<lparr>ap_events := ev\<rparr>) else rd_apoll q st)" for q
    by (auto simp: rd_apoll_def o)
  moreover have "(\<lambda>p. aview st' p \<noteq> None) = (\<lambda>p. aview st p \<noteq> None)" using c(2) v by (auto simp: poll_effect_def)
  ultimately show "\<exists>st'. b_change asio_backend p ev st = Some st' \<and> only_poll asio_backend p (Some ev) (b_type asio_backend p st) st st' \<and>
      (\<lambda>p. aview st' p \<noteq> None) = (\<lambda>p. aview st p \<noteq> None)"
    using c(1) d(1) by (intro exI [of _ st'])
      (simp add: asio_backend_def only_poll_def us_poll_events_asio_def us_internal_poll_type_asio_def)
next
  fix st :: asts and p and ty :: nat
  assume "aview st p \<noteq> None" and ty: "ty < 4"
  then obtain x b where v: "aview st p = Some (x, b)" by auto
  obtain st' where c: "us_internal_poll_set_type_asio p (of_nat ty) st = Some st'" "poll_effect p (x\<lparr>ap_poll_type := of_nat ty\<rparr>, b) [] 0 st st'"
    using poll_fields_ok(2) [OF v] by blast
  have "rd_apoll q st' = (if q = p then Some (x\<lparr>ap_poll_type := of_nat ty\<rparr>) else rd_apoll q st)" for q
    using c(1) aviewD(1) [OF v] by (auto simp: us_internal_poll_set_type_asio_def wr_apoll_def rd_apoll_def)
  moreover have "(\<lambda>p. aview st' p \<noteq> None) = (\<lambda>p. aview st p \<noteq> None)" using c(2) v by (auto simp: poll_effect_def)
  ultimately show "\<exists>st'. b_set_type asio_backend p ty st = Some st' \<and> only_poll asio_backend p (b_events asio_backend p st) (Some ty) st st' \<and>
      (\<lambda>p. aview st' p \<noteq> None) = (\<lambda>p. aview st p \<noteq> None)"
    using c(1) aviewD(1) [OF v] unat_small(2) [OF ty] by (intro exI [of _ st'])
      (simp add: asio_backend_def only_poll_def us_poll_events_asio_def us_internal_poll_type_asio_def)
next
  fix st :: asts and p
  assume "aview st p \<noteq> None"
  then obtain x b where "aview st p = Some (x, b)" by auto
  from aviewD(1) [OF this] show "\<exists>ev ty. b_events asio_backend p st = Some ev \<and> b_type asio_backend p st = Some ty"
    by (simp add: asio_backend_def us_poll_events_asio_def us_internal_poll_type_asio_def)
qed

section \<open>One program, five back ends\<close>

text \<open>The states of the five back ends show the same of the polls in \<open>P\<close>, which are started in all of them.\<close>

definition same_table :: "addr set \<Rightarrow> (addr \<Rightarrow> poll_view) \<Rightarrow> us \<times> kqs \<times> uvs \<times> gcds \<times> asts \<Rightarrow> bool" where
  "same_table P T = (\<lambda>(e, k, u, g, a). \<forall>p\<in>P. is_poll e p \<and> kq_objs k p \<noteq> None \<and> uv_started_poll u p \<and> g_objs g p = Some GPoll \<and> aview a p \<noteq> None \<and>
     poll_view epoll_backend e p = T p \<and> poll_view kqueue_backend k p = T p \<and> poll_view uv_backend u p = T p \<and>
     poll_view gcd_backend g p = T p \<and> poll_view asio_backend a p = T p)"

lemma abs_cmds_local: "T p = U p \<Longrightarrow> fold abs_cmd cs T p = fold abs_cmd cs U p"
proof (induction cs arbitrary: T U)
  case Nil
  then show ?case by simp
next
  case (Cons c cs)
  have "abs_cmd c T p = abs_cmd c U p" using Cons.prems by (cases "cmd_addr c = p"; cases c) simp_all
  from Cons.IH [of "abs_cmd c T" "abs_cmd c U", OF this] show ?case by simp
qed


definition wb_epoll :: us where
  "wb_epoll = demo\<lparr>objs := [1 \<mapsto> KSocket], polls := (polls demo)(1 := \<lparr>p_fd = 5, p_type = 12\<rparr>)\<rparr>"
definition wb_uv :: uvs where
  "wb_uv = uv_started\<lparr>uv_polls := (uv_polls uv_started)(1 := \<lparr>up_uv_p = 2, up_fd = 5, up_poll_type = 12\<rparr>)\<rparr>"
definition wb_gcd :: gcds where
  "wb_gcd = gcd_empty\<lparr>g_objs := [1 \<mapsto> GPoll], g_polls := (g_polls gcd_empty)(1 := \<lparr>gp_events = 3, gp_gcd_read = 7, gp_gcd_write = 8, gp_fd = 5, gp_poll_type = 0\<rparr>)\<rparr>"
definition wb_asio :: asts where
  "wb_asio = (ar_st wa_run)\<lparr>as_objs := [1 \<mapsto> APoll \<lparr>ap_boost_block = 2, ap_fd = 5, ap_poll_type = 0, ap_events = 3\<rparr>,
     2 \<mapsto> ABlock \<lparr>bb_id = 0, bb_nr = 0, bb_p = 1\<rparr>], as_owner := [0 \<mapsto> 2]\<rparr>"

lemma wb_same: "same_table {1} (\<lambda>p. (True, True, 0)) (wb_epoll, kq_started, wb_uv, wb_gcd, wb_asio)"
proof -
  have "is_poll wb_epoll 1" by (simp add: is_poll_def wb_epoll_def)
  then have 1: "is_poll wb_epoll 1 \<and> poll_view epoll_backend wb_epoll 1 = (True, True, 0)"
    by (simp add: poll_view_def epoll_backend_def us_poll_events_def us_internal_poll_type_def rd_poll_def)
      (simp add: wb_epoll_def events_of_type_def event_defs poll_type_defs)
  have 2: "kq_objs kq_started 1 \<noteq> None \<and> poll_view kqueue_backend kq_started 1 = (True, True, 0)"
    by (simp add: poll_view_def kqueue_backend_def us_poll_events_kq_def us_internal_poll_type_kq_def rd_kq_def kq_started_eq(2)
        kq_created_eq(2) kq_events_of_type_def poll_type_defs KQ_READABLE_def KQ_WRITABLE_def)
  have 3: "uv_started_poll wb_uv 1 \<and> poll_view uv_backend wb_uv 1 = (True, True, 0)"
    by (simp add: uv_started_poll_def poll_view_def uv_backend_def us_poll_events_uv_def us_internal_poll_type_uv_def rd_up_def wb_uv_def
        uv_started_eq(2) uv_created_eq(2) UV_READABLE_def UV_WRITABLE_def)
  have 4: "g_objs wb_gcd 1 = Some GPoll \<and> poll_view gcd_backend wb_gcd 1 = (True, True, 0)"
    by (simp add: poll_view_def gcd_backend_def us_poll_events_gcd_def us_internal_poll_type_gcd_def rd_gp_def wb_gcd_def
        GCD_READABLE_def GCD_WRITABLE_def)
  have 5: "aview wb_asio 1 \<noteq> None \<and> poll_view asio_backend wb_asio 1 = (True, True, 0)"
    by (simp add: poll_view_def asio_backend_def us_poll_events_asio_def us_internal_poll_type_asio_def rd_apoll_def rd_block_def wb_asio_def
        aview_def ASIO_READABLE_def ASIO_WRITABLE_def)
  show ?thesis using 1 2 3 4 5 by (simp add: same_table_def)
qed


end
