(* ===== verification/Us_Http.thy ===== *)
theory Us_Http
  imports Us_Echo Us_Api
begin

text \<open>
  The example HTTP programs: \<open>examples/http_server.c\<close>, which streams one shared response to
  every client over TLS, \<open>examples/http_load_test.c\<close>, which sends pipelined requests with a
  number that changes in every one, and \<open>examples/tcp_load_test.c\<close>. Their functions have the
  same names; here they end in \<open>_hs\<close>, \<open>_hl\<close> and \<open>_tl\<close>. The extension of a context is kept like
  that of a socket, under the address of the context, and the global variables of a program
  under the null address, where neither lives. What the examples print is left out.
\<close>

section \<open>The C library\<close>

definition bytes :: "string \<Rightarrow> byte list" where "bytes s = map of_char s"

definition crlf :: "byte list" where "crlf = [13, 10]"

text \<open>An int that overflows is undefined.\<close>

definition c_int :: "int \<Rightarrow> int option" where
  "c_int x = (if - (2 ^ 31) \<le> x \<and> x < 2 ^ 31 then Some x else None)"

fun atoi_digits :: "int \<Rightarrow> byte list \<Rightarrow> int" where
  "atoi_digits v [] = v"
| "atoi_digits v (b # bs) = (if 48 \<le> b \<and> b \<le> 57 then atoi_digits (10 * v + (uint b - 48)) bs else v)"

definition atoi :: "byte list \<Rightarrow> int option" where
  "atoi s = (case dropWhile (\<lambda>b. b = 32 \<or> 9 \<le> b \<and> b \<le> 13) s of
       [] \<Rightarrow> Some 0
     | b # bs \<Rightarrow> c_int (if b = 45 then - atoi_digits 0 bs else if b = 43 then atoi_digits 0 bs else atoi_digits 0 (b # bs)))"

fun strstr :: "byte list \<Rightarrow> byte list \<Rightarrow> nat option" where
  "strstr [] needle = (if needle = [] then Some 0 else None)"
| "strstr (b # bs) needle = (if take (length needle) (b # bs) = needle then Some 0 else map_option Suc (strstr bs needle))"

text \<open>A format with one \<open>%s\<close>, and decimal digits, the last ones of \<open>n\<close> or all of them.\<close>

definition fmt_s :: "byte list \<Rightarrow> byte list \<Rightarrow> byte list" where
  "fmt_s tmpl arg = (case strstr tmpl (bytes ''%s'') of None \<Rightarrow> tmpl | Some i \<Rightarrow> take i tmpl @ arg @ drop (i + 2) tmpl)"

fun digs :: "nat \<Rightarrow> nat \<Rightarrow> byte list" where
  "digs 0 n = []"
| "digs (Suc k) n = digs k (n div 10) @ [of_nat (48 + n mod 10)]"

fun dec :: "nat \<Rightarrow> byte list" where
  "dec n = (if n < 10 then [of_nat (48 + n)] else dec (n div 10) @ [of_nat (48 + n mod 10)])"

declare dec.simps [simp del]

text \<open>\<open>snprintf\<close> writes what fits with a terminating zero, and returns the length of the whole text.\<close>

definition u_snprintf :: "addr \<Rightarrow> nat \<Rightarrow> byte list \<Rightarrow> us \<Rightarrow> (int \<times> us) option" where
  "u_snprintf a n text st = map_option (Pair (int (length text))) (u_store a 0 (if n = 0 then [] else take (n - 1) text @ [0]) st)"

text \<open>A string on the heap, up to its zero.\<close>

definition u_cstr :: "addr \<Rightarrow> us \<Rightarrow> byte list option" where
  "u_cstr a st = (case u_heap st a of None \<Rightarrow> None
     | Some b \<Rightarrow> if 0 \<in> set b then Some (takeWhile (\<lambda>x. x \<noteq> 0) b) else None)"

section \<open>Extensions of contexts, and global variables\<close>

definition rd_cext :: "addr \<Rightarrow> nat \<Rightarrow> us \<Rightarrow> int option" where
  "rd_cext c n st = (if is_ctx st c then Some (u_ext st c n) else None)"

definition wr_cext :: "addr \<Rightarrow> nat \<Rightarrow> int \<Rightarrow> us \<Rightarrow> us option" where
  "wr_cext c n v st = (if is_ctx st c then Some (st\<lparr>u_ext := (u_ext st)(c := (u_ext st c)(n := v))\<rparr>) else None)"

definition glob :: "nat \<Rightarrow> us \<Rightarrow> int" where
  "glob n st = u_ext st NULL n"

definition set_glob :: "nat \<Rightarrow> int \<Rightarrow> us \<Rightarrow> us" where
  "set_glob n v st = st\<lparr>u_ext := (u_ext st)(NULL := (u_ext st NULL)(n := v))\<rparr>"

section \<open>The HTTP server\<close>

text \<open>The field of \<open>struct http_socket\<close> and those of \<open>struct http_context\<close>.\<close>

definition hs_offset :: nat where "hs_offset = 0"
definition hc_response :: nat where "hc_response = 0"
definition hc_length :: nat where "hc_length = 1"

definition on_http_socket_writable_hs :: "openssl \<Rightarrow> kernel \<Rightarrow> handlers \<Rightarrow> addr \<Rightarrow> us \<Rightarrow> (addr \<times> us) option" where
  "on_http_socket_writable_hs OS K U s st = do {
     context \<leftarrow> us_socket_context s st;
     response \<leftarrow> rd_cext context hc_response st;
     len \<leftarrow> rd_cext context hc_length st;
     offset \<leftarrow> rd_ext s hs_offset st;
     data \<leftarrow> u_load (nat response) offset (len - offset) st;
     (written, st) \<leftarrow> us_socket_write_api OS K U True s data False st;
     st \<leftarrow> wr_ext s hs_offset (offset + written) st;
     Some (s, st)
   }"

definition on_http_socket_close_hs :: "addr \<Rightarrow> int \<Rightarrow> addr \<Rightarrow> us \<Rightarrow> (addr \<times> us) option" where
  "on_http_socket_close_hs s code reason st = Some (s, st)"

definition on_http_socket_end_hs :: "openssl \<Rightarrow> kernel \<Rightarrow> handlers \<Rightarrow> addr \<Rightarrow> us \<Rightarrow> (addr \<times> us) option" where
  "on_http_socket_end_hs OS K U s st = do {
     st \<leftarrow> us_socket_shutdown_api OS K U True s st;
     us_internal_ssl_socket_close OS U s 0 NULL st
   }"

definition on_http_socket_data_hs ::
  "openssl \<Rightarrow> kernel \<Rightarrow> handlers \<Rightarrow> addr \<Rightarrow> byte list \<Rightarrow> us \<Rightarrow> (addr \<times> us) option" where
  "on_http_socket_data_hs OS K U s data st = do {
     context \<leftarrow> us_socket_context s st;
     response \<leftarrow> rd_cext context hc_response st;
     len \<leftarrow> rd_cext context hc_length st;
     text \<leftarrow> u_load (nat response) 0 len st;
     (written, st) \<leftarrow> us_socket_write_api OS K U True s text False st;
     st \<leftarrow> wr_ext s hs_offset written st;
     st \<leftarrow> us_socket_timeout s 30 st;
     Some (s, st)
   }"

definition on_http_socket_open_hs :: "addr \<Rightarrow> bool \<Rightarrow> byte list \<Rightarrow> us \<Rightarrow> (addr \<times> us) option" where
  "on_http_socket_open_hs s is_client ip st = do {
     st \<leftarrow> wr_ext s hs_offset 0 st;
     st \<leftarrow> us_socket_timeout s 30 st;
     Some (s, st)
   }"

definition on_http_socket_timeout_hs :: "openssl \<Rightarrow> handlers \<Rightarrow> addr \<Rightarrow> us \<Rightarrow> (addr \<times> us) option" where
  "on_http_socket_timeout_hs OS U s st = us_internal_ssl_socket_close OS U s 0 NULL st"

text \<open>The handlers by number, as in the other examples.\<close>

definition http_close_handlers :: handlers where
  "http_close_handlers = handlers0\<lparr>h_close := (\<lambda>f s code reason st. on_http_socket_close_hs s code reason st)\<rparr>"

definition http_server_handlers :: "openssl \<Rightarrow> kernel \<Rightarrow> handlers" where
  "http_server_handlers OS K = http_close_handlers\<lparr>
     h_open := (\<lambda>f s cl ip st. on_http_socket_open_hs s cl ip st),
     h_data := (\<lambda>f s d st. on_http_socket_data_hs OS K http_close_handlers s d st),
     h_sock := (\<lambda>f s st. if f = FnUser 5 then on_http_socket_timeout_hs OS http_close_handlers s st
        else if f = FnUser 7 then on_http_socket_end_hs OS K http_close_handlers s st
        else on_http_socket_writable_hs OS K http_close_handlers s st)\<rparr>"

definition http_options :: us_socket_context_options_t where
  "http_options = \<lparr>key_file_name = Some ''../../misc/key.pem'', cert_file_name = Some ''../../misc/cert.pem'',
     passphrase = Some ''1234'', dh_params_file_name = None, ca_file_name = None, ssl_ciphers = None,
     ssl_prefer_low_memory_usage = False\<rparr>"

definition http_body :: "byte list" where
  "http_body = bytes ''<html><body><h1>Why hello there!</h1></body></html>''"

definition http_response :: "byte list" where
  "http_response = bytes ''HTTP/1.1 200 OK'' @ crlf @ bytes ''Content-Length: '' @ dec (length http_body) @ crlf @ crlf @ http_body"

text \<open>The response of the server, made once and shared by all sockets.\<close>

definition make_response :: "kernel \<Rightarrow> addr \<Rightarrow> us \<Rightarrow> us option" where
  "make_response K context st = do {
     let size = 128 + length http_body;
     let (response, st) = u_malloc K (int size) st;
     st \<leftarrow> wr_cext context hc_response (int response) st;
     (len, st) \<leftarrow> u_snprintf response size http_response st;
     wr_cext context hc_length len st
   }"

definition http_server_setup :: "openssl \<Rightarrow> kernel \<Rightarrow> us \<Rightarrow> (addr \<times> us) option" where
  "http_server_setup OS K st = do {
     st \<leftarrow> us_create_loop K (FnUser 11) (FnUser 9) (FnUser 10) st;
     (http_context, st) \<leftarrow> us_create_socket_context_api OS K True http_options st;
     if http_context = NULL then Some (NULL, st) else do {
       st \<leftarrow> make_response K http_context st;
       st \<leftarrow> us_socket_context_on_open_api True http_context (FnUser 1) st;
       st \<leftarrow> us_socket_context_on_data_api True http_context (FnUser 2) st;
       st \<leftarrow> us_socket_context_on_writable_api True http_context (FnUser 3) st;
       st \<leftarrow> us_socket_context_on_close_api True http_context (FnUser 4) st;
       st \<leftarrow> us_socket_context_on_timeout_api True http_context (FnUser 5) st;
       st \<leftarrow> us_socket_context_on_end_api True http_context (FnUser 7) st;
       us_socket_context_listen_api K True http_context [] 3000 0 4 st
     }
   }"

definition http_server_main :: "openssl \<Rightarrow> kernel \<Rightarrow> us \<Rightarrow> us option" where
  "http_server_main OS K st = do {
     (listen_socket, st) \<leftarrow> http_server_setup OS K st;
     if listen_socket \<noteq> NULL then us_loop_run K (ssl_handlers OS K (http_server_handlers OS K)) st else Some st
   }"

section \<open>The load tests\<close>

text \<open>The global variables of the two programs that hold a state.\<close>

definition g_request :: nat where "g_request = 0"
definition g_request_size :: nat where "g_request_size = 1"
definition g_single_request_size :: nat where "g_single_request_size = 2"
definition g_vary_offset :: nat where "g_vary_offset = 3"
definition g_vary_counter :: nat where "g_vary_counter = 4"
definition g_host :: nat where "g_host = 5"
definition g_port :: nat where "g_port = 6"
definition g_connections :: nat where "g_connections = 7"
definition g_responses :: nat where "g_responses = 8"
definition g_pipeline :: nat where "g_pipeline = 9"
definition g_is_post :: nat where "g_is_post = 10"

lemmas glob_defs = g_request_def g_request_size_def g_single_request_size_def g_vary_offset_def g_vary_counter_def
  g_host_def g_port_def g_connections_def g_responses_def g_pipeline_def g_is_post_def

definition hl_initial :: "us \<Rightarrow> us" where
  "hl_initial st = st\<lparr>u_ext := (u_ext st)(NULL := (\<lambda>_. 0)(g_vary_offset := -1, g_pipeline := 1))\<rparr>"

definition VARY_WIDTH :: nat where "VARY_WIDTH = 8"

text \<open>The inner loop of \<open>vary_request\<close> runs from the last digit to the first, the outer over the requests.\<close>

fun vary_digits :: "nat \<Rightarrow> addr \<Rightarrow> int \<Rightarrow> u32 \<Rightarrow> us \<Rightarrow> us option" where
  "vary_digits 0 a digits n st = Some st"
| "vary_digits (Suc d) a digits n st = do {
     st \<leftarrow> u_store a (digits + int d) [ucast (48 + n mod 10)] st;
     vary_digits d a digits (n div 10) st
   }"

fun vary_loop :: "nat \<Rightarrow> int \<Rightarrow> us \<Rightarrow> us option" where
  "vary_loop 0 i st = Some st"
| "vary_loop (Suc k) i st = do {
     let n = (of_int (glob g_vary_counter st) :: u32);
     let st = set_glob g_vary_counter (uint (n + 1)) st;
     st \<leftarrow> vary_digits VARY_WIDTH (nat (glob g_request st)) (i * glob g_single_request_size st + glob g_vary_offset st) n st;
     vary_loop k (i + 1) st
   }"

definition vary_request :: "us \<Rightarrow> us option" where
  "vary_request st = (if glob g_vary_offset st < 0 then Some st else vary_loop (nat (glob g_pipeline st)) 0 st)"

definition on_http_socket_writable_hl :: "openssl \<Rightarrow> kernel \<Rightarrow> handlers \<Rightarrow> addr \<Rightarrow> us \<Rightarrow> (addr \<times> us) option" where
  "on_http_socket_writable_hl OS K U s st = do {
     offset \<leftarrow> rd_ext s hs_offset st;
     data \<leftarrow> u_load (nat (glob g_request st)) offset (glob g_request_size st - offset) st;
     (written, st) \<leftarrow> us_socket_write_api OS K U True s data False st;
     st \<leftarrow> wr_ext s hs_offset (offset + written) st;
     Some (s, st)
   }"

definition on_http_socket_close_hl :: "addr \<Rightarrow> int \<Rightarrow> addr \<Rightarrow> us \<Rightarrow> (addr \<times> us) option" where
  "on_http_socket_close_hl s code reason st = Some (s, st)"

definition on_http_socket_end_hl :: "openssl \<Rightarrow> handlers \<Rightarrow> addr \<Rightarrow> us \<Rightarrow> (addr \<times> us) option" where
  "on_http_socket_end_hl OS U s st = us_internal_ssl_socket_close OS U s 0 NULL st"

definition on_http_socket_data_hl ::
  "openssl \<Rightarrow> kernel \<Rightarrow> handlers \<Rightarrow> addr \<Rightarrow> byte list \<Rightarrow> us \<Rightarrow> (addr \<times> us) option" where
  "on_http_socket_data_hl OS K U s data st = do {
     st \<leftarrow> vary_request st;
     request \<leftarrow> u_load (nat (glob g_request st)) 0 (glob g_request_size st) st;
     (written, st) \<leftarrow> us_socket_write_api OS K U True s request False st;
     st \<leftarrow> wr_ext s hs_offset written st;
     n \<leftarrow> c_int (glob g_responses st + 1);
     Some (s, set_glob g_responses n st)
   }"

text \<open>One connection less to make: connect once more, or start to count.\<close>

definition next_connection_hl :: "kernel \<Rightarrow> addr \<Rightarrow> us \<Rightarrow> us option" where
  "next_connection_hl K s st = do {
     n \<leftarrow> c_int (glob g_connections st - 1);
     let st = set_glob g_connections n st;
     if n \<noteq> 0 then do {
       context \<leftarrow> us_socket_context s st;
       host \<leftarrow> u_cstr (nat (glob g_host st)) st;
       (_, st) \<leftarrow> us_socket_context_connect_api K True context host (glob g_port st) [] 0 st;
       Some st
     } else do {
       st \<leftarrow> us_socket_timeout s (of_int LIBUS_TIMEOUT_GRANULARITY) st;
       us_socket_long_timeout s 1 st
     }
   }"

definition on_http_socket_open_hl ::
  "openssl \<Rightarrow> kernel \<Rightarrow> handlers \<Rightarrow> addr \<Rightarrow> bool \<Rightarrow> byte list \<Rightarrow> us \<Rightarrow> (addr \<times> us) option" where
  "on_http_socket_open_hl OS K U s is_client ip st = do {
     st \<leftarrow> wr_ext s hs_offset 0 st;
     st \<leftarrow> vary_request st;
     request \<leftarrow> u_load (nat (glob g_request st)) 0 (glob g_request_size st) st;
     (_, st) \<leftarrow> us_socket_write_api OS K U True s request False st;
     st \<leftarrow> next_connection_hl K s st;
     Some (s, st)
   }"

definition on_http_socket_long_timeout_hl :: "addr \<Rightarrow> us \<Rightarrow> (addr \<times> us) option" where
  "on_http_socket_long_timeout_hl s st = map_option (Pair s) (us_socket_long_timeout s 1 st)"

definition on_http_socket_timeout_hl :: "addr \<Rightarrow> us \<Rightarrow> (addr \<times> us) option" where
  "on_http_socket_timeout_hl s st =
     map_option (Pair s) (us_socket_timeout s (of_int LIBUS_TIMEOUT_GRANULARITY) (set_glob g_responses 0 st))"

definition on_http_socket_connect_error_hl :: "addr \<Rightarrow> int \<Rightarrow> us \<Rightarrow> (addr \<times> us) option" where
  "on_http_socket_connect_error_hl s code st = Some (s, st)"

definition hl_handlers :: "openssl \<Rightarrow> kernel \<Rightarrow> handlers" where
  "hl_handlers OS K = http_close_handlers\<lparr>
     h_open := (\<lambda>f s cl ip st. on_http_socket_open_hl OS K http_close_handlers s cl ip st),
     h_data := (\<lambda>f s d st. on_http_socket_data_hl OS K http_close_handlers s d st),
     h_sock := (\<lambda>f s st. if f = FnUser 5 then on_http_socket_timeout_hl s st
        else if f = FnUser 6 then on_http_socket_long_timeout_hl s st
        else if f = FnUser 7 then on_http_socket_end_hl OS http_close_handlers s st
        else on_http_socket_writable_hl OS K http_close_handlers s st),
     h_connect_error := (\<lambda>f s code st. on_http_socket_connect_error_hl s code st)\<rparr>"

section \<open>The main functions of the load tests\<close>

definition request_template :: "byte list" where
  "request_template = bytes ''GET %s HTTP/1.1'' @ crlf @ bytes ''Host: localhost:3000'' @ crlf @
     bytes ''User-Agent: curl/7.68.0'' @ crlf @ bytes ''Accept: */*'' @ crlf @ crlf"

definition request_template_post :: "byte list" where
  "request_template_post = bytes ''POST %s HTTP/1.1'' @ crlf @ bytes ''Host: localhost:3000'' @ crlf @
     bytes ''User-Agent: curl/7.68.0'' @ crlf @ bytes ''Accept: */*'' @ crlf @ bytes ''Content-Length: 10'' @ crlf @ crlf @
     bytes ''{'' @ [34] @ bytes ''key'' @ [34] @ bytes '':13}''"

text \<open>
  The request and the offset of its number, or -1, from the path: the placeholder becomes zeros,
  in an array of 512 bytes that \<open>snprintf\<close> never overruns; \<open>sprintf\<close> into an array of 1024 bytes
  is undefined when the request does not fit.
\<close>

definition format_request :: "byte list \<Rightarrow> byte list \<Rightarrow> (byte list \<times> int) option" where
  "format_request tmpl path = (
     let placeholder = strstr path (bytes ''{n}'');
         selected_path = (case placeholder of None \<Rightarrow> path
           | Some i \<Rightarrow> take 511 (take i path @ replicate VARY_WIDTH 48 @ drop (i + 3) path));
         request = fmt_s tmpl selected_path
     in if length request + 1 > 1024 then None
        else case placeholder of None \<Rightarrow> Some (request, -1)
          | Some i \<Rightarrow> map_option (\<lambda>k. (request, int (k + 1 + i))) (strstr request (bytes '' '')))"

text \<open>The batch of requests is filled one by one.\<close>

fun copy_requests :: "nat \<Rightarrow> int \<Rightarrow> addr \<Rightarrow> byte list \<Rightarrow> us \<Rightarrow> us option" where
  "copy_requests 0 i a r st = Some st"
| "copy_requests (Suc k) i a r st = do {
     st \<leftarrow> u_store a (i * int (length r)) r st;
     copy_requests k (i + 1) a r st
   }"

definition prepare_requests :: "kernel \<Rightarrow> byte list \<Rightarrow> byte list \<Rightarrow> us \<Rightarrow> us option" where
  "prepare_requests K tmpl path st = do {
     (r, vary_offset) \<leftarrow> format_request tmpl path;
     let st = set_glob g_single_request_size (int (length r)) st;
     let st = (if vary_offset < 0 then st else set_glob g_vary_offset vary_offset st);
     request_size \<leftarrow> c_int (glob g_pipeline st * int (length r));
     let st = set_glob g_request_size request_size st;
     let (request, st) = u_malloc K request_size st;
     copy_requests (nat (glob g_pipeline st)) 0 request r (set_glob g_request (int request) st)
   }"

text \<open>The port, the host, copied with its zero, and the number of connections.\<close>

definition read_arguments :: "kernel \<Rightarrow> byte list list \<Rightarrow> us \<Rightarrow> us option" where
  "read_arguments K argv st = do {
     port \<leftarrow> atoi (argv ! 3);
     let st = set_glob g_port port st;
     let (host, st) = u_malloc K (int (length (argv ! 2) + 1)) st;
     st \<leftarrow> u_store host 0 (argv ! 2 @ [0]) (set_glob g_host (int host) st);
     connections \<leftarrow> atoi (argv ! 1);
     Some (set_glob g_connections connections st)
   }"

definition hl_context :: "bool \<Rightarrow> addr \<Rightarrow> us \<Rightarrow> us option" where
  "hl_context ssl http_context st = do {
     st \<leftarrow> us_socket_context_on_open_api ssl http_context (FnUser 1) st;
     st \<leftarrow> us_socket_context_on_data_api ssl http_context (FnUser 2) st;
     st \<leftarrow> us_socket_context_on_writable_api ssl http_context (FnUser 3) st;
     st \<leftarrow> us_socket_context_on_close_api ssl http_context (FnUser 4) st;
     st \<leftarrow> us_socket_context_on_timeout_api ssl http_context (FnUser 5) st;
     st \<leftarrow> us_socket_context_on_long_timeout_api ssl http_context (FnUser 6) st;
     st \<leftarrow> us_socket_context_on_end_api ssl http_context (FnUser 7) st;
     us_socket_context_on_connect_error_api ssl http_context (FnUser 8) st
   }"

text \<open>The rest of both main functions: the loop, the context, the first connection, and the end.\<close>

definition run_load_test :: "openssl \<Rightarrow> kernel \<Rightarrow> handlers \<Rightarrow> bool \<Rightarrow> us_socket_context_options_t \<Rightarrow> us \<Rightarrow> us option" where
  "run_load_test OS K H ssl options st = do {
     st \<leftarrow> us_create_loop K (FnUser 11) (FnUser 9) (FnUser 10) st;
     (http_context, st) \<leftarrow> us_create_socket_context_api OS K ssl options st;
     if http_context = NULL then Some st else do {
       st \<leftarrow> hl_context ssl http_context st;
       host \<leftarrow> u_cstr (nat (glob g_host st)) st;
       (_, st) \<leftarrow> us_socket_context_connect_api K ssl http_context host (glob g_port st) [] 0 st;
       st \<leftarrow> us_loop_run K H st;
       st \<leftarrow> us_socket_context_free_api OS ssl http_context st;
       us_loop_free st
     }
   }"

definition hl_main :: "openssl \<Rightarrow> kernel \<Rightarrow> byte list list \<Rightarrow> us \<Rightarrow> us option" where
  "hl_main OS K argv st = (
     let argc = length argv; st = hl_initial st
     in if argc < 4 \<or> argc > 7 then Some st else do {
       let path = (if argc \<ge> 5 then argv ! 4 else bytes ''/'');
       pipeline \<leftarrow> (if argc \<ge> 6 then atoi (argv ! 5) else Some 1);
       is_post \<leftarrow> (if argc \<ge> 7 then atoi (argv ! 6) else Some 0);
       let st = set_glob g_is_post is_post (set_glob g_pipeline pipeline st);
       st \<leftarrow> prepare_requests K (if is_post \<noteq> 0 then request_template_post else request_template) path st;
       st \<leftarrow> read_arguments K argv st;
       run_load_test OS K (ssl_handlers OS K (hl_handlers OS K)) True http_options st
     })"

subsection \<open>The TCP load test\<close>

definition tl_request :: "byte list" where
  "tl_request = bytes ''Hello there!''"

definition on_http_socket_writable_tl :: "addr \<Rightarrow> us \<Rightarrow> (addr \<times> us) option" where
  "on_http_socket_writable_tl s st = Some (s, st)"

definition on_http_socket_close_tl :: "addr \<Rightarrow> int \<Rightarrow> addr \<Rightarrow> us \<Rightarrow> (addr \<times> us) option" where
  "on_http_socket_close_tl s code reason st = Some (s, st)"

definition on_http_socket_end_tl :: "handlers \<Rightarrow> addr \<Rightarrow> us \<Rightarrow> (addr \<times> us) option" where
  "on_http_socket_end_tl U s st = us_socket_close U s 0 NULL st"

definition on_http_socket_data_tl :: "kernel \<Rightarrow> addr \<Rightarrow> byte list \<Rightarrow> us \<Rightarrow> (addr \<times> us) option" where
  "on_http_socket_data_tl K s data st = do {
     (_, st) \<leftarrow> us_socket_write K s tl_request False st;
     n \<leftarrow> c_int (glob g_responses st + 1);
     Some (s, set_glob g_responses n st)
   }"

definition on_http_socket_open_tl :: "kernel \<Rightarrow> addr \<Rightarrow> bool \<Rightarrow> byte list \<Rightarrow> us \<Rightarrow> (addr \<times> us) option" where
  "on_http_socket_open_tl K s is_client ip st = do {
     (_, st) \<leftarrow> us_socket_write K s tl_request False st;
     n \<leftarrow> c_int (glob g_connections st - 1);
     let st = set_glob g_connections n st;
     st \<leftarrow> (if n \<noteq> 0 then do {
           context \<leftarrow> us_socket_context s st;
           host \<leftarrow> u_cstr (nat (glob g_host st)) st;
           (_, st) \<leftarrow> us_socket_context_connect K context host (glob g_port st) [] 0 st;
           Some st
         } else do {
           st \<leftarrow> us_socket_timeout s (of_int LIBUS_TIMEOUT_GRANULARITY) st;
           us_socket_long_timeout s 1 st
         });
     Some (s, st)
   }"

definition on_http_socket_long_timeout_tl :: "addr \<Rightarrow> us \<Rightarrow> (addr \<times> us) option" where
  "on_http_socket_long_timeout_tl s st = map_option (Pair s) (us_socket_long_timeout s 1 st)"

definition on_http_socket_timeout_tl :: "addr \<Rightarrow> us \<Rightarrow> (addr \<times> us) option" where
  "on_http_socket_timeout_tl s st =
     map_option (Pair s) (us_socket_timeout s (of_int LIBUS_TIMEOUT_GRANULARITY) (set_glob g_responses 0 st))"

definition on_http_socket_connect_error_tl :: "addr \<Rightarrow> int \<Rightarrow> us \<Rightarrow> (addr \<times> us) option" where
  "on_http_socket_connect_error_tl s code st = Some (s, st)"

definition tl_close_handlers :: handlers where
  "tl_close_handlers = handlers0\<lparr>h_close := (\<lambda>f s code reason st. on_http_socket_close_tl s code reason st)\<rparr>"

definition tl_handlers :: "kernel \<Rightarrow> handlers" where
  "tl_handlers K = tl_close_handlers\<lparr>
     h_open := (\<lambda>f s cl ip st. on_http_socket_open_tl K s cl ip st),
     h_data := (\<lambda>f s d st. on_http_socket_data_tl K s d st),
     h_sock := (\<lambda>f s st. if f = FnUser 5 then on_http_socket_timeout_tl s st
        else if f = FnUser 6 then on_http_socket_long_timeout_tl s st
        else if f = FnUser 7 then on_http_socket_end_tl tl_close_handlers s st
        else on_http_socket_writable_tl s st),
     h_connect_error := (\<lambda>f s code st. on_http_socket_connect_error_tl s code st)\<rparr>"

definition tl_options :: us_socket_context_options_t where
  "tl_options = \<lparr>key_file_name = None, cert_file_name = None, passphrase = None, dh_params_file_name = None,
     ca_file_name = None, ssl_ciphers = None, ssl_prefer_low_memory_usage = False\<rparr>"

definition tl_main :: "openssl \<Rightarrow> kernel \<Rightarrow> byte list list \<Rightarrow> us \<Rightarrow> us option" where
  "tl_main OS K argv st = (
     let st = st\<lparr>u_ext := (u_ext st)(NULL := (\<lambda>_. 0))\<rparr>
     in if length argv \<noteq> 4 then Some st else do {
       st \<leftarrow> read_arguments K argv st;
       run_load_test OS K (tl_handlers K) False tl_options st
     })"

section \<open>The numbers in the requests\<close>

text \<open>The number a reader makes of decimal digits.\<close>

definition dec_value :: "byte list \<Rightarrow> nat" where
  "dec_value = foldl (\<lambda>v b. 10 * v + (unat b - 48)) 0"

lemma digs_length [simp]: "length (digs k n) = k"
  by (induction k arbitrary: n) auto

lemma unat_byte: "m < 256 \<Longrightarrow> unat (of_nat m :: byte) = m"
  by (simp add: unsigned_of_nat take_bit_nat_eq_self)

lemma unat_digit: "unat (of_nat (48 + n mod 10) :: byte) = 48 + n mod 10"
  by (rule unat_byte) (use mod_less_divisor [of 10 n] in linarith)

lemma digs_ascii: "set (digs k n) \<subseteq> {48..57}"
proof (induction k arbitrary: n)
  case (Suc k)
  have "of_nat (48 + n mod 10) \<in> {48..57 :: byte}"
    using unat_digit [of n] mod_less_divisor [of 10 n] by (simp add: word_le_nat_alt)
  then show ?case using Suc by simp
qed simp

lemma dec_value_digs: "dec_value (digs k n) = n mod 10 ^ k"
proof (induction k arbitrary: n)
  case (Suc k)
  have "dec_value (digs (Suc k) n) = 10 * (n div 10 mod 10 ^ k) + n mod 10"
    using Suc unat_digit [of n] by (simp add: dec_value_def)
  then show ?case by (simp add: mod_mult2_eq)
qed (simp add: dec_value_def)

lemma digit_byte: "(ucast (48 + n mod 10 :: u32) :: byte) = of_nat (48 + unat n mod 10)"
proof -
  have "unat (n mod 10) < 10" by (simp add: unat_mod)
  then have "unat (48 + n mod 10) = 48 + unat n mod 10" by (simp add: unat_word_ariths unat_mod)
  then show ?thesis by (metis of_nat_unat)
qed

lemma u_store_at:
  "u_heap st a = Some (xs @ ys @ zs) \<Longrightarrow> length ys = length ys' \<Longrightarrow>
   u_store a (int (length xs)) ys' st = Some (filled a (xs @ ys' @ zs) st)"
  by (cases "ys' = []") (auto simp: u_store_def filled_def fun_upd_idem)

lemma filled_filled [simp]: "filled a c (filled a b st) = filled a c st"
  by (simp add: filled_def)

lemma filled_heap [simp]: "u_heap (filled a c st) a = Some c" "b \<noteq> a \<Longrightarrow> u_heap (filled a c st) b = u_heap st b"
  by (simp_all add: filled_def)

lemma glob_upd [simp]: "glob n (filled a c st) = glob n st" "glob n (set_glob n v st) = v" "m \<noteq> n \<Longrightarrow> glob m (set_glob n v st) = glob m st"
  "u_heap (set_glob n v st) = u_heap st" "filled a c (set_glob n v st) = set_glob n v (filled a c st)"
  "set_glob n v (set_glob n w st) = set_glob n v st" "glob n st = v \<Longrightarrow> set_glob n v st = st"
  by (simp_all add: glob_def set_glob_def filled_def fun_upd_idem)

lemma filled_same: "u_heap st a = Some c \<Longrightarrow> filled a c st = st"
  by (simp add: filled_def fun_upd_idem)

lemma vary_digits_eq:
  "u_heap st a = Some (xs @ ds @ zs) \<Longrightarrow> length ds = k \<Longrightarrow>
   vary_digits k a (int (length xs)) n st = Some (filled a (xs @ digs k (unat n) @ zs) st)"
proof (induction k arbitrary: n ds zs st)
  case 0
  then show ?case by (simp add: filled_same)
next
  case (Suc k)
  obtain ds' d where ds: "ds = ds' @ [d]" "length ds' = k" using Suc.prems(2) by (cases ds rule: rev_cases) auto
  let ?x = "of_nat (48 + unat n mod 10) :: byte"
  have "u_store a (int (length (xs @ ds'))) [?x] st = Some (filled a ((xs @ ds') @ [?x] @ zs) st)"
    by (rule u_store_at [of _ _ _ "[d]"]) (use Suc.prems(1) ds in simp_all)
  then have 1: "u_store a (int (length xs) + int k) [ucast (48 + n mod 10)] st = Some (filled a (xs @ ds' @ [?x] @ zs) st)"
    unfolding digit_byte using ds(2) by simp
  have "vary_digits k a (int (length xs)) (n div 10) (filled a (xs @ ds' @ [?x] @ zs) st) =
      Some (filled a (xs @ digs k (unat (n div 10)) @ [?x] @ zs) (filled a (xs @ ds' @ [?x] @ zs) st))"
    by (rule Suc.IH [of _ ds']) (simp_all add: ds)
  then show ?case using 1 by (simp add: unat_div)
qed

text \<open>The numbers of \<open>k\<close> requests from \<open>c\<close> on.\<close>

fun numbers :: "u32 \<Rightarrow> nat \<Rightarrow> byte list list" where
  "numbers c 0 = []"
| "numbers c (Suc k) = digs VARY_WIDTH (unat c) # numbers (c + 1) k"

lemma numbers_length [simp]: "length (numbers c k) = k"
  by (induction k arbitrary: c) auto

lemma numbers_nth: "j < k \<Longrightarrow> numbers c k ! j = digs VARY_WIDTH (unat (c + of_nat j))"
proof (induction k arbitrary: c j)
  case (Suc k)
  then show ?case by (cases j) (simp_all add: add.assoc)
qed simp

text \<open>A batch of requests made of the same texts before and after their numbers.\<close>

definition seg :: "byte list \<Rightarrow> byte list \<Rightarrow> byte list \<Rightarrow> byte list" where
  "seg u v d = u @ d @ v"

lemma vary_loop_eq:
  assumes "glob g_request st = int a" "glob g_single_request_size st = int (length u + VARY_WIDTH + length v)"
    and "glob g_vary_offset st = int (length u)" "glob g_vary_counter st = uint c"
    and "u_heap st a = Some (xs @ concat (map (seg u v) ds))" "length xs = i * (length u + VARY_WIDTH + length v)"
    and "\<forall>d\<in>set ds. length d = VARY_WIDTH" "length ds = k"
  shows "vary_loop k (int i) st = Some (set_glob g_vary_counter (uint (c + of_nat k))
    (filled a (xs @ concat (map (seg u v) (numbers c k))) st))"
  using assms
proof (induction k arbitrary: i ds xs c st)
  case 0
  then show ?case by (simp add: filled_same)
next
  case (Suc k)
  obtain d ds' where ds: "ds = d # ds'" "length d = VARY_WIDTH" "length ds' = k" "\<forall>d\<in>set ds'. length d = VARY_WIDTH"
    using Suc.prems(7,8) by (cases ds) auto
  let ?L = "length u + VARY_WIDTH + length v"
  let ?d = "digs VARY_WIDTH (unat c)"
  let ?rest = "concat (map (seg u v) ds')"
  let ?st1 = "set_glob g_vary_counter (uint (c + 1)) st"
  let ?b = "(xs @ seg u v ?d) @ ?rest"
  have at: "int i * int ?L + int (length u) = int (length (xs @ u))" using Suc.prems(6) by simp
  have "vary_digits VARY_WIDTH a (int (length (xs @ u))) c ?st1 = Some (filled a ((xs @ u) @ ?d @ v @ ?rest) ?st1)"
    by (rule vary_digits_eq [of _ _ _ d]) (use Suc.prems(5) ds in \<open>simp_all add: seg_def [of u v d]\<close>)
  then have 1: "vary_digits VARY_WIDTH a (int i * int ?L + int (length u)) c ?st1 = Some (filled a ?b ?st1)"
    unfolding at by (simp add: seg_def)
  have "vary_loop k (int (Suc i)) (filled a ?b ?st1) = Some (set_glob g_vary_counter (uint (c + 1 + of_nat k))
      (filled a ((xs @ seg u v ?d) @ concat (map (seg u v) (numbers (c + 1) k))) (filled a ?b ?st1)))"
  proof (rule Suc.IH)
    show "length (xs @ seg u v ?d) = Suc i * ?L" using Suc.prems(6) by (simp add: seg_def)
  qed (use Suc.prems(1-4) ds in \<open>simp_all add: glob_defs\<close>)
  then show ?case using 1 Suc.prems(1-4) by (simp add: glob_defs ac_simps)
qed

text \<open>The requests of a batch carry the texts \<open>ds\<close> for their numbers, \<open>c\<close> is the next number.\<close>

definition batch_ok :: "addr \<Rightarrow> byte list \<Rightarrow> byte list \<Rightarrow> u32 \<Rightarrow> byte list list \<Rightarrow> us \<Rightarrow> bool" where
  "batch_ok a u v c ds st \<longleftrightarrow> glob g_request st = int a \<and> glob g_single_request_size st = int (length u + VARY_WIDTH + length v) \<and>
     glob g_vary_offset st = int (length u) \<and> glob g_vary_counter st = uint c \<and> glob g_pipeline st = int (length ds) \<and>
     u_heap st a = Some (concat (map (seg u v) ds)) \<and> (\<forall>d\<in>set ds. length d = VARY_WIDTH)"

lemma numbers_width: "\<forall>d\<in>set (numbers c k). length d = VARY_WIDTH"
  by (induction k arbitrary: c) auto

lemma vary_request_ok:
  assumes "batch_ok a u v c ds st"
  shows "\<exists>st'. vary_request st = Some st' \<and> batch_ok a u v (c + of_nat (length ds)) (numbers c (length ds)) st' \<and>
    (\<forall>b. b \<noteq> a \<longrightarrow> u_heap st' b = u_heap st b)"
proof -
  from assms have "vary_loop (length ds) (int 0) st = Some (set_glob g_vary_counter (uint (c + of_nat (length ds)))
      (filled a ([] @ concat (map (seg u v) (numbers c (length ds)))) st))"
    by (intro vary_loop_eq) (simp_all add: batch_ok_def)
  then show ?thesis using assms numbers_width by (simp add: batch_ok_def vary_request_def glob_defs)
qed

fun vary_times :: "nat \<Rightarrow> us \<Rightarrow> us option" where
  "vary_times 0 st = Some st"
| "vary_times (Suc n) st = Option.bind (vary_times n st) vary_request"

lemma vary_times_ok:
  assumes "batch_ok a u v c ds st"
  shows "\<exists>st'. vary_times (Suc n) st = Some st' \<and>
    batch_ok a u v (c + of_nat (Suc n * length ds)) (numbers (c + of_nat (n * length ds)) (length ds)) st' \<and>
    (\<forall>b. b \<noteq> a \<longrightarrow> u_heap st' b = u_heap st b)"
proof (induction n)
  case 0
  show ?case using vary_request_ok [OF assms] by simp
next
  case (Suc n)
  then obtain st1 where 1: "vary_times (Suc n) st = Some st1" "\<forall>b. b \<noteq> a \<longrightarrow> u_heap st1 b = u_heap st b"
    "batch_ok a u v (c + of_nat (Suc n * length ds)) (numbers (c + of_nat (n * length ds)) (length ds)) st1" by blast
  from vary_request_ok [OF 1(3)] obtain st2 where
    2: "vary_request st1 = Some st2" "\<forall>b. b \<noteq> a \<longrightarrow> u_heap st2 b = u_heap st1 b"
      "batch_ok a u v (c + of_nat (Suc n * length ds) + of_nat (length ds))
        (numbers (c + of_nat (Suc n * length ds)) (length ds)) st2" by auto
  have eq: "c + of_nat (Suc n * length ds) + of_nat (length ds) = c + of_nat (Suc (Suc n) * length ds)" by (simp add: ac_simps)
  have "vary_times (Suc (Suc n)) st = Some st2" using 1(1) 2(1) by simp
  then show ?case using 1(2) 2(2) 2(3) [unfolded eq] by auto
qed

section \<open>The batch that \<open>main\<close> prepares\<close>

lemma copy_requests_eq:
  "u_heap st a = Some (xs @ ys) \<Longrightarrow> length xs = i * length r \<Longrightarrow> length ys = k * length r \<Longrightarrow>
   copy_requests k (int i) a r st = Some (filled a (xs @ concat (replicate k r)) st)"
proof (induction k arbitrary: i xs ys st)
  case 0
  then show ?case by (simp add: filled_same)
next
  case (Suc k)
  obtain zs ys' where ys: "ys = zs @ ys'" "length zs = length r" "length ys' = k * length r"
    using Suc.prems(3) by (metis add_diff_cancel_left' append_take_drop_id le_add1 length_drop length_take min.absorb2 mult_Suc)
  have at: "int i * int (length r) = int (length xs)" using Suc.prems(2) by simp
  have 1: "u_store a (int i * int (length r)) r st = Some (filled a (xs @ r @ ys') st)"
    unfolding at by (rule u_store_at [of _ _ _ zs]) (use Suc.prems(1) ys in simp_all)
  have "copy_requests k (int (Suc i)) a r (filled a (xs @ r @ ys') st) =
      Some (filled a ((xs @ r) @ concat (replicate k r)) (filled a (xs @ r @ ys') st))"
    by (rule Suc.IH [of _ _ ys']) (use Suc.prems(2) ys in simp_all)
  then show ?case using 1 by (simp add: add.commute)
qed

lemma strstr_Some:
  "strstr s needle = Some i \<Longrightarrow> s = take i s @ needle @ drop (i + length needle) s \<and> i + length needle \<le> length s"
proof (induction s arbitrary: i)
  case (Cons b bs)
  show ?case
  proof (cases "take (length needle) (b # bs) = needle")
    case True
    then have "length needle \<le> length (b # bs)" by (metis length_take min.cobounded1)
    moreover have "i = 0" using True Cons.prems by simp
    ultimately show ?thesis using True append_take_drop_id [of "length needle" "b # bs"] by simp
  qed (use Cons in auto)
qed (auto split: if_splits)

lemma strstr_byte: "x \<notin> set m \<Longrightarrow> strstr (m @ x # ys) [x] = Some (length m)"
  by (induction m) auto

text \<open>Both templates are a method, a space, the path and a rest.\<close>

lemma templates:
  assumes "tmpl \<in> {request_template, request_template_post}"
  obtains m rest where "\<And>arg. fmt_s tmpl arg = m @ 32 # arg @ rest" "32 \<notin> set m" "length m + length rest \<le> 200"
proof -
  have "\<exists>m rest. (\<forall>arg. fmt_s tmpl arg = m @ 32 # arg @ rest) \<and> 32 \<notin> set m \<and> length m + length rest \<le> 200"
  proof (cases "tmpl = request_template")
    case True
    have "fmt_s tmpl arg = bytes ''GET'' @ 32 # arg @ drop 6 request_template" for arg
      by (simp add: True fmt_s_def request_template_def bytes_def crlf_def)
    moreover have "32 \<notin> set (bytes ''GET'')" "length (bytes ''GET'') + length (drop 6 request_template) \<le> 200"
      by (simp_all add: request_template_def bytes_def crlf_def)
    ultimately show ?thesis by blast
  next
    case False
    then have tm: "tmpl = request_template_post" using assms by simp
    have "fmt_s tmpl arg = bytes ''POST'' @ 32 # arg @ drop 7 request_template_post" for arg
      by (simp add: tm fmt_s_def request_template_post_def bytes_def crlf_def)
    moreover have "32 \<notin> set (bytes ''POST'')" "length (bytes ''POST'') + length (drop 7 request_template_post) \<le> 200"
      by (simp_all add: request_template_post_def bytes_def crlf_def)
    ultimately show ?thesis by blast
  qed
  then show thesis using that by blast
qed

lemma c_int_nat: "n < 2 ^ 31 \<Longrightarrow> c_int (int n) = Some (int n)"
  by (simp add: c_int_def)

lemma format_ok:
  assumes path: "strstr path (bytes ''{n}'') = Some i" "length path \<le> 506"
    and f: "\<forall>arg. fmt_s tmpl arg = m @ 32 # arg @ rest" and m: "32 \<notin> set m" "length m + length rest \<le> 200"
    and uv: "u = m @ 32 # take i path" "v = drop (i + 3) path @ rest" and z: "z = replicate VARY_WIDTH 48"
  shows "format_request tmpl path = Some (seg u v z, int (length u))" "length u + VARY_WIDTH + length v \<le> 750"
proof -
  have i: "i + 3 \<le> length path" using strstr_Some [OF path(1)] by (simp add: bytes_def)
  show n: "length u + VARY_WIDTH + length v \<le> 750" using i path(2) m(2) by (simp add: uv VARY_WIDTH_def)
  have sel: "take 511 (take i path @ replicate VARY_WIDTH 48 @ drop (i + 3) path) = take i path @ z @ drop (i + 3) path"
    using i path(2) by (simp add: VARY_WIDTH_def z)
  show "format_request tmpl path = Some (seg u v z, int (length u))"
    unfolding format_request_def Let_def path(1) option.case sel f [rule_format]
    using n strstr_byte [OF m(1)] i by (simp add: seg_def bytes_def uv z)
qed

lemma prepare_ok:
  assumes K: "user_alloc_ok K" and fin: "finite (dom (u_heap st))" and p: "glob g_pipeline st = int p" "p < 2 ^ 21"
    and c: "glob g_vary_counter st = uint c" and z: "z = replicate VARY_WIDTH 48"
    and f: "format_request tmpl path = Some (seg u v z, int (length u))" and n: "length u + VARY_WIDTH + length v \<le> 750"
  shows "\<exists>a st'. prepare_requests K tmpl path st = Some st' \<and> u_heap st a = None \<and> batch_ok a u v c (replicate p z) st' \<and>
    (\<forall>b. b \<noteq> a \<longrightarrow> u_heap st' b = u_heap st b)"
proof -
  define r where "r = seg u v z"
  have len: "length r = length u + VARY_WIDTH + length v" by (simp add: seg_def r_def z)
  have "p * length r \<le> p * 750" using n unfolding len by (rule mult_le_mono2)
  moreover have "p * 750 < 2 ^ 31" using p(2) by simp
  ultimately have "p * length r < 2 ^ 31" by (rule le_less_trans)
  then have ci: "c_int (int p * int (length r)) = Some (int (p * length r))"
    unfolding of_nat_mult [symmetric] by (rule c_int_nat)
  define st1 where "st1 = set_glob g_request_size (int (p * length r))
    (set_glob g_vary_offset (int (length u)) (set_glob g_single_request_size (int (length r)) st))"
  have heap: "u_heap st1 = u_heap st" by (simp add: st1_def)
  have fin1: "finite (dom (u_heap st1))" using fin heap by simp
  define a where "a = new_block_of K (p * length r) st1"
  note nb = new_block_fresh [OF K fin1, of "p * length r", folded a_def]
  define st2 where "st2 = set_glob g_request (int a) (filled a (replicate (p * length r) 0) st1)"
  have "u_heap st2 a = Some ([] @ replicate (p * length r) 0)" by (simp add: st2_def)
  from copy_requests_eq [OF this, of 0 r p]
  have "copy_requests p 0 a r st2 = Some (filled a (concat (replicate p r)) st2)" by simp
  then have "prepare_requests K tmpl path st = Some (filled a (concat (replicate p r)) st2)"
    using f ci nb(3) p(1) by (simp add: prepare_requests_def Let_def glob_defs st1_def st2_def flip: r_def)
  moreover have "concat (replicate p r) = concat (map (seg u v) (replicate p z))" by (simp add: r_def)
  then have "batch_ok a u v c (replicate p z) (filled a (concat (replicate p r)) st2)"
    using p(1) c len by (simp add: batch_ok_def glob_defs st2_def st1_def z)
  moreover have "u_heap (filled a (concat (replicate p r)) st2) b = u_heap st b" if "b \<noteq> a" for b
    using that heap by (simp add: st2_def)
  ultimately show ?thesis using nb(2) heap by (intro exI) auto
qed

text \<open>
  The load test never sends the same request twice in a row: after \<open>main\<close> has prepared the
  batch, the \<open>n\<close>-th call of \<open>vary_request\<close> leaves in the block exactly the requests that the template
  makes of the path with the placeholder replaced by eight decimal digits, which spell the numbers
  from \<open>n * p\<close> on, modulo the width of the counter and the width of the field; every request keeps
  its place and its size, and no other block changes.
\<close>

lemma vary_request_correct:
  assumes K: "user_alloc_ok K" and fin: "finite (dom (u_heap st))" and t: "tmpl \<in> {request_template, request_template_post}"
    and p: "glob g_pipeline st = int p" "p < 2 ^ 21" and c: "glob g_vary_counter st = uint (c :: u32)"
    and path: "strstr path (bytes ''{n}'') = Some i" "length path \<le> 506"
  shows "\<exists>st1 st2 a ds. prepare_requests K tmpl path st = Some st1 \<and> vary_times (Suc n) st1 = Some st2 \<and>
    glob g_request st2 = int a \<and> length ds = p \<and>
    u_heap st2 a = Some (concat (map (\<lambda>d. fmt_s tmpl (take i path @ d @ drop (i + 3) path)) ds)) \<and>
    (\<forall>j<p. length (ds ! j) = VARY_WIDTH \<and> set (ds ! j) \<subseteq> {48..57} \<and>
       dec_value (ds ! j) = unat (c + of_nat (n * p + j)) mod 10 ^ VARY_WIDTH) \<and>
    u_heap st a = None \<and> (\<forall>b. b \<noteq> a \<longrightarrow> u_heap st2 b = u_heap st b)"
proof -
  from templates [OF t] obtain m rest where
    m: "\<forall>arg. fmt_s tmpl arg = m @ 32 # arg @ rest" "32 \<notin> set m" "length m + length rest \<le> 200" by metis
  from prepare_ok [OF K fin p c refl format_ok [OF path m refl refl refl]] obtain a st1 where
    1: "prepare_requests K tmpl path st = Some st1" "u_heap st a = None" "\<forall>b. b \<noteq> a \<longrightarrow> u_heap st1 b = u_heap st b"
      "batch_ok a (m @ 32 # take i path) (drop (i + 3) path @ rest) c (replicate p (replicate VARY_WIDTH 48)) st1" by blast
  let ?ds = "numbers (c + of_nat (n * p)) p"
  from vary_times_ok [OF 1(4), of n] obtain st2 where
    2: "vary_times (Suc n) st1 = Some st2" "\<forall>b. b \<noteq> a \<longrightarrow> u_heap st2 b = u_heap st1 b"
      "glob g_request st2 = int a" "u_heap st2 a = Some (concat (map (seg (m @ 32 # take i path) (drop (i + 3) path @ rest)) ?ds))"
    by (auto simp: batch_ok_def)
  have "seg (m @ 32 # take i path) (drop (i + 3) path @ rest) = (\<lambda>d. fmt_s tmpl (take i path @ d @ drop (i + 3) path))"
    by (simp add: fun_eq_iff seg_def m(1))
  moreover have "\<forall>j<p. length (?ds ! j) = VARY_WIDTH \<and> set (?ds ! j) \<subseteq> {48..57} \<and>
      dec_value (?ds ! j) = unat (c + of_nat (n * p + j)) mod 10 ^ VARY_WIDTH"
    using digs_ascii by (simp add: numbers_nth dec_value_digs add.assoc)
  ultimately show ?thesis using 1(1-3) 2 by (intro exI [of _ st1] exI [of _ st2] exI [of _ a] exI [of _ ?ds]) simp
qed

section \<open>The response is streamed\<close>

text \<open>The socket can be written to, and the extension of its context holds the response.\<close>

definition http_ok :: "openssl \<Rightarrow> (addr \<Rightarrow> bool) \<Rightarrow> handlers \<Rightarrow> alists \<Rightarrow> byte list \<Rightarrow> addr \<Rightarrow> us \<Rightarrow> bool" where
  "http_ok OS C U A R s st \<longleftrightarrow> ssl_usable OS C U A s st \<and> u_ext st (s_context (socks st s)) hc_length = int (length R) \<and>
     (\<exists>a pad. u_ext st (s_context (socks st s)) hc_response = int a \<and> u_heap st a = Some (R @ pad))"

lemma http_okD:
  assumes "http_ok OS C U A R s st"
  shows "is_sock st s" "us_socket_context s st = Some (s_context (socks st s))" "s_context (socks st s) \<noteq> s"
    "rd_cext (s_context (socks st s)) n st = Some (u_ext st (s_context (socks st s)) n)" "rd_ext s n st = Some (u_ext st s n)"
    "us_inv A st" "open_sock A s" "ssl_usable OS C U A s st"
proof -
  from assms have I: "us_inv A st" "open_sock A s" and u: "ssl_usable OS C U A s st" by (simp_all add: http_ok_def ssl_usable_def)
  note od = open_sockD [OF us_invD(1) [OF I(1)] I(2)]
  show "s_context (socks st s) \<noteq> s" using od(4,10) by (auto simp: is_ctx_def)
  show "is_sock st s" "us_socket_context s st = Some (s_context (socks st s))" "rd_ext s n st = Some (u_ext st s n)"
    "rd_cext (s_context (socks st s)) n st = Some (u_ext st (s_context (socks st s)) n)"
    using od(1,4) by (simp_all add: us_socket_context_def rd_ext_def rd_cext_def)
qed (use assms in \<open>simp_all add: http_ok_def ssl_usable_def\<close>)

text \<open>A write keeps the extensions, the offset is set, and the timer is set or not.\<close>

lemma http_write:
  assumes h: "http_ok OS C U A R s st"
  shows "\<exists>w st1. us_internal_ssl_socket_write OS K U s data False st = Some (int w, st1) \<and> w \<le> length data \<and>
    u_ext st1 = u_ext st \<and> http_ok OS C U A R s st1"
proof -
  note d = http_okD [OF h]
  from ssl_usable_write [OF d(8), of K data False] obtain r st1 where
    1: "us_internal_ssl_socket_write OS K U s data False st = Some (r, st1)" "0 \<le> r" "r \<le> int (length data)"
      "u_ext st1 = u_ext st" "u_heap st1 = u_heap st" "ssl_usable OS C U A s st1" by blast
  have "s_context (socks st1 s) = s_context (socks st s)"
    using ssl_socket_write_ok [of C OS A st s U K data False] d(8) 1(1) by (auto simp: ssl_usable_def ssl_flags_only_def)
  then have "http_ok OS C U A R s st1" using h 1(4-6) by (simp add: http_ok_def)
  then show ?thesis using 1 by (intro exI [of _ "nat r"]) auto
qed

lemma http_offset:
  assumes h: "http_ok OS C U A R s st"
  shows "\<exists>st'. wr_ext s hs_offset v st = Some st' \<and> http_ok OS C U A R s st' \<and> u_ext st' s hs_offset = v"
proof -
  note d = http_okD [OF h]
  have I: "us_inv A (st\<lparr>u_ext := (u_ext st)(s := (u_ext st s)(hs_offset := v))\<rparr>)" using d(6) by simp
  show ?thesis using h d(1,3) ssl_usable_upd [OF I d(8)] by (auto simp: wr_ext_def http_ok_def)
qed

lemma timeout_context: "us_socket_timeout s n st = Some st' \<Longrightarrow> s_context (socks st' t) = s_context (socks st t)"
  by (auto simp: us_socket_timeout_def wr_sock_def elim!: bind_eq_SomeE split: if_splits)

lemma http_timeout:
  assumes h: "http_ok OS C U A R s st"
  shows "\<exists>st'. us_socket_timeout s n st = Some st' \<and> http_ok OS C U A R s st' \<and> u_ext st' = u_ext st"
proof -
  note d = http_okD [OF h]
  obtain st' where st': "us_socket_timeout s n st = Some st'" "ssl_usable OS C U A s st'" "u_ext st' = u_ext st" "u_heap st' = u_heap st"
    using timeout_keeps [OF d(6,7), of n OS C U] d(8) by blast
  have "s_context (socks st' s) = s_context (socks st s)"
    using timeout_context [OF st'(1)] .
  then have "http_ok OS C U A R s st'" using h st'(2-4) by (simp add: http_ok_def)
  then show ?thesis using st'(1,3) by blast
qed

lemma response_load:
  assumes "http_ok OS C U A R s st" "n \<le> length R"
  shows "u_load (nat (u_ext st (s_context (socks st s)) hc_response)) (int n)
    (u_ext st (s_context (socks st s)) hc_length - int n) st = Some (drop n R)"
proof -
  obtain a pad where a: "u_ext st (s_context (socks st s)) hc_response = int a" "u_heap st a = Some (R @ pad)"
    "u_ext st (s_context (socks st s)) hc_length = int (length R)" using assms(1) by (auto simp: http_ok_def)
  have "int (length R) - int n = int (length (drop n R))" using assms(2) by simp
  then show ?thesis using a assms(2) by (simp add: u_load_def)
qed

text \<open>One step of each handler: what it gives to the write, and the offset it leaves.\<close>

lemma http_data_step:
  assumes h: "http_ok OS C U A R s st"
  shows "\<exists>w st1 st'. us_internal_ssl_socket_write OS K U s R False st = Some (int w, st1) \<and> w \<le> length R \<and>
    on_http_socket_data_hs OS K U s data st = Some (s, st') \<and> http_ok OS C U A R s st' \<and> u_ext st' s hs_offset = int w"
proof -
  note d = http_okD [OF h]
  from http_write [OF h, of K R] obtain w st1 where
    1: "us_internal_ssl_socket_write OS K U s R False st = Some (int w, st1)" "w \<le> length R" "http_ok OS C U A R s st1" by blast
  from http_offset [OF 1(3), of "int w"] obtain st2 where
    2: "wr_ext s hs_offset (int w) st1 = Some st2" "http_ok OS C U A R s st2" "u_ext st2 s hs_offset = int w" by blast
  from http_timeout [OF 2(2), of 30] obtain st3 where
    3: "us_socket_timeout s 30 st2 = Some st3" "http_ok OS C U A R s st3" "u_ext st3 = u_ext st2" by blast
  have "on_http_socket_data_hs OS K U s data st = Some (s, st3)"
    using d(2,4) response_load [OF h, of 0] 1(1) 2(1) 3(1) by (simp add: on_http_socket_data_hs_def us_socket_write_api_def)
  then show ?thesis using 1(1,2) 2(3) 3(2,3) by auto
qed

lemma http_writable_step:
  assumes h: "http_ok OS C U A R s st" and o: "u_ext st s hs_offset = int n" "n \<le> length R"
  shows "\<exists>w st1 st'. us_internal_ssl_socket_write OS K U s (drop n R) False st = Some (int w, st1) \<and> n + w \<le> length R \<and>
    on_http_socket_writable_hs OS K U s st = Some (s, st') \<and> http_ok OS C U A R s st' \<and> u_ext st' s hs_offset = int (n + w)"
proof -
  note d = http_okD [OF h]
  from http_write [OF h, of K "drop n R"] obtain w st1 where
    1: "us_internal_ssl_socket_write OS K U s (drop n R) False st = Some (int w, st1)" "w \<le> length (drop n R)"
      "http_ok OS C U A R s st1" by blast
  from http_offset [OF 1(3), of "int n + int w"] obtain st2 where
    2: "wr_ext s hs_offset (int n + int w) st1 = Some st2" "http_ok OS C U A R s st2" "u_ext st2 s hs_offset = int n + int w" by blast
  have "on_http_socket_writable_hs OS K U s st = Some (s, st2)"
    using d(2,4,5) o response_load [OF h o(2)] 1(1) 2(1) by (simp add: on_http_socket_writable_hs_def us_socket_write_api_def)
  then show ?thesis using 1(1,2) 2(2,3) o(2) by auto
qed

text \<open>What \<open>make_response\<close> leaves in the extension of the context is such a response.\<close>

lemma make_response_ok:
  assumes "user_alloc_ok K" "finite (dom (u_heap st))" "is_ctx st c"
  shows "\<exists>a pad st'. make_response K c st = Some st' \<and> u_ext st' c hc_length = int (length http_response) \<and>
    u_ext st' c hc_response = int a \<and> u_heap st' a = Some (http_response @ pad)"
proof -
  let ?n = "128 + length http_body"
  let ?a = "new_block_of K ?n st"
  have n: "?n = 179" and r: "length http_response = 90"
    by (simp_all add: http_response_def http_body_def bytes_def crlf_def dec.simps)
  have m: "u_malloc K 179 st = (?a, filled ?a (replicate 179 0) st)" using new_block_fresh(3) [OF assms(1,2), of ?n] n by simp
  let ?c = "http_response @ [0] @ replicate 88 0"
  have "u_heap x ?a = Some (replicate 179 0) \<Longrightarrow> u_store ?a 0 (http_response @ [0]) x =
      Some (x\<lparr>u_heap := (u_heap x)(?a \<mapsto> ?c)\<rparr>)" for x
    by (simp add: u_store_def r)
  then show ?thesis using m n r assms(3)
    by (simp add: make_response_def Let_def wr_cext_def u_snprintf_def filled_def is_ctx_def hc_length_def hc_response_def)
qed

text \<open>
  One request and then \<open>n\<close> writable events: the state after them, and the bytes that the writes of
  the handlers have taken, in order.
\<close>

fun http_stream :: "openssl \<Rightarrow> kernel \<Rightarrow> handlers \<Rightarrow> addr \<Rightarrow> byte list \<Rightarrow> byte list \<Rightarrow> nat \<Rightarrow> us \<Rightarrow> (byte list \<times> us) option" where
  "http_stream OS K U s R data 0 st = do {
     (w, _) \<leftarrow> us_internal_ssl_socket_write OS K U s R False st;
     (_, st) \<leftarrow> on_http_socket_data_hs OS K U s data st;
     Some (take (nat w) R, st)
   }"
| "http_stream OS K U s R data (Suc n) st = do {
     (sent, st) \<leftarrow> http_stream OS K U s R data n st;
     let rest = drop (nat (u_ext st s hs_offset)) R;
     (w, _) \<leftarrow> us_internal_ssl_socket_write OS K U s rest False st;
     (_, st) \<leftarrow> on_http_socket_writable_hs OS K U s st;
     Some (sent @ take (nat w) rest, st)
   }"


section \<open>At concrete states\<close>

definition http_demo :: us where
  "http_demo = ssl_demo\<lparr>u_ext := (\<lambda>_ _. 0)(100 := (\<lambda>_. 0)(hc_response := 500, hc_length := 3)), u_heap := [500 \<mapsto> [1, 2, 3, 0]]\<rparr>"

lemma http_demo_ok: "http_ok openssl2 (\<lambda>c. c = 100) handlers0 demo_lists [1, 2, 3] 21 http_demo"
proof -
  have I: "us_inv demo_lists http_demo" using echo_demo_usable(2) by (simp add: http_demo_def ssl_usable_def echo_demo_def)
  have "ssl_usable openssl2 (\<lambda>c. c = 100) handlers0 demo_lists 21 http_demo"
    by (rule ssl_usable_upd [OF I echo_demo_usable(2)]) (simp_all add: http_demo_def echo_demo_def)
  moreover have "s_context (socks http_demo 21) = 100" by (simp add: http_demo_def ssl_demo_def demo_def sock0_def)
  ultimately show ?thesis
    by (auto simp: http_ok_def http_demo_def hc_response_def hc_length_def)
qed


lemma vary_request_example:
  "\<exists>st1 st2 a ds. prepare_requests kernel0 request_template (bytes ''/{n}'') (set_glob g_pipeline 2 (hl_initial demo)) = Some st1 \<and>
     vary_times 3 st1 = Some st2 \<and> glob g_request st2 = int a \<and> length ds = 2 \<and> dec_value (ds ! 1) = 5 \<and>
     u_heap st2 a = Some (concat (map (\<lambda>d. fmt_s request_template (bytes ''/'' @ d)) ds))"
proof -
  let ?st = "set_glob g_pipeline 2 (hl_initial demo)"
  have "\<exists>st1 st2 a ds. prepare_requests kernel0 request_template (bytes ''/{n}'') ?st = Some st1 \<and>
    vary_times (Suc 2) st1 = Some st2 \<and> glob g_request st2 = int a \<and> length ds = 2 \<and>
    u_heap st2 a = Some (concat (map (\<lambda>d. fmt_s request_template (take 1 (bytes ''/{n}'') @ d @ drop (1 + 3) (bytes ''/{n}''))) ds)) \<and>
    (\<forall>j<2. length (ds ! j) = VARY_WIDTH \<and> set (ds ! j) \<subseteq> {48..57} \<and>
       dec_value (ds ! j) = unat ((0 :: u32) + of_nat (2 * 2 + j)) mod 10 ^ VARY_WIDTH) \<and>
    u_heap ?st a = None \<and> (\<forall>b. b \<noteq> a \<longrightarrow> u_heap st2 b = u_heap ?st b)"
    by (rule vary_request_correct [OF kernel0_user_alloc])
      (simp_all add: hl_initial_def glob_defs glob_def set_glob_def bytes_def demo_def)
  then obtain st1 st2 a ds where 1: "prepare_requests kernel0 request_template (bytes ''/{n}'') ?st = Some st1"
    "vary_times (Suc 2) st1 = Some st2" "glob g_request st2 = int a" "length ds = 2"
    "u_heap st2 a = Some (concat (map (\<lambda>d. fmt_s request_template (take 1 (bytes ''/{n}'') @ d @ drop (1 + 3) (bytes ''/{n}''))) ds))"
    and 2: "\<forall>j<2. dec_value (ds ! j) = unat ((0 :: u32) + of_nat (2 * 2 + j)) mod 10 ^ VARY_WIDTH" by blast
  have path: "take 1 (bytes ''/{n}'') = bytes ''/''" "drop (1 + 3) (bytes ''/{n}'') = []" by (simp_all add: bytes_def)
  have "dec_value (ds ! 1) = 5" using 2 [rule_format, of 1] by (simp add: VARY_WIDTH_def)
  moreover have "vary_times 3 st1 = Some st2" using 1(2) by (simp only: eval_nat_numeral)
  ultimately show ?thesis using 1(1,3-5) unfolding path append_Nil2 by blast
qed

end
